(* ===== verification/MW_Prelude.thy ===== *)
theory MW_Prelude
  imports Main "HOL-Library.Word" "HOL-Library.Signed_Division"
begin

text \<open>
  What the component theories share: the C++ integer conversions of the sources, the division
  that truncates towards zero, and the interface locales of a component driven by a sequence of
  calls.

  Signed C++ integers (\<open>int\<close>, \<open>int64_t\<close>, \<open>qint64\<close>) are HOL integers: signed overflow is
  undefined in C++, so a signed computation is its mathematical value wherever the program has a
  meaning at all. The narrowing conversions the code writes out (\<open>static_cast\<close>) are the functions
  \<open>i32\<close>, \<open>u16\<close> and \<open>u32\<close> below, and unsigned arithmetic is reduced by them at every operation.
  Division is \<open>sdiv\<close>, which truncates as C++ does.
\<close>

named_theorems cint \<open>facts on the C++ integer conversions and divisions\<close>
named_theorems tunables \<open>the constants the sources name\<close>

section \<open>Letters\<close>

definition lower :: "char \<Rightarrow> char" where
  "lower c = (if 65 \<le> (of_char c :: nat) \<and> (of_char c :: nat) \<le> 90 then char_of ((of_char c :: nat) + 32) else c)"

section \<open>Conversions between the integer types\<close>

definition u8 :: "int \<Rightarrow> int" where
  "u8 x = x mod 2 ^ 8"

definition u16 :: "int \<Rightarrow> int" where
  "u16 x = x mod 2 ^ 16"

definition u32 :: "int \<Rightarrow> int" where
  "u32 x = x mod 2 ^ 32"

definition i32 :: "int \<Rightarrow> int" where
  "i32 x = (x + 2 ^ 31) mod 2 ^ 32 - 2 ^ 31"

text \<open>The range of an \<open>int\<close> and of an \<open>int64_t\<close>, for the theorems that no computation leaves it.\<close>

definition int32_ok :: "int \<Rightarrow> bool" where
  "int32_ok x \<longleftrightarrow> - (2 ^ 31) \<le> x \<and> x < 2 ^ 31"

definition int64_ok :: "int \<Rightarrow> bool" where
  "int64_ok x \<longleftrightarrow> - (2 ^ 63) \<le> x \<and> x < 2 ^ 63"

lemma u8_id [cint, simp]: "0 \<le> x \<Longrightarrow> x < 256 \<Longrightarrow> u8 x = x"
  by (simp add: u8_def)

lemma u16_id [cint, simp]: "0 \<le> x \<Longrightarrow> x < 65536 \<Longrightarrow> u16 x = x"
  by (simp add: u16_def)

lemma u32_id [cint, simp]: "0 \<le> x \<Longrightarrow> x < 4294967296 \<Longrightarrow> u32 x = x"
  by (simp add: u32_def)

lemma i32_id [cint, simp]: "- 2147483648 \<le> x \<Longrightarrow> x < 2147483648 \<Longrightarrow> i32 x = x"
  by (simp add: i32_def)

lemma u16_range: "0 \<le> u16 x \<and> u16 x < 65536"
  by (simp add: u16_def)

lemma u32_range: "0 \<le> u32 x \<and> u32 x < 4294967296"
  by (simp add: u32_def)

lemma u32_nonneg [simp]: "0 \<le> u32 x"
  by (simp add: u32_def)

lemma u32_less [simp]: "u32 x < 4294967296"
  by (simp add: u32_def)

lemma i32_range: "int32_ok (i32 x)"
  by (simp add: i32_def int32_ok_def)

section \<open>Division that truncates towards zero\<close>

lemma sdiv_nonneg [cint, simp]: "0 \<le> (a::int) \<Longrightarrow> 0 \<le> b \<Longrightarrow> a sdiv b = a div b"
  by (cases "a = 0"; cases "b = 0") (simp_all add: signed_divide_int_def sgn_if)

lemma sdiv_nonneg_ge_0: "0 \<le> (a::int) \<Longrightarrow> 0 \<le> b \<Longrightarrow> 0 \<le> a sdiv b"
  by (simp add: pos_imp_zdiv_nonneg_iff zdiv_eq_0_iff div_int_pos_iff)

lemma div_mono_dividend: "(a::int) \<le> b \<Longrightarrow> 0 < c \<Longrightarrow> a div c \<le> b div c"
  by (rule zdiv_mono1)

lemma le_div_iff: "0 < (c::int) \<Longrightarrow> a \<le> b div c \<longleftrightarrow> a * c \<le> b"
proof
  assume c: "0 < c" and "a \<le> b div c"
  then have "a * c \<le> b div c * c" by simp
  also have "\<dots> \<le> b" using c by (simp add: div_mult_mod_eq minus_mod_eq_div_mult [symmetric])
  finally show "a * c \<le> b" .
next
  assume c: "0 < c" and "a * c \<le> b"
  then have "a * c div c \<le> b div c" by (intro zdiv_mono1) auto
  with c show "a \<le> b div c" by simp
qed

lemma div_lt_iff: "0 < (c::int) \<Longrightarrow> a div c < b \<longleftrightarrow> a < b * c"
  using le_div_iff [of c b a] by linarith

lemma div_mult_le: "0 < (c::int) \<Longrightarrow> b div c * c \<le> b"
  by (simp flip: le_div_iff)

lemma less_div_mult: "0 < (c::int) \<Longrightarrow> b < (b div c + 1) * c"
  by (metis le_div_iff linorder_not_le zless_add1_eq)

section \<open>Decimal text\<close>

text \<open>\<open>std::to_string\<close> of an integer: a minus sign and the decimal digits, no leading zero.\<close>

fun digits :: "nat \<Rightarrow> string" where
  "digits n = (if n < 10 then [char_of (48 + n)] else digits (n div 10) @ [char_of (48 + n mod 10)])"

declare digits.simps [simp del]

definition to_string :: "int \<Rightarrow> string" where
  "to_string x = (if x < 0 then CHR ''-'' # digits (nat (- x)) else digits (nat x))"

lemma digits_not_Nil [simp]: "digits n \<noteq> []"
  by (subst digits.simps) simp

section \<open>Components as machines driven by calls\<close>

text \<open>
  Most components are an object whose methods are called one after the other. The locale
  \<open>call_machine\<close> is what its owner relies on: the calls, and an invariant every call keeps. What
  follows for any sequence of calls is proved once here, and each component interprets it with its
  own step function. \<open>guarded_machine\<close> is the same for an object whose caller promises something
  about every call (a clock that does not go back, a rate that is positive).
\<close>

fun legal :: "('e \<Rightarrow> 's \<Rightarrow> bool) \<Rightarrow> ('e \<Rightarrow> 's \<Rightarrow> 's) \<Rightarrow> 'e list \<Rightarrow> 's \<Rightarrow> bool" where
  "legal ok step [] s = True"
| "legal ok step (e # es) s = (ok e s \<and> legal ok step es (step e s))"

lemma legal_append [simp]:
  "legal ok step (es @ fs) s \<longleftrightarrow> legal ok step es s \<and> legal ok step fs (fold step es s)"
  by (induction es arbitrary: s) auto

lemma legal_True [simp]: "legal (\<lambda>_ _. True) step es s"
  by (induction es arbitrary: s) auto

locale guarded_machine =
  fixes step :: "'e \<Rightarrow> 's \<Rightarrow> 's"
    and ok :: "'e \<Rightarrow> 's \<Rightarrow> bool"
    and inv :: "'s \<Rightarrow> bool"
  assumes inv_step: "inv s \<Longrightarrow> ok e s \<Longrightarrow> inv (step e s)"
begin

lemma inv_run: "inv s \<Longrightarrow> legal ok step es s \<Longrightarrow> inv (fold step es s)"
  by (induction es arbitrary: s) (auto intro: inv_step)

lemma run_bound:
  fixes m :: "'s \<Rightarrow> int"
  assumes grow: "\<And>s e. inv s \<Longrightarrow> ok e s \<Longrightarrow> m s + c e \<le> m (step e s)"
    and inv: "inv s" and legal: "legal ok step es s"
  shows "m s + sum_list (map c es) \<le> m (fold step es s)"
  using inv legal
proof (induction es arbitrary: s)
  case Nil
  then show ?case by simp
next
  case (Cons e es)
  then have "m s + c e \<le> m (step e s)" by (simp add: grow)
  moreover have "m (step e s) + sum_list (map c es) \<le> m (fold step es (step e s))"
    using Cons by (simp add: inv_step)
  ultimately show ?case by simp
qed

lemma run_mono:
  fixes m :: "'s \<Rightarrow> 'a::preorder"
  assumes grow: "\<And>s e. inv s \<Longrightarrow> ok e s \<Longrightarrow> m s \<le> m (step e s)"
    and "inv s" "legal ok step es s"
  shows "m s \<le> m (fold step es s)"
  using assms(2,3)
proof (induction es arbitrary: s)
  case Nil
  then show ?case by simp
next
  case (Cons e es)
  then have "m s \<le> m (step e s)" and "m (step e s) \<le> m (fold step es (step e s))"
    by (simp_all add: grow inv_step)
  then show ?case using order_trans by simp blast
qed

end

locale call_machine = guarded_machine step "\<lambda>_ _. True" inv
  for step :: "'e \<Rightarrow> 's \<Rightarrow> 's" and inv :: "'s \<Rightarrow> bool"
begin

lemma inv_calls: "inv s \<Longrightarrow> inv (fold step es s)"
  by (rule inv_run) simp_all

lemma calls_mono:
  fixes m :: "'s \<Rightarrow> 'a::preorder"
  assumes "\<And>s e. inv s \<Longrightarrow> m s \<le> m (step e s)" and "inv s"
  shows "m s \<le> m (fold step es s)"
  by (rule run_mono) (use assms in simp_all)

end

end
