(* ===== verification/Rate_Control.thy ===== *)
theory Rate_Control
  imports MW_Prelude
begin

text \<open>
  The rate arithmetic every encoder shares (\<open>native-host/src/encode/RateControl.h\<close>): the VBV of one
  frame, the intra-refresh sweep, \<open>EffectiveCadence\<close> (the rate frames are really produced at),
  the still-picture budget, \<open>LinkOccupancy\<close> (the link as a pipe at the stream's bitrate) and
  \<open>RefineConvergence\<close> (the exit of the refinement burst).
\<close>

section \<open>The VBV of one frame\<close>

definition kVbvFrameRateFloor :: int where
  [tunables]: "kVbvFrameRateFloor = 60"

definition vbvBitsPerFrame :: "int \<Rightarrow> int \<Rightarrow> int" where
  "vbvBitsPerFrame bitsPerSecond fps =
     (let rate = (if fps > kVbvFrameRateFloor then kVbvFrameRateFloor else if fps > 0 then fps else 60)
      in bitsPerSecond div u32 rate)"

definition vbvBits :: "int \<Rightarrow> int \<Rightarrow> int \<Rightarrow> int" where
  "vbvBits bitsPerSecond fps frames =
     (if frames \<le> 0 then vbvBitsPerFrame bitsPerSecond fps
      else let rate = (if fps > 0 then fps else 60)
           in u32 (bitsPerSecond * u32 frames div u32 rate))"

section \<open>The intra-refresh sweep\<close>

definition kIntraRefreshSeconds :: int where
  [tunables]: "kIntraRefreshSeconds = 2"

definition kIntraRefreshMinFrames :: int where
  [tunables]: "kIntraRefreshMinFrames = 30"

definition kIntraRefreshMaxFrames :: int where
  [tunables]: "kIntraRefreshMaxFrames = 600"

definition kIntraRefreshSpacing :: int where
  [tunables]: "kIntraRefreshSpacing = 4"

definition intraRefreshPeriodFrames :: "int \<Rightarrow> int" where
  "intraRefreshPeriodFrames fps =
     (let rate = (if fps > 0 then fps else 60);
          period = rate * kIntraRefreshSeconds
      in if period < kIntraRefreshMinFrames then kIntraRefreshMinFrames
         else if period > kIntraRefreshMaxFrames then kIntraRefreshMaxFrames
         else period)"

definition intraRefreshCountFrames :: "int \<Rightarrow> int" where
  "intraRefreshCountFrames fps = intraRefreshPeriodFrames fps sdiv 2"

definition intraRefreshDistanceFrames :: "int \<Rightarrow> int" where
  "intraRefreshDistanceFrames fps = intraRefreshPeriodFrames fps * kIntraRefreshSpacing"

section \<open>EffectiveCadence: the rate frames are really produced at\<close>

definition ec_kWindowUs :: int where
  [tunables]: "ec_kWindowUs = 1000 * 1000"

definition ec_kRaiseWindowUs :: int where
  [tunables]: "ec_kRaiseWindowUs = 250 * 1000"

definition ec_kMinFps :: int where
  [tunables]: "ec_kMinFps = 30"

definition ec_kHysteresisPercent :: int where
  [tunables]: "ec_kHysteresisPercent = 15"

definition ec_kLowerAfterWindows :: int where
  [tunables]: "ec_kLowerAfterWindows = 2"

record EffectiveCadence =
  configuredFps :: int
  encoderFps :: int
  currentFps :: int
  ec_windowStartUs :: int
  framesInWindow :: int
  raiseWindowStartUs :: int
  framesInRaiseWindow :: int
  lowerStreak :: int
  ec_changes :: int

text \<open>The object as its member initialisers leave it.\<close>

definition ec_new :: EffectiveCadence where
  "ec_new = \<lparr>configuredFps = 60, encoderFps = 60, currentFps = 60, ec_windowStartUs = 0,
     framesInWindow = 0, raiseWindowStartUs = 0, framesInRaiseWindow = 0, lowerStreak = 0,
     ec_changes = 0\<rparr>"

definition ec_start :: "int \<Rightarrow> int \<Rightarrow> EffectiveCadence \<Rightarrow> EffectiveCadence" where
  "ec_start fps nowUs c =
     (let f = (if fps > 0 then fps else 60)
      in c\<lparr>configuredFps := f, encoderFps := f, currentFps := f, ec_windowStartUs := nowUs,
           raiseWindowStartUs := nowUs, framesInWindow := 0, framesInRaiseWindow := 0,
           lowerStreak := 0\<rparr>)"

definition ratePerSecond :: "int \<Rightarrow> int \<Rightarrow> int" where
  "ratePerSecond frames spanUs =
     (if spanUs \<le> 0 then 0 else i32 ((frames * 1000000 + spanUs sdiv 2) sdiv spanUs))"

definition raiseTo :: "int \<Rightarrow> EffectiveCadence \<Rightarrow> bool \<times> EffectiveCadence" where
  "raiseTo measured c =
     (let target = (if measured > configuredFps c then configuredFps c else measured)
      in if target \<le> currentFps c + currentFps c * ec_kHysteresisPercent sdiv 100 then (False, c)
         else (True, c\<lparr>currentFps := target, lowerStreak := 0, ec_changes := ec_changes c + 1\<rparr>))"

definition evaluate :: "int \<Rightarrow> EffectiveCadence \<Rightarrow> bool \<times> EffectiveCadence" where
  "evaluate measured c =
     (let target = measured;
          target = (if target > configuredFps c then configuredFps c else target);
          target = (if target < ec_kMinFps then ec_kMinFps else target);
          (raised, c) = raiseTo target c
      in if raised then (True, c)
         else if target < currentFps c - currentFps c * ec_kHysteresisPercent sdiv 100 then
           let c = c\<lparr>lowerStreak := lowerStreak c + 1\<rparr>
           in if lowerStreak c \<ge> ec_kLowerAfterWindows
              then (True, c\<lparr>currentFps := target, lowerStreak := 0, ec_changes := ec_changes c + 1\<rparr>)
              else (False, c)
         else (False, c\<lparr>lowerStreak := 0\<rparr>))"

definition noteFrame :: "int \<Rightarrow> EffectiveCadence \<Rightarrow> bool \<times> EffectiveCadence" where
  "noteFrame nowUs c =
     (let c = c\<lparr>framesInWindow := framesInWindow c + 1,
                framesInRaiseWindow := framesInRaiseWindow c + 1\<rparr>;
          (changed, c) =
            (if nowUs - raiseWindowStartUs c \<ge> ec_kRaiseWindowUs then
               let quick = ratePerSecond (framesInRaiseWindow c) (nowUs - raiseWindowStartUs c)
               in raiseTo quick (c\<lparr>raiseWindowStartUs := nowUs, framesInRaiseWindow := 0\<rparr>)
             else (False, c))
      in if nowUs - ec_windowStartUs c < ec_kWindowUs then (changed, c)
         else let measured = ratePerSecond (framesInWindow c) (nowUs - ec_windowStartUs c);
                  (evaluated, c) =
                    evaluate measured (c\<lparr>ec_windowStartUs := nowUs, framesInWindow := 0\<rparr>)
              in (evaluated \<or> changed, c))"

definition scaledKbps :: "int \<Rightarrow> EffectiveCadence \<Rightarrow> int" where
  "scaledKbps kbps c =
     (if currentFps c \<le> 0 \<or> currentFps c = encoderFps c then kbps
      else i32 (kbps * encoderFps c sdiv currentFps c))"

definition retarget :: "int \<Rightarrow> EffectiveCadence \<Rightarrow> bool \<times> EffectiveCadence" where
  "retarget fps c =
     (if fps \<le> 0 \<or> fps = configuredFps c then (False, c)
      else let before = scaledKbps 1000000 c;
               c = c\<lparr>configuredFps := fps, currentFps := fps, lowerStreak := 0,
                     ec_changes := ec_changes c + 1\<rparr>
           in (scaledKbps 1000000 c \<noteq> before, c))"

definition scaling :: "EffectiveCadence \<Rightarrow> bool" where
  "scaling c \<longleftrightarrow> currentFps c \<noteq> encoderFps c"

section \<open>The still picture's budget\<close>

definition kStillBoost :: int where
  [tunables]: "kStillBoost = 3"

definition kStillMaxKbps :: int where
  [tunables]: "kStillMaxKbps = 500000"

definition stillBitrateKbps :: "int \<Rightarrow> int" where
  "stillBitrateKbps streamKbps =
     (if streamKbps \<le> 0 then streamKbps
      else let boosted = streamKbps * kStillBoost
           in i32 (if boosted > kStillMaxKbps then kStillMaxKbps else boosted))"

section \<open>LinkOccupancy: the link as a pipe at the stream's bitrate\<close>

record LinkOccupancy =
  busyUntilUs :: int

definition link_sent :: "int \<Rightarrow> int \<Rightarrow> int \<Rightarrow> LinkOccupancy \<Rightarrow> LinkOccupancy" where
  "link_sent nowUs bytes kbps l =
     (if kbps \<le> 0 then l
      else let start = (if busyUntilUs l > nowUs then busyUntilUs l else nowUs)
           in l\<lparr>busyUntilUs := start + bytes * 8000 sdiv kbps\<rparr>)"

definition backlogUs :: "int \<Rightarrow> LinkOccupancy \<Rightarrow> int" where
  "backlogUs nowUs l = (if busyUntilUs l > nowUs then busyUntilUs l - nowUs else 0)"

definition drainedAt :: "int \<Rightarrow> LinkOccupancy \<Rightarrow> bool" where
  "drainedAt nowUs l \<longleftrightarrow> nowUs \<ge> busyUntilUs l"

section \<open>RefineConvergence: the exit of the refinement burst\<close>

definition kMinPasses :: int where
  [tunables]: "kMinPasses = 4"

definition kMaxPasses :: int where
  [tunables]: "kMaxPasses = 8"

definition kQuietBytes :: int where
  [tunables]: "kQuietBytes = 2048"

definition kQuietPasses :: int where
  [tunables]: "kQuietPasses = 2"

datatype Verdict = Continue | Converged | Capped

record RefineConvergence =
  passes :: int
  quiet :: int
  lastQp :: int

definition refine_reset :: RefineConvergence where
  "refine_reset = \<lparr>passes = 0, quiet = 0, lastQp = - 1\<rparr>"

definition notePass :: "int \<Rightarrow> int \<Rightarrow> RefineConvergence \<Rightarrow> Verdict \<times> RefineConvergence" where
  "notePass bytes avgQp r =
     (let r = r\<lparr>passes := passes r + 1\<rparr>;
          tiny = (bytes \<le> kQuietBytes);
          qpFlat = (avgQp \<ge> 0 \<and> lastQp r \<ge> 0 \<and> avgQp \<ge> lastQp r);
          r = r\<lparr>lastQp := avgQp\<rparr>;
          r = r\<lparr>quiet := (if passes r \<ge> kMinPasses \<and> (tiny \<or> qpFlat) then quiet r + 1 else 0)\<rparr>
      in if quiet r \<ge> kQuietPasses then (Converged, r)
         else if passes r \<ge> kMaxPasses then (Capped, r)
         else (Continue, r))"

section \<open>Properties: the VBV, the sweep and the still budget\<close>

lemma vbv_rate: "(if fps > kVbvFrameRateFloor then kVbvFrameRateFloor else if fps > 0 then fps else 60)
    = (if 0 < fps \<and> fps \<le> 60 then fps else 60)"
  by (simp add: tunables)

lemma vbvBitsPerFrame_eq:
  "vbvBitsPerFrame bps fps = bps div (if 0 < fps \<and> fps \<le> 60 then fps else 60)"
  by (auto simp: vbvBitsPerFrame_def Let_def vbv_rate tunables)

text \<open>
  The VBV is one frame's worth at the stream's rate and never less than a sixtieth of a second's
  worth: the floor of the rule, for every rate, and its link time (the bits of one frame at the
  stream's bitrate) is the frame interval whenever the rate is 60 or less.
\<close>

lemma vbvBitsPerFrame_floor:
  "0 \<le> bps \<Longrightarrow> bps div 60 \<le> vbvBitsPerFrame bps fps"
  by (auto simp: vbvBitsPerFrame_eq intro: zdiv_mono2)

lemma vbvBitsPerFrame_occupancy:
  "0 \<le> bps \<Longrightarrow> 0 < fps \<Longrightarrow> fps \<le> 60 \<Longrightarrow>
   vbvBitsPerFrame bps fps * fps \<le> bps \<and> bps < (vbvBitsPerFrame bps fps + 1) * fps"
  by (simp add: vbvBitsPerFrame_eq div_mult_le less_div_mult)

lemma intraRefresh_range:
  "kIntraRefreshMinFrames \<le> intraRefreshPeriodFrames fps \<and>
   intraRefreshPeriodFrames fps \<le> kIntraRefreshMaxFrames"
  by (simp add: intraRefreshPeriodFrames_def Let_def tunables)

lemma intraRefresh_two_seconds:
  "15 \<le> fps \<Longrightarrow> fps \<le> 300 \<Longrightarrow> intraRefreshPeriodFrames fps = 2 * fps"
  by (auto simp: intraRefreshPeriodFrames_def Let_def tunables)

lemma intraRefresh_band_fits:
  "0 < intraRefreshCountFrames fps \<and>
   intraRefreshCountFrames fps < intraRefreshPeriodFrames fps \<and>
   intraRefreshPeriodFrames fps < intraRefreshDistanceFrames fps"
proof -
  have "30 \<le> intraRefreshPeriodFrames fps"
    using intraRefresh_range [of fps] by (simp add: tunables)
  then show ?thesis
    unfolding intraRefreshCountFrames_def intraRefreshDistanceFrames_def tunables by simp linarith
qed

lemma stillBitrateKbps_eq:
  "0 < kbps \<Longrightarrow> stillBitrateKbps kbps = min (3 * kbps) 500000"
  by (simp add: stillBitrateKbps_def Let_def tunables min_def)

section \<open>Properties: EffectiveCadence\<close>

definition cadence_inv :: "EffectiveCadence \<Rightarrow> bool" where
  "cadence_inv c \<longleftrightarrow>
     1 \<le> configuredFps c \<and> 1 \<le> encoderFps c \<and>
     min ec_kMinFps (configuredFps c) \<le> currentFps c \<and> currentFps c \<le> configuredFps c \<and>
     0 \<le> lowerStreak c \<and> lowerStreak c < ec_kLowerAfterWindows"

datatype CadenceCall = NoteFrame int | Evaluate int | Retarget int

fun cadence_call :: "CadenceCall \<Rightarrow> EffectiveCadence \<Rightarrow> EffectiveCadence" where
  "cadence_call (NoteFrame nowUs) c = snd (noteFrame nowUs c)"
| "cadence_call (Evaluate measured) c = snd (evaluate measured c)"
| "cadence_call (Retarget fps) c = snd (retarget fps c)"

text \<open>The hysteresis band around the current rate, written without the truncating division.\<close>

lemma hysteresis_up:
  "0 \<le> (x::int) \<Longrightarrow> t \<le> x + x * ec_kHysteresisPercent sdiv 100 \<longleftrightarrow> t \<le> x + x * 15 div 100"
  by (simp add: tunables)

lemma hysteresis_down:
  "0 \<le> (x::int) \<Longrightarrow> t < x - x * ec_kHysteresisPercent sdiv 100 \<longleftrightarrow> t < x - x * 15 div 100"
  by (simp add: tunables)

lemma cadence_inv_start: "cadence_inv (ec_start fps nowUs c)"
  by (simp add: cadence_inv_def ec_start_def Let_def tunables)

lemma cadence_inv_clock [simp]:
  "cadence_inv (c\<lparr>ec_windowStartUs := a\<rparr>) = cadence_inv c"
  "cadence_inv (c\<lparr>framesInWindow := b\<rparr>) = cadence_inv c"
  "cadence_inv (c\<lparr>raiseWindowStartUs := d\<rparr>) = cadence_inv c"
  "cadence_inv (c\<lparr>framesInRaiseWindow := e\<rparr>) = cadence_inv c"
  by (simp_all add: cadence_inv_def)

lemma raiseTo_step:
  assumes "cadence_inv c"
  shows "cadence_inv (snd (raiseTo m c))"
    and "fst (raiseTo m c) \<longleftrightarrow> currentFps c < currentFps (snd (raiseTo m c))"
    and "\<not> fst (raiseTo m c) \<Longrightarrow> snd (raiseTo m c) = c"
  using assms
  by (auto simp: raiseTo_def Let_def cadence_inv_def hysteresis_up min_def tunables
      split: if_splits)

lemma raiseTo_frame:
  "ec_windowStartUs (snd (raiseTo m c)) = ec_windowStartUs c"
  "lowerStreak (snd (raiseTo m c)) = (if fst (raiseTo m c) then 0 else lowerStreak c)"
  by (simp_all add: raiseTo_def Let_def)

lemma evaluate_step:
  assumes "cadence_inv c"
  shows "cadence_inv (snd (evaluate m c))"
    and "fst (evaluate m c) \<longleftrightarrow> currentFps (snd (evaluate m c)) \<noteq> currentFps c"
    and "currentFps (snd (evaluate m c)) < currentFps c \<Longrightarrow>
           lowerStreak c = 1 \<and> m < currentFps c - currentFps c * 15 div 100"
  using assms
  by (auto simp: evaluate_def raiseTo_def Let_def cadence_inv_def hysteresis_up hysteresis_down
      min_def tunables split: if_splits)

text \<open>
  One captured frame: the quick look may raise, the closed window may raise or lower. A raise
  resets the streak, so the two never work against each other within one call.
\<close>

lemma noteFrame_step:
  assumes "cadence_inv c"
  shows "cadence_inv (snd (noteFrame now c))"
    and "fst (noteFrame now c) \<longleftrightarrow> currentFps (snd (noteFrame now c)) \<noteq> currentFps c"
    and "currentFps (snd (noteFrame now c)) < currentFps c \<Longrightarrow>
           lowerStreak c = 1 \<and> ec_kWindowUs \<le> now - ec_windowStartUs c"
proof -
  define c1 where "c1 = c\<lparr>framesInWindow := framesInWindow c + 1,
    framesInRaiseWindow := framesInRaiseWindow c + 1\<rparr>"
  define q where "q = (if now - raiseWindowStartUs c1 \<ge> ec_kRaiseWindowUs
    then raiseTo (ratePerSecond (framesInRaiseWindow c1) (now - raiseWindowStartUs c1))
           (c1\<lparr>raiseWindowStartUs := now, framesInRaiseWindow := 0\<rparr>)
    else (False, c1))"
  define c2 where "c2 = (snd q)\<lparr>ec_windowStartUs := now, framesInWindow := 0\<rparr>"
  define m where "m = ratePerSecond (framesInWindow (snd q)) (now - ec_windowStartUs (snd q))"
  have eq: "noteFrame now c = (if now - ec_windowStartUs (snd q) < ec_kWindowUs then q
      else (fst (evaluate m c2) \<or> fst q, snd (evaluate m c2)))"
    unfolding noteFrame_def c2_def m_def q_def c1_def by (simp add: Let_def case_prod_beta)
  define c' where "c' = c1\<lparr>raiseWindowStartUs := now, framesInRaiseWindow := 0\<rparr>"
  have c': "cadence_inv c'" "currentFps c' = currentFps c" "lowerStreak c' = lowerStreak c"
      "ec_windowStartUs c' = ec_windowStartUs c"
    and c1: "cadence_inv c1" "currentFps c1 = currentFps c" "lowerStreak c1 = lowerStreak c"
      "ec_windowStartUs c1 = ec_windowStartUs c"
    using assms by (simp_all add: c'_def c1_def)
  have q: "cadence_inv (snd q)" "ec_windowStartUs (snd q) = ec_windowStartUs c"
    "fst q \<longleftrightarrow> currentFps c < currentFps (snd q)"
    "lowerStreak (snd q) = (if fst q then 0 else lowerStreak c)"
    "\<not> fst q \<Longrightarrow> currentFps (snd q) = currentFps c"
    using c' c1 raiseTo_step [OF c'(1)] raiseTo_frame [of _ c']
    unfolding q_def c'_def [symmetric] by (simp_all split: if_splits) metis
  have c2: "cadence_inv c2" "currentFps c2 = currentFps (snd q)"
    "lowerStreak c2 = lowerStreak (snd q)"
    using q(1) by (simp_all add: c2_def)
  note ev = evaluate_step [OF c2(1), of m]
  show "cadence_inv (snd (noteFrame now c))" using eq q(1) ev(1) by simp
  show "fst (noteFrame now c) \<longleftrightarrow> currentFps (snd (noteFrame now c)) \<noteq> currentFps c"
    using eq q c2 ev(2,3) by (cases "fst q") auto
  show "currentFps (snd (noteFrame now c)) < currentFps c \<Longrightarrow>
           lowerStreak c = 1 \<and> ec_kWindowUs \<le> now - ec_windowStartUs c"
    using eq q c2 ev(3) by (cases "fst q") (auto split: if_splits)
qed

lemma retarget_inv: "cadence_inv c \<Longrightarrow> cadence_inv (snd (retarget fps c))"
  by (auto simp: retarget_def Let_def cadence_inv_def tunables)

interpretation cadence: call_machine cadence_call cadence_inv
proof
  fix e c
  assume "cadence_inv c"
  then show "cadence_inv (cadence_call e c)"
    by (cases e) (auto intro: noteFrame_step evaluate_step retarget_inv)
qed

lemma cadence_run_inv: "cadence_inv (fold cadence_call calls (ec_start fps nowUs c0))"
  by (rule cadence.inv_calls) (rule cadence_inv_start)

text \<open>Whatever sequence of frames, measurements and gate changes follows \<open>start\<close>, the rate the
  encoder's budget is dimensioned for stays at or under the configured rate and at or over 30 frames
  a second (or the configured rate, when that is lower).\<close>

theorem cadence_within_setting:
  "min 30 (configuredFps (fold cadence_call calls (ec_start fps nowUs c0)))
     \<le> currentFps (fold cadence_call calls (ec_start fps nowUs c0)) \<and>
   currentFps (fold cadence_call calls (ec_start fps nowUs c0))
     \<le> configuredFps (fold cadence_call calls (ec_start fps nowUs c0))"
  using cadence_run_inv [of calls fps nowUs c0] by (auto simp: cadence_inv_def tunables)

text \<open>After any run, \<open>noteFrame\<close> answers true exactly when it moved the rate, and it lowers the
  rate only when a one-second window has just closed and the window before it was slow already: a
  single hitch never inflates the next second's frames.\<close>

theorem noteFrame_answer:
  assumes "c = fold cadence_call calls (ec_start fps startUs c0)"
  shows "(fst (noteFrame nowUs c) \<longleftrightarrow> currentFps (snd (noteFrame nowUs c)) \<noteq> currentFps c) \<and>
    (currentFps (snd (noteFrame nowUs c)) < currentFps c \<longrightarrow>
       lowerStreak c = 1 \<and> ec_windowStartUs c + 1000000 \<le> nowUs)"
proof -
  have "cadence_inv c" unfolding assms by (rule cadence_run_inv)
  from noteFrame_step [OF this, of nowUs] show ?thesis by (auto simp: tunables)
qed

text \<open>The budget keeps the wire at the configured bitrate: the frames encoded at the current rate,
  each with the share the encoder gives one frame of the scaled bitrate, add up to the viewer's
  bitrate, short of it by less than the rounding of one division.\<close>

theorem scaledKbps_wire:
  assumes c: "c = fold cadence_call calls (ec_start fps startUs c0)"
    and kbps: "0 \<le> kbps" "kbps * encoderFps c < 2147483648 * currentFps c"
  shows "scaledKbps kbps c * currentFps c \<le> kbps * encoderFps c \<and>
         kbps * encoderFps c < (scaledKbps kbps c + 1) * currentFps c"
proof -
  have inv: "cadence_inv c" unfolding c by (rule cadence_run_inv)
  then have pos: "0 < currentFps c" "0 < encoderFps c" by (auto simp: cadence_inv_def tunables)
  have "kbps * encoderFps c div currentFps c < 2147483648"
    using kbps(2) pos by (simp add: div_lt_iff)
  moreover have "0 \<le> kbps * encoderFps c div currentFps c"
    using kbps(1) pos by (simp add: pos_imp_zdiv_nonneg_iff)
  ultimately have "scaledKbps kbps c = kbps * encoderFps c div currentFps c"
    using pos kbps(1) by (auto simp: scaledKbps_def)
  then show ?thesis using pos by (simp add: div_mult_le less_div_mult)
qed

section \<open>Properties: LinkOccupancy\<close>

text \<open>The refinement burst's discipline: the next pass goes out only once the link has drained.\<close>

definition link_pass :: "int \<Rightarrow> int \<times> int \<Rightarrow> LinkOccupancy \<Rightarrow> LinkOccupancy" where
  "link_pass kbps = (\<lambda>(nowUs, bytes). link_sent nowUs bytes kbps)"

lemma link_pass_sent [simp]: "link_pass kbps (nowUs, bytes) l = link_sent nowUs bytes kbps l"
  by (simp add: link_pass_def)

definition pass_paced :: "int \<times> int \<Rightarrow> LinkOccupancy \<Rightarrow> bool" where
  "pass_paced = (\<lambda>(nowUs, bytes) l. 0 \<le> bytes \<and> drainedAt nowUs l)"

definition linkTimeUs :: "int \<Rightarrow> int \<times> int \<Rightarrow> int" where
  "linkTimeUs kbps = (\<lambda>(nowUs, bytes). bytes * 8000 div kbps)"

interpretation burst: guarded_machine "link_pass kbps" pass_paced "\<lambda>_. True" for kbps
  by unfold_locales

lemma link_sent_fifo:
  "0 < kbps \<Longrightarrow> 0 \<le> bytes \<Longrightarrow>
   busyUntilUs (link_sent nowUs bytes kbps l) = max (busyUntilUs l) nowUs + bytes * 8000 div kbps"
  by (simp add: link_sent_def Let_def max_def)

lemma link_pass_bound:
  "0 < kbps \<Longrightarrow> pass_paced e l \<Longrightarrow> busyUntilUs l + linkTimeUs kbps e \<le> busyUntilUs (link_pass kbps e l)"
  by (cases e) (simp add: pass_paced_def linkTimeUs_def link_sent_fifo)

text \<open>A burst whose passes each wait for the link to drain never runs ahead of the link: the link
  time of everything sent before a pass fits in the time that went by, and right after the pass the
  link owes that pass alone.\<close>

theorem paced_burst:
  assumes "0 < kbps" and "legal pass_paced (link_pass kbps) (sent @ [(nowUs, bytes)]) l"
  shows "busyUntilUs l + sum_list (map (linkTimeUs kbps) sent) \<le> nowUs \<and>
    backlogUs nowUs (fold (link_pass kbps) (sent @ [(nowUs, bytes)]) l) = bytes * 8000 div kbps"
proof -
  define l' where "l' = fold (link_pass kbps) sent l"
  have "busyUntilUs l + sum_list (map (linkTimeUs kbps) sent) \<le> busyUntilUs l'"
    unfolding l'_def by (rule burst.run_bound) (use assms link_pass_bound in auto)
  moreover have "busyUntilUs l' \<le> nowUs" and "0 \<le> bytes"
    using assms(2) by (simp_all add: l'_def pass_paced_def drainedAt_def)
  moreover from this have "0 \<le> bytes * 8000 div kbps"
    using assms(1) by (simp add: pos_imp_zdiv_nonneg_iff)
  ultimately show ?thesis
    using assms(1) by (simp add: l'_def [symmetric] link_sent_fifo backlogUs_def max_def)
qed

section \<open>Properties: RefineConvergence\<close>

definition refine_after :: "(int \<times> int) list \<Rightarrow> RefineConvergence" where
  "refine_after ps = fold (\<lambda>(bytes, qp) r. snd (notePass bytes qp r)) ps refine_reset"

text \<open>Whether pass number \<open>k\<close> of a burst is a quiet one: tiny, or a QP that has stopped falling.\<close>

definition quiet_pass :: "(int \<times> int) list \<Rightarrow> nat \<Rightarrow> bool" where
  "quiet_pass ps k \<longleftrightarrow> fst (ps ! k) \<le> 2048 \<or>
     0 < k \<and> 0 \<le> snd (ps ! k) \<and> 0 \<le> snd (ps ! (k - 1)) \<and> snd (ps ! (k - 1)) \<le> snd (ps ! k)"

lemma notePass_sel:
  "passes (snd (notePass bytes qp r)) = passes r + 1"
  "lastQp (snd (notePass bytes qp r)) = qp"
  "quiet (snd (notePass bytes qp r)) =
     (if 4 \<le> passes r + 1 \<and> (bytes \<le> 2048 \<or> 0 \<le> qp \<and> 0 \<le> lastQp r \<and> lastQp r \<le> qp)
      then quiet r + 1 else 0)"
  by (auto simp: notePass_def Let_def tunables)

lemma notePass_verdict:
  "fst (notePass bytes qp r) =
     (if quiet (snd (notePass bytes qp r)) \<ge> 2 then Converged
      else if passes (snd (notePass bytes qp r)) \<ge> 8 then Capped else Continue)"
  unfolding notePass_sel by (auto simp: notePass_def Let_def tunables)

lemma refine_after_snoc:
  "k < length ps \<Longrightarrow>
   refine_after (take (Suc k) ps) = snd (notePass (fst (ps ! k)) (snd (ps ! k)) (refine_after (take k ps)))"
  by (simp add: refine_after_def take_Suc_conv_app_nth case_prod_beta)

lemma refine_after_state:
  "k \<le> length ps \<Longrightarrow> passes (refine_after (take k ps)) = int k \<and>
    lastQp (refine_after (take k ps)) = (if k = 0 then - 1 else snd (ps ! (k - 1))) \<and>
    0 \<le> quiet (refine_after (take k ps)) \<and>
    (1 \<le> quiet (refine_after (take k ps)) \<longleftrightarrow> 4 \<le> k \<and> quiet_pass ps (k - 1)) \<and>
    (2 \<le> quiet (refine_after (take k ps)) \<longleftrightarrow> 5 \<le> k \<and> quiet_pass ps (k - 1) \<and> quiet_pass ps (k - 2))"
proof (induction k)
  case 0
  then show ?case by (simp add: refine_after_def refine_reset_def)
next
  case (Suc k)
  let ?s = "refine_after (take k ps)" and ?s' = "refine_after (take (Suc k) ps)"
  note IH = Suc.IH [OF Suc_leD [OF Suc.prems]]
  have s': "?s' = snd (notePass (fst (ps ! k)) (snd (ps ! k)) ?s)"
    using Suc.prems by (simp add: refine_after_snoc)
  have quiet: "quiet ?s' = (if 3 \<le> k \<and> quiet_pass ps k then quiet ?s + 1 else 0)"
    using IH by (auto simp: s' notePass_sel quiet_pass_def)
  have "1 \<le> quiet ?s' \<longleftrightarrow> 4 \<le> Suc k \<and> quiet_pass ps k"
    and "2 \<le> quiet ?s' \<longleftrightarrow> 5 \<le> Suc k \<and> quiet_pass ps k \<and> quiet_pass ps (k - 1)"
    and "0 \<le> quiet ?s'"
    using IH by (auto simp: quiet)
  with IH show ?case by (simp add: s' notePass_sel numeral_2_eq_2)
qed

text \<open>The verdict of every pass of a burst, in full: it has converged exactly when this pass and
  the one before it were quiet and at least five went out, it is capped from the eighth pass on, and
  it goes on otherwise. So a burst ends within eight passes whatever the encoder reports.\<close>

theorem refine_verdict:
  "k < length ps \<Longrightarrow>
   fst (notePass (fst (ps ! k)) (snd (ps ! k)) (refine_after (take k ps))) =
     (if 4 \<le> k \<and> quiet_pass ps k \<and> quiet_pass ps (k - 1) then Converged
      else if 7 \<le> k then Capped else Continue)"
  using refine_after_state [of "Suc k" ps] refine_after_snoc [of k ps]
  by (auto simp: notePass_verdict numeral_2_eq_2)

section \<open>Witnesses\<close>

text \<open>Two slow windows after a start at 60: the budget has moved to 30 frames a second.\<close>

definition slow_game :: EffectiveCadence where
  "slow_game = fold cadence_call [Evaluate 30, Evaluate 30] (ec_start 60 0 ec_new)"

lemma slow_game_fps: "currentFps slow_game = 30" "encoderFps slow_game = 60"
  by code_simp+

theorem noteFrame_answer_witness:
  "(fst (noteFrame 1000000 slow_game) \<longleftrightarrow>
      currentFps (snd (noteFrame 1000000 slow_game)) \<noteq> currentFps slow_game) \<and>
   \<not> fst (noteFrame 1000000 slow_game)"
proof -
  have "\<not> fst (noteFrame 1000000 slow_game)" by code_simp
  then show ?thesis using noteFrame_answer [OF slow_game_def, of 1000000] by simp
qed

theorem scaledKbps_wire_witness:
  "scaledKbps 20000 slow_game = 40000 \<and> scaledKbps 20000 slow_game * 30 \<le> 20000 * 60"
proof -
  have "scaledKbps 20000 slow_game = 40000" by code_simp
  moreover have "scaledKbps 20000 slow_game * 30 \<le> 20000 * 60"
    using scaledKbps_wire [OF slow_game_def, of 20000] by (simp add: slow_game_fps)
  ultimately show ?thesis by simp
qed

theorem paced_burst_witness:
  "busyUntilUs \<lparr>busyUntilUs = 0\<rparr> + sum_list (map (linkTimeUs 20000) [(0, 125000)]) \<le> 50000"
  using paced_burst [of 20000 "[(0, 125000)]" 50000 125000 "\<lparr>busyUntilUs = 0\<rparr>"]
  by (simp add: pass_paced_def drainedAt_def link_sent_def)

theorem refine_verdict_witness:
  "fst (notePass 1000 20 (refine_after (take 4 (replicate 8 (1000, 20))))) = Converged"
  using refine_verdict [of 4 "replicate 8 (1000, 20)"] by (simp add: quiet_pass_def)

end
