(* ===== verification/Rate_Governor.thy ===== *)
theory Rate_Governor
  imports MW_Prelude
begin

text \<open>
  \<open>RateGovernor\<close> (\<open>native-host/src/encode/RateGovernor.h\<close>): what the receiver reports about the link
  (\<open>LinkFeedback\<close>, \<open>include/mw/native/LinkFeedback.h\<close>) turned into the bitrate the stream is encoded
  at. The object is the record \<open>RateGovernor\<close> of its members, each method a function of it; the
  methods that answer whether the target changed return that answer with the new state. Bitrates are
  mathematical integers where the code multiplies a C \<open>int\<close> of kbps by at most 25 before it divides: the
  model is the code for settings below about 85 Gbit/s, and the products may wrap above.
\<close>

section \<open>The report, the constants and the members\<close>

record LinkFeedback =
  owdRiseMs :: int
  gaps :: int
  evictions :: int
  receivedFps :: int
  resumed :: bool

definition kOveruseMs :: int where
  [tunables]: "kOveruseMs = 30"

definition kQuietMs :: int where
  [tunables]: "kQuietMs = 10"

definition kCutPercent :: int where
  [tunables]: "kCutPercent = 20"

definition kRaisePercent :: int where
  [tunables]: "kRaisePercent = 5"

definition kFloorPercent :: int where
  [tunables]: "kFloorPercent = 20"

definition kFloorKbps :: int where
  [tunables]: "kFloorKbps = 2000"

definition kHoldAfterCutMs :: int where
  [tunables]: "kHoldAfterCutMs = 2000"

definition kQuietBeforeRaiseMs :: int where
  [tunables]: "kQuietBeforeRaiseMs = 3000"

definition kSilenceMs :: int where
  [tunables]: "kSilenceMs = 4000"

definition kFastRaisePercent :: int where
  [tunables]: "kFastRaisePercent = 25"

definition kGoodHoldMs :: int where
  [tunables]: "kGoodHoldMs = 5000"

definition kProbeGraceMs :: int where
  [tunables]: "kProbeGraceMs = 5000"

text \<open>\<open>INT64_MIN\<close>, the mark for no climb under way or on probation.\<close>

definition kNever :: int where
  "kNever = - (2 ^ 63)"

record RateGovernor =
  m_Setting :: int
  m_Target :: int
  m_QuietSinceMs :: int
  m_LastReportMs :: int
  m_HoldUntilMs :: int
  m_SilenceCut :: bool
  m_TargetBeforeSilence :: int
  m_GoodKbps :: int
  m_GoodSampleKbps :: int
  m_GoodSampleMs :: int
  m_ClimbStartKbps :: int
  m_LastFastRaiseMs :: int
  m_LastRaiseFast :: bool
  m_Overuses :: int
  m_Silences :: int
  m_Changes :: int

definition gov_new :: RateGovernor where
  "gov_new = \<lparr>m_Setting = 20000, m_Target = 20000, m_QuietSinceMs = 0, m_LastReportMs = 0,
     m_HoldUntilMs = 0, m_SilenceCut = False, m_TargetBeforeSilence = 0, m_GoodKbps = 0,
     m_GoodSampleKbps = 0, m_GoodSampleMs = 0, m_ClimbStartKbps = 0, m_LastFastRaiseMs = kNever,
     m_LastRaiseFast = False, m_Overuses = 0, m_Silences = 0, m_Changes = 0\<rparr>"

section \<open>The operations\<close>

definition floorKbps :: "RateGovernor \<Rightarrow> int" where
  "floorKbps g =
     (let pct = m_Setting g * kFloorPercent sdiv 100
      in if pct > kFloorKbps then pct else kFloorKbps)"

definition limiting :: "RateGovernor \<Rightarrow> bool" where
  "limiting g \<longleftrightarrow> m_Target g < m_Setting g"

definition rearmGoodSample :: "int \<Rightarrow> RateGovernor \<Rightarrow> RateGovernor" where
  "rearmGoodSample nowMs g = g\<lparr>m_GoodSampleKbps := m_Target g, m_GoodSampleMs := nowMs\<rparr>"

definition gov_cut :: "RateGovernor \<Rightarrow> bool \<times> RateGovernor" where
  "gov_cut g =
     (let next = m_Target g - m_Target g * kCutPercent sdiv 100;
          next = max next (floorKbps g);
          next = min next (m_Setting g)
      in if next = m_Target g then (False, g)
         else (True, g\<lparr>m_Target := next, m_Changes := m_Changes g + 1\<rparr>))"

text \<open>The fast step, back towards the good rate: its bookkeeping and its size.\<close>

definition gov_fast :: "int \<Rightarrow> RateGovernor \<Rightarrow> RateGovernor" where
  "gov_fast nowMs g =
     g\<lparr>m_ClimbStartKbps := (if m_LastFastRaiseMs g = kNever then m_Target g else m_ClimbStartKbps g),
       m_LastFastRaiseMs := nowMs, m_LastRaiseFast := True\<rparr>"

definition gov_next :: "RateGovernor \<Rightarrow> int" where
  "gov_next g =
     (let next = (if m_Target g < m_GoodKbps g
                  then min (m_Target g + m_Target g * kFastRaisePercent sdiv 100) (m_GoodKbps g)
                  else m_Target g + m_Target g * kRaisePercent sdiv 100);
          next = min next (m_Setting g)
      in if next = m_Target g then m_Setting g else next)"

definition gov_raise :: "int \<Rightarrow> RateGovernor \<Rightarrow> bool \<times> RateGovernor" where
  "gov_raise nowMs g =
     (if m_Target g \<ge> m_Setting g then (False, g)
      else (True, (if m_Target g < m_GoodKbps g then gov_fast nowMs g else g)
                    \<lparr>m_Target := gov_next g, m_Changes := m_Changes g + 1\<rparr>))"

definition gov_start :: "int \<Rightarrow> int \<Rightarrow> RateGovernor \<Rightarrow> RateGovernor" where
  "gov_start settingKbps nowMs g =
     (let g = g\<lparr>m_Setting := (if settingKbps > 0 then settingKbps else 20000)\<rparr>;
          g = g\<lparr>m_Target := m_Setting g, m_QuietSinceMs := nowMs, m_LastReportMs := nowMs,
                m_HoldUntilMs := 0, m_SilenceCut := False, m_GoodKbps := 0\<rparr>;
          g = rearmGoodSample nowMs g
      in g\<lparr>m_ClimbStartKbps := 0, m_LastFastRaiseMs := kNever, m_LastRaiseFast := False\<rparr>)"

definition setSetting :: "int \<Rightarrow> RateGovernor \<Rightarrow> RateGovernor" where
  "setSetting settingKbps g =
     (if settingKbps \<le> 0 then g
      else let g = g\<lparr>m_Setting := settingKbps\<rparr>;
               g = (if m_Target g > m_Setting g then g\<lparr>m_Target := m_Setting g\<rparr> else g);
               g = (if m_GoodKbps g > m_Setting g then g\<lparr>m_GoodKbps := m_Setting g\<rparr> else g)
           in if m_GoodSampleKbps g > m_Setting g then g\<lparr>m_GoodSampleKbps := m_Setting g\<rparr> else g)"

definition fb_overuse :: "LinkFeedback \<Rightarrow> bool" where
  "fb_overuse fb \<longleftrightarrow> owdRiseMs fb \<ge> kOveruseMs \<or> gaps fb > 0 \<or> evictions fb > 0"

definition fb_quiet :: "LinkFeedback \<Rightarrow> bool" where
  "fb_quiet fb \<longleftrightarrow> owdRiseMs fb < kQuietMs \<and> gaps fb = 0 \<and> evictions fb = 0"

text \<open>
  \<open>report\<close> by its three branches: the receiver is back from the background, the link is overused,
  or it is neither (and then a raise may be due). Each starts after the members every report sets.
\<close>

definition gov_resume :: "int \<Rightarrow> RateGovernor \<Rightarrow> bool \<times> RateGovernor" where
  "gov_resume nowMs g =
     (if \<not> (m_SilenceCut g \<and> m_TargetBeforeSilence g > m_Target g)
      then (False, g\<lparr>m_SilenceCut := False, m_QuietSinceMs := nowMs\<rparr>)
      else (True, g\<lparr>m_SilenceCut := False, m_QuietSinceMs := nowMs,
                    m_Target := min (m_TargetBeforeSilence g) (m_Setting g),
                    m_HoldUntilMs := 0, m_Changes := m_Changes g + 1\<rparr>))"

definition gov_overused :: "int \<Rightarrow> RateGovernor \<Rightarrow> RateGovernor" where
  "gov_overused nowMs g =
     g\<lparr>m_QuietSinceMs := nowMs, m_HoldUntilMs := nowMs + kHoldAfterCutMs,
       m_Overuses := m_Overuses g + 1,
       m_GoodKbps := (if m_LastFastRaiseMs g \<noteq> kNever \<and> nowMs - m_LastFastRaiseMs g < kProbeGraceMs
                      then m_ClimbStartKbps g else m_GoodKbps g),
       m_LastFastRaiseMs := kNever\<rparr>"

definition gov_overuse :: "int \<Rightarrow> RateGovernor \<Rightarrow> bool \<times> RateGovernor" where
  "gov_overuse nowMs g =
     (let (changed, g) = gov_cut (gov_overused nowMs g) in (changed, rearmGoodSample nowMs g))"

definition gov_renewed :: "int \<Rightarrow> RateGovernor \<Rightarrow> RateGovernor" where
  "gov_renewed nowMs g =
     (if nowMs - m_GoodSampleMs g \<ge> kGoodHoldMs
      then rearmGoodSample nowMs (g\<lparr>m_GoodKbps := max (m_GoodSampleKbps g) (m_GoodKbps g)\<rparr>)
      else g)"

definition gov_calm :: "bool \<Rightarrow> int \<Rightarrow> RateGovernor \<Rightarrow> bool \<times> RateGovernor" where
  "gov_calm quiet nowMs g =
     (let g = gov_renewed nowMs g
      in if \<not> quiet then (False, g\<lparr>m_QuietSinceMs := nowMs\<rparr>)
         else if nowMs < m_HoldUntilMs g then (False, g)
         else if nowMs - m_QuietSinceMs g < kQuietBeforeRaiseMs then (False, g)
         else gov_raise nowMs g)"

definition gov_report :: "LinkFeedback \<Rightarrow> int \<Rightarrow> RateGovernor \<Rightarrow> bool \<times> RateGovernor" where
  "gov_report fb nowMs g =
     (let g = g\<lparr>m_LastReportMs := nowMs, m_LastRaiseFast := False\<rparr>
      in if resumed fb then gov_resume nowMs g
         else let g = g\<lparr>m_SilenceCut := False\<rparr>
              in if fb_overuse fb then gov_overuse nowMs g
                 else gov_calm (fb_quiet fb) nowMs g)"

text \<open>The state a silence cuts from.\<close>

definition gov_silenced :: "int \<Rightarrow> RateGovernor \<Rightarrow> RateGovernor" where
  "gov_silenced nowMs g =
     g\<lparr>m_SilenceCut := True, m_TargetBeforeSilence := m_Target g,
       m_HoldUntilMs := nowMs + kHoldAfterCutMs, m_QuietSinceMs := nowMs,
       m_Silences := m_Silences g + 1, m_LastRaiseFast := False, m_LastFastRaiseMs := kNever\<rparr>"

definition gov_tick :: "int \<Rightarrow> RateGovernor \<Rightarrow> bool \<times> RateGovernor" where
  "gov_tick nowMs g =
     (if m_SilenceCut g \<or> nowMs - m_LastReportMs g < kSilenceMs then (False, g)
      else let (changed, g) = gov_cut (gov_silenced nowMs g) in (changed, rearmGoodSample nowMs g))"

section \<open>The invariant\<close>

definition gov_inv :: "RateGovernor \<Rightarrow> bool" where
  "gov_inv g \<longleftrightarrow> 1 \<le> m_Target g \<and> m_Target g \<le> m_Setting g \<and>
     m_GoodSampleKbps g \<le> m_Target g \<and> (m_SilenceCut g \<longrightarrow> 1 \<le> m_TargetBeforeSilence g)"

datatype GovernorCall = GStart int int | SetSetting int | Report LinkFeedback int | Tick int

fun gov_call :: "GovernorCall \<Rightarrow> RateGovernor \<Rightarrow> RateGovernor" where
  "gov_call (GStart settingKbps nowMs) g = gov_start settingKbps nowMs g"
| "gov_call (SetSetting settingKbps) g = setSetting settingKbps g"
| "gov_call (Report fb nowMs) g = snd (gov_report fb nowMs g)"
| "gov_call (Tick nowMs) g = snd (gov_tick nowMs g)"

text \<open>What a cut leaves: a fifth less, held between the floor and the setting.\<close>

definition cut_target :: "RateGovernor \<Rightarrow> int" where
  "cut_target g = min (m_Setting g) (max (floorKbps g) (m_Target g - m_Target g * 20 div 100))"

lemma floorKbps_pos: "2000 \<le> floorKbps g"
  by (simp add: floorKbps_def Let_def tunables)

lemma gov_cut_target:
  "1 \<le> m_Target g \<Longrightarrow> m_Target (snd (gov_cut g)) = cut_target g"
  "fst (gov_cut g) \<longleftrightarrow> m_Target (snd (gov_cut g)) \<noteq> m_Target g"
  by (auto simp: gov_cut_def cut_target_def Let_def kCutPercent_def min.commute max.commute)

lemma cut_target_range:
  "gov_inv g \<Longrightarrow> 1 \<le> cut_target g \<and> cut_target g \<le> m_Setting g"
  using floorKbps_pos [of g] by (auto simp: cut_target_def gov_inv_def)

text \<open>The members each step leaves alone.\<close>

named_theorems gov_frame

lemma gov_cut_frame [gov_frame]:
  "m_Setting (snd (gov_cut g)) = m_Setting g"
  "m_SilenceCut (snd (gov_cut g)) = m_SilenceCut g"
  "m_TargetBeforeSilence (snd (gov_cut g)) = m_TargetBeforeSilence g"
  "m_HoldUntilMs (snd (gov_cut g)) = m_HoldUntilMs g"
  "m_QuietSinceMs (snd (gov_cut g)) = m_QuietSinceMs g"
  "m_GoodKbps (snd (gov_cut g)) = m_GoodKbps g"
  by (simp_all add: gov_cut_def Let_def)

lemma rearm_frame [gov_frame]:
  "m_Setting (rearmGoodSample t g) = m_Setting g"
  "m_Target (rearmGoodSample t g) = m_Target g"
  "m_SilenceCut (rearmGoodSample t g) = m_SilenceCut g"
  "m_TargetBeforeSilence (rearmGoodSample t g) = m_TargetBeforeSilence g"
  "m_HoldUntilMs (rearmGoodSample t g) = m_HoldUntilMs g"
  "m_QuietSinceMs (rearmGoodSample t g) = m_QuietSinceMs g"
  "m_GoodKbps (rearmGoodSample t g) = m_GoodKbps g"
  by (simp_all add: rearmGoodSample_def)

lemma gov_overused_frame [gov_frame]:
  "m_Setting (gov_overused t g) = m_Setting g"
  "m_Target (gov_overused t g) = m_Target g"
  "m_SilenceCut (gov_overused t g) = m_SilenceCut g"
  "m_QuietSinceMs (gov_overused t g) = t"
  "m_HoldUntilMs (gov_overused t g) = t + 2000"
  "cut_target (gov_overused t g) = cut_target g"
  by (simp_all add: gov_overused_def kHoldAfterCutMs_def cut_target_def floorKbps_def)

lemma gov_silenced_frame [gov_frame]:
  "m_Setting (gov_silenced t g) = m_Setting g"
  "m_Target (gov_silenced t g) = m_Target g"
  "m_SilenceCut (gov_silenced t g)"
  "m_TargetBeforeSilence (gov_silenced t g) = m_Target g"
  "cut_target (gov_silenced t g) = cut_target g"
  by (simp_all add: gov_silenced_def cut_target_def floorKbps_def)

lemma gov_renewed_frame [gov_frame]:
  "m_Setting (gov_renewed t g) = m_Setting g"
  "m_Target (gov_renewed t g) = m_Target g"
  "m_SilenceCut (gov_renewed t g) = m_SilenceCut g"
  "m_TargetBeforeSilence (gov_renewed t g) = m_TargetBeforeSilence g"
  "m_HoldUntilMs (gov_renewed t g) = m_HoldUntilMs g"
  "m_QuietSinceMs (gov_renewed t g) = m_QuietSinceMs g"
  by (simp_all add: gov_renewed_def gov_frame)

lemma gov_raise_frame [gov_frame]:
  "m_Setting (snd (gov_raise t g)) = m_Setting g"
  "m_SilenceCut (snd (gov_raise t g)) = m_SilenceCut g"
  "m_TargetBeforeSilence (snd (gov_raise t g)) = m_TargetBeforeSilence g"
  "m_HoldUntilMs (snd (gov_raise t g)) = m_HoldUntilMs g"
  "m_QuietSinceMs (snd (gov_raise t g)) = m_QuietSinceMs g"
  by (simp_all add: gov_raise_def gov_fast_def)

text \<open>A raise climbs, never past the setting, and never stalls on a rounded step.\<close>

lemma gov_raise_target:
  assumes "1 \<le> m_Target g" "m_Target g < m_Setting g"
  shows "m_Target (snd (gov_raise nowMs g)) = gov_next g"
    and "m_Target g < gov_next g" and "gov_next g \<le> m_Setting g"
    and "m_GoodKbps g \<le> m_Target g \<Longrightarrow>
         min (m_Setting g) (m_Target g + m_Target g * 5 div 100) \<le> gov_next g"
  using assms by (auto simp: gov_raise_def gov_next_def Let_def tunables)

text \<open>The sampled rate is one the target has already had: at most the target of now.\<close>

lemma gov_sample [gov_frame]:
  "m_GoodSampleKbps (rearmGoodSample t g) = m_Target g"
  "m_GoodSampleKbps (gov_overused t g) = m_GoodSampleKbps g"
  "m_GoodSampleKbps (gov_silenced t g) = m_GoodSampleKbps g"
  "m_GoodSampleKbps (snd (gov_raise t g)) = m_GoodSampleKbps g"
  "m_GoodSampleKbps g \<le> m_Target g \<Longrightarrow> m_GoodSampleKbps (gov_renewed t g) \<le> m_Target g"
  by (simp_all add: rearmGoodSample_def gov_overused_def gov_silenced_def gov_raise_def gov_fast_def
      gov_renewed_def)

lemma gov_raise_id: "m_Setting g \<le> m_Target g \<Longrightarrow> gov_raise t g = (False, g)"
  by (simp add: gov_raise_def)

section \<open>One report\<close>

lemma gov_report_resumed:
  assumes "resumed fb"
  shows "m_Target (snd (gov_report fb t g)) =
      (if m_SilenceCut g \<and> m_TargetBeforeSilence g > m_Target g
       then min (m_TargetBeforeSilence g) (m_Setting g) else m_Target g)"
    and "m_Setting (snd (gov_report fb t g)) = m_Setting g"
    and "\<not> m_SilenceCut (snd (gov_report fb t g))"
    and "m_GoodSampleKbps (snd (gov_report fb t g)) = m_GoodSampleKbps g"
  using assms by (simp_all add: gov_report_def gov_resume_def Let_def)

lemma gov_report_overuse:
  assumes "\<not> resumed fb" "fb_overuse fb" "1 \<le> m_Target g"
  shows "m_Target (snd (gov_report fb t g)) = cut_target g"
    and "m_Setting (snd (gov_report fb t g)) = m_Setting g"
    and "\<not> m_SilenceCut (snd (gov_report fb t g))"
    and "m_GoodSampleKbps (snd (gov_report fb t g)) = cut_target g"
  using assms
  by (simp_all add: gov_report_def gov_overuse_def gov_frame gov_cut_target case_prod_beta
      cut_target_def floorKbps_def)

text \<open>The state a calm report reads, after the members it sets first and the renewal.\<close>

definition gov_heard :: "int \<Rightarrow> RateGovernor \<Rightarrow> RateGovernor" where
  "gov_heard t g =
     gov_renewed t (g\<lparr>m_LastReportMs := t, m_LastRaiseFast := False, m_SilenceCut := False\<rparr>)"

lemma gov_heard_frame [gov_frame]:
  "m_Setting (gov_heard t g) = m_Setting g"
  "m_Target (gov_heard t g) = m_Target g"
  "\<not> m_SilenceCut (gov_heard t g)"
  "m_HoldUntilMs (gov_heard t g) = m_HoldUntilMs g"
  "m_QuietSinceMs (gov_heard t g) = m_QuietSinceMs g"
  "m_GoodSampleKbps g \<le> m_Target g \<Longrightarrow> m_GoodSampleKbps (gov_heard t g) \<le> m_Target g"
  by (simp_all add: gov_heard_def gov_frame)
    (use gov_sample(5) [of "g\<lparr>m_LastReportMs := t, m_LastRaiseFast := False, m_SilenceCut := False\<rparr>" t]
      in simp)

lemma gov_report_calm:
  assumes "\<not> resumed fb" "\<not> fb_overuse fb"
  shows "gov_report fb t g =
    (if \<not> fb_quiet fb then (False, (gov_heard t g)\<lparr>m_QuietSinceMs := t\<rparr>)
     else if t < m_HoldUntilMs g then (False, gov_heard t g)
     else if t - m_QuietSinceMs g < 3000 then (False, gov_heard t g)
     else gov_raise t (gov_heard t g))"
  using assms
  by (simp add: gov_report_def gov_calm_def gov_heard_def Let_def gov_frame kQuietBeforeRaiseMs_def)

text \<open>Whether a calm report raises, and to what.\<close>

definition raise_due :: "LinkFeedback \<Rightarrow> int \<Rightarrow> RateGovernor \<Rightarrow> bool" where
  "raise_due fb t g \<longleftrightarrow> fb_quiet fb \<and> m_HoldUntilMs g \<le> t \<and> m_QuietSinceMs g + 3000 \<le> t \<and>
     m_Target g < m_Setting g"

lemma gov_report_calm_target:
  assumes "\<not> resumed fb" "\<not> fb_overuse fb" "1 \<le> m_Target g"
  shows "m_Target (snd (gov_report fb t g)) =
      (if raise_due fb t g then gov_next (gov_heard t g) else m_Target g)"
    and "m_Setting (snd (gov_report fb t g)) = m_Setting g"
    and "\<not> m_SilenceCut (snd (gov_report fb t g))"
    and "m_GoodSampleKbps (snd (gov_report fb t g)) = m_GoodSampleKbps (gov_heard t g)"
  using assms gov_raise_target(1) [of "gov_heard t g" t]
  by (auto simp: gov_report_calm raise_due_def gov_frame gov_raise_id)

lemma gov_heard_next:
  assumes "gov_inv g" "m_Target g < m_Setting g"
  shows "m_Target g < gov_next (gov_heard t g)" "gov_next (gov_heard t g) \<le> m_Setting g"
  using assms gov_raise_target(2,3) [of "gov_heard t g"] by (simp_all add: gov_inv_def gov_frame)

lemma gov_report_inv: "gov_inv g \<Longrightarrow> gov_inv (snd (gov_report fb t g))"
proof -
  assume inv: "gov_inv g"
  then have pos: "1 \<le> m_Target g" by (simp add: gov_inv_def)
  consider "resumed fb" | "\<not> resumed fb" "fb_overuse fb" | "\<not> resumed fb" "\<not> fb_overuse fb"
    by blast
  then show ?thesis
  proof cases
    case 1
    with inv show ?thesis by (auto simp: gov_inv_def gov_report_resumed)
  next
    case 2
    with inv pos cut_target_range [OF inv] show ?thesis
      by (simp add: gov_inv_def gov_report_overuse)
  next
    case 3
    have "m_GoodSampleKbps (gov_heard t g) \<le> m_Target g"
      using inv by (simp add: gov_inv_def gov_frame)
    with 3 inv pos gov_heard_next [OF inv, of t] show ?thesis
      by (auto simp: gov_inv_def gov_report_calm_target raise_due_def)
  qed
qed

lemma gov_tick_eq:
  assumes "1 \<le> m_Target g"
  shows "m_Target (snd (gov_tick t g)) =
      (if m_SilenceCut g \<or> t - m_LastReportMs g < 4000 then m_Target g else cut_target g)"
    and "m_Setting (snd (gov_tick t g)) = m_Setting g"
    and "m_SilenceCut (snd (gov_tick t g)) \<longleftrightarrow> m_SilenceCut g \<or> 4000 \<le> t - m_LastReportMs g"
    and "m_TargetBeforeSilence (snd (gov_tick t g)) =
      (if m_SilenceCut g \<or> t - m_LastReportMs g < 4000 then m_TargetBeforeSilence g
       else m_Target g)"
    and "m_GoodSampleKbps (snd (gov_tick t g)) =
      (if m_SilenceCut g \<or> t - m_LastReportMs g < 4000 then m_GoodSampleKbps g else cut_target g)"
  using assms
  by (auto simp: gov_tick_def case_prod_beta gov_frame gov_cut_target kSilenceMs_def)

lemma gov_tick_inv: "gov_inv g \<Longrightarrow> gov_inv (snd (gov_tick t g))"
  using cut_target_range [of g] by (auto simp: gov_inv_def gov_tick_eq)

lemma gov_start_inv: "gov_inv (gov_start settingKbps t g)"
  by (simp add: gov_start_def gov_inv_def Let_def gov_frame)

lemma setSetting_inv: "gov_inv g \<Longrightarrow> gov_inv (setSetting settingKbps g)"
  by (simp add: setSetting_def gov_inv_def Let_def)

lemma gov_call_inv: "gov_inv g \<Longrightarrow> gov_inv (gov_call e g)"
  by (cases e) (simp_all add: gov_report_inv gov_tick_inv gov_start_inv setSetting_inv)

interpretation governor: call_machine gov_call gov_inv
  by unfold_locales (rule gov_call_inv)

lemma gov_run_inv: "gov_inv (fold gov_call calls (gov_start settingKbps startMs g))"
  by (rule governor.inv_calls) (rule gov_start_inv)

section \<open>Properties\<close>

text \<open>C34. Whatever the receiver reports, however long it stays silent and however often the viewer
  moves the ceiling, the target is positive and never over the viewer's setting.\<close>

theorem governor_under_ceiling:
  "1 \<le> m_Target (fold gov_call calls (gov_start settingKbps startMs g)) \<and>
   m_Target (fold gov_call calls (gov_start settingKbps startMs g))
     \<le> m_Setting (fold gov_call calls (gov_start settingKbps startMs g))"
  using gov_run_inv [of calls settingKbps startMs g] by (simp add: gov_inv_def)

text \<open>While the ceiling stands still the floor holds as well.\<close>

definition gov_floor :: "RateGovernor \<Rightarrow> int" where
  "gov_floor g = min (m_Setting g) (floorKbps g)"

definition fixed_setting :: "GovernorCall \<Rightarrow> RateGovernor \<Rightarrow> bool" where
  "fixed_setting e g \<longleftrightarrow> (case e of Report fb t \<Rightarrow> True | Tick t \<Rightarrow> True | _ \<Rightarrow> False)"

definition gov_floor_inv :: "int \<Rightarrow> RateGovernor \<Rightarrow> bool" where
  "gov_floor_inv s g \<longleftrightarrow> gov_inv g \<and> m_Setting g = s \<and> gov_floor g \<le> m_Target g \<and>
     (m_SilenceCut g \<longrightarrow> gov_floor g \<le> m_TargetBeforeSilence g)"

lemma gov_floor_cong: "m_Setting g = m_Setting h \<Longrightarrow> gov_floor g = gov_floor h"
  by (simp add: gov_floor_def floorKbps_def)

lemma cut_target_ge_floor: "gov_floor g \<le> cut_target g"
  by (auto simp: gov_floor_def cut_target_def)

lemma gov_report_floor:
  "gov_floor_inv s g \<Longrightarrow> gov_floor_inv s (snd (gov_report fb t g))"
proof -
  assume inv: "gov_floor_inv s g"
  then have g: "gov_inv g" "1 \<le> m_Target g" by (auto simp: gov_floor_inv_def gov_inv_def)
  have set: "m_Setting (snd (gov_report fb t g)) = m_Setting g"
    and cut: "\<not> m_SilenceCut (snd (gov_report fb t g))"
    using g(2) by (cases "resumed fb"; cases "fb_overuse fb";
      simp add: gov_report_resumed gov_report_overuse gov_report_calm_target)+
  have fl: "gov_floor (snd (gov_report fb t g)) = gov_floor g"
    by (rule gov_floor_cong) (rule set)
  have "gov_floor g \<le> m_Target (snd (gov_report fb t g))"
  proof -
    consider "resumed fb" | "\<not> resumed fb" "fb_overuse fb" | "\<not> resumed fb" "\<not> fb_overuse fb"
      by blast
    then show ?thesis
    proof cases
      case 1
      with inv show ?thesis by (auto simp: gov_report_resumed gov_floor_inv_def gov_floor_def)
    next
      case 2
      with g show ?thesis by (simp add: gov_report_overuse cut_target_ge_floor)
    next
      case 3
      with inv g gov_heard_next(1) [OF g(1), of t] show ?thesis
        by (auto simp: gov_report_calm_target gov_floor_inv_def raise_due_def)
    qed
  qed
  with inv g set cut fl show ?thesis by (simp add: gov_floor_inv_def gov_report_inv)
qed

lemma gov_tick_floor: "gov_floor_inv s g \<Longrightarrow> gov_floor_inv s (snd (gov_tick t g))"
proof -
  assume inv: "gov_floor_inv s g"
  then have g: "gov_inv g" "1 \<le> m_Target g" by (auto simp: gov_floor_inv_def gov_inv_def)
  have fl: "gov_floor (snd (gov_tick t g)) = gov_floor g"
    by (rule gov_floor_cong) (simp add: gov_tick_eq [OF g(2)])
  show ?thesis
    using inv gov_tick_inv [OF g(1)] cut_target_ge_floor [of g]
    by (auto simp: gov_floor_inv_def gov_tick_eq [OF g(2)] fl)
qed

interpretation governor_floor: guarded_machine gov_call fixed_setting "gov_floor_inv s" for s
proof
  fix g e
  assume "gov_floor_inv s g" "fixed_setting e g"
  then show "gov_floor_inv s (gov_call e g)"
    by (cases e) (simp_all add: fixed_setting_def gov_report_floor gov_tick_floor)
qed

text \<open>A session whose ceiling does not move never goes under its floor, a fifth of the setting and
  at least 2000 kbps (or the setting itself, when that is lower).\<close>

theorem governor_over_floor:
  assumes "legal fixed_setting gov_call calls (gov_start settingKbps startMs g)"
  shows "gov_floor (fold gov_call calls (gov_start settingKbps startMs g))
           \<le> m_Target (fold gov_call calls (gov_start settingKbps startMs g))"
proof -
  define g0 where "g0 = gov_start settingKbps startMs g"
  have "gov_floor_inv (m_Setting g0) g0"
    using gov_start_inv [of settingKbps startMs g]
    by (simp add: gov_floor_inv_def g0_def gov_start_def gov_floor_def Let_def gov_frame)
  then have "gov_floor_inv (m_Setting g0) (fold gov_call calls g0)"
    by (rule governor_floor.inv_run) (use assms g0_def in simp)
  then show ?thesis by (simp add: gov_floor_inv_def g0_def)
qed

text \<open>After any run, a report that raises the target is one of three: the receiver came back from
  the background and the cut its silence caused is undone; the link was quiet, the hold of the last
  cut is over and it has been quiet for three seconds; or the target stood under the floor (a ceiling
  raised since) and an overuse lifted it there.\<close>

theorem report_raises_only_when:
  assumes g: "g = fold gov_call calls (gov_start settingKbps startMs g0)"
    and up: "m_Target g < m_Target (snd (gov_report fb nowMs g))"
  shows "(resumed fb \<and> m_SilenceCut g \<and>
            m_Target (snd (gov_report fb nowMs g)) \<le> m_TargetBeforeSilence g) \<or>
         (\<not> resumed fb \<and> fb_quiet fb \<and> m_HoldUntilMs g \<le> nowMs \<and> m_QuietSinceMs g + 3000 \<le> nowMs) \<or>
         (\<not> resumed fb \<and> fb_overuse fb \<and> m_Target g < gov_floor g)"
proof -
  have "gov_inv g" unfolding g by (rule gov_run_inv)
  then have pos: "1 \<le> m_Target g" by (simp add: gov_inv_def)
  have slower: "m_Target g - m_Target g * 20 div 100 \<le> m_Target g"
    using pos by (simp add: pos_imp_zdiv_nonneg_iff)
  consider "resumed fb" | "\<not> resumed fb" "fb_overuse fb" | "\<not> resumed fb" "\<not> fb_overuse fb"
    by blast
  then show ?thesis
  proof cases
    case 1
    with up show ?thesis by (auto simp: gov_report_resumed split: if_splits)
  next
    case 2
    with up pos slower show ?thesis
      by (auto simp: gov_report_overuse cut_target_def gov_floor_def)
  next
    case 3
    with up pos show ?thesis by (auto simp: gov_report_calm_target raise_due_def split: if_splits)
  qed
qed

subsection \<open>A silence and the way back from it\<close>

lemma ticks_state:
  assumes "gov_inv g" "\<not> m_SilenceCut g"
  shows "let g' = fold gov_call (map Tick ts) g in
    m_Setting g' = m_Setting g \<and>
    (\<not> m_SilenceCut g' \<and> m_Target g' = m_Target g \<or>
     m_SilenceCut g' \<and> m_Target g' = cut_target g \<and> m_TargetBeforeSilence g' = m_Target g)"
proof (induction ts rule: rev_induct)
  case Nil
  then show ?case using assms(2) by simp
next
  case (snoc t ts)
  define h where "h = fold gov_call (map Tick ts) g"
  have "gov_inv h" unfolding h_def by (rule governor.inv_calls) (rule assms)
  then have "1 \<le> m_Target h" by (simp add: gov_inv_def)
  note tick = gov_tick_eq [OF this, of t]
  have set: "m_Setting h = m_Setting g"
    and IH: "\<not> m_SilenceCut h \<and> m_Target h = m_Target g \<or>
      m_SilenceCut h \<and> m_Target h = cut_target g \<and> m_TargetBeforeSilence h = m_Target g"
    using snoc.IH by (simp_all add: h_def Let_def)
  have "m_Target h = m_Target g \<Longrightarrow> cut_target h = cut_target g"
    by (simp add: cut_target_def floorKbps_def set)
  with IH tick set show ?case
    by (simp add: Let_def flip: h_def) blast
qed

text \<open>A silence costs one cut however long it lasts, and a receiver that says the silence was its
  own page in the background gets the bitrate back as it was.\<close>

theorem silence_undone:
  assumes g: "g = fold gov_call calls (gov_start settingKbps startMs g0)"
    and "\<not> m_SilenceCut g" "gov_floor g \<le> m_Target g" "resumed fb"
  shows "m_Target (snd (gov_report fb nowMs (fold gov_call (map Tick ts) g))) = m_Target g"
proof -
  have inv: "gov_inv g" unfolding g by (rule gov_run_inv)
  have "0 \<le> m_Target g * 20 div 100" using inv by (simp add: gov_inv_def pos_imp_zdiv_nonneg_iff)
  then have "cut_target g \<le> m_Target g"
    using inv assms(3) by (auto simp: cut_target_def gov_floor_def gov_inv_def)
  with ticks_state [OF inv assms(2), of ts] inv show ?thesis
    by (auto simp: gov_report_resumed [OF assms(4)] Let_def gov_inv_def)
qed

subsection \<open>The way back up\<close>

definition quiet_call :: "GovernorCall \<Rightarrow> RateGovernor \<Rightarrow> bool" where
  "quiet_call e g \<longleftrightarrow> (case e of
     Report fb t \<Rightarrow> \<not> resumed fb \<and> fb_quiet fb \<and> m_HoldUntilMs g \<le> t \<and> m_QuietSinceMs g + 3000 \<le> t
   | _ \<Rightarrow> False)"

lemma quiet_not_overuse: "fb_quiet fb \<Longrightarrow> \<not> fb_overuse fb"
  by (auto simp: fb_quiet_def fb_overuse_def tunables)

lemma gov_heard_good:
  "m_GoodSampleKbps g \<le> m_Target g \<Longrightarrow> m_GoodKbps g \<le> m_Target g \<Longrightarrow> m_GoodKbps (gov_heard t g) \<le> m_Target g"
  by (simp add: gov_heard_def gov_renewed_def rearmGoodSample_def)

lemma gov_raise_good: "m_GoodKbps (snd (gov_raise t g)) = m_GoodKbps g"
  by (simp add: gov_raise_def gov_fast_def)

text \<open>
  One quiet report. A slow step adds at least \<open>d\<close>; a fast step adds at least \<open>d\<close> too, except the one
  that lands on the good rate. Counting \<open>d\<close> extra for a target at or over its good rate makes every
  step worth \<open>d\<close>.
\<close>

definition climb :: "int \<Rightarrow> RateGovernor \<Rightarrow> int" where
  "climb d g = m_Target g + (if m_GoodKbps g \<le> m_Target g then d else 0)"

lemma quiet_step:
  assumes inv: "gov_inv g" and q: "quiet_call e g" and d: "0 \<le> d" "d \<le> m_Target g * 5 div 100"
  shows "m_Target g \<le> m_Target (gov_call e g)"
    and "m_Setting (gov_call e g) = m_Setting g"
    and "m_Target (gov_call e g) = m_Setting g \<or> climb d g + d \<le> climb d (gov_call e g)"
proof -
  from q obtain fb t where e: "e = Report fb t" and fb: "\<not> resumed fb" "fb_quiet fb"
    and due: "m_HoldUntilMs g \<le> t" "m_QuietSinceMs g + 3000 \<le> t"
    by (auto simp: quiet_call_def split: GovernorCall.splits)
  let ?h = "gov_heard t g"
  have h: "m_Target ?h = m_Target g" "m_Setting ?h = m_Setting g" by (simp_all add: gov_frame)
  have step: "gov_call e g = snd (gov_raise t ?h)"
    using fb due by (simp add: e gov_report_calm quiet_not_overuse)
  have pos: "1 \<le> m_Target g" "m_Target g \<le> m_Setting g" "m_GoodSampleKbps g \<le> m_Target g"
    using inv by (auto simp: gov_inv_def)
  show "m_Setting (gov_call e g) = m_Setting g" by (simp add: step gov_frame)
  show "m_Target g \<le> m_Target (gov_call e g)"
    using gov_raise_target(1) [of ?h t] gov_raise_target(2) [of ?h] pos
    by (cases "m_Target g < m_Setting g") (simp_all add: step h gov_raise_id)
  show "m_Target (gov_call e g) = m_Setting g \<or> climb d g + d \<le> climb d (gov_call e g)"
  proof (cases "m_Target g < m_Setting g")
    case False
    with pos show ?thesis by (simp add: step h gov_raise_id)
  next
    case True
    have next_target: "m_Target (gov_call e g) = gov_next ?h"
      using gov_raise_target(1) [of ?h t] pos True by (simp add: step h)
    have good: "m_GoodKbps (gov_call e g) = m_GoodKbps ?h"
      by (simp add: step gov_raise_good)
    have below: "m_GoodKbps g \<le> m_Target g \<Longrightarrow> m_GoodKbps ?h \<le> m_Target g"
      using gov_heard_good pos(3) by blast
    have more: "m_Target g * 5 div 100 \<le> m_Target g * 25 div 100"
      using pos(1) by (intro zdiv_mono1) auto
    define N where "N = gov_next ?h"
    define G where "G = m_GoodKbps ?h"
    define X where "X = (if m_Target g < G then min (m_Target g + m_Target g * 25 div 100) G
      else m_Target g + m_Target g * 5 div 100)"
    have sd: "m_Target g * 25 sdiv 100 = m_Target g * 25 div 100"
      "m_Target g * 5 sdiv 100 = m_Target g * 5 div 100" using pos(1) by simp_all
    have "N = (if min X (m_Setting g) = m_Target g then m_Setting g else min X (m_Setting g))"
      unfolding N_def X_def G_def gov_next_def Let_def
      by (simp only: h kFastRaisePercent_def kRaisePercent_def sd)
    then have N: "N = m_Setting g \<or> N = X" by (auto simp: min_def)
    have "N = m_Setting g \<or> climb d g + d \<le> N + (if G \<le> N then d else 0)"
    proof (cases "m_Target g < G")
      case True
      with below have "climb d g = m_Target g" by (auto simp: climb_def G_def)
      with True N d more show ?thesis by (auto simp: X_def min_def)
    next
      case False
      have "climb d g \<le> m_Target g + d" using d by (simp add: climb_def)
      with False N d pos(1) show ?thesis by (auto simp: X_def)
    qed
    then show ?thesis by (simp add: climb_def next_target good N_def G_def)
  qed
qed

lemma quiet_run:
  assumes "gov_inv g" "legal quiet_call gov_call calls g" "0 \<le> d" "d \<le> m_Target g * 5 div 100"
  shows "min (m_Setting g) (climb d g + int (length calls) * d - d) \<le> m_Target (fold gov_call calls g)
    \<and> m_Target g \<le> m_Target (fold gov_call calls g)"
  using assms
proof (induction calls arbitrary: g)
  case Nil
  then show ?case by (auto simp: climb_def min_le_iff_disj)
next
  case (Cons e es)
  let ?g = "gov_call e g"
  have q: "quiet_call e g" and l: "legal quiet_call gov_call es ?g" using Cons.prems(2) by auto
  note s = quiet_step [OF Cons.prems(1) q Cons.prems(3,4)]
  have inv: "gov_inv ?g" using Cons.prems(1) by (rule gov_call_inv)
  have "m_Target g * 5 div 100 \<le> m_Target ?g * 5 div 100"
    using s(1) by (intro zdiv_mono1) auto
  with Cons.prems(4) have "d \<le> m_Target ?g * 5 div 100" by linarith
  from Cons.IH [OF inv l Cons.prems(3) this] s Cons.prems(3) show ?case
    by (auto simp: algebra_simps min_le_iff_disj)
qed

text \<open>The link recovers: \<open>n\<close> quiet reports past the hold take the target back at least to the
  setting or \<open>n - 1\<close> steps of a twentieth of where it stood, so from the floor it is back at the
  setting after a bounded number of reports and never loses ground on the way.\<close>

theorem quiet_link_recovers:
  assumes g: "g = fold gov_call calls (gov_start settingKbps startMs g0)"
    and quiet: "legal quiet_call gov_call reports g"
  shows "min (m_Setting g) (m_Target g + (int (length reports) - 1) * (m_Target g * 5 div 100))
           \<le> m_Target (fold gov_call reports g) \<and>
         m_Target g \<le> m_Target (fold gov_call reports g)"
proof -
  have inv: "gov_inv g" unfolding g by (rule gov_run_inv)
  then have "0 \<le> m_Target g * 5 div 100" by (simp add: gov_inv_def pos_imp_zdiv_nonneg_iff)
  from quiet_run [OF inv quiet this order_refl] this show ?thesis
    by (auto simp: climb_def algebra_simps min_le_iff_disj split: if_splits)
qed

subsection \<open>An overuse that raises\<close>

definition late_report :: LinkFeedback where
  "late_report = \<lparr>owdRiseMs = 40, gaps = 0, evictions = 0, receivedFps = 60, resumed = False\<rparr>"

definition quiet_report :: LinkFeedback where
  "quiet_report = \<lparr>owdRiseMs = 0, gaps = 0, evictions = 0, receivedFps = 60, resumed = False\<rparr>"

definition back_report :: LinkFeedback where
  "back_report = \<lparr>owdRiseMs = 900, gaps = 30, evictions = 12, receivedFps = 0, resumed = True\<rparr>"

text \<open>The cut is clamped up to the floor of the setting, so after the viewer raises the ceiling from
  2000 to 100000 kbps the first report of a growing queue takes the target from 2000 to 20000: the
  one answer to an overuse that sends ten times more.\<close>

theorem overuse_can_raise:
  "m_Target (fold gov_call [SetSetting 100000] (gov_start 2000 0 gov_new)) = 2000 \<and>
   m_Target (fold gov_call [SetSetting 100000, Report late_report 500] (gov_start 2000 0 gov_new)) = 20000"
  by code_simp

section \<open>Witnesses\<close>

text \<open>A 20 Mbps session whose link narrows once, and the half minute after it.\<close>

definition narrowed :: RateGovernor where
  "narrowed = fold gov_call [Report late_report 500, Report late_report 1000] (gov_start 20000 0 gov_new)"

lemma narrowed_members:
  "m_Target narrowed = 12800" "m_Setting narrowed = 20000" "\<not> m_SilenceCut narrowed"
  "m_HoldUntilMs narrowed = 3000" "m_QuietSinceMs narrowed = 1000" "gov_floor narrowed = 4000"
  by code_simp+

theorem governor_over_floor_witness:
  "gov_floor narrowed \<le> m_Target narrowed"
  using governor_over_floor [of "[Report late_report 500, Report late_report 1000]" 20000 0 gov_new]
  by (simp add: narrowed_def fixed_setting_def)

theorem report_raises_only_when_witness:
  "m_Target narrowed < m_Target (snd (gov_report quiet_report 5000 narrowed)) \<and>
   fb_quiet quiet_report \<and> m_HoldUntilMs narrowed \<le> 5000"
proof -
  have "m_Target narrowed < m_Target (snd (gov_report quiet_report 5000 narrowed))" by code_simp
  with report_raises_only_when [OF narrowed_def this] show ?thesis
    by (auto simp: quiet_report_def narrowed_members fb_overuse_def fb_quiet_def tunables)
qed

theorem silence_undone_witness:
  "m_Target (snd (gov_report back_report 60000
     (fold gov_call (map Tick [5500, 6000, 30000]) narrowed))) = 12800"
  using silence_undone [OF narrowed_def, of back_report 60000 "[5500, 6000, 30000]"]
  by (simp add: narrowed_members back_report_def)

theorem quiet_link_recovers_witness:
  "12800 + 640 \<le> m_Target (fold gov_call [Report quiet_report 5000, Report quiet_report 5500] narrowed)"
proof -
  have "legal quiet_call gov_call [Report quiet_report 5000, Report quiet_report 5500] narrowed"
    by code_simp
  from quiet_link_recovers [OF narrowed_def this] show ?thesis by (simp add: narrowed_members)
qed

end
