(* ===== verification/Encode_Load_Cap.thy ===== *)
theory Encode_Load_Cap
  imports MW_Prelude
begin

unbundle bit_operations_syntax

text \<open>
  \<open>EncodeLoadCap\<close> (\<open>native-host/src/encode/EncodeLoadCap.h\<close>): the ladder of picture sizes that gives up
  pixels when the encoder cannot keep the frame rate. \<open>lc_note\<close> is the method \<open>note\<close>; the judgement of
  a closed window is the function \<open>lc_judge\<close>, with its two moves \<open>lc_down\<close> and \<open>lc_up\<close>.
\<close>

section \<open>The ladder and its constants\<close>

definition kRungs :: "int list" where
  "kRungs = [100, 75, 50]"

definition kDownPercentOfInterval :: int where
  [tunables]: "kDownPercentOfInterval = 80"

definition kUpPercentOfInterval :: int where
  [tunables]: "kUpPercentOfInterval = 35"

definition kClimbPredictedPercentOfInterval :: int where
  [tunables]: "kClimbPredictedPercentOfInterval = 65"

definition kClimbProbationUs :: int where
  [tunables]: "kClimbProbationUs = 10 * 1000 * 1000"

definition kMaxUpWindows :: int where
  [tunables]: "kMaxUpWindows = 120"

definition lc_kWindowUs :: int where
  [tunables]: "lc_kWindowUs = 1000 * 1000"

definition kUpWindows :: int where
  [tunables]: "kUpWindows = 4"

definition kLastRung :: int where
  "kLastRung = int (length kRungs) - 1"

record EncodeLoadCap =
  rung :: int
  lc_changes :: int
  lc_windowStartUs :: int
  lastNoteUs :: int
  encodeSumUs :: int
  lc_frames :: int
  comfortWindows :: int
  upWindowsNeeded :: int
  climbedAtUs :: int

definition lc_resetWindow :: "int \<Rightarrow> EncodeLoadCap \<Rightarrow> EncodeLoadCap" where
  "lc_resetWindow nowUs c = c\<lparr>lc_windowStartUs := nowUs, encodeSumUs := 0, lc_frames := 0\<rparr>"

definition lc_start :: "int \<Rightarrow> EncodeLoadCap \<Rightarrow> EncodeLoadCap" where
  "lc_start nowUs c =
     lc_resetWindow nowUs (c\<lparr>rung := 0, lc_changes := 0, comfortWindows := 0,
       upWindowsNeeded := kUpWindows, climbedAtUs := 0, lastNoteUs := nowUs\<rparr>)"

definition lc_new :: EncodeLoadCap where
  "lc_new = \<lparr>rung = 0, lc_changes = 0, lc_windowStartUs = 0, lastNoteUs = 0, encodeSumUs = 0,
     lc_frames = 0, comfortWindows = 0, upWindowsNeeded = kUpWindows, climbedAtUs = 0\<rparr>"

definition lc_percent :: "EncodeLoadCap \<Rightarrow> int" where
  "lc_percent c = kRungs ! nat (rung c)"

section \<open>One encoded frame\<close>

text \<open>A slow window: one rung down, and a climb still on probation counts as failed.\<close>

definition lc_down :: "EncodeLoadCap \<Rightarrow> bool \<times> EncodeLoadCap" where
  "lc_down c =
     (let c = c\<lparr>comfortWindows := 0\<rparr>
      in if rung c \<ge> kLastRung then (False, c)
         else let c = (if climbedAtUs c \<noteq> 0
                       then c\<lparr>climbedAtUs := 0,
                              upWindowsNeeded := (if upWindowsNeeded c * 2 > kMaxUpWindows
                                                  then kMaxUpWindows else upWindowsNeeded c * 2)\<rparr>
                       else c)
              in (True, c\<lparr>rung := rung c + 1, lc_changes := lc_changes c + 1\<rparr>))"

text \<open>What a window at this rung would have cost at the rung above.\<close>

definition lc_predicted :: "int \<Rightarrow> EncodeLoadCap \<Rightarrow> int" where
  "lc_predicted mean c =
     (let here = kRungs ! nat (rung c); above = kRungs ! nat (rung c - 1)
      in mean * above * above sdiv (here * here))"

definition lc_up :: "int \<Rightarrow> int \<Rightarrow> int \<Rightarrow> EncodeLoadCap \<Rightarrow> bool \<times> EncodeLoadCap" where
  "lc_up mean climbLimit nowUs c =
     (if lc_predicted mean c \<ge> climbLimit then (False, c\<lparr>comfortWindows := 0\<rparr>)
      else let c = c\<lparr>comfortWindows := comfortWindows c + 1\<rparr>
           in if comfortWindows c < upWindowsNeeded c then (False, c)
              else (True, c\<lparr>comfortWindows := 0, rung := rung c - 1,
                            lc_changes := lc_changes c + 1, climbedAtUs := nowUs\<rparr>))"

text \<open>A climb that held through its probation clears the record of the failures before it.\<close>

definition lc_probation :: "int \<Rightarrow> EncodeLoadCap \<Rightarrow> EncodeLoadCap" where
  "lc_probation nowUs c =
     (if climbedAtUs c \<noteq> 0 \<and> nowUs - climbedAtUs c \<ge> kClimbProbationUs
      then c\<lparr>climbedAtUs := 0, upWindowsNeeded := kUpWindows\<rparr> else c)"

definition lc_judge :: "int \<Rightarrow> int \<Rightarrow> int \<Rightarrow> EncodeLoadCap \<Rightarrow> bool \<times> EncodeLoadCap" where
  "lc_judge mean intervalUs nowUs c =
     (let downLimit = intervalUs * kDownPercentOfInterval sdiv 100;
          upLimit = intervalUs * kUpPercentOfInterval sdiv 100;
          climbLimit = intervalUs * kClimbPredictedPercentOfInterval sdiv 100;
          c = lc_probation nowUs c
      in if mean > downLimit then lc_down c
         else if mean < upLimit \<and> rung c > 0 then lc_up mean climbLimit nowUs c
         else (False, if mean \<ge> upLimit then c\<lparr>comfortWindows := 0\<rparr> else c))"

definition lc_fed :: "int \<Rightarrow> int \<Rightarrow> EncodeLoadCap \<Rightarrow> EncodeLoadCap" where
  "lc_fed encodeUs nowUs c =
     (let c = (if nowUs - lastNoteUs c > lc_kWindowUs then lc_resetWindow nowUs c else c)
      in c\<lparr>lastNoteUs := nowUs, encodeSumUs := encodeSumUs c + encodeUs, lc_frames := lc_frames c + 1\<rparr>)"

definition lc_note :: "int \<Rightarrow> int \<Rightarrow> int \<Rightarrow> EncodeLoadCap \<Rightarrow> bool \<times> EncodeLoadCap" where
  "lc_note encodeUs intervalUs nowUs c =
     (if intervalUs \<le> 0 then (False, c)
      else let c = lc_fed encodeUs nowUs c
           in if nowUs - lc_windowStartUs c < lc_kWindowUs then (False, c)
              else if lc_frames c \<le> 0 then (False, lc_resetWindow nowUs c)
              else lc_judge (encodeSumUs c sdiv lc_frames c) intervalUs nowUs (lc_resetWindow nowUs c))"

text \<open>A rung applied to a size, kept even.\<close>

definition lc_scaled :: "int \<Rightarrow> int \<Rightarrow> int" where
  "lc_scaled full percent =
     (let v = full * percent sdiv 100 in if v < 2 then 2 else v AND NOT 1)"

section \<open>The invariant\<close>

definition lc_inv :: "EncodeLoadCap \<Rightarrow> bool" where
  "lc_inv c \<longleftrightarrow> 0 \<le> rung c \<and> rung c \<le> kLastRung \<and> 0 \<le> comfortWindows c \<and>
     kUpWindows \<le> upWindowsNeeded c \<and> upWindowsNeeded c \<le> kMaxUpWindows \<and>
     lc_windowStartUs c \<le> lastNoteUs c"

datatype LoadFrame = LoadFrame (encode_us: int) (interval_us: int) (now_us: int)

definition lc_call :: "LoadFrame \<Rightarrow> EncodeLoadCap \<Rightarrow> EncodeLoadCap" where
  "lc_call e c = snd (lc_note (encode_us e) (interval_us e) (now_us e) c)"

text \<open>The session's clock does not go back between two frames.\<close>

definition lc_clock :: "LoadFrame \<Rightarrow> EncodeLoadCap \<Rightarrow> bool" where
  "lc_clock e c \<longleftrightarrow> lastNoteUs c \<le> now_us e"

lemma kLastRung_2 [simp]: "kLastRung = 2"
  by (simp add: kLastRung_def kRungs_def)

lemma lc_down_step:
  assumes "lc_inv c"
  shows "lc_inv (snd (lc_down c))"
    and "rung (snd (lc_down c)) = (if rung c < 2 then rung c + 1 else rung c)"
    and "fst (lc_down c) \<longleftrightarrow> rung c < 2"
    and "comfortWindows (snd (lc_down c)) = 0"
    and "lc_windowStartUs (snd (lc_down c)) = lc_windowStartUs c"
  using assms by (auto simp: lc_down_def lc_inv_def Let_def tunables)

lemma lc_up_step:
  assumes "lc_inv c" "0 < rung c"
  shows "lc_inv (snd (lc_up m l now c))"
    and "fst (lc_up m l now c) \<longleftrightarrow> lc_predicted m c < l \<and> upWindowsNeeded c \<le> comfortWindows c + 1"
    and "rung (snd (lc_up m l now c)) = (if fst (lc_up m l now c) then rung c - 1 else rung c)"
    and "comfortWindows (snd (lc_up m l now c)) \<le> comfortWindows c + 1"
    and "fst (lc_up m l now c) \<Longrightarrow> comfortWindows (snd (lc_up m l now c)) = 0"
    and "lc_windowStartUs (snd (lc_up m l now c)) = lc_windowStartUs c"
  using assms by (auto simp: lc_up_def lc_inv_def Let_def tunables split: if_splits)

lemma lc_probation_step:
  assumes "lc_inv c"
  shows "lc_inv (lc_probation now c)" "rung (lc_probation now c) = rung c"
    "comfortWindows (lc_probation now c) = comfortWindows c"
    "upWindowsNeeded (lc_probation now c) \<le> upWindowsNeeded c"
    "lc_windowStartUs (lc_probation now c) = lc_windowStartUs c"
  using assms by (auto simp: lc_probation_def lc_inv_def tunables)

text \<open>One judged window. A climb needs a comfortable mean, a prediction under the limit and its run.\<close>

definition lc_climb_ok :: "int \<Rightarrow> int \<Rightarrow> int \<Rightarrow> EncodeLoadCap \<Rightarrow> bool" where
  "lc_climb_ok mean intervalUs nowUs c \<longleftrightarrow>
     mean < intervalUs * 35 div 100 \<and> lc_predicted mean c < intervalUs * 65 div 100 \<and>
     upWindowsNeeded (lc_probation nowUs c) \<le> comfortWindows c + 1"

lemma lc_predicted_probation [simp]: "lc_predicted mean (lc_probation now c) = lc_predicted mean c"
  by (simp add: lc_predicted_def lc_probation_def)

lemma lc_judge_step:
  assumes inv: "lc_inv c" and iv: "0 < iv"
  shows "lc_inv (snd (lc_judge mean iv now c))"
    and "rung (snd (lc_judge mean iv now c)) =
      (if mean > iv * 80 div 100 then min 2 (rung c + 1)
       else if 0 < rung c \<and> lc_climb_ok mean iv now c then rung c - 1
       else rung c)"
    and "fst (lc_judge mean iv now c) \<longleftrightarrow> rung (snd (lc_judge mean iv now c)) \<noteq> rung c"
    and "comfortWindows (snd (lc_judge mean iv now c)) \<le> comfortWindows c + 1"
    and "rung (snd (lc_judge mean iv now c)) < rung c \<Longrightarrow>
      comfortWindows (snd (lc_judge mean iv now c)) = 0"
    and "lc_windowStartUs (snd (lc_judge mean iv now c)) = lc_windowStartUs c"
proof -
  define c' where "c' = lc_probation now c"
  note p = lc_probation_step [OF inv, of now, folded c'_def]
  note down = lc_down_step [OF p(1)]
  have sd: "iv * 80 sdiv 100 = iv * 80 div 100" "iv * 35 sdiv 100 = iv * 35 div 100"
    "iv * 65 sdiv 100 = iv * 65 div 100" using iv by simp_all
  have eq: "lc_judge mean iv now c =
      (if mean > iv * 80 div 100 then lc_down c'
       else if mean < iv * 35 div 100 \<and> rung c > 0 then lc_up mean (iv * 65 div 100) now c'
       else (False, if mean \<ge> iv * 35 div 100 then c'\<lparr>comfortWindows := 0\<rparr> else c'))"
    unfolding lc_judge_def Let_def c'_def [symmetric] tunables by (simp add: sd p(2))
  have idle: "lc_inv (c'\<lparr>comfortWindows := 0\<rparr>)" "0 \<le> comfortWindows c" "rung c \<le> 2"
    using p(1) inv by (simp_all add: lc_inv_def)
  have order: "iv * 35 div 100 \<le> iv * 80 div 100" using iv by (intro zdiv_mono1) auto
  consider "mean > iv * 80 div 100" | "mean \<le> iv * 80 div 100" "mean < iv * 35 div 100" "rung c > 0"
    | "mean \<le> iv * 80 div 100" "\<not> (mean < iv * 35 div 100 \<and> rung c > 0)"
    by linarith
  note cases = this
  have up: "rung c > 0 \<Longrightarrow> fst (lc_up mean l now c') \<longleftrightarrow>
      lc_predicted mean c < l \<and> upWindowsNeeded c' \<le> comfortWindows c + 1" for l
    using lc_up_step(2) [OF p(1)] p(2,3) by (simp add: c'_def)
  show "lc_inv (snd (lc_judge mean iv now c))"
    using cases by cases (simp_all add: eq down lc_up_step(1) [OF p(1)] p idle)
  show r: "rung (snd (lc_judge mean iv now c)) =
      (if mean > iv * 80 div 100 then min 2 (rung c + 1)
       else if 0 < rung c \<and> lc_climb_ok mean iv now c then rung c - 1
       else rung c)"
    using cases idle
    by cases (auto simp: eq down lc_up_step(3) [OF p(1)] p up lc_climb_ok_def c'_def [symmetric])
  show "fst (lc_judge mean iv now c) \<longleftrightarrow> rung (snd (lc_judge mean iv now c)) \<noteq> rung c"
    using cases idle by cases (simp_all add: eq down lc_up_step(3) [OF p(1)] p)
  show "comfortWindows (snd (lc_judge mean iv now c)) \<le> comfortWindows c + 1"
    using cases idle lc_up_step(4) [OF p(1)] by cases (auto simp: eq down p)
  show "rung (snd (lc_judge mean iv now c)) < rung c \<Longrightarrow>
      comfortWindows (snd (lc_judge mean iv now c)) = 0"
    using cases idle lc_up_step(3,5) [OF p(1)] by cases (auto simp: eq down p split: if_splits)
  show "lc_windowStartUs (snd (lc_judge mean iv now c)) = lc_windowStartUs c"
    using cases lc_up_step(6) [OF p(1)] by cases (auto simp: eq down p)
qed

text \<open>One frame. Either its window is still open, and nothing moves, or it is judged.\<close>

lemma lc_fed_frame:
  assumes "lc_inv c" "lc_clock e c"
  shows "lc_inv (lc_fed u (now_us e) c)" "rung (lc_fed u (now_us e) c) = rung c"
    "comfortWindows (lc_fed u (now_us e) c) = comfortWindows c"
    "lc_windowStartUs c \<le> lc_windowStartUs (lc_fed u (now_us e) c)"
  using assms by (auto simp: lc_fed_def lc_resetWindow_def lc_inv_def lc_clock_def Let_def tunables)

lemma lc_reset_frame:
  "lc_inv c \<Longrightarrow> lastNoteUs c = now \<Longrightarrow> lc_inv (lc_resetWindow now c)"
  "rung (lc_resetWindow now c) = rung c"
  "comfortWindows (lc_resetWindow now c) = comfortWindows c"
  "lc_windowStartUs (lc_resetWindow now c) = now"
  by (simp_all add: lc_resetWindow_def lc_inv_def)

lemma lc_fed_last [simp]: "lastNoteUs (lc_fed u now c) = now"
  by (simp add: lc_fed_def Let_def)

lemma lc_note_cases:
  obtains (idle) "lc_note u iv now c = (False, c)"
  | (open_window) "lc_note u iv now c = (False, lc_fed u now c)"
  | (empty) "lc_note u iv now c = (False, lc_resetWindow now (lc_fed u now c))" "0 < iv"
      "lc_windowStartUs (lc_fed u now c) + 1000000 \<le> now"
  | (judged) "lc_note u iv now c =
        lc_judge (encodeSumUs (lc_fed u now c) sdiv lc_frames (lc_fed u now c)) iv now
          (lc_resetWindow now (lc_fed u now c))" "0 < iv"
      "lc_windowStartUs (lc_fed u now c) + 1000000 \<le> now" "0 < lc_frames (lc_fed u now c)"
  by (cases "iv \<le> 0"; cases "now - lc_windowStartUs (lc_fed u now c) < lc_kWindowUs";
      cases "lc_frames (lc_fed u now c) \<le> 0") (auto simp: lc_note_def Let_def tunables)

lemma lc_call_step:
  assumes inv: "lc_inv c" and clock: "lc_clock e c"
  shows "lc_inv (lc_call e c)"
    and "fst (lc_note (encode_us e) (interval_us e) (now_us e) c) \<longleftrightarrow> rung (lc_call e c) \<noteq> rung c"
    and "\<bar>rung (lc_call e c) - rung c\<bar> \<le> 1"
    and "lc_windowStartUs c - comfortWindows c * 1000000
      \<le> lc_windowStartUs (lc_call e c) - comfortWindows (lc_call e c) * 1000000"
    and "rung (lc_call e c) < rung c \<Longrightarrow> lc_windowStartUs (lc_call e c) = now_us e \<and>
      comfortWindows (lc_call e c) = 0 \<and>
      lc_windowStartUs c - comfortWindows c * 1000000 + 4 * 1000000 \<le> now_us e"
proof -
  let ?f = "lc_fed (encode_us e) (now_us e) c"
  let ?r = "lc_resetWindow (now_us e) ?f"
  note fed = lc_fed_frame [OF inv clock, of "encode_us e"]
  have r: "lc_inv ?r" "rung ?r = rung c" "comfortWindows ?r = comfortWindows c"
    "lc_windowStartUs ?r = now_us e"
    using fed by (simp_all add: lc_reset_frame)
  have range: "0 \<le> rung c" "rung c \<le> 2" "0 \<le> comfortWindows c" using inv by (simp_all add: lc_inv_def)
  have need: "4 \<le> upWindowsNeeded (lc_probation t ?r)" for t
    using lc_probation_step(1) [OF r(1), of t] by (simp add: lc_inv_def tunables)
  let ?m = "\<lambda>c. lc_windowStartUs c - comfortWindows c * 1000000"
  have "lc_inv (lc_call e c) \<and>
    (fst (lc_note (encode_us e) (interval_us e) (now_us e) c) \<longleftrightarrow> rung (lc_call e c) \<noteq> rung c) \<and>
    \<bar>rung (lc_call e c) - rung c\<bar> \<le> 1 \<and> ?m c \<le> ?m (lc_call e c) \<and>
    (rung (lc_call e c) < rung c \<longrightarrow> lc_windowStartUs (lc_call e c) = now_us e \<and>
      comfortWindows (lc_call e c) = 0 \<and> ?m c + 4 * 1000000 \<le> now_us e)"
  proof (cases rule: lc_note_cases [of "encode_us e" "interval_us e" "now_us e" c])
    case judged
    note j = lc_judge_step [OF r(1) judged(2)]
    have call: "lc_call e c = snd (lc_note (encode_us e) (interval_us e) (now_us e) c)"
      by (simp add: lc_call_def)
    have m: "?m c \<le> ?m (lc_call e c)"
      using judged(3) j(4) [of _ "now_us e"] j(6) [of _ "now_us e"] r fed
      unfolding call judged(1) by (simp add: algebra_simps) (smt (verit) mult_le_cancel_left_pos)
    have climb: "rung (lc_call e c) < rung c \<Longrightarrow> upWindowsNeeded (lc_probation (now_us e) ?r) \<le> comfortWindows c + 1"
      using j(2) r range unfolding call judged(1) by (auto simp: lc_climb_ok_def split: if_splits)
    show ?thesis
      using m climb j(1,3) j(2) j(5) j(6) r range need [of "now_us e"] judged(3) fed(4)
      unfolding call judged(1) by (auto split: if_splits)
  qed (use inv fed r range in \<open>auto simp: lc_call_def\<close>)
  then show "lc_inv (lc_call e c)"
    and "fst (lc_note (encode_us e) (interval_us e) (now_us e) c) \<longleftrightarrow> rung (lc_call e c) \<noteq> rung c"
    and "\<bar>rung (lc_call e c) - rung c\<bar> \<le> 1"
    and "?m c \<le> ?m (lc_call e c)"
    and "rung (lc_call e c) < rung c \<Longrightarrow> lc_windowStartUs (lc_call e c) = now_us e \<and>
      comfortWindows (lc_call e c) = 0 \<and> ?m c + 4 * 1000000 \<le> now_us e"
    by blast+
qed

interpretation load_cap: guarded_machine lc_call lc_clock lc_inv
  by unfold_locales (rule lc_call_step(1))

lemma lc_start_inv: "lc_inv (lc_start now c)"
  by (simp add: lc_start_def lc_resetWindow_def lc_inv_def tunables)

lemma lc_run_inv:
  "legal lc_clock lc_call es (lc_start t0 c0) \<Longrightarrow> lc_inv (fold lc_call es (lc_start t0 c0))"
  by (rule load_cap.inv_run) (rule lc_start_inv)

section \<open>Properties\<close>

text \<open>The ladder has three rungs and the cap never leaves it: after any frames on a clock that does
  not go back, the picture is encoded at 100, 75 or 50 percent, the next frame moves by one rung at
  most, and the answer that makes the caller rebuild its pipeline is true exactly when the rung moved.\<close>

theorem load_cap_ladder:
  assumes legal: "legal lc_clock lc_call (es @ [e]) (lc_start t0 c0)"
    and c: "c = fold lc_call es (lc_start t0 c0)"
  shows "lc_percent c \<in> {100, 75, 50} \<and> \<bar>rung (lc_call e c) - rung c\<bar> \<le> 1 \<and>
    (fst (lc_note (encode_us e) (interval_us e) (now_us e) c) \<longleftrightarrow> rung (lc_call e c) \<noteq> rung c)"
proof -
  have inv: "lc_inv c" using legal by (simp add: c lc_run_inv)
  then have "rung c = 0 \<or> rung c = 1 \<or> rung c = 2" by (auto simp: lc_inv_def)
  then have "lc_percent c \<in> {100, 75, 50}" by (auto simp: lc_percent_def kRungs_def)
  moreover have "lc_clock e c" using legal by (simp add: c)
  ultimately show ?thesis using lc_call_step(2,3) [OF inv, of e] by simp
qed

text \<open>What a closed window decides, in full: a mean over 80 percent of the interval steps down at once
  (at the floor it stays); a climb needs a mean under 35 percent, a prediction at the size above under
  65 percent and a whole run of comfortable windows; anything else stays.\<close>

theorem load_cap_window:
  assumes "lc_inv c" "lc_clock e c" "0 < interval_us e"
    and f: "f = lc_fed (encode_us e) (now_us e) c"
    and closed: "lc_windowStartUs f + 1000000 \<le> now_us e" "0 < lc_frames f"
    and mean: "mean = encodeSumUs f sdiv lc_frames f"
  shows "rung (lc_call e c) =
    (if mean > interval_us e * 80 div 100 then min 2 (rung c + 1)
     else if 0 < rung c \<and> lc_climb_ok mean (interval_us e) (now_us e) (lc_resetWindow (now_us e) f)
     then rung c - 1 else rung c)"
proof -
  let ?r = "lc_resetWindow (now_us e) f"
  have r: "lc_inv ?r" "rung ?r = rung c"
    using lc_fed_frame [OF assms(1,2)] by (simp_all add: f lc_reset_frame)
  have "lc_call e c = snd (lc_judge mean (interval_us e) (now_us e) ?r)"
    using assms(3) closed by (simp add: lc_call_def lc_note_def f [symmetric] mean tunables)
  then show ?thesis using lc_judge_step(2) [OF r(1) assms(3)] r(2) by simp
qed

text \<open>The cap does not oscillate: between two climbs of one session at least four seconds go by,
  whatever the encoder does in between, because the second one needs four windows of its own.\<close>

theorem climbs_four_seconds_apart:
  assumes legal: "legal lc_clock lc_call (es @ e1 # mid @ [e2]) (lc_start t0 c0)"
    and c: "c = fold lc_call es (lc_start t0 c0)" and d: "d = fold lc_call mid (lc_call e1 c)"
    and climb1: "rung (lc_call e1 c) < rung c" and climb2: "rung (lc_call e2 d) < rung d"
  shows "now_us e1 + 4000000 \<le> now_us e2"
proof -
  let ?m = "\<lambda>c. lc_windowStartUs c - comfortWindows c * 1000000"
  have l: "lc_inv c" "lc_clock e1 c" "legal lc_clock lc_call mid (lc_call e1 c)" "lc_clock e2 d"
    using legal by (simp_all add: c d lc_run_inv)
  have inv1: "lc_inv (lc_call e1 c)" by (rule lc_call_step(1) [OF l(1,2)])
  have inv2: "lc_inv d" unfolding d by (rule load_cap.inv_run [OF inv1 l(3)])
  have "?m (lc_call e1 c) = now_us e1" using lc_call_step(5) [OF l(1,2) climb1] by simp
  moreover have "?m (lc_call e1 c) \<le> ?m d"
    unfolding d by (rule load_cap.run_mono [OF lc_call_step(4) inv1 l(3)])
  moreover have "?m d + 4 * 1000000 \<le> now_us e2"
    using lc_call_step(5) [OF inv2 l(4) climb2] by simp
  ultimately show ?thesis by simp
qed

lemma clear_low_bit: "(v::int) AND - 2 = 2 * (v div 2)"
  by (subst and_int_rec) simp

text \<open>A rung of a real picture is an even size, at least two pixels and never over the full one.\<close>

lemma lc_scaled_size:
  assumes "2 \<le> full" "0 \<le> percent" "percent \<le> 100"
  shows "even (lc_scaled full percent) \<and> 2 \<le> lc_scaled full percent \<and> lc_scaled full percent \<le> full"
proof -
  have "full * percent \<le> full * 100" using assms by simp
  then have "full * percent div 100 \<le> full" using div_lt_iff [of 100 "full * percent" "full + 1"] by simp
  moreover have "full * percent sdiv 100 = full * percent div 100" using assms by simp
  ultimately show ?thesis using assms(1) by (auto simp: lc_scaled_def Let_def clear_low_bit)
qed

section \<open>Witnesses\<close>

text \<open>A 60 fps session on a slow machine: two slow seconds, then eight comfortable ones.\<close>

definition slow_seconds :: "LoadFrame list" where
  "slow_seconds = [LoadFrame 15000 16666 1000000, LoadFrame 15000 16666 2000000]"

definition comfort :: "int \<Rightarrow> LoadFrame" where
  "comfort s = LoadFrame 1000 16666 (s * 1000000)"

theorem load_cap_ladder_witness:
  "lc_percent (fold lc_call slow_seconds (lc_start 0 lc_new)) = 50 \<and>
   lc_percent (fold lc_call slow_seconds (lc_start 0 lc_new)) \<in> {100, 75, 50}"
proof -
  have "legal lc_clock lc_call (slow_seconds @ [comfort 3]) (lc_start 0 lc_new)" by code_simp
  from load_cap_ladder [OF this refl]
  have "lc_percent (fold lc_call slow_seconds (lc_start 0 lc_new)) \<in> {100, 75, 50}" by blast
  moreover have "lc_percent (fold lc_call slow_seconds (lc_start 0 lc_new)) = 50" by code_simp
  ultimately show ?thesis by simp
qed

theorem load_cap_window_witness:
  "rung (lc_call (LoadFrame 15000 16666 1000000) (lc_start 0 lc_new)) = 1"
proof -
  have "lc_inv (lc_start 0 lc_new)" "lc_clock (LoadFrame 15000 16666 1000000) (lc_start 0 lc_new)"
    by code_simp+
  from load_cap_window [OF this _ refl _ _ refl] show ?thesis
    by (simp add: lc_fed_def lc_start_def lc_resetWindow_def tunables Let_def)
qed

theorem climbs_four_seconds_apart_witness:
  "now_us (comfort 6) + 4000000 \<le> now_us (comfort 10)"
proof -
  let ?es = "slow_seconds @ map comfort [3, 4, 5]" and ?mid = "map comfort [7, 8, 9]"
  have legal: "legal lc_clock lc_call (?es @ comfort 6 # ?mid @ [comfort 10]) (lc_start 0 lc_new)"
    by code_simp
  show ?thesis
    by (rule climbs_four_seconds_apart [OF legal refl refl]) code_simp+
qed

end
