(* ===== verification/Reference_Slots.thy ===== *)
theory Reference_Slots
  imports MW_Prelude
begin

unbundle bit_operations_syntax

text \<open>
  \<open>ReferenceSlots\<close> (\<open>native-host/src/encode/ReferenceSlots.h\<close>): the long-term reference slots an encoder
  marks its pictures into, and the search for a picture that predates a loss. Slot numbers and frame
  numbers are integers (a frame number is a \<open>uint32_t\<close>), the three arrays are lists of length
  \<open>kMaxSlots\<close>, and a driver's bitfield is a 64-bit word.
\<close>

section \<open>The table\<close>

definition kMaxSlots :: int where
  [tunables]: "kMaxSlots = 16"

definition kReachMs :: int where
  [tunables]: "kReachMs = 125"

record ReferenceSlots =
  rs_count :: int
  rs_stride :: int
  rs_frame :: "int list"
  rs_held :: "bool list"
  rs_ever :: "bool list"

definition rs_clear :: "ReferenceSlots \<Rightarrow> ReferenceSlots" where
  "rs_clear t = t\<lparr>rs_frame := replicate (nat kMaxSlots) 0, rs_held := replicate (nat kMaxSlots) False,
     rs_ever := replicate (nat kMaxSlots) False\<rparr>"

definition rs_new :: "int \<Rightarrow> int \<Rightarrow> ReferenceSlots" where
  "rs_new slots stride =
     rs_clear \<lparr>rs_count = (if slots < 0 then 0 else if slots > kMaxSlots then kMaxSlots else slots),
       rs_stride = (if stride < 1 then 1 else stride), rs_frame = [], rs_held = [], rs_ever = []\<rparr>"

definition strideFor :: "int \<Rightarrow> int \<Rightarrow> int" where
  "strideFor fps slots =
     (if fps \<le> 0 \<or> slots \<le> 0 then 1
      else let reach = (fps * kReachMs + 999) sdiv 1000;
               stride = (reach + slots - 1) sdiv slots
           in if stride < 1 then 1 else stride)"

definition rs_enabled :: "ReferenceSlots \<Rightarrow> bool" where
  "rs_enabled t \<longleftrightarrow> rs_count t > 0"

definition reachFrames :: "ReferenceSlots \<Rightarrow> int" where
  "reachFrames t = rs_count t * rs_stride t"

definition slotFor :: "ReferenceSlots \<Rightarrow> int \<Rightarrow> bool \<Rightarrow> int" where
  "slotFor t frameNumber always =
     (if rs_count t \<le> 0 then - 1
      else if \<not> always \<and> frameNumber mod u32 (rs_stride t) \<noteq> 0 then - 1
      else frameNumber div u32 (rs_stride t) mod u32 (rs_count t))"

definition rs_marked :: "int \<Rightarrow> int \<Rightarrow> ReferenceSlots \<Rightarrow> ReferenceSlots" where
  "rs_marked slot frameNumber t =
     (if slot < 0 \<or> slot \<ge> rs_count t then t
      else t\<lparr>rs_frame := (rs_frame t)[nat slot := frameNumber],
             rs_held := (rs_held t)[nat slot := True],
             rs_ever := (rs_ever t)[nat slot := True]\<rparr>)"

definition bitFor :: "int \<Rightarrow> 64 word" where
  "bitFor slot = (if slot < 0 then 0 else push_bit (nat slot) 1)"

text \<open>The loop of \<open>allBefore\<close> over the slots, with its two early returns.\<close>

fun allBefore_loop :: "ReferenceSlots \<Rightarrow> 64 word \<Rightarrow> int \<Rightarrow> int list \<Rightarrow> bool" where
  "allBefore_loop t bits lostFrom [] \<longleftrightarrow> drop_bit (nat kMaxSlots) bits = 0"
| "allBefore_loop t bits lostFrom (s # ss) \<longleftrightarrow>
     (if bits AND bitFor s = 0 then allBefore_loop t bits lostFrom ss
      else if s \<ge> rs_count t then False
      else if \<not> rs_ever t ! nat s \<or> rs_frame t ! nat s \<ge> lostFrom then False
      else allBefore_loop t bits lostFrom ss)"

definition allBefore :: "ReferenceSlots \<Rightarrow> 64 word \<Rightarrow> int \<Rightarrow> bool" where
  "allBefore t bits lostFrom =
     (if bits = 0 then False else allBefore_loop t bits lostFrom [0..kMaxSlots - 1])"

text \<open>The log line of a bitfield.\<close>

fun describe_loop :: "ReferenceSlots \<Rightarrow> 64 word \<Rightarrow> int list \<Rightarrow> string \<Rightarrow> string" where
  "describe_loop t bits [] out = out"
| "describe_loop t bits (s # ss) out =
     (if bits AND bitFor s = 0 then describe_loop t bits ss out
      else describe_loop t bits ss
        ((if out \<noteq> [] then out @ '', '' else out) @ ''slot '' @ to_string s @ '' = '' @
         (if s \<ge> rs_count t then ''not a slot this encoder has''
          else if \<not> rs_ever t ! nat s then ''never marked''
          else ''frame '' @ to_string (rs_frame t ! nat s))))"

definition rs_describe :: "ReferenceSlots \<Rightarrow> 64 word \<Rightarrow> string" where
  "rs_describe t bits =
     (let out = describe_loop t bits [0..kMaxSlots - 1] []
      in if out = [] then ''no long-term reference at all'' else out)"

definition cleanSlot_pick :: "ReferenceSlots \<Rightarrow> int \<Rightarrow> int \<Rightarrow> int \<Rightarrow> int" where
  "cleanSlot_pick t lostFrom s best =
     (if \<not> rs_held t ! nat s \<or> rs_frame t ! nat s \<ge> lostFrom then best
      else if best < 0 \<or> rs_frame t ! nat s > rs_frame t ! nat best then s else best)"

definition cleanSlotBefore :: "ReferenceSlots \<Rightarrow> int \<Rightarrow> int" where
  "cleanSlotBefore t lostFrom = fold (cleanSlot_pick t lostFrom) [0..rs_count t - 1] (- 1)"

definition frameAt :: "ReferenceSlots \<Rightarrow> int \<Rightarrow> int" where
  "frameAt t slot = (if slot < 0 \<or> slot \<ge> rs_count t then 0 else rs_frame t ! nat slot)"

definition drop_slot :: "int \<Rightarrow> int \<Rightarrow> ReferenceSlots \<Rightarrow> ReferenceSlots" where
  "drop_slot lostFrom s t =
     (if rs_held t ! nat s \<and> rs_frame t ! nat s \<ge> lostFrom
      then t\<lparr>rs_held := (rs_held t)[nat s := False]\<rparr> else t)"

definition dropFrom :: "int \<Rightarrow> ReferenceSlots \<Rightarrow> ReferenceSlots" where
  "dropFrom lostFrom t = fold (drop_slot lostFrom) [0..rs_count t - 1] t"

definition heldSlots :: "ReferenceSlots \<Rightarrow> int" where
  "heldSlots t = fold (\<lambda>s n. if rs_held t ! nat s then n + 1 else n) [0..rs_count t - 1] 0"

section \<open>The invariant\<close>

definition rs_inv :: "ReferenceSlots \<Rightarrow> bool" where
  "rs_inv t \<longleftrightarrow> 0 \<le> rs_count t \<and> rs_count t \<le> 16 \<and> 1 \<le> rs_stride t \<and>
     length (rs_frame t) = 16 \<and> length (rs_held t) = 16 \<and> length (rs_ever t) = 16"

text \<open>A slot the table has, and what it holds.\<close>

definition holds :: "ReferenceSlots \<Rightarrow> int \<Rightarrow> int \<Rightarrow> bool" where
  "holds t s f \<longleftrightarrow> 0 \<le> s \<and> s < rs_count t \<and> rs_held t ! nat s \<and> rs_frame t ! nat s = f"

datatype SlotCall = Mark int int | DropFrom int | Clear

fun rs_call :: "SlotCall \<Rightarrow> ReferenceSlots \<Rightarrow> ReferenceSlots" where
  "rs_call (Mark s f) t = rs_marked s f t"
| "rs_call (DropFrom f) t = dropFrom f t"
| "rs_call Clear t = rs_clear t"

lemma rs_new_inv: "rs_inv (rs_new slots stride)"
  by (simp add: rs_inv_def rs_new_def rs_clear_def tunables)

lemma drop_slot_frame [simp]:
  "rs_count (drop_slot f s t) = rs_count t" "rs_stride (drop_slot f s t) = rs_stride t"
  "rs_frame (drop_slot f s t) = rs_frame t" "rs_ever (drop_slot f s t) = rs_ever t"
  "length (rs_held (drop_slot f s t)) = length (rs_held t)"
  by (simp_all add: drop_slot_def)

lemma fold_drop_slot_frame [simp]:
  "rs_count (fold (drop_slot f) ss t) = rs_count t" "rs_stride (fold (drop_slot f) ss t) = rs_stride t"
  "rs_frame (fold (drop_slot f) ss t) = rs_frame t" "rs_ever (fold (drop_slot f) ss t) = rs_ever t"
  "length (rs_held (fold (drop_slot f) ss t)) = length (rs_held t)"
  by (induction ss arbitrary: t) simp_all

lemma fold_drop_slot_held:
  "(\<And>s. s \<in> set ss \<Longrightarrow> 0 \<le> s \<and> nat s < length (rs_held t)) \<Longrightarrow> i < length (rs_held t) \<Longrightarrow>
   rs_held (fold (drop_slot f) ss t) ! i \<longleftrightarrow>
     rs_held t ! i \<and> (int i \<in> set ss \<longrightarrow> rs_frame t ! i < f)"
proof (induction ss arbitrary: t)
  case Nil
  then show ?case by simp
next
  case (Cons s ss)
  have "rs_held (fold (drop_slot f) ss (drop_slot f s t)) ! i \<longleftrightarrow>
      rs_held (drop_slot f s t) ! i \<and> (int i \<in> set ss \<longrightarrow> rs_frame t ! i < f)"
    using Cons.IH [of "drop_slot f s t"] Cons.prems by simp
  moreover have "rs_held (drop_slot f s t) ! i \<longleftrightarrow> rs_held t ! i \<and> (int i = s \<longrightarrow> rs_frame t ! i < f)"
    using Cons.prems by (auto simp: drop_slot_def nth_list_update)
  ultimately show ?case by auto
qed

lemma dropFrom_holds:
  assumes "rs_inv t"
  shows "holds (dropFrom f t) s g \<longleftrightarrow> holds t s g \<and> g < f"
proof (cases "0 \<le> s \<and> s < rs_count t")
  case True
  have "rs_held (dropFrom f t) ! nat s \<longleftrightarrow>
      rs_held t ! nat s \<and> (int (nat s) \<in> set [0..rs_count t - 1] \<longrightarrow> rs_frame t ! nat s < f)"
    unfolding dropFrom_def
    by (rule fold_drop_slot_held) (use assms True in \<open>auto simp: rs_inv_def\<close>)
  with True show ?thesis by (auto simp: holds_def dropFrom_def)
qed (auto simp: holds_def dropFrom_def)

lemma rs_call_inv: "rs_inv t \<Longrightarrow> rs_inv (rs_call c t)"
  by (cases c) (auto simp: rs_inv_def rs_marked_def rs_clear_def dropFrom_def tunables)

interpretation slots: call_machine rs_call rs_inv
  by unfold_locales (rule rs_call_inv)

section \<open>The search for a clean slot\<close>

definition clean_so_far :: "ReferenceSlots \<Rightarrow> int \<Rightarrow> int set \<Rightarrow> int \<Rightarrow> bool" where
  "clean_so_far t lost seen b \<longleftrightarrow>
     (if b < 0 then b = - 1 \<and> (\<forall>s f. s \<in> seen \<longrightarrow> holds t s f \<longrightarrow> lost \<le> f)
      else b \<in> seen \<and> holds t b (rs_frame t ! nat b) \<and> rs_frame t ! nat b < lost \<and>
        (\<forall>s f. s \<in> seen \<longrightarrow> holds t s f \<longrightarrow> f < lost \<longrightarrow> f \<le> rs_frame t ! nat b))"

lemma clean_so_far_pick:
  assumes "clean_so_far t lost seen b" "0 \<le> s" "s < rs_count t"
  shows "clean_so_far t lost (insert s seen) (cleanSlot_pick t lost s b)"
  using assms unfolding clean_so_far_def cleanSlot_pick_def holds_def
  by (simp split: if_splits) (smt (verit))+

lemma clean_so_far_fold:
  "clean_so_far t lost seen b \<Longrightarrow> (\<And>s. s \<in> set ss \<Longrightarrow> 0 \<le> s \<and> s < rs_count t) \<Longrightarrow>
   clean_so_far t lost (set ss \<union> seen) (fold (cleanSlot_pick t lost) ss b)"
proof (induction ss arbitrary: seen b)
  case Nil
  then show ?case by simp
next
  case (Cons s ss)
  have "clean_so_far t lost (insert s seen) (cleanSlot_pick t lost s b)"
    using Cons.prems by (simp add: clean_so_far_pick)
  from Cons.IH [OF this] Cons.prems show ?case by simp
qed

lemma cleanSlotBefore_spec: "clean_so_far t lost {0..rs_count t - 1} (cleanSlotBefore t lost)"
  using clean_so_far_fold [of t lost "{}" "- 1" "[0..rs_count t - 1]"]
  by (simp add: cleanSlotBefore_def clean_so_far_def)

lemma holds_range: "holds t s f \<Longrightarrow> s \<in> {0..rs_count t - 1}"
  by (simp add: holds_def)

lemma cleanSlotBefore_found:
  assumes "holds t s f" "f < lost" "\<And>s' f'. holds t s' f' \<Longrightarrow> f' < lost \<Longrightarrow> f' \<le> f"
  shows "holds t (cleanSlotBefore t lost) f"
proof -
  let ?b = "cleanSlotBefore t lost"
  have spec: "clean_so_far t lost {0..rs_count t - 1} ?b" by (rule cleanSlotBefore_spec)
  have "\<not> ?b < 0" using spec assms(1,2) holds_range unfolding clean_so_far_def by (smt (verit))
  then have b: "holds t ?b (rs_frame t ! nat ?b)" "rs_frame t ! nat ?b < lost" "f \<le> rs_frame t ! nat ?b"
    using spec assms(1,2) holds_range unfolding clean_so_far_def by (smt (verit))+
  with assms(3) have "rs_frame t ! nat ?b = f" by (simp add: dual_order.antisym)
  with b(1) show ?thesis by simp
qed

lemma cleanSlotBefore_none:
  assumes "\<And>s f. holds t s f \<Longrightarrow> lost \<le> f"
  shows "cleanSlotBefore t lost = - 1"
  using cleanSlotBefore_spec [of t lost] assms unfolding clean_so_far_def
  by (smt (verit))

section \<open>The frames of a session\<close>

text \<open>
  One picture of a session without a loss, as \<open>VplEncoder::encode\<close> drives the table: ask for the slot
  of the frame, and record it when the frame has one.
\<close>

definition rs_picture :: "int \<Rightarrow> ReferenceSlots \<Rightarrow> ReferenceSlots" where
  "rs_picture n t = (let s = slotFor t n False in if s \<ge> 0 then rs_marked s n t else t)"

definition rs_session :: "int \<Rightarrow> int \<Rightarrow> int \<Rightarrow> ReferenceSlots" where
  "rs_session slots stride n = fold rs_picture [0..n] (rs_new slots stride)"

text \<open>The newest multiple of the stride a slot received among the first \<open>M\<close> multiples.\<close>

definition slot_turn :: "int \<Rightarrow> int \<Rightarrow> int \<Rightarrow> int" where
  "slot_turn slots M k = M - (M - k) mod slots"

lemma slot_turn_step:
  assumes "0 < slots" "0 \<le> k" "k < slots"
  shows "slot_turn slots (M + 1) k = (if k = (M + 1) mod slots then M + 1 else slot_turn slots M k)"
proof (cases "k = (M + 1) mod slots")
  case True
  then have "(M + 1 - k) mod slots = 0" by (simp add: mod_eq_dvd_iff [symmetric])
  with True show ?thesis by (simp add: slot_turn_def)
next
  case False
  have "(M + 1 - k) mod slots \<noteq> 0"
    using False assms by (auto simp: mod_eq_0_iff_dvd mod_eq_dvd_iff [symmetric])
  moreover have "(M - k + 1) mod slots = (if (M - k) mod slots = slots - 1 then 0 else (M - k) mod slots + 1)"
    using assms(1) by (simp add: mod_add_eq zmod_trivial_iff) (smt (verit) mod_add_left_eq mod_pos_pos_trivial mod_self pos_mod_sign pos_mod_bound)
  ultimately have "(M + 1 - k) mod slots = (M - k) mod slots + 1"
    by (simp add: algebra_simps split: if_splits)
  with False show ?thesis by (simp add: slot_turn_def)
qed

lemma slot_turn_bounds:
  "0 < slots \<Longrightarrow> slot_turn slots M k \<le> M \<and> M - slots < slot_turn slots M k"
  by (simp add: slot_turn_def)

lemma slot_turn_own: "0 < slots \<Longrightarrow> M - slots < m \<Longrightarrow> m \<le> M \<Longrightarrow> slot_turn slots M (m mod slots) = m"
  by (simp add: slot_turn_def mod_simps)

lemma rs_session_step: "- 1 \<le> n \<Longrightarrow> rs_session slots stride (n + 1) = rs_picture (n + 1) (rs_session slots stride n)"
  by (simp add: rs_session_def upto_rec2)

lemma rs_marked_holds:
  assumes "rs_inv t" "0 \<le> s" "s < rs_count t"
  shows "holds (rs_marked s n t) k f \<longleftrightarrow> (if k = s then f = n else holds t k f)"
  using assms by (auto simp: holds_def rs_marked_def rs_inv_def nth_list_update)

lemma div_succ:
  fixes n stride :: int
  assumes "0 < stride"
  shows "(n + 1) div stride = (if (n + 1) mod stride = 0 then n div stride + 1 else n div stride)"
proof (cases "n mod stride + 1 = stride")
  case True
  then have "n + 1 = (n div stride + 1) * stride"
    by (simp add: algebra_simps) (metis True add.assoc mod_mult_div_eq mult.commute)
  then show ?thesis using assms by simp
next
  case False
  have r: "0 \<le> n mod stride + 1" "n mod stride + 1 < stride"
    using False pos_mod_bound [OF assms, of n] pos_mod_sign [OF assms, of n] by simp_all
  have "n + 1 = (n mod stride + 1) + n div stride * stride" by simp
  then have "(n + 1) div stride = n div stride" "(n + 1) mod stride = n mod stride + 1"
    using r assms div_mult_self1 [of stride "n mod stride + 1" "n div stride"]
      mod_mult_self1 [of "n mod stride + 1" "n div stride" stride] by simp_all
  then show ?thesis using pos_mod_sign [OF assms, of n] by simp
qed

lemma rs_session_slots:
  assumes "1 \<le> slots" "slots \<le> 16" "1 \<le> stride" "stride < 2 ^ 31" "- 1 \<le> n"
  shows "rs_inv (rs_session slots stride n) \<and> rs_count (rs_session slots stride n) = slots \<and>
    rs_stride (rs_session slots stride n) = stride \<and>
    (\<forall>k f. holds (rs_session slots stride n) k f \<longleftrightarrow>
       0 \<le> k \<and> k < slots \<and> 0 \<le> slot_turn slots (n div stride) k \<and>
       f = slot_turn slots (n div stride) k * stride)"
  using assms(5)
proof (induction n rule: int_ge_induct)
  case base
  have "(- 1) div stride = - 1" using assms(3) by (simp add: div_eq_minus1)
  moreover have "slot_turn slots (- 1) k < 0" for k
    using slot_turn_bounds [of slots "- 1" k] assms(1) by simp
  moreover have "\<not> holds (rs_new slots stride) k f" for k f
    using assms(1,2) by (auto simp: holds_def rs_new_def rs_clear_def tunables)
  moreover have "rs_count (rs_new slots stride) = slots" "rs_stride (rs_new slots stride) = stride"
    using assms by (simp_all add: rs_new_def rs_clear_def tunables)
  ultimately show ?case by (auto simp: rs_session_def rs_new_inv not_le)
next
  case (step n)
  let ?t = "rs_session slots stride n"
  let ?M = "n div stride"
  have u: "u32 stride = stride" "u32 slots = slots" using assms by simp_all
  note IH = step.IH
  show ?case
  proof (cases "(n + 1) mod stride = 0")
    case False
    then have "rs_picture (n + 1) ?t = ?t"
      using IH assms(1) by (simp add: rs_picture_def slotFor_def u)
    with False step.hyps IH assms(3) show ?thesis by (simp add: rs_session_step div_succ)
  next
    case True
    let ?k = "(?M + 1) mod slots"
    have k: "0 \<le> ?k" "?k < slots" using assms(1) by simp_all
    have M: "(n + 1) div stride = ?M + 1" using True assms(3) by (simp add: div_succ)
    then have frame: "(?M + 1) * stride = n + 1" using True by (metis add.right_neutral div_mult_mod_eq)
    have pos: "0 \<le> ?M + 1" using step.hyps assms(3) by (simp flip: M add: pos_imp_zdiv_nonneg_iff)
    have p: "rs_picture (n + 1) ?t = rs_marked ?k (n + 1) ?t"
      using IH assms(1) True k by (simp add: rs_picture_def slotFor_def u M)
    have inv: "rs_inv (rs_marked ?k (n + 1) ?t)" using rs_call_inv [of ?t "Mark ?k (n + 1)"] IH by simp
    have m: "rs_count (rs_marked ?k (n + 1) ?t) = slots" "rs_stride (rs_marked ?k (n + 1) ?t) = stride"
      using IH by (simp_all add: rs_marked_def)
    have h: "holds (rs_marked ?k (n + 1) ?t) k f \<longleftrightarrow>
        0 \<le> k \<and> k < slots \<and> 0 \<le> slot_turn slots (?M + 1) k \<and> f = slot_turn slots (?M + 1) k * stride" for k f
      using rs_marked_holds [of ?t ?k "n + 1" k f] IH k frame pos slot_turn_step [of slots k ?M] assms(1)
      by (auto split: if_splits)
    show ?thesis using step.hyps by (simp add: rs_session_step p M inv m h)
  qed
qed

section \<open>Properties\<close>

text \<open>The search answers the newest picture that predates the loss: when it finds a slot, that slot
  is one of the table's, marked and not dropped, its frame is below the lost one, and no held frame
  below the lost one is newer; it answers -1 exactly when every held frame is lost.\<close>

theorem cleanSlotBefore_newest:
  "if cleanSlotBefore t lost = - 1 then \<forall>s f. holds t s f \<longrightarrow> lost \<le> f
   else holds t (cleanSlotBefore t lost) (frameAt t (cleanSlotBefore t lost)) \<and>
     frameAt t (cleanSlotBefore t lost) < lost \<and>
     (\<forall>s f. holds t s f \<longrightarrow> f < lost \<longrightarrow> f \<le> frameAt t (cleanSlotBefore t lost))"
proof -
  let ?b = "cleanSlotBefore t lost"
  have spec: "clean_so_far t lost {0..rs_count t - 1} ?b" by (rule cleanSlotBefore_spec)
  show ?thesis
  proof (cases "?b < 0")
    case True
    then show ?thesis using spec holds_range [of t] unfolding clean_so_far_def by auto
  next
    case False
    then have "frameAt t ?b = rs_frame t ! nat ?b" using spec by (auto simp: clean_so_far_def frameAt_def holds_def)
    then show ?thesis using False spec holds_range [of t] unfolding clean_so_far_def by auto
  qed
qed

text \<open>C23. A loss is healed by a delta: in a session that marked every stride frame up to \<open>n\<close>, a loss at most
  \<open>(slots - 1) * stride\<close> frames old always finds a slot, and the picture in it is the newest stride frame
  before the loss, so less than one stride older than the newest clean picture.\<close>

theorem loss_healed:
  assumes "1 \<le> slots" "slots \<le> 16" "1 \<le> stride" "stride < 2 ^ 31"
    and lost: "1 \<le> lost" "lost \<le> n" "n - lost < (slots - 1) * stride"
  shows "holds (rs_session slots stride n) (cleanSlotBefore (rs_session slots stride n) lost)
      ((lost - 1) div stride * stride) \<and>
    lost - 1 - (lost - 1) div stride * stride < stride"
proof -
  let ?t = "rs_session slots stride n" and ?m = "(lost - 1) div stride"
  have t: "holds ?t k f \<longleftrightarrow> 0 \<le> k \<and> k < slots \<and> 0 \<le> slot_turn slots (n div stride) k \<and>
      f = slot_turn slots (n div stride) k * stride" for k f
    using rs_session_slots [of slots stride n] assms by simp
  have m: "0 \<le> ?m" "?m \<le> n div stride" "?m * stride < lost"
    using lost assms(3) div_mult_le [of stride "lost - 1"] by (simp_all add: pos_imp_zdiv_nonneg_iff zdiv_mono1)
  have "n - (slots - 1) * stride \<le> lost - 1" using lost by simp
  then have "(n - (slots - 1) * stride) div stride \<le> ?m" using assms(3) by (intro zdiv_mono1) auto
  moreover have "(n + - (slots - 1) * stride) div stride = - (slots - 1) + n div stride"
    by (rule div_mult_self1) (use assms(3) in simp)
  moreover have "n + - (slots - 1) * stride = n - (slots - 1) * stride" by (simp add: algebra_simps)
  ultimately have "n div stride - slots < ?m" by simp
  then have own: "slot_turn slots (n div stride) (?m mod slots) = ?m"
    using m(2) assms(1) by (intro slot_turn_own) auto
  have "holds ?t (?m mod slots) (?m * stride)" using own m(1) assms(1) by (simp add: t)
  moreover have "f \<le> ?m * stride" if "holds ?t s f" "f < lost" for s f
  proof -
    obtain j where "f = j * stride" using \<open>holds ?t s f\<close> by (auto simp: t)
    with \<open>f < lost\<close> assms(3) have "j \<le> ?m" by (simp add: le_div_iff)
    with assms(3) show ?thesis by (simp add: \<open>f = j * stride\<close>)
  qed
  ultimately have "holds ?t (cleanSlotBefore ?t lost) (?m * stride)"
    using m(3) by (intro cleanSlotBefore_found) auto
  then show ?thesis using less_div_mult [of stride "lost - 1"] assms(3) by (simp add: algebra_simps)
qed

text \<open>The table reaches less far than \<open>reachFrames\<close> says: a loss named \<open>reachFrames\<close> frames before the
  picture that follows frame \<open>n\<close>, or earlier, never finds a slot, whatever \<open>n\<close> is.\<close>

theorem reach_is_short:
  assumes "1 \<le> slots" "slots \<le> 16" "1 \<le> stride" "stride < 2 ^ 31" "0 \<le> n"
    and lost: "lost \<le> n + 1 - reachFrames (rs_session slots stride n)"
  shows "cleanSlotBefore (rs_session slots stride n) lost = - 1"
proof (rule cleanSlotBefore_none)
  fix s f
  assume "holds (rs_session slots stride n) s f"
  then have f: "f = slot_turn slots (n div stride) s * stride"
    using rs_session_slots [of slots stride n] assms by simp
  have "n div stride - slots + 1 \<le> slot_turn slots (n div stride) s"
    using slot_turn_bounds [of slots "n div stride" s] assms(1) by simp
  then have "(n div stride - slots + 1) * stride \<le> f" unfolding f using assms(3) by (intro mult_right_mono) auto
  moreover have "n < (n div stride + 1) * stride" using assms(3) by (intro less_div_mult) auto
  moreover have "reachFrames (rs_session slots stride n) = slots * stride"
    using rs_session_slots [of slots stride n] assms by (simp add: reachFrames_def)
  ultimately show "lost \<le> f" using lost by (simp add: algebra_simps)
qed

text \<open>Forgetting a loss forgets exactly the pictures from it on: every other slot keeps its frame, no held
  frame is at or after the loss, and a search for that loss, or for an earlier one, answers the same
  picture as before.\<close>

theorem dropFrom_exact:
  assumes "rs_inv t"
  shows "(\<forall>s f. holds (dropFrom lost t) s f \<longleftrightarrow> holds t s f \<and> f < lost) \<and>
    (lost' \<le> lost \<longrightarrow> cleanSlotBefore t lost' \<noteq> - 1 \<longrightarrow>
      holds (dropFrom lost t) (cleanSlotBefore (dropFrom lost t) lost') (frameAt t (cleanSlotBefore t lost')))"
proof (intro conjI allI impI)
  fix s f
  show "holds (dropFrom lost t) s f \<longleftrightarrow> holds t s f \<and> f < lost"
    by (rule dropFrom_holds [OF assms])
next
  assume le: "lost' \<le> lost" and found: "cleanSlotBefore t lost' \<noteq> - 1"
  let ?b = "cleanSlotBefore t lost'"
  have spec: "clean_so_far t lost' {0..rs_count t - 1} ?b" by (rule cleanSlotBefore_spec)
  have b: "holds t ?b (frameAt t ?b)" "frameAt t ?b < lost'"
    "\<And>s f. holds t s f \<Longrightarrow> f < lost' \<Longrightarrow> f \<le> frameAt t ?b"
    using spec found holds_range [of t] unfolding clean_so_far_def
    by (auto simp: frameAt_def holds_def split: if_splits)
  show "holds (dropFrom lost t) (cleanSlotBefore (dropFrom lost t) lost') (frameAt t ?b)"
    by (rule cleanSlotBefore_found [of _ ?b]) (use b le in \<open>auto simp: dropFrom_holds [OF assms]\<close>)
qed

lemma bitFor_bit: "0 \<le> s \<Longrightarrow> s < 64 \<Longrightarrow> bits AND bitFor s = 0 \<longleftrightarrow> \<not> bit bits (nat s)"
proof -
  assume s: "0 \<le> s" "s < 64"
  have "bits AND bitFor s = 0 \<longleftrightarrow> (\<forall>n. \<not> (bit bits n \<and> bit (bitFor s) n))"
    using bit_imp_le_length [of bits] by (fastforce simp: bit_eq_iff bit_and_iff)
  moreover have "bit (bitFor s) n \<longleftrightarrow> n = nat s" for n
    using s by (auto simp: bitFor_def bit_simps)
  ultimately show ?thesis by auto
qed

definition vouched :: "ReferenceSlots \<Rightarrow> int \<Rightarrow> nat \<Rightarrow> bool" where
  "vouched t lost s \<longleftrightarrow> int s < rs_count t \<and> rs_ever t ! s \<and> rs_frame t ! s < lost"

lemma allBefore_loop_iff:
  "(\<And>s. s \<in> set ss \<Longrightarrow> 0 \<le> s \<and> s < 64) \<Longrightarrow>
   allBefore_loop t bits lost ss \<longleftrightarrow>
     drop_bit 16 bits = 0 \<and> (\<forall>s \<in> set ss. bit bits (nat s) \<longrightarrow> vouched t lost (nat s))"
  by (induction ss) (auto simp: bitFor_bit vouched_def tunables not_le)

lemma drop_bit_0_iff: "drop_bit k (w :: 'a::len word) = 0 \<longleftrightarrow> (\<forall>n. bit w n \<longrightarrow> n < k)"
proof
  assume z: "drop_bit k w = 0"
  show "\<forall>n. bit w n \<longrightarrow> n < k"
  proof (intro allI impI)
    fix n assume "bit w n"
    show "n < k"
    proof (rule ccontr)
      assume "\<not> n < k"
      then have "bit (drop_bit k w) (n - k)" using \<open>bit w n\<close> by (simp add: bit_drop_bit_eq)
      then show False by (simp add: z)
    qed
  qed
qed (auto intro!: bit_eqI simp: bit_drop_bit_eq)

text \<open>A driver's own choice of references is accepted exactly when the bitfield is not empty and every
  bit of its 64 names a slot of the table that was marked, with a frame before the loss.\<close>

theorem allBefore_vouches:
  assumes "rs_inv t"
  shows "allBefore t bits lost \<longleftrightarrow> bits \<noteq> 0 \<and> (\<forall>s. bit bits s \<longrightarrow> vouched t lost s)"
proof -
  have "(drop_bit 16 bits = 0 \<and> (\<forall>s \<in> {0..15}. bit bits (nat s) \<longrightarrow> vouched t lost (nat s))) \<longleftrightarrow>
      (\<forall>s. bit bits s \<longrightarrow> vouched t lost s)" (is "?l = ?r")
  proof
    assume l: ?l
    show ?r
    proof (intro allI impI)
      fix s assume s: "bit bits s"
      then have "s < 16" using l by (simp add: drop_bit_0_iff)
      then have "int s \<in> {0..15}" by simp
      with l s show "vouched t lost s" by (metis nat_int)
    qed
  next
    assume r: ?r
    then have "bit bits s \<longrightarrow> s < 16" for s
      using assms by (auto simp: vouched_def rs_inv_def)
    with r show ?l by (simp add: drop_bit_0_iff)
  qed
  then show ?thesis
    using allBefore_loop_iff [of "[0..15]" t bits lost] by (auto simp: allBefore_def tunables)
qed

text \<open>The stride is the smallest one whose slots cover 125 ms of frames.\<close>

lemma strideFor_span:
  assumes "0 < fps" "0 < slots"
  shows "fps * 125 \<le> 1000 * (slots * strideFor fps slots)"
    and "1000 * (slots * (strideFor fps slots - 1)) < fps * 125"
proof -
  define reach where "reach = (fps * 125 + 999) div 1000"
  have reach: "fps * 125 \<le> 1000 * reach" "1000 * (reach - 1) < fps * 125"
    using div_mult_le [of 1000 "fps * 125 + 999"] less_div_mult [of 1000 "fps * 125 + 999"]
    by (simp_all add: reach_def)
  have "1 \<le> reach" using reach(1) assms(1) by simp
  then have one: "1 \<le> (reach + slots - 1) div slots" using assms(2) by (simp add: le_div_iff)
  have eq: "strideFor fps slots = (reach + slots - 1) div slots"
    using assms one by (simp add: strideFor_def reach_def tunables Let_def)
  have s: "reach \<le> strideFor fps slots * slots" "(strideFor fps slots - 1) * slots < reach"
    using div_mult_le [OF assms(2), of "reach + slots - 1"] less_div_mult [OF assms(2), of "reach + slots - 1"]
    by (simp_all add: eq algebra_simps)
  show "fps * 125 \<le> 1000 * (slots * strideFor fps slots)"
    using reach(1) s(1) by (simp add: mult.commute [of slots])
  show "1000 * (slots * (strideFor fps slots - 1)) < fps * 125"
    using reach(2) s(2) by (simp add: mult.commute [of slots])
qed

section \<open>Witnesses\<close>

definition sixty :: ReferenceSlots where
  "sixty = rs_session 4 2 20"

theorem cleanSlotBefore_newest_witness:
  "frameAt sixty (cleanSlotBefore sixty 17) = 16 \<and> {f. \<exists>s. holds sixty s f \<and> f < 17} \<subseteq> {..16}"
proof -
  have c: "cleanSlotBefore sixty 17 = 0" "frameAt sixty (cleanSlotBefore sixty 17) = 16" by code_simp+
  with cleanSlotBefore_newest [of sixty 17] show ?thesis by auto
qed

theorem loss_healed_witness:
  "holds sixty (cleanSlotBefore sixty 17) 16"
  using loss_healed [of 4 2 17 20] by (simp add: sixty_def)

theorem reach_is_short_witness:
  "reachFrames sixty = 8 \<and> cleanSlotBefore sixty (21 - 8) = - 1"
proof -
  have r: "reachFrames (rs_session 4 2 20) = 8" by code_simp
  with reach_is_short [of 4 2 20 13] show ?thesis by (simp add: sixty_def)
qed

theorem dropFrom_exact_witness:
  "holds (dropFrom 17 sixty) (cleanSlotBefore (dropFrom 17 sixty) 15) 14"
proof -
  have "rs_inv sixty" "frameAt sixty (cleanSlotBefore sixty 15) = 14" "cleanSlotBefore sixty 15 \<noteq> - 1"
    by code_simp+
  then have "(15 :: int) \<le> 17 \<longrightarrow> ?thesis" using dropFrom_exact [of sixty 17 15] by metis
  then show ?thesis by simp
qed

theorem allBefore_vouches_witness:
  "allBefore sixty 8 19 \<and> (\<forall>s. bit (8 :: 64 word) s \<longrightarrow> vouched sixty 19 s)"
proof -
  have "rs_inv sixty" "allBefore sixty 8 19" by code_simp+
  with allBefore_vouches [of sixty 8 19] show ?thesis by simp
qed

end
