(* ===== verification/Bit_Stream.thy ===== *)
theory Bit_Stream
  imports MW_Prelude "HOL-Library.State_Monad" "HOL-Library.Monad_Syntax"
begin

unbundle bit_operations_syntax

text \<open>
  The bit level of \<open>native-host/src/encode/H264Vui.h\<close>: \<open>BitReader\<close>, \<open>BitWriter\<close> and the emulation
  prevention of a NAL unit. Bytes are \<open>8 word\<close>, the values read and written \<open>32 word\<close>. The reader's
  methods change their object, so they are programs of the state monad over the record \<open>BitReader\<close>;
  the writer's methods return the writer they leave.

  What both sides agree on is the list of bits, most significant first. The locales \<open>bit_sink\<close> and
  \<open>bit_source\<close> state it for a writer and a reader, and \<open>bit_channel\<close> derives from the two that a list
  of syntax elements written by one is what the other reads back.
\<close>

section \<open>The reader\<close>

record BitReader =
  rd_bytes :: "8 word list"
  rd_pos :: nat
  rd_overrun :: bool

definition rd_new :: "8 word list \<Rightarrow> BitReader" where
  "rd_new bytes = \<lparr>rd_bytes = bytes, rd_pos = 0, rd_overrun = False\<rparr>"

definition rd_peek :: "BitReader \<Rightarrow> 32 word" where
  "rd_peek r = ucast (drop_bit (7 - rd_pos r mod 8) (rd_bytes r ! (rd_pos r div 8))) AND 1"

fun rd_u_loop :: "nat \<Rightarrow> 32 word \<Rightarrow> BitReader \<Rightarrow> 32 word \<times> BitReader" where
  "rd_u_loop 0 v r = (v, r)"
| "rd_u_loop (Suc n) v r =
     (if rd_pos r \<ge> length (rd_bytes r) * 8 then (0, r\<lparr>rd_overrun := True\<rparr>)
      else rd_u_loop n (push_bit 1 v OR rd_peek r) (r\<lparr>rd_pos := rd_pos r + 1\<rparr>))"

definition rd_u :: "nat \<Rightarrow> (BitReader, 32 word) state" where
  "rd_u n = State (rd_u_loop n 0)"

text \<open>The zeros that open an Exp-Golomb code: their number, or nothing when the code is not one.\<close>

function rd_zeros :: "nat \<Rightarrow> BitReader \<Rightarrow> nat option \<times> BitReader" where
  "rd_zeros zeros r =
     (let (b, r) = rd_u_loop 1 0 r
      in if b = 0
         then if rd_overrun r \<or> zeros + 1 > 31 then (None, r\<lparr>rd_overrun := True\<rparr>)
              else rd_zeros (zeros + 1) r
         else (Some zeros, r))"
  by auto
termination
  by (relation "measure (\<lambda>(zeros, _). 32 - zeros)") auto

declare rd_zeros.simps [simp del]

definition rd_ue :: "(BitReader, 32 word) state" where
  "rd_ue = do {
     zeros \<leftarrow> State (rd_zeros 0);
     case zeros of
       None \<Rightarrow> State_Monad.return 0
     | Some z \<Rightarrow> do { rest \<leftarrow> rd_u z; State_Monad.return ((push_bit z 1 - 1) + rest) }
   }"

definition rd_se :: "(BitReader, int) state" where
  "rd_se = do {
     v \<leftarrow> rd_ue;
     State_Monad.return
       (if v AND 1 \<noteq> 0 then i32 (uint ((v + 1) div 2)) else - i32 (uint (v div 2)))
   }"

definition rd_failed :: "(BitReader, bool) state" where
  "rd_failed = do { r \<leftarrow> State_Monad.get; State_Monad.return (rd_overrun r) }"

definition rd_fail :: "(BitReader, unit) state" where
  "rd_fail = State (\<lambda>r. ((), r\<lparr>rd_overrun := True\<rparr>))"

section \<open>The writer\<close>

record BitWriter =
  wr_bytes :: "8 word list"
  wr_used :: nat

definition wr_new :: BitWriter where
  "wr_new = \<lparr>wr_bytes = [], wr_used = 8\<rparr>"

definition wr_bit :: "bool \<Rightarrow> BitWriter \<Rightarrow> BitWriter" where
  "wr_bit b w =
     (let w = (if wr_used w = 8 then w\<lparr>wr_bytes := wr_bytes w @ [0], wr_used := 0\<rparr> else w);
          w = (if b then w\<lparr>wr_bytes := butlast (wr_bytes w) @
                 [last (wr_bytes w) OR drop_bit (wr_used w) 0x80]\<rparr> else w)
      in w\<lparr>wr_used := wr_used w + 1\<rparr>)"

definition wr_u :: "nat \<Rightarrow> 32 word \<Rightarrow> BitWriter \<Rightarrow> BitWriter" where
  "wr_u n v w = fold (\<lambda>i. wr_bit (drop_bit i v AND 1 \<noteq> 0)) (rev [0..<n]) w"

text \<open>The length of the code's second half: \<open>while ((x >> bits) > 1) ++bits\<close>, for the 64-bit \<open>x = v + 1\<close>.\<close>

function ue_bits_of :: "64 word \<Rightarrow> nat \<Rightarrow> nat" where
  "ue_bits_of x bits = (if drop_bit bits x > 1 then ue_bits_of x (bits + 1) else bits)"
  by auto

termination
proof (relation "measure (\<lambda>(x, bits). 64 - bits)")
  fix x :: "64 word" and bits :: nat
  assume "1 < drop_bit bits x"
  moreover have "drop_bit bits x = 0" if "64 \<le> bits"
    by (rule bit_eqI) (use that bit_imp_le_length [of x] in \<open>auto simp: bit_drop_bit_eq\<close>)
  ultimately have "bits < 64" by (cases "64 \<le> bits") auto
  then show "((x, bits + 1), (x, bits)) \<in> measure (\<lambda>(x, bits). 64 - bits)" by simp
qed simp

declare ue_bits_of.simps [simp del]

definition wr_ue :: "32 word \<Rightarrow> BitWriter \<Rightarrow> BitWriter" where
  "wr_ue v w =
     (let x = ucast v + 1 :: 64 word; bits = ue_bits_of x 0
      in wr_u (bits + 1) (ucast x) (wr_u bits 0 w))"

section \<open>Emulation prevention\<close>

fun unescape_loop :: "nat \<Rightarrow> 8 word list \<Rightarrow> 8 word list" where
  "unescape_loop zeros [] = []"
| "unescape_loop zeros (b # bs) =
     (if zeros \<ge> 2 \<and> b = 3 then unescape_loop 0 bs
      else b # unescape_loop (if b = 0 then zeros + 1 else 0) bs)"

definition unescape :: "8 word list \<Rightarrow> 8 word list" where
  "unescape p = unescape_loop 0 p"

fun escape_loop :: "nat \<Rightarrow> 8 word list \<Rightarrow> 8 word list \<Rightarrow> 8 word list" where
  "escape_loop zeros [] out = out"
| "escape_loop zeros (b # bs) out =
     (let esc = zeros \<ge> 2 \<and> b \<le> 3;
          out = (if esc then out @ [3] else out);
          zeros = (if esc then 0 else zeros)
      in escape_loop (if b = 0 then zeros + 1 else 0) bs (out @ [b]))"

definition escapeInto :: "8 word list \<Rightarrow> 8 word list \<Rightarrow> 8 word list" where
  "escapeInto rbsp out = escape_loop 0 rbsp out"

section \<open>The bits of a byte string\<close>

definition byte_bits :: "8 word \<Rightarrow> bool list" where
  "byte_bits b = map (bit b) (rev [0..<8])"

definition bits_of :: "8 word list \<Rightarrow> bool list" where
  "bits_of bytes = concat (map byte_bits bytes)"

text \<open>The \<open>n\<close> low bits of a value, and the value of a list of bits.\<close>

definition be_bits :: "nat \<Rightarrow> 32 word \<Rightarrow> bool list" where
  "be_bits n v = map (bit v) (rev [0..<n])"

definition shift_in :: "32 word \<Rightarrow> bool \<Rightarrow> 32 word" where
  "shift_in a b = push_bit 1 a OR of_bool b"

definition of_be :: "bool list \<Rightarrow> 32 word" where
  "of_be bs = foldl shift_in 0 bs"

definition ue_code :: "32 word \<Rightarrow> bool list" where
  "ue_code v =
     (let bits = ue_bits_of (ucast v + 1) 0 in replicate bits False @ be_bits (bits + 1) (v + 1))"

lemma shift_in_0 [simp]: "shift_in 0 b = of_bool b"
  by (simp add: shift_in_def)

lemma bits_of_simps [simp]:
  "bits_of [] = []" "bits_of (b # bs) = byte_bits b @ bits_of bs" "bits_of (xs @ ys) = bits_of xs @ bits_of ys"
  by (simp_all add: bits_of_def)

lemma length_byte_bits [simp]: "length (byte_bits b) = 8"
  by (simp add: byte_bits_def)

lemma length_bits_of [simp]: "length (bits_of bs) = length bs * 8"
  by (induction bs) simp_all

lemma be_bits_simps [simp]: "be_bits 0 v = []" "be_bits (Suc n) v = bit v n # be_bits n v"
  by (simp_all add: be_bits_def)

lemma length_be_bits [simp]: "length (be_bits n v) = n"
  by (simp add: be_bits_def)

lemma nth_byte_bits: "i < 8 \<Longrightarrow> byte_bits b ! i = bit b (7 - i)"
  by (simp add: byte_bits_def rev_nth)

lemma nth_bits_of: "i < length bs * 8 \<Longrightarrow> bits_of bs ! i = bit (bs ! (i div 8)) (7 - i mod 8)"
proof (induction bs arbitrary: i)
  case Nil
  then show ?case by simp
next
  case (Cons b bs)
  show ?case
  proof (cases "i < 8")
    case True
    then show ?thesis by (simp add: nth_append nth_byte_bits)
  next
    case False
    then have "i div 8 = Suc ((i - 8) div 8)" "(i - 8) mod 8 = i mod 8"
      by (simp_all add: le_div_geq le_mod_geq)
    with False Cons show ?thesis by (simp add: nth_append)
  qed
qed

lemma byte_bits_inj: "byte_bits a = byte_bits b \<Longrightarrow> a = b"
  by (rule bit_eqI) (auto simp: byte_bits_def upt_rec less_Suc_eq numeral_eq_Suc)

lemma bits_of_inj: "bits_of xs = bits_of ys \<Longrightarrow> xs = ys"
proof (induction xs arbitrary: ys)
  case Nil
  then have "length (bits_of ys) = 0" by simp
  then show ?case by simp
next
  case (Cons x xs)
  from Cons.prems have "length (bits_of ys) = length (bits_of (x # xs))" by simp
  then obtain y ys' where ys: "ys = y # ys'" by (cases ys) auto
  with Cons.prems have "byte_bits x = byte_bits y" "bits_of xs = bits_of ys'" by simp_all
  with Cons.IH ys show ?case by (simp add: byte_bits_inj)
qed

section \<open>Reading bits\<close>

definition rd_rest :: "BitReader \<Rightarrow> bool list" where
  "rd_rest r = drop (rd_pos r) (bits_of (rd_bytes r))"

definition rd_skip :: "nat \<Rightarrow> BitReader \<Rightarrow> BitReader" where
  "rd_skip n r = r\<lparr>rd_pos := rd_pos r + n\<rparr>"

lemma rd_skip_simps [simp]:
  "rd_bytes (rd_skip n r) = rd_bytes r" "rd_pos (rd_skip n r) = rd_pos r + n"
  "rd_overrun (rd_skip n r) = rd_overrun r" "rd_skip 0 r = r" "rd_skip m (rd_skip n r) = rd_skip (n + m) r"
  "rd_rest (rd_skip n r) = drop n (rd_rest r)"
  by (simp_all add: rd_skip_def rd_rest_def add.commute)

lemma rd_peek_rest: "rd_rest r = b # bs \<Longrightarrow> rd_peek r = of_bool b"
proof -
  assume r: "rd_rest r = b # bs"
  then have i: "rd_pos r < length (rd_bytes r) * 8"
    using length_drop [of "rd_pos r" "bits_of (rd_bytes r)"] unfolding rd_rest_def by (simp del: length_drop)
  then have "rd_rest r ! 0 = bits_of (rd_bytes r) ! rd_pos r" by (simp add: rd_rest_def)
  then have b: "b = bit (rd_bytes r ! (rd_pos r div 8)) (7 - rd_pos r mod 8)"
    using r i by (simp add: nth_bits_of)
  show ?thesis
    unfolding rd_peek_def by (rule bit_eqI) (auto simp: bit_simps b)
qed

lemma rd_rest_Nil: "rd_rest r = [] \<longleftrightarrow> length (rd_bytes r) * 8 \<le> rd_pos r"
  by (simp add: rd_rest_def)

lemma rd_u_loop_rest:
  "n \<le> length (rd_rest r) \<Longrightarrow>
   rd_u_loop n v r = (foldl shift_in v (take n (rd_rest r)), rd_skip n r)"
proof (induction n arbitrary: v r)
  case 0
  then show ?case by simp
next
  case (Suc n)
  then obtain b bs where r: "rd_rest r = b # bs" by (cases "rd_rest r") auto
  then have "\<not> length (rd_bytes r) * 8 \<le> rd_pos r" by (simp flip: rd_rest_Nil)
  moreover have "push_bit 1 v OR rd_peek r = shift_in v b" by (simp add: shift_in_def rd_peek_rest [OF r])
  ultimately have "rd_u_loop (Suc n) v r = rd_u_loop n (shift_in v b) (rd_skip 1 r)"
    by (simp add: rd_skip_def del: push_bit_of_1 push_bit_Suc One_nat_def)
  moreover have "n \<le> length (rd_rest (rd_skip 1 r))" using Suc.prems r by simp
  ultimately show ?case using Suc.IH [of "rd_skip 1 r" "shift_in v b"] r by simp
qed

lemma rd_u_rest:
  "n \<le> length (rd_rest r) \<Longrightarrow> run_state (rd_u n) r = (of_be (take n (rd_rest r)), rd_skip n r)"
  by (simp add: rd_u_def rd_u_loop_rest of_be_def)

lemma of_be_foldl: "foldl shift_in v (be_bits n x) = push_bit n v OR take_bit n x"
proof (induction n arbitrary: v)
  case 0
  then show ?case by simp
next
  case (Suc n)
  have "push_bit n (shift_in v (bit x n)) OR take_bit n x = push_bit (Suc n) v OR take_bit (Suc n) x"
    by (rule bit_eqI) (auto simp: shift_in_def bit_simps less_Suc_eq le_less_Suc_eq not_less Suc_diff_le)
  then show ?case by (simp add: Suc.IH)
qed

lemma of_be_bits: "of_be (be_bits n x) = take_bit n x"
  by (simp add: of_be_def of_be_foldl)

text \<open>An Exp-Golomb code splits at its first one.\<close>

lemma rd_zeros_rest:
  "rd_rest r = replicate k False @ True # bs \<Longrightarrow> k + z \<le> 31 \<Longrightarrow> \<not> rd_overrun r \<Longrightarrow>
   rd_zeros z r = (Some (k + z), rd_skip (k + 1) r)"
proof (induction k arbitrary: z r)
  case 0
  then have "rd_u_loop 1 0 r = (1, rd_skip 1 r)" by (simp add: rd_u_loop_rest del: rd_u_loop.simps)
  then show ?case by (simp add: rd_zeros.simps del: rd_u_loop.simps)
next
  case (Suc k)
  then have "rd_u_loop 1 0 r = (0, rd_skip 1 r)" by (simp add: rd_u_loop_rest del: rd_u_loop.simps)
  moreover have "rd_zeros (z + 1) (rd_skip 1 r) = (Some (k + (z + 1)), rd_skip (k + 1) (rd_skip 1 r))"
    by (rule Suc.IH) (use Suc.prems in auto)
  ultimately show ?case
    using Suc.prems by (subst rd_zeros.simps) (simp del: rd_u_loop.simps)
qed

section \<open>The Exp-Golomb code\<close>

lemma ue_bits_of_bounds:
  "2 ^ bits \<le> unat x \<Longrightarrow> 2 ^ ue_bits_of x bits \<le> unat x \<and> unat x < 2 ^ (ue_bits_of x bits + 1)"
proof (induction x bits rule: ue_bits_of.induct)
  case (1 x bits)
  have iff: "drop_bit bits x > 1 \<longleftrightarrow> 1 < unat x div 2 ^ bits"
    by (simp only: word_less_nat_alt unat_drop_bit_eq) (simp add: drop_bit_eq_div)
  show ?case
  proof (cases "drop_bit bits x > 1")
    case True
    then have "2 * 2 ^ bits \<le> unat x" using iff by (metis less_eq_div_iff_mult_less_eq Suc_1 Suc_leI zero_less_numeral zero_less_power)
    with True 1 show ?thesis by (subst (1 2) ue_bits_of.simps) simp
  next
    case False
    then have "unat x < 2 * 2 ^ bits" using iff
      by (metis One_nat_def Suc_1 div_less_iff_less_mult less_Suc_eq_le not_less zero_less_numeral zero_less_power)
    with False 1 show ?thesis by (subst (1 2) ue_bits_of.simps) simp
  qed
qed

text \<open>Every value but the last one of 32 bits has a code, of at most 31 zeros.\<close>

lemma ue_code_shape:
  assumes "v \<noteq> - 1"
  obtains k where "ue_code v = replicate k False @ True # be_bits k (v + 1)" "k \<le> 31"
    "v = (push_bit k 1 - 1) + take_bit k (v + 1)" "k = ue_bits_of (ucast v + 1) 0"
proof -
  define k where "k = ue_bits_of (ucast v + 1) 0"
  have "unat v \<noteq> 2 ^ 32 - 1"
    using assms by (auto simp: word_unat_eq_iff unsigned_minus_1_eq_mask mask_eq_exp_minus_1)
  moreover have "unat v < 2 ^ LENGTH(32)" by (rule unsigned_less)
  ultimately have v: "unat v + 1 < 2 ^ 32" by simp
  then have m: "unat (ucast v + 1 :: 64 word) = unat v + 1"
    by (simp add: unat_word_ariths unsigned_ucast_eq take_bit_eq_mod)
  have k: "2 ^ k \<le> unat v + 1" "unat v + 1 < 2 ^ (k + 1)"
    using ue_bits_of_bounds [of 0 "ucast v + 1"] by (simp_all add: m k_def)
  have "(2 :: nat) ^ k < 2 ^ 32" using k(1) v by simp
  then have k31: "k \<le> 31" using power_less_imp_less_exp [of "2::nat" k 32] by simp
  have n: "unat (v + 1) = unat v + 1" using v by (simp add: unat_word_ariths)
  have "unat (v + 1) div 2 ^ k = 1"
    by (rule div_nat_eqI) (use k in \<open>simp_all add: n\<close>)
  then have one: "drop_bit k (v + 1) = 1"
    by (simp only: word_unat_eq_iff unat_drop_bit_eq) (simp add: drop_bit_eq_div)
  then have top: "bit (v + 1) k" by (simp add: bit_iff_odd_drop_bit)
  have "v + 1 = push_bit k 1 + take_bit k (v + 1)"
    using bits_ident [of k "v + 1"] by (simp only: one)
  then have "v = (push_bit k 1 - 1) + take_bit k (v + 1)" by (simp add: algebra_simps)
  with top show thesis
    by (intro that [of k]) (auto simp: ue_code_def k_def [symmetric] k31)
qed

lemma rd_ue_rest:
  assumes "rd_rest r = ue_code v @ bs" "v \<noteq> - 1" "\<not> rd_overrun r"
  shows "run_state rd_ue r = (v, rd_skip (length (ue_code v)) r)"
proof -
  obtain k where k: "ue_code v = replicate k False @ True # be_bits k (v + 1)" "k \<le> 31"
    "v = (push_bit k 1 - 1) + take_bit k (v + 1)"
    using ue_code_shape [OF assms(2)] by metis
  have "rd_zeros 0 r = (Some k, rd_skip (k + 1) r)"
    using rd_zeros_rest [of r k "be_bits k (v + 1) @ bs" 0] assms k(1,2) by simp
  moreover have "run_state (rd_u k) (rd_skip (k + 1) r) = (take_bit k (v + 1), rd_skip (k + 1 + k) r)"
    using assms(1) k(1) by (subst rd_u_rest) (simp_all add: of_be_bits)
  ultimately have "run_state rd_ue r = ((push_bit k 1 - 1) + take_bit k (v + 1), rd_skip (k + 1 + k) r)"
    by (simp add: rd_ue_def State_Monad.bind_def State_Monad.return_def)
  then show ?thesis using k(3) by (simp add: k(1) add.commute)
qed

section \<open>Writing bits\<close>

text \<open>What a writer holds: the bits of its bytes without the unused ones of the last, which are zero.\<close>

definition wr_content :: "BitWriter \<Rightarrow> bool list" where
  "wr_content w = take (length (wr_bytes w) * 8 - (8 - wr_used w)) (bits_of (wr_bytes w))"

definition wr_inv :: "BitWriter \<Rightarrow> bool" where
  "wr_inv w \<longleftrightarrow> 1 \<le> wr_used w \<and> wr_used w \<le> 8 \<and> (wr_bytes w = [] \<longrightarrow> wr_used w = 8) \<and>
     bits_of (wr_bytes w) = wr_content w @ replicate (8 - wr_used w) False"

lemma wr_new_inv [simp]: "wr_inv wr_new" and wr_new_content [simp]: "wr_content wr_new = []"
  by (simp_all add: wr_new_def wr_inv_def wr_content_def)

lemma wr_content_snoc:
  assumes "wr_bytes w = ys @ [y]" "wr_used w \<le> 8"
  shows "wr_content w = bits_of ys @ take (wr_used w) (byte_bits y)"
  using assms by (simp add: wr_content_def)

lemma byte_bits_expand: "byte_bits y = [bit y 7, bit y 6, bit y 5, bit y 4, bit y 3, bit y 2, bit y 1, bit y 0]"
  by (simp add: byte_bits_def upt_rec numeral_eq_Suc)

lemma less_8_cases: "(i :: nat) < 8 \<Longrightarrow> i = 0 \<or> i = 1 \<or> i = 2 \<or> i = 3 \<or> i = 4 \<or> i = 5 \<or> i = 6 \<or> i = 7"
  by linarith

text \<open>Setting the next bit of a byte whose bits from there on are zero.\<close>

definition set_bit_from_top :: "bool \<Rightarrow> nat \<Rightarrow> 8 word \<Rightarrow> 8 word" where
  "set_bit_from_top b i y = (if b then y OR drop_bit i 0x80 else y)"

lemma set_bit_from_top_bits:
  assumes "i < 8" "byte_bits y = xs @ replicate (8 - i) False" "length xs = i"
  shows "byte_bits (set_bit_from_top b i y) = xs @ b # replicate (7 - i) False"
  using less_8_cases [OF assms(1)] assms
  by (elim disjE) (auto simp: set_bit_from_top_def byte_bits_expand length_Suc_conv numeral_eq_Suc bit_simps)

lemma wr_bit_step:
  assumes "wr_inv w"
  shows "wr_inv (wr_bit b w)" and "wr_content (wr_bit b w) = wr_content w @ [b]"
proof -
  obtain ys y where open_byte: "wr_bytes (wr_bit b w) = ys @ [set_bit_from_top b (wr_used (wr_bit b w) - 1) y]"
      "1 \<le> wr_used (wr_bit b w)" "wr_used (wr_bit b w) \<le> 8"
      "bits_of ys @ byte_bits y = wr_content w @ replicate (8 - (wr_used (wr_bit b w) - 1)) False"
  proof (cases "wr_used w = 8")
    case True
    have "byte_bits 0 = replicate 8 False" by (simp add: byte_bits_expand numeral_eq_Suc)
    with True assms show ?thesis
      by (intro that [of "wr_bytes w" 0])
        (auto simp: wr_bit_def Let_def set_bit_from_top_def wr_inv_def)
  next
    case False
    with assms obtain ys y where "wr_bytes w = ys @ [y]" by (cases "wr_bytes w" rule: rev_cases) (auto simp: wr_inv_def)
    with False assms show ?thesis
      by (intro that [of ys y]) (auto simp: wr_bit_def Let_def set_bit_from_top_def wr_inv_def)
  qed
  define u where "u = wr_used (wr_bit b w) - 1"
  have u: "wr_used (wr_bit b w) = u + 1" "u < 8" using open_byte(2,3) by (simp_all add: u_def)
  have whole: "bits_of ys @ byte_bits y = wr_content w @ replicate (8 - u) False"
    using open_byte(4) by (simp add: u_def)
  then have len: "length (wr_content w) = length ys * 8 + u"
  proof -
    have "length (bits_of ys @ byte_bits y) = length (wr_content w @ replicate (8 - u) False)"
      by (simp only: whole)
    then show ?thesis using u(2) by simp
  qed
  define xs where "xs = drop (length ys * 8) (wr_content w)"
  have xs: "wr_content w = bits_of ys @ xs" "byte_bits y = xs @ replicate (8 - u) False"
  proof -
    have "byte_bits y = drop (length ys * 8) (bits_of ys @ byte_bits y)" by simp
    then show "byte_bits y = xs @ replicate (8 - u) False" unfolding whole using len by (simp add: xs_def)
    have "bits_of ys = take (length ys * 8) (bits_of ys @ byte_bits y)" by simp
    also have "\<dots> = take (length ys * 8) (wr_content w)" unfolding whole using len by simp
    finally show "wr_content w = bits_of ys @ xs" by (simp add: xs_def)
  qed
  then have "length xs = u" using len by simp
  with xs(2) u(2) have set: "byte_bits (set_bit_from_top b u y) = xs @ b # replicate (7 - u) False"
    by (intro set_bit_from_top_bits)
  have bytes: "wr_bytes (wr_bit b w) = ys @ [set_bit_from_top b u y]" using open_byte(1) by (simp add: u_def)
  show content: "wr_content (wr_bit b w) = wr_content w @ [b]"
    using wr_content_snoc [OF bytes] u xs(1) set \<open>length xs = u\<close> by simp
  show "wr_inv (wr_bit b w)"
    using u bytes content xs(1) set by (simp add: wr_inv_def)
qed

lemma drop_bit_AND_1 [simp]: "drop_bit i (v :: 32 word) AND 1 \<noteq> 0 \<longleftrightarrow> bit v i"
  by (simp add: bit_iff_odd_drop_bit and_one_eq odd_iff_mod_2_eq_one)

lemma fold_wr_bit:
  "wr_inv w \<Longrightarrow> wr_inv (fold (\<lambda>i. wr_bit (f i)) is w) \<and>
   wr_content (fold (\<lambda>i. wr_bit (f i)) is w) = wr_content w @ map f is"
  by (induction "is" arbitrary: w) (simp_all add: wr_bit_step)

lemma wr_u_step:
  assumes "wr_inv w"
  shows "wr_inv (wr_u n v w)" and "wr_content (wr_u n v w) = wr_content w @ be_bits n v"
  using fold_wr_bit [OF assms, of "bit v" "rev [0..<n]"]
  by (simp_all add: wr_u_def be_bits_def)

lemma be_bits_0 [simp]: "be_bits n 0 = replicate n False"
  by (induction n) simp_all

lemma wr_ue_step:
  assumes "wr_inv w"
  shows "wr_inv (wr_ue v w)" and "wr_content (wr_ue v w) = wr_content w @ ue_code v"
proof -
  have "unat v < 2 ^ LENGTH(32)" by (rule unsigned_less)
  then have "ucast (ucast v + 1 :: 64 word) = (v + 1 :: 32 word)"
    by (simp add: unsigned_ucast_eq word_unat_eq_iff unat_word_ariths take_bit_eq_mod)
  then show "wr_inv (wr_ue v w)" "wr_content (wr_ue v w) = wr_content w @ ue_code v"
    using assms by (simp_all add: wr_ue_def ue_code_def Let_def wr_u_step del: be_bits_simps)
qed

text \<open>The bytes of a writer are determined by the bits written.\<close>

lemma wr_canonical:
  assumes "wr_inv v" "wr_inv w" "wr_content v = wr_content w"
  shows "wr_bytes v = wr_bytes w \<and> wr_used v = wr_used w"
proof -
  have len: "length (wr_bytes w) * 8 + wr_used w = length (wr_content w) + 8" if "wr_inv w" for w
  proof -
    have "length (bits_of (wr_bytes w)) = length (wr_content w @ replicate (8 - wr_used w) False)"
      using that by (simp only: wr_inv_def)
    then show ?thesis using that by (simp add: wr_inv_def)
  qed
  have range: "1 \<le> wr_used v" "wr_used v \<le> 8" "1 \<le> wr_used w" "wr_used w \<le> 8"
    using assms by (simp_all add: wr_inv_def)
  have "length (wr_bytes v) * 8 + wr_used v = length (wr_bytes w) * 8 + wr_used w"
    using len [OF assms(1)] len [OF assms(2)] assms(3) by simp
  with range have "wr_used v = wr_used w" by presburger
  then have "bits_of (wr_bytes v) = bits_of (wr_bytes w)" using assms by (simp add: wr_inv_def)
  with \<open>wr_used v = wr_used w\<close> show ?thesis by (simp add: bits_of_inj)
qed

section \<open>Emulation prevention undone\<close>

lemma escape_loop_acc: "escape_loop z bs out = out @ escape_loop z bs []"
proof (induction bs arbitrary: z out)
  case Nil
  then show ?case by simp
next
  case (Cons b bs)
  show ?case
    unfolding escape_loop.simps Let_def
    by (subst (1 2) Cons.IH) simp
qed

definition escape :: "8 word list \<Rightarrow> 8 word list" where
  "escape bs = escape_loop 0 bs []"

lemma escapeInto_append: "escapeInto rbsp out = out @ escape rbsp"
  unfolding escapeInto_def escape_def by (rule escape_loop_acc)

lemma escape_loop_Cons:
  "escape_loop z (b # bs) [] =
     (if z \<ge> 2 \<and> b \<le> 3 then 3 # b # escape_loop (if b = 0 then 1 else 0) bs []
      else b # escape_loop (if b = 0 then z + 1 else 0) bs [])"
  by (subst (1) escape_loop_acc) (simp add: Let_def escape_loop_acc [of _ _ "[_]"] escape_loop_acc [of _ _ "[_, _]"])

lemma unescape_escape_loop: "unescape_loop z (escape_loop z bs []) = bs"
  by (induction bs arbitrary: z) (auto simp: escape_loop_Cons simp del: escape_loop.simps(2))

text \<open>No start code and no reserved prefix: the bytes 0, 0 are never followed by one below 3.\<close>

fun start_code_free :: "8 word list \<Rightarrow> bool" where
  "start_code_free (a # b # c # bs) \<longleftrightarrow> \<not> (a = 0 \<and> b = 0 \<and> c < 3) \<and> start_code_free (b # c # bs)"
| "start_code_free _ \<longleftrightarrow> True"

fun clear_of_zeros :: "nat \<Rightarrow> 8 word list \<Rightarrow> bool" where
  "clear_of_zeros z [] \<longleftrightarrow> True"
| "clear_of_zeros z (b # bs) \<longleftrightarrow> \<not> (z \<ge> 2 \<and> b < 3) \<and> clear_of_zeros (if b = 0 then z + 1 else 0) bs"

lemma clear_of_zeros_free: "clear_of_zeros 0 bs \<Longrightarrow> start_code_free bs"
proof -
  have "clear_of_zeros z bs \<Longrightarrow> start_code_free bs" for z
  proof (induction bs arbitrary: z rule: start_code_free.induct)
    case (1 a b c bs)
    have "clear_of_zeros (if a = 0 then z + 1 else 0) (b # c # bs)" using 1(2) by simp
    then have "start_code_free (b # c # bs)" by (rule 1(1))
    moreover have "\<not> (a = 0 \<and> b = 0 \<and> c < 3)" using 1(2) by auto
    ultimately show ?case by simp
  qed simp_all
  then show "clear_of_zeros 0 bs \<Longrightarrow> start_code_free bs" by simp
qed

lemma escape_loop_clear: "z \<le> 2 \<Longrightarrow> clear_of_zeros z (escape_loop z bs [])"
proof (induction bs arbitrary: z)
  case Nil
  then show ?case by simp
next
  case (Cons b bs)
  have IH: "z \<le> 2 \<Longrightarrow> clear_of_zeros z (escape_loop z bs [])" for z by (rule Cons.IH)
  from Cons.prems consider "z = 0" | "z = 1" | "z = 2" by linarith
  then show ?case
    using IH [of 0] IH [of 1] IH [of "Suc (Suc 0)"]
    by cases (auto simp: escape_loop_Cons not_le not_less simp del: escape_loop.simps(2))
qed

section \<open>Syntax elements\<close>

text \<open>What the code writes and reads: \<open>u(n)\<close>, \<open>ue(v)\<close> and \<open>se(v)\<close>, and their formats without the value.\<close>

datatype Elem = U nat "32 word" | UE "32 word" | SE int
datatype Format = FU nat | FUE | FSE

fun format_of :: "Elem \<Rightarrow> Format" where
  "format_of (U n v) = FU n"
| "format_of (UE v) = FUE"
| "format_of (SE v) = FSE"

definition se_value :: "int \<Rightarrow> 32 word" where
  "se_value v = (if v > 0 then word_of_int (2 * v - 1) else word_of_int (- 2 * v))"

definition wr_se :: "int \<Rightarrow> BitWriter \<Rightarrow> BitWriter" where
  "wr_se v w = wr_ue (se_value v) w"

fun elem_bits :: "Elem \<Rightarrow> bool list" where
  "elem_bits (U n v) = be_bits n v"
| "elem_bits (UE v) = ue_code v"
| "elem_bits (SE v) = ue_code (se_value v)"

fun readable :: "Elem \<Rightarrow> bool" where
  "readable (U n v) \<longleftrightarrow> take_bit n v = v"
| "readable (UE v) \<longleftrightarrow> v \<noteq> - 1"
| "readable (SE v) \<longleftrightarrow> \<bar>v\<bar> < 2 ^ 30"

fun wr_elem :: "Elem \<Rightarrow> BitWriter \<Rightarrow> BitWriter" where
  "wr_elem (U n v) w = wr_u n v w"
| "wr_elem (UE v) w = wr_ue v w"
| "wr_elem (SE v) w = wr_se v w"

fun rd_elem :: "Format \<Rightarrow> (BitReader, Elem) state" where
  "rd_elem (FU n) = do { v \<leftarrow> rd_u n; State_Monad.return (U n v) }"
| "rd_elem FUE = do { v \<leftarrow> rd_ue; State_Monad.return (UE v) }"
| "rd_elem FSE = do { v \<leftarrow> rd_se; State_Monad.return (SE v) }"

text \<open>
  The contract of a writer and of a reader. \<open>elems_bits\<close> is what they agree on.
\<close>

definition elems_bits :: "Elem list \<Rightarrow> bool list" where
  "elems_bits es = concat (map elem_bits es)"

locale bit_sink =
  fixes put :: "Elem \<Rightarrow> 'w \<Rightarrow> 'w"
    and content :: "'w \<Rightarrow> bool list"
    and sound :: "'w \<Rightarrow> bool"
  assumes put_sound: "sound w \<Longrightarrow> sound (put e w)"
    and put_content: "sound w \<Longrightarrow> content (put e w) = content w @ elem_bits e"
begin

lemma puts_sound: "sound w \<Longrightarrow> sound (fold put es w)"
  by (induction es arbitrary: w) (simp_all add: put_sound)

lemma puts_content: "sound w \<Longrightarrow> content (fold put es w) = content w @ elems_bits es"
  by (induction es arbitrary: w) (simp_all add: put_sound put_content elems_bits_def)

end

fun gets :: "(Format \<Rightarrow> ('r, Elem) state) \<Rightarrow> Format list \<Rightarrow> ('r, Elem list) state" where
  "gets get [] = State_Monad.return []"
| "gets get (f # fs) = do { e \<leftarrow> get f; es \<leftarrow> gets get fs; State_Monad.return (e # es) }"

locale bit_source =
  fixes get :: "Format \<Rightarrow> ('r, Elem) state"
    and rest :: "'r \<Rightarrow> bool list"
    and open_source :: "'r \<Rightarrow> bool"
  assumes get_elem: "open_source r \<Longrightarrow> readable e \<Longrightarrow> rest r = elem_bits e @ bs \<Longrightarrow>
    \<exists>r'. run_state (get (format_of e)) r = (e, r') \<and> open_source r' \<and> rest r' = bs"
begin

lemma gets_elems:
  "open_source r \<Longrightarrow> list_all readable es \<Longrightarrow> rest r = elems_bits es @ bs \<Longrightarrow>
   \<exists>r'. run_state (gets get (map format_of es)) r = (es, r') \<and> open_source r' \<and> rest r' = bs"
proof (induction es arbitrary: r)
  case Nil
  then show ?case by (simp add: elems_bits_def)
next
  case (Cons e es)
  then obtain r1 where r1: "run_state (get (format_of e)) r = (e, r1)" "open_source r1"
      "rest r1 = elems_bits es @ bs"
    using get_elem [of r e "elems_bits es @ bs"] by (auto simp: elems_bits_def)
  then obtain r2 where "run_state (gets get (map format_of es)) r1 = (es, r2)" "open_source r2" "rest r2 = bs"
    using Cons.IH [of r1] Cons.prems by auto
  with r1 show ?case by (simp add: State_Monad.bind_def)
qed

end

locale bit_channel = bit_sink put content sound + bit_source get rest open_source
  for put :: "Elem \<Rightarrow> 'w \<Rightarrow> 'w" and content and sound
    and get :: "Format \<Rightarrow> ('r, Elem) state" and rest and open_source +
  fixes link :: "'w \<Rightarrow> 'r"
  assumes link_rest: "sound w \<Longrightarrow> \<exists>padding. rest (link w) = content w @ padding"
    and link_open: "sound w \<Longrightarrow> open_source (link w)"
begin

theorem channel_round_trip:
  assumes "sound w" "content w = []" "list_all readable es"
  shows "fst (run_state (gets get (map format_of es)) (link (fold put es w))) = es"
proof -
  have s: "sound (fold put es w)" by (rule puts_sound [OF assms(1)])
  obtain padding where "rest (link (fold put es w)) = elems_bits es @ padding"
    using link_rest [OF s] puts_content [OF assms(1)] assms(2) by auto
  then show ?thesis using gets_elems [OF link_open [OF s] assms(3)] by fastforce
qed

end

section \<open>The writer and the reader of the code\<close>

interpretation writer: bit_sink wr_elem wr_content wr_inv
proof
  fix w e
  assume "wr_inv w"
  then show "wr_inv (wr_elem e w)" "wr_content (wr_elem e w) = wr_content w @ elem_bits e"
    by (cases e; simp add: wr_u_step wr_ue_step wr_se_def)+
qed

definition rd_ready :: "BitReader \<Rightarrow> bool" where
  "rd_ready r \<longleftrightarrow> \<not> rd_overrun r"

lemma se_value_readable: "\<bar>v\<bar> < 2 ^ 30 \<Longrightarrow> uint (se_value v) = (if v > 0 then 2 * v - 1 else - 2 * v)"
proof -
  assume v: "\<bar>v\<bar> < 2 ^ 30"
  have "uint (word_of_int x :: 32 word) = x" if "0 \<le> x" "x < 2 ^ 32" for x
    using that by (simp only: uint_word_of_int) simp
  from this [of "2 * v - 1"] this [of "- 2 * v"] v show ?thesis
    by (simp only: se_value_def if_distrib [of uint]) simp
qed

lemma se_value_not_max: "\<bar>v\<bar> < 2 ^ 30 \<Longrightarrow> se_value v \<noteq> - 1"
  using se_value_readable [of v] by (auto simp: word_uint_eq_iff unsigned_minus_1_eq_mask mask_eq_exp_minus_1)

lemma rd_se_rest:
  assumes "rd_rest r = ue_code (se_value v) @ bs" "\<bar>v\<bar> < 2 ^ 30" "\<not> rd_overrun r"
  shows "run_state rd_se r = (v, rd_skip (length (ue_code (se_value v))) r)"
proof -
  have u: "uint (se_value v) = (if v > 0 then 2 * v - 1 else - 2 * v)" by (rule se_value_readable [OF assms(2)])
  have odd: "se_value v AND 1 \<noteq> 0 \<longleftrightarrow> v > 0"
    by (simp add: and_one_eq word_uint_eq_iff uint_mod u) presburger
  have half: "v > 0 \<Longrightarrow> uint ((se_value v + 1) div 2) = v" "\<not> v > 0 \<Longrightarrow> uint (se_value v div 2) = - v"
    using assms(2) by (simp_all add: uint_div uint_word_ariths u)
  show ?thesis
    using rd_ue_rest [OF assms(1) se_value_not_max [OF assms(2)] assms(3)] odd half assms(2)
    by (simp add: rd_se_def State_Monad.bind_def)
qed

interpretation stream: bit_channel wr_elem wr_content wr_inv rd_elem rd_rest rd_ready "\<lambda>w. rd_new (wr_bytes w)"
proof
  fix r e bs
  assume r: "rd_ready r" "readable e" "rd_rest r = elem_bits e @ bs"
  show "\<exists>r'. run_state (rd_elem (format_of e)) r = (e, r') \<and> rd_ready r' \<and> rd_rest r' = bs"
  proof (cases e)
    case (U n v)
    with r show ?thesis
      using rd_u_rest [of n r] by (auto simp: State_Monad.bind_def of_be_bits rd_ready_def)
  next
    case (UE v)
    with r show ?thesis
      using rd_ue_rest [of r v bs] by (auto simp: State_Monad.bind_def rd_ready_def)
  next
    case (SE v)
    with r show ?thesis
      using rd_se_rest [of r v bs] by (auto simp: State_Monad.bind_def rd_ready_def)
  qed
next
  fix w
  assume "wr_inv w"
  then show "\<exists>padding. rd_rest (rd_new (wr_bytes w)) = wr_content w @ padding"
    by (auto simp: wr_inv_def rd_rest_def rd_new_def)
  show "rd_ready (rd_new (wr_bytes w))" by (simp add: rd_ready_def rd_new_def)
qed

section \<open>Properties\<close>

text \<open>What \<open>BitWriter\<close> writes, \<open>BitReader\<close> reads: any list of fixed-width, Exp-Golomb and signed
  Exp-Golomb values comes back as it was, for every value its code can carry (all 32-bit values but the
  last for \<open>ue\<close>, where the writer's shift leaves the 32 bits).\<close>

theorem bit_round_trip:
  assumes "list_all readable es"
  shows "fst (run_state (gets rd_elem (map format_of es)) (rd_new (wr_bytes (fold wr_elem es wr_new)))) = es"
  using stream.channel_round_trip [of wr_new es] assms by simp

text \<open>Emulation prevention is undone by the reader's side and leaves no start code inside a NAL unit.\<close>

theorem escape_round_trip:
  "unescape (escapeInto rbsp []) = rbsp \<and> start_code_free (escapeInto rbsp [])"
  by (simp add: escapeInto_append escape_def unescape_def unescape_escape_loop clear_of_zeros_free
      escape_loop_clear)

section \<open>Witnesses\<close>

theorem bit_round_trip_witness:
  "fst (run_state (gets rd_elem [FU 8, FUE, FSE, FU 3])
     (rd_new (wr_bytes (fold wr_elem [U 8 100, UE 4294967294, SE (- 7), U 3 5] wr_new)))) =
   [U 8 100, UE 4294967294, SE (- 7), U 3 5]"
  using bit_round_trip [of "[U 8 100, UE 4294967294, SE (- 7), U 3 5]"] by simp

end
