(* ===== verification/H264_Vui.thy ===== *)
theory H264_Vui
  imports Bit_Stream
begin

unbundle bit_operations_syntax

text \<open>
  \<open>h264WithNoReorderVui\<close> (\<open>native-host/src/encode/H264Vui.h\<close>): an H.264 sequence parameter set whose VUI
  is rewritten so that a decoder has nothing to reorder. The parser is a program of the state monad
  over \<open>BitReader\<close>, section by section as the function reads; \<open>None\<close> is the function's early return of
  an empty vector. A null pointer is the empty list.
\<close>

section \<open>The parser\<close>

definition rd_when :: "bool \<Rightarrow> (BitReader, unit) state \<Rightarrow> (BitReader, unit) state" where
  "rd_when c m = (if c then m else State_Monad.return ())"

definition rd_drop :: "(BitReader, 'a) state \<Rightarrow> (BitReader, unit) state" where
  "rd_drop m = do { _ \<leftarrow> m; State_Monad.return () }"

definition rd_flag :: "(BitReader, bool) state" where
  "rd_flag = do { b \<leftarrow> rd_u 1; State_Monad.return (b \<noteq> 0) }"

text \<open>A loop \<open>for (...; i < n && !r.overrun; ++i)\<close>.\<close>

fun rd_loop :: "('i \<Rightarrow> (BitReader, unit) state) \<Rightarrow> 'i list \<Rightarrow> (BitReader, unit) state" where
  "rd_loop body [] = State_Monad.return ()"
| "rd_loop body (i # is) =
     do { failed \<leftarrow> rd_failed; if failed then State_Monad.return () else do { body i; rd_loop body is } }"

fun skipScalingList_loop :: "nat \<Rightarrow> int \<Rightarrow> int \<Rightarrow> (BitReader, unit) state" where
  "skipScalingList_loop 0 lst nxt = State_Monad.return ()"
| "skipScalingList_loop (Suc n) lst nxt =
     do {
       failed \<leftarrow> rd_failed;
       if failed then State_Monad.return ()
       else do {
         nxt \<leftarrow> (if nxt \<noteq> 0 then do { d \<leftarrow> rd_se; State_Monad.return ((lst + d + 256) smod 256) }
                  else State_Monad.return nxt);
         skipScalingList_loop n (if nxt = 0 then lst else nxt) nxt
       }
     }"

definition skipScalingList :: "nat \<Rightarrow> (BitReader, unit) state" where
  "skipScalingList sz = skipScalingList_loop sz 8 8"

definition skipHrd :: "(BitReader, unit) state" where
  "skipHrd = do {
     n \<leftarrow> rd_ue;
     let cpbCount = n + 1;
     if cpbCount > 32 then rd_fail
     else do {
       rd_drop (rd_u 4);
       rd_drop (rd_u 4);
       rd_loop (\<lambda>i. do { rd_drop rd_ue; rd_drop rd_ue; rd_drop (rd_u 1) }) [0..<unat cpbCount];
       rd_drop (rd_u 5);
       rd_drop (rd_u 5);
       rd_drop (rd_u 5);
       rd_drop (rd_u 5)
     }
   }"

definition chroma_profiles :: "32 word list" where
  "chroma_profiles = [100, 110, 122, 244, 44, 83, 86, 118, 128, 138, 139, 134, 135]"

definition rd_chroma :: "(BitReader, unit) state" where
  "rd_chroma = do {
     chroma \<leftarrow> rd_ue;
     rd_when (chroma = 3) (rd_drop (rd_u 1));
     rd_drop rd_ue;
     rd_drop rd_ue;
     rd_drop (rd_u 1);
     scaling \<leftarrow> rd_flag;
     rd_when scaling
       (rd_loop (\<lambda>i. do { present \<leftarrow> rd_flag; rd_when present (skipScalingList (if i < 6 then 16 else 64)) })
          [0..<(if chroma = 3 then 12 else 8) :: nat])
   }"

text \<open>The picture order count: false when the function gives up on the cycle's length.\<close>

definition rd_poc :: "(BitReader, bool) state" where
  "rd_poc = do {
     pocType \<leftarrow> rd_ue;
     if pocType = 0 then do { rd_drop rd_ue; State_Monad.return True }
     else if pocType = 1 then do {
       rd_drop (rd_u 1);
       rd_drop rd_se;
       rd_drop rd_se;
       cycle \<leftarrow> rd_ue;
       if cycle > 255 then State_Monad.return False
       else do { rd_loop (\<lambda>i. rd_drop rd_se) [0..<unat cycle]; State_Monad.return True }
     }
     else State_Monad.return True
   }"

definition rd_geometry :: "(BitReader, 32 word) state" where
  "rd_geometry = do {
     refFrames \<leftarrow> rd_ue;
     rd_drop (rd_u 1);
     rd_drop rd_ue;
     rd_drop rd_ue;
     frame_mbs_only \<leftarrow> rd_flag;
     rd_when (\<not> frame_mbs_only) (rd_drop (rd_u 1));
     rd_drop (rd_u 1);
     crop \<leftarrow> rd_flag;
     rd_when crop (do { rd_drop rd_ue; rd_drop rd_ue; rd_drop rd_ue; rd_drop rd_ue });
     State_Monad.return refFrames
   }"

definition rd_sps_head :: "(BitReader, 32 word option) state" where
  "rd_sps_head = do {
     profile \<leftarrow> rd_u 8;
     rd_drop (rd_u 8);
     rd_drop (rd_u 8);
     rd_drop rd_ue;
     rd_when (profile \<in> set chroma_profiles) rd_chroma;
     rd_drop rd_ue;
     ok \<leftarrow> rd_poc;
     if \<not> ok then State_Monad.return None
     else do { refFrames \<leftarrow> rd_geometry; State_Monad.return (Some refFrames) }
   }"

text \<open>The VUI, up to its \<open>bitstream_restriction_flag\<close>.\<close>

definition rd_vui :: "(BitReader, unit) state" where
  "rd_vui = do {
     aspect \<leftarrow> rd_flag;
     rd_when aspect (do { idc \<leftarrow> rd_u 8; rd_when (idc = 255) (rd_drop (rd_u 32)) });
     overscan \<leftarrow> rd_flag;
     rd_when overscan (rd_drop (rd_u 1));
     signal \<leftarrow> rd_flag;
     rd_when signal (do { rd_drop (rd_u 4); colour \<leftarrow> rd_flag; rd_when colour (rd_drop (rd_u 24)) });
     chroma_loc \<leftarrow> rd_flag;
     rd_when chroma_loc (do { rd_drop rd_ue; rd_drop rd_ue });
     timing \<leftarrow> rd_flag;
     rd_when timing (rd_drop (rd_u 65));
     nalHrd \<leftarrow> rd_flag;
     rd_when nalHrd skipHrd;
     vclHrd \<leftarrow> rd_flag;
     rd_when vclHrd skipHrd;
     rd_when (nalHrd \<or> vclHrd) (rd_drop (rd_u 1));
     rd_drop (rd_u 1)
   }"

text \<open>
  What the parser finds: the number of reference frames, how many bits are kept, and whether they
  already hold the head of a VUI.
\<close>

definition sps_parse :: "8 word list \<Rightarrow> (32 word \<times> nat \<times> bool) option" where
  "sps_parse rbsp =
     (case run_state rd_sps_head (rd_new rbsp) of
        (None, r) \<Rightarrow> None
      | (Some refFrames, r) \<Rightarrow>
          if rd_overrun r then None
          else case run_state rd_flag r of
              (False, _) \<Rightarrow> Some (refFrames, rd_pos r, False)
            | (True, r') \<Rightarrow>
                (case run_state rd_vui r' of (_, r'') \<Rightarrow>
                   if rd_overrun r'' then None else Some (refFrames, rd_pos r'', True)))"

section \<open>The rewriting\<close>

definition vui_header :: "Elem list" where
  "vui_header = [U 1 1, U 1 0, U 1 0, U 1 0, U 1 0, U 1 0, U 1 0, U 1 0, U 1 0]"

definition restriction_tail :: "32 word \<Rightarrow> Elem list" where
  "restriction_tail refFrames =
     [U 1 1, U 1 1, UE 2, UE 1, UE 15, UE 15, UE 0, UE (if refFrames > 0 then refFrames else 1), U 1 1]"

definition wr_copy :: "8 word list \<Rightarrow> nat \<Rightarrow> BitWriter \<Rightarrow> BitWriter" where
  "wr_copy rbsp keep w =
     fold (\<lambda>i. wr_u 1 (ucast (drop_bit (7 - i mod 8) (rbsp ! (i div 8))) AND 1)) [0..<keep] w"

definition h264WithNoReorderVui :: "8 word list \<Rightarrow> 8 word list" where
  "h264WithNoReorderVui sps =
     (if length sps < 4 \<or> sps ! 0 AND 0x1f \<noteq> 7 then []
      else let rbsp = unescape (tl sps)
           in case sps_parse rbsp of
                None \<Rightarrow> []
              | Some (refFrames, keep, hasVui) \<Rightarrow>
                  let w = wr_copy rbsp keep wr_new;
                      w = (if hasVui then w else fold wr_elem vui_header w);
                      w = fold wr_elem (restriction_tail refFrames) w
                  in escapeInto (wr_bytes w) [sps ! 0])"

section \<open>What a parser read\<close>

text \<open>
  A reading program is local when its result depends only on the bits it consumed: it never moves
  backwards, a failure stays a failure, and on another reader with the same bits up to where it ended it
  does the same.
\<close>

definition same_bits :: "nat \<Rightarrow> BitReader \<Rightarrow> BitReader \<Rightarrow> bool" where
  "same_bits n r r' \<longleftrightarrow> rd_pos r' = rd_pos r \<and> \<not> rd_overrun r' \<and> n \<le> length (bits_of (rd_bytes r')) \<and>
     take n (bits_of (rd_bytes r')) = take n (bits_of (rd_bytes r))"

definition is_local :: "(BitReader, 'a) state \<Rightarrow> bool" where
  "is_local m \<longleftrightarrow> (\<forall>r x s. run_state m r = (x, s) \<longrightarrow>
     rd_bytes s = rd_bytes r \<and> rd_pos r \<le> rd_pos s \<and> (rd_overrun r \<longrightarrow> rd_overrun s) \<and>
     (\<not> rd_overrun s \<longrightarrow> (rd_pos r \<le> length (bits_of (rd_bytes r)) \<longrightarrow> rd_pos s \<le> length (bits_of (rd_bytes r))) \<and>
       (\<forall>r'. same_bits (rd_pos s) r r' \<longrightarrow> run_state m r' = (x, r'\<lparr>rd_pos := rd_pos s\<rparr>))))"

named_theorems local_intros \<open>the programs that are local\<close>

lemma is_localD:
  assumes "is_local m" "run_state m r = (x, s)"
  shows "rd_bytes s = rd_bytes r" "rd_pos r \<le> rd_pos s" "rd_overrun r \<Longrightarrow> rd_overrun s"
    "\<not> rd_overrun s \<Longrightarrow> rd_pos r \<le> length (bits_of (rd_bytes r)) \<Longrightarrow> rd_pos s \<le> length (bits_of (rd_bytes r))"
    "\<not> rd_overrun s \<Longrightarrow> same_bits (rd_pos s) r r' \<Longrightarrow> run_state m r' = (x, r'\<lparr>rd_pos := rd_pos s\<rparr>)"
  using assms unfolding is_local_def by blast+

lemma local_return [local_intros]: "is_local (State_Monad.return x)"
  by (auto simp: is_local_def same_bits_def)

lemma same_bits_mono: "same_bits n r r' \<Longrightarrow> m \<le> n \<Longrightarrow> same_bits m r r'"
  unfolding same_bits_def by (metis (no_types, lifting) min.absorb1 order_trans take_take)

lemma local_bind [local_intros]:
  assumes "is_local m" "\<And>x. is_local (f x)"
  shows "is_local (m \<bind> f)"
  unfolding is_local_def
proof (intro allI impI)
  fix r y s
  assume "run_state (m \<bind> f) r = (y, s)"
  then obtain x t where m: "run_state m r = (x, t)" and f: "run_state (f x) t = (y, s)"
    by (cases "run_state m r") (simp add: State_Monad.bind_def)
  note 1 = is_localD [OF assms(1) m] and 2 = is_localD [OF assms(2) f]
  have "run_state (m \<bind> f) r' = (y, r'\<lparr>rd_pos := rd_pos s\<rparr>)" if "\<not> rd_overrun s" "same_bits (rd_pos s) r r'" for r'
  proof -
    have t: "\<not> rd_overrun t" using 2(3) that(1) by blast
    then have "run_state m r' = (x, r'\<lparr>rd_pos := rd_pos t\<rparr>)"
      using 1(5) 2(2) that(2) by (blast intro: same_bits_mono)
    moreover have "same_bits (rd_pos s) t (r'\<lparr>rd_pos := rd_pos t\<rparr>)"
      using that(2) 1(1) by (simp add: same_bits_def)
    then have "run_state (f x) (r'\<lparr>rd_pos := rd_pos t\<rparr>) = (y, r'\<lparr>rd_pos := rd_pos s\<rparr>)"
      using 2(5) [OF that(1)] by simp
    ultimately show ?thesis by (simp add: State_Monad.bind_def)
  qed
  with 1 2 show "rd_bytes s = rd_bytes r \<and> rd_pos r \<le> rd_pos s \<and> (rd_overrun r \<longrightarrow> rd_overrun s) \<and>
     (\<not> rd_overrun s \<longrightarrow> (rd_pos r \<le> length (bits_of (rd_bytes r)) \<longrightarrow> rd_pos s \<le> length (bits_of (rd_bytes r))) \<and>
       (\<forall>r'. same_bits (rd_pos s) r r' \<longrightarrow> run_state (m \<bind> f) r' = (y, r'\<lparr>rd_pos := rd_pos s\<rparr>)))"
    by auto
qed

lemma local_if [local_intros]: "is_local m \<Longrightarrow> is_local n \<Longrightarrow> is_local (if c then m else n)"
  by simp

lemma local_option [local_intros]:
  "is_local m \<Longrightarrow> (\<And>x. is_local (f x)) \<Longrightarrow> is_local (case p of None \<Rightarrow> m | Some x \<Rightarrow> f x)"
  by (cases p) simp_all

lemma local_fail [local_intros]: "is_local rd_fail"
  by (auto simp: is_local_def rd_fail_def)

lemma local_failed [local_intros]: "is_local rd_failed"
  by (auto simp: is_local_def rd_failed_def same_bits_def State_Monad.bind_def State_Monad.get_def)

lemma rd_u_loop_frame:
  "rd_bytes (snd (rd_u_loop n v r)) = rd_bytes r \<and> rd_pos r \<le> rd_pos (snd (rd_u_loop n v r)) \<and>
   (rd_overrun r \<longrightarrow> rd_overrun (snd (rd_u_loop n v r))) \<and>
   (length (rd_rest r) < n \<longrightarrow> rd_overrun (snd (rd_u_loop n v r)))"
proof (induction n arbitrary: v r)
  case 0
  then show ?case by simp
next
  case (Suc n)
  show ?case
  proof (cases "length (rd_bytes r) * 8 \<le> rd_pos r")
    case True
    then show ?thesis by simp
  next
    case False
    then show ?thesis
      using Suc.IH [of "push_bit 1 v OR rd_peek r" "r\<lparr>rd_pos := rd_pos r + 1\<rparr>"]
      by (auto simp: rd_rest_def)
  qed
qed

lemma local_u [local_intros]: "is_local (rd_u n)"
  unfolding is_local_def
proof (intro allI impI)
  fix r x s
  assume m: "run_state (rd_u n) r = (x, s)"
  then have s: "s = snd (rd_u_loop n 0 r)" by (simp add: rd_u_def)
  note frame = rd_u_loop_frame [of n 0 r, folded s]
  have "run_state (rd_u n) r' = (x, r'\<lparr>rd_pos := rd_pos s\<rparr>)"
    if "\<not> rd_overrun s" "same_bits (rd_pos s) r r'" for r'
  proof -
    have n: "n \<le> length (rd_rest r)" using frame that(1) by (meson not_le)
    then have x: "x = of_be (take n (rd_rest r))" and s: "s = rd_skip n r" using m by (simp_all add: rd_u_rest)
    have agree: "take (rd_pos r + n) (bits_of (rd_bytes r')) = take (rd_pos r + n) (bits_of (rd_bytes r))"
      "rd_pos r' = rd_pos r" "rd_pos r + n \<le> length (bits_of (rd_bytes r'))"
      using that(2) by (simp_all add: same_bits_def s)
    have "take n (rd_rest r') = take n (rd_rest r)"
      unfolding rd_rest_def agree(2) take_drop by (metis add.commute agree(1))
    moreover have "n \<le> length (rd_rest r')" using agree(2,3) by (simp add: rd_rest_def)
    ultimately show ?thesis by (simp add: rd_u_rest x s rd_skip_def agree(2))
  qed
  moreover have "rd_pos s \<le> length (bits_of (rd_bytes r))"
    if "\<not> rd_overrun s" "rd_pos r \<le> length (bits_of (rd_bytes r))"
  proof -
    have n: "n \<le> length (rd_rest r)" using frame that(1) by (meson not_le)
    then have "s = rd_skip n r" using m by (simp add: rd_u_rest)
    with n that(2) show ?thesis by (simp add: rd_rest_def)
  qed
  ultimately show "rd_bytes s = rd_bytes r \<and> rd_pos r \<le> rd_pos s \<and> (rd_overrun r \<longrightarrow> rd_overrun s) \<and>
     (\<not> rd_overrun s \<longrightarrow> (rd_pos r \<le> length (bits_of (rd_bytes r)) \<longrightarrow> rd_pos s \<le> length (bits_of (rd_bytes r))) \<and>
       (\<forall>r'. same_bits (rd_pos s) r r' \<longrightarrow> run_state (rd_u n) r' = (x, r'\<lparr>rd_pos := rd_pos s\<rparr>)))"
    using frame by blast
qed

lemma rd_zeros_bind:
  "State (rd_zeros z) = do {
     b \<leftarrow> rd_u 1;
     if b = 0 then do {
       failed \<leftarrow> rd_failed;
       if failed \<or> 31 < z + 1 then do { rd_fail; State_Monad.return None } else State (rd_zeros (z + 1))
     } else State_Monad.return (Some z)
   }"
  by (rule state_ext)
    (simp add: rd_zeros.simps [of z] State_Monad.bind_def rd_u_def rd_failed_def rd_fail_def State_Monad.get_def
      case_prod_unfold Let_def del: rd_u_loop.simps)

lemma local_zeros [local_intros]: "is_local (State (rd_zeros z))"
proof (induction "32 - z" arbitrary: z rule: less_induct)
  case less
  have "is_local (if c \<or> 31 < z + 1 then do { rd_fail; State_Monad.return None } else State (rd_zeros (z + 1)))" for c
  proof (cases "31 < z + 1")
    case False
    then have "is_local (State (rd_zeros (z + 1)))" by (intro less) simp
    then show ?thesis by (intro local_intros)
  qed (auto intro!: local_intros)
  then show ?case
    by (subst rd_zeros_bind) (intro local_bind [OF local_u] local_if [OF local_bind [OF local_failed] local_return])
qed

lemma local_ue [local_intros]: "is_local rd_ue"
  unfolding rd_ue_def by (intro local_intros)

lemma local_se [local_intros]: "is_local rd_se"
  unfolding rd_se_def by (intro local_intros)

lemma local_when [local_intros]: "is_local m \<Longrightarrow> is_local (rd_when c m)"
  unfolding rd_when_def by (intro local_intros)

lemma local_drop [local_intros]: "is_local m \<Longrightarrow> is_local (rd_drop m)"
  unfolding rd_drop_def by (intro local_intros)

lemma local_flag [local_intros]: "is_local rd_flag"
  unfolding rd_flag_def by (intro local_intros)

lemma local_loop [local_intros]: "(\<And>i. is_local (body i)) \<Longrightarrow> is_local (rd_loop body is)"
  by (induction "is") (auto intro!: local_intros)

lemma local_skipScalingList [local_intros]: "is_local (skipScalingList n)"
proof -
  have "is_local (skipScalingList_loop n lst nxt)" for lst nxt
    by (induction n arbitrary: lst nxt) (auto intro!: local_intros)
  then show ?thesis by (simp add: skipScalingList_def)
qed

lemma local_skipHrd [local_intros]: "is_local skipHrd"
  unfolding skipHrd_def Let_def by (intro local_intros)

lemma local_sps_head: "is_local rd_sps_head"
  unfolding rd_sps_head_def rd_chroma_def rd_poc_def rd_geometry_def by (intro local_intros)

lemma local_vui: "is_local rd_vui"
  unfolding rd_vui_def by (intro local_intros)

section \<open>What is kept and what is written\<close>

lemma wr_copy_step:
  assumes "wr_inv w" "keep \<le> length (bits_of rbsp)"
  shows "wr_inv (wr_copy rbsp keep w)" and "wr_content (wr_copy rbsp keep w) = wr_content w @ take keep (bits_of rbsp)"
proof -
  let ?f = "\<lambda>i. wr_u 1 (ucast (drop_bit (7 - i mod 8) (rbsp ! (i div 8))) AND 1)"
  have "wr_inv (fold ?f is w) \<and> wr_content (fold ?f is w) = wr_content w @ map ((!) (bits_of rbsp)) is"
    if "\<forall>i \<in> set is. i < keep" for "is"
    using that assms(1)
  proof (induction "is" arbitrary: w)
    case Nil
    then show ?case by simp
  next
    case (Cons i "is")
    have bit: "be_bits 1 (ucast (drop_bit (7 - i mod 8) (rbsp ! (i div 8))) AND 1) = [bits_of rbsp ! i]"
      using Cons.prems assms(2) by (simp add: nth_bits_of bit_simps)
    have "wr_inv (?f i w)" "wr_content (?f i w) = wr_content w @ [bits_of rbsp ! i]"
      using wr_u_step [OF Cons.prems(2), of 1] by (simp_all only: bit)
    with Cons.IH [of "?f i w"] Cons.prems show ?case by simp
  qed
  note run = this
  have nths: "map ((!) (bits_of rbsp)) [0..<keep] = take keep (bits_of rbsp)"
    using assms(2) by (intro nth_equalityI) simp_all
  from run [of "[0..<keep]"] show "wr_inv (wr_copy rbsp keep w)"
    "wr_content (wr_copy rbsp keep w) = wr_content w @ take keep (bits_of rbsp)"
    by (simp_all add: wr_copy_def nths)
qed

definition rewritten_bits :: "8 word list \<Rightarrow> 32 word \<times> nat \<times> bool \<Rightarrow> bool list" where
  "rewritten_bits rbsp p =
     (case p of (refFrames, keep, hasVui) \<Rightarrow>
        take keep (bits_of rbsp) @ (if hasVui then [] else elems_bits vui_header) @
        elems_bits (restriction_tail refFrames))"

lemma sps_parse_run:
  assumes "sps_parse rbsp = Some (refFrames, keep, hasVui)"
  obtains r where "run_state rd_sps_head (rd_new rbsp) = (Some refFrames, r)" "\<not> rd_overrun r" "rd_pos r \<le> keep"
      "\<not> hasVui" "keep = rd_pos r"
  | r r' r'' where "run_state rd_sps_head (rd_new rbsp) = (Some refFrames, r)" "\<not> rd_overrun r" "rd_pos r \<le> keep"
      "hasVui" "run_state rd_flag r = (True, r')" "run_state rd_vui r' = ((), r'')" "\<not> rd_overrun r''"
      "keep = rd_pos r''"
proof -
  obtain r where head: "run_state rd_sps_head (rd_new rbsp) = (Some refFrames, r)" "\<not> rd_overrun r"
    using assms by (auto simp: sps_parse_def split: prod.splits option.splits bool.splits if_splits)
  obtain v r' where flag: "run_state rd_flag r = (v, r')" by (cases "run_state rd_flag r")
  obtain r'' where vui: "run_state rd_vui r' = ((), r'')" by (cases "run_state rd_vui r'") auto
  show thesis
  proof (cases v)
    case True
    then have "hasVui" "keep = rd_pos r''" "\<not> rd_overrun r''"
      using assms head flag vui by (auto simp: sps_parse_def split: if_splits)
    moreover have "rd_pos r \<le> rd_pos r''"
      using is_localD(2) [OF local_flag flag] is_localD(2) [OF local_vui vui] by simp
    ultimately show thesis using that(2) [of r r' r''] head flag vui True by simp
  next
    case False
    then have "\<not> hasVui" "keep = rd_pos r" using assms head flag by (auto simp: sps_parse_def)
    then show thesis using that(1) head by simp
  qed
qed

lemma sps_parse_keep:
  assumes "sps_parse rbsp = Some (refFrames, keep, hasVui)"
  shows "keep \<le> length (bits_of rbsp)"
  using assms
proof (cases rule: sps_parse_run)
  case (1 r)
  then show ?thesis using is_localD(1,4) [OF local_sps_head 1(1)] by (simp add: rd_new_def)
next
  case (2 r r' r'')
  have "rd_pos r \<le> length (bits_of rbsp)" "rd_bytes r = rbsp"
    using is_localD(1,4) [OF local_sps_head 2(1)] 2(2) by (simp_all add: rd_new_def)
  moreover have "\<not> rd_overrun r'" using is_localD(3) [OF local_vui 2(6)] 2(7) by blast
  ultimately have "rd_pos r' \<le> length (bits_of rbsp)" "rd_bytes r' = rbsp"
    using is_localD(1,4) [OF local_flag 2(5)] by simp_all
  then show ?thesis using is_localD(4) [OF local_vui 2(6) 2(7)] 2(8) by simp
qed

lemma rd_flag_rest: "rd_rest r = b # bs \<Longrightarrow> run_state rd_flag r = (b, rd_skip 1 r)"
  using rd_u_rest [of 1 r] by (simp add: rd_flag_def State_Monad.bind_def of_be_def)

text \<open>The header the function adds is a VUI it finds.\<close>

lemma rd_vui_empty:
  assumes "rd_rest r = replicate 8 False @ bs"
  shows "run_state rd_vui r = ((), rd_skip 8 r)"
proof -
  have step: "run_state rd_flag (rd_skip k r) = (False, rd_skip (k + 1) r)" if "k < 8" for k
  proof -
    have "8 - k = Suc (7 - k)" using that by linarith
    then have "replicate (8 - k) False = False # replicate (7 - k) False" by (simp only: replicate_Suc)
    then have "rd_rest (rd_skip k r) = False # replicate (7 - k) False @ bs"
      using that by (simp add: assms drop_append)
    then show ?thesis using rd_flag_rest by fastforce
  qed
  have last: "run_state (rd_u 1) (rd_skip 7 r) = (0, rd_skip 8 r)"
    using rd_u_rest [of 1 "rd_skip 7 r"] assms by (simp add: numeral_eq_Suc of_be_def)
  show ?thesis
    using step [of 0] step [of 1] step [of 2] step [of 3] step [of 4] step [of 5] step [of 6] last
    by (simp add: rd_vui_def rd_when_def rd_drop_def State_Monad.bind_def del: One_nat_def)
qed

lemma elems_bits_header: "elems_bits vui_header = True # replicate 8 False"
  by (simp add: elems_bits_def vui_header_def numeral_eq_Suc)

text \<open>A string that starts with the kept bits and the header parses to the same picture.\<close>

lemma sps_parse_again:
  assumes parsed: "sps_parse rbsp = Some (refFrames, keep, hasVui)"
    and again: "bits_of rbsp' = take keep (bits_of rbsp) @ (if hasVui then [] else elems_bits vui_header) @ rest"
  shows "sps_parse rbsp' = Some (refFrames, keep + (if hasVui then 0 else 9), True)"
proof -
  have keep: "keep \<le> length (bits_of rbsp)" by (rule sps_parse_keep [OF parsed])
  then have agree: "take n (bits_of rbsp') = take n (bits_of rbsp)" "n \<le> length (bits_of rbsp')" if "n \<le> keep" for n
  proof -
    show "take n (bits_of rbsp') = take n (bits_of rbsp)" using that keep by (simp add: again min_def)
    have "keep \<le> length (bits_of rbsp')" unfolding again using keep by simp
    with that show "n \<le> length (bits_of rbsp')" by simp
  qed
  have head': "run_state rd_sps_head (rd_new rbsp') = (Some refFrames, (rd_new rbsp')\<lparr>rd_pos := rd_pos r\<rparr>)"
    if "run_state rd_sps_head (rd_new rbsp) = (Some refFrames, r)" "\<not> rd_overrun r" "rd_pos r \<le> keep" for r
    using is_localD(5) [OF local_sps_head that(1,2), of "rd_new rbsp'"] agree [OF that(3)]
    by (simp add: same_bits_def rd_new_def)
  from parsed show ?thesis
  proof (cases rule: sps_parse_run)
    case (1 r)
    let ?r = "(rd_new rbsp')\<lparr>rd_pos := keep\<rparr>"
    have rest: "rd_rest ?r = True # replicate 8 False @ rest"
      using 1(4) keep by (simp add: rd_rest_def rd_new_def again elems_bits_header)
    have "run_state rd_flag ?r = (True, rd_skip 1 ?r)" using rest by (rule rd_flag_rest)
    moreover have "run_state rd_vui (rd_skip 1 ?r) = ((), rd_skip 8 (rd_skip 1 ?r))"
      by (rule rd_vui_empty [where bs = rest]) (simp add: rest)
    ultimately show ?thesis
      using head' [OF 1(1-3)] 1(4,5) by (simp add: sps_parse_def rd_new_def)
  next
    case (2 r r' r'')
    have ok: "\<not> rd_overrun r'" using is_localD(3) [OF local_vui 2(6)] 2(7) by blast
    have bytes: "rd_bytes r = rbsp" "rd_bytes r' = rbsp"
      using is_localD(1) [OF local_sps_head 2(1)] is_localD(1) [OF local_flag 2(5)] by (simp_all add: rd_new_def)
    have le: "rd_pos r' \<le> keep" using is_localD(2) [OF local_vui 2(6)] 2(8) by simp
    let ?at = "\<lambda>n. (rd_new rbsp')\<lparr>rd_pos := n\<rparr>"
    have "run_state rd_flag (?at (rd_pos r)) = (True, ?at (rd_pos r'))"
      using is_localD(5) [OF local_flag 2(5) ok, of "?at (rd_pos r)"] agree [OF le] bytes
      by (simp add: same_bits_def rd_new_def)
    moreover have "run_state rd_vui (?at (rd_pos r')) = ((), ?at keep)"
      using is_localD(5) [OF local_vui 2(6,7), of "?at (rd_pos r')"] agree [of keep] bytes 2(8)
      by (simp add: same_bits_def rd_new_def)
    ultimately show ?thesis using head' [OF 2(1-3)] 2(4) by (simp add: sps_parse_def rd_new_def)
  qed
qed

section \<open>The rewritten set\<close>

definition rewritten :: "8 word list \<Rightarrow> 32 word \<times> nat \<times> bool \<Rightarrow> BitWriter" where
  "rewritten rbsp p =
     (case p of (refFrames, keep, hasVui) \<Rightarrow>
        fold wr_elem (restriction_tail refFrames)
          (if hasVui then wr_copy rbsp keep wr_new else fold wr_elem vui_header (wr_copy rbsp keep wr_new)))"

lemma rewritten_bits:
  assumes "sps_parse rbsp = Some p"
  shows "wr_inv (rewritten rbsp p)" and "wr_content (rewritten rbsp p) = rewritten_bits rbsp p"
proof -
  obtain refFrames keep hasVui where p: "p = (refFrames, keep, hasVui)" by (cases p)
  have copy: "wr_inv (wr_copy rbsp keep wr_new)" "wr_content (wr_copy rbsp keep wr_new) = take keep (bits_of rbsp)"
    using wr_copy_step [of wr_new keep rbsp] sps_parse_keep [of rbsp] assms by (simp_all add: p)
  show "wr_inv (rewritten rbsp p)"
    using copy by (simp add: rewritten_def p writer.puts_sound)
  show "wr_content (rewritten rbsp p) = rewritten_bits rbsp p"
    using copy by (simp add: rewritten_def rewritten_bits_def p writer.puts_sound writer.puts_content)
qed

lemma rewrite_eq:
  "h264WithNoReorderVui sps =
     (if length sps < 4 \<or> sps ! 0 AND 0x1f \<noteq> 7 then []
      else case sps_parse (unescape (tl sps)) of
          None \<Rightarrow> []
        | Some p \<Rightarrow> sps ! 0 # escape (wr_bytes (rewritten (unescape (tl sps)) p)))"
  by (auto simp: h264WithNoReorderVui_def rewritten_def escapeInto_append Let_def split: option.splits)

lemma rewrite_accepts:
  assumes "h264WithNoReorderVui sps \<noteq> []"
  obtains p where "\<not> length sps < 4" "sps ! 0 AND 0x1f = 7" "sps_parse (unescape (tl sps)) = Some p"
    "h264WithNoReorderVui sps = sps ! 0 # escape (wr_bytes (rewritten (unescape (tl sps)) p))"
  using assms by (auto simp: rewrite_eq split: if_splits option.splits)

lemma unescape_escape [simp]: "unescape (escape bs) = bs"
  by (simp add: escape_def unescape_def unescape_escape_loop)

lemma unescape_length: "length (unescape bs) \<le> length bs"
proof -
  have "length (unescape_loop z bs) \<le> length bs" for z
    by (induction bs arbitrary: z) (auto intro: le_SucI)
  then show ?thesis by (simp add: unescape_def)
qed

lemma escape_length: "length bs \<le> length (escape bs)"
  using unescape_length [of "escape bs"] by simp

lemma wr_bytes_bits:
  assumes "wr_inv w"
  shows "length (wr_content w) \<le> length (wr_bytes w) * 8"
  using assms length_bits_of [of "wr_bytes w"] unfolding wr_inv_def by (metis le_add1 length_append)

lemma ue_code_1: "ue_code 0 = [True]" "ue_code 1 = [False, True, False]" "ue_code 2 = [False, True, True]"
  "ue_code 15 = [False, False, False, False, True, False, False, False, False]"
  by code_simp+

lemma elems_bits_restriction:
  "elems_bits (restriction_tail refFrames) =
     [True, True, False, True, True, False, True, False] @
     [False, False, False, False, True, False, False, False, False] @
     [False, False, False, False, True, False, False, False, False] @ [True] @
     ue_code (if refFrames > 0 then refFrames else 1) @ [True]"
  by (simp add: elems_bits_def restriction_tail_def ue_code_1)

section \<open>What the decoder reads\<close>

lemma rd_u_loop_bound: "unat (fst (rd_u_loop n v r)) < 2 ^ n * (unat v + 1)"
proof (induction n arbitrary: v r)
  case 0
  then show ?case by simp
next
  case (Suc n)
  have peek: "unat (push_bit 1 v OR rd_peek r) \<le> 2 * unat v + 1"
  proof -
    have "rd_peek r = 0 \<or> rd_peek r = 1" by (auto simp: rd_peek_def and_one_eq)
    moreover have "unat (push_bit 1 v) \<le> 2 * unat v" by (simp add: unat_word_ariths)
    moreover have "push_bit 1 v OR 1 = push_bit 1 v + 1"
      by (rule disjunctive_add [symmetric]) (simp only: bit_push_bit_iff bit_1_iff, simp)
    moreover have "unat (push_bit 1 v + 1) \<le> unat (push_bit 1 v) + 1"
      by (simp add: unat_word_ariths)
    ultimately show ?thesis by auto
  qed
  then have "2 ^ n * (unat (push_bit 1 v OR rd_peek r) + 1) \<le> 2 ^ n * (2 * unat v + 2)" by (intro mult_le_mono2) simp
  with Suc.IH [of "push_bit 1 v OR rd_peek r" "r\<lparr>rd_pos := rd_pos r + 1\<rparr>"] show ?case
    by (auto simp: algebra_simps intro: order.strict_trans2)
qed

lemma rd_zeros_bound: "fst (rd_zeros z r) = Some k \<Longrightarrow> z \<le> 31 \<Longrightarrow> k \<le> 31"
proof (induction z r rule: rd_zeros.induct)
  case (1 z r)
  obtain b s where read: "rd_u_loop 1 0 r = (b, s)" by (cases "rd_u_loop 1 0 r")
  have unfolded: "rd_zeros z r = (if b = 0 then if rd_overrun s \<or> z + 1 > 31 then (None, s\<lparr>rd_overrun := True\<rparr>)
      else rd_zeros (z + 1) s else (Some z, s))"
    by (subst rd_zeros.simps) (simp only: read Let_def case_prod_conv)
  show ?case
  proof (cases "b = 0 \<and> \<not> (rd_overrun s \<or> z + 1 > 31)")
    case True
    then show ?thesis using 1(1) [OF read [symmetric] refl] 1(2) unfolded by simp
  next
    case False
    then show ?thesis using 1(2,3) unfolded by (auto split: if_splits)
  qed
qed

lemma rd_ue_not_max: "fst (run_state rd_ue r) \<noteq> - 1"
proof (cases "rd_zeros 0 r")
  case (Pair z r')
  show ?thesis
  proof (cases z)
    case None
    with Pair show ?thesis by (simp add: rd_ue_def State_Monad.bind_def)
  next
    case (Some k)
    with Pair have k: "k \<le> 31" using rd_zeros_bound [of 0 r k] by simp
    let ?w = "fst (run_state (rd_u k) r')"
    have w: "unat ?w < 2 ^ k" using rd_u_loop_bound [of k 0 r'] by (simp add: rd_u_def)
    have p: "(2 :: nat) ^ k \<le> 2 ^ 31" using k by (intro power_increasing) simp_all
    have n: "unat (2 ^ k - 1 :: 32 word) = 2 ^ k - 1"
    proof -
      have "(2 ^ k - 1 :: 32 word) = word_of_nat (2 ^ k - 1)" by (simp add: of_nat_diff)
      then have "unat (2 ^ k - 1 :: 32 word) = take_bit LENGTH(32) (2 ^ k - 1)"
        by (simp only: unsigned_of_nat) simp
      moreover have "take_bit LENGTH(32) ((2 :: nat) ^ k - 1) = 2 ^ k - 1"
        by (rule take_bit_nat_eq_self) (use p in simp)
      ultimately show ?thesis by simp
    qed
    have "unat ((2 ^ k - 1) + ?w) < 2 ^ 32 - 1"
      using w p n by (simp add: unat_word_ariths)
    then have "(2 ^ k - 1) + ?w \<noteq> - 1"
      by (auto simp: word_unat_eq_iff unsigned_minus_1_eq_mask mask_eq_exp_minus_1)
    with Pair Some show ?thesis
      by (simp add: rd_ue_def State_Monad.bind_def case_prod_unfold push_bit_of_1)
  qed
qed

section \<open>Properties\<close>

text \<open>An accepted parameter set is kept bit for bit up to its VUI (or to the restriction flag of the one it
  has), the restriction is all that follows, padded to the byte; the NAL header is the input's and
  nothing inside looks like a start code.\<close>

theorem vui_rewrite_shape:
  assumes "h264WithNoReorderVui sps \<noteq> []"
  shows "\<exists>refFrames keep hasVui padding.
    sps_parse (unescape (tl sps)) = Some (refFrames, keep, hasVui) \<and>
    hd (h264WithNoReorderVui sps) = hd sps \<and> start_code_free (tl (h264WithNoReorderVui sps)) \<and>
    bits_of (unescape (tl (h264WithNoReorderVui sps))) =
      take keep (bits_of (unescape (tl sps))) @ (if hasVui then [] else elems_bits vui_header) @
      elems_bits (restriction_tail refFrames) @ replicate padding False \<and> padding < 8"
  using assms
proof (cases rule: rewrite_accepts)
  case (1 p)
  obtain refFrames keep hasVui where p: "p = (refFrames, keep, hasVui)" by (cases p)
  let ?w = "rewritten (unescape (tl sps)) p"
  note w = rewritten_bits [OF 1(3)]
  have "bits_of (wr_bytes ?w) = rewritten_bits (unescape (tl sps)) p @ replicate (8 - wr_used ?w) False" "8 - wr_used ?w < 8"
    using w by (simp_all add: wr_inv_def)
  moreover have "hd sps = sps ! 0" using 1(1) by (cases sps) simp_all
  moreover have "start_code_free (escape (wr_bytes ?w))"
    by (simp add: escape_def clear_of_zeros_free escape_loop_clear)
  ultimately show ?thesis
    using 1(3,4) by (intro exI [of _ refFrames] exI [of _ keep] exI [of _ hasVui] exI [of _ "8 - wr_used ?w"])
      (simp add: p rewritten_bits_def)
qed

lemma restriction_length: "31 \<le> length (elems_bits (restriction_tail refFrames))"
proof -
  let ?v = "if refFrames > 0 then refFrames else 1 :: 32 word"
  have "3 \<le> length (ue_code ?v)"
  proof (cases "?v = - 1")
    case True
    then have "ue_code ?v = ue_code (- 1)" by simp
    also have "length (ue_code (- 1)) = 65" by code_simp
    finally show ?thesis by simp
  next
    case False
    obtain k where k: "ue_code ?v = replicate k False @ True # be_bits k (?v + 1)" 
        "?v = (push_bit k 1 - 1) + take_bit k (?v + 1)"
      using ue_code_shape [OF False] by metis
    have "k \<noteq> 0"
    proof
      assume "k = 0"
      with k(2) have "?v = 0" by (simp only: push_bit_0_id take_bit_0) simp
      then show False by (simp split: if_splits)
    qed
    then show ?thesis by (simp only: k(1)) simp
  qed
  then show ?thesis by (simp only: elems_bits_restriction) simp
qed

text \<open>Rewriting is idempotent: what the function returned, it accepts and returns unchanged, whatever
  the parameter set it came from.\<close>

theorem vui_rewrite_idempotent:
  assumes "h264WithNoReorderVui sps \<noteq> []"
  shows "h264WithNoReorderVui (h264WithNoReorderVui sps) = h264WithNoReorderVui sps"
  using assms
proof (cases rule: rewrite_accepts)
  case (1 p)
  obtain refFrames keep hasVui where p: "p = (refFrames, keep, hasVui)" by (cases p)
  let ?rbsp = "unescape (tl sps)"
  let ?w = "rewritten ?rbsp p"
  note w = rewritten_bits [OF 1(3)]
  have bits: "bits_of (wr_bytes ?w) = take keep (bits_of ?rbsp) @ (if hasVui then [] else elems_bits vui_header) @
      elems_bits (restriction_tail refFrames) @ replicate (8 - wr_used ?w) False"
    using w by (simp add: wr_inv_def rewritten_bits_def p)
  define k where "k = keep + (if hasVui then 0 else 9)"
  have again: "sps_parse (wr_bytes ?w) = Some (refFrames, k, True)"
    using sps_parse_again [OF 1(3) [unfolded p] bits] by (simp add: k_def)
  have "keep \<le> length (bits_of ?rbsp)" using sps_parse_keep 1(3) p by blast
  then have "take k (bits_of (wr_bytes ?w)) = take keep (bits_of ?rbsp) @ (if hasVui then [] else elems_bits vui_header)"
    by (simp add: bits k_def elems_bits_header min_def)
  then have "rewritten_bits (wr_bytes ?w) (refFrames, k, True) = rewritten_bits ?rbsp p"
    by (simp add: rewritten_bits_def p)
  then have fixed: "wr_bytes (rewritten (wr_bytes ?w) (refFrames, k, True)) = wr_bytes ?w"
    using wr_canonical rewritten_bits [OF again] w by metis
  have "31 \<le> length (wr_content ?w)"
    using restriction_length [of refFrames] unfolding w(2) by (simp add: rewritten_bits_def p)
  then have "4 \<le> length (wr_bytes ?w)" using wr_bytes_bits [OF w(1)] by simp
  then have "4 \<le> length (escape (wr_bytes ?w))" using escape_length [of "wr_bytes ?w"] by simp
  then show ?thesis
    unfolding 1(4) by (subst rewrite_eq) (use 1(2) again fixed in simp)
qed

text \<open>The number of reference frames is a value the parser read, so it has a code.\<close>

lemma rd_sps_head_refs:
  assumes "run_state rd_sps_head r = (Some refFrames, s)"
  shows "refFrames \<noteq> - 1"
proof -
  have geometry: "fst (run_state rd_geometry r) \<noteq> - 1" for r
    using rd_ue_not_max [of r] by (simp add: rd_geometry_def State_Monad.bind_def case_prod_unfold)
  obtain r' where "run_state rd_geometry r' = (refFrames, s)"
    using assms by (auto simp: rd_sps_head_def State_Monad.bind_def split: prod.splits if_splits)
  with geometry [of r'] show ?thesis by simp
qed

text \<open>What a decoder finds in the rewritten set: a VUI whose bitstream restriction says that no frame is
  reordered and that one frame per reference frame, at least one, is buffered.\<close>

theorem decoder_reads_no_reorder:
  assumes "h264WithNoReorderVui sps \<noteq> []" and out: "out = unescape (tl (h264WithNoReorderVui sps))"
  shows "\<exists>refFrames keep. sps_parse out = Some (refFrames, keep, True) \<and>
    fst (run_state (gets rd_elem (map format_of (restriction_tail refFrames))) (rd_skip keep (rd_new out))) =
      [U 1 1, U 1 1, UE 2, UE 1, UE 15, UE 15, UE 0, UE (max 1 refFrames), U 1 1]"
  using assms(1)
proof (cases rule: rewrite_accepts)
  case (1 p)
  obtain refFrames keep hasVui where p: "p = (refFrames, keep, hasVui)" by (cases p)
  let ?rbsp = "unescape (tl sps)"
  note w = rewritten_bits [OF 1(3)]
  have o: "out = wr_bytes (rewritten ?rbsp p)" by (simp add: out 1(4))
  have bits: "bits_of out = take keep (bits_of ?rbsp) @ (if hasVui then [] else elems_bits vui_header) @
      elems_bits (restriction_tail refFrames) @ replicate (8 - wr_used (rewritten ?rbsp p)) False"
    using w by (simp add: o wr_inv_def rewritten_bits_def p)
  define k where "k = keep + (if hasVui then 0 else 9)"
  have parsed: "sps_parse out = Some (refFrames, k, True)"
    using sps_parse_again [OF 1(3) [unfolded p] bits] by (simp add: k_def)
  have refs: "refFrames \<noteq> - 1"
    using 1(3) [unfolded p] by (cases rule: sps_parse_run) (auto dest: rd_sps_head_refs)
  have "keep \<le> length (bits_of ?rbsp)" using sps_parse_keep 1(3) p by blast
  then have rest: "rd_rest (rd_skip k (rd_new out)) =
      elems_bits (restriction_tail refFrames) @ replicate (8 - wr_used (rewritten ?rbsp p)) False"
    by (simp add: rd_rest_def rd_new_def bits k_def elems_bits_header min_def)
  have "restriction_tail refFrames = [U 1 1, U 1 1, UE 2, UE 1, UE 15, UE 15, UE 0, UE (max 1 refFrames), U 1 1]"
    by (auto simp: restriction_tail_def max_def word_gt_0 not_le)
  moreover have "list_all readable (restriction_tail refFrames)"
    using refs by (simp add: restriction_tail_def)
  then have "fst (run_state (gets rd_elem (map format_of (restriction_tail refFrames))) (rd_skip k (rd_new out))) =
      restriction_tail refFrames"
    using stream.gets_elems [OF _ _ rest] by (fastforce simp: rd_ready_def rd_new_def)
  ultimately show ?thesis using parsed by auto
qed

end
