(* ===== verification/Parameter_Sets.thy ===== *)
theory Parameter_Sets
  imports H264_Vui "HOL-Library.While_Combinator"
begin

unbundle bit_operations_syntax

text \<open>
  \<open>native-host/src/encode/ParameterSets.h\<close>: the parameter sets and slice headers the engine writes itself
  for a driver that wants them from the application. A header is the list of its syntax elements in
  the order of the writer's calls (\<open>U\<close>, \<open>UE\<close> and \<open>SE\<close> stand for \<open>w.u\<close>, \<open>w.ue\<close> and \<open>detail::se\<close>), run on
  \<open>BitWriter\<close> by \<open>fold wr_elem\<close>. C++ \<open>int\<close> fields are integers, \<open>uint32_t\<close> ones 32-bit words.
\<close>

section \<open>The NAL unit\<close>

definition trailing :: "BitWriter \<Rightarrow> BitWriter" where
  "trailing w = while (\<lambda>w. wr_used w \<noteq> 8) (wr_u 1 0) (wr_u 1 1 w)"

definition nal :: "8 word list \<Rightarrow> BitWriter \<Rightarrow> 8 word list" where
  "nal header w = escapeInto (wr_bytes (trailing w)) ([0, 0, 0, 1] @ header)"

definition u32_of :: "int \<Rightarrow> 32 word" where
  "u32_of x = word_of_int x"

definition flag_of :: "bool \<Rightarrow> 32 word" where
  "flag_of b = (if b then 1 else 0)"

definition bt709Limited :: "Elem list" where
  "bt709Limited = [U 1 1, U 3 5, U 1 0, U 1 1, U 8 1, U 8 1, U 8 1]"

section \<open>H.264\<close>

record H264Sequence =
  profileIdc :: int
  levelIdc :: int
  widthMbs :: "32 word"
  heightMbs :: "32 word"
  cropRight :: "32 word"
  cropBottom :: "32 word"
  maxRefFrames :: "32 word"
  log2MaxFrameNum :: int
  fps :: int

definition h264Sps_chroma :: "H264Sequence \<Rightarrow> Elem list" where
  "h264Sps_chroma s = (if profileIdc s = 100 then [UE 1, UE 0, UE 0, U 1 0, U 1 0] else [])"

definition h264Sps_crop :: "H264Sequence \<Rightarrow> Elem list" where
  "h264Sps_crop s =
     (let crop = cropRight s \<noteq> 0 \<or> cropBottom s \<noteq> 0
      in [U 1 (flag_of crop)] @ (if crop then [UE 0, UE (cropRight s), UE 0, UE (cropBottom s)] else []))"

definition h264Sps_head :: "H264Sequence \<Rightarrow> Elem list" where
  "h264Sps_head s =
     [U 8 (u32_of (profileIdc s)), U 8 (if profileIdc s = 66 then 0xC0 else 0), U 8 (u32_of (levelIdc s)), UE 0] @
     h264Sps_chroma s @
     [UE (u32_of (log2MaxFrameNum s - 4))] @ [UE 2] @
     [UE (maxRefFrames s), U 1 0, UE (widthMbs s - 1), UE (heightMbs s - 1), U 1 1, U 1 1] @
     h264Sps_crop s"

definition h264Sps_vui :: "H264Sequence \<Rightarrow> Elem list" where
  "h264Sps_vui s =
     [U 1 0, U 1 0] @ bt709Limited @ [U 1 0, U 1 1] @ [U 32 1, U 32 (u32_of (fps s) * 2), U 1 0] @
     [U 1 0, U 1 0, U 1 0]"

definition h264Sps_restriction :: "H264Sequence \<Rightarrow> Elem list" where
  "h264Sps_restriction s = [U 1 1, U 1 1, UE 2, UE 1, UE 15, UE 15, UE 0, UE (maxRefFrames s)]"

definition h264Sps_elems :: "H264Sequence \<Rightarrow> Elem list" where
  "h264Sps_elems s = h264Sps_head s @ [U 1 1] @ h264Sps_vui s @ h264Sps_restriction s"

definition h264Sps :: "H264Sequence \<Rightarrow> 8 word list" where
  "h264Sps s = nal [0x67] (fold wr_elem (h264Sps_elems s) wr_new)"

definition h264Pps_elems :: "H264Sequence \<Rightarrow> Elem list" where
  "h264Pps_elems s =
     [UE 0, UE 0, U 1 (if profileIdc s = 66 then 0 else 1), U 1 0, UE 0, UE 0, UE 0, U 1 0, U 2 0,
      SE 0, SE 0, SE 0, U 1 1, U 1 0, U 1 0] @
     (if profileIdc s = 100 then [U 1 1, U 1 0, SE 0] else [])"

definition h264Pps :: "H264Sequence \<Rightarrow> 8 word list" where
  "h264Pps s = nal [0x68] (fold wr_elem (h264Pps_elems s) wr_new)"

record H264Slice =
  idr :: bool
  frameNum :: "32 word"
  idrPicId :: "32 word"
  referenceFrameNum :: "32 word"

definition frameNumMask :: "H264Sequence \<Rightarrow> 32 word" where
  "frameNumMask s = push_bit (nat (log2MaxFrameNum s)) 1 - 1"

text \<open>The reference list of a P picture: the newest picture, or a reordering that reaches further back.\<close>

definition h264_reference :: "H264Sequence \<Rightarrow> H264Slice \<Rightarrow> Elem list" where
  "h264_reference s sl =
     (let distance = (frameNum sl - referenceFrameNum sl) AND frameNumMask s;
          reorder = distance \<noteq> 1
      in [U 1 0, U 1 (flag_of reorder)] @ (if reorder then [UE 0, UE (distance - 1), UE 3] else []))"

definition h264Slice_elems :: "H264Sequence \<Rightarrow> H264Slice \<Rightarrow> Elem list" where
  "h264Slice_elems s sl =
     [UE 0, UE (if idr sl then 7 else 5), UE 0,
      U (nat (log2MaxFrameNum s)) (frameNum sl AND frameNumMask s)] @
     (if idr sl then [UE (idrPicId sl AND 0xFFFF)] else []) @
     (if \<not> idr sl then h264_reference s sl else []) @
     (if idr sl then [U 1 0, U 1 0] else [U 1 0]) @
     (if \<not> idr sl \<and> profileIdc s \<noteq> 66 then [UE 0] else []) @
     [SE 0, UE 0, SE 0, SE 0]"

definition h264SliceHeader :: "H264Sequence \<Rightarrow> H264Slice \<Rightarrow> 8 word list" where
  "h264SliceHeader s sl =
     nal [if idr sl then 0x65 else 0x41] (fold wr_elem (h264Slice_elems s sl) wr_new)"

section \<open>HEVC\<close>

record HevcSequence =
  width :: "32 word"
  height :: "32 word"
  codedWidth :: "32 word"
  codedHeight :: "32 word"
  hevc_levelIdc :: int
  maxReferences :: "32 word"
  log2MaxPocLsb :: int
  hevc_fps :: int

definition profileTierLevel :: "int \<Rightarrow> Elem list" where
  "profileTierLevel level =
     [U 2 0, U 1 0, U 5 1, U 32 0x60000000, U 1 1, U 1 0, U 1 0, U 1 1, U 32 0, U 12 0, U 8 (u32_of level)]"

definition hevcVps_elems :: "HevcSequence \<Rightarrow> Elem list" where
  "hevcVps_elems s =
     [U 4 0, U 1 1, U 1 1, U 6 0, U 3 0, U 1 1, U 16 0xFFFF] @ profileTierLevel (hevc_levelIdc s) @
     [U 1 1, UE (maxReferences s), UE 0, UE 0, U 6 0, UE 0, U 1 0, U 1 0]"

definition hevcVps :: "HevcSequence \<Rightarrow> 8 word list" where
  "hevcVps s = nal [0x40, 0x01] (fold wr_elem (hevcVps_elems s) wr_new)"

definition hevc_window :: "HevcSequence \<Rightarrow> Elem list" where
  "hevc_window s =
     (let right = (codedWidth s - width s) div 2; bottom = (codedHeight s - height s) div 2;
          window = right \<noteq> 0 \<or> bottom \<noteq> 0
      in [U 1 (flag_of window)] @ (if window then [UE 0, UE right, UE 0, UE bottom] else []))"

definition hevcSps_elems :: "HevcSequence \<Rightarrow> Elem list" where
  "hevcSps_elems s =
     [U 4 0, U 3 0, U 1 1] @ profileTierLevel (hevc_levelIdc s) @
     [UE 0, UE 1, UE (codedWidth s), UE (codedHeight s)] @ hevc_window s @
     [UE 0, UE 0, UE (u32_of (log2MaxPocLsb s - 4)), U 1 1, UE (maxReferences s), UE 0, UE 0,
      UE 0, UE 3, UE 0, UE 3, UE 2, UE 2, U 1 0, U 1 1, U 1 1, U 1 0, UE 0, U 1 0, U 1 0, U 1 1] @
     [U 1 1, U 1 0, U 1 0] @ bt709Limited @
     [U 1 0, U 1 0, U 1 0, U 1 0, U 1 0, U 1 1, U 32 1, U 32 (u32_of (hevc_fps s)), U 1 0, U 1 0,
      U 1 1, U 1 0, U 1 1, U 1 1, UE 0, UE 2, UE 1, UE 15, UE 15, U 1 0]"

definition hevcSps :: "HevcSequence \<Rightarrow> 8 word list" where
  "hevcSps s = nal [0x42, 0x01] (fold wr_elem (hevcSps_elems s) wr_new)"

definition hevcPps_elems :: "Elem list" where
  "hevcPps_elems =
     [UE 0, UE 0, U 1 0, U 1 0, U 3 0, U 1 0, U 1 0, UE 0, UE 0, SE 0, U 1 0, U 1 0, U 1 1, UE 0, SE 0, SE 0,
      U 1 0, U 1 0, U 1 0, U 1 0, U 1 0, U 1 0, U 1 0, U 1 0, U 1 0, U 1 0, UE 0, U 1 0, U 1 0]"

definition hevcPps :: "HevcSequence \<Rightarrow> 8 word list" where
  "hevcPps s = nal [0x44, 0x01] (fold wr_elem hevcPps_elems wr_new)"

record HevcSlice =
  hevc_idr :: bool
  poc :: "32 word"
  kept :: "32 word list"
  referencePoc :: "32 word"

text \<open>The short-term reference picture set: every picture kept before this one, newest first.\<close>

definition rps_before :: "HevcSlice \<Rightarrow> 32 word list" where
  "rps_before sl = rev (sort (filter (\<lambda>p. p < poc sl) (kept sl)))"

fun rps_entries :: "32 word \<Rightarrow> 32 word \<Rightarrow> 32 word list \<Rightarrow> Elem list" where
  "rps_entries previous reference [] = []"
| "rps_entries previous reference (p # ps) =
     UE (previous - p - 1) # U 1 (flag_of (p = reference)) # rps_entries p reference ps"

definition hevc_rps :: "HevcSlice \<Rightarrow> Elem list" where
  "hevc_rps sl =
     [UE (word_of_nat (length (rps_before sl))), UE 0] @
     rps_entries (poc sl) (referencePoc sl) (rps_before sl)"

definition hevcSlice_elems :: "HevcSequence \<Rightarrow> HevcSlice \<Rightarrow> Elem list" where
  "hevcSlice_elems s sl =
     [U 1 1] @ (if hevc_idr sl then [U 1 0] else []) @ [UE 0, UE (if hevc_idr sl then 2 else 1)] @
     (if \<not> hevc_idr sl
      then [U (nat (log2MaxPocLsb s)) (poc sl AND (push_bit (nat (log2MaxPocLsb s)) 1 - 1)), U 1 0] @ hevc_rps sl
      else []) @
     [U 1 1, U 1 1] @ (if \<not> hevc_idr sl then [U 1 0, UE 0] else []) @ [SE 0]"

definition hevcSliceHeader :: "HevcSequence \<Rightarrow> HevcSlice \<Rightarrow> 8 word list" where
  "hevcSliceHeader s sl =
     (let nalType = (if hevc_idr sl then 19 else 1 :: 8 word)
      in nal [push_bit 1 nalType, 0x01] (fold wr_elem (hevcSlice_elems s sl) wr_new))"

section \<open>What a NAL unit carries\<close>

lemma trailing_loop:
  assumes "wr_inv w"
  shows "wr_inv (while (\<lambda>w. wr_used w \<noteq> 8) (wr_u 1 0) w) \<and>
    wr_used (while (\<lambda>w. wr_used w \<noteq> 8) (wr_u 1 0) w) = 8 \<and>
    wr_content (while (\<lambda>w. wr_used w \<noteq> 8) (wr_u 1 0) w) = wr_content w @ replicate (8 - wr_used w) False"
  using assms
proof (induction "8 - wr_used w" arbitrary: w)
  case 0
  then have "wr_used w = 8" by (simp add: wr_inv_def)
  then show ?case using 0(2) by (simp add: while_unfold)
next
  case (Suc n)
  then have used: "wr_used w < 8" "1 \<le> wr_used w" by (simp_all add: wr_inv_def)
  have next_used: "wr_used (wr_u 1 0 w) = wr_used w + 1"
    using used by (simp add: wr_u_def wr_bit_def Let_def)
  note step = wr_u_step [OF Suc.prems, of 1 0]
  have "8 - wr_used w = Suc (8 - wr_used (wr_u 1 0 w))" using used next_used by simp
  moreover have "n = 8 - wr_used (wr_u 1 0 w)" using Suc.hyps(2) next_used by simp
  ultimately show ?case
    using Suc.hyps(1) [OF _ step(1)] used step(2) by (subst (1 2 3) while_unfold) simp
qed

lemma trailing_step:
  assumes "wr_inv w"
  shows "\<exists>z. bits_of (wr_bytes (trailing w)) = wr_content w @ True # replicate z False \<and> z < 8"
proof -
  note step = wr_u_step [OF assms, of 1 1]
  note loop = trailing_loop [OF step(1)]
  have used: "1 \<le> wr_used (wr_u 1 1 w)" using step(1) by (simp add: wr_inv_def)
  have "bits_of (wr_bytes (trailing w)) = wr_content (trailing w)"
    using loop by (simp add: trailing_def wr_inv_def)
  also have "\<dots> = wr_content w @ True # replicate (8 - wr_used (wr_u 1 1 w)) False"
    using loop step(2) by (simp add: trailing_def)
  finally show ?thesis using used by (intro exI [of _ "8 - wr_used (wr_u 1 1 w)"]) simp
qed

lemma nal_append: "nal header w = ([0, 0, 0, 1] @ header) @ escape (wr_bytes (trailing w))"
  by (simp add: nal_def escapeInto_append)

lemma nal_prefix_length: "4 + length header = length ([0, 0, 0, 1 :: 8 word] @ header)"
  by simp

lemma take_drop_length: "drop (length xs) (xs @ ys) = ys" "take (length xs) (xs @ ys) = xs"
  by simp_all

lemma nal_payload: "drop (4 + length header) (nal header w) = escape (wr_bytes (trailing w))"
  unfolding nal_append nal_prefix_length by (rule take_drop_length)

lemma nal_take: "take (4 + length header) (nal header w) = [0, 0, 0, 1] @ header"
  unfolding nal_append nal_prefix_length by (rule take_drop_length)

text \<open>The elements of a NAL unit's payload, read back from the bytes on the wire.\<close>

definition nal_read :: "nat \<Rightarrow> Format list \<Rightarrow> 8 word list \<Rightarrow> Elem list" where
  "nal_read header formats bytes = fst (run_state (gets rd_elem formats) (rd_new (unescape (drop (4 + header) bytes))))"

lemma nal_read_back:
  assumes "list_all readable es"
  shows "nal_read (length header) (map format_of es) (nal header (fold wr_elem es wr_new)) = es"
proof -
  let ?w = "fold wr_elem es wr_new"
  have inv: "wr_inv ?w" and content: "wr_content ?w = elems_bits es"
    by (simp_all add: writer.puts_sound writer.puts_content)
  obtain z where "bits_of (wr_bytes (trailing ?w)) = elems_bits es @ True # replicate z False"
    using trailing_step [OF inv] content by auto
  then have "rd_rest (rd_new (wr_bytes (trailing ?w))) = elems_bits es @ True # replicate z False"
    by (simp add: rd_rest_def rd_new_def)
  then show ?thesis
    using stream.gets_elems [OF _ assms, of "rd_new (wr_bytes (trailing ?w))" "True # replicate z False"]
    by (auto simp: nal_read_def nal_payload rd_ready_def rd_new_def)
qed

lemma start_code_free_escape [simp]: "start_code_free (escape bs)"
  by (simp add: escape_def clear_of_zeros_free escape_loop_clear)

section \<open>The sets of a sequence\<close>

text \<open>The sequences the encoders describe: a profile a browser decodes and sizes that have a code.\<close>

definition h264_ok :: "H264Sequence \<Rightarrow> bool" where
  "h264_ok s \<longleftrightarrow> profileIdc s \<in> {66, 77, 100} \<and> 0 \<le> levelIdc s \<and> levelIdc s < 256 \<and>
     4 \<le> log2MaxFrameNum s \<and> log2MaxFrameNum s \<le> 16 \<and> widthMbs s \<noteq> 0 \<and> heightMbs s \<noteq> 0 \<and>
     cropRight s \<noteq> - 1 \<and> cropBottom s \<noteq> - 1 \<and> 1 \<le> maxRefFrames s \<and> maxRefFrames s \<le> 16"

definition hevc_ok :: "HevcSequence \<Rightarrow> bool" where
  "hevc_ok s \<longleftrightarrow> width s \<le> codedWidth s \<and> height s \<le> codedHeight s \<and>
     codedWidth s \<noteq> - 1 \<and> codedHeight s \<noteq> - 1 \<and> 0 \<le> hevc_levelIdc s \<and> hevc_levelIdc s < 256 \<and>
     4 \<le> log2MaxPocLsb s \<and> log2MaxPocLsb s \<le> 16 \<and> maxReferences s \<le> 16"

lemma uint_u32_of: "0 \<le> x \<Longrightarrow> x < 2 ^ 32 \<Longrightarrow> uint (u32_of x) = x"
  unfolding u32_of_def by (simp only: uint_word_of_int) simp

lemma u32_of_8: "0 \<le> x \<Longrightarrow> x < 256 \<Longrightarrow> take_bit 8 (u32_of x) = u32_of x"
  by (simp only: word_uint_eq_iff unsigned_take_bit_eq uint_u32_of) (simp add: uint_u32_of take_bit_int_eq_self)

lemma flag_of_fits [simp]: "take_bit 1 (flag_of b) = flag_of b" "take_bit (Suc 0) (flag_of b) = flag_of b"
  "flag_of b mod 2 = flag_of b"
  by (simp_all add: flag_of_def)

lemma uint_max: "uint (- 1 :: 32 word) = 4294967295"
  by (simp add: unsigned_minus_1_eq_mask mask_eq_exp_minus_1)

lemma small_not_max: "x \<le> 16 \<Longrightarrow> x \<noteq> (- 1 :: 32 word)"
  by (auto simp: word_le_def uint_max)

lemma u32_of_small: "4 \<le> x \<Longrightarrow> x \<le> 16 \<Longrightarrow> u32_of (x - 4) \<noteq> - 1"
  using uint_u32_of [of "x - 4"] uint_max by auto

lemma minus_one_not_max: "(x :: 32 word) \<noteq> 0 \<Longrightarrow> x - 1 \<noteq> - 1"
  by simp

lemma take_bit_32 [simp]: "take_bit 32 (x :: 32 word) = x"
  using take_bit_length_eq [of x] by simp

lemma h264Sps_readable: "h264_ok s \<Longrightarrow> list_all readable (h264Sps_elems s)"
  by (auto simp: h264_ok_def h264Sps_elems_def h264Sps_head_def h264Sps_chroma_def h264Sps_crop_def
      h264Sps_vui_def h264Sps_restriction_def bt709Limited_def Let_def u32_of_8 u32_of_small small_not_max)

lemma h264Pps_readable: "list_all readable (h264Pps_elems s)"
  by (simp add: h264Pps_elems_def)

lemma hevcVps_readable: "hevc_ok s \<Longrightarrow> list_all readable (hevcVps_elems s)"
  by (simp add: hevc_ok_def hevcVps_elems_def profileTierLevel_def u32_of_8 small_not_max)

lemma half_not_max: "(x :: 32 word) div 2 \<noteq> - 1"
proof -
  have "uint x < 2 ^ LENGTH(32)" by (rule unsigned_less)
  then have "uint x div 2 \<noteq> 4294967295" by simp
  then show ?thesis by (simp add: word_uint_eq_iff uint_div uint_max)
qed

lemma hevcSps_readable: "hevc_ok s \<Longrightarrow> list_all readable (hevcSps_elems s)"
  by (auto simp: hevc_ok_def hevcSps_elems_def profileTierLevel_def hevc_window_def bt709Limited_def Let_def
      u32_of_8 u32_of_small small_not_max half_not_max)

lemma hevcPps_readable: "list_all readable hevcPps_elems"
  by (simp add: hevcPps_elems_def)

section \<open>Slice headers\<close>

lemma low_mask: "push_bit n 1 - 1 = (mask n :: 32 word)"
  by (simp add: mask_eq_exp_minus_1 push_bit_of_1)

lemma AND_low_mask [simp]: "x AND (push_bit n 1 - 1) = take_bit n (x :: 32 word)"
  by (simp only: low_mask take_bit_eq_mask)

lemma AND_low_power [simp]: "x AND (2 ^ n - 1) = take_bit n (x :: 32 word)"
  using AND_low_mask [of x n] by (simp add: push_bit_of_1)

lemma frameNumMask_AND [simp]: "x AND frameNumMask s = take_bit (nat (log2MaxFrameNum s)) x"
  by (simp only: frameNumMask_def AND_low_mask)

lemma word_take_bit_diff:
  assumes "n \<le> 32"
  shows "take_bit n (take_bit n a - take_bit n b) = take_bit n (a - b :: 32 word)"
proof -
  have "uint (a - b) = take_bit 32 (uint a - uint b)" for a b :: "32 word"
    by (simp add: uint_word_ariths take_bit_eq_mod)
  then show ?thesis
    using assms by (simp only: word_uint_eq_iff unsigned_take_bit_eq take_bit_take_bit take_bit_diff min_absorb1)
qed

text \<open>The decoder's side of a P slice: the frame number of the picture its header predicts from.\<close>

fun decoder_reference :: "32 word \<Rightarrow> Elem list \<Rightarrow> 32 word" where
  "decoder_reference m (UE first # UE type # UE pps # U n num # U a over # U b reorder # es) =
     (if reorder = 0 then (num - 1) AND m
      else case es of UE op # UE diff # _ \<Rightarrow> (num - (diff + 1)) AND m | _ \<Rightarrow> 0)"
| "decoder_reference m es = 0"

lemma take_bit_not_max: "n \<le> 16 \<Longrightarrow> take_bit n x \<noteq> (- 1 :: 32 word)"
proof
  assume n: "n \<le> 16" and "take_bit n x = - 1"
  then have "bit (take_bit n x) 31" by simp
  with n show False by (simp add: bit_take_bit_iff)
qed

lemma h264Slice_readable:
  assumes "4 \<le> log2MaxFrameNum s" "log2MaxFrameNum s \<le> 16"
    and "\<not> idr sl \<Longrightarrow> take_bit (nat (log2MaxFrameNum s)) (frameNum sl - referenceFrameNum sl) \<noteq> 0"
  shows "list_all readable (h264Slice_elems s sl)"
proof -
  have "idrPicId sl AND 0xFFFF = take_bit 16 (idrPicId sl)"
    by (simp add: take_bit_eq_mask mask_eq_exp_minus_1)
  then show ?thesis
    using assms by (auto simp: h264Slice_elems_def h264_reference_def Let_def take_bit_not_max)
qed

lemma rps_entries_readable:
  "distinct (previous # ps) \<Longrightarrow> list_all readable (rps_entries previous reference ps)"
  by (induction ps arbitrary: previous) auto

lemma rps_before_set: "set (rps_before sl) = {p \<in> set (kept sl). p < poc sl}"
  by (auto simp: rps_before_def)

lemma rps_before_distinct: "distinct (kept sl) \<Longrightarrow> distinct (poc sl # rps_before sl)"
  by (auto simp: rps_before_def)

lemma rps_before_sorted: "sorted (rev (rps_before sl))"
  by (simp add: rps_before_def)

lemma rps_before_length: "length (rps_before sl) \<le> length (kept sl)"
  by (simp add: rps_before_def)

lemma count_fits: "n < 2 ^ 32 - 1 \<Longrightarrow> unat (word_of_nat n :: 32 word) = n"
  by (simp add: unat_of_nat take_bit_eq_mod)

lemma hevcSlice_readable:
  assumes "4 \<le> log2MaxPocLsb s" "log2MaxPocLsb s \<le> 16" "distinct (kept sl)" "length (kept sl) < 2 ^ 32 - 1"
  shows "list_all readable (hevcSlice_elems s sl)"
proof -
  have "length (rps_before sl) < 2 ^ 32 - 1" using rps_before_length [of sl] assms(4) by simp
  then have "unat (word_of_nat (length (rps_before sl)) :: 32 word) = length (rps_before sl)" by (rule count_fits)
  then have "(word_of_nat (length (rps_before sl)) :: 32 word) \<noteq> - 1"
    using \<open>length (rps_before sl) < 2 ^ 32 - 1\<close>
    by (auto simp: word_unat_eq_iff unsigned_minus_1_eq_mask mask_eq_exp_minus_1)
  then show ?thesis
    using rps_entries_readable [OF rps_before_distinct [OF assms(3)]]
    by (simp add: hevcSlice_elems_def hevc_rps_def)
qed

section \<open>Our own sequence parameter set under the rewriting\<close>

text \<open>A program that reads exactly these bits, with this result, wherever they stand.\<close>

definition reads :: "(BitReader, 'a) state \<Rightarrow> bool list \<Rightarrow> 'a \<Rightarrow> bool" where
  "reads m bs x \<longleftrightarrow> (\<forall>r rest. \<not> rd_overrun r \<longrightarrow> rd_rest r = bs @ rest \<longrightarrow>
     run_state m r = (x, rd_skip (length bs) r))"

lemma reads_return: "reads (State_Monad.return x) (elems_bits []) x"
  by (simp add: reads_def elems_bits_def)

lemma reads_append:
  assumes "reads m bs x" "reads (f x) cs y"
  shows "reads (m \<bind> f) (bs @ cs) y"
  using assms by (auto simp: reads_def State_Monad.bind_def)

lemma elems_bits_simps: "elems_bits (e # es) = elem_bits e @ elems_bits es" "elems_bits (es @ fs) = elems_bits es @ elems_bits fs"
  by (simp_all add: elems_bits_def)

lemma reads_elem: "reads m (elem_bits e) x \<Longrightarrow> reads (f x) (elems_bits es) y \<Longrightarrow> reads (m \<bind> f) (elems_bits (e # es)) y"
  by (simp add: elems_bits_simps reads_append)

lemma reads_elems:
  "reads m (elems_bits es) x \<Longrightarrow> reads (f x) (elems_bits fs) y \<Longrightarrow> reads (m \<bind> f) (elems_bits (es @ fs)) y"
  by (simp add: elems_bits_simps reads_append)

lemma reads_none: "reads m (elems_bits []) x \<Longrightarrow> reads (f x) (elems_bits fs) y \<Longrightarrow> reads (m \<bind> f) (elems_bits fs) y"
  using reads_elems [of m "[]"] by simp

lemma reads_u: "reads (rd_u (length bs)) bs (of_be bs)"
  by (simp add: reads_def rd_u_rest)

lemma reads_U: "reads (rd_u n) (elem_bits (U n v)) (take_bit n v)"
  using reads_u [of "be_bits n v"] by (simp add: of_be_bits)

lemma reads_UE: "v \<noteq> - 1 \<Longrightarrow> reads rd_ue (elem_bits (UE v)) v"
  by (auto simp: reads_def rd_ue_rest)

lemma reads_flag: "reads rd_flag (elem_bits (U 1 v)) (bit v 0)"
  by (auto simp: reads_def dest: rd_flag_rest)

lemma reads_drop: "reads m bs x \<Longrightarrow> reads (rd_drop m) bs ()"
  by (auto simp: reads_def rd_drop_def State_Monad.bind_def)

lemma reads_when: "c \<Longrightarrow> reads m (elems_bits es) () \<Longrightarrow> reads (rd_when c m) (elems_bits es) ()"
  "\<not> c \<Longrightarrow> reads (rd_when c m) (elems_bits []) ()"
  by (simp_all add: rd_when_def reads_return)

lemma reads_chroma: "reads rd_chroma (elems_bits [UE 1, UE 0, UE 0, U 1 0, U 1 0]) ()"
proof -
  have "reads (rd_when (bit (0 :: 32 word) 0) m) (elems_bits []) ()" for m
    by (rule reads_when) simp
  then show ?thesis
    unfolding rd_chroma_def
    by (intro reads_elem [OF reads_UE] reads_none [OF reads_when(2)] reads_elem [OF reads_drop [OF reads_UE]]
        reads_elem [OF reads_drop [OF reads_U]] reads_elem [OF reads_flag]) simp_all
qed

lemma reads_poc: "reads rd_poc (elems_bits [UE 2]) True"
  unfolding rd_poc_def by (intro reads_elem [OF reads_UE]) (simp_all add: reads_return)

lemma reads_last: "reads m (elems_bits es) x \<Longrightarrow> reads (f x) (elems_bits []) y \<Longrightarrow> reads (m \<bind> f) (elems_bits es) y"
  using reads_elems [of m es x f "[]" y] by simp

lemma reads_final: "reads m (elem_bits e) x \<Longrightarrow> reads m (elems_bits [e]) x"
  by (simp add: elems_bits_def)

lemma reads_drop_UE: "v \<noteq> - 1 \<Longrightarrow> reads (rd_drop rd_ue) (elem_bits (UE v)) ()"
  by (rule reads_drop [OF reads_UE])

lemma reads_drop_U: "reads (rd_drop (rd_u n)) (elem_bits (U n v)) ()"
  by (rule reads_drop [OF reads_U])

lemma flag_of_bit [simp]: "bit (flag_of b) 0 = b"
  by (simp add: flag_of_def)

lemma reads_geometry:
  assumes "h264_ok s"
  shows "reads rd_geometry
    (elems_bits ([UE (maxRefFrames s), U 1 0, UE (widthMbs s - 1), UE (heightMbs s - 1), U 1 1, U 1 1] @ h264Sps_crop s))
    (maxRefFrames s)"
proof -
  let ?crop = "cropRight s \<noteq> 0 \<or> cropBottom s \<noteq> 0"
  have ok: "maxRefFrames s \<noteq> - 1" "widthMbs s - 1 \<noteq> - 1" "heightMbs s - 1 \<noteq> - 1" "cropRight s \<noteq> - 1" "cropBottom s \<noteq> - 1"
    using assms by (auto simp: h264_ok_def small_not_max)
  have crop: "reads (rd_when (bit (flag_of ?crop) 0)
      (do { rd_drop rd_ue; rd_drop rd_ue; rd_drop rd_ue; rd_drop rd_ue }))
      (elems_bits (if ?crop then [UE 0, UE (cropRight s), UE 0, UE (cropBottom s)] else [])) ()"
  proof (cases ?crop)
    case True
    then show ?thesis
      by (simp only: if_True) (rule reads_when, simp,
          intro reads_elem [OF reads_drop_UE] reads_final [OF reads_drop_UE]; simp add: ok)
  next
    case False
    then show ?thesis by (simp only: if_False) (rule reads_when, simp)
  qed
  have only: "reads (rd_when (\<not> bit (1 :: 32 word) 0) m) (elems_bits []) ()" for m by (rule reads_when) simp
  show ?thesis
    unfolding rd_geometry_def h264Sps_crop_def Let_def append_Cons append_Nil
    by (intro reads_elem [OF reads_UE] reads_elem [OF reads_drop_U] reads_elem [OF reads_drop_UE]
        reads_elem [OF reads_flag] reads_none [OF only] reads_last [OF crop] reads_return; rule ok)
qed

lemma h264_profile:
  assumes "h264_ok s"
  shows "take_bit 8 (u32_of (profileIdc s)) \<in> set chroma_profiles \<longleftrightarrow> profileIdc s = 100"
  using assms by (auto simp: h264_ok_def u32_of_def chroma_profiles_def)

lemma reads_head:
  assumes "h264_ok s"
  shows "reads rd_sps_head (elems_bits (h264Sps_head s)) (Some (maxRefFrames s))"
proof -
  have chroma: "reads (rd_when (take_bit 8 (u32_of (profileIdc s)) \<in> set chroma_profiles) rd_chroma)
      (elems_bits (h264Sps_chroma s)) ()"
  proof (cases "profileIdc s = 100")
    case True
    then show ?thesis
      using reads_when(1) [OF _ reads_chroma] h264_profile [OF assms] by (simp add: h264Sps_chroma_def)
  next
    case False
    then show ?thesis
      using reads_when(2) h264_profile [OF assms] by (simp add: h264Sps_chroma_def)
  qed
  have log2: "u32_of (log2MaxFrameNum s - 4) \<noteq> - 1" using assms by (simp add: h264_ok_def u32_of_small)
  have rest: "reads (if \<not> True then State_Monad.return None
      else do { refFrames \<leftarrow> rd_geometry; State_Monad.return (Some refFrames) })
      (elems_bits ([UE (maxRefFrames s), U 1 0, UE (widthMbs s - 1), UE (heightMbs s - 1), U 1 1, U 1 1] @ h264Sps_crop s))
      (Some (maxRefFrames s))"
    by (simp only: if_False not_True_eq_False) (rule reads_last [OF reads_geometry [OF assms] reads_return])
  have list: "h264Sps_head s =
      U 8 (u32_of (profileIdc s)) # U 8 (if profileIdc s = 66 then 0xC0 else 0) # U 8 (u32_of (levelIdc s)) # UE 0 #
      (h264Sps_chroma s @ UE (u32_of (log2MaxFrameNum s - 4)) # ([UE 2] @
       ([UE (maxRefFrames s), U 1 0, UE (widthMbs s - 1), UE (heightMbs s - 1), U 1 1, U 1 1] @ h264Sps_crop s)))"
    by (simp add: h264Sps_head_def)
  show ?thesis
    unfolding rd_sps_head_def list
    by (rule reads_elem [OF reads_U], rule reads_elem [OF reads_drop_U], rule reads_elem [OF reads_drop_U],
        rule reads_elem [OF reads_drop_UE], simp, rule reads_elems [OF chroma],
        rule reads_elem [OF reads_drop_UE [OF log2]], rule reads_elems [OF reads_poc], rule rest)
qed

lemma reads_drop_us:
  assumes "length (elems_bits es) = n"
  shows "reads (rd_drop (rd_u n)) (elems_bits es) ()"
  using reads_drop [OF reads_u [of "elems_bits es"]] assms by simp

lemma reads_vui: "reads rd_vui (elems_bits (h264Sps_vui s)) ()"
proof -
  have set: "bit (1 :: 32 word) 0" "\<not> bit (0 :: 32 word) 0" by simp_all
  have no: "reads (rd_when (bit (0 :: 32 word) 0) m) (elems_bits []) ()" for m by (rule reads_when) simp
  have low: "reads (rd_when (bit (0 :: 32 word) 0 \<or> bit (0 :: 32 word) 0) m) (elems_bits []) ()" for m
    by (rule reads_when) simp
  have colour: "reads (rd_when (bit (1 :: 32 word) 0) (rd_drop (rd_u 24))) (elems_bits [U 8 1, U 8 1, U 8 1]) ()"
    by (rule reads_when(1) [OF set(1)], rule reads_drop_us) (simp add: elems_bits_def)
  have signal_body: "reads (do { rd_drop (rd_u 4); colour \<leftarrow> rd_flag; rd_when colour (rd_drop (rd_u 24)) })
      (elems_bits ([U 3 5, U 1 0] @ U 1 1 # [U 8 1, U 8 1, U 8 1])) ()"
    by (rule reads_elems [OF reads_drop_us], simp add: elems_bits_def, rule reads_elem [OF reads_flag], rule colour)
  have signal: "reads (rd_when (bit (1 :: 32 word) 0)
      (do { rd_drop (rd_u 4); colour \<leftarrow> rd_flag; rd_when colour (rd_drop (rd_u 24)) }))
      (elems_bits [U 3 5, U 1 0, U 1 1, U 8 1, U 8 1, U 8 1]) ()"
    using reads_when(1) [OF set(1) signal_body] by simp
  have timing: "reads (rd_when (bit (1 :: 32 word) 0) (rd_drop (rd_u 65)))
      (elems_bits [U 32 1, U 32 (u32_of (fps s) * 2), U 1 0]) ()"
    by (rule reads_when(1) [OF set(1)], rule reads_drop_us) (simp add: elems_bits_def)
  have list: "h264Sps_vui s =
      U 1 0 # U 1 0 # U 1 1 # [U 3 5, U 1 0, U 1 1, U 8 1, U 8 1, U 8 1] @ U 1 0 # U 1 1 #
      [U 32 1, U 32 (u32_of (fps s) * 2), U 1 0] @ U 1 0 # U 1 0 # [U 1 0]"
    by (simp add: h264Sps_vui_def bt709Limited_def)
  show ?thesis
    unfolding rd_vui_def list
    by (rule reads_elem [OF reads_flag] reads_none [OF no] reads_none [OF low] reads_elems [OF signal] reads_elems [OF timing]
        reads_final [OF reads_drop_U])+
qed

lemma rd_rest_Cons: "rd_rest r = b # bs \<Longrightarrow> rd_rest (rd_skip 1 r) = bs"
  by (simp only: rd_skip_simps(6)) simp

text \<open>The parser finds our own set: its reference frames, and a VUI that ends at the restriction.\<close>

lemma own_sps_parse:
  assumes ok: "h264_ok s" and bits: "bits_of rbsp = elems_bits (h264Sps_elems s) @ rest"
  shows "sps_parse rbsp = Some (maxRefFrames s, length (elems_bits (h264Sps_head s @ [U 1 1] @ h264Sps_vui s)), True)"
proof -
  let ?head = "elems_bits (h264Sps_head s)" and ?vui = "elems_bits (h264Sps_vui s)"
  let ?r = "rd_new rbsp"
  have all: "rd_rest ?r = ?head @ True # ?vui @ elems_bits (h264Sps_restriction s) @ rest"
    by (simp add: rd_rest_def rd_new_def bits h264Sps_elems_def elems_bits_simps)
  have head: "run_state rd_sps_head ?r = (Some (maxRefFrames s), rd_skip (length ?head) ?r)"
    using reads_head [OF ok] all by (simp add: reads_def rd_new_def)
  let ?r1 = "rd_skip (length ?head) ?r"
  have rest1: "rd_rest ?r1 = True # ?vui @ elems_bits (h264Sps_restriction s) @ rest" by (simp add: all)
  then have flag: "run_state rd_flag ?r1 = (True, rd_skip 1 ?r1)" by (rule rd_flag_rest)
  have "rd_rest (rd_skip 1 ?r1) = ?vui @ elems_bits (h264Sps_restriction s) @ rest" by (rule rd_rest_Cons [OF rest1])
  then have vui: "run_state rd_vui (rd_skip 1 ?r1) = ((), rd_skip (length ?vui) (rd_skip 1 ?r1))"
    using reads_vui [of s] by (simp add: reads_def rd_new_def)
  have one: "elems_bits (h264Sps_head s @ [U 1 1] @ h264Sps_vui s) = ?head @ True # ?vui"
    by (simp add: elems_bits_simps)
  show ?thesis
    unfolding sps_parse_def one using head flag vui by (simp add: rd_new_def)
qed

lemma trailing_bytes:
  assumes "wr_inv w"
  shows "wr_bytes (trailing w) = wr_bytes (wr_u 1 1 w)"
proof (rule bits_of_inj)
  note step = wr_u_step [OF assms, of 1 1]
  show "bits_of (wr_bytes (trailing w)) = bits_of (wr_bytes (wr_u 1 1 w))"
    using trailing_loop [OF step(1)] step(1) by (simp add: trailing_def wr_inv_def)
qed

lemma own_sps_fixed:
  assumes ok: "h264_ok s"
  shows "h264WithNoReorderVui (drop 4 (h264Sps s)) = drop 4 (h264Sps s)"
proof -
  let ?w = "fold wr_elem (h264Sps_elems s) wr_new"
  define rbsp where "rbsp = wr_bytes (trailing ?w)"
  have inv: "wr_inv ?w" "wr_content ?w = elems_bits (h264Sps_elems s)"
    by (simp_all add: writer.puts_sound writer.puts_content)
  obtain z where bits: "bits_of rbsp = elems_bits (h264Sps_elems s) @ True # replicate z False" "z < 8"
    using trailing_step [OF inv(1)] inv(2) by (auto simp: rbsp_def)
  have sps: "drop 4 (h264Sps s) = 0x67 # escape rbsp" by (simp add: h264Sps_def nal_append rbsp_def)
  define keep where "keep = length (elems_bits (h264Sps_head s @ [U 1 1] @ h264Sps_vui s))"
  let ?p = "(maxRefFrames s, keep, True)"
  have parsed: "sps_parse rbsp = Some ?p" using own_sps_parse [OF ok bits(1)] by (simp only: keep_def)
  note w = rewritten_bits [OF parsed]
  have "1 \<le> maxRefFrames s" using ok by (simp add: h264_ok_def)
  then have "(if maxRefFrames s > 0 then maxRefFrames s else 1) = maxRefFrames s" by (auto simp: word_gt_0)
  then have tail: "elems_bits (restriction_tail (maxRefFrames s)) = elems_bits (h264Sps_restriction s) @ [True]"
    unfolding restriction_tail_def h264Sps_restriction_def by (simp only: elems_bits_simps) (simp add: elems_bits_def)
  have content: "rewritten_bits rbsp ?p = elems_bits (h264Sps_elems s) @ [True]"
    by (simp add: rewritten_bits_def bits(1) tail h264Sps_elems_def elems_bits_simps keep_def)
  have "wr_content (rewritten rbsp ?p) = wr_content (wr_u 1 1 ?w)"
    using w(2) content wr_u_step(2) [OF inv(1), of 1 1] by (simp add: inv(2))
  then have same: "wr_bytes (rewritten rbsp ?p) = rbsp"
    using wr_canonical [OF w(1) wr_u_step(1) [OF inv(1)]] trailing_bytes [OF inv(1)] by (simp add: rbsp_def)
  have "31 \<le> length (wr_content (rewritten rbsp ?p))"
    using restriction_length [of "maxRefFrames s"] unfolding w(2) by (simp add: rewritten_bits_def)
  then have "31 \<le> length (wr_bytes (rewritten rbsp ?p)) * 8" using wr_bytes_bits [OF w(1)] by (rule order_trans)
  then have "4 \<le> length rbsp" unfolding same by simp
  then have "4 \<le> length (escape rbsp)" using escape_length [of rbsp] by simp
  then show ?thesis
    unfolding sps by (subst rewrite_eq) (simp add: parsed same)
qed

section \<open>Properties\<close>

text \<open>A parameter set says what it was asked to say: the H.264 sequence and picture sets and the three HEVC
  ones are a start code, the NAL header, and a payload free of start codes whose elements, read back from the
  bytes, are the ones written.\<close>

theorem parameter_sets_read_back:
  assumes "h264_ok s" "hevc_ok h"
  shows "nal_read 1 (map format_of (h264Sps_elems s)) (h264Sps s) = h264Sps_elems s \<and>
    nal_read 1 (map format_of (h264Pps_elems s)) (h264Pps s) = h264Pps_elems s \<and>
    nal_read 2 (map format_of (hevcVps_elems h)) (hevcVps h) = hevcVps_elems h \<and>
    nal_read 2 (map format_of (hevcSps_elems h)) (hevcSps h) = hevcSps_elems h \<and>
    nal_read 2 (map format_of hevcPps_elems) (hevcPps h) = hevcPps_elems"
  using nal_read_back [OF h264Sps_readable [OF assms(1)], of "[0x67]"]
    nal_read_back [OF h264Pps_readable, of "[0x68]" s]
    nal_read_back [OF hevcVps_readable [OF assms(2)], of "[0x40, 0x01]"]
    nal_read_back [OF hevcSps_readable [OF assms(2)], of "[0x42, 0x01]"]
    nal_read_back [OF hevcPps_readable, of "[0x44, 0x01]"]
  by (simp add: h264Sps_def h264Pps_def hevcVps_def hevcSps_def hevcPps_def numeral_2_eq_2)

text \<open>A P slice names the picture it predicts from: a decoder that reads the header back finds the
  reference's frame number, whether it is the previous picture or one a repair reached back to.\<close>

theorem h264_slice_reference:
  assumes "4 \<le> log2MaxFrameNum s" "log2MaxFrameNum s \<le> 16" "\<not> idr sl"
    and other: "(frameNum sl - referenceFrameNum sl) AND frameNumMask s \<noteq> 0"
  shows "decoder_reference (frameNumMask s) (nal_read 1 (map format_of (h264Slice_elems s sl)) (h264SliceHeader s sl)) =
    referenceFrameNum sl AND frameNumMask s"
proof -
  let ?n = "nat (log2MaxFrameNum s)"
  have "list_all readable (h264Slice_elems s sl)"
    using assms by (intro h264Slice_readable) simp_all
  then have read: "nal_read 1 (map format_of (h264Slice_elems s sl)) (h264SliceHeader s sl) = h264Slice_elems s sl"
    using nal_read_back [of "h264Slice_elems s sl" "[0x41]"] assms(3) by (simp add: h264SliceHeader_def)
  let ?d = "take_bit ?n (frameNum sl - referenceFrameNum sl)"
  have reached: "take_bit ?n (take_bit ?n (frameNum sl) - ?d) = take_bit ?n (referenceFrameNum sl)"
    using word_take_bit_diff [of ?n "frameNum sl" "frameNum sl - referenceFrameNum sl"] assms(2) by simp
  have one: "?d = 1 \<Longrightarrow> take_bit ?n (take_bit ?n (frameNum sl) - 1) = take_bit ?n (referenceFrameNum sl)"
    using reached by simp
  show ?thesis
    unfolding read using assms(3) reached one
    by (auto simp: h264Slice_elems_def h264_reference_def Let_def flag_of_def)
qed

text \<open>A decoder's side of an HEVC slice, by the syntax of the slice header under the sequence and picture sets above (no
  reference picture set in the sequence set, one parameter set, no long-term pictures, no extension, no tiles). It reads the NAL unit
  bit by bit and refuses anything else: another NAL unit, another type of slice, another order count than the
  picture's, a set named from the sequence set, more pictures than the sequence announces, an overridden count, or anything after the
  header but the one and the zeros that fill its last byte. Its answer is the pictures before this one and those after it, as the
  header lists them, each with whether the slice predicts from it.\<close>

fun rd_pictures :: "nat \<Rightarrow> (32 word \<Rightarrow> 32 word \<Rightarrow> 32 word) \<Rightarrow> 32 word \<Rightarrow> (BitReader, (32 word \<times> bool) list) state" where
  "rd_pictures 0 step previous = State_Monad.return []"
| "rd_pictures (Suc k) step previous =
     do {
       d \<leftarrow> rd_ue;
       used \<leftarrow> rd_flag;
       rest \<leftarrow> rd_pictures k step (step previous (d + 1));
       State_Monad.return ((step previous (d + 1), used) # rest)
     }"

definition rd_slice :: "HevcSequence \<Rightarrow> 32 word \<Rightarrow> (BitReader, ((32 word \<times> bool) list \<times> (32 word \<times> bool) list) option) state" where
  "rd_slice s number =
     do {
       first \<leftarrow> rd_flag;
       pps \<leftarrow> rd_ue;
       type \<leftarrow> rd_ue;
       lsb \<leftarrow> rd_u (nat (log2MaxPocLsb s));
       from_sps \<leftarrow> rd_flag;
       negative \<leftarrow> rd_ue;
       positive \<leftarrow> rd_ue;
       (if \<not> first \<or> pps \<noteq> 0 \<or> type \<noteq> 1 \<or> lsb \<noteq> take_bit (nat (log2MaxPocLsb s)) number \<or> from_sps \<or>
           negative > maxReferences s \<or> positive > maxReferences s - negative
        then State_Monad.return None
        else do {
          before \<leftarrow> rd_pictures (unat negative) (-) number;
          later \<leftarrow> rd_pictures (unat positive) (+) number;
          saoLuma \<leftarrow> rd_flag;
          saoChroma \<leftarrow> rd_flag;
          override \<leftarrow> rd_flag;
          merge \<leftarrow> rd_ue;
          qp \<leftarrow> rd_se;
          State_Monad.return (if override \<or> merge > 4 then None else Some (before, later))
        })
     }"

text \<open>What may follow the header: the bits that fill the byte.\<close>

definition fills_byte :: "bool list \<Rightarrow> bool" where
  "fills_byte bs \<longleftrightarrow> (case bs of [] \<Rightarrow> False | b # bs \<Rightarrow> b \<and> list_all Not bs \<and> length bs < 8)"

definition decoder_slice :: "HevcSequence \<Rightarrow> 32 word \<Rightarrow> 8 word list \<Rightarrow> ((32 word \<times> bool) list \<times> (32 word \<times> bool) list) option" where
  "decoder_slice s number bytes =
     (if take 6 bytes \<noteq> [0, 0, 0, 1, 2, 1] then None
      else case run_state (rd_slice s number) (rd_new (unescape (drop 6 bytes))) of
             (found, r) \<Rightarrow> if rd_overrun r \<or> \<not> fills_byte (rd_rest r) then None else found)"

lemma reads_SE: "\<bar>v\<bar> < 2 ^ 30 \<Longrightarrow> reads rd_se (elem_bits (SE v)) v"
  by (auto simp: reads_def dest: rd_se_rest)

lemma reads_done: "reads (State_Monad.return x) [] x"
  by (simp add: reads_def)

lemma reads_pictures:
  "distinct (previous # ps) \<Longrightarrow>
    reads (rd_pictures (length ps) (-) previous) (elems_bits (rps_entries previous reference ps)) (map (\<lambda>p. (p, p = reference)) ps)"
proof (induction ps arbitrary: previous)
  case Nil
  then show ?case by (simp add: elems_bits_def reads_done)
next
  case (Cons p ps)
  let ?d = "previous - p - 1"
  have again: "previous - (?d + 1) = p" by simp
  have "?d \<noteq> - 1" using Cons.prems by auto
  moreover have "reads (rd_pictures (length ps) (-) p) (elems_bits (rps_entries p reference ps)) (map (\<lambda>p. (p, p = reference)) ps)"
    by (rule Cons.IH) (use Cons.prems in simp)
  ultimately show ?case
    unfolding list.size rps_entries.simps list.map add_Suc_right add_0_right rd_pictures.simps
    by (intro reads_elem [OF reads_UE] reads_elem [OF reads_flag] reads_last) (simp_all, simp add: reads_def elems_bits_def)
qed

lemma slice_read:
  assumes "hevc_ok s" "\<not> hevc_idr sl" "distinct (kept sl)" "length (kept sl) \<le> unat (maxReferences s)"
  shows "reads (rd_slice s (poc sl)) (elems_bits (hevcSlice_elems s sl)) (Some (map (\<lambda>p. (p, p = referencePoc sl)) (rps_before sl), []))"
proof -
  let ?n = "nat (log2MaxPocLsb s)" and ?ps = "rps_before sl"
  let ?k = "word_of_nat (length ?ps) :: 32 word"
  have few: "length ?ps \<le> unat (maxReferences s)" using rps_before_length [of sl] assms(4) by simp
  have most: "unat (maxReferences s) \<le> 16" using assms(1) by (simp add: hevc_ok_def word_le_nat_alt)
  have n: "unat ?k = length ?ps" by (rule count_fits) (use few most in simp)
  then have k: "?k \<le> maxReferences s" "?k \<noteq> - 1"
    using few most by (auto simp: word_le_nat_alt word_unat_eq_iff unsigned_minus_1_eq_mask mask_eq_exp_minus_1)
  have list: "hevcSlice_elems s sl = U 1 1 # UE 0 # UE 1 # U ?n (poc sl AND (push_bit ?n 1 - 1)) # U 1 0 # UE ?k # UE 0 #
      rps_entries (poc sl) (referencePoc sl) ?ps @ U 1 1 # U 1 1 # U 1 0 # UE 0 # [SE 0]"
    using assms(2) by (simp add: hevcSlice_elems_def hevc_rps_def)
  have b: "bit (1 :: 32 word) 0" "\<not> bit (0 :: 32 word) 0" by simp_all
  have ok: "(\<not> bit (1 :: 32 word) 0 \<or> (0 :: 32 word) \<noteq> 0 \<or> (1 :: 32 word) \<noteq> 1 \<or>
      take_bit ?n (poc sl AND (push_bit ?n 1 - 1)) \<noteq> take_bit ?n (poc sl) \<or>
      bit (0 :: 32 word) 0 \<or> ?k > maxReferences s \<or> 0 > maxReferences s - ?k) = False" using k(1) by simp
  have tail: "(if bit (0 :: 32 word) 0 \<or> (0 :: 32 word) > 4 then None else Some x) = Some x" for x :: "'x" by simp
  have "distinct (poc sl # ?ps)" by (rule rps_before_distinct [OF assms(3)])
  note pics = reads_pictures [OF this, of "referencePoc sl"]
  show ?thesis unfolding list rd_slice_def
    apply (intro reads_elem [OF reads_flag] reads_elem [OF reads_UE] reads_elem [OF reads_U])
    apply (simp_all only: ok if_False n unat_0 rd_pictures.simps)
    prefer 5
        apply (rule reads_elems [OF pics])
        apply (rule reads_none [OF reads_return])
        apply (intro reads_elem [OF reads_flag] reads_elem [OF reads_UE] reads_last [OF reads_final [OF reads_SE]])
           apply (simp_all only: tail reads_return)
       apply (simp_all add: k(2))
    done
qed

text \<open>C33. An HEVC slice keeps in the decoder exactly the pictures the encoder keeps: a decoder that reads the header bit by
  bit, and refuses one that is not to the letter of the syntax, accepts it and finds every kept picture that precedes this one, newest first, the reference
  and only the reference marked as used, and no picture after it. The encoder keeps no more pictures than its sequence
  announces, each once.\<close>

theorem hevc_slice_pictures:
  assumes "hevc_ok s" "\<not> hevc_idr sl" "distinct (kept sl)" "length (kept sl) \<le> unat (maxReferences s)"
  shows "decoder_slice s (poc sl) (hevcSliceHeader s sl) = Some (map (\<lambda>p. (p, p = referencePoc sl)) (rps_before sl), []) \<and>
    set (rps_before sl) = {p \<in> set (kept sl). p < poc sl} \<and> sorted (rev (rps_before sl))"
proof -
  let ?w = "fold wr_elem (hevcSlice_elems s sl) wr_new"
  let ?bytes = "wr_bytes (trailing ?w)"
  have inv: "wr_inv ?w" "wr_content ?w = elems_bits (hevcSlice_elems s sl)"
    by (simp_all add: writer.puts_sound writer.puts_content)
  obtain z where z: "bits_of ?bytes = elems_bits (hevcSlice_elems s sl) @ True # replicate z False" "z < 8"
    using trailing_step [OF inv(1)] inv(2) by auto
  have bytes: "hevcSliceHeader s sl = [0, 0, 0, 1, 2, 1] @ escape ?bytes"
    using assms(2) by (simp add: hevcSliceHeader_def nal_append)
  have "rd_rest (rd_new ?bytes) = elems_bits (hevcSlice_elems s sl) @ True # replicate z False"
    by (simp add: rd_rest_def rd_new_def z(1))
  then have run: "run_state (rd_slice s (poc sl)) (rd_new ?bytes) =
      (Some (map (\<lambda>p. (p, p = referencePoc sl)) (rps_before sl), []), rd_skip (length (elems_bits (hevcSlice_elems s sl))) (rd_new ?bytes))"
    using slice_read [OF assms] by (simp add: reads_def rd_new_def)
  have "fills_byte (rd_rest (rd_skip (length (elems_bits (hevcSlice_elems s sl))) (rd_new ?bytes)))"
    using z by (simp add: rd_rest_def rd_new_def rd_skip_def fills_byte_def list_all_iff)
  then have "decoder_slice s (poc sl) (hevcSliceHeader s sl) = Some (map (\<lambda>p. (p, p = referencePoc sl)) (rps_before sl), [])"
    unfolding decoder_slice_def bytes using run by (simp add: rd_skip_def rd_new_def)
  then show ?thesis using rps_before_set [of sl] rps_before_sorted [of sl] by blast
qed

text \<open>C24. Our own H.264 sequence set needs no repair: what \<open>h264WithNoReorderVui\<close> makes of it is the set itself,
  byte for byte, so the two files agree on how a stream without reordering is announced.\<close>

theorem own_sps_unchanged:
  assumes "h264_ok s"
  shows "h264WithNoReorderVui (drop 4 (h264Sps s)) = drop 4 (h264Sps s)"
  by (rule own_sps_fixed [OF assms])

section \<open>Witnesses\<close>

text \<open>A 1080p sequence at 60 frames a second, H.264 High and HEVC Main.\<close>

definition hd_sequence :: H264Sequence where
  "hd_sequence = \<lparr>profileIdc = 100, levelIdc = 51, widthMbs = 120, heightMbs = 68, cropRight = 0, cropBottom = 4,
     maxRefFrames = 4, log2MaxFrameNum = 16, fps = 60\<rparr>"

definition hd_hevc :: HevcSequence where
  "hd_hevc = \<lparr>width = 1920, height = 1080, codedWidth = 1920, codedHeight = 1088, hevc_levelIdc = 153,
     maxReferences = 4, log2MaxPocLsb = 16, hevc_fps = 60\<rparr>"

lemma hd_ok: "h264_ok hd_sequence" "hevc_ok hd_hevc"
  by (simp_all add: h264_ok_def hd_sequence_def hevc_ok_def hd_hevc_def)

theorem parameter_sets_read_back_witness:
  "nal_read 1 (map format_of (h264Sps_elems hd_sequence)) (h264Sps hd_sequence) = h264Sps_elems hd_sequence"
  using parameter_sets_read_back [OF hd_ok] by blast

definition repair_slice :: H264Slice where
  "repair_slice = \<lparr>idr = False, frameNum = 70000, idrPicId = 0, referenceFrameNum = 69995\<rparr>"

theorem h264_slice_reference_witness:
  "decoder_reference (frameNumMask hd_sequence)
     (nal_read 1 (map format_of (h264Slice_elems hd_sequence repair_slice)) (h264SliceHeader hd_sequence repair_slice)) = 4459"
proof -
  have "referenceFrameNum repair_slice AND frameNumMask hd_sequence = 4459"
    "(frameNum repair_slice - referenceFrameNum repair_slice) AND frameNumMask hd_sequence \<noteq> 0"
    by (simp_all add: repair_slice_def hd_sequence_def)
  with h264_slice_reference [of hd_sequence repair_slice] show ?thesis
    by (simp add: hd_sequence_def repair_slice_def)
qed

definition hevc_repair :: HevcSlice where
  "hevc_repair = \<lparr>hevc_idr = False, poc = 9, kept = [4, 8, 6, 2], referencePoc = 6\<rparr>"

theorem hevc_slice_pictures_witness:
  "decoder_slice hd_hevc 9 (hevcSliceHeader hd_hevc hevc_repair) = Some ([(8, False), (6, True), (4, False), (2, False)], [])"
proof -
  have "rps_before hevc_repair = [8, 6, 4, 2]" by (simp add: rps_before_def hevc_repair_def)
  moreover have "distinct (kept hevc_repair)" "length (kept hevc_repair) \<le> unat (maxReferences hd_hevc)" "\<not> hevc_idr hevc_repair"
    by (simp_all add: hevc_repair_def hd_hevc_def)
  ultimately show ?thesis
    using hevc_slice_pictures [of hd_hevc hevc_repair, OF hd_ok(2)] by (simp add: hevc_repair_def)
qed

theorem own_sps_unchanged_witness:
  "h264WithNoReorderVui (drop 4 (h264Sps hd_sequence)) = drop 4 (h264Sps hd_sequence)"
  by (rule own_sps_unchanged [OF hd_ok(1)])

text \<open>Our own set is one the rewriting accepts, for the properties of \<open>h264WithNoReorderVui\<close>.\<close>

lemma own_sps_accepted: "h264WithNoReorderVui (drop 4 (h264Sps hd_sequence)) \<noteq> []"
  unfolding own_sps_fixed [OF hd_ok(1)] by (simp add: h264Sps_def nal_append)

theorem vui_rewrite_shape_witness:
  "start_code_free (tl (h264WithNoReorderVui (drop 4 (h264Sps hd_sequence))))"
  using vui_rewrite_shape [OF own_sps_accepted] by blast

theorem vui_rewrite_idempotent_witness:
  "h264WithNoReorderVui (h264WithNoReorderVui (drop 4 (h264Sps hd_sequence))) =
   h264WithNoReorderVui (drop 4 (h264Sps hd_sequence))"
  by (rule vui_rewrite_idempotent [OF own_sps_accepted])

theorem decoder_reads_no_reorder_witness:
  "\<exists>refFrames keep.
     sps_parse (unescape (tl (h264WithNoReorderVui (drop 4 (h264Sps hd_sequence))))) = Some (refFrames, keep, True)"
  using decoder_reads_no_reorder [OF own_sps_accepted refl] by blast

end
