(* ===== verification/Frame_Cadence.thy ===== *)
theory Frame_Cadence
  imports MW_Prelude
begin

text \<open>
  \<open>FrameCadence\<close> (\<open>native-host/src/core/FrameCadence.h\<close>): the gate that holds the capture loop to the
  stream's frame rate without ever holding a picture. \<open>fc_admit\<close> is the method \<open>admit\<close>; \<open>fc_run\<close> drives
  the gate with the times of successive presents and keeps the admitted ones.
\<close>

section \<open>The gate\<close>

definition kSlackDivisor :: int where
  [tunables]: "kSlackDivisor = 4"

definition kCeilingHeadroom :: int where
  [tunables]: "kCeilingHeadroom = 50"

record FrameCadence =
  fc_intervalNs :: int
  fc_reanchorNs :: int
  fc_nextDueNs :: int
  fc_skipped :: int
  fc_isCeiling :: bool

definition fc_new :: "int \<Rightarrow> int \<Rightarrow> FrameCadence" where
  "fc_new fps displayHz =
     (let interval = (if fps > 0 then 1000000 sdiv fps * 1000 else 0)
      in \<lparr>fc_intervalNs = interval,
          fc_reanchorNs = (if displayHz > 0 then 1000000 sdiv displayHz * 1000 else interval sdiv 2),
          fc_nextDueNs = 0, fc_skipped = 0, fc_isCeiling = False\<rparr>)"

definition fc_fromIntervalNs :: "int \<Rightarrow> int \<Rightarrow> FrameCadence" where
  "fc_fromIntervalNs intervalNs displayHz =
     (let c = fc_new 0 displayHz;
          c = c\<lparr>fc_intervalNs := (if intervalNs > 0 then intervalNs else 0)\<rparr>
      in if displayHz \<le> 0 then c\<lparr>fc_reanchorNs := fc_intervalNs c sdiv 2\<rparr> else c)"

definition fc_enabled :: "FrameCadence \<Rightarrow> bool" where
  "fc_enabled c \<longleftrightarrow> fc_intervalNs c > 0"

definition fc_ceiling :: "int \<Rightarrow> int \<Rightarrow> FrameCadence" where
  "fc_ceiling intervalNs displayHz =
     (let c = fc_fromIntervalNs (intervalNs * kCeilingHeadroom sdiv (kCeilingHeadroom + 1)) displayHz
      in c\<lparr>fc_isCeiling := fc_enabled c\<rparr>)"

definition fc_intervalUs :: "FrameCadence \<Rightarrow> int" where
  "fc_intervalUs c = fc_intervalNs c sdiv 1000"

definition fc_slackUs :: "FrameCadence \<Rightarrow> int" where
  "fc_slackUs c = (if fc_isCeiling c then fc_intervalUs c else fc_intervalUs c sdiv kSlackDivisor)"

definition fc_admit :: "int \<Rightarrow> FrameCadence \<Rightarrow> bool \<times> FrameCadence" where
  "fc_admit nowUs c =
     (if \<not> fc_enabled c then (True, c)
      else let nowNs = nowUs * 1000
           in if nowNs + fc_slackUs c * 1000 < fc_nextDueNs c
              then (False, c\<lparr>fc_skipped := fc_skipped c + 1\<rparr>)
              else if nowNs - fc_nextDueNs c > fc_reanchorNs c
              then (True, c\<lparr>fc_nextDueNs := nowNs + fc_intervalNs c\<rparr>)
              else (True, c\<lparr>fc_nextDueNs := fc_nextDueNs c + fc_intervalNs c\<rparr>))"

text \<open>The admitted presents among the ones at these times.\<close>

fun fc_run :: "int list \<Rightarrow> FrameCadence \<Rightarrow> int list \<times> FrameCadence" where
  "fc_run [] c = ([], c)"
| "fc_run (t # ts) c =
     (case fc_admit t c of (go, c') \<Rightarrow>
        case fc_run ts c' of (admitted, c'') \<Rightarrow> (if go then t # admitted else admitted, c''))"

section \<open>The grid\<close>

text \<open>The settings of a gate, which no present changes: interval, slack and re-anchoring, in nanoseconds.\<close>

definition fc_gate :: "FrameCadence \<Rightarrow> int \<Rightarrow> int \<Rightarrow> int \<Rightarrow> bool" where
  "fc_gate c i s r \<longleftrightarrow> fc_intervalNs c = i \<and> fc_slackUs c * 1000 = s \<and> fc_reanchorNs c = r \<and>
     0 < i \<and> 0 \<le> s \<and> s \<le> i \<and> 0 \<le> r"

lemma fc_slack_range: "0 \<le> fc_intervalNs c \<Longrightarrow> 0 \<le> fc_slackUs c * 1000 \<and> fc_slackUs c * 1000 \<le> fc_intervalNs c"
  using div_mult_le [of 1000 "fc_intervalNs c"] div_mult_le [of 4 "fc_intervalNs c div 1000"]
  by (auto simp: fc_slackUs_def fc_intervalUs_def tunables)

lemma fc_new_gate:
  assumes "0 < fps" "fps \<le> 1000000"
  shows "fc_gate (fc_new fps hz) (1000000 div fps * 1000) (fc_slackUs (fc_new fps hz) * 1000)
    (fc_reanchorNs (fc_new fps hz))"
proof -
  have "1 \<le> 1000000 div fps" using assms by (simp add: le_div_iff)
  moreover have "fc_intervalNs (fc_new fps hz) = 1000000 div fps * 1000"
    using assms by (simp add: fc_new_def Let_def)
  moreover have "0 \<le> fc_reanchorNs (fc_new fps hz)"
    using assms by (simp add: fc_new_def Let_def pos_imp_zdiv_nonneg_iff)
  ultimately show ?thesis
    using fc_slack_range [of "fc_new fps hz"] by (simp add: fc_gate_def)
qed

lemma fc_interval_gate:
  assumes "0 < i"
  shows "fc_gate (fc_fromIntervalNs i hz) i (fc_slackUs (fc_fromIntervalNs i hz) * 1000)
    (fc_reanchorNs (fc_fromIntervalNs i hz))"
proof -
  have "fc_intervalNs (fc_fromIntervalNs i hz) = i" "0 \<le> fc_reanchorNs (fc_fromIntervalNs i hz)"
    using assms by (simp_all add: fc_fromIntervalNs_def fc_new_def Let_def pos_imp_zdiv_nonneg_iff)
  then show ?thesis using fc_slack_range [of "fc_fromIntervalNs i hz"] assms by (simp add: fc_gate_def)
qed

lemma fc_ceiling_gate:
  assumes "2 \<le> i"
  shows "fc_gate (fc_ceiling i hz) (i * 50 div 51) (fc_slackUs (fc_ceiling i hz) * 1000)
    (fc_reanchorNs (fc_ceiling i hz))"
proof -
  have pos: "0 < i * 50 div 51" using assms by (simp add: pos_imp_zdiv_pos_iff)
  have sd: "i * 50 sdiv 51 = i * 50 div 51" using assms by simp
  have "fc_intervalNs (fc_ceiling i hz) = i * 50 div 51" "0 \<le> fc_reanchorNs (fc_ceiling i hz)"
    using pos fc_interval_gate [OF pos, of hz] by (simp_all add: fc_ceiling_def Let_def tunables sd fc_gate_def)
  then show ?thesis using fc_slack_range [of "fc_ceiling i hz"] pos by (simp add: fc_gate_def)
qed

lemma fc_gate_update [simp]:
  "fc_gate (c\<lparr>fc_skipped := n\<rparr>) i s r = fc_gate c i s r"
  "fc_gate (c\<lparr>fc_nextDueNs := n\<rparr>) i s r = fc_gate c i s r"
  by (simp_all add: fc_gate_def fc_slackUs_def fc_intervalUs_def)

lemma fc_admit_eq:
  assumes "fc_gate c i s r"
  shows "fc_admit t c =
    (if t * 1000 + s < fc_nextDueNs c then (False, c\<lparr>fc_skipped := fc_skipped c + 1\<rparr>)
     else (True, c\<lparr>fc_nextDueNs := (if fc_nextDueNs c + r < t * 1000 then t * 1000 + i else fc_nextDueNs c + i)\<rparr>))"
  using assms by (auto simp: fc_admit_def fc_enabled_def fc_gate_def Let_def)

lemma fc_admit_gate: "fc_gate c i s r \<Longrightarrow> fc_gate (snd (fc_admit t c)) i s r"
  by (simp add: fc_admit_eq)

lemma fc_admit_skip:
  assumes "fc_gate c i s r" "\<not> fst (fc_admit t c)"
  shows "fc_nextDueNs (snd (fc_admit t c)) = fc_nextDueNs c" "t * 1000 + s < fc_nextDueNs c"
  using assms by (auto simp: fc_admit_eq split: if_splits)

lemma fc_admit_go:
  assumes "fc_gate c i s r" "fst (fc_admit t c)"
  shows "fc_nextDueNs c \<le> t * 1000 + s" "fc_nextDueNs c + i \<le> fc_nextDueNs (snd (fc_admit t c))"
    "t * 1000 + i - r \<le> fc_nextDueNs (snd (fc_admit t c))" "fc_nextDueNs (snd (fc_admit t c)) \<le> t * 1000 + i + s"
  using assms fc_admit_eq [OF assms(1), of t] unfolding fc_gate_def by (auto split: if_splits)

lemma fc_admit_iff: "fc_gate c i s r \<Longrightarrow> fst (fc_admit t c) \<longleftrightarrow> fc_nextDueNs c \<le> t * 1000 + s"
  by (auto simp: fc_admit_eq)

interpretation cadence_gate: call_machine "\<lambda>t c. snd (fc_admit t c)" "\<lambda>c. fc_gate c i s r" for i s r
  by unfold_locales (rule fc_admit_gate)

text \<open>The state a run leaves is the fold of the calls; every admitted present moves the grid by an
  interval at least.\<close>

lemma fc_run_state: "snd (fc_run ts c) = fold (\<lambda>t c. snd (fc_admit t c)) ts c"
  by (induction ts arbitrary: c) (simp_all add: case_prod_unfold)

lemma fc_run_gate: "fc_gate c i s r \<Longrightarrow> fc_gate (snd (fc_run ts c)) i s r"
  unfolding fc_run_state by (rule cadence_gate.inv_calls)

lemma fc_run_Cons:
  "fst (fc_run (t # ts) c) = (if fst (fc_admit t c) then [t] else []) @ fst (fc_run ts (snd (fc_admit t c)))"
  "snd (fc_run (t # ts) c) = snd (fc_run ts (snd (fc_admit t c)))"
  by (simp_all add: case_prod_unfold)

lemma fc_run_last:
  "fc_gate c i s r \<Longrightarrow> fst (fc_run ts c) = a # as \<Longrightarrow>
   fc_nextDueNs c + int (length as) * i \<le> last (a # as) * 1000 + s"
proof (induction ts arbitrary: c a as)
  case Nil
  then show ?case by simp
next
  case (Cons t ts)
  let ?c = "snd (fc_admit t c)"
  have gate: "fc_gate ?c i s r" by (rule fc_admit_gate [OF Cons.prems(1)])
  note IH = Cons.IH
  show ?case
  proof (cases "fst (fc_admit t c)")
    case False
    then show ?thesis
      using Cons.IH [OF gate, of a as] fc_admit_skip(1) [OF Cons.prems(1) False] Cons.prems(2)
      by (simp add: fc_run_Cons del: fc_run.simps)
  next
    case True
    then have as: "a = t" "as = fst (fc_run ts ?c)"
      using Cons.prems(2) by (auto simp: fc_run_Cons simp del: fc_run.simps)
    note go = fc_admit_go [OF Cons.prems(1) True]
    show ?thesis
    proof (cases as)
      case Nil
      then show ?thesis using go(1) as by simp
    next
      case (Cons b bs)
      then have "fc_nextDueNs ?c + int (length bs) * i \<le> last as * 1000 + s"
        using IH [OF gate, of b bs] as by simp
      then show ?thesis using go(2) Cons by (simp add: algebra_simps)
    qed
  qed
qed

lemma fc_run_first:
  "fc_gate c i s r \<Longrightarrow> fst (fc_run ts c) = a # as \<Longrightarrow>
   \<exists>ts' c'. fc_gate c' i s r \<and> a * 1000 + i - r \<le> fc_nextDueNs c' \<and> fst (fc_run ts' c') = as"
proof (induction ts arbitrary: c)
  case Nil
  then show ?case by simp
next
  case (Cons t ts)
  have gate: "fc_gate (snd (fc_admit t c)) i s r" by (rule fc_admit_gate [OF Cons.prems(1)])
  show ?case
  proof (cases "fst (fc_admit t c)")
    case False
    then show ?thesis using Cons.IH [OF gate] Cons.prems(2) by (simp add: fc_run_Cons del: fc_run.simps)
  next
    case True
    then show ?thesis
      using gate fc_admit_go(3) [OF Cons.prems(1) True] Cons.prems(2)
      by (auto simp: fc_run_Cons simp del: fc_run.simps)
  qed
qed

lemma fc_run_idle: "fc_gate c i s r \<Longrightarrow> fst (fc_run ts c) = [] \<Longrightarrow> fc_nextDueNs (snd (fc_run ts c)) = fc_nextDueNs c"
proof (induction ts arbitrary: c)
  case Nil
  then show ?case by simp
next
  case (Cons t ts)
  then have "\<not> fst (fc_admit t c)" by (auto simp: fc_run_Cons simp del: fc_run.simps)
  then show ?case
    using Cons fc_admit_gate [OF Cons.prems(1), of t] fc_admit_skip(1) [OF Cons.prems(1)]
    by (simp add: fc_run_Cons del: fc_run.simps)
qed

section \<open>Properties\<close>

text \<open>The stream keeps its rate: whatever the display presents, the \<open>k\<close>-th frame admitted after a first one
  comes at least \<open>k\<close> intervals after it, less the slack and the re-anchoring distance once, so a runaway
  source adds no frame to a long stretch.\<close>

theorem cadence_rate_bound:
  assumes gate: "fc_gate c i s r" and run: "fst (fc_run ts c) = a # as"
  shows "a * 1000 + int (length as) * i - (s + r) \<le> last (a # as) * 1000"
proof (cases as)
  case Nil
  then show ?thesis using gate by (simp add: fc_gate_def)
next
  case (Cons b bs)
  obtain ts' c' where c': "fc_gate c' i s r" "a * 1000 + i - r \<le> fc_nextDueNs c'" "fst (fc_run ts' c') = b # bs"
    using fc_run_first [OF gate run] Cons by auto
  have "fc_nextDueNs c' + int (length bs) * i \<le> last (b # bs) * 1000 + s" by (rule fc_run_last [OF c'(1,3)])
  then show ?thesis using c'(2) Cons by (simp add: algebra_simps)
qed

text \<open>Nothing waits and nothing starves: once an interval has gone by since the last admitted frame, the next
  present is encoded the moment it arrives.\<close>

theorem cadence_never_starves:
  assumes gate: "fc_gate c i s r" and first: "fst (fc_admit a c)"
    and between: "fst (fc_run ts (snd (fc_admit a c))) = []" and late: "a * 1000 + i \<le> t * 1000"
  shows "fst (fc_admit t (snd (fc_run ts (snd (fc_admit a c)))))"
proof -
  let ?c = "snd (fc_admit a c)"
  have c: "fc_gate ?c i s r" by (rule fc_admit_gate [OF gate])
  have "fc_nextDueNs (snd (fc_run ts ?c)) = fc_nextDueNs ?c" by (rule fc_run_idle [OF c between])
  then show ?thesis
    using fc_admit_iff [OF fc_run_gate [OF c, of ts], of t] fc_admit_go(4) [OF gate first] late by simp
qed

text \<open>Presents at least \<open>i\<close> nanoseconds apart.\<close>

fun spaced :: "int \<Rightarrow> int list \<Rightarrow> bool" where
  "spaced i (a # b # ts) \<longleftrightarrow> a * 1000 + i \<le> b * 1000 \<and> spaced i (b # ts)"
| "spaced i _ \<longleftrightarrow> True"

lemma spaced_admitted:
  "fc_gate c i s r \<Longrightarrow> spaced i (t # ts) \<Longrightarrow> fc_nextDueNs c \<le> t * 1000 + s \<Longrightarrow> fst (fc_run (t # ts) c) = t # ts"
proof (induction ts arbitrary: t c)
  case Nil
  then show ?case by (simp add: fc_run_Cons fc_admit_iff del: fc_run.simps(2))
next
  case (Cons u ts)
  have go: "fst (fc_admit t c)" using Cons.prems by (simp add: fc_admit_iff)
  have "fc_nextDueNs (snd (fc_admit t c)) \<le> u * 1000 + s"
    using fc_admit_go(4) [OF Cons.prems(1) go] Cons.prems(2) by simp
  then have "fst (fc_run (u # ts) (snd (fc_admit t c))) = u # ts"
    using Cons.IH [OF fc_admit_gate [OF Cons.prems(1)]] Cons.prems(2) by simp
  then show ?case by (subst fc_run_Cons(1)) (simp add: go)
qed

text \<open>A ceiling is invisible to a display that keeps to its rate: presents that come no faster than 51 for every
  50 of the stream's are all encoded, each the moment it arrives.\<close>

theorem ceiling_passes_every_refresh:
  assumes "2 \<le> interval" "0 \<le> t" "spaced (interval * 50 div 51) (t # ts)"
  shows "fst (fc_run (t # ts) (fc_ceiling interval hz)) = t # ts"
proof (rule spaced_admitted [OF fc_ceiling_gate [OF assms(1)] assms(3)])
  have "fc_nextDueNs (fc_ceiling interval hz) = 0"
    by (simp add: fc_ceiling_def fc_fromIntervalNs_def fc_new_def Let_def)
  moreover have "0 \<le> fc_slackUs (fc_ceiling interval hz) * 1000"
    using fc_ceiling_gate [OF assms(1), of hz] by (simp add: fc_gate_def)
  ultimately show "fc_nextDueNs (fc_ceiling interval hz) \<le> t * 1000 + fc_slackUs (fc_ceiling interval hz) * 1000"
    using assms(2) by simp
qed

section \<open>Witnesses\<close>

text \<open>A 60 fps stream of a display that presents every 6 ms.\<close>

theorem cadence_rate_bound_witness:
  "0 * 1000 + int (length [18000, 30000, 48000, 66000 :: int]) * 16666000 - (4166000 + 6060000)
   \<le> last [0, 18000, 30000, 48000, 66000 :: int] * 1000"
proof -
  have gate: "fc_gate (fc_new 60 165) 16666000 4166000 6060000" by code_simp
  have run: "fst (fc_run [0, 6000, 12000, 18000, 24000, 30000, 36000, 42000, 48000, 54000, 60000, 66000] (fc_new 60 165)) =
    0 # [18000, 30000, 48000, 66000]" by code_simp
  show ?thesis using cadence_rate_bound [OF gate run] by simp
qed

theorem cadence_never_starves_witness:
  "fst (fc_admit 17000 (snd (fc_run [6000] (snd (fc_admit 0 (fc_new 60 165))))))"
proof (rule cadence_never_starves)
  show "fc_gate (fc_new 60 165) 16666000 4166000 6060000" by code_simp
  show "fst (fc_admit 0 (fc_new 60 165))" by code_simp
  show "fst (fc_run [6000] (snd (fc_admit 0 (fc_new 60 165)))) = []" by code_simp
qed simp

theorem ceiling_passes_every_refresh_witness:
  "fst (fc_run [0, 16400, 33000] (fc_ceiling 16666000 60)) = [0, 16400, 33000]"
  by (rule ceiling_passes_every_refresh) simp_all

end
