(* ===== verification/Cadence_Align.thy ===== *)
theory Cadence_Align
  imports MW_Prelude
begin

text \<open>
  \<open>alignCadence\<close> (\<open>native-host/src/core/CadenceAlign.h\<close>): the stream's cadence chosen against the refresh of a
  client that presents on its vsync. The search over the divisors is the loop \<open>for (int n = 1;; ++n)\<close>,
  which only its \<open>break\<close> ends: it is a partial function, and that it always returns is a theorem.
\<close>

section \<open>The choice\<close>

record AlignedCadence =
  ac_aligned :: bool
  ac_intervalNs :: int
  ac_intervalUs :: int
  ac_fps :: int
  ac_divisor :: int

definition ac_none :: AlignedCadence where
  "ac_none = \<lparr>ac_aligned = False, ac_intervalNs = 0, ac_intervalUs = 0, ac_fps = 0, ac_divisor = 0\<rparr>"

definition kAlignWindowPercent :: int where
  [tunables]: "kAlignWindowPercent = 20"

text \<open>The best divisor so far, its rate and its distance to the setting.\<close>

type_synonym best = "int \<times> int \<times> int"

definition ac_consider :: "int \<Rightarrow> int \<Rightarrow> int \<Rightarrow> int \<Rightarrow> int \<Rightarrow> best \<Rightarrow> best" where
  "ac_consider settingFps high maxFps n milliFps best =
     (case best of (bestDivisor, bestMilliFps, bestDistance) \<Rightarrow>
        if milliFps > high then best
        else if maxFps > 0 \<and> (milliFps + 500) sdiv 1000 > maxFps then best
        else let distance = milliFps - settingFps * 1000;
                 distance = (if distance < 0 then - distance else distance)
             in if bestDivisor = 0 \<or> distance < bestDistance then (n, milliFps, distance) else best)"

partial_function (option) ac_search :: "int \<Rightarrow> int \<Rightarrow> int \<Rightarrow> int \<Rightarrow> int \<Rightarrow> int \<Rightarrow> best \<Rightarrow> best option" where
  [code]: "ac_search settingFps clientMilliHz low high maxFps n best =
     (let milliFps = clientMilliHz sdiv n
      in if milliFps < low then Some best
         else ac_search settingFps clientMilliHz low high maxFps (n + 1)
           (ac_consider settingFps high maxFps n milliFps best))"

definition ac_low :: "int \<Rightarrow> int" where
  "ac_low settingFps = settingFps * 1000 * (100 - kAlignWindowPercent) sdiv 100"

definition ac_high :: "int \<Rightarrow> int" where
  "ac_high settingFps = settingFps * 1000 * (100 + kAlignWindowPercent) sdiv 100"

definition ac_setting :: "int \<Rightarrow> AlignedCadence" where
  "ac_setting settingFps =
     (let us = 1000000 sdiv settingFps
      in ac_none\<lparr>ac_intervalUs := us, ac_intervalNs := us * 1000, ac_fps := settingFps\<rparr>)"

definition alignCadence :: "int \<Rightarrow> int \<Rightarrow> int \<Rightarrow> int \<Rightarrow> AlignedCadence option" where
  "alignCadence settingFps clientMilliHz displayHz maxFps =
     (if settingFps \<le> 0 then Some ac_none
      else if clientMilliHz \<le> 0 then Some (ac_setting settingFps)
      else case ac_search settingFps clientMilliHz (ac_low settingFps) (ac_high settingFps) maxFps 1 (0, 0, 0) of
          None \<Rightarrow> None
        | Some (bestDivisor, bestMilliFps, _) \<Rightarrow>
            if bestDivisor = 0 then Some (ac_setting settingFps)
            else let fps = (bestMilliFps + 500) sdiv 1000
                 in if displayHz > 0 \<and> fps > displayHz then Some (ac_setting settingFps)
                    else let ns = bestDivisor * 1000000000000 sdiv clientMilliHz
                         in Some \<lparr>ac_aligned = True, ac_intervalNs = ns, ac_intervalUs = ns sdiv 1000,
                                  ac_fps = fps, ac_divisor = bestDivisor\<rparr>)"

section \<open>The search\<close>

text \<open>A divisor the rules admit: its rate is in the window and under the caller's ceiling.\<close>

definition ac_candidate :: "int \<Rightarrow> int \<Rightarrow> int \<Rightarrow> int \<Rightarrow> bool" where
  "ac_candidate settingFps clientMilliHz maxFps n \<longleftrightarrow> 1 \<le> n \<and>
     settingFps * 800 \<le> clientMilliHz div n \<and> clientMilliHz div n \<le> settingFps * 1200 \<and>
     (maxFps > 0 \<longrightarrow> (clientMilliHz div n + 500) div 1000 \<le> maxFps)"

definition ac_distance :: "int \<Rightarrow> int \<Rightarrow> int \<Rightarrow> int" where
  "ac_distance settingFps clientMilliHz n = \<bar>clientMilliHz div n - settingFps * 1000\<bar>"

text \<open>The best of the divisors below \<open>n\<close>: the nearest one, the smallest on a tie.\<close>

definition ac_best_below :: "int \<Rightarrow> int \<Rightarrow> int \<Rightarrow> int \<Rightarrow> best \<Rightarrow> bool" where
  "ac_best_below settingFps client maxFps n best \<longleftrightarrow>
     (case best of (d, milli, dist) \<Rightarrow>
        if d = 0 then \<forall>k. k < n \<longrightarrow> \<not> ac_candidate settingFps client maxFps k
        else d < n \<and> ac_candidate settingFps client maxFps d \<and> milli = client div d \<and>
          dist = ac_distance settingFps client d \<and>
          (\<forall>k. k < n \<longrightarrow> ac_candidate settingFps client maxFps k \<longrightarrow>
             dist < ac_distance settingFps client k \<or> dist = ac_distance settingFps client k \<and> d \<le> k))"

lemma ac_limits: "0 < settingFps \<Longrightarrow> ac_low settingFps = settingFps * 800"
  "0 < settingFps \<Longrightarrow> ac_high settingFps = settingFps * 1200"
  by (simp_all add: ac_low_def ac_high_def tunables)

lemma ac_consider_best:
  assumes best: "ac_best_below settingFps client maxFps n best" and n: "1 \<le> n" and c: "0 < client"
    and low: "settingFps * 800 \<le> client div n"
  shows "ac_best_below settingFps client maxFps (n + 1)
    (ac_consider settingFps (settingFps * 1200) maxFps n (client div n) best)"
proof -
  have sd: "(client div n + 500) sdiv 1000 = (client div n + 500) div 1000"
    using n c by (simp add: pos_imp_zdiv_nonneg_iff)
  have cand: "ac_candidate settingFps client maxFps n \<longleftrightarrow>
      \<not> client div n > settingFps * 1200 \<and> \<not> (maxFps > 0 \<and> (client div n + 500) sdiv 1000 > maxFps)"
    using n low unfolding sd by (auto simp: ac_candidate_def)
  obtain d milli dist where b: "best = (d, milli, dist)" by (cases best)
  have step: "ac_consider settingFps (settingFps * 1200) maxFps n (client div n) best =
      (if ac_candidate settingFps client maxFps n \<and> (d = 0 \<or> ac_distance settingFps client n < dist)
       then (n, client div n, ac_distance settingFps client n) else best)"
    unfolding cand by (auto simp: ac_consider_def b ac_distance_def Let_def)
  have less: "k \<le> n \<longleftrightarrow> k < n \<or> k = n" for k by auto
  show ?thesis
  proof (cases "ac_candidate settingFps client maxFps n")
    case False
    then show ?thesis using best unfolding step by (auto simp: b ac_best_below_def less)
  next
    case True
    then show ?thesis
      using best n unfolding step by (cases "d = 0") (fastforce simp: b ac_best_below_def less)+
  qed
qed

text \<open>The loop ends at the first divisor whose rate falls under the window, and no later divisor is one.\<close>

lemma ac_search_returns:
  assumes s: "0 < settingFps" and c: "0 < client"
  shows "1 \<le> n \<Longrightarrow> ac_best_below settingFps client maxFps n best \<Longrightarrow>
    \<exists>best' m. ac_search settingFps client (settingFps * 800) (settingFps * 1200) maxFps n best = Some best' \<and>
      1 \<le> m \<and> client div m < settingFps * 800 \<and> ac_best_below settingFps client maxFps m best'"
proof (induction "nat (client + 1 - n)" arbitrary: n best rule: less_induct)
  case less
  have sd: "client sdiv n = client div n" using less.prems(1) c by simp
  show ?case
  proof (cases "client div n < settingFps * 800")
    case True
    then show ?thesis using less.prems by (subst ac_search.simps) (auto simp: Let_def sd)
  next
    case False
    then have "0 < client div n" using s by linarith
    then have "n \<le> client" using less.prems(1) c by (simp add: pos_imp_zdiv_pos_iff)
    then have "nat (client + 1 - (n + 1)) < nat (client + 1 - n)" by simp
    moreover have "ac_best_below settingFps client maxFps (n + 1)
        (ac_consider settingFps (settingFps * 1200) maxFps n (client div n) best)"
      using False less.prems c by (intro ac_consider_best) simp_all
    ultimately have "\<exists>best' m. ac_search settingFps client (settingFps * 800) (settingFps * 1200) maxFps (n + 1)
          (ac_consider settingFps (settingFps * 1200) maxFps n (client div n) best) = Some best' \<and>
        1 \<le> m \<and> client div m < settingFps * 800 \<and> ac_best_below settingFps client maxFps m best'"
      using less.hyps less.prems(1) by simp
    then show ?thesis using False by (subst ac_search.simps) (simp add: Let_def sd)
  qed
qed

lemma ac_candidates_below:
  assumes "0 < client" "1 \<le> m" "client div m < settingFps * 800" "ac_candidate settingFps client maxFps k"
  shows "k < m"
proof (rule ccontr)
  assume "\<not> k < m"
  then have "client div k \<le> client div m" using assms(1,2) by (intro zdiv_mono2) auto
  then show False using assms(3,4) by (simp add: ac_candidate_def)
qed

text \<open>The whole search: the nearest candidate of all, or none.\<close>

lemma ac_search_best:
  assumes s: "0 < settingFps" and c: "0 < client"
  obtains d milli dist where
    "ac_search settingFps client (ac_low settingFps) (ac_high settingFps) maxFps 1 (0, 0, 0) = Some (d, milli, dist)"
    "if d = 0 then \<forall>k. \<not> ac_candidate settingFps client maxFps k
     else ac_candidate settingFps client maxFps d \<and> milli = client div d \<and>
       (\<forall>k. ac_candidate settingFps client maxFps k \<longrightarrow>
          ac_distance settingFps client d < ac_distance settingFps client k \<or>
          ac_distance settingFps client d = ac_distance settingFps client k \<and> d \<le> k)"
proof -
  have "ac_best_below settingFps client maxFps 1 (0, 0, 0)"
    by (auto simp: ac_best_below_def ac_candidate_def)
  from ac_search_returns [OF s c _ this] obtain d milli dist m where
    found: "ac_search settingFps client (ac_low settingFps) (ac_high settingFps) maxFps 1 (0, 0, 0) = Some (d, milli, dist)"
    and m: "1 \<le> m" "client div m < settingFps * 800" and best: "ac_best_below settingFps client maxFps m (d, milli, dist)"
    by (auto simp: ac_limits [OF s])
  note below = ac_candidates_below [OF c m]
  from best have "if d = 0 then \<forall>k. \<not> ac_candidate settingFps client maxFps k
     else ac_candidate settingFps client maxFps d \<and> milli = client div d \<and>
       (\<forall>k. ac_candidate settingFps client maxFps k \<longrightarrow>
          ac_distance settingFps client d < ac_distance settingFps client k \<or>
          ac_distance settingFps client d = ac_distance settingFps client k \<and> d \<le> k)"
    using below by (cases "d = 0") (auto simp: ac_best_below_def)
  with found show thesis by (rule that)
qed

section \<open>Properties\<close>

text \<open>C35. The search over the divisors always ends: \<open>alignCadence\<close> returns a cadence for every setting, client,
  display and ceiling.\<close>

theorem align_returns: "\<exists>c. alignCadence settingFps clientMilliHz displayHz maxFps = Some c"
proof (cases "settingFps \<le> 0 \<or> clientMilliHz \<le> 0")
  case True
  then show ?thesis by (auto simp: alignCadence_def)
next
  case False
  then obtain d milli dist where
    "ac_search settingFps clientMilliHz (ac_low settingFps) (ac_high settingFps) maxFps 1 (0, 0, 0) = Some (d, milli, dist)"
    using ac_search_best [of settingFps clientMilliHz maxFps] by (metis not_le)
  then show ?thesis using False by (simp add: alignCadence_def Let_def)
qed

text \<open>An aligned cadence is an exact number of client refreshes, and the right one: its rate is within a fifth of
  the setting, under the caller's ceiling and no more than the display produces, and no other divisor the
  rules admit is nearer to the setting, or as near and faster.\<close>

theorem aligned_is_nearest:
  assumes result: "alignCadence settingFps clientMilliHz displayHz maxFps = Some c" and aligned: "ac_aligned c"
  shows "ac_candidate settingFps clientMilliHz maxFps (ac_divisor c) \<and>
    ac_intervalNs c = ac_divisor c * 1000000000000 div clientMilliHz \<and>
    ac_fps c = (clientMilliHz div ac_divisor c + 500) div 1000 \<and>
    (displayHz > 0 \<longrightarrow> ac_fps c \<le> displayHz) \<and>
    (\<forall>k. ac_candidate settingFps clientMilliHz maxFps k \<longrightarrow>
       ac_distance settingFps clientMilliHz (ac_divisor c) < ac_distance settingFps clientMilliHz k \<or>
       ac_distance settingFps clientMilliHz (ac_divisor c) = ac_distance settingFps clientMilliHz k \<and> ac_divisor c \<le> k)"
proof -
  have pos: "0 < settingFps" "0 < clientMilliHz"
    using result aligned by (auto simp: alignCadence_def ac_none_def ac_setting_def Let_def split: if_splits)
  obtain d milli dist where
    found: "ac_search settingFps clientMilliHz (ac_low settingFps) (ac_high settingFps) maxFps 1 (0, 0, 0) = Some (d, milli, dist)"
    and best: "if d = 0 then \<forall>k. \<not> ac_candidate settingFps clientMilliHz maxFps k
     else ac_candidate settingFps clientMilliHz maxFps d \<and> milli = clientMilliHz div d \<and>
       (\<forall>k. ac_candidate settingFps clientMilliHz maxFps k \<longrightarrow>
          ac_distance settingFps clientMilliHz d < ac_distance settingFps clientMilliHz k \<or>
          ac_distance settingFps clientMilliHz d = ac_distance settingFps clientMilliHz k \<and> d \<le> k)"
    using ac_search_best [OF pos] by metis
  have "d \<noteq> 0"
    using result aligned pos found by (auto simp: alignCadence_def ac_none_def ac_setting_def Let_def split: if_splits)
  with best have cand: "1 \<le> d" "milli = clientMilliHz div d" "0 \<le> milli"
    using pos by (auto simp: ac_candidate_def pos_imp_zdiv_nonneg_iff)
  then have c: "c = \<lparr>ac_aligned = True, ac_intervalNs = d * 1000000000000 div clientMilliHz,
      ac_intervalUs = d * 1000000000000 div clientMilliHz sdiv 1000, ac_fps = (milli + 500) div 1000, ac_divisor = d\<rparr>"
    "displayHz > 0 \<longrightarrow> (milli + 500) div 1000 \<le> displayHz"
    using result aligned pos found \<open>d \<noteq> 0\<close>
    by (auto simp: alignCadence_def ac_none_def ac_setting_def Let_def split: if_splits)
  then show ?thesis using best cand \<open>d \<noteq> 0\<close> by simp
qed

section \<open>Witnesses\<close>

text \<open>60 set on a 144 Hz client: every second refresh, 72 frames a second.\<close>

lemma align_144: "alignCadence 60 144000 0 0 = Some \<lparr>ac_aligned = True, ac_intervalNs = 13888888, ac_intervalUs = 13888,
    ac_fps = 72, ac_divisor = 2\<rparr>"
  by code_simp

theorem aligned_is_nearest_witness:
  "ac_candidate 60 144000 0 2 \<and> ac_distance 60 144000 2 \<le> ac_distance 60 144000 3"
proof -
  have "ac_candidate 60 144000 0 3" by code_simp
  with aligned_is_nearest [OF align_144] show ?thesis by auto
qed

end
