(* ===== verification/Capture_Gates.thy ===== *)
theory Capture_Gates
  imports MW_Prelude
begin

text \<open>
  Two small decisions of the capture loop: \<open>CursorPositionGate\<close>
  (\<open>native-host/src/core/CursorPositionGate.h\<close>), when the host's pointer position is worth a message, and
  \<open>restartRetryDelayMs\<close> (\<open>native-host/src/core/RestartBackoff.h\<close>), how long the loop waits before it tries
  again to reopen a lost duplication.
\<close>

section \<open>The pointer's position\<close>

definition kIntervalUs :: int where
  [tunables]: "kIntervalUs = 50 * 1000"

record CursorPositionGate =
  cg_sent :: bool
  cg_visible :: bool
  cg_x :: int
  cg_y :: int
  cg_sentUs :: int

definition cg_new :: CursorPositionGate where
  "cg_new = \<lparr>cg_sent = False, cg_visible = False, cg_x = 0, cg_y = 0, cg_sentUs = 0\<rparr>"

definition cg_same :: "bool \<Rightarrow> int \<Rightarrow> int \<Rightarrow> CursorPositionGate \<Rightarrow> bool" where
  "cg_same visible x y g \<longleftrightarrow>
     cg_sent g \<and> visible = cg_visible g \<and> (\<not> visible \<or> (x = cg_x g \<and> y = cg_y g))"

definition cg_due :: "bool \<Rightarrow> int \<Rightarrow> int \<Rightarrow> int \<Rightarrow> CursorPositionGate \<Rightarrow> bool \<times> CursorPositionGate" where
  "cg_due visible x y nowUs g =
     (if cg_same visible x y g then (False, g)
      else if cg_sent g \<and> nowUs - cg_sentUs g < kIntervalUs then (False, g)
      else (True, g\<lparr>cg_sent := True, cg_visible := visible, cg_x := x, cg_y := y, cg_sentUs := nowUs\<rparr>))"

definition cg_reset :: "CursorPositionGate \<Rightarrow> CursorPositionGate" where
  "cg_reset g = g\<lparr>cg_sent := False\<rparr>"

datatype CursorSample = CursorSample (visible: bool) (at_x: int) (at_y: int) (at_us: int)

definition cg_call :: "CursorSample \<Rightarrow> CursorPositionGate \<Rightarrow> CursorPositionGate" where
  "cg_call e g = snd (cg_due (visible e) (at_x e) (at_y e) (at_us e) g)"

definition cg_sends :: "CursorSample \<Rightarrow> CursorPositionGate \<Rightarrow> bool" where
  "cg_sends e g = fst (cg_due (visible e) (at_x e) (at_y e) (at_us e) g)"

text \<open>The messages a stretch of samples without a reset puts on the wire.\<close>

fun cg_messages :: "CursorSample list \<Rightarrow> CursorPositionGate \<Rightarrow> CursorSample list" where
  "cg_messages [] g = []"
| "cg_messages (e # es) g = (if cg_sends e g then [e] else []) @ cg_messages es (cg_call e g)"

text \<open>What the client was told last is what it would be told again.\<close>

definition cg_told :: "CursorSample \<Rightarrow> CursorPositionGate \<Rightarrow> bool" where
  "cg_told e g \<longleftrightarrow> cg_same (visible e) (at_x e) (at_y e) g"

lemma cg_sends_call:
  "cg_sends e g \<Longrightarrow> cg_sent (cg_call e g) \<and> cg_sentUs (cg_call e g) = at_us e \<and> cg_told e (cg_call e g)"
  by (auto simp: cg_sends_def cg_call_def cg_told_def cg_due_def cg_same_def split: if_splits)

lemma cg_silent_call: "\<not> cg_sends e g \<Longrightarrow> cg_call e g = g"
  by (auto simp: cg_sends_def cg_call_def cg_due_def split: if_splits)

lemma cg_sends_late: "cg_sends e g \<Longrightarrow> cg_sent g \<Longrightarrow> cg_sentUs g + 50000 \<le> at_us e"
  by (auto simp: cg_sends_def cg_due_def tunables split: if_splits)

fun apart :: "int \<Rightarrow> CursorSample list \<Rightarrow> bool" where
  "apart d (a # b # es) \<longleftrightarrow> at_us a + d \<le> at_us b \<and> apart d (b # es)"
| "apart d _ \<longleftrightarrow> True"

lemma cg_messages_apart:
  "apart 50000 (cg_messages es g) \<and>
   (cg_sent g \<longrightarrow> (case cg_messages es g of [] \<Rightarrow> True | e # _ \<Rightarrow> cg_sentUs g + 50000 \<le> at_us e))"
proof (induction es arbitrary: g)
  case Nil
  then show ?case by simp
next
  case (Cons e es)
  show ?case
  proof (cases "cg_sends e g")
    case False
    then show ?thesis using Cons.IH [of g] by (simp add: cg_silent_call)
  next
    case True
    then show ?thesis
      using Cons.IH [of "cg_call e g"] cg_sends_call [OF True] cg_sends_late [OF True]
      by (cases "cg_messages es (cg_call e g)") auto
  qed
qed

section \<open>The restart delay\<close>

definition kFirstMs :: int where
  [tunables]: "kFirstMs = 100"

definition kCeilingMs :: int where
  [tunables]: "kCeilingMs = 1000"

function restart_loop :: "int \<Rightarrow> int \<Rightarrow> int \<Rightarrow> int" where
  "restart_loop failures i delay =
     (if i < failures \<and> delay < kCeilingMs then restart_loop failures (i + 1) (delay * 2) else delay)"
  by auto
termination
  by (relation "measure (\<lambda>(failures, i, _). nat (failures - i))") auto

declare restart_loop.simps [simp del]

definition restartRetryDelayMs :: "int \<Rightarrow> int" where
  "restartRetryDelayMs failures =
     (if failures \<le> 1 then kFirstMs
      else let delay = restart_loop failures 1 kFirstMs in if delay < kCeilingMs then delay else kCeilingMs)"

lemma restart_loop_closed:
  "0 < delay \<Longrightarrow> i \<le> failures \<Longrightarrow>
   min 1000 (restart_loop failures i delay) = min 1000 (delay * 2 ^ nat (failures - i))"
proof (induction failures i delay rule: restart_loop.induct)
  case (1 failures i delay)
  show ?case
  proof (cases "i < failures \<and> delay < kCeilingMs")
    case True
    then have "nat (failures - i) = Suc (nat (failures - (i + 1)))" by arith
    then have pow: "(2 :: int) ^ nat (failures - i) = 2 * 2 ^ nat (failures - (i + 1))" by simp
    moreover have "min 1000 (restart_loop failures (i + 1) (delay * 2)) = min 1000 (delay * 2 * 2 ^ nat (failures - (i + 1)))"
      using 1(1) [OF True] 1(2) True by simp
    moreover have "restart_loop failures i delay = restart_loop failures (i + 1) (delay * 2)"
      using True by (subst restart_loop.simps) simp
    ultimately show ?thesis by (simp only: pow mult.assoc)
  next
    case False
    then have loop: "restart_loop failures i delay = delay" by (subst restart_loop.simps) auto
    show ?thesis
    proof (cases "i < failures")
      case True
      then have "1000 \<le> delay" using False by (simp add: tunables)
      moreover have "delay * 1 \<le> delay * 2 ^ nat (failures - i)" using 1(2) by (intro mult_left_mono) simp_all
      ultimately have "1000 \<le> delay * 2 ^ nat (failures - i)" by linarith
      then show ?thesis using \<open>1000 \<le> delay\<close> by (simp only: loop min_absorb1)
    next
      case False
      then show ?thesis using 1(3) unfolding loop by simp
    qed
  qed
qed

section \<open>Properties\<close>

text \<open>The pointer's position costs little and is right in the end: two messages of a stretch without a reset are
  at least 50 ms apart, and a position sampled 50 ms or more after the last message is one the client
  has been told.\<close>

theorem cursor_messages_spaced:
  "apart 50000 (cg_messages es g) \<and>
   (cg_sentUs g + 50000 \<le> at_us e \<longrightarrow> cg_told e (cg_call e g))"
proof (intro conjI impI)
  show "apart 50000 (cg_messages es g)" using cg_messages_apart by blast
  assume "cg_sentUs g + 50000 \<le> at_us e"
  then show "cg_told e (cg_call e g)"
    by (auto simp: cg_told_def cg_call_def cg_due_def cg_same_def tunables)
qed

text \<open>The delay before the \<open>n\<close>-th retry is 100 ms doubled for every failure after the first, never more than a
  second, for any number of failures.\<close>

theorem restart_delay_doubles:
  "restartRetryDelayMs failures = min 1000 (100 * 2 ^ nat (failures - 1))"
proof (cases "failures \<le> 1")
  case True
  then show ?thesis by (simp add: restartRetryDelayMs_def tunables)
next
  case False
  have "restartRetryDelayMs failures = min 1000 (restart_loop failures 1 100)"
    using False by (simp add: restartRetryDelayMs_def Let_def tunables min_def)
  also have "\<dots> = min 1000 (100 * 2 ^ nat (failures - 1))"
    using restart_loop_closed [of 100 1 failures] False by simp
  finally show ?thesis .
qed

section \<open>Witnesses\<close>

theorem cursor_messages_spaced_witness:
  "cg_told (CursorSample True 3 4 70000) (cg_call (CursorSample True 3 4 70000)
     (cg_call (CursorSample True 1 1 20000) cg_new)) \<and>
   cg_messages [CursorSample True 1 1 20000, CursorSample True 2 2 30000, CursorSample True 3 4 70000] cg_new =
     [CursorSample True 1 1 20000, CursorSample True 3 4 70000]"
proof
  have "cg_sentUs (cg_call (CursorSample True 1 1 20000) cg_new) + 50000 \<le> at_us (CursorSample True 3 4 70000)"
    by code_simp
  then show "cg_told (CursorSample True 3 4 70000) (cg_call (CursorSample True 3 4 70000)
     (cg_call (CursorSample True 1 1 20000) cg_new))"
    using cursor_messages_spaced by blast
qed code_simp

end
