(* ===== verification/Audio_Path.thy ===== *)
theory Audio_Path
  imports MW_Prelude
begin

text \<open>
  The audio of a session before the Opus encoder: \<open>AudioPacer\<close> (\<open>native-host/src/audio/AudioPacer.h\<close>), which
  turns an irregular capture into one frame every 5 ms, and the two conversions to interleaved stereo of
  \<open>native-host/src/audio/AudioInterleave.h\<close>. The code only copies samples and writes \<open>0.0f\<close>, so a sample is
  any type with a zero; the queue is the list of its floats. An output buffer is returned.
\<close>

section \<open>The pacer\<close>

definition kChannels :: nat where
  [tunables]: "kChannels = 2"

definition kFrameSamples :: nat where
  [tunables]: "kFrameSamples = 240"

definition kFramePeriodUs :: int where
  [tunables]: "kFramePeriodUs = 5000"

definition kFrameFloats :: nat where
  [tunables]: "kFrameFloats = kFrameSamples * kChannels"

definition kUnderrunGraceUs :: int where
  [tunables]: "kUnderrunGraceUs = 2 * kFramePeriodUs"

record 'a AudioPacer =
  ap_maxQueuedFloats :: nat
  ap_queue :: "'a list"
  ap_started :: bool
  ap_nextDueUs :: int
  ap_dropped :: int
  ap_underruns :: int
  ap_reanchors :: int
  ap_deferrals :: int

definition ap_new :: "int \<Rightarrow> 'a AudioPacer" where
  "ap_new maxQueuedFrames =
     \<lparr>ap_maxQueuedFloats = nat (max 1 maxQueuedFrames) * kFrameFloats, ap_queue = [], ap_started = False,
      ap_nextDueUs = 0, ap_dropped = 0, ap_underruns = 0, ap_reanchors = 0, ap_deferrals = 0\<rparr>"

definition ap_start :: "int \<Rightarrow> 'a AudioPacer \<Rightarrow> 'a AudioPacer" where
  "ap_start nowUs p = p\<lparr>ap_nextDueUs := nowUs + kFramePeriodUs, ap_started := True\<rparr>"

definition ap_trim :: "'a AudioPacer \<Rightarrow> 'a AudioPacer" where
  "ap_trim p =
     (if length (ap_queue p) \<le> ap_maxQueuedFloats p then p
      else let excess = length (ap_queue p) - ap_maxQueuedFloats p;
               dropFloats = (excess + kFrameFloats - 1) div kFrameFloats * kFrameFloats;
               n = min dropFloats (length (ap_queue p))
           in p\<lparr>ap_queue := drop n (ap_queue p), ap_dropped := ap_dropped p + int (n div kFrameFloats)\<rparr>)"

text \<open>A null buffer is the empty list; the samples are those of whole stereo frames.\<close>

definition ap_push :: "'a list \<Rightarrow> 'a AudioPacer \<Rightarrow> 'a AudioPacer" where
  "ap_push samples p =
     (if samples = [] then p else ap_trim (p\<lparr>ap_queue := ap_queue p @ samples\<rparr>))"

definition ap_pushSilence :: "nat \<Rightarrow> 'a::zero AudioPacer \<Rightarrow> 'a AudioPacer" where
  "ap_pushSilence frames p =
     (if frames = 0 then p else ap_trim (p\<lparr>ap_queue := ap_queue p @ replicate (frames * kChannels) 0\<rparr>))"

definition ap_maxBurst :: "'a AudioPacer \<Rightarrow> int" where
  "ap_maxBurst p = int (ap_maxQueuedFloats p div kFrameFloats)"

definition ap_dueFrames :: "int \<Rightarrow> 'a AudioPacer \<Rightarrow> int \<times> 'a AudioPacer" where
  "ap_dueFrames nowUs p =
     (if \<not> ap_started p \<or> nowUs < ap_nextDueUs p then (0, p)
      else let owed = (nowUs - ap_nextDueUs p) sdiv kFramePeriodUs + 1; maxBurst = ap_maxBurst p
           in if owed > maxBurst
              then (maxBurst, p\<lparr>ap_reanchors := ap_reanchors p + 1,
                                ap_nextDueUs := nowUs - (maxBurst - 1) * kFramePeriodUs\<rparr>)
              else (owed, p))"

definition ap_takeFrame :: "'a AudioPacer \<Rightarrow> ('a list \<times> 'a AudioPacer) option" where
  "ap_takeFrame p =
     (if length (ap_queue p) < kFrameFloats then None
      else Some (take kFrameFloats (ap_queue p), p\<lparr>ap_queue := drop kFrameFloats (ap_queue p)\<rparr>))"

definition ap_silence :: "'a::zero list" where
  "ap_silence = replicate kFrameFloats 0"

definition ap_pop :: "'a::zero AudioPacer \<Rightarrow> bool \<times> 'a list \<times> 'a AudioPacer" where
  "ap_pop p =
     (let p = p\<lparr>ap_nextDueUs := ap_nextDueUs p + kFramePeriodUs\<rparr>
      in case ap_takeFrame p of
           Some (out, p) \<Rightarrow> (True, out, p)
         | None \<Rightarrow> (False, ap_silence, p\<lparr>ap_underruns := ap_underruns p + 1\<rparr>))"

datatype Take = Frame | Silence | Deferred

text \<open>A deferral leaves the output buffer alone: nothing is written.\<close>

definition ap_take :: "int \<Rightarrow> 'a::zero AudioPacer \<Rightarrow> Take \<times> 'a list option \<times> 'a AudioPacer" where
  "ap_take nowUs p =
     (case ap_takeFrame p of
        Some (out, p) \<Rightarrow> (Frame, Some out, p\<lparr>ap_nextDueUs := ap_nextDueUs p + kFramePeriodUs\<rparr>)
      | None \<Rightarrow>
          if nowUs - ap_nextDueUs p < kUnderrunGraceUs
          then (Deferred, None, p\<lparr>ap_deferrals := ap_deferrals p + 1\<rparr>)
          else (Silence, Some ap_silence,
                p\<lparr>ap_nextDueUs := ap_nextDueUs p + kFramePeriodUs, ap_underruns := ap_underruns p + 1\<rparr>))"

definition ap_queuedFrames :: "'a AudioPacer \<Rightarrow> nat" where
  "ap_queuedFrames p = length (ap_queue p) div kFrameFloats"

section \<open>Interleaving\<close>

definition sample_at :: "'a::zero list option \<Rightarrow> nat \<Rightarrow> 'a" where
  "sample_at plane i = (case plane of None \<Rightarrow> 0 | Some samples \<Rightarrow> samples ! i)"

text \<open>The planes are a list of buffers, \<open>None\<close> where the pointer is null; no plane at all is the empty list.\<close>

definition interleaveToStereo :: "'a::zero list option list \<Rightarrow> nat \<Rightarrow> 'a list" where
  "interleaveToStereo planes frames =
     (let left = (if length planes > 0 then planes ! 0 else None);
          right = (if length planes > 1 then planes ! 1 else left);
          right = (if right = None then left else right)
      in concat (map (\<lambda>i. [sample_at left i, sample_at right i]) [0..<frames]))"

definition interleavedToStereo :: "'a::zero list option \<Rightarrow> int \<Rightarrow> nat \<Rightarrow> 'a list" where
  "interleavedToStereo input channels frames =
     (case input of
        None \<Rightarrow> replicate (frames * 2) 0
      | Some samples \<Rightarrow>
          if channels \<le> 0 then replicate (frames * 2) 0
          else let stride = nat channels
               in concat (map (\<lambda>i. [samples ! (i * stride),
                                   if channels \<ge> 2 then samples ! (i * stride + 1) else samples ! (i * stride)])
                            [0..<frames]))"

section \<open>The calls of a session\<close>

datatype 'a AudioCall = Start int | Push "'a list" | PushSilence nat | DueFrames int | Pop | TakeAt int

fun ap_call :: "'a::zero AudioCall \<Rightarrow> 'a AudioPacer \<Rightarrow> 'a AudioPacer" where
  "ap_call (Start t) p = ap_start t p"
| "ap_call (Push samples) p = ap_push samples p"
| "ap_call (PushSilence n) p = ap_pushSilence n p"
| "ap_call (DueFrames t) p = snd (ap_dueFrames t p)"
| "ap_call Pop p = snd (snd (ap_pop p))"
| "ap_call (TakeAt t) p = snd (snd (ap_take t p))"

text \<open>What a call captured, and the frame it sent from the queue.\<close>

fun captured :: "'a::zero AudioCall \<Rightarrow> 'a list" where
  "captured (Push samples) = samples"
| "captured (PushSilence n) = replicate (n * kChannels) 0"
| "captured _ = []"

definition takes_frame :: "'a::zero AudioCall \<Rightarrow> 'a AudioPacer \<Rightarrow> bool" where
  "takes_frame e p \<longleftrightarrow> (e = Pop \<or> (\<exists>t. e = TakeAt t)) \<and> kFrameFloats \<le> length (ap_queue p)"

definition ap_inv :: "'a AudioPacer \<Rightarrow> bool" where
  "ap_inv p \<longleftrightarrow> length (ap_queue p) \<le> ap_maxQueuedFloats p \<and> 480 \<le> ap_maxQueuedFloats p \<and>
     ap_maxQueuedFloats p mod 480 = 0"

lemma kFrameFloats_480 [simp]: "kFrameFloats = 480"
  by (simp add: tunables)

lemma ap_trim_drops:
  assumes "480 \<le> ap_maxQueuedFloats p" "ap_maxQueuedFloats p < length (ap_queue p)"
  obtains k where "ap_trim p = p\<lparr>ap_queue := drop (480 * k) (ap_queue p), ap_dropped := ap_dropped p + int k\<rparr>"
    "480 * k \<le> length (ap_queue p)" "length (ap_queue p) - 480 * k \<le> ap_maxQueuedFloats p"
proof -
  define excess where "excess = length (ap_queue p) - ap_maxQueuedFloats p"
  define k where "k = (excess + 479) div 480"
  have k: "excess \<le> 480 * k" "480 * k \<le> excess + 479" by (simp_all add: k_def)
  then have "480 * k \<le> length (ap_queue p)" using assms by (simp add: excess_def)
  moreover have "ap_trim p = p\<lparr>ap_queue := drop (480 * k) (ap_queue p), ap_dropped := ap_dropped p + int k\<rparr>"
  proof -
    have "(479 + excess) div 480 = k" by (simp add: k_def add.commute)
    then show ?thesis
      using assms calculation by (simp add: ap_trim_def excess_def [symmetric] Let_def min_def mult.commute)
  qed
  moreover have "length (ap_queue p) - 480 * k \<le> ap_maxQueuedFloats p" using k assms by (simp add: excess_def)
  ultimately show thesis by (intro that)
qed

lemma ap_trim_inv:
  assumes "480 \<le> ap_maxQueuedFloats p" "ap_maxQueuedFloats p mod 480 = 0"
  shows "ap_inv (ap_trim p)"
proof (cases "ap_maxQueuedFloats p < length (ap_queue p)")
  case True
  show ?thesis
    using assms by (rule_tac ap_trim_drops [OF assms(1) True]) (simp add: ap_inv_def)
next
  case False
  then show ?thesis using assms by (simp add: ap_trim_def ap_inv_def)
qed

lemma ap_call_inv: "ap_inv p \<Longrightarrow> ap_inv (ap_call e p)"
  by (cases e)
    (auto simp: ap_start_def ap_push_def ap_pushSilence_def ap_dueFrames_def ap_pop_def ap_take_def ap_takeFrame_def
      Let_def ap_inv_def intro!: ap_trim_inv [unfolded ap_inv_def])

interpretation pacer: call_machine ap_call ap_inv
  by unfold_locales (rule ap_call_inv)

lemma ap_new_inv: "ap_inv (ap_new n)"
  by (simp add: ap_inv_def ap_new_def)

section \<open>Where the samples go\<close>

text \<open>
  The queue is the tail of all the samples captured so far, cut at a whole frame: the frames in front of it
  were sent or dropped. \<open>ap_taken\<close> counts the frames a call took from the queue.
\<close>

definition ap_taken :: "'a::zero AudioCall \<Rightarrow> 'a AudioPacer \<Rightarrow> int" where
  "ap_taken e p = (if takes_frame e p then 1 else 0)"

lemma ap_take_queue:
  "ap_queue (snd (snd (ap_take t p))) = (if 480 \<le> length (ap_queue p) then drop 480 (ap_queue p) else ap_queue p)"
  "ap_dropped (snd (snd (ap_take t p))) = ap_dropped p"
  "ap_queue (snd (snd (ap_pop p))) = (if 480 \<le> length (ap_queue p) then drop 480 (ap_queue p) else ap_queue p)"
  "ap_dropped (snd (snd (ap_pop p))) = ap_dropped p"
  by (auto simp: ap_take_def ap_pop_def ap_takeFrame_def Let_def)

lemma ap_trim_queue:
  assumes "ap_inv p"
  shows "\<exists>k. ap_queue (ap_trim (p\<lparr>ap_queue := ap_queue p @ samples\<rparr>)) = drop (480 * k) (ap_queue p @ samples) \<and>
    ap_dropped (ap_trim (p\<lparr>ap_queue := ap_queue p @ samples\<rparr>)) = ap_dropped p + int k \<and>
    480 * k \<le> length (ap_queue p @ samples)"
proof (cases "ap_maxQueuedFloats p < length (ap_queue p @ samples)")
  case True
  then show ?thesis
    using assms ap_trim_drops [of "p\<lparr>ap_queue := ap_queue p @ samples\<rparr>"] by (fastforce simp: ap_inv_def)
next
  case False
  then show ?thesis by (intro exI [of _ 0]) (simp add: ap_trim_def)
qed

lemma ap_call_queue:
  assumes "ap_inv p"
  shows "\<exists>k. ap_queue (ap_call e p) = drop (480 * k) (ap_queue p @ captured e) \<and>
    480 * k \<le> length (ap_queue p @ captured e) \<and>
    int k = ap_dropped (ap_call e p) - ap_dropped p + ap_taken e p"
proof (cases e)
  case (Push samples)
  then show ?thesis
    using ap_trim_queue [OF assms, of samples]
    by (cases "samples = []") (auto simp: ap_push_def ap_taken_def takes_frame_def)
next
  case (PushSilence n)
  then show ?thesis
    using ap_trim_queue [OF assms, of "replicate (n * kChannels) 0"]
    by (cases "n = 0") (auto simp: ap_pushSilence_def ap_taken_def takes_frame_def)
next
  case Pop
  then show ?thesis
    by (auto simp: ap_take_queue ap_taken_def takes_frame_def intro: exI [of _ "1 :: nat"] exI [of _ "0 :: nat"])
next
  case (TakeAt t)
  then show ?thesis
    by (auto simp: ap_take_queue ap_taken_def takes_frame_def intro: exI [of _ "1 :: nat"] exI [of _ "0 :: nat"])
qed (auto simp: ap_start_def ap_dueFrames_def Let_def ap_taken_def takes_frame_def)

fun total_captured :: "'a::zero AudioCall list \<Rightarrow> 'a list" where
  "total_captured [] = []"
| "total_captured (e # es) = captured e @ total_captured es"

fun total_taken :: "'a::zero AudioCall list \<Rightarrow> 'a AudioPacer \<Rightarrow> int" where
  "total_taken [] p = 0"
| "total_taken (e # es) p = ap_taken e p + total_taken es (ap_call e p)"

lemma ap_run_queue:
  "ap_inv p \<Longrightarrow> \<exists>k. ap_queue (fold ap_call es p) = drop (480 * k) (ap_queue p @ total_captured es) \<and>
    480 * k \<le> length (ap_queue p @ total_captured es) \<and>
    int k = ap_dropped (fold ap_call es p) - ap_dropped p + total_taken es p"
proof (induction es arbitrary: p)
  case Nil
  then show ?case by (intro exI [of _ 0]) simp
next
  case (Cons e es)
  obtain k where k: "ap_queue (ap_call e p) = drop (480 * k) (ap_queue p @ captured e)"
    "480 * k \<le> length (ap_queue p @ captured e)" "int k = ap_dropped (ap_call e p) - ap_dropped p + ap_taken e p"
    using ap_call_queue [OF Cons.prems] by blast
  obtain m where m: "ap_queue (fold ap_call es (ap_call e p)) = drop (480 * m) (ap_queue (ap_call e p) @ total_captured es)"
    "480 * m \<le> length (ap_queue (ap_call e p) @ total_captured es)"
    "int m = ap_dropped (fold ap_call es (ap_call e p)) - ap_dropped (ap_call e p) + total_taken es (ap_call e p)"
    using Cons.IH [OF ap_call_inv [OF Cons.prems]] by blast
  let ?all = "(ap_queue p @ captured e) @ total_captured es"
  have tail: "ap_queue (ap_call e p) @ total_captured es = drop (480 * k) ?all"
    using k(1,2) by (simp only: drop_append) simp
  have "ap_queue (fold ap_call (e # es) p) = drop (480 * (k + m)) ?all"
    using m(1) unfolding tail drop_drop by (simp add: algebra_simps del: drop_append append_assoc)
  moreover have "480 * (k + m) \<le> length ?all"
    using m(2) k(2) unfolding tail length_drop by (simp del: drop_append)
  moreover have "ap_queue p @ total_captured (e # es) = ?all" by simp
  ultimately show ?case using m(3) k(3) by (intro exI [of _ "k + m"]) simp
qed

section \<open>Properties\<close>

text \<open>C32. The pacer neither loses, repeats nor reorders a sample: after any calls on a fresh pacer, what waits in the
  queue is exactly the captured samples without their first \<open>k\<close> frames, and those \<open>k\<close> are the frames sent
  plus the frames counted as dropped.\<close>

theorem audio_conserved:
  "\<exists>k. ap_queue (fold ap_call es (ap_new n)) = drop (480 * k) (total_captured es) \<and>
    int k = ap_dropped (fold ap_call es (ap_new n)) + total_taken es (ap_new n)"
  using ap_run_queue [OF ap_new_inv, of es n] by (auto simp: ap_new_def)

text \<open>Latency is bounded: whatever the capture and the clock do, the queue never holds more than the frames it was
  made for.\<close>

theorem audio_latency_bound:
  "int (length (ap_queue (fold ap_call es (ap_new n)))) \<le> max 1 n * 480"
proof -
  have fixed: "ap_maxQueuedFloats (ap_call e p) = ap_maxQueuedFloats p" for e and p :: "'a AudioPacer"
    by (cases e) (auto simp: ap_start_def ap_push_def ap_pushSilence_def ap_trim_def ap_dueFrames_def ap_pop_def
        ap_take_def ap_takeFrame_def Let_def split: option.splits)
  have "ap_maxQueuedFloats (fold ap_call es p) = ap_maxQueuedFloats p" for p :: "'a AudioPacer"
    by (induction es arbitrary: p) (simp_all add: fixed)
  moreover have "ap_inv (fold ap_call es (ap_new n :: 'a AudioPacer))" by (rule pacer.inv_calls [OF ap_new_inv])
  moreover have "int (ap_maxQueuedFloats (ap_new n :: 'a AudioPacer)) = max 1 n * 480" by (simp add: ap_new_def)
  ultimately show ?thesis unfolding ap_inv_def by (metis of_nat_le_iff)
qed

text \<open>Sending what is due, with \<open>pop\<close>.\<close>

fun ap_pops :: "nat \<Rightarrow> 'a::zero AudioPacer \<Rightarrow> 'a AudioPacer" where
  "ap_pops 0 p = p"
| "ap_pops (Suc k) p = ap_pops k (snd (snd (ap_pop p)))"

lemma ap_pops_clock:
  "ap_nextDueUs (ap_pops k p) = ap_nextDueUs p + int k * 5000 \<and> ap_started (ap_pops k p) = ap_started p"
  by (induction k arbitrary: p) (auto simp: ap_pop_def ap_takeFrame_def Let_def tunables algebra_simps split: option.splits)

text \<open>The clock is honest: the frames owed at a moment are at most the queue's depth, sending them leaves nothing
  owed at that moment, and the next one falls due within a period.\<close>

theorem audio_clock_catches_up:
  assumes inv: "ap_inv p" and started: "ap_started p" and due: "ap_nextDueUs p \<le> t"
    and k: "ap_dueFrames t p = (k, q)"
  shows "1 \<le> k \<and> k \<le> ap_maxBurst p \<and> fst (ap_dueFrames t (ap_pops (nat k) q)) = 0 \<and>
    t < ap_nextDueUs (ap_pops (nat k) q) \<and> ap_nextDueUs (ap_pops (nat k) q) \<le> t + 5000"
proof -
  have burst: "1 \<le> ap_maxBurst p" using inv by (simp add: ap_inv_def ap_maxBurst_def le_div_geq)
  define owed where "owed = (t - ap_nextDueUs p) div 5000 + 1"
  have owed: "1 \<le> owed" "(owed - 1) * 5000 \<le> t - ap_nextDueUs p" "t - ap_nextDueUs p < owed * 5000"
    using due div_mult_le [of 5000 "t - ap_nextDueUs p"] less_div_mult [of 5000 "t - ap_nextDueUs p"]
    by (simp_all add: owed_def pos_imp_zdiv_nonneg_iff)
  have eq: "ap_dueFrames t p = (if owed > ap_maxBurst p
      then (ap_maxBurst p, p\<lparr>ap_reanchors := ap_reanchors p + 1, ap_nextDueUs := t - (ap_maxBurst p - 1) * 5000\<rparr>)
      else (owed, p))"
    using started due by (simp add: ap_dueFrames_def owed_def Let_def tunables)
  have "1 \<le> k \<and> k \<le> ap_maxBurst p \<and> ap_started q \<and> t < ap_nextDueUs q + k * 5000 \<and> ap_nextDueUs q + k * 5000 \<le> t + 5000"
    using k burst owed started unfolding eq by (auto simp: algebra_simps split: if_splits)
  then show ?thesis using ap_pops_clock [of "nat k" q] by (simp add: ap_dueFrames_def)
qed

text \<open>Silence is the last resort: \<open>take\<close> sends it only when less than a frame is waiting and the frame has been owed
  for two periods; the clock advances exactly when something was sent.\<close>

theorem audio_silence_last_resort:
  assumes "ap_take t p = (result, out, q)"
  shows "(result = Frame \<longleftrightarrow> 480 \<le> length (ap_queue p)) \<and>
    (result = Silence \<longleftrightarrow> length (ap_queue p) < 480 \<and> ap_nextDueUs p + 10000 \<le> t) \<and>
    ap_nextDueUs q = ap_nextDueUs p + (if out = None then 0 else 5000) \<and> (out = None \<longleftrightarrow> result = Deferred)"
  using assms by (auto simp: ap_take_def ap_takeFrame_def tunables split: if_splits)

lemma concat_pairs_nth:
  "i < n \<Longrightarrow> concat (map (\<lambda>i. [f i, g i]) [0..<n]) ! (2 * i) = f i \<and>
   concat (map (\<lambda>i. [f i, g i]) [0..<n]) ! (2 * i + 1) = g i"
proof (induction n)
  case 0
  then show ?case by simp
next
  case (Suc n)
  have len: "length (concat (map (\<lambda>i. [f i, g i]) [0..<n])) = 2 * n" by (induction n) simp_all
  show ?case
  proof (cases "i < n")
    case True
    then show ?thesis using Suc.IH len by (simp add: nth_append)
  next
    case False
    then have "i = n" using Suc.prems by simp
    then show ?thesis using len by (simp add: nth_append)
  qed
qed

text \<open>A plane that is missing on the right is not silence, as the file's header says, but the left channel again: two
  planes with a null second one sound like a mono source.\<close>

theorem missing_right_plane_is_left:
  assumes "i < frames"
  shows "interleaveToStereo [Some left, None] frames ! (2 * i + 1) = left ! i \<and>
    interleaveToStereo [None, Some right] frames ! (2 * i) = 0"
  using concat_pairs_nth [OF assms, of "(!) left" "(!) left"] concat_pairs_nth [OF assms, of "\<lambda>_. 0" "(!) right"]
  by (simp add: interleaveToStereo_def Let_def sample_at_def)

section \<open>Witnesses\<close>

definition running :: "int AudioPacer" where
  "running = ap_start 0 (ap_new 4)"

theorem audio_clock_catches_up_witness:
  "1 \<le> (3 :: int) \<and> fst (ap_dueFrames 17000 (ap_pops (nat 3) running)) = 0"
proof -
  have "ap_inv running" "ap_started running" "ap_nextDueUs running \<le> 17000" "ap_dueFrames 17000 running = (3, running)"
    by code_simp+
  from audio_clock_catches_up [OF this] show ?thesis by blast
qed

theorem audio_silence_last_resort_witness:
  "fst (ap_take 14999 running) = Deferred \<and> (Silence = Silence \<longleftrightarrow> ap_nextDueUs running + 10000 \<le> 15000)"
proof -
  have early: "fst (ap_take 14999 running) = Deferred" by code_simp
  have "ap_take 15000 running =
      (Silence, Some ap_silence, running\<lparr>ap_nextDueUs := 10000, ap_underruns := 1\<rparr>)" by code_simp
  from audio_silence_last_resort [OF this] early show ?thesis by blast
qed

theorem missing_right_plane_is_left_witness:
  "interleaveToStereo [Some [7, 8 :: int], None] 2 ! (2 * 1 + 1) = 8"
proof -
  have "(1 :: nat) < 2" by simp
  from missing_right_plane_is_left [OF this, of "[7, 8 :: int]" "[]"] have
    "interleaveToStereo [Some [7, 8 :: int], None] 2 ! (2 * 1 + 1) = [7, 8] ! 1" by (rule conjunct1)
  then show ?thesis by simp
qed

end
