(* ===== verification/Connection_Guard.thy ===== *)
theory Connection_Guard
  imports MW_Prelude
begin

unbundle bit_operations_syntax

text \<open>
  \<open>ConnectionGuard\<close> (\<open>src/server/ConnectionGuard.h\<close> and \<open>.cpp\<close>): the flood and brute-force limits of the
  HTTPS server, per source address. The hash of the tracked addresses is a map; an address is a
  string. What Qt's \<open>QHostAddress\<close> makes of an address is a parameter, the record \<open>QtNet\<close>.
\<close>

section \<open>Exempt addresses\<close>

datatype HostAddress = NullAddress | IPv4 "32 word" | IPv6 "8 word list"

record QtNet =
  qt_parse :: "string \<Rightarrow> HostAddress"
  qt_isLoopback :: "HostAddress \<Rightarrow> bool"

definition startsWith_ci :: "string \<Rightarrow> string \<Rightarrow> bool" where
  "startsWith_ci s p \<longleftrightarrow> length p \<le> length s \<and> map lower (take (length p) s) = map lower p"

definition isExempt :: "QtNet \<Rightarrow> string \<Rightarrow> bool" where
  "isExempt q ip =
     (if ip = [] then False
      else let h = (if startsWith_ci ip ''::ffff:'' then drop 7 ip else ip);
               h = takeWhile (\<lambda>c. c \<noteq> CHR ''%'') h;
               addr = qt_parse q h
           in if addr = NullAddress then False
              else if qt_isLoopback q addr then True
              else case addr of
                     IPv4 v \<Rightarrow> v AND 0xFF000000 = 0x0A000000 \<or> v AND 0xFFF00000 = 0xAC100000 \<or>
                               v AND 0xFFFF0000 = 0xC0A80000
                   | IPv6 v6 \<Rightarrow> (v6 ! 0 = 0xFE \<and> v6 ! 1 AND 0xC0 = 0x80) \<or> v6 ! 0 AND 0xFE = 0xFC
                   | NullAddress \<Rightarrow> False)"

section \<open>The limits\<close>

definition CONN_WINDOW_MS :: int where
  [tunables]: "CONN_WINDOW_MS = 10000"

definition CONN_MAX_PER_WINDOW :: int where
  [tunables]: "CONN_MAX_PER_WINDOW = 200"

definition AUTHFAIL_WINDOW_MS :: int where
  [tunables]: "AUTHFAIL_WINDOW_MS = 60000"

definition AUTHFAIL_MAX :: int where
  [tunables]: "AUTHFAIL_MAX = 10"

definition BAN_MS :: int where
  [tunables]: "BAN_MS = 600000"

definition IDLE_PURGE_MS :: int where
  [tunables]: "IDLE_PURGE_MS = 300000"

record IpState =
  connTimes :: "int list"
  authFailTimes :: "int list"
  bannedUntilMs :: int
  lastSeenMs :: int

definition ip_new :: IpState where
  "ip_new = \<lparr>connTimes = [], authFailTimes = [], bannedUntilMs = 0, lastSeenMs = 0\<rparr>"

type_synonym guard = "string \<rightharpoonup> IpState"

definition trimWindow :: "int list \<Rightarrow> int \<Rightarrow> int \<Rightarrow> int list" where
  "trimWindow q nowMs windowMs = dropWhile (\<lambda>t. t < nowMs - windowMs) q"

text \<open>\<open>m_state[ip]\<close> creates the entry it does not find.\<close>

definition entry :: "guard \<Rightarrow> string \<Rightarrow> IpState" where
  "entry g ip = (case g ip of None \<Rightarrow> ip_new | Some s \<Rightarrow> s)"

definition ip_allow :: "int \<Rightarrow> IpState \<Rightarrow> bool \<times> IpState" where
  "ip_allow nowMs s =
     (let s = s\<lparr>lastSeenMs := nowMs\<rparr>
      in if nowMs < bannedUntilMs s then (False, s)
         else let s = s\<lparr>connTimes := trimWindow (connTimes s @ [nowMs]) nowMs CONN_WINDOW_MS\<rparr>
              in if int (length (connTimes s)) > CONN_MAX_PER_WINDOW
                 then (False, s\<lparr>bannedUntilMs := nowMs + BAN_MS, connTimes := []\<rparr>)
                 else (True, s))"

definition allowConnection :: "QtNet \<Rightarrow> string \<Rightarrow> int \<Rightarrow> guard \<Rightarrow> bool \<times> guard" where
  "allowConnection q ip nowMs g =
     (if isExempt q ip then (True, g)
      else case ip_allow nowMs (entry g ip) of (allowed, s) \<Rightarrow> (allowed, g(ip \<mapsto> s)))"

definition ip_authFailure :: "int \<Rightarrow> IpState \<Rightarrow> IpState" where
  "ip_authFailure nowMs s =
     (let s = s\<lparr>lastSeenMs := nowMs\<rparr>;
          s = s\<lparr>authFailTimes := trimWindow (authFailTimes s @ [nowMs]) nowMs AUTHFAIL_WINDOW_MS\<rparr>
      in if int (length (authFailTimes s)) \<ge> AUTHFAIL_MAX
         then s\<lparr>bannedUntilMs := nowMs + BAN_MS, authFailTimes := []\<rparr> else s)"

definition reportAuthFailure :: "QtNet \<Rightarrow> string \<Rightarrow> int \<Rightarrow> guard \<Rightarrow> guard" where
  "reportAuthFailure q ip nowMs g =
     (if isExempt q ip then g else g(ip \<mapsto> ip_authFailure nowMs (entry g ip)))"

definition isBanned :: "string \<Rightarrow> int \<Rightarrow> guard \<Rightarrow> bool" where
  "isBanned ip nowMs g = (case g ip of None \<Rightarrow> False | Some s \<Rightarrow> nowMs < bannedUntilMs s)"

definition banSecondsRemaining :: "string \<Rightarrow> int \<Rightarrow> guard \<Rightarrow> int" where
  "banSecondsRemaining ip nowMs g =
     (case g ip of
        None \<Rightarrow> 0
      | Some s \<Rightarrow> if nowMs \<ge> bannedUntilMs s then 0 else i32 ((bannedUntilMs s - nowMs + 999) sdiv 1000))"

definition stale :: "int \<Rightarrow> IpState \<Rightarrow> bool" where
  "stale nowMs s \<longleftrightarrow> \<not> nowMs < bannedUntilMs s \<and> nowMs - lastSeenMs s > IDLE_PURGE_MS"

definition purge :: "int \<Rightarrow> guard \<Rightarrow> guard" where
  "purge nowMs g = (\<lambda>ip. case g ip of None \<Rightarrow> None | Some s \<Rightarrow> if stale nowMs s then None else Some s)"

section \<open>The calls\<close>

datatype GuardCall = Allow string int | AuthFail string int | Purge int

fun call_ms :: "GuardCall \<Rightarrow> int" where
  "call_ms (Allow ip t) = t"
| "call_ms (AuthFail ip t) = t"
| "call_ms (Purge t) = t"

fun guard_call :: "QtNet \<Rightarrow> GuardCall \<Rightarrow> guard \<Rightarrow> guard" where
  "guard_call q (Allow ip t) g = snd (allowConnection q ip t g)"
| "guard_call q (AuthFail ip t) g = reportAuthFailure q ip t g"
| "guard_call q (Purge t) g = purge t g"

text \<open>The guard with the time of its last call: the calls of a server come in the order of its clock.\<close>

definition timed_call :: "QtNet \<Rightarrow> GuardCall \<Rightarrow> int \<times> guard \<Rightarrow> int \<times> guard" where
  "timed_call q e s = (call_ms e, guard_call q e (snd s))"

definition in_order :: "GuardCall \<Rightarrow> int \<times> guard \<Rightarrow> bool" where
  "in_order e s \<longleftrightarrow> fst s \<le> call_ms e"

definition ip_inv :: "int \<Rightarrow> IpState \<Rightarrow> bool" where
  "ip_inv clock s \<longleftrightarrow> sorted (connTimes s) \<and> sorted (authFailTimes s) \<and>
     (\<forall>t \<in> set (connTimes s) \<union> set (authFailTimes s). t \<le> lastSeenMs s) \<and> lastSeenMs s \<le> clock \<and>
     length (connTimes s) \<le> 200 \<and> length (authFailTimes s) \<le> 9 \<and> bannedUntilMs s \<le> max 0 (clock + 600000)"

definition guard_inv :: "QtNet \<Rightarrow> int \<times> guard \<Rightarrow> bool" where
  "guard_inv q s \<longleftrightarrow> (\<forall>ip st. snd s ip = Some st \<longrightarrow> \<not> isExempt q ip \<and> ip_inv (fst s) st)"

section \<open>The invariant\<close>

lemma trimWindow_sorted: "sorted q \<Longrightarrow> trimWindow q now w = filter (\<lambda>t. now - w \<le> t) q"
  unfolding trimWindow_def
proof (induction q)
  case Nil
  then show ?case by simp
next
  case (Cons a q)
  then show ?case by (auto simp: not_less intro!: filter_True [symmetric])
qed

lemma sorted_snoc: "sorted q \<Longrightarrow> \<forall>t \<in> set q. t \<le> now \<Longrightarrow> sorted (q @ [now :: int])"
  by (simp add: sorted_append)

text \<open>One address, one call: the queue is the window's content, and a full window becomes a ban.\<close>

lemma ip_allow_eq:
  assumes "sorted (connTimes s)" "\<forall>t \<in> set (connTimes s). t \<le> now"
  shows "ip_allow now s =
    (if now < bannedUntilMs s then (False, s\<lparr>lastSeenMs := now\<rparr>)
     else if 200 < length (filter (\<lambda>t. now - 10000 \<le> t) (connTimes s)) + 1
     then (False, s\<lparr>lastSeenMs := now, connTimes := [], bannedUntilMs := now + 600000\<rparr>)
     else (True, s\<lparr>lastSeenMs := now, connTimes := filter (\<lambda>t. now - 10000 \<le> t) (connTimes s) @ [now]\<rparr>))"
  using assms by (auto simp: ip_allow_def Let_def tunables trimWindow_sorted sorted_snoc)

lemma ip_authFailure_eq:
  assumes "sorted (authFailTimes s)" "\<forall>t \<in> set (authFailTimes s). t \<le> now"
  shows "ip_authFailure now s =
    (if 10 \<le> length (filter (\<lambda>t. now - 60000 \<le> t) (authFailTimes s)) + 1
     then s\<lparr>lastSeenMs := now, authFailTimes := [], bannedUntilMs := now + 600000\<rparr>
     else s\<lparr>lastSeenMs := now, authFailTimes := filter (\<lambda>t. now - 60000 \<le> t) (authFailTimes s) @ [now]\<rparr>)"
  using assms by (auto simp: ip_authFailure_def Let_def tunables trimWindow_sorted sorted_snoc)

lemma ip_inv_new: "0 \<le> clock \<Longrightarrow> ip_inv clock ip_new"
  by (simp add: ip_inv_def ip_new_def)

lemma ip_inv_mono: "ip_inv clock s \<Longrightarrow> clock \<le> clock' \<Longrightarrow> ip_inv clock' s"
  by (auto simp: ip_inv_def)

lemma entry_inv: "guard_inv q (clock, g) \<Longrightarrow> 0 \<le> clock \<Longrightarrow> ip_inv clock (entry g ip)"
  by (auto simp: guard_inv_def entry_def ip_inv_new split: option.splits)

lemma ip_inv_times: "ip_inv clock s \<Longrightarrow> clock \<le> now \<Longrightarrow> t \<in> set (connTimes s) \<union> set (authFailTimes s) \<Longrightarrow> t \<le> now"
  unfolding ip_inv_def by force

lemma ip_allow_inv:
  assumes inv: "ip_inv clock s" and c: "clock \<le> now" "0 \<le> clock"
  shows "ip_inv now (snd (ip_allow now s))"
proof -
  have eq: "ip_allow now s =
    (if now < bannedUntilMs s then (False, s\<lparr>lastSeenMs := now\<rparr>)
     else if 200 < length (filter (\<lambda>t. now - 10000 \<le> t) (connTimes s)) + 1
     then (False, s\<lparr>lastSeenMs := now, connTimes := [], bannedUntilMs := now + 600000\<rparr>)
     else (True, s\<lparr>lastSeenMs := now, connTimes := filter (\<lambda>t. now - 10000 \<le> t) (connTimes s) @ [now]\<rparr>))"
    by (rule ip_allow_eq) (use inv ip_inv_times [OF inv c(1)] in \<open>auto simp: ip_inv_def\<close>)
  have le: "\<And>t. t \<in> set (connTimes s) \<union> set (authFailTimes s) \<Longrightarrow> t \<le> now" using ip_inv_times [OF inv c(1)] .
  show ?thesis
    using inv le c unfolding eq ip_inv_def by (auto simp: sorted_append sorted_wrt_filter)
qed

lemma ip_authFailure_inv:
  assumes inv: "ip_inv clock s" and c: "clock \<le> now" "0 \<le> clock"
  shows "ip_inv now (ip_authFailure now s)"
proof -
  have eq: "ip_authFailure now s =
    (if 10 \<le> length (filter (\<lambda>t. now - 60000 \<le> t) (authFailTimes s)) + 1
     then s\<lparr>lastSeenMs := now, authFailTimes := [], bannedUntilMs := now + 600000\<rparr>
     else s\<lparr>lastSeenMs := now, authFailTimes := filter (\<lambda>t. now - 60000 \<le> t) (authFailTimes s) @ [now]\<rparr>)"
    by (rule ip_authFailure_eq) (use inv ip_inv_times [OF inv c(1)] in \<open>auto simp: ip_inv_def\<close>)
  have le: "\<And>t. t \<in> set (connTimes s) \<union> set (authFailTimes s) \<Longrightarrow> t \<le> now" using ip_inv_times [OF inv c(1)] .
  show ?thesis
    using inv le c unfolding eq ip_inv_def by (auto simp: sorted_append sorted_wrt_filter)
qed

definition timed_inv :: "QtNet \<Rightarrow> int \<times> guard \<Rightarrow> bool" where
  "timed_inv q s \<longleftrightarrow> 0 \<le> fst s \<and> guard_inv q s"

lemma guard_call_at:
  "guard_call q e g ip = (case e of
     Allow ip' t \<Rightarrow> if ip = ip' \<and> \<not> isExempt q ip then Some (snd (ip_allow t (entry g ip))) else g ip
   | AuthFail ip' t \<Rightarrow> if ip = ip' \<and> \<not> isExempt q ip then Some (ip_authFailure t (entry g ip)) else g ip
   | Purge t \<Rightarrow> (case g ip of None \<Rightarrow> None | Some s \<Rightarrow> if stale t s then None else Some s))"
  by (cases e) (auto simp: allowConnection_def reportAuthFailure_def purge_def split: prod.splits)

lemma timed_call_inv:
  assumes "timed_inv q s" "in_order e s"
  shows "timed_inv q (timed_call q e s)"
proof -
  obtain clock g where s: "s = (clock, g)" by (cases s)
  have c: "0 \<le> clock" "clock \<le> call_ms e" and inv: "guard_inv q (clock, g)"
    using assms by (simp_all add: s timed_inv_def in_order_def)
  have old: "g ip = Some st \<Longrightarrow> \<not> isExempt q ip \<and> ip_inv (call_ms e) st" for ip st
    using inv c by (auto simp: guard_inv_def intro: ip_inv_mono)
  have allow: "ip_inv t (snd (ip_allow t (entry g ip)))" if "clock \<le> t" for t ip
    by (rule ip_allow_inv [OF entry_inv [OF inv c(1)] that c(1)])
  have fail: "ip_inv t (ip_authFailure t (entry g ip))" if "clock \<le> t" for t ip
    by (rule ip_authFailure_inv [OF entry_inv [OF inv c(1)] that c(1)])
  have "guard_inv q (call_ms e, guard_call q e g)"
    unfolding guard_inv_def snd_conv fst_conv guard_call_at
    using old allow fail c(2) by (auto split: GuardCall.splits if_splits option.splits)
  then show ?thesis using c by (simp add: timed_inv_def timed_call_def s)
qed

interpretation guard: guarded_machine "timed_call q" in_order "timed_inv q" for q
  by unfold_locales (rule timed_call_inv)

lemma guard_start: "0 \<le> t0 \<Longrightarrow> timed_inv q (t0, Map.empty)"
  by (simp add: timed_inv_def guard_inv_def)

section \<open>The connections an address was granted\<close>

definition grants :: "QtNet \<Rightarrow> string \<Rightarrow> GuardCall \<Rightarrow> guard \<Rightarrow> int list" where
  "grants q ip e g =
     (case e of Allow ip' t \<Rightarrow> if ip' = ip \<and> fst (allowConnection q ip t g) then [t] else [] | _ \<Rightarrow> [])"

fun granted :: "QtNet \<Rightarrow> string \<Rightarrow> GuardCall list \<Rightarrow> guard \<Rightarrow> int list" where
  "granted q ip [] g = []"
| "granted q ip (e # es) g = grants q ip e g @ granted q ip es (guard_call q e g)"

text \<open>
  The queue of an address is what it was granted from some moment on, and that moment is at least a window
  before any time it can be granted again.
\<close>

definition window_inv :: "string \<Rightarrow> int list \<Rightarrow> int \<times> guard \<Rightarrow> bool" where
  "window_inv ip past s \<longleftrightarrow>
     (\<forall>t \<in> set past. t \<le> fst s) \<and>
     (\<forall>st. snd s ip = Some st \<longrightarrow> (\<forall>t \<in> set past. t \<le> lastSeenMs st)) \<and>
     (\<exists>k. connTimes (entry (snd s) ip) = filter (\<lambda>t. k \<le> t) past \<and>
        k \<le> max (fst s) (bannedUntilMs (entry (snd s) ip)) - 10000)"

lemma filter_none: "(\<forall>t \<in> set xs. t < (k :: int)) \<Longrightarrow> filter (\<lambda>t. k \<le> t) xs = []"
  by (induction xs) auto

lemma filter_later: "k \<le> (j :: int) \<Longrightarrow> filter (\<lambda>t. j \<le> t) (filter (\<lambda>t. k \<le> t) xs) = filter (\<lambda>t. j \<le> t) xs"
  by (induction xs) auto

lemma window_keep:
  assumes "window_inv ip past (clock, g)" "clock \<le> now" "g' ip = Some st"
    "connTimes st = connTimes (entry g ip)" "bannedUntilMs (entry g ip) \<le> max now (bannedUntilMs st)" "lastSeenMs st = now"
  shows "window_inv ip past (now, g')"
proof -
  obtain k where k: "connTimes (entry g ip) = filter (\<lambda>t. k \<le> t) past"
    "k \<le> max clock (bannedUntilMs (entry g ip)) - 10000"
    using assms(1) by (auto simp: window_inv_def)
  have "k \<le> max now (bannedUntilMs st) - 10000" using k(2) assms(2,5) by simp
  moreover have "\<forall>t \<in> set past. t \<le> now" using assms(1,2) by (auto simp: window_inv_def)
  moreover have "entry g' ip = st" using assms(3) by (simp add: entry_def)
  ultimately show ?thesis using k(1) assms(3,4,6) by (auto simp: window_inv_def)
qed

lemma window_elsewhere:
  assumes "window_inv ip past (clock, g)" "clock \<le> now" "g' ip = g ip"
  shows "window_inv ip past (now, g')"
proof -
  obtain k where k: "connTimes (entry g ip) = filter (\<lambda>t. k \<le> t) past"
    "k \<le> max clock (bannedUntilMs (entry g ip)) - 10000"
    using assms(1) by (auto simp: window_inv_def)
  have e: "entry g' ip = entry g ip" using assms(3) by (simp add: entry_def)
  have "k \<le> max now (bannedUntilMs (entry g' ip)) - 10000" using k(2) assms(2) by (simp add: e)
  moreover have "\<forall>t \<in> set past. t \<le> now" using assms(1,2) by (auto simp: window_inv_def)
  moreover have "\<forall>st. g' ip = Some st \<longrightarrow> (\<forall>t \<in> set past. t \<le> lastSeenMs st)"
    using assms(1,3) by (simp add: window_inv_def)
  ultimately show ?thesis using k(1) e by (auto simp: window_inv_def)
qed

lemma window_allow:
  assumes inv: "timed_inv q (clock, g)" and win: "window_inv ip past (clock, g)"
    and c: "clock \<le> now" and pub: "\<not> isExempt q ip"
  shows "window_inv ip (past @ grants q ip (Allow ip now) g) (now, guard_call q (Allow ip now) g)"
    and "fst (allowConnection q ip now g) \<Longrightarrow>
      length (filter (\<lambda>t. now - 10000 \<le> t) (past @ [now])) \<le> 200"
proof -
  let ?s = "entry g ip" and ?g = "guard_call q (Allow ip now) g"
  have s: "ip_inv clock ?s" using inv by (auto simp: timed_inv_def intro: entry_inv)
  have eq: "ip_allow now ?s =
    (if now < bannedUntilMs ?s then (False, ?s\<lparr>lastSeenMs := now\<rparr>)
     else if 200 < length (filter (\<lambda>t. now - 10000 \<le> t) (connTimes ?s)) + 1
     then (False, ?s\<lparr>lastSeenMs := now, connTimes := [], bannedUntilMs := now + 600000\<rparr>)
     else (True, ?s\<lparr>lastSeenMs := now, connTimes := filter (\<lambda>t. now - 10000 \<le> t) (connTimes ?s) @ [now]\<rparr>))"
    by (rule ip_allow_eq) (use s ip_inv_times [OF s c] in \<open>auto simp: ip_inv_def\<close>)
  have g: "?g ip = Some (snd (ip_allow now ?s))" using pub by (simp add: guard_call_at del: guard_call.simps)
  have fst: "fst (allowConnection q ip now g) = fst (ip_allow now ?s)"
    using pub by (simp add: allowConnection_def split: prod.splits)
  have past: "\<forall>t \<in> set past. t \<le> now" using win c by (auto simp: window_inv_def)
  obtain k where k: "connTimes ?s = filter (\<lambda>t. k \<le> t) past" "k \<le> max clock (bannedUntilMs ?s) - 10000"
    using win by (auto simp: window_inv_def)
  have conn: "filter (\<lambda>t. now - 10000 \<le> t) (connTimes ?s) = filter (\<lambda>t. now - 10000 \<le> t) past"
    if "\<not> now < bannedUntilMs ?s"
    unfolding k(1) by (rule filter_later) (use k(2) c that in simp)
  consider (banned) "now < bannedUntilMs ?s"
    | (flood) "\<not> now < bannedUntilMs ?s" "200 < length (filter (\<lambda>t. now - 10000 \<le> t) (connTimes ?s)) + 1"
    | (ok) "\<not> now < bannedUntilMs ?s" "\<not> 200 < length (filter (\<lambda>t. now - 10000 \<le> t) (connTimes ?s)) + 1"
    by blast
  note cases = this
  show "window_inv ip (past @ grants q ip (Allow ip now) g) (now, ?g)"
    using cases
  proof cases
    case banned
    then show ?thesis
      using window_keep [of ip past clock g now ?g, OF win c g] by (simp add: eq grants_def fst del: guard_call.simps)
  next
    case flood
    then have "connTimes (entry ?g ip) = filter (\<lambda>t. now + 1 \<le> t) past" "bannedUntilMs (entry ?g ip) = now + 600000"
      using g eq past filter_none [of past "now + 1"] by (simp_all add: entry_def del: guard_call.simps)
    then show ?thesis
      using flood past g eq
      by (auto simp: window_inv_def grants_def fst simp del: guard_call.simps intro!: exI [of _ "now + 1"])
  next
    case ok
    then have "connTimes (entry ?g ip) = filter (\<lambda>t. now - 10000 \<le> t) (past @ [now])"
      using g eq conn [OF ok(1)] by (simp add: entry_def del: guard_call.simps)
    then show ?thesis
      using ok past g eq
      by (auto simp: window_inv_def grants_def fst simp del: guard_call.simps intro!: exI [of _ "now - 10000"])
  qed
  assume "fst (allowConnection q ip now g)"
  then have ok: "\<not> now < bannedUntilMs ?s" "\<not> 200 < length (filter (\<lambda>t. now - 10000 \<le> t) (connTimes ?s)) + 1"
    using eq by (auto simp: fst split: if_splits)
  then show "length (filter (\<lambda>t. now - 10000 \<le> t) (past @ [now])) \<le> 200"
    using conn [OF ok(1)] by simp
qed

lemma window_step:
  assumes inv: "timed_inv q (clock, g)" and win: "window_inv ip past (clock, g)"
    and c: "clock \<le> call_ms e" and pub: "\<not> isExempt q ip"
  shows "window_inv ip (past @ grants q ip e g) (timed_call q e (clock, g))"
proof (cases e)
  case (Allow ip' t)
  show ?thesis
  proof (cases "ip' = ip")
    case True
    then show ?thesis using window_allow(1) [OF inv win _ pub, of t] c Allow by (simp add: timed_call_def)
  next
    case False
    then show ?thesis
      using window_elsewhere [of ip past clock g t "guard_call q e g", OF win] c Allow
      by (simp add: timed_call_def grants_def guard_call_at del: guard_call.simps)
  qed
next
  case (AuthFail ip' t)
  have g: "grants q ip e g = []" by (simp add: grants_def AuthFail)
  show ?thesis
  proof (cases "ip' = ip")
    case True
    have s: "ip_inv clock (entry g ip)" using inv by (auto simp: timed_inv_def intro: entry_inv)
    have at: "guard_call q e g ip = Some (ip_authFailure t (entry g ip))"
      using pub True AuthFail by (simp add: guard_call_at del: guard_call.simps)
    have "connTimes (ip_authFailure t (entry g ip)) = connTimes (entry g ip)"
      "lastSeenMs (ip_authFailure t (entry g ip)) = t"
      "bannedUntilMs (ip_authFailure t (entry g ip)) \<in> {bannedUntilMs (entry g ip), t + 600000}"
      by (auto simp: ip_authFailure_def Let_def tunables)
    moreover have "bannedUntilMs (entry g ip) \<le> t + 600000" using s c AuthFail inv by (auto simp: ip_inv_def timed_inv_def)
    ultimately show ?thesis
      using window_keep [of ip past clock g t "guard_call q e g", OF win _ at] c AuthFail g
      by (auto simp: timed_call_def simp del: guard_call.simps)
  next
    case False
    then show ?thesis
      using window_elsewhere [of ip past clock g t "guard_call q e g", OF win] c AuthFail g
      by (simp add: timed_call_def guard_call_at del: guard_call.simps)
  qed
next
  case (Purge t)
  have g: "grants q ip e g = []" by (simp add: grants_def Purge)
  show ?thesis
  proof (cases "\<exists>st. g ip = Some st \<and> stale t st")
    case False
    then show ?thesis
      using window_elsewhere [of ip past clock g t "guard_call q e g", OF win] c Purge g
      by (auto simp: timed_call_def guard_call_at simp del: guard_call.simps split: option.splits)
  next
    case True
    then obtain st where st: "g ip = Some st" "stale t st" by blast
    then have gone: "purge t g ip = None" by (simp add: purge_def)
    have "\<forall>a \<in> set past. a < t - 300000"
      using win st by (force simp: window_inv_def stale_def tunables)
    then have none: "filter (\<lambda>a. t - 300000 \<le> a) past = []" by (rule filter_none)
    have past: "\<forall>a \<in> set past. a \<le> t" using win c Purge by (auto simp: window_inv_def)
    have fresh: "connTimes (entry (purge t g) ip) = filter (\<lambda>a. t - 300000 \<le> a) past"
      "bannedUntilMs (entry (purge t g) ip) = 0"
      using none gone by (simp_all add: entry_def ip_new_def)
    have "t - 300000 \<le> max t (bannedUntilMs (entry (purge t g) ip)) - 10000" by simp
    then have "window_inv ip past (t, purge t g)"
      unfolding window_inv_def fst_conv snd_conv using past gone fresh(1) by (intro conjI exI [of _ "t - 300000"]) simp_all
    then show ?thesis by (simp add: timed_call_def Purge grants_def)
  qed
qed

lemma timed_call_pair: "timed_call q e (clock, g) = (call_ms e, guard_call q e g)"
  by (simp add: timed_call_def)

lemma window_run:
  "timed_inv q (clock, g) \<Longrightarrow> window_inv ip past (clock, g) \<Longrightarrow> \<not> isExempt q ip \<Longrightarrow>
   legal in_order (timed_call q) es (clock, g) \<Longrightarrow>
   window_inv ip (past @ granted q ip es g) (fold (timed_call q) es (clock, g))"
proof (induction es arbitrary: clock g past)
  case Nil
  then show ?case by simp
next
  case (Cons e es)
  have c: "clock \<le> call_ms e" using Cons.prems(4) by (simp add: in_order_def)
  have "timed_inv q (timed_call q e (clock, g))"
    using Cons.prems by (intro timed_call_inv) simp_all
  then have "timed_inv q (call_ms e, guard_call q e g)" by (simp add: timed_call_pair)
  moreover have "window_inv ip (past @ grants q ip e g) (call_ms e, guard_call q e g)"
    using window_step [OF Cons.prems(1,2) c Cons.prems(3)] by (simp add: timed_call_pair)
  ultimately show ?case
    using Cons.IH [of "call_ms e" "guard_call q e g" "past @ grants q ip e g"] Cons.prems(3,4)
    by (simp add: timed_call_pair)
qed

lemma window_start: "window_inv ip [] (t0, Map.empty)"
  by (auto simp: window_inv_def entry_def ip_new_def intro!: exI [of _ "t0 - 10000"])

section \<open>Bans\<close>

lemma ban_step:
  assumes inv: "timed_inv q (clock, g)" and s: "g ip = Some s" "u \<le> bannedUntilMs s"
    and time: "clock \<le> call_ms e" "call_ms e < u"
  shows "\<exists>s'. guard_call q e g ip = Some s' \<and> u \<le> bannedUntilMs s'"
proof -
  have bound: "bannedUntilMs s \<le> call_ms e + 600000"
    using inv s time by (force simp: timed_inv_def guard_inv_def ip_inv_def)
  have allow: "u \<le> bannedUntilMs (snd (ip_allow t s))" if "t < u" for t
    using that s by (auto simp: ip_allow_def Let_def)
  have fail: "u \<le> bannedUntilMs (ip_authFailure (call_ms e) s)"
    using bound s by (auto simp: ip_authFailure_def Let_def tunables)
  have entry: "entry g ip = s" using s by (simp add: entry_def)
  show ?thesis
    using s allow fail time entry
    by (cases e) (auto simp: guard_call_at stale_def simp del: guard_call.simps)
qed

lemma in_order_times:
  "legal in_order (timed_call q) (es @ [e]) (clock, g) \<Longrightarrow> clock \<le> call_ms e \<and> (\<forall>e' \<in> set es. call_ms e' \<le> call_ms e)"
proof (induction es arbitrary: clock g)
  case Nil
  then show ?case by (simp add: in_order_def)
next
  case (Cons e' es)
  then show ?case by (force simp: timed_call_pair in_order_def)
qed

lemma ban_run:
  "timed_inv q (clock, g) \<Longrightarrow> g ip = Some s \<Longrightarrow> u \<le> bannedUntilMs s \<Longrightarrow>
   legal in_order (timed_call q) (es @ [Allow ip now]) (clock, g) \<Longrightarrow> now < u \<Longrightarrow>
   \<exists>s. snd (fold (timed_call q) es (clock, g)) ip = Some s \<and> u \<le> bannedUntilMs s"
proof (induction es arbitrary: clock g s)
  case Nil
  then show ?case by auto
next
  case (Cons e es)
  have time: "clock \<le> call_ms e" "call_ms e < u"
    using in_order_times [OF Cons.prems(4)] Cons.prems(4,5) by (auto simp: in_order_def)
  obtain s' where s': "guard_call q e g ip = Some s'" "u \<le> bannedUntilMs s'"
    using ban_step [OF Cons.prems(1-3) time] by blast
  have "timed_inv q (timed_call q e (clock, g))" using Cons.prems by (intro timed_call_inv) simp_all
  then show ?case
    using Cons.IH [of "call_ms e" "guard_call q e g" s'] s' Cons.prems(4,5) by (simp add: timed_call_pair)
qed

section \<open>Properties\<close>

text \<open>C22. No public address gets more than 200 connections in any ten seconds: whenever one is granted, at the end of any
  calls on the server's clock (bans, failures and purges among them), at most 200 were granted in the ten
  seconds up to it, itself included.\<close>

theorem flood_bound:
  assumes clock: "0 \<le> t0" and legal: "legal in_order (timed_call q) (es @ [Allow ip now]) (t0, Map.empty)"
    and pub: "\<not> isExempt q ip" and g: "g = snd (fold (timed_call q) es (t0, Map.empty))"
    and ok: "fst (allowConnection q ip now g)"
  shows "length (filter (\<lambda>t. now - 10000 \<le> t) (granted q ip es Map.empty @ [now])) \<le> 200"
proof -
  obtain c where c: "fold (timed_call q) es (t0, Map.empty) = (c, g)" by (metis g prod.collapse)
  have inv: "timed_inv q (c, g)" using guard.inv_run [OF guard_start [OF clock], of q es] legal c by simp
  have win: "window_inv ip (granted q ip es Map.empty) (c, g)"
    using window_run [OF guard_start [OF clock] window_start pub, of es] legal c by simp
  have "c \<le> now" using legal c by (simp add: in_order_def)
  from window_allow(2) [OF inv win this pub ok] show ?thesis .
qed

text \<open>A ban holds: once an address is banned until some moment, every connection it tries before that moment is refused,
  whatever calls come in between: other attempts, more failures, purges.\<close>

theorem ban_holds:
  assumes inv: "timed_inv q (clock, g)" and banned: "g ip = Some s" and until: "u = bannedUntilMs s"
    and legal: "legal in_order (timed_call q) (es @ [Allow ip now]) (clock, g)" and before: "now < u"
  shows "\<not> fst (allowConnection q ip now (snd (fold (timed_call q) es (clock, g))))"
proof -
  have pub: "\<not> isExempt q ip" using inv banned by (auto simp: timed_inv_def guard_inv_def)
  have "\<exists>s. snd (fold (timed_call q) es (clock, g)) ip = Some s \<and> u \<le> bannedUntilMs s"
    using ban_run [OF inv banned _ _ before, of es] legal until by simp
  then show ?thesis
    using pub before by (auto simp: allowConnection_def ip_allow_def entry_def Let_def split: prod.splits)
qed

text \<open>The guard's memory is bounded and trusted clients are not in it: after any calls on the server's clock, an address
  it tracks is not exempt, and holds at most 200 connection times and 9 failure times.\<close>

theorem guard_memory_bounded:
  assumes "0 \<le> t0" "legal in_order (timed_call q) es (t0, Map.empty)"
    and "snd (fold (timed_call q) es (t0, Map.empty)) ip = Some s"
  shows "\<not> isExempt q ip \<and> length (connTimes s) \<le> 200 \<and> length (authFailTimes s) \<le> 9"
  using guard.inv_run [OF guard_start [OF assms(1)] assms(2)] assms(3)
  by (auto simp: timed_inv_def guard_inv_def ip_inv_def)

text \<open>A purge is invisible: from then on, every question about every address (is it banned, for how long, is its next
  connection allowed) has the answer it would have had without the purge.\<close>

theorem purge_invisible:
  assumes inv: "timed_inv q (clock, g)" and time: "clock \<le> now" "now \<le> t"
  shows "fst (allowConnection q ip t (purge now g)) = fst (allowConnection q ip t g) \<and>
    isBanned ip t (purge now g) = isBanned ip t g \<and>
    banSecondsRemaining ip t (purge now g) = banSecondsRemaining ip t g"
proof (cases "\<exists>s. g ip = Some s \<and> stale now s")
  case False
  then have "purge now g ip = g ip" by (auto simp: purge_def split: option.splits)
  then show ?thesis
    by (simp add: allowConnection_def entry_def isBanned_def banSecondsRemaining_def split: prod.splits)
next
  case True
  then obtain s where s: "g ip = Some s" "stale now s" by blast
  have i: "ip_inv clock s" "0 \<le> clock" using inv s by (auto simp: timed_inv_def guard_inv_def)
  have old: "\<forall>a \<in> set (connTimes s). a < t - 10000" "\<not> t < bannedUntilMs s" "0 \<le> t"
    using i s time by (force simp: ip_inv_def stale_def tunables)+
  have "ip_allow t s = (True, s\<lparr>lastSeenMs := t, connTimes := filter (\<lambda>a. t - 10000 \<le> a) (connTimes s) @ [t]\<rparr>)"
    using old i(1) filter_none [OF old(1)] by (subst ip_allow_eq) (force simp: ip_inv_def)+
  then have "fst (ip_allow t s) = True" by simp
  moreover have "fst (ip_allow t ip_new) = True"
    using old(3) by (simp add: ip_allow_def ip_new_def trimWindow_def tunables)
  moreover have "purge now g ip = None" using s by (simp add: purge_def)
  ultimately show ?thesis
    using s old by (auto simp: allowConnection_def entry_def isBanned_def banSecondsRemaining_def split: prod.splits)
qed

section \<open>Witnesses\<close>

text \<open>A network where no address parses as a private one, and a burst of 201 connections within a second.\<close>

definition public_net :: QtNet where
  "public_net = \<lparr>qt_parse = (\<lambda>_. IPv4 0x08080808), qt_isLoopback = (\<lambda>_. False)\<rparr>"

lemma public [simp]: "\<not> isExempt public_net ip"
  by (simp add: isExempt_def public_net_def Let_def)

definition three_tries :: "GuardCall list" where
  "three_tries = [Allow ''a'' 1000, AuthFail ''a'' 1500, Purge 1600, Allow ''a'' 2000]"

lemma three_tries_legal:
  "legal in_order (timed_call public_net) (three_tries @ [Allow ''a'' 2500]) (0, Map.empty)"
  by (simp add: three_tries_def in_order_def timed_call_def)

theorem flood_bound_witness:
  "length (filter (\<lambda>t. 2500 - 10000 \<le> t) (granted public_net ''a'' three_tries Map.empty @ [2500])) \<le> 200"
proof (rule flood_bound [OF order_refl three_tries_legal _ refl])
  show "fst (allowConnection public_net ''a'' 2500 (snd (fold (timed_call public_net) three_tries (0, Map.empty))))"
    by (simp add: three_tries_def timed_call_def allowConnection_def ip_allow_def entry_def ip_new_def
        reportAuthFailure_def ip_authFailure_def purge_def stale_def trimWindow_def tunables)
qed simp

definition banned_state :: guard where
  "banned_state = [''a'' \<mapsto> \<lparr>connTimes = [], authFailTimes = [], bannedUntilMs = 601000, lastSeenMs = 1000\<rparr>]"

lemma banned_state_inv: "timed_inv public_net (1000, banned_state)"
  by (auto simp: timed_inv_def guard_inv_def ip_inv_def banned_state_def)

theorem ban_holds_witness:
  "\<not> fst (allowConnection public_net ''a'' 600999
     (snd (fold (timed_call public_net) [AuthFail ''a'' 2000, Purge 500000] (1000, banned_state))))"
proof -
  let ?s = "\<lparr>connTimes = [], authFailTimes = [], bannedUntilMs = 601000, lastSeenMs = 1000\<rparr>"
  have "banned_state ''a'' = Some ?s" "601000 = bannedUntilMs ?s" by (simp_all add: banned_state_def)
  moreover have "legal in_order (timed_call public_net) ([AuthFail ''a'' 2000, Purge 500000] @ [Allow ''a'' 600999])
      (1000, banned_state)" by (simp add: in_order_def timed_call_def)
  ultimately show ?thesis by (rule ban_holds [OF banned_state_inv]) simp
qed

theorem guard_memory_bounded_witness:
  "length (connTimes \<lparr>connTimes = [1000], authFailTimes = [], bannedUntilMs = 0, lastSeenMs = 1000\<rparr>) \<le> 200"
proof -
  have "legal in_order (timed_call public_net) [Allow ''a'' 1000] (0, Map.empty)" by (simp add: in_order_def)
  moreover have "snd (fold (timed_call public_net) [Allow ''a'' 1000] (0, Map.empty)) ''a'' =
      Some \<lparr>connTimes = [1000], authFailTimes = [], bannedUntilMs = 0, lastSeenMs = 1000\<rparr>"
    by (simp add: timed_call_def allowConnection_def ip_allow_def entry_def ip_new_def trimWindow_def tunables)
  ultimately show ?thesis using guard_memory_bounded [of 0 public_net "[Allow ''a'' 1000]" "''a''"] by blast
qed

theorem purge_invisible_witness:
  "fst (allowConnection public_net ''a'' 700000 (purge 650000 banned_state)) =
   fst (allowConnection public_net ''a'' 700000 banned_state)"
  using purge_invisible [OF banned_state_inv, of 650000 700000] by simp

section \<open>Failures and bans\<close>


definition failures :: "string \<Rightarrow> int \<Rightarrow> GuardCall list \<Rightarrow> nat" where
  "failures ip now es = length (filter (\<lambda>e. case e of AuthFail ip' t \<Rightarrow> ip' = ip \<and> now - 60000 \<le> t | _ \<Rightarrow> False) es)"

definition counted :: "string \<Rightarrow> int \<Rightarrow> nat \<Rightarrow> guard \<Rightarrow> bool" where
  "counted ip now k g \<longleftrightarrow> now < bannedUntilMs (entry g ip) \<or>
     k \<le> length (filter (\<lambda>t. now - 60000 \<le> t) (authFailTimes (entry g ip)))"

lemma counted_step:
  assumes inv: "timed_inv q (clock, g)" and time: "clock \<le> call_ms e" "call_ms e \<le> now" and pub: "\<not> isExempt q ip"
    and k: "counted ip now k g" "k = 0 \<or> now - 60000 \<le> call_ms e"
  shows "counted ip now (k + failures ip now [e]) (guard_call q e g)"
proof -
  let ?s = "entry g ip"
  have c: "0 \<le> clock" and s: "ip_inv clock ?s" using inv by (auto simp: timed_inv_def intro: entry_inv)
  have le: "\<forall>t \<in> set (authFailTimes ?s). t \<le> call_ms e"
    using ip_inv_times[OF s time(1)] by blast
  show ?thesis
  proof (cases e)
    case (Allow ip' t)
    have "counted ip now k (g(ip \<mapsto> snd (ip_allow t ?s)))"
      using k(1) time Allow by (auto simp: counted_def entry_def ip_allow_def Let_def tunables split: option.splits)
    then show ?thesis using k(1) Allow pub
      by (auto simp: failures_def allowConnection_def counted_def entry_def split: prod.splits option.splits)
  next
    case (AuthFail ip' t)
    have eq: "ip_authFailure t ?s =
      (if 10 \<le> length (filter (\<lambda>u. t - 60000 \<le> u) (authFailTimes ?s)) + 1
       then ?s\<lparr>lastSeenMs := t, authFailTimes := [], bannedUntilMs := t + 600000\<rparr>
       else ?s\<lparr>lastSeenMs := t, authFailTimes := filter (\<lambda>u. t - 60000 \<le> u) (authFailTimes ?s) @ [t]\<rparr>)"
      by (rule ip_authFailure_eq) (use s le AuthFail in \<open>auto simp: ip_inv_def\<close>)
    have keep: "filter (\<lambda>u. t - 60000 \<le> u \<and> now - 60000 \<le> u) xs = filter (\<lambda>u. now - 60000 \<le> u) xs" for xs
      using time AuthFail by (intro filter_cong) auto
    show ?thesis
    proof (cases "ip' = ip")
      case True
      then have at: "entry (guard_call q e g) ip = ip_authFailure t ?s"
        using pub AuthFail by (simp add: reportAuthFailure_def entry_def)
      have f: "failures ip now [e] = (if now - 60000 \<le> t then 1 else 0)" using True AuthFail by (simp add: failures_def)
      show ?thesis using k time AuthFail unfolding counted_def at eq f by (auto simp: keep split: if_splits)
    next
      case False
      then show ?thesis using k(1) AuthFail by (simp add: failures_def counted_def reportAuthFailure_def entry_def)
    qed
  next
    case (Purge t)
    have "k = 0" if old: "stale t ?s" and free: "\<not> now < bannedUntilMs ?s"
    proof (rule ccontr)
      assume "k \<noteq> 0"
      then have "filter (\<lambda>u. now - 60000 \<le> u) (authFailTimes ?s) \<noteq> []"
        using k(1) free by (auto simp: counted_def)
      then obtain u where "u \<in> set (authFailTimes ?s)" "now - 60000 \<le> u" by (auto simp: filter_empty_conv)
      then have "now - 60000 \<le> lastSeenMs ?s" using s unfolding ip_inv_def by (metis UnI2 order_trans)
      then show False using old time Purge by (simp add: stale_def tunables)
    qed
    then show ?thesis using k(1) time Purge
      by (auto simp: failures_def counted_def purge_def entry_def stale_def split: option.splits)
  qed
qed

lemma in_order_from: "legal in_order (timed_call q) es (clock, g) \<Longrightarrow> e \<in> set es \<Longrightarrow> clock \<le> call_ms e"
  by (induction es arbitrary: clock g) (force simp: timed_call_pair in_order_def)+

lemma counted_run:
  assumes "timed_inv q (clock, g)" "legal in_order (timed_call q) es (clock, g)" "\<not> isExempt q ip"
    and "\<forall>e \<in> set es. call_ms e \<le> now" "counted ip now k g" "k = 0 \<or> now - 60000 \<le> clock"
  shows "counted ip now (k + failures ip now es) (snd (fold (timed_call q) es (clock, g)))"
  using assms
proof (induction es arbitrary: clock g k)
  case Nil
  then show ?case by (simp add: failures_def)
next
  case (Cons e es)
  have time: "clock \<le> call_ms e" "call_ms e \<le> now" using Cons.prems by (auto simp: in_order_def)
  have inv: "timed_inv q (call_ms e, guard_call q e g)"
    using timed_call_inv[of q "(clock, g)" e] Cons.prems by (simp add: timed_call_pair)
  have step: "counted ip now (k + failures ip now [e]) (guard_call q e g)"
    by (rule counted_step) (use Cons.prems time in auto)
  have later: "k + failures ip now [e] = 0 \<or> now - 60000 \<le> call_ms e"
    using Cons.prems(6) time by (auto simp: failures_def split: GuardCall.splits if_splits)
  have "failures ip now (e # es) = failures ip now [e] + failures ip now es" by (simp add: failures_def)
  then show ?case
    using Cons.IH[OF inv _ Cons.prems(3) _ step later] Cons.prems(2,4) by (simp add: timed_call_pair add.assoc)
qed

text \<open>Ten failures in a minute are a ban, no matter what else happens: once an address that is not trusted has failed
  ten times within the last sixty seconds, among any connections, failures and purges of its own or others', it is banned.\<close>

theorem ten_failures_ban:
  assumes "0 \<le> t0" "legal in_order (timed_call q) es (t0, Map.empty)" "\<not> isExempt q ip"
    and "\<forall>e \<in> set es. call_ms e \<le> now" "10 \<le> failures ip now es"
  shows "isBanned ip now (snd (fold (timed_call q) es (t0, Map.empty)))"
proof -
  let ?x = "fold (timed_call q) es (t0, Map.empty)"
  have "counted ip now (failures ip now es) (snd ?x)"
    using counted_run[OF guard_start[OF assms(1)] assms(2-4), where k = 0] by (simp add: counted_def)
  moreover have "timed_inv q ?x" by (rule guard.inv_run[OF guard_start[OF assms(1)] assms(2)])
  then have "length (authFailTimes (entry (snd ?x) ip)) \<le> 9"
    by (cases ?x) (auto simp: timed_inv_def guard_inv_def ip_inv_def entry_def ip_new_def split: option.splits)
  then have "length (filter (\<lambda>t. now - 60000 \<le> t) (authFailTimes (entry (snd ?x) ip))) \<le> 9"
    by (rule order_trans[OF length_filter_le])
  ultimately have "now < bannedUntilMs (entry (snd ?x) ip)" using assms(5) by (auto simp: counted_def)
  moreover have "entry (snd ?x) ip \<noteq> ip_new"
  proof
    assume new: "entry (snd ?x) ip = ip_new"
    then have "now < 0" using \<open>now < bannedUntilMs _\<close> by (simp add: ip_new_def)
    obtain e where "e \<in> set es" using assms(5) by (cases es) (auto simp: failures_def)
    then show False using in_order_from[OF assms(2)] assms(1,4) \<open>now < 0\<close> by force
  qed
  ultimately show ?thesis by (auto simp: isBanned_def entry_def split: option.splits)
qed

lemma ten_failures_ban_witness:
  "isBanned ''a'' 9 (snd (fold (timed_call public_net) (map (\<lambda>i. AuthFail ''a'' (int i)) [0..<10]) (0, Map.empty)))"
proof (rule ten_failures_ban)
  show "legal in_order (timed_call public_net) (map (\<lambda>i. AuthFail ''a'' (int i)) [0..<10]) (0, Map.empty)"
    by (simp add: upt_rec numeral_eq_Suc in_order_def timed_call_pair del: guard_call.simps)
qed (auto simp: failures_def upt_rec)

end
