(* ===== verification/Request_Guard.thy ===== *)
theory Request_Guard
  imports Connection_Guard "HOL-Library.Sublist"
begin

text \<open>
  Who may do what over HTTP: \<open>RequestGuard\<close> (\<open>src/server/RequestGuard.h\<close> and \<open>.cpp\<close>), the whole access
  decision of a request, and \<open>NetClassify\<close> (\<open>src/server/NetClassify.h\<close>), where a peer comes from. Header
  values are character lists, trimmed and lowered over ASCII. What \<open>QUrl\<close> reads in an origin and what
  \<open>QHostAddress\<close> says of an address beyond \<open>QtNet\<close> are parameters, the record \<open>QtWeb\<close>.
\<close>

record QtWeb =
  qw_net :: QtNet
  qw_isLinkLocal :: "HostAddress \<Rightarrow> bool"
  qw_url :: "string \<Rightarrow> string \<times> int"
  qw_toIPv4 :: "HostAddress \<Rightarrow> 32 word option"

section \<open>Strings\<close>

definition isSpace :: "char \<Rightarrow> bool" where
  "isSpace c \<longleftrightarrow> (let n = (of_char c :: nat) in n = 32 \<or> (9 \<le> n \<and> n \<le> 13))"

definition trimmed :: "string \<Rightarrow> string" where
  "trimmed s = rev (dropWhile isSpace (rev (dropWhile isSpace s)))"

definition toLower :: "string \<Rightarrow> string" where
  "toLower s = map lower s"

fun has_part :: "string \<Rightarrow> string \<Rightarrow> bool" where
  "has_part p [] \<longleftrightarrow> p = []"
| "has_part p (c # s) \<longleftrightarrow> prefix p (c # s) \<or> has_part p s"

section \<open>Authorities\<close>

record Authority =
  au_host :: string
  au_port :: string

text \<open>The three shapes of an authority; \<open>None\<close> is the early return of a bracket that is not closed.\<close>

definition split_parts :: "QtWeb \<Rightarrow> string \<Rightarrow> (string \<times> string) option" where
  "split_parts q v =
     (if has_part ''://'' v
      then (case qw_url q v of (h, p) \<Rightarrow> Some (h, if p > 0 then to_string p else []))
      else if prefix ''['' v
      then (if CHR '']'' \<notin> set v then None
            else let h = tl (takeWhile (\<lambda>c. c \<noteq> CHR '']'') v);
                     rest = tl (dropWhile (\<lambda>c. c \<noteq> CHR '']'') v)
                 in Some (h, if prefix '':'' rest then tl rest else []))
      else if length (filter (\<lambda>c. c = CHR '':'') v) = 1
      then Some (takeWhile (\<lambda>c. c \<noteq> CHR '':'') v, tl (dropWhile (\<lambda>c. c \<noteq> CHR '':'') v))
      else Some (v, []))"

definition splitAuthority :: "QtWeb \<Rightarrow> string \<Rightarrow> Authority" where
  "splitAuthority q value =
     (let v = trimmed value
      in if v = [] then \<lparr>au_host = [], au_port = []\<rparr>
         else case split_parts q v of
                None \<Rightarrow> \<lparr>au_host = toLower v, au_port = []\<rparr>
              | Some (h, p) \<Rightarrow>
                  \<lparr>au_host = toLower h, au_port = (if p = ''80'' \<or> p = ''443'' then [] else p)\<rparr>)"

definition normalizeAuthority :: "QtWeb \<Rightarrow> string \<Rightarrow> string" where
  "normalizeAuthority q value =
     (let a = splitAuthority q value
      in if au_host a = [] then []
         else if au_port a = [] then au_host a else au_host a @ '':'' @ au_port a)"

section \<open>Who started a request\<close>

datatype Initiator = SameOrigin | CrossSite | Unknown

type_synonym headers = "string \<rightharpoonup> string"

definition header :: "headers \<Rightarrow> string \<Rightarrow> string" where
  "header hs name = (case hs name of None \<Rightarrow> [] | Some v \<Rightarrow> v)"

definition classifyInitiator :: "QtWeb \<Rightarrow> headers \<Rightarrow> Initiator" where
  "classifyInitiator q hs =
     (let site = toLower (trimmed (header hs ''sec-fetch-site''))
      in if site \<noteq> [] then (if site = ''same-origin'' \<or> site = ''none'' then SameOrigin else CrossSite)
         else let origin = trimmed (header hs ''origin'')
              in if origin = [] then Unknown
                 else if toLower origin = ''null'' then CrossSite
                 else let host = normalizeAuthority q (header hs ''host'')
                      in if host = [] then Unknown
                         else if normalizeAuthority q origin = host then SameOrigin else CrossSite)"

definition isCrossSite :: "QtWeb \<Rightarrow> headers \<Rightarrow> bool" where
  "isCrossSite q hs \<longleftrightarrow> classifyInitiator q hs = CrossSite"

definition isWebSocketOriginAllowed :: "QtWeb \<Rightarrow> string \<Rightarrow> string \<Rightarrow> bool" where
  "isWebSocketOriginAllowed q origin hostHeader =
     (if trimmed origin = [] then True
      else if toLower origin = ''null'' then False
      else let host = normalizeAuthority q hostHeader
           in if host = [] then True else normalizeAuthority q origin = host)"

section \<open>Whose name the request was addressed to\<close>

definition private_ipv4 :: "32 word \<Rightarrow> bool" where
  "private_ipv4 ip \<longleftrightarrow> ip AND 0xFF000000 = 0x0A000000 \<or> ip AND 0xFFF00000 = 0xAC100000 \<or>
     ip AND 0xFFFF0000 = 0xC0A80000"

definition isLocalHostName :: "QtWeb \<Rightarrow> string \<Rightarrow> bool" where
  "isLocalHostName q hostHeader =
     (let host = au_host (splitAuthority q hostHeader)
      in if host = [] then True
         else if host = ''localhost'' \<or> host = ''127.0.0.1'' \<or> host = ''::1'' then True
         else let addr = qt_parse (qw_net q) host
              in if addr \<noteq> NullAddress
                 then if qt_isLoopback (qw_net q) addr then True
                      else if (case addr of IPv4 ip \<Rightarrow> private_ipv4 ip | _ \<Rightarrow> False) then True
                      else if qw_isLinkLocal q addr then True
                      else (case addr of IPv6 raw \<Rightarrow> raw ! 0 AND 0xFE = 0xFC | _ \<Rightarrow> False)
                 else suffix ''.local'' host)"

definition isTrustedHost :: "QtWeb \<Rightarrow> string \<Rightarrow> string \<Rightarrow> bool" where
  "isTrustedHost q hostHeader publicDomain =
     (if isLocalHostName q hostHeader then True
      else let host = au_host (splitAuthority q hostHeader);
               domain = au_host (splitAuthority q publicDomain)
           in domain \<noteq> [] \<and> host = domain)"

definition isBodyContentTypeAllowed :: "string \<Rightarrow> int \<Rightarrow> bool" where
  "isBodyContentTypeAllowed contentType bodySize =
     (if bodySize \<le> 0 then True
      else toLower (trimmed (takeWhile (\<lambda>c. c \<noteq> CHR '';'') contentType)) = ''application/json'')"

section \<open>The decision\<close>

record HttpRequest =
  rq_method :: string
  rq_path :: string
  rq_headers :: headers
  rq_bodySize :: int

record Context =
  peerLocal :: bool
  hostSession :: bool
  adminSession :: bool
  adminKeyOk :: bool
  publicDomain :: string

datatype Outcome = Allow | BlockCrossSite | BlockContentType

record Decision =
  d_outcome :: Outcome
  d_localPrivilege :: bool
  d_hostMachine :: bool
  d_adminPrivilege :: bool
  d_hostTrusted :: bool
  d_hostUntrusted :: bool

definition no_privilege :: "Outcome \<Rightarrow> Decision" where
  "no_privilege out = \<lparr>d_outcome = out, d_localPrivilege = False, d_hostMachine = False, d_adminPrivilege = False,
     d_hostTrusted = False, d_hostUntrusted = False\<rparr>"

definition blockStatus :: "Outcome \<Rightarrow> int" where
  "blockStatus out = (case out of BlockCrossSite \<Rightarrow> 403 | BlockContentType \<Rightarrow> 415 | Allow \<Rightarrow> 0)"

definition blockError :: "Outcome \<Rightarrow> string" where
  "blockError out = (case out of BlockCrossSite \<Rightarrow> ''cross_site_request_blocked''
     | BlockContentType \<Rightarrow> ''unsupported_media_type'' | Allow \<Rightarrow> [])"

definition access_granted :: "QtWeb \<Rightarrow> HttpRequest \<Rightarrow> Context \<Rightarrow> Decision" where
  "access_granted q req ctx =
     (let hostHeader = header (rq_headers req) ''host'';
          trusted = isTrustedHost q hostHeader (publicDomain ctx);
          local = peerLocal ctx \<and> isLocalHostName q hostHeader;
          hostMachine = (local \<or> hostSession ctx);
          mutating = rq_method req \<noteq> ''GET'' \<and> rq_method req \<noteq> ''HEAD''
      in \<lparr>d_outcome = Allow, d_localPrivilege = local, d_hostMachine = hostMachine,
          d_adminPrivilege = (hostMachine \<or> adminSession ctx) \<and> (\<not> mutating \<or> adminKeyOk ctx),
          d_hostTrusted = trusted, d_hostUntrusted = peerLocal ctx \<and> \<not> trusted\<rparr>)"

definition evaluate_access :: "QtWeb \<Rightarrow> HttpRequest \<Rightarrow> Context \<Rightarrow> Decision" where
  "evaluate_access q req ctx =
     (let isApi = prefix ''/api/'' (rq_path req)
      in if isApi \<and> isCrossSite q (rq_headers req) then no_privilege BlockCrossSite
         else if isApi \<and> \<not> isBodyContentTypeAllowed (header (rq_headers req) ''content-type'') (rq_bodySize req)
         then no_privilege BlockContentType
         else access_granted q req ctx)"

datatype AdminTokenReply = Grant | Empty | Deny

definition adminTokenReply :: "Decision \<Rightarrow> Context \<Rightarrow> bool \<Rightarrow> AdminTokenReply" where
  "adminTokenReply d ctx authenticated =
     (if d_hostMachine d \<or> adminSession ctx then Grant else if authenticated then Empty else Deny)"

section \<open>Where a peer comes from\<close>

datatype PeerKind = Loopback | Private | Tunnel | Public

definition classify_parsed :: "QtWeb \<Rightarrow> HostAddress \<Rightarrow> PeerKind" where
  "classify_parsed q addr =
     (if addr = NullAddress then Public
      else if qt_isLoopback (qw_net q) addr then Loopback
      else case qw_toIPv4 q addr of
             Some v4 \<Rightarrow>
               if v4 AND 0xFF000000 = 0x0A000000 then Private
               else if v4 AND 0xFFF00000 = 0xAC100000 then Private
               else if v4 AND 0xFFFF0000 = 0xC0A80000 then Private
               else if v4 AND 0xFFFF0000 = 0xA9FE0000 then Private
               else if v4 AND 0xFFC00000 = 0x64400000 then Tunnel
               else Public
           | None \<Rightarrow>
               (case addr of
                  IPv6 raw \<Rightarrow>
                    if raw ! 0 AND 0xFE = 0xFC then Private
                    else if raw ! 0 = 0xFE \<and> raw ! 1 AND 0xC0 = 0x80 then Private
                    else Public
                | _ \<Rightarrow> Public))"

definition classify :: "QtWeb \<Rightarrow> string \<Rightarrow> PeerKind" where
  "classify q ip =
     (if toLower ip = ''localhost'' then Loopback
      else let bare = (if startsWith_ci ip ''::ffff:'' then drop 7 ip else ip)
           in classify_parsed q (qt_parse (qw_net q) bare))"

definition isPrivateOrLoopback :: "PeerKind \<Rightarrow> bool" where
  "isPrivateOrLoopback k \<longleftrightarrow> k = Loopback \<or> k = Private"

definition isTrustedPeer :: "PeerKind \<Rightarrow> bool" where
  "isTrustedPeer k \<longleftrightarrow> k \<noteq> Public"

definition kind_fromString :: "string \<Rightarrow> PeerKind \<Rightarrow> PeerKind" where
  "kind_fromString s fallback =
     (if s = ''loopback'' then Loopback else if s = ''private'' then Private
      else if s = ''tunnel'' then Tunnel else if s = ''public'' then Public else fallback)"

fun kind_toString :: "PeerKind \<Rightarrow> string" where
  "kind_toString Loopback = ''loopback''"
| "kind_toString Private = ''private''"
| "kind_toString Tunnel = ''tunnel''"
| "kind_toString Public = ''public''"

section \<open>Plain names\<close>

text \<open>A name as a Host header carries it: no blank, colon, bracket or slash.\<close>

definition plain_name :: "string \<Rightarrow> bool" where
  "plain_name h \<longleftrightarrow> h \<noteq> [] \<and> list_all (\<lambda>c. \<not> isSpace c \<and> c \<notin> {CHR '':'', CHR ''['', CHR ''/''}) h"

lemma trimmed_id: "list_all (\<lambda>c. \<not> isSpace c) s \<Longrightarrow> trimmed s = s"
proof -
  assume a: "list_all (\<lambda>c. \<not> isSpace c) s"
  have dw: "dropWhile isSpace xs = xs" if "\<forall>c \<in> set xs. \<not> isSpace c" for xs
    using that by (cases xs) simp_all
  show ?thesis using a dw[of s] dw[of "rev s"] by (simp add: trimmed_def list_all_iff)
qed

lemma has_part_char: "has_part p s \<Longrightarrow> set p \<subseteq> set s"
proof (induction s)
  case (Cons c s)
  then show ?case using set_mono_prefix[of p "c # s"] by auto
qed simp

lemma takeWhile_name: "plain_name h \<Longrightarrow> takeWhile (\<lambda>c. c \<noteq> CHR '':'') (h @ CHR '':'' # p) = h"
  by (simp add: plain_name_def list_all_iff takeWhile_append takeWhile_eq_all_conv)

lemma dropWhile_colon: "\<forall>c \<in> set h. c \<noteq> CHR '':'' \<Longrightarrow> dropWhile (\<lambda>c. c \<noteq> CHR '':'') (h @ CHR '':'' # p) = CHR '':'' # p"
  by (induction h) auto

lemma dropWhile_name: "plain_name h \<Longrightarrow> dropWhile (\<lambda>c. c \<noteq> CHR '':'') (h @ CHR '':'' # p) = CHR '':'' # p"
  by (rule dropWhile_colon) (auto simp: plain_name_def list_all_iff)

lemma no_bracket: "plain_name h \<Longrightarrow> \<not> prefix ''['' (h @ s)"
  by (cases h) (auto simp: plain_name_def)

lemma no_colon: "plain_name h \<Longrightarrow> filter (\<lambda>c. c = CHR '':'') h = []"
  by (auto simp: plain_name_def list_all_iff filter_empty_conv)

lemma split_name: "plain_name h \<Longrightarrow> splitAuthority q h = \<lparr>au_host = toLower h, au_port = []\<rparr>"
proof -
  assume h: "plain_name h"
  have "\<not> has_part ''://'' h" using h has_part_char[of "''://''" h] by (auto simp: plain_name_def list_all_iff)
  moreover have "trimmed h = h" using h by (intro trimmed_id) (auto simp: plain_name_def list_all_iff)
  ultimately show ?thesis
    using h no_bracket[OF h, of "[]"] no_colon[OF h]
    by (auto simp: splitAuthority_def split_parts_def plain_name_def Let_def)
qed

lemma split_name_port:
  assumes h: "plain_name h" and p: "list_all (\<lambda>c. \<not> isSpace c \<and> c \<notin> {CHR '':'', CHR ''/''}) p"
  shows "splitAuthority q (h @ CHR '':'' # p) =
    \<lparr>au_host = toLower h, au_port = (if p = ''80'' \<or> p = ''443'' then [] else p)\<rparr>"
proof -
  let ?v = "h @ CHR '':'' # p"
  have "CHR ''/'' \<notin> set ?v" using h p by (auto simp: plain_name_def list_all_iff)
  then have "\<not> has_part ''://'' ?v" using has_part_char[of "''://''" ?v] by auto
  moreover have "trimmed ?v = ?v"
    using h p by (intro trimmed_id) (auto simp: plain_name_def list_all_iff isSpace_def)
  moreover have "filter (\<lambda>c. c = CHR '':'') p = []"
    using p by (auto simp: list_all_iff filter_empty_conv)
  then have "length (filter (\<lambda>c. c = CHR '':'') ?v) = 1" using no_colon[OF h] by simp
  ultimately show ?thesis
    using h no_bracket[OF h, of "CHR '':'' # p"]
    by (simp add: splitAuthority_def split_parts_def takeWhile_name dropWhile_name Let_def)
qed

lemma toLower_nonempty: "plain_name h \<Longrightarrow> toLower h \<noteq> []"
  by (simp add: plain_name_def toLower_def)

lemma code_lower: "(of_char (lower c) :: nat) =
    (if 65 \<le> (of_char c :: nat) \<and> (of_char c :: nat) \<le> 90 then of_char c + 32 else of_char c)"
  by (auto simp: lower_def)

lemma char_code: "c = d \<longleftrightarrow> (of_char c :: nat) = of_char d"
  by simp

lemma lower_char:
  "isSpace (lower c) \<longleftrightarrow> isSpace c" "lower (lower c) = lower c"
  "lower c = CHR '':'' \<longleftrightarrow> c = CHR '':''" "lower c = CHR ''['' \<longleftrightarrow> c = CHR ''[''"
  "lower c = CHR ''/'' \<longleftrightarrow> c = CHR ''/''"
  unfolding isSpace_def Let_def char_code[of "lower c"] char_code[of "lower (lower c)"] char_code[of c] code_lower
  by auto

lemma lower_name: "plain_name (toLower h) \<longleftrightarrow> plain_name h" "toLower (toLower h) = toLower h"
  by (auto simp: plain_name_def toLower_def list_all_iff lower_char)

section \<open>Properties\<close>

text \<open>A request may administer exactly when it is not an API request another page drove, or one with a body
  that is not JSON, and it comes from the host machine (this machine under a local name, or the host key) or from
  an unlocked admin session, and, if it is not a GET or a HEAD, carries the admin key.\<close>

theorem admin_privilege_iff:
  "d_adminPrivilege (evaluate_access q req ctx) \<longleftrightarrow>
    (if prefix ''/api/'' (rq_path req)
     then \<not> isCrossSite q (rq_headers req) \<and>
       isBodyContentTypeAllowed (header (rq_headers req) ''content-type'') (rq_bodySize req)
     else True) \<and>
    (peerLocal ctx \<and> isLocalHostName q (header (rq_headers req) ''host'') \<or> hostSession ctx \<or> adminSession ctx) \<and>
    (rq_method req \<in> {''GET'', ''HEAD''} \<or> adminKeyOk ctx)"
  by (auto simp: evaluate_access_def access_granted_def no_privilege_def Let_def)

text \<open>DNS rebinding gains nothing: a request that reached this machine under a name that is no address, not
  localhost and not an mDNS name, with no session of its own, gets no privilege of the machine even from
  loopback, and no admin key; and the name is reported as foreign unless it is the public domain.\<close>

theorem rebinding_gains_nothing:
  assumes "plain_name name" and "header (rq_headers req) ''host'' = name"
    and "toLower name \<notin> {''localhost'', ''127.0.0.1'', ''::1''}"
    and "qt_parse (qw_net q) (toLower name) = NullAddress" and "\<not> suffix ''.local'' (toLower name)"
    and "\<not> hostSession ctx" and "\<not> adminSession ctx"
    and "d = evaluate_access q req ctx"
  shows "\<not> d_localPrivilege d \<and> \<not> d_hostMachine d \<and> \<not> d_adminPrivilege d \<and>
    adminTokenReply d ctx authenticated \<noteq> Grant \<and>
    (d_outcome d = Allow \<and> peerLocal ctx \<and> toLower name \<noteq> au_host (splitAuthority q (publicDomain ctx)) \<longrightarrow>
       d_hostUntrusted d)"
proof -
  have "\<not> isLocalHostName q name"
    using assms(1,3,4,5) by (simp add: isLocalHostName_def split_name Let_def toLower_nonempty)
  then show ?thesis
    using assms by (auto simp: evaluate_access_def access_granted_def no_privilege_def adminTokenReply_def
        isTrustedHost_def split_name Let_def)
qed

text \<open>The witnesses' network: loopback is 127.0.0.1, one private address parses, no name does.\<close>

definition small_net :: QtNet where
  "small_net = \<lparr>qt_parse = (\<lambda>s. if s = ''127.0.0.1'' then IPv4 0x7F000001
       else if s = ''10.0.0.7'' then IPv4 0x0A000007 else NullAddress),
     qt_isLoopback = (\<lambda>a. a = IPv4 0x7F000001)\<rparr>"

definition small_web :: QtWeb where
  "small_web = \<lparr>qw_net = small_net, qw_isLinkLocal = (\<lambda>a. False), qw_url = (\<lambda>s. (drop 8 s, 0)),
     qw_toIPv4 = (\<lambda>a. case a of IPv4 v \<Rightarrow> Some v | _ \<Rightarrow> None)\<rparr>"

definition rebound_page :: HttpRequest where
  "rebound_page = \<lparr>rq_method = ''GET'', rq_path = ''/api/admin/token'',
     rq_headers = [''host'' \<mapsto> ''evil.example''], rq_bodySize = 0\<rparr>"

definition loopback_peer :: Context where
  "loopback_peer = \<lparr>peerLocal = True, hostSession = False, adminSession = False, adminKeyOk = False,
     publicDomain = ''home.example''\<rparr>"

lemma rebinding_gains_nothing_witness:
  "\<not> d_hostMachine (evaluate_access small_web rebound_page loopback_peer) \<and>
   adminTokenReply (evaluate_access small_web rebound_page loopback_peer) loopback_peer False \<noteq> Grant"
proof -
  have n: "plain_name ''evil.example''" by (simp add: plain_name_def isSpace_def)
  have l: "toLower ''evil.example'' = ''evil.example''" by (simp add: toLower_def lower_def)
  show ?thesis
    using rebinding_gains_nothing[OF n, of rebound_page small_web loopback_peer _ False, unfolded l, OF _ _ _ _ _ _ refl]
    by (simp add: rebound_page_def header_def small_web_def small_net_def suffix_def loopback_peer_def)
qed

text \<open>The port a scheme implies does not make an origin foreign: a name, in any case, compares the same with
  :443, with :80 and without a port, and differently with any other port.\<close>

theorem default_port_ignored:
  assumes "plain_name h" and "list_all (\<lambda>c. \<not> isSpace c \<and> c \<notin> {CHR '':'', CHR ''/''}) p"
    and "p \<noteq> []"
  shows "normalizeAuthority q (h @ '':443'') = normalizeAuthority q h \<and>
    normalizeAuthority q (h @ '':80'') = normalizeAuthority q h \<and>
    normalizeAuthority q (toLower h) = normalizeAuthority q h \<and>
    (normalizeAuthority q (h @ CHR '':'' # p) = normalizeAuthority q h \<longleftrightarrow> p \<in> {''80'', ''443''})"
proof -
  have port: "list_all (\<lambda>c. \<not> isSpace c \<and> c \<notin> {CHR '':'', CHR ''/''}) s"
    if "s = ''443'' \<or> s = ''80''" for s
    using that by (auto simp: isSpace_def)
  have "normalizeAuthority q (toLower h) = normalizeAuthority q h"
    using assms(1) by (simp add: normalizeAuthority_def split_name lower_name Let_def)
  then show ?thesis
    using assms split_name_port[OF assms(1) port] toLower_nonempty[OF assms(1)]
    by (simp add: normalizeAuthority_def split_name split_name_port Let_def)
qed

lemma default_port_ignored_witness:
  "normalizeAuthority small_web ''Home.example:443'' = normalizeAuthority small_web ''Home.example'' \<and>
   normalizeAuthority small_web ''Home.example:8443'' \<noteq> normalizeAuthority small_web ''Home.example''"
  using default_port_ignored[of "''Home.example''" "''8443''" small_web]
  by (simp add: plain_name_def isSpace_def)

text \<open>The two classifiers of peers agree where the guard exempts one: an address without a scope that
  \<open>ConnectionGuard\<close> does not limit is loopback or private to \<open>NetClassify\<close>.\<close>

theorem exempt_peer_is_local:
  assumes "isExempt (qw_net q) ip" and "CHR ''%'' \<notin> set ip"
    and "\<And>v. qw_toIPv4 q (IPv4 v) = Some v"
    and "\<And>raw v. qw_toIPv4 q (IPv6 raw) = Some v \<Longrightarrow> raw ! 0 = 0"
  shows "isPrivateOrLoopback (classify q ip)"
proof -
  let ?bare = "if startsWith_ci ip ''::ffff:'' then drop 7 ip else ip"
  have "CHR ''%'' \<notin> set ?bare" using assms(2) set_drop_subset[of 7 ip] by auto
  then have tw: "takeWhile (\<lambda>c. c \<noteq> CHR ''%'') ?bare = ?bare" by (auto simp: takeWhile_eq_all_conv)
  obtain b where b: "?bare = b" by blast
  have e: "isExempt (qw_net q) ip \<longleftrightarrow> ip \<noteq> [] \<and> qt_parse (qw_net q) b \<noteq> NullAddress \<and>
      (qt_isLoopback (qw_net q) (qt_parse (qw_net q) b) \<or>
       (case qt_parse (qw_net q) b of
          IPv4 v \<Rightarrow> v AND 0xFF000000 = 0x0A000000 \<or> v AND 0xFFF00000 = 0xAC100000 \<or> v AND 0xFFFF0000 = 0xC0A80000
        | IPv6 v6 \<Rightarrow> (v6 ! 0 = 0xFE \<and> v6 ! 1 AND 0xC0 = 0x80) \<or> v6 ! 0 AND 0xFE = 0xFC
        | NullAddress \<Rightarrow> False))"
    unfolding isExempt_def Let_def b tw[unfolded b] by simp
  have c: "isPrivateOrLoopback (classify q ip) \<longleftrightarrow> toLower ip = ''localhost'' \<or>
      isPrivateOrLoopback (classify_parsed q (qt_parse (qw_net q) b))"
    unfolding classify_def Let_def b by (simp add: isPrivateOrLoopback_def)
  show ?thesis
  proof (cases "qt_parse (qw_net q) b")
    case NullAddress
    then show ?thesis using assms(1) e by simp
  next
    case (IPv4 v)
    then have "isPrivateOrLoopback (classify_parsed q (qt_parse (qw_net q) b))" using assms(1,3) e
      by (auto simp: classify_parsed_def isPrivateOrLoopback_def)
    then show ?thesis unfolding c by blast
  next
    case (IPv6 raw)
    have "raw ! 0 \<noteq> 0" if "raw ! 0 = 0xFE \<or> raw ! 0 AND 0xFE = 0xFC" using that by auto
    then have "qw_toIPv4 q (IPv6 raw) = None" if "raw ! 0 = 0xFE \<or> raw ! 0 AND 0xFE = 0xFC"
      using assms(4)[of raw] that by (cases "qw_toIPv4 q (IPv6 raw)") auto
    then have "isPrivateOrLoopback (classify_parsed q (qt_parse (qw_net q) b))" using IPv6 assms(1) e
      by (auto simp: classify_parsed_def isPrivateOrLoopback_def)
    then show ?thesis unfolding c by blast
  qed
qed

lemma exempt_peer_is_local_witness:
  "isPrivateOrLoopback (classify small_web ''10.0.0.7'')"
proof (rule exempt_peer_is_local)
  show "isExempt (qw_net small_web) ''10.0.0.7''"
    by (simp add: isExempt_def small_web_def small_net_def startsWith_ci_def lower_def)
qed (simp_all add: small_web_def)

end
