(* ===== verification/Session_Pool.thy ===== *)
theory Session_Pool
  imports MW_Prelude
begin

text \<open>
  \<open>SessionPool\<close> (\<open>src/server/SessionPool.h\<close> and \<open>.cpp\<close>): the concurrent stream slots, their ports and their
  WebSocket paths. A slot's worker is a guarded pointer: it is the identity of a live worker or nothing,
  and it becomes nothing when the worker dies, which is the event \<open>WorkerDied\<close> of the model. The callback
  of \<open>setOnSlotCreated\<close> is observed as the list of the slots it was called for.
\<close>

section \<open>The slots\<close>

record PoolSlot =
  worker :: "nat option"
  clientUniqueId :: string
  hostUuid :: string
  sessionToken :: string
  appId :: int
  backendType :: string
  seatId :: string
  coopSessionId :: string

definition empty_slot :: PoolSlot where
  "empty_slot = \<lparr>worker = None, clientUniqueId = [], hostUuid = [], sessionToken = [], appId = 0,
     backendType = [], seatId = [], coopSessionId = []\<rparr>"

record SessionPool =
  slots :: "PoolSlot list"
  signalingBase :: int
  extraSlotBase :: int
  reserved :: int
  maxSlots :: int
  announced :: "int list"

definition sp_new :: "int \<Rightarrow> int \<Rightarrow> int \<Rightarrow> int \<Rightarrow> SessionPool" where
  "sp_new signalingBasePort extraSlotBasePort reservedSlots max_slots =
     (let r = (if reservedSlots < 0 then 0 else reservedSlots)
      in \<lparr>slots = replicate (nat r) empty_slot, signalingBase = signalingBasePort,
          extraSlotBase = extraSlotBasePort, reserved = r, maxSlots = (if max_slots < r then r else max_slots),
          announced = []\<rparr>)"

definition sp_size :: "SessionPool \<Rightarrow> int" where
  "sp_size p = int (length (slots p))"

definition isValid :: "int \<Rightarrow> SessionPool \<Rightarrow> bool" where
  "isValid index p \<longleftrightarrow> index \<ge> 0 \<and> index < sp_size p"

definition slot_at :: "SessionPool \<Rightarrow> int \<Rightarrow> PoolSlot" where
  "slot_at p index = slots p ! nat index"

definition signalingPort :: "int \<Rightarrow> SessionPool \<Rightarrow> int" where
  "signalingPort index p = (if index \<le> 0 then signalingBase p else u16 (extraSlotBase p + 2 * (index - 1)))"

definition wsPath :: "int \<Rightarrow> string" where
  "wsPath index = (if index = 0 then ''/ws'' else ''/ws'' @ to_string index)"

definition live :: "int \<Rightarrow> SessionPool \<Rightarrow> bool" where
  "live index p \<longleftrightarrow> isValid index p \<and> worker (slot_at p index) \<noteq> None"

definition liveCount :: "SessionPool \<Rightarrow> int" where
  "liveCount p = fold (\<lambda>s n. if worker s \<noteq> None then n + 1 else n) (slots p) 0"

definition anyOtherLive :: "int \<Rightarrow> SessionPool \<Rightarrow> bool" where
  "anyOtherLive index p \<longleftrightarrow>
     list_ex (\<lambda>i. i \<noteq> index \<and> worker (slot_at p i) \<noteq> None) [0..sp_size p - 1]"

definition anyOtherLiveOnHost :: "int \<Rightarrow> string \<Rightarrow> SessionPool \<Rightarrow> bool" where
  "anyOtherLiveOnHost index uuid p \<longleftrightarrow>
     list_ex (\<lambda>i. \<not> (i = index \<or> worker (slot_at p i) = None) \<and>
       (hostUuid (slot_at p i) = [] \<or> hostUuid (slot_at p i) = uuid)) [0..sp_size p - 1]"

definition slot_inUse :: "PoolSlot \<Rightarrow> bool" where
  "slot_inUse s \<longleftrightarrow> worker s \<noteq> None \<or> clientUniqueId s \<noteq> [] \<or> sessionToken s \<noteq> []"

definition inUse :: "int \<Rightarrow> SessionPool \<Rightarrow> bool" where
  "inUse index p \<longleftrightarrow> slot_inUse (slot_at p index)"

definition appendSlot :: "SessionPool \<Rightarrow> int \<times> SessionPool" where
  "appendSlot p =
     (if sp_size p \<ge> maxSlots p then (- 1, p)
      else let p = p\<lparr>slots := slots p @ [empty_slot]\<rparr>; index = sp_size p - 1
           in (index, p\<lparr>announced := announced p @ [index]\<rparr>))"

definition sp_acquire :: "SessionPool \<Rightarrow> int \<times> SessionPool" where
  "sp_acquire p =
     (case find (\<lambda>i. \<not> inUse i p) [reserved p..sp_size p - 1] of
        Some i \<Rightarrow> (i, p)
      | None \<Rightarrow> appendSlot p)"

definition sp_release :: "int \<Rightarrow> SessionPool \<Rightarrow> SessionPool" where
  "sp_release index p = (if \<not> isValid index p then p else p\<lparr>slots := (slots p)[nat index := empty_slot]\<rparr>)"

definition index_where :: "(PoolSlot \<Rightarrow> bool) \<Rightarrow> SessionPool \<Rightarrow> int" where
  "index_where P p = (case find (\<lambda>i. P (slot_at p i)) [0..sp_size p - 1] of Some i \<Rightarrow> i | None \<Rightarrow> - 1)"

definition indexOfClientUniqueId :: "string \<Rightarrow> SessionPool \<Rightarrow> int" where
  "indexOfClientUniqueId uid p = (if uid = [] then - 1 else index_where (\<lambda>s. clientUniqueId s = uid) p)"

definition indexOfSessionToken :: "string \<Rightarrow> SessionPool \<Rightarrow> int" where
  "indexOfSessionToken token p = (if token = [] then - 1 else index_where (\<lambda>s. sessionToken s = token) p)"

text \<open>What happens to a pool: its own calls, the caller's writes to a slot, a worker's death.\<close>

datatype PoolCall = Acquire | Release int | Claim int PoolSlot | WorkerDied int

fun sp_call :: "PoolCall \<Rightarrow> SessionPool \<Rightarrow> SessionPool" where
  "sp_call Acquire p = snd (sp_acquire p)"
| "sp_call (Release i) p = sp_release i p"
| "sp_call (Claim i s) p = (if isValid i p then p\<lparr>slots := (slots p)[nat i := s]\<rparr> else p)"
| "sp_call (WorkerDied i) p =
     (if isValid i p then p\<lparr>slots := (slots p)[nat i := (slot_at p i)\<lparr>worker := None\<rparr>]\<rparr> else p)"

definition sp_inv :: "SessionPool \<Rightarrow> bool" where
  "sp_inv p \<longleftrightarrow> 0 \<le> reserved p \<and> reserved p \<le> sp_size p \<and> sp_size p \<le> maxSlots p \<and>
     announced p = [reserved p..sp_size p - 1]"

lemma sp_new_inv: "sp_inv (sp_new b e r m)"
  by (simp add: sp_inv_def sp_new_def sp_size_def Let_def)

lemma appendSlot_inv: "sp_inv p \<Longrightarrow> sp_inv (snd (appendSlot p))"
  by (auto simp: sp_inv_def appendSlot_def sp_size_def Let_def upto_rec2)

lemma sp_call_inv: "sp_inv p \<Longrightarrow> sp_inv (sp_call e p)"
proof (cases e)
  case Acquire
  then show "sp_inv p \<Longrightarrow> sp_inv (sp_call e p)"
    by (auto simp: sp_acquire_def appendSlot_inv split: option.splits)
qed (auto simp: sp_release_def sp_inv_def sp_size_def)

interpretation pool: call_machine sp_call sp_inv
  by unfold_locales (rule sp_call_inv)

section \<open>Looking for a slot\<close>

lemma find_upto_Some:
  assumes "find P [i..j] = Some k"
  shows "i \<le> k \<and> k \<le> j \<and> P k \<and> (\<forall>m. i \<le> m \<and> m < k \<longrightarrow> \<not> P m)"
  using assms
proof (induction i j rule: upto.induct)
  case (1 i j)
  show ?case
  proof (cases "i \<le> j")
    case True
    then show ?thesis using 1 by (auto simp: upto_rec1 split: if_splits) (smt (verit))+
  next
    case False
    then show ?thesis using 1(2) by simp
  qed
qed

lemma find_upto_None: "find P [i..j] = None \<longleftrightarrow> (\<forall>k. i \<le> k \<and> k \<le> j \<longrightarrow> \<not> P k)"
  by (auto simp: find_None_iff)

section \<open>Properties\<close>

text \<open>A slot is never handed out twice and never too high: \<open>acquire\<close> answers an index above the reserved ones that no
  session holds, the lowest such index, creating it only when every existing one is held, and it answers
  -1 exactly when all the slots up to the maximum are held.\<close>

theorem acquire_lowest_free:
  assumes inv: "sp_inv p" and run: "sp_acquire p = (i, p')"
  shows "if i = - 1 then sp_size p = maxSlots p \<and> (\<forall>j. reserved p \<le> j \<and> j < maxSlots p \<longrightarrow> inUse j p) \<and> p' = p
    else reserved p \<le> i \<and> i < maxSlots p \<and> isValid i p' \<and> \<not> inUse i p' \<and>
      (\<forall>j. reserved p \<le> j \<and> j < i \<longrightarrow> inUse j p) \<and>
      (if i < sp_size p then p' = p else i = sp_size p \<and> announced p' = announced p @ [i])"
proof (cases "find (\<lambda>i. \<not> inUse i p) [reserved p..sp_size p - 1]")
  case (Some k)
  then have "reserved p \<le> k" "k \<le> sp_size p - 1" "\<not> inUse k p" "\<forall>m. reserved p \<le> m \<and> m < k \<longrightarrow> inUse m p"
    using find_upto_Some [OF Some] by auto
  moreover have "i = k" "p' = p" using run Some by (simp_all add: sp_acquire_def)
  ultimately show ?thesis using inv by (auto simp: sp_inv_def isValid_def)
next
  case None
  then have full: "\<forall>j. reserved p \<le> j \<and> j < sp_size p \<longrightarrow> inUse j p"
    by (auto simp: find_upto_None)
  have app: "(i, p') = appendSlot p" using run None by (simp add: sp_acquire_def)
  show ?thesis
  proof (cases "sp_size p \<ge> maxSlots p")
    case True
    then show ?thesis using app full inv by (auto simp: appendSlot_def sp_inv_def)
  next
    case False
    then have p': "i = sp_size p" "p' = p\<lparr>slots := slots p @ [empty_slot], announced := announced p @ [sp_size p]\<rparr>"
      using app by (auto simp: appendSlot_def sp_size_def Let_def)
    have "0 \<le> sp_size p" by (simp add: sp_size_def)
    moreover have "\<not> inUse (sp_size p) p'" "isValid (sp_size p) p'"
      by (simp_all add: p' inUse_def slot_at_def sp_size_def slot_inUse_def empty_slot_def isValid_def)
    ultimately show ?thesis using False full inv p' by (auto simp: sp_inv_def)
  qed
qed

text \<open>Every slot the pool created was announced, once, in order: after any calls, claims and worker deaths on a new pool
  the callback has been called for exactly the slots above the reserved ones, and the pool has at most
  \<open>maxSlots\<close> of them.\<close>

theorem slots_announced:
  assumes "p = fold sp_call es (sp_new b e r m)"
  shows "announced p = [reserved p..sp_size p - 1] \<and> reserved p \<le> sp_size p \<and> sp_size p \<le> maxSlots p"
  using pool.inv_calls [OF sp_new_inv, of es b e r m] assms by (simp add: sp_inv_def)

lemma signalingPort_at:
  "1 \<le> i \<Longrightarrow> 0 \<le> extraSlotBase p \<Longrightarrow> extraSlotBase p + 2 * (i - 1) + 1 < 65536 \<Longrightarrow>
   signalingPort i p = extraSlotBase p + 2 * (i - 1)"
  by (simp add: signalingPort_def)

text \<open>No two slots share a port: with the second block clear of slot 0's three ports and inside the 16 bits, the signaling
  and relay ports of any two slots are four different ports, and neither is slot 0's control channel.\<close>

theorem slot_ports_distinct:
  assumes "0 \<le> i" "i < j" "0 \<le> signalingBase p" "signalingBase p + 3 \<le> extraSlotBase p"
    and fits: "extraSlotBase p + 2 * (j - 1) + 1 < 65536"
  shows "{signalingPort i p, signalingPort i p + 1, signalingBase p + 2} \<inter> {signalingPort j p, signalingPort j p + 1} = {} \<and>
    signalingPort j p + 1 < 65536"
proof (cases "i = 0")
  case True
  then show ?thesis using assms signalingPort_at [of j p] by (auto simp: signalingPort_def)
next
  case False
  then show ?thesis using assms signalingPort_at [of j p] signalingPort_at [of i p] by auto
qed

text \<open>The last session on a host ends its app and no earlier: the question asked before a cancel is true exactly when
  another slot has a live worker on that host, or one that has not said which host yet.\<close>

theorem other_live_on_host:
  "anyOtherLiveOnHost index uuid p \<longleftrightarrow>
     (\<exists>i. i \<noteq> index \<and> live i p \<and> (hostUuid (slot_at p i) = [] \<or> hostUuid (slot_at p i) = uuid))"
  by (auto simp: anyOtherLiveOnHost_def live_def isValid_def list_ex_iff)

section \<open>Witnesses\<close>

definition claimed :: PoolSlot where
  "claimed = empty_slot\<lparr>sessionToken := ''t'', worker := Some 7\<rparr>"

definition two_streams :: SessionPool where
  "two_streams = fold sp_call [Acquire, Claim 2 claimed, Acquire, Claim 3 claimed, Release 2] (sp_new 48000 48200 2 6)"

theorem acquire_lowest_free_witness:
  "fst (sp_acquire two_streams) = 2 \<and> \<not> inUse 2 (snd (sp_acquire two_streams))"
proof -
  have inv: "sp_inv two_streams" unfolding two_streams_def by (rule pool.inv_calls [OF sp_new_inv])
  have run: "sp_acquire two_streams = (2, two_streams)" by code_simp
  show ?thesis using acquire_lowest_free [OF inv run] by (simp add: run)
qed

theorem slots_announced_witness:
  "announced two_streams = [2, 3] \<and> sp_size two_streams \<le> 6"
proof -
  have "reserved two_streams = 2" "sp_size two_streams = 4" "maxSlots two_streams = 6" by code_simp+
  then show ?thesis using slots_announced [OF two_streams_def] by (simp add: upto_rec1)
qed

theorem slot_ports_distinct_witness:
  "{signalingPort 2 two_streams, signalingPort 2 two_streams + 1, signalingBase two_streams + 2} \<inter>
   {signalingPort 3 two_streams, signalingPort 3 two_streams + 1} = {}"
proof -
  have "signalingBase two_streams = 48000" "extraSlotBase two_streams = 48200" by code_simp+
  then show ?thesis using slot_ports_distinct [of 2 3 two_streams] by simp
qed

end
