(* ===== verification/Link_Watch.thy ===== *)
theory Link_Watch
  imports MW_Prelude
begin

text \<open>
  What the relay watches about the link: \<open>HostLagTracker\<close> (\<open>src/streaming/HostLagTracker.h\<close>), the host's own
  share of the delay; \<open>LinkFreezeLog\<close> (\<open>src/streaming/LinkFreezeLog.h\<close>), the freezes counted for the viewer;
  and \<open>SendBacklog\<close> (\<open>src/streaming/SendBacklog.h\<close>), how long the transport has been backed up. The lock of
  the freeze log makes its two methods atomic, so it is a state and two steps.
\<close>

section \<open>The host's lag\<close>

definition kRolloverMs :: int where
  [tunables]: "kRolloverMs = 30000"

definition kNone :: int where
  "kNone = 2 ^ 63 - 1"

record HostLagTracker =
  hl_windowMin :: int
  hl_sessionMin :: int
  hl_recentMin :: int
  hl_recentSince :: int

definition hl_new :: HostLagTracker where
  "hl_new = \<lparr>hl_windowMin = kNone, hl_sessionMin = kNone, hl_recentMin = kNone, hl_recentSince = - 1\<rparr>"

definition hl_note :: "int \<Rightarrow> int \<Rightarrow> HostLagTracker \<Rightarrow> HostLagTracker" where
  "hl_note lagMs nowMs h =
     (if lagMs < 0 then h
      else h\<lparr>hl_recentSince := (if hl_recentSince h < 0 then nowMs else hl_recentSince h),
             hl_windowMin := (if lagMs < hl_windowMin h then lagMs else hl_windowMin h),
             hl_sessionMin := (if lagMs < hl_sessionMin h then lagMs else hl_sessionMin h),
             hl_recentMin := (if lagMs < hl_recentMin h then lagMs else hl_recentMin h)\<rparr>)"

definition hl_rollover :: "int \<Rightarrow> HostLagTracker \<Rightarrow> HostLagTracker" where
  "hl_rollover nowMs h =
     (if hl_recentSince h \<ge> 0 \<and> nowMs - hl_recentSince h > kRolloverMs
      then h\<lparr>hl_sessionMin := (if hl_recentMin h \<noteq> kNone then hl_recentMin h else hl_sessionMin h),
             hl_recentMin := kNone, hl_recentSince := nowMs\<rparr>
      else h)"

definition hl_takeRise :: "int \<Rightarrow> HostLagTracker \<Rightarrow> int \<times> HostLagTracker" where
  "hl_takeRise nowMs h =
     (let rise = (if hl_windowMin h \<noteq> kNone \<and> hl_sessionMin h \<noteq> kNone
                  then hl_windowMin h - hl_sessionMin h else 0);
          h = hl_rollover nowMs (h\<lparr>hl_windowMin := kNone\<rparr>)
      in (if rise > 0 then rise else 0, h))"

section \<open>The freezes\<close>

definition kMergeMs :: int where
  [tunables]: "kMergeMs = 1000"

record LinkFreezeLog =
  lf_count :: int
  lf_start :: int
  lf_end :: int
  lf_maxMs :: int

definition lf_new :: LinkFreezeLog where
  "lf_new = \<lparr>lf_count = 0, lf_start = 0, lf_end = 0, lf_maxMs = 0\<rparr>"

definition lf_note :: "int \<Rightarrow> int \<Rightarrow> LinkFreezeLog \<Rightarrow> LinkFreezeLog" where
  "lf_note startMs endMs l =
     (if endMs < startMs then l
      else let l = (if lf_count l > 0 \<and> startMs \<le> lf_end l + kMergeMs
                    then l\<lparr>lf_start := (if startMs < lf_start l then startMs else lf_start l),
                           lf_end := (if endMs > lf_end l then endMs else lf_end l)\<rparr>
                    else l\<lparr>lf_count := lf_count l + 1, lf_start := startMs, lf_end := endMs\<rparr>);
               span = lf_end l - lf_start l
           in if span > lf_maxMs l then l\<lparr>lf_maxMs := span\<rparr> else l)"

text \<open>The snapshot: how many, the longest, the last.\<close>

definition lf_snapshot :: "LinkFreezeLog \<Rightarrow> int \<times> int \<times> int" where
  "lf_snapshot l = (lf_count l, lf_maxMs l, if lf_count l > 0 then lf_end l - lf_start l else 0)"

section \<open>The send backlog\<close>

definition kDrainedBytesMax :: int where
  [tunables]: "kDrainedBytesMax = 48 * 1024"

definition kDrainedBytesMin :: int where
  [tunables]: "kDrainedBytesMin = 8 * 1024"

definition kDrainedMs :: int where
  [tunables]: "kDrainedMs = 50"

definition kSendBufferMs :: int where
  [tunables]: "kSendBufferMs = 100"

definition kSendBufferBytesMin :: int where
  [tunables]: "kSendBufferBytesMin = 64 * 1024"

definition kSendBufferBytesMax :: int where
  [tunables]: "kSendBufferBytesMax = 256 * 1024"

definition kToleranceMs :: int where
  [tunables]: "kToleranceMs = 250"

definition bytesOf :: "int \<Rightarrow> int \<Rightarrow> int" where
  "bytesOf bitrateKbps ms = (if bitrateKbps \<le> 0 then 0 else bitrateKbps * 1000 div 8 * ms div 1000)"

definition drainedBytesFor :: "int \<Rightarrow> int" where
  "drainedBytesFor bitrateKbps =
     (let b = bytesOf bitrateKbps kDrainedMs
      in if b < kDrainedBytesMin then kDrainedBytesMin else if b > kDrainedBytesMax then kDrainedBytesMax else b)"

definition sendBufferBytesFor :: "int \<Rightarrow> int" where
  "sendBufferBytesFor bitrateKbps =
     (let b = bytesOf bitrateKbps kSendBufferMs
      in if b < kSendBufferBytesMin then kSendBufferBytesMin
         else if b > kSendBufferBytesMax then kSendBufferBytesMax else b)"

definition kDrained :: int where
  "kDrained = - (2 ^ 63)"

record SendBacklog =
  sb_backedUpSinceMs :: int
  sb_drainedBytes :: int

definition sb_new :: SendBacklog where
  "sb_new = \<lparr>sb_backedUpSinceMs = kDrained, sb_drainedBytes = kDrainedBytesMax\<rparr>"

definition sb_setBitrateKbps :: "int \<Rightarrow> SendBacklog \<Rightarrow> SendBacklog" where
  "sb_setBitrateKbps bitrateKbps b =
     b\<lparr>sb_drainedBytes := (if bitrateKbps > 0 then drainedBytesFor bitrateKbps else kDrainedBytesMax)\<rparr>"

definition sb_note :: "int \<Rightarrow> int \<Rightarrow> SendBacklog \<Rightarrow> bool \<times> SendBacklog" where
  "sb_note bufferedBytes nowMs b =
     (if bufferedBytes \<le> sb_drainedBytes b then (False, b\<lparr>sb_backedUpSinceMs := kDrained\<rparr>)
      else if sb_backedUpSinceMs b = kDrained then (False, b\<lparr>sb_backedUpSinceMs := nowMs\<rparr>)
      else let b = (if nowMs < sb_backedUpSinceMs b then b\<lparr>sb_backedUpSinceMs := nowMs\<rparr> else b)
           in (nowMs - sb_backedUpSinceMs b > kToleranceMs, b))"

definition sb_ageMs :: "int \<Rightarrow> SendBacklog \<Rightarrow> int" where
  "sb_ageMs nowMs b =
     (if sb_backedUpSinceMs b = kDrained \<or> nowMs < sb_backedUpSinceMs b then 0 else nowMs - sb_backedUpSinceMs b)"

definition sb_backedUp :: "SendBacklog \<Rightarrow> bool" where
  "sb_backedUp b \<longleftrightarrow> sb_backedUpSinceMs b \<noteq> kDrained"

definition sb_reset :: "SendBacklog \<Rightarrow> SendBacklog" where
  "sb_reset b = b\<lparr>sb_backedUpSinceMs := kDrained\<rparr>"

section \<open>The lag over a window\<close>

lemma hl_note_min:
  "0 \<le> lag \<Longrightarrow> hl_windowMin (hl_note lag now h) = min lag (hl_windowMin h) \<and>
    hl_sessionMin (hl_note lag now h) = min lag (hl_sessionMin h)"
  by (auto simp: hl_note_def min_def)

lemma hl_note_neg: "lag < 0 \<Longrightarrow> hl_note lag now h = h"
  by (simp add: hl_note_def)

definition hl_frames :: "(int \<times> int) list \<Rightarrow> HostLagTracker \<Rightarrow> HostLagTracker" where
  "hl_frames fs h = fold (\<lambda>(lag, now). hl_note lag now) fs h"

lemma hl_frames_mins:
  "hl_windowMin (hl_frames fs h) = fold min (filter (\<lambda>l. 0 \<le> l) (map fst fs)) (hl_windowMin h) \<and>
   hl_sessionMin (hl_frames fs h) = fold min (filter (\<lambda>l. 0 \<le> l) (map fst fs)) (hl_sessionMin h)"
  unfolding hl_frames_def
  by (induction fs arbitrary: h) (auto simp: hl_note_min hl_note_neg)

lemma fold_min_Min: "fold min xs (a :: int) = Min (insert a (set xs))"
  by (simp add: Min.set_eq_fold [symmetric])

lemma hl_takeRise_rise:
  assumes "hl_windowMin g = m" "hl_sessionMin g = min s m" "m < kNone"
  shows "fst (hl_takeRise now g) = max 0 (m - s)"
  using assms by (simp add: hl_takeRise_def Let_def min_def max_def)

section \<open>The episodes of the link\<close>

text \<open>The specification of the freeze log: the list of the episodes, the newest first, a freeze within
  \<open>kMergeMs\<close> of the last one's end stretching it.\<close>

fun episodes_note :: "int \<times> int \<Rightarrow> (int \<times> int) list \<Rightarrow> (int \<times> int) list" where
  "episodes_note (s, e) [] = (if e < s then [] else [(s, e)])"
| "episodes_note (s, e) ((s', e') # es) =
     (if e < s then (s', e') # es
      else if s \<le> e' + 1000 then (min s s', max e e') # es
      else (s, e) # (s', e') # es)"

definition span :: "int \<times> int \<Rightarrow> int" where
  "span p = snd p - fst p"

definition longest :: "(int \<times> int) list \<Rightarrow> int" where
  "longest es = fold max (map span es) 0"

definition freeze_rel :: "LinkFreezeLog \<Rightarrow> (int \<times> int) list \<Rightarrow> bool" where
  "freeze_rel l es \<longleftrightarrow> lf_count l = int (length es) \<and> lf_maxMs l = longest es \<and>
     (es \<noteq> [] \<longrightarrow> hd es = (lf_start l, lf_end l) \<and> lf_start l \<le> lf_end l)"

lemma fold_max_max: "fold max xs (max a b) = max a (fold max xs (b :: int))"
proof (induction xs arbitrary: b)
  case Nil
  then show ?case by simp
next
  case (Cons x xs)
  have "max x (max a b) = max a (max x b)" by (rule max.left_commute)
  then show ?case using Cons.IH[of "max x b"] by simp
qed

lemma longest_Cons: "longest (p # es) = max (span p) (longest es)"
  by (simp add: longest_def fold_max_max)

lemma longest_nonneg: "0 \<le> longest es"
  by (induction es) (simp_all add: longest_Cons, simp add: longest_def)

lemma lf_note_rel: "freeze_rel l es \<Longrightarrow> freeze_rel (lf_note s e l) (episodes_note (s, e) es)"
proof (cases es)
  case Nil
  assume "freeze_rel l es"
  then show ?thesis using Nil
    by (auto simp: freeze_rel_def lf_note_def longest_Cons Let_def span_def longest_def)
next
  case (Cons p ps)
  assume "freeze_rel l es"
  then show ?thesis using Cons
    by (cases p) (auto simp: freeze_rel_def lf_note_def longest_Cons Let_def span_def tunables min_def max_def)
qed

lemma freezes_rel:
  "freeze_rel l es \<Longrightarrow>
   freeze_rel (fold (\<lambda>(s, e). lf_note s e) xs l) (fold episodes_note xs es)"
  by (induction xs arbitrary: l es) (auto intro: lf_note_rel)

lemma freeze_rel_new: "freeze_rel lf_new []"
  by (simp add: freeze_rel_def lf_new_def longest_def)

section \<open>The run of samples over the mark\<close>

definition sb_samples :: "(int \<times> int) list \<Rightarrow> SendBacklog \<Rightarrow> SendBacklog" where
  "sb_samples xs b = fold (\<lambda>(bytes, now) b. snd (sb_note bytes now b)) xs b"

text \<open>The samples since the buffer was last drained, the newest first.\<close>

definition backlog_run :: "int \<Rightarrow> (int \<times> int) list \<Rightarrow> (int \<times> int) list" where
  "backlog_run drained xs = takeWhile (\<lambda>p. fst p > drained) (rev xs)"

lemma backlog_run_snoc:
  "backlog_run d (xs @ [(n, t)]) = (if n > d then (n, t) # backlog_run d xs else [])"
  by (simp add: backlog_run_def)

lemma backlog_run_times: "list_all (\<lambda>p. 0 \<le> snd p \<and> snd p \<le> T) xs \<Longrightarrow>
    list_all (\<lambda>p. 0 \<le> snd p \<and> snd p \<le> T) (backlog_run d xs)"
  unfolding backlog_run_def list_all_iff using set_takeWhileD by fastforce

lemma sb_note_drained: "sb_drainedBytes (snd (sb_note n t b)) = sb_drainedBytes b"
  by (simp add: sb_note_def Let_def)

lemma sb_samples_drained: "sb_drainedBytes (sb_samples xs b) = sb_drainedBytes b"
  unfolding sb_samples_def by (induction xs arbitrary: b) (auto simp: sb_note_drained)

lemma sb_samples_snoc: "sb_samples (xs @ [(n, t)]) b = snd (sb_note n t (sb_samples xs b))"
  by (simp add: sb_samples_def)

lemma sb_samples_since:
  assumes "sb_backedUpSinceMs b = kDrained" "sorted (map snd xs)" "list_all (\<lambda>p. 0 \<le> snd p) xs"
  shows "sb_backedUpSinceMs (sb_samples xs b) =
    (case rev (backlog_run (sb_drainedBytes b) xs) of [] \<Rightarrow> kDrained | p # _ \<Rightarrow> snd p)"
  using assms(2,3)
proof (induction xs rule: rev_induct)
  case Nil
  then show ?case using assms(1) by (simp add: sb_samples_def backlog_run_def)
next
  case (snoc x xs)
  obtain n t where x: "x = (n, t)" by (cases x)
  have le: "list_all (\<lambda>p. 0 \<le> snd p \<and> snd p \<le> t) xs"
    using snoc.prems x by (auto simp: sorted_append list_all_iff)
  note run = backlog_run_times[OF le, of "sb_drainedBytes b"]
  have IH: "sb_backedUpSinceMs (sb_samples xs b) =
    (case rev (backlog_run (sb_drainedBytes b) xs) of [] \<Rightarrow> kDrained | p # _ \<Rightarrow> snd p)"
    using snoc by (simp add: sorted_append)
  show ?case
  proof (cases "rev (backlog_run (sb_drainedBytes b) xs)")
    case Nil
    then show ?thesis using IH x
      by (simp add: sb_samples_snoc sb_note_def backlog_run_snoc sb_samples_drained)
  next
    case (Cons p ps)
    then have "p \<in> set (backlog_run (sb_drainedBytes b) xs)" by (metis list.set_intros(1) set_rev)
    then have "0 \<le> snd p" "snd p \<le> t" using run by (auto simp: list_all_iff)
    moreover from this have "snd p \<noteq> kDrained" by (simp add: kDrained_def)
    ultimately show ?thesis using IH x Cons
      by (simp add: sb_samples_snoc sb_note_def backlog_run_snoc sb_samples_drained Let_def)
  qed
qed

lemma drained_floor_clamped: "drainedBytesFor k = max 8192 (min 49152 (bytesOf k 50))"
  by (simp add: drainedBytesFor_def Let_def tunables min_def max_def)

lemma send_buffer_clamped: "sendBufferBytesFor k = max 65536 (min 262144 (bytesOf k 100))"
  by (simp add: sendBufferBytesFor_def Let_def tunables min_def max_def)

lemma bytesOf_mono:
  assumes "k \<le> k'" "0 \<le> ms"
  shows "bytesOf k ms \<le> bytesOf k' ms"
proof (cases "k \<le> 0")
  case True
  then show ?thesis using assms by (simp add: bytesOf_def pos_imp_zdiv_nonneg_iff)
next
  case False
  have "k * 1000 div 8 \<le> k' * 1000 div 8" using assms(1) by (intro zdiv_mono1) simp_all
  then have "k * 1000 div 8 * ms \<le> k' * 1000 div 8 * ms" using assms(2) by (rule mult_right_mono)
  then show ?thesis using False assms by (simp add: bytesOf_def zdiv_mono1)
qed

section \<open>Properties\<close>

text \<open>What \<open>takeRise\<close> reports at the end of a window is the lowest capture-to-send lag of the window's
  frames above the session's best, and 0 when no frame carried a lag; it closes the window, and until the
  30 s roll-over the session's best takes the window's lowest in.\<close>

theorem lag_rise:
  assumes "hl_windowMin h = kNone" and "list_all (\<lambda>f. fst f < kNone) fs"
    and "ls = filter (\<lambda>l. 0 \<le> l) (map fst fs)"
  shows "fst (hl_takeRise now (hl_frames fs h)) =
      (if ls = [] then 0 else max 0 (Min (set ls) - hl_sessionMin h)) \<and>
    hl_windowMin (snd (hl_takeRise now (hl_frames fs h))) = kNone \<and>
    (now - hl_recentSince (hl_frames fs h) \<le> 30000 \<longrightarrow>
      hl_sessionMin (snd (hl_takeRise now (hl_frames fs h))) = Min (insert (hl_sessionMin h) (set ls)))"
proof -
  have w: "hl_windowMin (hl_frames fs h) = Min (insert kNone (set ls))"
    and s: "hl_sessionMin (hl_frames fs h) = Min (insert (hl_sessionMin h) (set ls))"
    using hl_frames_mins[of fs h] assms by (simp_all add: fold_min_Min)
  have rise: "fst (hl_takeRise now (hl_frames fs h)) =
      (if ls = [] then 0 else max 0 (Min (set ls) - hl_sessionMin h))"
  proof (cases "ls = []")
    case True
    then show ?thesis using w by (simp add: hl_takeRise_def Let_def)
  next
    case False
    have "list_all (\<lambda>l. l < kNone) ls" using assms(2,3) by (auto simp: list_all_iff)
    then have lt: "Min (set ls) < kNone" using False by (simp add: list_all_iff)
    have "Min (insert kNone (set ls)) = min kNone (Min (set ls))"
      "Min (insert (hl_sessionMin h) (set ls)) = min (hl_sessionMin h) (Min (set ls))"
      using False by simp_all
    moreover from lt have "min kNone (Min (set ls)) = Min (set ls)" by (simp only: min_def) simp
    ultimately have eqs: "hl_windowMin (hl_frames fs h) = Min (set ls)"
      "hl_sessionMin (hl_frames fs h) = min (hl_sessionMin h) (Min (set ls))"
      by (simp_all only: w s)
    then have "fst (hl_takeRise now (hl_frames fs h)) = max 0 (Min (set ls) - hl_sessionMin h)"
      by (rule hl_takeRise_rise[OF _ _ lt])
    then show ?thesis using False by simp
  qed
  have "hl_windowMin (snd (hl_takeRise now (hl_frames fs h))) = kNone"
    by (simp add: hl_takeRise_def hl_rollover_def Let_def)
  moreover have "hl_sessionMin (snd (hl_takeRise now (hl_frames fs h))) =
      Min (insert (hl_sessionMin h) (set ls))"
    if "now - hl_recentSince (hl_frames fs h) \<le> 30000"
    using that s by (simp add: hl_takeRise_def hl_rollover_def Let_def tunables)
  ultimately show ?thesis using rise by blast
qed

lemma lag_rise_witness:
  "fst (hl_takeRise 60 (hl_frames [(21, 10), (- 1, 20), (18, 30)] (snd (hl_takeRise 9 (hl_frames [(5, 0)] hl_new)))))
    = 13"
proof -
  have h: "snd (hl_takeRise 9 (hl_frames [(5, 0)] hl_new)) =
      \<lparr>hl_windowMin = kNone, hl_sessionMin = 5, hl_recentMin = 5, hl_recentSince = 0\<rparr>"
    by code_simp
  show ?thesis
    unfolding h by (subst conjunct1[OF lag_rise[OF _ _ refl]]) (simp_all add: kNone_def)
qed

text \<open>C37. The freeze log is the list of the link's episodes: whatever freezes are noted, its snapshot gives
  the number of episodes, the longest of all of them and the length of the last, where a freeze within a second
  of the last episode's end stretches that episode instead of counting again.\<close>

theorem freeze_log_refines:
  fixes xs :: "(int \<times> int) list"
  defines "es \<equiv> fold episodes_note xs []"
  shows "lf_snapshot (fold (\<lambda>(s, e). lf_note s e) xs lf_new) =
     (int (length es), longest es, if es = [] then 0 else span (hd es))"
proof -
  have "freeze_rel (fold (\<lambda>(s, e). lf_note s e) xs lf_new) es"
    unfolding es_def by (rule freezes_rel[OF freeze_rel_new])
  then show ?thesis by (cases es) (auto simp: freeze_rel_def lf_snapshot_def span_def)
qed

text \<open>Shedding is decided by time, not by depth: fed samples in the order of their clock, \<open>note\<close> sheds
  exactly when this sample and the ones before it, back to one more than 250 ms ago, all found the buffer above
  the drained floor. One deep sample, however deep, never sheds.\<close>

theorem backlog_shed_iff:
  assumes "sb_backedUpSinceMs b = kDrained"
    and "sorted (map snd xs @ [now])" and "list_all (\<lambda>p. 0 \<le> snd p) xs"
    and "run = backlog_run (sb_drainedBytes b) xs"
  shows "fst (sb_note bytes now (sb_samples xs b)) \<longleftrightarrow>
    bytes > sb_drainedBytes b \<and> run \<noteq> [] \<and> now - snd (List.last run) > 250"
proof -
  have since: "sb_backedUpSinceMs (sb_samples xs b) =
    (case rev run of [] \<Rightarrow> kDrained | p # _ \<Rightarrow> snd p)"
    using sb_samples_since[OF assms(1) _ assms(3)] assms(2,4) by (simp add: sorted_append)
  have le: "list_all (\<lambda>p. 0 \<le> snd p \<and> snd p \<le> now) run"
    unfolding assms(4) using assms(2,3) by (intro backlog_run_times) (auto simp: list_all_iff sorted_append)
  show ?thesis
  proof (cases "rev run")
    case Nil
    then show ?thesis using since by (simp add: sb_note_def sb_samples_drained)
  next
    case (Cons p ps)
    then have lp: "List.last run = p" and ne: "run \<noteq> []" and "p \<in> set run"
      by (auto simp: rev_swap)
    then have "0 \<le> snd p" "snd p \<le> now" using le by (auto simp: list_all_iff)
    moreover from this have "snd p \<noteq> kDrained" by (simp add: kDrained_def)
    ultimately show ?thesis using since Cons lp ne
      by (simp add: sb_note_def sb_samples_drained Let_def tunables)
  qed
qed

lemma backlog_shed_iff_witness:
  "fst (sb_note 60000 400 (sb_samples [(90000, 0), (1000, 50), (80000, 100), (70000, 300)] sb_new)) \<and>
   \<not> fst (sb_note 600000 2000 (sb_samples [(90000, 0), (1000, 50)] sb_new))"
proof -
  let ?xs = "[(90000, 0), (1000, 50), (80000, 100), (70000, 300)] :: (int \<times> int) list"
  have a: "backlog_run (sb_drainedBytes sb_new) ?xs = [(70000, 300), (80000, 100)]"
    and b: "backlog_run (sb_drainedBytes sb_new) [(90000, 0), (1000, 50)] = []"
    by code_simp+
  show ?thesis
    using backlog_shed_iff[of sb_new ?xs 400 _ 60000, OF _ _ _ a[symmetric]]
      backlog_shed_iff[of sb_new "[(90000, 0), (1000, 50)]" 2000 _ 600000, OF _ _ _ b[symmetric]]
    by (simp add: sb_new_def tunables)
qed

end
