(* ===== verification/Tunnel_Frame.thy ===== *)
theory Tunnel_Frame
  imports MW_Prelude
begin

text \<open>
  The bytes of the rendezvous control channel (\<open>src/server/TunnelFrame.h\<close>). A \<open>QByteArray\<close> is a list of
  bytes, a \<open>quint32\<close> a 32-bit word; \<open>QJsonDocument\<close>'s writer and reader are parameters of the two functions
  that use them. The \<open>bool\<close> with out parameters of the two parsers is an \<open>option\<close>.
\<close>

unbundle bit_operations_syntax

datatype Kind = Request | Response | Body | End | WsOpen | WsText | WsClose | WsOpened

fun kind_byte :: "Kind \<Rightarrow> 8 word" where
  "kind_byte Request = 1"
| "kind_byte Response = 2"
| "kind_byte Body = 3"
| "kind_byte End = 4"
| "kind_byte WsOpen = 5"
| "kind_byte WsText = 6"
| "kind_byte WsClose = 7"
| "kind_byte WsOpened = 8"

definition kHeaderBytes :: nat where
  "kHeaderBytes = 5"

text \<open>\<open>appendU32\<close>: the four bytes, the highest first; \<open>static_cast<char>\<close> keeps the low eight bits.\<close>

definition appendU32 :: "8 word list \<Rightarrow> 32 word \<Rightarrow> 8 word list" where
  "appendU32 out v = out @ [ucast (drop_bit 24 v AND 0xFF), ucast (drop_bit 16 v AND 0xFF),
     ucast (drop_bit 8 v AND 0xFF), ucast (v AND 0xFF)]"

definition readU32 :: "8 word list \<Rightarrow> nat \<Rightarrow> 32 word" where
  "readU32 b offset = push_bit 24 (ucast (b ! offset)) OR push_bit 16 (ucast (b ! (offset + 1))) OR
     push_bit 8 (ucast (b ! (offset + 2))) OR ucast (b ! (offset + 3))"

text \<open>\<open>QByteArray::mid\<close>: a negative length asks for everything from the position on.\<close>

definition qmid :: "8 word list \<Rightarrow> int \<Rightarrow> int \<Rightarrow> 8 word list" where
  "qmid b pos len = (if len < 0 then drop (nat pos) b else take (nat len) (drop (nat pos) b))"

definition build :: "8 word \<Rightarrow> 32 word \<Rightarrow> 8 word list \<Rightarrow> 8 word list" where
  "build kind i payload = appendU32 [kind] i @ payload"

definition parse :: "8 word list \<Rightarrow> (8 word \<times> 32 word \<times> 8 word list) option" where
  "parse message =
     (if length message < kHeaderBytes then None
      else Some (message ! 0, readU32 message 1, qmid message (int kHeaderBytes) (- 1)))"

definition encodeHead :: "('j \<Rightarrow> 8 word list) \<Rightarrow> 'j \<Rightarrow> 8 word list \<Rightarrow> 8 word list" where
  "encodeHead toJson head body =
     (let json = toJson head in appendU32 [] (word_of_nat (length json)) @ json @ body)"

definition decodeHead :: "(8 word list \<Rightarrow> 'j option) \<Rightarrow> 8 word list \<Rightarrow> ('j \<times> 8 word list) option" where
  "decodeHead fromJson payload =
     (if length payload < 4 then None
      else let headLen = readU32 payload 0
           in if headLen = 0 \<or> uint headLen > int (length payload) - 4 then None
              else case fromJson (qmid payload 4 (sint headLen)) of
                     None \<Rightarrow> None
                   | Some doc \<Rightarrow> Some (doc, qmid payload (4 + sint headLen) (- 1)))"

text \<open>\<open>ControlTunnel::sendResponse\<close>: what it puts into the outbox of the channel for one response, whose head the
  caller has encoded. The loop walks the body by its offset.\<close>

definition kChunkBytes :: int where
  [tunables]: "kChunkBytes = 16 * 1024"

function body_frames :: "32 word \<Rightarrow> 8 word list \<Rightarrow> int \<Rightarrow> 8 word list list" where
  "body_frames i body offset =
     (if offset < int (length body)
      then build (kind_byte Body) i (qmid body offset kChunkBytes) # body_frames i body (offset + kChunkBytes)
      else [])"
  by pat_completeness auto

termination body_frames
  by (relation "measure (\<lambda>(i, body, offset). nat (int (length body) - offset))") (auto simp: tunables)

declare body_frames.simps [simp del]

definition sendResponse :: "32 word \<Rightarrow> 8 word list \<Rightarrow> 8 word list \<Rightarrow> 8 word list list \<Rightarrow> 8 word list list" where
  "sendResponse i head body outbox =
     outbox @ [build (kind_byte Response) i head] @ body_frames i body 0 @ [build (kind_byte End) i []]"

section \<open>The 32-bit numbers\<close>

lemma byte_mask: "(0xFF :: 32 word) = mask 8"
  by (simp add: mask_eq_exp_minus_1)

lemma bit_byte_high: "8 \<le> n \<Longrightarrow> \<not> bit (b :: 8 word) n"
  using bit_imp_le_length by fastforce

lemma bit_readU32:
  "bit (readU32 (a # b # c # d # rest) 0) n \<longleftrightarrow>
     (if n < 8 then bit d n else if n < 16 then bit c (n - 8)
      else if n < 24 then bit b (n - 16) else bit a (n - 24))"
  unfolding readU32_def using bit_imp_le_length[of a "n - 24"]
  by (auto simp: bit_simps bit_byte_high)

lemma bit_sent_byte: "bit (ucast (drop_bit k v AND 0xFF :: 32 word) :: 8 word) n \<longleftrightarrow> n < 8 \<and> bit v (k + n)"
  unfolding byte_mask by (auto simp: bit_simps bit_imp_le_length)

lemma appendU32_bytes:
  "appendU32 out v = out @ [ucast (drop_bit 24 v AND 0xFF), ucast (drop_bit 16 v AND 0xFF),
     ucast (drop_bit 8 v AND 0xFF), ucast (drop_bit 0 v AND 0xFF)]"
  by (simp add: appendU32_def)

lemma read_appended: "readU32 (appendU32 [] v @ rest) 0 = v"
proof (rule bit_word_eqI)
  fix n assume "n < LENGTH(32)"
  then show "bit (readU32 (appendU32 [] v @ rest) 0) n = bit v n"
    unfolding appendU32_bytes by (auto simp: bit_readU32 bit_sent_byte simp del: drop_bit_0)
qed

lemma append_read: "appendU32 out (readU32 (a # b # c # d # rest) 0) = out @ [a, b, c, d]"
  unfolding appendU32_bytes
  by (simp del: drop_bit_0, intro conjI bit_word_eqI; simp add: bit_sent_byte bit_readU32 del: drop_bit_0)

lemma length_appendU32 [simp]: "length (appendU32 out v) = length out + 4"
  by (simp add: appendU32_def)

lemma readU32_tail: "readU32 (k # b) (Suc n) = readU32 b n"
  by (simp add: readU32_def add.commute)

lemma appendU32_out: "appendU32 out v = out @ appendU32 [] v"
  by (simp add: appendU32_def)

lemma four_bytes: "4 \<le> length m \<Longrightarrow> \<exists>a b c d rest. m = a # b # c # d # rest"
  by (cases m; cases "tl m"; cases "tl (tl m)"; cases "tl (tl (tl m))") auto

lemma drop_appended: "drop 4 (appendU32 [] v @ rest) = rest"
  by simp

lemma parse_build: "parse (build k i p) = Some (k, i, p)"
proof -
  have b: "build k i p = k # (appendU32 [] i @ p)"
    by (simp add: build_def appendU32_out[of "[k]"])
  have "drop 5 (k # (appendU32 [] i @ p)) = p" by (simp add: drop_Cons')
  then show ?thesis
    unfolding b by (simp add: parse_def kHeaderBytes_def qmid_def readU32_tail read_appended)
qed

lemma build_parse:
  assumes "parse m = Some (k, i, p)"
  shows "m = build k i p"
proof -
  have len: "5 \<le> length m" using assms by (auto simp: parse_def kHeaderBytes_def split: if_splits)
  then obtain k' m' where m: "m = k' # m'" by (cases m) auto
  then have "4 \<le> length m'" using len by simp
  then obtain a b c d p' where m': "m' = a # b # c # d # p'" using four_bytes by blast
  have "parse m = Some (k', readU32 m' 0, p')"
    using len m m' by (simp add: parse_def kHeaderBytes_def qmid_def readU32_tail)
  then show ?thesis using assms m m' by (auto simp: build_def append_read)
qed

lemma sint_small: "uint (w :: 32 word) < 2 ^ 31 \<Longrightarrow> sint w = uint w"
  unfolding sint_uint by (rule signed_take_bit_int_eq_self) (auto intro: order_trans[OF _ uint_ge_0])

lemma decodeHead_complete:
  assumes "json \<noteq> []" "fromJson json = Some h" "length json < 2 ^ 31"
  shows "decodeHead fromJson (appendU32 [] (word_of_nat (length json)) @ json @ b) = Some (h, b)"
proof -
  let ?w = "word_of_nat (length json) :: 32 word"
  have u: "uint ?w = int (length json)" using assms(3) by (simp add: uint_nat unat_of_nat)
  moreover have "sint ?w = int (length json)" using u assms(3) by (subst sint_small) simp_all
  moreover have "?w \<noteq> 0" using u assms(1) by (metis length_0_conv of_nat_eq_0_iff unsigned_0)
  ultimately show ?thesis using assms(1,2)
    by (simp add: decodeHead_def Let_def read_appended qmid_def nat_add_distrib)
qed

lemma decodeHead_bytes:
  assumes "readU32 (a # b # c # d # rest) 0 = w" "w \<noteq> 0" "uint w \<le> int (length rest)" "sint w = int n"
  shows "decodeHead fromJson (a # b # c # d # rest) =
    map_option (\<lambda>doc. (doc, drop n rest)) (fromJson (take n rest))"
proof -
  have "drop (4 + n) (a # b # c # d # rest) = drop n rest"
    by (subst add.commute, subst drop_drop [symmetric]) simp
  then show ?thesis
    using assms by (simp add: decodeHead_def Let_def qmid_def nat_add_distrib split: option.splits)
qed

lemma decodeHead_lengths:
  assumes "decodeHead fromJson (a # b # c # d # rest) = Some r"
  shows "readU32 (a # b # c # d # rest) 0 \<noteq> 0 \<and> uint (readU32 (a # b # c # d # rest) 0) \<le> int (length rest)"
proof (rule ccontr)
  assume "\<not> ?thesis"
  then have "decodeHead fromJson (a # b # c # d # rest) = None"
    by (auto simp: decodeHead_def Let_def simp del: of_nat_Suc)
  then show False using assms by simp
qed

lemma decodeHead_sound:
  assumes "decodeHead fromJson p = Some (h, b)" "length p < 2 ^ 31"
  shows "\<exists>json. json \<noteq> [] \<and> fromJson json = Some h \<and>
    p = appendU32 [] (word_of_nat (length json)) @ json @ b"
proof -
  have "4 \<le> length p" using assms(1) by (auto simp: decodeHead_def split: if_splits)
  then obtain a b' c d rest where p: "p = a # b' # c # d # rest" using four_bytes by blast
  obtain w where w: "readU32 (a # b' # c # d # rest) 0 = w" by blast
  have w0: "w \<noteq> 0" and le: "uint w \<le> int (length rest)"
    using decodeHead_lengths[OF assms(1)[unfolded p]] w by simp_all
  have n: "unat w \<le> length rest" using le unfolding unat_eq_nat_uint by linarith
  have "length rest < 2147483648" using assms(2) by (simp add: p)
  then have "uint w < 2 ^ 31" using le by simp
  then have s: "sint w = int (unat w)" using sint_small[of w] unfolding unat_eq_nat_uint by simp
  have "take (unat w) rest \<noteq> []" using w0 n by (auto simp: unat_eq_0)
  moreover have "fromJson (take (unat w) rest) = Some h" and "b = drop (unat w) rest"
    using assms(1) unfolding p decodeHead_bytes[OF w w0 le s] by auto
  moreover have "p = appendU32 [] (word_of_nat (length (take (unat w) rest))) @
      take (unat w) rest @ drop (unat w) rest"
    using n p append_read[of "[]" a b' c d rest] w by simp
  ultimately show ?thesis by blast
qed

section \<open>The frames of a response\<close>

lemma mid_chunk: "0 \<le> offset \<Longrightarrow> qmid body offset kChunkBytes = take 16384 (drop (nat offset) body)"
  by (simp add: qmid_def tunables)

lemma body_frames_sent:
  assumes "0 \<le> offset"
  shows "\<exists>chunks. body_frames i body offset = map (build 3 i) chunks \<and>
    concat chunks = drop (nat offset) body \<and> list_all (\<lambda>c. c \<noteq> [] \<and> length c \<le> 16384) chunks"
  using assms
proof (induction i body offset rule: body_frames.induct)
  case (1 i body offset)
  show ?case
  proof (cases "offset < int (length body)")
    case False
    then show ?thesis by (intro exI[of _ "[]"]) (simp add: body_frames.simps[of i body])
  next
    case True
    obtain cs where cs: "body_frames i body (offset + kChunkBytes) = map (build 3 i) cs"
      "concat cs = drop (nat (offset + kChunkBytes)) body" "list_all (\<lambda>c. c \<noteq> [] \<and> length c \<le> 16384) cs"
      using "1.IH"[OF True] "1.prems" by (auto simp: tunables)
    have "nat (offset + kChunkBytes) = 16384 + nat offset"
      using "1.prems" by (simp add: tunables nat_add_distrib)
    then have "take 16384 (drop (nat offset) body) @ concat cs = drop (nat offset) body"
      unfolding cs(2) by (metis append_take_drop_id drop_drop)
    moreover have "drop (nat offset) body \<noteq> []" using True "1.prems" by simp
    ultimately show ?thesis using True cs "1.prems"
      by (intro exI[of _ "take 16384 (drop (nat offset) body) # cs"]) (simp add: mid_chunk body_frames.simps[of i body offset])
  qed
qed

section \<open>Properties\<close>

text \<open>Splitting a frame undoes building one and nothing else: \<open>parse\<close> yields a kind, an identifier and a
  payload exactly for the message \<open>build\<close> makes of them, and the messages it refuses are exactly those shorter
  than the five bytes of a header.\<close>

theorem frame_round_trip:
  "(parse m = Some (k, i, p) \<longleftrightarrow> m = build k i p) \<and> (parse m = None \<longleftrightarrow> length m < 5)"
proof (intro conjI iffI)
  assume "m = build k i p"
  then show "parse m = Some (k, i, p)" by (simp add: parse_build)
qed (auto simp: build_parse parse_def kHeaderBytes_def split: if_splits)

text \<open>A payload below 2 GiB decodes to a head and a body exactly when it is the length of a non-empty JSON text
  that reads as that head, the text itself, and the body: a length that runs past the end, a zero length, a
  truncated payload and a text that is no object all decode to nothing.\<close>

theorem head_decodes_iff:
  assumes "length p < 2 ^ 31"
  shows "decodeHead fromJson p = Some (h, b) \<longleftrightarrow>
    (\<exists>json. json \<noteq> [] \<and> fromJson json = Some h \<and>
       p = appendU32 [] (word_of_nat (length json)) @ json @ b)"
proof
  assume "decodeHead fromJson p = Some (h, b)"
  then show "\<exists>json. json \<noteq> [] \<and> fromJson json = Some h \<and>
       p = appendU32 [] (word_of_nat (length json)) @ json @ b"
    using assms by (rule decodeHead_sound)
next
  assume "\<exists>json. json \<noteq> [] \<and> fromJson json = Some h \<and>
       p = appendU32 [] (word_of_nat (length json)) @ json @ b"
  then obtain json where j: "json \<noteq> []" "fromJson json = Some h"
    "p = appendU32 [] (word_of_nat (length json)) @ json @ b" by blast
  then have "length json < 2 ^ 31" using assms by simp
  then show "decodeHead fromJson p = Some (h, b)"
    unfolding j(3) using j(1,2) by (intro decodeHead_complete)
qed

text \<open>The witness reads an object as the text in braces it was written as.\<close>

definition braces :: "8 word list \<Rightarrow> 8 word list option" where
  "braces t = (if t \<noteq> [] \<and> hd t = 123 \<and> List.last t = 125 then Some t else None)"

lemma head_decodes_iff_witness:
  "decodeHead braces (encodeHead id [123, 125] [7, 8]) = Some ([123, 125], [7, 8])"
proof -
  have a: "encodeHead id [123, 125] [7, 8] = appendU32 [] (word_of_nat (length [123 :: 8 word, 125])) @ [123, 125] @ [7, 8]"
    by (simp add: encodeHead_def)
  show ?thesis
    by (subst head_decodes_iff) (simp add: a, rule exI[of _ "[123, 125]"], simp add: a braces_def)
qed

text \<open>C40. A browser that reads a response's frames gets the response: after the head come body frames of 1 to
  16384 bytes whose payloads, in order, are the body, and then the end, every frame under the request's
  identifier and behind whatever the channel already held.\<close>

theorem response_reassembles:
  "\<exists>chunks. map parse (sendResponse i head body outbox) =
      map parse outbox @ [Some (2, i, head)] @ map (\<lambda>c. Some (3, i, c)) chunks @ [Some (4, i, [])] \<and>
    concat chunks = body \<and> list_all (\<lambda>c. c \<noteq> [] \<and> length c \<le> 16384) chunks"
proof -
  obtain chunks where "body_frames i body 0 = map (build 3 i) chunks" "concat chunks = body"
    "list_all (\<lambda>c. c \<noteq> [] \<and> length c \<le> 16384) chunks"
    using body_frames_sent[of 0 i body] by auto
  then show ?thesis
    by (intro exI[of _ chunks]) (simp add: sendResponse_def parse_build)
qed

end
