(* ===== verification/Input_Watchdog.thy ===== *)
theory Input_Watchdog
  imports MW_Prelude "HOL-Library.AList"
begin

text \<open>
  The input dead-man switch (\<open>src/streaming/InputWatchdog.h\<close> and \<open>.cpp\<close>). The mutex makes every method's
  critical section atomic, so the object is a state and steps on it; the clock is an argument. A \<open>QHash\<close> is
  an association list without duplicate keys: its order stands for the unspecified iteration order, and no
  theorem depends on it. What the sink is called with is the list of releases a step returns. A method
  called off the owning thread queues its call of \<open>arm\<close>; here it follows at once.
\<close>

unbundle bit_operations_syntax

record HeldKey =
  hk_keyCode :: int
  hk_modifiers :: int
  hk_flags :: int
  hk_hold :: bool

datatype Release = ReleaseKey HeldKey | ReleaseButton nat | NeutralizePad int int

definition kTickMs :: int where
  [tunables]: "kTickMs = 100"

definition kStaleMs :: int where
  [tunables]: "kStaleMs = 250"

definition kStaleHoldMs :: int where
  [tunables]: "kStaleHoldMs = 3000"

record InputWatchdog =
  wd_LastAliveMs :: int
  wd_HeldKeys :: "(int \<times> HeldKey) list"
  wd_HeldButtons :: "32 word"
  wd_HeldButtonsHold :: bool
  wd_ActivePads :: "(int \<times> int) list"
  wd_ShortFired :: bool
  wd_LongFired :: bool
  wd_HeartbeatSeen :: bool
  wd_Timer :: bool

definition wd_new :: InputWatchdog where
  "wd_new = \<lparr>wd_LastAliveMs = - 1, wd_HeldKeys = [], wd_HeldButtons = 0, wd_HeldButtonsHold = False,
     wd_ActivePads = [], wd_ShortFired = False, wd_LongFired = False, wd_HeartbeatSeen = False,
     wd_Timer = False\<rparr>"

definition anythingHeldLocked :: "InputWatchdog \<Rightarrow> bool" where
  "anythingHeldLocked w \<longleftrightarrow> wd_HeldKeys w \<noteq> [] \<or> wd_HeldButtons w \<noteq> 0 \<or> wd_ActivePads w \<noteq> []"

text \<open>\<open>wd_Timer\<close> is the timer's \<open>isActive\<close>.\<close>

definition arm :: "InputWatchdog \<Rightarrow> InputWatchdog" where
  "arm w = w\<lparr>wd_Timer := wd_HeartbeatSeen w \<and> anythingHeldLocked w\<rparr>"

definition noteKey :: "HeldKey \<Rightarrow> bool \<Rightarrow> InputWatchdog \<Rightarrow> InputWatchdog" where
  "noteKey key down w =
     arm (if down then w\<lparr>wd_HeldKeys := AList.update (hk_keyCode key) key (wd_HeldKeys w)\<rparr>
          else w\<lparr>wd_HeldKeys := AList.delete (hk_keyCode key) (wd_HeldKeys w)\<rparr>)"

definition button_bit :: "int \<Rightarrow> 32 word" where
  "button_bit button = (if 1 \<le> button \<and> button \<le> 32 then push_bit (nat (button - 1)) 1 else 0)"

definition noteButton :: "int \<Rightarrow> bool \<Rightarrow> bool \<Rightarrow> InputWatchdog \<Rightarrow> InputWatchdog" where
  "noteButton button down held w =
     arm (if down
          then w\<lparr>wd_HeldButtons := wd_HeldButtons w OR button_bit button,
                 wd_HeldButtonsHold := (if held then True else wd_HeldButtonsHold w)\<rparr>
          else let buttons = wd_HeldButtons w AND NOT (button_bit button)
               in w\<lparr>wd_HeldButtons := buttons,
                    wd_HeldButtonsHold := (if buttons = 0 then False else wd_HeldButtonsHold w)\<rparr>)"

definition notePad :: "int \<Rightarrow> int \<Rightarrow> bool \<Rightarrow> InputWatchdog \<Rightarrow> InputWatchdog" where
  "notePad controller pad_mask atRest w =
     arm (if atRest then w\<lparr>wd_ActivePads := AList.delete controller (wd_ActivePads w)\<rparr>
          else w\<lparr>wd_ActivePads := AList.update controller pad_mask (wd_ActivePads w)\<rparr>)"

text \<open>\<open>padAtRest\<close>: the sticks are \<open>short\<close>s; \<open>qAbs\<close> on a \<open>short\<close> is Qt's, a parameter.\<close>

definition kStickAtRest :: int where
  [tunables]: "kStickAtRest = 4096"

definition padAtRest :: "(16 word \<Rightarrow> 16 word) \<Rightarrow> int \<Rightarrow> 8 word \<Rightarrow> 8 word \<Rightarrow>
    16 word \<Rightarrow> 16 word \<Rightarrow> 16 word \<Rightarrow> 16 word \<Rightarrow> bool" where
  "padAtRest qAbs buttonFlags leftTrigger rightTrigger leftStickX leftStickY rightStickX rightStickY \<longleftrightarrow>
     buttonFlags = 0 \<and> leftTrigger = 0 \<and> rightTrigger = 0 \<and>
     sint (qAbs leftStickX) < kStickAtRest \<and> sint (qAbs leftStickY) < kStickAtRest \<and>
     sint (qAbs rightStickX) < kStickAtRest \<and> sint (qAbs rightStickY) < kStickAtRest"

text \<open>The state of a pad as a session is sent it.\<close>

record PadState =
  ps_buttons :: int
  ps_lt :: "8 word"
  ps_rt :: "8 word"
  ps_lx :: "16 word"
  ps_ly :: "16 word"
  ps_rx :: "16 word"
  ps_ry :: "16 word"

definition pad_neutral :: PadState where
  "pad_neutral = \<lparr>ps_buttons = 0, ps_lt = 0, ps_rt = 0, ps_lx = 0, ps_ly = 0, ps_rx = 0, ps_ry = 0\<rparr>"

definition at_rest :: "(16 word \<Rightarrow> 16 word) \<Rightarrow> PadState \<Rightarrow> bool" where
  "at_rest qAbs s \<longleftrightarrow> padAtRest qAbs (ps_buttons s) (ps_lt s) (ps_rt s) (ps_lx s) (ps_ly s) (ps_rx s) (ps_ry s)"

definition noteClientAlive :: "int \<Rightarrow> InputWatchdog \<Rightarrow> int \<times> InputWatchdog" where
  "noteClientAlive now w =
     (if (wd_ShortFired w \<or> wd_LongFired w) \<and> 0 \<le> wd_LastAliveMs w then now - wd_LastAliveMs w else 0,
      w\<lparr>wd_LastAliveMs := now, wd_ShortFired := False, wd_LongFired := False\<rparr>)"

text \<open>The numbers 1 to 32 of the buttons whose bit a mask has, as the loops of the code find them.\<close>

definition buttons_in :: "32 word \<Rightarrow> nat list" where
  "buttons_in buttons = filter (\<lambda>b. buttons AND push_bit (b - 1) 1 \<noteq> 0) [1..<33]"

definition release :: "bool \<Rightarrow> InputWatchdog \<Rightarrow> Release list \<times> InputWatchdog" where
  "release includeHold w =
     (let keep = (\<lambda>(c, k). hk_hold k \<and> \<not> includeHold);
          ks = map snd (filter (\<lambda>p. \<not> keep p) (wd_HeldKeys w));
          letGo = wd_HeldButtons w \<noteq> 0 \<and> (includeHold \<or> \<not> wd_HeldButtonsHold w);
          buttons = (if letGo then wd_HeldButtons w else 0);
          pads = (if includeHold then wd_ActivePads w else [])
      in (map ReleaseKey ks @ map ReleaseButton (buttons_in buttons) @ map (\<lambda>(c, m). NeutralizePad c m) pads,
          arm (w\<lparr>wd_HeldKeys := filter keep (wd_HeldKeys w),
                 wd_HeldButtons := (if letGo then 0 else wd_HeldButtons w),
                 wd_HeldButtonsHold := (if letGo then False else wd_HeldButtonsHold w),
                 wd_ActivePads := (if includeHold then [] else wd_ActivePads w)\<rparr>)))"

definition tick :: "int \<Rightarrow> InputWatchdog \<Rightarrow> Release list \<times> InputWatchdog" where
  "tick now w =
     (if \<not> wd_HeartbeatSeen w \<or> wd_LastAliveMs w < 0 then ([], w)
      else let silentMs = now - wd_LastAliveMs w
           in if silentMs \<ge> kStaleHoldMs \<and> \<not> wd_LongFired w
              then release True (w\<lparr>wd_ShortFired := True, wd_LongFired := True\<rparr>)
              else if silentMs \<ge> kStaleMs \<and> \<not> wd_ShortFired w
              then release False (w\<lparr>wd_ShortFired := True\<rparr>)
              else ([], w))"

record SyncDiff =
  sd_press :: "HeldKey list"
  sd_release :: "HeldKey list"
  sd_buttonsDown :: "nat list"
  sd_buttonsUp :: "nat list"

fun sync_keys :: "HeldKey list \<Rightarrow> (int \<times> HeldKey) list \<Rightarrow> HeldKey list \<Rightarrow> (int \<times> HeldKey) list \<times> HeldKey list" where
  "sync_keys [] held press = (held, press)"
| "sync_keys (k # ks) held press =
     (case map_of held (hk_keyCode k) of
        None \<Rightarrow> sync_keys ks (AList.update (hk_keyCode k) k held) (press @ [k])
      | Some h \<Rightarrow> sync_keys ks (AList.update (hk_keyCode k) (h\<lparr>hk_hold := hk_hold k\<rparr>) held) press)"

definition sync :: "HeldKey list \<Rightarrow> 32 word \<Rightarrow> bool \<Rightarrow> InputWatchdog \<Rightarrow> SyncDiff \<times> InputWatchdog" where
  "sync ks buttonMask buttonsHold w =
     (let clientKeys = map hk_keyCode ks;
          (held, press) = sync_keys ks (wd_HeldKeys w) [];
          has = (\<lambda>m b. m AND push_bit (b - 1) 1 \<noteq> 0)
      in (\<lparr>sd_press = press,
           sd_release = map snd (filter (\<lambda>(c, k). c \<notin> set clientKeys) held),
           sd_buttonsDown = filter (\<lambda>b. has buttonMask b \<and> \<not> has (wd_HeldButtons w) b) [1..<33],
           sd_buttonsUp = filter (\<lambda>b. \<not> has buttonMask b \<and> has (wd_HeldButtons w) b) [1..<33]\<rparr>,
          arm (w\<lparr>wd_HeartbeatSeen := True,
                 wd_HeldKeys := filter (\<lambda>(c, k). c \<in> set clientKeys) held,
                 wd_HeldButtons := buttonMask,
                 wd_HeldButtonsHold := buttonMask \<noteq> 0 \<and> buttonsHold\<rparr>)))"

section \<open>What is down on the host\<close>

text \<open>The host as the engines drive it (\<open>NativeMediaEngine\<close>, \<open>MoonlightShim\<close>), kept apart from what the watchdog
  believes: the key codes down, the characters pressed as keys of the host's own layout (\<open>sendKeyChar\<close> of the native
  engine, which no watchdog call goes with), the buttons down, the last state of every pad, the pads that were
  unplugged, and everything else an engine is told, in order. Each input reaches the watchdog as the engine's method tells it, and
  the host; each release and each difference of a heartbeat is applied to the host, the releases of a heartbeat before
  its presses. A negative button number stands as 0: neither is a button.\<close>

datatype Action =
    TypeText "int list" | SecureAttention | LockKeys bool bool bool
  | MoveBy int int | MoveTo int int int int | ScrollBy int | HScrollBy int
  | PadArrival int int int bool
  | CompositeCursor bool int | ReleaseInputBlock | SetClipboard "int list"
  | FrameFloor int | ClientRefresh int bool | ClientFpsCap int | ClientBitrate int | LinkReport int int int bool
  | KeyframeWanted | FramesMissing int int | Pong int

record Host =
  keysDown :: "int set"
  charsDown :: "int list set"
  buttonsDown :: "nat set"
  padState :: "int \<Rightarrow> PadState"
  padsGone :: "int set"
  acts :: "Action list"

definition host_idle :: Host where
  "host_idle = \<lparr>keysDown = {}, charsDown = {}, buttonsDown = {}, padState = (\<lambda>c. pad_neutral), padsGone = {}, acts = []\<rparr>"

definition host_pad :: "int \<Rightarrow> PadState \<Rightarrow> Host \<Rightarrow> Host" where
  "host_pad c s h = h\<lparr>padState := (padState h)(c := s), padsGone := padsGone h - {c}\<rparr>"

fun host_release :: "Release \<Rightarrow> Host \<Rightarrow> Host" where
  "host_release (ReleaseKey k) h = h\<lparr>keysDown := keysDown h - {hk_keyCode k}\<rparr>"
| "host_release (ReleaseButton b) h = h\<lparr>buttonsDown := buttonsDown h - {b}\<rparr>"
| "host_release (NeutralizePad c m) h = host_pad c pad_neutral h"

definition host_key :: "HeldKey \<Rightarrow> bool \<Rightarrow> Host \<Rightarrow> Host" where
  "host_key k down h = h\<lparr>keysDown := (if down then insert (hk_keyCode k) (keysDown h)
     else keysDown h - {hk_keyCode k})\<rparr>"

definition host_button :: "nat \<Rightarrow> bool \<Rightarrow> Host \<Rightarrow> Host" where
  "host_button b down h = h\<lparr>buttonsDown := (if down then insert b (buttonsDown h) else buttonsDown h - {b})\<rparr>"

definition host_sync :: "SyncDiff \<Rightarrow> Host \<Rightarrow> Host" where
  "host_sync d h =
     fold (\<lambda>b. host_button b True) (sd_buttonsDown d) (fold (\<lambda>b. host_button b False) (sd_buttonsUp d)
       (fold (\<lambda>k. host_key k True) (sd_press d) (fold (\<lambda>k. host_key k False) (sd_release d) h)))"

datatype Input =
    Key HeldKey bool
  | Button nat bool bool
  | Pad int int PadState
  | PadGone int int
  | Char "int list" bool
  | Act Action
  | Sync "HeldKey list" "32 word" bool
  | Alive int
  | Tick int
  | LetGo bool

fun input_step :: "(16 word \<Rightarrow> 16 word) \<Rightarrow> Input \<Rightarrow> InputWatchdog \<times> Host \<Rightarrow> InputWatchdog \<times> Host" where
  "input_step qAbs (Key k down) (w, h) = (noteKey k down w, host_key k down h)"
| "input_step qAbs (Button b down held) (w, h) = (noteButton (int b) down held w, host_button b down h)"
| "input_step qAbs (Pad c m s) (w, h) = (notePad c m (at_rest qAbs s) w, host_pad c s h)"
| "input_step qAbs (PadGone c m) (w, h) = (w, h\<lparr>padState := (padState h)(c := pad_neutral), padsGone := insert c (padsGone h)\<rparr>)"
| "input_step qAbs (Char t down) (w, h) =
     (w, h\<lparr>charsDown := (if down then insert t (charsDown h) else charsDown h - {t})\<rparr>)"
| "input_step qAbs (Act a) (w, h) = (w, h\<lparr>acts := acts h @ [a]\<rparr>)"
| "input_step qAbs (Sync ks m held) (w, h) = (let (d, w) = sync ks m held w in (w, host_sync d h))"
| "input_step qAbs (Alive now) (w, h) = (snd (noteClientAlive now w), h)"
| "input_step qAbs (Tick now) (w, h) = (let (rs, w) = tick now w in (w, fold host_release rs h))"
| "input_step qAbs (LetGo includeHold) (w, h) = (let (rs, w) = release includeHold w in (w, fold host_release rs h))"

text \<open>Buttons are numbered 1 to 32.\<close>

fun input_ok :: "Input \<Rightarrow> bool" where
  "input_ok (Button b down held) \<longleftrightarrow> 1 \<le> b \<and> b \<le> 32"
| "input_ok _ \<longleftrightarrow> True"

definition mask_buttons :: "32 word \<Rightarrow> nat set" where
  "mask_buttons m = {b. 1 \<le> b \<and> b \<le> 32 \<and> bit m (b - 1)}"

definition keys_ok :: "(int \<times> HeldKey) list \<Rightarrow> bool" where
  "keys_ok held \<longleftrightarrow> distinct (map fst held) \<and> list_all (\<lambda>(c, k). hk_keyCode k = c) held"

definition pads_known :: "(16 word \<Rightarrow> 16 word) \<Rightarrow> InputWatchdog \<times> Host \<Rightarrow> bool" where
  "pads_known qAbs s \<longleftrightarrow> (case s of (w, h) \<Rightarrow> \<forall>c.
     (\<not> at_rest qAbs (padState h c) \<longrightarrow> c \<in> fst ` set (wd_ActivePads w)) \<and>
     (c \<in> fst ` set (wd_ActivePads w) \<longrightarrow> \<not> at_rest qAbs (padState h c) \<or> c \<in> padsGone h))"

definition mirrors :: "InputWatchdog \<times> Host \<Rightarrow> bool" where
  "mirrors s \<longleftrightarrow> (case s of (w, h) \<Rightarrow>
     keysDown h = fst ` set (wd_HeldKeys w) \<and> buttonsDown h = mask_buttons (wd_HeldButtons w) \<and>
     keys_ok (wd_HeldKeys w) \<and>
     (wd_Timer w \<longleftrightarrow> wd_HeartbeatSeen w \<and> anythingHeldLocked w))"

subsection \<open>The masks\<close>

lemma and_bit_iff: "m AND push_bit n 1 \<noteq> 0 \<longleftrightarrow> bit m n" for m :: "32 word"
  by (simp add: bit_iff_and_push_bit_not_eq_0)

lemma set_buttons_in: "set (buttons_in m) = mask_buttons m"
  unfolding buttons_in_def mask_buttons_def and_bit_iff by auto

lemma mask_buttons_0 [simp]: "mask_buttons 0 = {}"
  by (simp add: mask_buttons_def)

lemma mask_buttons_empty: "mask_buttons m = {} \<longleftrightarrow> m = 0"
proof
  assume e: "mask_buttons m = {}"
  have "\<not> bit m n" if "n < 32" for n
  proof
    assume "bit m n"
    then have "Suc n \<in> mask_buttons m" using that by (simp add: mask_buttons_def)
    then show False using e by simp
  qed
  then show "m = 0" by (intro bit_word_eqI) simp
qed simp

lemma button_bit_iff: "1 \<le> b \<Longrightarrow> b \<le> 32 \<Longrightarrow> bit (button_bit (int b)) n \<longleftrightarrow> n = b - 1"
  by (auto simp: button_bit_def bit_simps nat_diff_distrib)

lemma mask_buttons_press:
  "1 \<le> b \<Longrightarrow> b \<le> 32 \<Longrightarrow> mask_buttons (m OR button_bit (int b)) = insert b (mask_buttons m)"
  by (auto simp: mask_buttons_def bit_or_iff button_bit_iff)

lemma mask_buttons_lift:
  "1 \<le> b \<Longrightarrow> b \<le> 32 \<Longrightarrow> mask_buttons (m AND NOT (button_bit (int b))) = mask_buttons m - {b}"
  by (auto simp: mask_buttons_def bit_and_iff bit_not_iff button_bit_iff)

subsection \<open>The keys\<close>

lemma update_entries: "set (AList.update k v al) \<subseteq> insert (k, v) (set al)"
  by (induction al) auto

lemma update_codes: "fst ` set (AList.update k v al) = insert k (fst ` set al)"
  by (simp add: flip: dom_map_of_conv_image_fst) (simp add: update_conv' insert_commute)

lemma delete_codes: "fst ` set (AList.delete k al) = fst ` set al - {k}"
  by (auto simp: AList.delete_eq)

lemma keys_ok_Nil [simp]: "keys_ok []"
  by (simp add: keys_ok_def)

lemma keys_ok_update: "keys_ok al \<Longrightarrow> keys_ok (AList.update (hk_keyCode k) k al)"
  unfolding keys_ok_def list_all_iff
  using update_entries[of "hk_keyCode k" k al] by (auto simp: distinct_update)

lemma keys_ok_replace:
  "keys_ok al \<Longrightarrow> hk_keyCode k = c \<Longrightarrow> keys_ok (AList.update c k al)"
  using keys_ok_update by blast

lemma keys_ok_delete: "keys_ok al \<Longrightarrow> keys_ok (AList.delete c al)"
  unfolding keys_ok_def list_all_iff using distinct_delete[of al c] by (auto simp: AList.delete_eq)

lemma keys_ok_filter: "keys_ok al \<Longrightarrow> keys_ok (filter P al)"
  unfolding keys_ok_def list_all_iff by (auto simp: distinct_map_filter)

lemma keys_ok_codes: "keys_ok al \<Longrightarrow> hk_keyCode ` snd ` set al = fst ` set al"
  unfolding keys_ok_def list_all_iff by (force simp: image_iff)

lemma keys_ok_part: "keys_ok al \<Longrightarrow>
    fst ` set (filter (\<lambda>p. \<not> P p) al) = fst ` set al - fst ` set (filter P al)"
  unfolding keys_ok_def by (auto simp: distinct_map inj_on_def image_iff)

subsection \<open>The host after a list of releases or presses\<close>

lemma diff_one: "A - {a} - B = A - insert a B"
  by blast

lemma host_release_all:
  "fold host_release (map ReleaseKey ks @ map ReleaseButton bs @ map (\<lambda>(c, m). NeutralizePad c m) ps) h =
   h\<lparr>keysDown := keysDown h - hk_keyCode ` set ks, buttonsDown := buttonsDown h - set bs,
     padState := (\<lambda>c. if c \<in> fst ` set ps then pad_neutral else padState h c), padsGone := padsGone h - fst ` set ps\<rparr>"
proof -
  have a: "fold host_release (map ReleaseKey ks) h = h\<lparr>keysDown := keysDown h - hk_keyCode ` set ks\<rparr>" for h
    by (induction ks arbitrary: h) (simp_all add: diff_one)
  have b: "fold host_release (map ReleaseButton bs) h = h\<lparr>buttonsDown := buttonsDown h - set bs\<rparr>" for h
    by (induction bs arbitrary: h) (simp_all add: diff_one)
  have c: "fold host_release (map (\<lambda>(c, m). NeutralizePad c m) ps) h =
      h\<lparr>padState := (\<lambda>c. if c \<in> fst ` set ps then pad_neutral else padState h c), padsGone := padsGone h - fst ` set ps\<rparr>" for h
  proof (induction ps arbitrary: h)
    case (Cons p ps)
    obtain c m where p: "p = (c, m)" by fastforce
    have "fold host_release (map (\<lambda>(c, m). NeutralizePad c m) (p # ps)) h =
        fold host_release (map (\<lambda>(c, m). NeutralizePad c m) ps) (host_pad c pad_neutral h)" by (simp add: p)
    also note Cons.IH
    finally show ?case by (intro Host.equality) (auto simp: host_pad_def p)
  qed simp
  show ?thesis by (intro Host.equality) (simp_all add: a b c cong: if_cong)
qed

lemma host_keys_fold:
  "fold (\<lambda>k. host_key k down) ks h = h\<lparr>keysDown := (if down then keysDown h \<union> hk_keyCode ` set ks
     else keysDown h - hk_keyCode ` set ks)\<rparr>"
  by (induction ks arbitrary: h) (simp_all add: host_key_def diff_one)

lemma host_buttons_fold:
  "fold (\<lambda>b. host_button b down) bs h = h\<lparr>buttonsDown := (if down then buttonsDown h \<union> set bs
     else buttonsDown h - set bs)\<rparr>"
  by (induction bs arbitrary: h) (simp_all add: host_button_def diff_one)

lemma host_sync_eq:
  "host_sync d h =
   h\<lparr>keysDown := keysDown h - hk_keyCode ` set (sd_release d) \<union> hk_keyCode ` set (sd_press d),
     buttonsDown := buttonsDown h - set (sd_buttonsUp d) \<union> set (sd_buttonsDown d)\<rparr>"
  by (simp add: host_sync_def host_keys_fold host_buttons_fold)

subsection \<open>The loop of the heartbeat's keys\<close>

lemma sync_keys_codes:
  "fst ` set (fst (sync_keys ks held press)) = fst ` set held \<union> hk_keyCode ` set ks"
  by (induction ks held press rule: sync_keys.induct) (auto simp: update_codes split: option.splits)

lemma sync_keys_ok:
  "keys_ok held \<Longrightarrow> keys_ok (fst (sync_keys ks held press))"
proof (induction ks held press rule: sync_keys.induct)
  case (1 held press)
  then show ?case by simp
next
  case (2 k ks held press)
  show ?case
  proof (cases "map_of held (hk_keyCode k)")
    case None
    then show ?thesis using 2 by (simp add: keys_ok_update)
  next
    case (Some h)
    then have "hk_keyCode h = hk_keyCode k"
      using "2.prems" map_of_SomeD[OF Some] by (auto simp: keys_ok_def list_all_iff)
    then show ?thesis using 2 Some by (simp add: keys_ok_replace)
  qed
qed

lemma sync_keys_press:
  "hk_keyCode ` set (snd (sync_keys ks held press)) =
     hk_keyCode ` set press \<union> (hk_keyCode ` set ks - fst ` set held)"
proof (induction ks held press rule: sync_keys.induct)
  case (2 k ks held press)
  show ?case
  proof (cases "map_of held (hk_keyCode k)")
    case None
    then have "hk_keyCode k \<notin> fst ` set held" by (simp add: map_of_eq_None_iff)
    then show ?thesis using "2.IH"(1)[OF None] None by (auto simp: update_codes)
  next
    case (Some h)
    then have "hk_keyCode k \<in> fst ` set held" by (force dest: map_of_SomeD)
    then show ?thesis using "2.IH"(2)[OF Some] Some by (auto simp: update_codes)
  qed
qed simp

subsection \<open>The mirror is kept\<close>

lemma arm_fields [simp]:
  "wd_HeldKeys (arm w) = wd_HeldKeys w" "wd_HeldButtons (arm w) = wd_HeldButtons w"
  "wd_ActivePads (arm w) = wd_ActivePads w" "wd_HeartbeatSeen (arm w) = wd_HeartbeatSeen w"
  "wd_HeldButtonsHold (arm w) = wd_HeldButtonsHold w" "wd_LastAliveMs (arm w) = wd_LastAliveMs w"
  "wd_ShortFired (arm w) = wd_ShortFired w" "wd_LongFired (arm w) = wd_LongFired w"
  "anythingHeldLocked (arm w) = anythingHeldLocked w"
  "wd_Timer (arm w) \<longleftrightarrow> wd_HeartbeatSeen w \<and> anythingHeldLocked w"
  by (simp_all add: arm_def anythingHeldLocked_def)

lemma mirrors_arm:
  "mirrors (arm w, h) \<longleftrightarrow>
     keysDown h = fst ` set (wd_HeldKeys w) \<and> buttonsDown h = mask_buttons (wd_HeldButtons w) \<and>
     keys_ok (wd_HeldKeys w)"
  by (simp add: mirrors_def)

lemma release_mirrors:
  assumes "mirrors (w, h)"
  shows "mirrors (snd (release b w), fold host_release (fst (release b w)) h)"
proof -
  have k: "keys_ok (wd_HeldKeys w)" using assms by (simp add: mirrors_def)
  have codes: "hk_keyCode ` set (map snd (filter P (wd_HeldKeys w))) = fst ` set (filter P (wd_HeldKeys w))" for P
    using keys_ok_codes[OF keys_ok_filter[OF k]] by (simp add: image_image)
  let ?keep = "\<lambda>(c, k). hk_hold k \<and> \<not> b"
  have "fst ` set (filter ?keep (wd_HeldKeys w)) =
      fst ` set (wd_HeldKeys w) - fst ` set (filter (\<lambda>p. \<not> ?keep p) (wd_HeldKeys w))"
    using keys_ok_part[OF k, of "\<lambda>p. \<not> ?keep p"] by simp
  then show ?thesis
    using assms
    unfolding release_def Let_def fst_conv snd_conv host_release_all mirrors_arm codes
    by (auto simp: mirrors_def set_buttons_in keys_ok_filter)
qed

lemma codes_filter: "fst ` set (filter (\<lambda>(c, k). P c) al) = {c \<in> fst ` set al. P c}"
  by (induction al) auto

lemma sync_effect:
  assumes "mirrors (w, h)"
  shows "mirrors (snd (sync ks m b w), host_sync (fst (sync ks m b w)) h) \<and>
    keysDown (host_sync (fst (sync ks m b w)) h) = hk_keyCode ` set ks \<and>
    buttonsDown (host_sync (fst (sync ks m b w)) h) = mask_buttons m \<and>
    hk_keyCode ` set (sd_press (fst (sync ks m b w))) = hk_keyCode ` set ks - keysDown h \<and>
    hk_keyCode ` set (sd_release (fst (sync ks m b w))) = keysDown h - hk_keyCode ` set ks \<and>
    set (sd_buttonsDown (fst (sync ks m b w))) = mask_buttons m - buttonsDown h \<and>
    set (sd_buttonsUp (fst (sync ks m b w))) = buttonsDown h - mask_buttons m"
proof -
  obtain held press where hp: "sync_keys ks (wd_HeldKeys w) [] = (held, press)" by fastforce
  have k: "keys_ok (wd_HeldKeys w)" and hd: "keysDown h = fst ` set (wd_HeldKeys w)"
    using assms by (simp_all add: mirrors_def)
  have ok: "keys_ok held" and codes: "fst ` set held = fst ` set (wd_HeldKeys w) \<union> hk_keyCode ` set ks"
    and press: "hk_keyCode ` set press = hk_keyCode ` set ks - fst ` set (wd_HeldKeys w)"
    using sync_keys_ok[OF k, of ks "[]"] sync_keys_codes[of ks "wd_HeldKeys w" "[]"]
      sync_keys_press[of ks "wd_HeldKeys w" "[]"] hp by simp_all
  have rel: "hk_keyCode ` set (map snd (filter P held)) = fst ` set (filter P held)" for P
    using keys_ok_codes[OF keys_ok_filter[OF ok]] by (simp add: image_image)
  have sr: "sd_release (fst (sync ks m b w)) = map snd (filter (\<lambda>(c, k). c \<notin> hk_keyCode ` set ks) held)"
    and sp: "sd_press (fst (sync ks m b w)) = press"
    and sh: "wd_HeldKeys (snd (sync ks m b w)) = filter (\<lambda>(c, k). c \<in> hk_keyCode ` set ks) held"
    by (simp_all add: sync_def hp)
  have held_keys: "fst ` set (wd_HeldKeys (snd (sync ks m b w))) = hk_keyCode ` set ks"
    unfolding sh codes_filter codes by blast
  have gone: "fst ` set (filter (\<lambda>(c, k). c \<notin> hk_keyCode ` set ks) held) =
      fst ` set (wd_HeldKeys w) - hk_keyCode ` set ks"
    unfolding codes_filter codes by blast
  have split_keys: "keysDown (host_sync d h) = keysDown h - hk_keyCode ` set (sd_release d) \<union> hk_keyCode ` set (sd_press d)"
      "buttonsDown (host_sync d h) = buttonsDown h - set (sd_buttonsUp d) \<union> set (sd_buttonsDown d)" for d
    by (simp_all add: host_sync_eq)
  have keys: "keysDown (host_sync (fst (sync ks m b w)) h) = hk_keyCode ` set ks"
    unfolding split_keys sr sp rel press gone hd by blast
  have sd: "set (sd_buttonsUp (fst (sync ks m b w))) = mask_buttons (wd_HeldButtons w) - mask_buttons m"
      "set (sd_buttonsDown (fst (sync ks m b w))) = mask_buttons m - mask_buttons (wd_HeldButtons w)"
      "wd_HeldButtons (snd (sync ks m b w)) = m"
    by (simp_all only: sync_def hp Let_def prod.case fst_conv snd_conv SyncDiff.select_convs and_bit_iff
        mask_buttons_def arm_fields InputWatchdog.select_convs InputWatchdog.update_convs) auto
  have sync_buttons: "A - (A - B) \<union> (B - A) = B" for A B :: "nat set"
    by blast
  have buttons: "buttonsDown (host_sync (fst (sync ks m b w)) h) = mask_buttons m"
    and held_buttons: "wd_HeldButtons (snd (sync ks m b w)) = m"
    using assms unfolding split_keys
    by (simp_all only: sd mirrors_def prod.case sync_buttons)
  have held_ok: "keys_ok (wd_HeldKeys (snd (sync ks m b w)))"
    by (simp add: sync_def hp keys_ok_filter[OF ok])
  have "wd_Timer (snd (sync ks m b w)) \<longleftrightarrow>
      wd_HeartbeatSeen (snd (sync ks m b w)) \<and> anythingHeldLocked (snd (sync ks m b w))"
    by (simp add: sync_def hp)
  then have "mirrors (snd (sync ks m b w), host_sync (fst (sync ks m b w)) h)"
    unfolding mirrors_def prod.case keys held_keys buttons held_buttons using held_ok by simp
  moreover have "hk_keyCode ` set (sd_release (fst (sync ks m b w))) = keysDown h - hk_keyCode ` set ks"
    unfolding sr rel gone hd by (rule refl)
  moreover have "buttonsDown h = mask_buttons (wd_HeldButtons w)" using assms by (simp add: mirrors_def)
  ultimately show ?thesis unfolding keys buttons sd sp press hd by blast
qed

lemma sync_mirrors:
  "mirrors (w, h) \<Longrightarrow> mirrors (snd (sync ks m b w), host_sync (fst (sync ks m b w)) h)"
  using sync_effect by blast


lemma noteKey_mirrors: "mirrors (w, h) \<Longrightarrow> mirrors (noteKey k down w, host_key k down h)"
  unfolding noteKey_def mirrors_arm
  by (cases down) (auto simp: mirrors_def host_key_def update_codes delete_codes keys_ok_update keys_ok_delete)

lemma noteButton_mirrors:
  "1 \<le> b \<Longrightarrow> b \<le> 32 \<Longrightarrow> mirrors (w, h) \<Longrightarrow> mirrors (noteButton (int b) down held w, host_button b down h)"
  unfolding noteButton_def mirrors_arm Let_def
  by (cases down) (auto simp: mirrors_def host_button_def mask_buttons_press mask_buttons_lift)

lemma notePad_mirrors:
  "mirrors (w, h) \<Longrightarrow> mirrors (notePad c m atRest w, host_pad c s h)"
  unfolding notePad_def mirrors_arm
  by (cases atRest) (auto simp: mirrors_def host_pad_def)

lemma mirrors_flags:
  "mirrors (w\<lparr>wd_ShortFired := a, wd_LongFired := b\<rparr>, h) \<longleftrightarrow> mirrors (w, h)"
  "mirrors (w\<lparr>wd_ShortFired := a\<rparr>, h) \<longleftrightarrow> mirrors (w, h)"
  "mirrors (w\<lparr>wd_LastAliveMs := n, wd_ShortFired := a, wd_LongFired := b\<rparr>, h) \<longleftrightarrow> mirrors (w, h)"
  "mirrors (w\<lparr>wd_LastAliveMs := n\<rparr>, h) \<longleftrightarrow> mirrors (w, h)"
  by (simp_all add: mirrors_def anythingHeldLocked_def)

lemma tick_mirrors:
  "mirrors (w, h) \<Longrightarrow> mirrors (snd (tick now w), fold host_release (fst (tick now w)) h)"
  unfolding tick_def Let_def using release_mirrors mirrors_flags by simp

lemma mirrors_others:
  "mirrors (w, h\<lparr>charsDown := t\<rparr>) \<longleftrightarrow> mirrors (w, h)" "mirrors (w, h\<lparr>acts := a\<rparr>) \<longleftrightarrow> mirrors (w, h)"
  "mirrors (w, h\<lparr>padState := p, padsGone := g\<rparr>) \<longleftrightarrow> mirrors (w, h)"
  by (simp_all add: mirrors_def)

lemma input_step_mirrors:
  assumes "input_ok i" "mirrors (w, h)"
  shows "mirrors (input_step qAbs i (w, h))"
proof (cases i)
  case (Sync ks m b)
  then show ?thesis using sync_mirrors[OF assms(2)] by (simp add: case_prod_beta Let_def)
next
  case (Tick n)
  then show ?thesis using tick_mirrors[OF assms(2)] by (simp add: case_prod_beta Let_def)
next
  case (LetGo b)
  then show ?thesis using release_mirrors[OF assms(2)] by (simp add: case_prod_beta Let_def)
next
  case (Alive n)
  then show ?thesis using assms(2) by (simp add: noteClientAlive_def mirrors_flags)
qed (use assms in \<open>simp_all add: noteKey_mirrors noteButton_mirrors notePad_mirrors mirrors_others\<close>)

lemma inputs_mirror:
  "list_all input_ok is \<Longrightarrow> mirrors s \<Longrightarrow> mirrors (fold (input_step qAbs) is s)"
proof (induction "is" arbitrary: s)
  case (Cons i "is")
  then show ?case using input_step_mirrors[of i "fst s" "snd s"] by simp
qed simp

lemma mirrors_new: "mirrors (wd_new, host_idle)"
  by (simp add: mirrors_def wd_new_def host_idle_def anythingHeldLocked_def)

subsection \<open>The pads\<close>

lemma pads_release:
  assumes "at_rest qAbs pad_neutral" "pads_known qAbs (w, h)"
  shows "pads_known qAbs (snd (release b w), fold host_release (fst (release b w)) h)"
  using assms unfolding release_def Let_def fst_conv snd_conv host_release_all
  by (cases b) (auto simp: pads_known_def)

lemma pads_tick:
  assumes "at_rest qAbs pad_neutral" "pads_known qAbs (w, h)"
  shows "pads_known qAbs (snd (tick now w), fold host_release (fst (tick now w)) h)"
proof -
  have "pads_known qAbs (w\<lparr>wd_ShortFired := a\<rparr>, h)" "pads_known qAbs (w\<lparr>wd_ShortFired := a, wd_LongFired := b\<rparr>, h)" for a b
    using assms(2) by (simp_all add: pads_known_def)
  then show ?thesis unfolding tick_def Let_def using assms pads_release[OF assms(1)] by simp
qed

lemma pads_step:
  assumes "at_rest qAbs pad_neutral" "pads_known qAbs (w, h)"
  shows "pads_known qAbs (input_step qAbs i (w, h))"
proof (cases i)
  case (Tick n)
  then show ?thesis using pads_tick[OF assms] by (simp add: case_prod_beta Let_def)
next
  case (LetGo b)
  then show ?thesis using pads_release[OF assms] by (simp add: case_prod_beta Let_def)
next
  case (Sync ks m b)
  have "wd_ActivePads (snd (sync ks m b w)) = wd_ActivePads w" by (simp add: sync_def Let_def split: prod.splits)
  then show ?thesis using Sync assms(2) by (simp add: case_prod_beta Let_def host_sync_eq pads_known_def)
next
  case (Pad c m s)
  then show ?thesis using assms(2)
    by (auto simp: pads_known_def notePad_def host_pad_def update_codes delete_codes)
qed (use assms in \<open>auto simp: pads_known_def noteKey_def noteButton_def noteClientAlive_def host_key_def host_button_def Let_def\<close>)

lemma inputs_pads:
  "at_rest qAbs pad_neutral \<Longrightarrow> pads_known qAbs s \<Longrightarrow> pads_known qAbs (fold (input_step qAbs) is s)"
proof (induction "is" arbitrary: s)
  case (Cons i "is")
  then show ?case using pads_step[of qAbs "fst s" "snd s" i] by simp
qed simp

lemma pads_new: "at_rest qAbs pad_neutral \<Longrightarrow> pads_known qAbs (wd_new, host_idle)"
  by (simp add: pads_known_def wd_new_def host_idle_def)

section \<open>Silence\<close>

lemma released_chars: "charsDown (fold host_release rs h) = charsDown h"
proof (induction rs arbitrary: h)
  case (Cons r rs)
  then show ?case by (cases r) (simp_all add: host_pad_def)
qed simp


text \<open>A relay calls \<open>noteClientAlive\<close> on every message before it applies what the message says: between the
  call and the inputs of the message no tick of the timer comes in.\<close>

fun heard_first :: "bool \<Rightarrow> Input list \<Rightarrow> bool" where
  "heard_first heard [] \<longleftrightarrow> True"
| "heard_first heard (Alive n # is) \<longleftrightarrow> heard_first True is"
| "heard_first heard (Tick n # is) \<longleftrightarrow> heard_first False is"
| "heard_first heard (LetGo b # is) \<longleftrightarrow> heard_first heard is"
| "heard_first heard (i # is) \<longleftrightarrow> heard \<and> heard_first heard is"

definition only_hold :: "InputWatchdog \<Rightarrow> bool" where
  "only_hold w \<longleftrightarrow> list_all (\<lambda>(c, k). hk_hold k) (wd_HeldKeys w) \<and>
     (wd_HeldButtons w \<noteq> 0 \<longrightarrow> wd_HeldButtonsHold w)"

definition quiet_inv :: "InputWatchdog \<Rightarrow> bool" where
  "quiet_inv w \<longleftrightarrow> (wd_LongFired w \<longrightarrow> wd_ShortFired w \<and> \<not> anythingHeldLocked w) \<and>
     (wd_ShortFired w \<longrightarrow> only_hold w)"

definition calm :: "InputWatchdog \<Rightarrow> bool" where
  "calm w \<longleftrightarrow> \<not> wd_ShortFired w \<and> \<not> wd_LongFired w"

lemma calm_quiet: "calm w \<Longrightarrow> quiet_inv w"
  by (simp add: calm_def quiet_inv_def)

lemma release_flags [simp]:
  "wd_ShortFired (snd (release b w)) = wd_ShortFired w" "wd_LongFired (snd (release b w)) = wd_LongFired w"
  "wd_LastAliveMs (snd (release b w)) = wd_LastAliveMs w"
  "wd_HeartbeatSeen (snd (release b w)) = wd_HeartbeatSeen w"
  by (simp_all add: release_def Let_def)

lemma release_only_hold: "only_hold (snd (release b w))"
  by (auto simp: release_def Let_def only_hold_def list_all_iff)

lemma release_held:
  "set (wd_HeldKeys (snd (release b w))) \<subseteq> set (wd_HeldKeys w) \<and>
   (wd_HeldButtonsHold (snd (release b w)) \<longrightarrow> wd_HeldButtonsHold w)"
  by (auto simp: release_def Let_def split: if_splits)

lemma tick_held:
  "set (wd_HeldKeys (snd (tick now w))) \<subseteq> set (wd_HeldKeys w) \<and>
   (wd_HeldButtonsHold (snd (tick now w)) \<longrightarrow> wd_HeldButtonsHold w)"
  unfolding tick_def Let_def
  using release_held[of True "w\<lparr>wd_ShortFired := True, wd_LongFired := True\<rparr>"]
    release_held[of False "w\<lparr>wd_ShortFired := True\<rparr>"] by simp

lemma release_all: "\<not> anythingHeldLocked (snd (release True w))"
  by (simp add: release_def Let_def) (simp add: anythingHeldLocked_def case_prod_beta)

lemma release_idle: "\<not> anythingHeldLocked w \<Longrightarrow> \<not> anythingHeldLocked (snd (release b w))"
  by (simp add: release_def Let_def) (simp add: anythingHeldLocked_def)

lemma release_quiet: "quiet_inv w \<Longrightarrow> quiet_inv (snd (release b w))"
  by (simp add: quiet_inv_def release_only_hold release_idle)

lemma tick_quiet: "quiet_inv w \<Longrightarrow> quiet_inv (snd (tick now w))"
  unfolding tick_def Let_def
  by (auto simp: quiet_inv_def release_only_hold release_all)

lemma note_flags [simp]:
  "wd_ShortFired (noteKey k d w) = wd_ShortFired w" "wd_LongFired (noteKey k d w) = wd_LongFired w"
  "wd_ShortFired (noteButton b d e w) = wd_ShortFired w" "wd_LongFired (noteButton b d e w) = wd_LongFired w"
  "wd_ShortFired (notePad c m a w) = wd_ShortFired w" "wd_LongFired (notePad c m a w) = wd_LongFired w"
  "wd_ShortFired (snd (sync ks msk e w)) = wd_ShortFired w" "wd_LongFired (snd (sync ks msk e w)) = wd_LongFired w"
  by (simp_all add: noteKey_def noteButton_def notePad_def sync_def Let_def split: prod.splits)

lemma input_step_quiet:
  assumes "heard_first heard (i # is)" "quiet_inv (fst s)" "heard \<longrightarrow> calm (fst s)"
  shows "quiet_inv (fst (input_step qAbs i s)) \<and>
    (\<exists>heard'. heard_first heard' is \<and> (heard' \<longrightarrow> calm (fst (input_step qAbs i s))))"
proof (cases s)
  case (Pair w h)
  show ?thesis
  proof (cases i)
    case (Alive n)
    then show ?thesis using assms Pair
      by (auto simp: calm_def noteClientAlive_def quiet_inv_def intro!: exI[of _ True])
  next
    case (Tick n)
    then show ?thesis using assms Pair
      by (auto simp: tick_quiet case_prod_beta Let_def intro!: exI[of _ False])
  next
    case (LetGo b)
    then show ?thesis using assms Pair
      by (auto simp: release_quiet calm_def case_prod_beta Let_def intro!: exI[of _ heard])
  qed (use assms Pair in \<open>auto simp: calm_def case_prod_beta Let_def intro!: calm_quiet exI[of _ True]\<close>)
qed

lemma inputs_quiet:
  "heard_first heard is \<Longrightarrow> quiet_inv (fst s) \<Longrightarrow> (heard \<longrightarrow> calm (fst s)) \<Longrightarrow>
   quiet_inv (fst (fold (input_step qAbs) is s))"
proof (induction "is" arbitrary: heard s)
  case (Cons i "is")
  obtain heard' where "heard_first heard' is" "heard' \<longrightarrow> calm (fst (input_step qAbs i s))"
    using input_step_quiet[OF Cons.prems, of qAbs] by blast
  moreover have "quiet_inv (fst (input_step qAbs i s))" using input_step_quiet[OF Cons.prems, of qAbs] by blast
  ultimately show ?case using Cons.IH by simp
qed simp

section \<open>The sticks\<close>

lemma short_abs:
  fixes x :: "16 word"
  shows "sint (- x) = (if sint x = - 32768 then - 32768 else - sint x)"
proof -
  have r: "- 32768 \<le> sint x" "sint x < 32768"
    using sint_range_size[of x] by (simp_all add: word_size)
  have n: "sint (- x) = signed_take_bit 15 (- sint x)" by (simp add: sint_word_ariths)
  show ?thesis
  proof (cases "sint x = - 32768")
    case True
    have "signed_take_bit 15 (32768 :: int) = - 32768" by (simp add: signed_take_bit_eq_take_bit_shift take_bit_eq_mod)
    then show ?thesis using True n by simp
  next
    case False
    then have "signed_take_bit 15 (- sint x) = - sint x"
      using r by (intro signed_take_bit_int_eq_self) simp_all
    then show ?thesis using False n by simp
  qed
qed

text \<open>What the watchdog takes for a stick at rest: within 4096 of the centre, or at the very end of the negative
  range (see \<open>pad_at_rest_iff\<close>).\<close>

definition stick_quiet :: "16 word \<Rightarrow> bool" where
  "stick_quiet x \<longleftrightarrow> \<bar>sint x\<bar> < 4096 \<or> sint x = - 32768"

definition looks_centred :: "PadState \<Rightarrow> bool" where
  "looks_centred s \<longleftrightarrow> ps_buttons s = 0 \<and> ps_lt s = 0 \<and> ps_rt s = 0 \<and>
     list_all stick_quiet [ps_lx s, ps_ly s, ps_rx s, ps_ry s]"

lemma pad_rest_cases:
  assumes "qAbs = (\<lambda>t. if 0 \<le> sint t then t else - t)"
  shows "padAtRest qAbs flags lt rt lx ly rx ry \<longleftrightarrow> flags = 0 \<and> lt = 0 \<and> rt = 0 \<and> list_all stick_quiet [lx, ly, rx, ry]"
proof -
  have "sint (qAbs x) < 4096 \<longleftrightarrow> stick_quiet x" for x
    using short_abs[of x] unfolding assms stick_quiet_def by auto
  then show ?thesis by (auto simp: padAtRest_def tunables)
qed

lemma rest_looks:
  assumes "qAbs = (\<lambda>t. if 0 \<le> sint t then t else - t)"
  shows "at_rest qAbs s \<longleftrightarrow> looks_centred s" "at_rest qAbs pad_neutral"
  by (simp_all add: at_rest_def looks_centred_def pad_rest_cases[OF assms])
    (simp add: pad_neutral_def stick_quiet_def)

section \<open>Properties\<close>

text \<open>C26. After any sequence of inputs, heartbeats, ticks and releases the watchdog's record of what is held is the
  host's, which the model keeps apart: the keys pressed by their code are its keys; the buttons 1 to 32 its
  buttons; every pad whose last state is off its rest is in its set, and a pad in its set is off its rest or
  was unplugged since (the native engine's removal does not tell it). Off its rest means a button, a trigger or a stick 4096 or
  more from its centre, save a stick at exactly -32768, which the code takes for one at rest. Keys the native engine presses by their character are not
  among these: the watchdog is not told of them. The timer runs exactly while the watchdog's record is not
  empty and the client has shown that it heartbeats, so nothing recorded is left without a tick to come.\<close>

theorem watchdog_mirrors_host:
  assumes "qAbs = (\<lambda>t. if 0 \<le> sint t then t else - t)"
    and "list_all input_ok is" and "fold (input_step qAbs) is (wd_new, host_idle) = (w, h)"
  shows "keysDown h = fst ` set (wd_HeldKeys w) \<and> buttonsDown h = mask_buttons (wd_HeldButtons w) \<and>
    (\<forall>c. (\<not> looks_centred (padState h c) \<longrightarrow> c \<in> fst ` set (wd_ActivePads w)) \<and>
       (c \<in> fst ` set (wd_ActivePads w) \<longrightarrow> \<not> looks_centred (padState h c) \<or> c \<in> padsGone h)) \<and>
    (wd_Timer w \<longleftrightarrow> wd_HeartbeatSeen w \<and>
       (keysDown h \<noteq> {} \<or> buttonsDown h \<noteq> {} \<or> wd_ActivePads w \<noteq> []))"
proof -
  note rest = rest_looks[OF assms(1)]
  have m: "mirrors (w, h)" using inputs_mirror[OF assms(2) mirrors_new, of qAbs] assms(3) by simp
  have "pads_known qAbs (w, h)" using inputs_pads[OF rest(2) pads_new[OF rest(2)], of "is"] assms(3) by simp
  then show ?thesis using m by (auto simp: mirrors_def pads_known_def rest(1) anythingHeldLocked_def mask_buttons_empty)
qed


text \<open>A heartbeat brings the host to the client's state: after its difference is applied, the keys and buttons
  down on the host are exactly those the client holds. What is pressed was not down before, and what is released
  was.\<close>

theorem heartbeat_resyncs:
  assumes "list_all input_ok is" and "fold (input_step qAbs) is (wd_new, host_idle) = (w, h)"
    and "sync ks mask0 b w = (d, w')"
  shows "keysDown (host_sync d h) = hk_keyCode ` set ks \<and> buttonsDown (host_sync d h) = mask_buttons mask0 \<and>
    hk_keyCode ` set (sd_press d) = hk_keyCode ` set ks - keysDown h \<and>
    hk_keyCode ` set (sd_release d) = keysDown h - hk_keyCode ` set ks \<and>
    set (sd_buttonsDown d) = mask_buttons mask0 - buttonsDown h \<and>
    set (sd_buttonsUp d) = buttonsDown h - mask_buttons mask0"
proof -
  have "mirrors (w, h)" using inputs_mirror[OF assms(1) mirrors_new, of qAbs] assms(2) by simp
  then show ?thesis using sync_effect[of w h ks mask0 b] assms(3) by simp
qed

definition short_qAbs :: "16 word \<Rightarrow> 16 word" where
  "short_qAbs t = (if 0 \<le> sint t then t else - t)"

definition pushed_stick :: PadState where
  "pushed_stick = pad_neutral\<lparr>ps_lx := 20000\<rparr>"

lemma watchdog_mirrors_host_witness:
  "buttonsDown (snd (fold (input_step short_qAbs) [Alive 5, Sync [] 0 False, Button 1 True False, Pad 2 4 pushed_stick] (wd_new, host_idle))) =
     mask_buttons (wd_HeldButtons (fst (fold (input_step short_qAbs)
       [Alive 5, Sync [] 0 False, Button 1 True False, Pad 2 4 pushed_stick] (wd_new, host_idle)))) \<and>
   2 \<in> fst ` set (wd_ActivePads (fst (fold (input_step short_qAbs)
       [Alive 5, Sync [] 0 False, Button 1 True False, Pad 2 4 pushed_stick] (wd_new, host_idle))))"
proof -
  let ?is = "[Alive 5, Sync [] 0 False, Button 1 True False, Pad 2 4 pushed_stick]"
  have "list_all input_ok ?is" by simp
  note go = watchdog_mirrors_host[OF _ this prod.collapse[symmetric], of short_qAbs]
  have "padState (snd (fold (input_step short_qAbs) ?is (wd_new, host_idle))) 2 = pushed_stick"
    by (simp add: case_prod_beta host_pad_def)
  moreover have "\<not> looks_centred pushed_stick"
    by (simp add: looks_centred_def pushed_stick_def pad_neutral_def stick_quiet_def)
  ultimately show ?thesis using go by (simp add: short_qAbs_def fun_eq_iff del: fold_simps)
qed

definition walk_key :: HeldKey where
  "walk_key = \<lparr>hk_keyCode = 87, hk_modifiers = 0, hk_flags = 0, hk_hold = True\<rparr>"

definition letter_key :: HeldKey where
  "letter_key = \<lparr>hk_keyCode = 82, hk_modifiers = 0, hk_flags = 0, hk_hold = False\<rparr>"

definition stall :: "Input list" where
  "stall = [Alive 0, Sync [] 0 False, Key walk_key True, Key letter_key True]"

lemma stall_state:
  "fold (input_step qAbs) stall (wd_new, host_idle) =
   (\<lparr>wd_LastAliveMs = 0, wd_HeldKeys = [(87, walk_key), (82, letter_key)], wd_HeldButtons = 0,
     wd_HeldButtonsHold = False, wd_ActivePads = [], wd_ShortFired = False, wd_LongFired = False,
     wd_HeartbeatSeen = True, wd_Timer = True\<rparr>, host_idle\<lparr>keysDown := {87, 82}\<rparr>)"
  by (simp add: stall_def wd_new_def host_idle_def noteClientAlive_def sync_def Let_def arm_def
      anythingHeldLocked_def host_sync_eq noteKey_def host_key_def walk_key_def letter_key_def
      insert_commute)


lemma heartbeat_resyncs_witness:
  "sync [walk_key] 0 False (fst (fold (input_step id) stall (wd_new, host_idle))) =
     (\<lparr>sd_press = [], sd_release = [letter_key], sd_buttonsDown = [], sd_buttonsUp = []\<rparr>,
      snd (sync [walk_key] 0 False (fst (fold (input_step id) stall (wd_new, host_idle))))) \<and>
   keysDown (host_sync \<lparr>sd_press = [], sd_release = [letter_key], sd_buttonsDown = [], sd_buttonsUp = []\<rparr>
     (snd (fold (input_step id) stall (wd_new, host_idle)))) = {87}"
proof -
  have ok: "list_all input_ok stall" by (simp add: stall_def)
  have s: "sync [walk_key] 0 False (fst (fold (input_step id) stall (wd_new, host_idle))) =
     (\<lparr>sd_press = [], sd_release = [letter_key], sd_buttonsDown = [], sd_buttonsUp = []\<rparr>,
      snd (sync [walk_key] 0 False (fst (fold (input_step id) stall (wd_new, host_idle)))))"
    unfolding stall_state fst_conv by (simp add: sync_def Let_def walk_key_def letter_key_def)
  show ?thesis
    using heartbeat_resyncs[OF ok prod.collapse[symmetric] s] s by (simp add: walk_key_def)
qed

text \<open>A pad is taken for one at rest exactly when nothing is pressed and every stick is within 4096 of its
  centre, or at the very end of its negative range: \<open>qAbs\<close> of a \<open>short\<close> is again a \<open>short\<close>, and the negation
  of -32768 is -32768, which is below the threshold. A stick pushed all the way is then no longer watched.\<close>

theorem pad_at_rest_iff:
  assumes qAbs: "\<And>t :: 16 word. qAbs t = (if 0 \<le> sint t then t else - t)"
  shows "padAtRest qAbs flags lt rt lx ly rx ry \<longleftrightarrow> flags = 0 \<and> lt = 0 \<and> rt = 0 \<and>
    list_all (\<lambda>x. \<bar>sint x\<bar> < 4096 \<or> sint x = - 32768) [lx, ly, rx, ry]"
proof -
  have "sint (qAbs x) < 4096 \<longleftrightarrow> \<bar>sint x\<bar> < 4096 \<or> sint x = - 32768" for x
    using short_abs[of x] unfolding qAbs by auto
  then show ?thesis by (auto simp: padAtRest_def tunables)
qed

lemma pad_at_rest_iff_witness:
  "padAtRest (\<lambda>t. if 0 \<le> sint t then t else - t) 0 0 0 (word_of_int (- 32768)) 0 0 0"
  by (subst pad_at_rest_iff) simp_all

end
