(* ===== verification/Input_Messages.thy ===== *)
theory Input_Messages
  imports Input_Watchdog "HOL-Library.Sublist"
begin

unbundle bit_operations_syntax

text \<open>
  The client's input messages: the policy of a session (\<open>src/streaming/InputPolicy.h\<close>), the codec the transports
  share (\<open>src/streaming/InputMessageCodec.h\<close>) and the relay's switch over the message types
  (\<open>DataChannelRelay::onInputMessage\<close>), every message, down to the watchdog and the engine's session. A parsed JSON message is the
  record of the values the code reads from it, defaults filled in; a \<open>QString\<close> of characters is the list of its
  code units, and \<open>QChar::toUpper\<close> a parameter. The diagnostics of the codec (\<open>describeKey\<close>) only build a log
  line and are left out, as are the fractions of a wheel notch \<open>MoonlightShim\<close> carries over; what the relay does with a
  keyframe asked for or lost frames is in \<open>Video_Relay\<close>, with a link report in \<open>Link_Watch\<close>.
\<close>

section \<open>The policy\<close>

record Policy =
  gamepad_ok :: bool
  keyboardMouse_ok :: bool

definition unrestricted :: "Policy \<Rightarrow> bool" where
  "unrestricted p \<longleftrightarrow> gamepad_ok p \<and> keyboardMouse_ok p"

definition allowed :: "string \<Rightarrow> Policy \<Rightarrow> bool" where
  "allowed ty p =
     (if prefix ''gamepad'' ty then gamepad_ok p
      else if ty = ''ping'' \<or> ty = ''requestidr'' \<or> ty = ''request_idr'' \<or> ty = ''clientstats'' \<or>
              ty = ''linkstats'' \<or> ty = ''invalidateref'' \<or> ty = ''framefloor'' \<or> ty = ''clientrefresh'' \<or>
              ty = ''clientbitrate'' \<or> ty = ''clientfpscap'' then True
      else if ty = ''inputstate'' then True
      else keyboardMouse_ok p)"

definition filterHeldState :: "Policy \<Rightarrow> HeldKey list \<Rightarrow> 32 word \<Rightarrow> HeldKey list \<times> 32 word" where
  "filterHeldState p ks buttons = (if \<not> keyboardMouse_ok p then ([], 0) else (ks, buttons))"

section \<open>The keys\<close>

datatype KeyboardMode = Positional | Native | SunshineWindows

definition NON_NORMALIZED :: int where
  [tunables]: "NON_NORMALIZED = 1"

record KeyPlan =
  kp_keyCode :: int
  kp_flags :: int
  kp_text :: "int list"

definition isText :: "KeyPlan \<Rightarrow> bool" where
  "isText plan \<longleftrightarrow> kp_text plan \<noteq> []"

record KeyMsg =
  km_code :: string
  km_keyCode :: int
  km_char :: "int list"
  km_nonUs :: bool
  km_ctrl :: bool
  km_shift :: bool
  km_alt :: bool
  km_meta :: bool
  km_hold :: bool

text \<open>\<open>static_cast<short>\<close>.\<close>

definition i16 :: "int \<Rightarrow> int" where
  "i16 x = (x + 2 ^ 15) mod 2 ^ 16 - 2 ^ 15"

definition letterVk :: "(int \<Rightarrow> int) \<Rightarrow> int list \<Rightarrow> int" where
  "letterVk toUpper ch =
     (if length ch \<noteq> 1 then 0
      else let up = toUpper (ch ! 0) in if up < 65 \<or> up > 90 then 0 else i16 up)"

definition resolveKey :: "(int \<Rightarrow> int) \<Rightarrow> KeyMsg \<Rightarrow> KeyboardMode \<Rightarrow> KeyPlan" where
  "resolveKey toUpper msg mode =
     (if km_code msg = ''IntlBackslash'' then \<lparr>kp_keyCode = 0xE2, kp_flags = NON_NORMALIZED, kp_text = []\<rparr>
      else if km_code msg = ''IntlRo'' then \<lparr>kp_keyCode = 0xC1, kp_flags = NON_NORMALIZED, kp_text = []\<rparr>
      else let plan = \<lparr>kp_keyCode = i16 (km_keyCode msg), kp_flags = 0, kp_text = []\<rparr>
           in if km_char msg = [] \<or> mode = Positional then plan
              else case mode of
                Native \<Rightarrow> plan\<lparr>kp_text := km_char msg\<rparr>
              | SunshineWindows \<Rightarrow>
                  if km_nonUs msg
                  then let vk = letterVk toUpper (km_char msg)
                       in if vk \<noteq> 0 then plan\<lparr>kp_keyCode := vk, kp_flags := NON_NORMALIZED\<rparr> else plan
                  else plan
              | Positional \<Rightarrow> plan)"

definition modifierMask :: "KeyMsg \<Rightarrow> int" where
  "modifierMask msg =
     (if km_ctrl msg then 0x02 else 0) + (if km_shift msg then 0x01 else 0) +
     (if km_alt msg then 0x04 else 0) + (if km_meta msg then 0x08 else 0)"

text \<open>The loop of \<open>parseHeldKeys\<close> over the array.\<close>

fun parseHeldKeys :: "(int \<Rightarrow> int) \<Rightarrow> KeyMsg list \<Rightarrow> KeyboardMode \<Rightarrow> HeldKey list" where
  "parseHeldKeys toUpper [] mode = []"
| "parseHeldKeys toUpper (k # ks) mode =
     (let plan = resolveKey toUpper k mode
      in if isText plan then parseHeldKeys toUpper ks mode
         else \<lparr>hk_keyCode = kp_keyCode plan, hk_modifiers = modifierMask k, hk_flags = kp_flags plan,
               hk_hold = km_hold k\<rparr> # parseHeldKeys toUpper ks mode)"

section \<open>The engine's calls\<close>

text \<open>The engine of a session: whether it is the native one (\<open>qobject_cast<NativeMediaEngine*>\<close>) or \<open>MoonlightShim\<close>,
  its keyboard mode, the shift of its pad numbers, the lock keys of the host as captured (-1 when not known), and whether
  the clipboard is shared. The calls below are the methods of the two engines, connected.\<close>

record Engine =
  en_native :: bool
  en_mode :: KeyboardMode
  en_offset :: int
  en_hostLocks :: int
  en_clipboard :: bool

definition plain_event :: "int \<Rightarrow> int \<Rightarrow> bool \<Rightarrow> Input" where
  "plain_event keyCode modifiers down =
     Key \<lparr>hk_keyCode = keyCode, hk_modifiers = modifiers, hk_flags = 0, hk_hold = False\<rparr> down"

definition sendUtf8Text :: "Engine \<Rightarrow> int list \<Rightarrow> Input list" where
  "sendUtf8Text e s = (if \<not> en_native e \<and> s = [] then [] else [Act (TypeText s)])"

definition sendKeyChar :: "Engine \<Rightarrow> int list \<Rightarrow> bool \<Rightarrow> Input list" where
  "sendKeyChar e ch down = (if en_native e then [Char ch down] else if down then sendUtf8Text e ch else [])"

definition sendSecureAttention :: "Engine \<Rightarrow> Input list" where
  "sendSecureAttention e =
     (if en_native e then [Act SecureAttention]
      else [plain_event 0x11 0 True, plain_event 0x12 0 True, plain_event 0x2E 0 True,
            plain_event 0x2E 0 False, plain_event 0x12 0 False, plain_event 0x11 0 False])"

definition sync_lock :: "Engine \<Rightarrow> int \<Rightarrow> int \<Rightarrow> bool \<Rightarrow> bool \<Rightarrow> Input list" where
  "sync_lock e vk lock_bit client assumed =
     (let host = (if en_hostLocks e \<ge> 0 then en_hostLocks e AND lock_bit \<noteq> 0 else assumed)
      in if host = client then [] else [plain_event vk 0 True, plain_event vk 0 False])"

definition syncLockKeys :: "Engine \<Rightarrow> bool \<Rightarrow> bool \<Rightarrow> bool \<Rightarrow> Input list" where
  "syncLockKeys e numLock capsLock scrollLock =
     (if en_native e then [Act (LockKeys numLock capsLock scrollLock)]
      else sync_lock e 0x90 1 numLock True @ sync_lock e 0x14 2 capsLock False @ sync_lock e 0x91 4 scrollLock False)"

text \<open>\<open>ClipboardBridge::pasteFromClient\<close>: the text goes to the clipboard, then the chord is pressed. The action carries
  the text as asked for; the bridge cuts it at its limit and leaves the clipboard alone when it holds it already.\<close>

definition pasteFromClient :: "int list \<Rightarrow> bool \<Rightarrow> Input list" where
  "pasteFromClient s wrapCtrl =
     Act (SetClipboard s) # (if wrapCtrl then [plain_event 0x11 2 True] else []) @
     [plain_event 0x56 2 True, plain_event 0x56 2 False] @ (if wrapCtrl then [plain_event 0x11 0 False] else [])"

definition shiftedController :: "int \<Rightarrow> int \<Rightarrow> int" where
  "shiftedController controllerNumber offset =
     (let shifted = controllerNumber + offset in if shifted < 0 then 0 else if shifted > 255 then 255 else shifted)"

definition kMaxShiftedGamepads :: int where
  [tunables]: "kMaxShiftedGamepads = 4"

definition applyControllerOffset :: "int \<Rightarrow> int \<Rightarrow> int \<Rightarrow> (int \<times> int) option" where
  "applyControllerOffset offset number pad_mask =
     (if offset \<le> 0 then Some (number, pad_mask)
      else let shifted = number + offset
           in if shifted < 0 \<or> shifted \<ge> kMaxShiftedGamepads then None
              else Some (i16 shifted, i16 (i16 (push_bit (nat offset) (pad_mask AND 15)) OR push_bit (nat shifted) 1)))"

definition sendControllerArrival :: "Engine \<Rightarrow> int \<Rightarrow> int \<Rightarrow> int \<Rightarrow> bool \<Rightarrow> Input list" where
  "sendControllerArrival e number pad_mask ty rumble =
     (if en_native e then [Act (PadArrival (shiftedController number (en_offset e)) pad_mask ty rumble)]
      else case applyControllerOffset (en_offset e) (i16 number) (i16 pad_mask) of
             None \<Rightarrow> [] | Some (n, m) \<Rightarrow> [Act (PadArrival (u8 n) (u16 m) ty rumble)])"

definition sendControllerState :: "Engine \<Rightarrow> int \<Rightarrow> int \<Rightarrow> PadState \<Rightarrow> Input list" where
  "sendControllerState e number pad_mask s =
     (if en_native e then [Pad (shiftedController number (en_offset e)) pad_mask s]
      else case applyControllerOffset (en_offset e) number pad_mask of None \<Rightarrow> [] | Some (n, m) \<Rightarrow> [Pad n m s])"

definition sendControllerRemoval :: "Engine \<Rightarrow> int \<Rightarrow> int \<Rightarrow> Input list" where
  "sendControllerRemoval e number pad_mask =
     (if en_native e then [PadGone (shiftedController number (en_offset e)) pad_mask]
      else sendControllerState e (i16 number) (i16 pad_mask) pad_neutral)"

section \<open>The relay's switch\<close>

record Msg =
  m_type :: string
  m_key :: KeyMsg
  m_keys :: "KeyMsg list"
  m_buttons :: int
  m_buttonsHold :: bool
  m_button :: int
  m_hold :: bool
  m_index :: int
  m_mask :: int
  m_padButtons :: int
  m_lt :: int
  m_rt :: int
  m_sticks :: "int \<times> int \<times> int \<times> int"
  m_ctype :: int
  m_rumble :: bool
  m_text :: "int list"
  m_injectCtrl :: bool
  m_locks :: "bool \<times> bool \<times> bool"
  m_absolute :: bool
  m_position :: "int \<times> int \<times> int \<times> int"
  m_moved :: "int \<times> int"
  m_delta :: int
  m_composite :: bool
  m_cursorPx :: int
  m_fps :: int
  m_mhz :: int
  m_vsync :: bool
  m_kbps :: int
  m_owdRiseMs :: int
  m_gaps :: int
  m_resumed :: bool
  m_lost :: "int \<times> int"
  m_seq :: int

text \<open>A key message is a character for \<open>sendKeyChar\<close> or a key for \<open>sendKeyEvent\<close>, which both engines note.\<close>

datatype KeyCall = SendKeyChar "int list" bool int | SendKeyEvent HeldKey bool

definition relay_key :: "(int \<Rightarrow> int) \<Rightarrow> KeyboardMode \<Rightarrow> KeyMsg \<Rightarrow> bool \<Rightarrow> KeyCall" where
  "relay_key toUpper mode msg down =
     (let plan = resolveKey toUpper msg mode
      in if isText plan then SendKeyChar (kp_text plan) down (modifierMask msg)
         else SendKeyEvent \<lparr>hk_keyCode = kp_keyCode plan, hk_modifiers = modifierMask msg,
                hk_flags = kp_flags plan, hk_hold = km_hold msg\<rparr> down)"

fun key_inputs :: "Engine \<Rightarrow> KeyCall \<Rightarrow> Input list" where
  "key_inputs e (SendKeyChar t down mods) = sendKeyChar e t down"
| "key_inputs e (SendKeyEvent k down) = [Key k down]"

text \<open>What only the native engine is told, and returns before the switch over the input messages. A link report is
  recorded with the figures of the message: the host's own share, which the relay subtracts from the delay
  (\<open>HostLagTracker\<close>, in \<open>Link_Watch\<close>), and the freeze noted after a silence are not part of this list of inputs.\<close>

definition engine_message :: "Msg \<Rightarrow> Action option" where
  "engine_message msg =
     (if m_type msg = ''cursormode'' then Some (CompositeCursor (m_composite msg) (m_cursorPx msg))
      else if m_type msg = ''unblockinput'' then Some ReleaseInputBlock
      else if m_type msg = ''framefloor'' then Some (FrameFloor (m_fps msg))
      else if m_type msg = ''clientrefresh'' then Some (ClientRefresh (m_mhz msg) (m_vsync msg))
      else if m_type msg = ''clientfpscap'' then Some (ClientFpsCap (m_fps msg))
      else if m_type msg = ''clientbitrate'' then Some (ClientBitrate (m_kbps msg))
      else if m_type msg = ''linkstats'' then Some (LinkReport (m_owdRiseMs msg) (m_gaps msg) (m_fps msg) (m_resumed msg))
      else None)"

definition pad_of :: "Msg \<Rightarrow> PadState" where
  "pad_of msg = (case m_sticks msg of (lx, ly, rx, ry) \<Rightarrow>
     \<lparr>ps_buttons = m_padButtons msg, ps_lt = word_of_int (m_lt msg), ps_rt = word_of_int (m_rt msg),
      ps_lx = word_of_int lx, ps_ly = word_of_int ly, ps_rx = word_of_int rx, ps_ry = word_of_int ry\<rparr>)"

definition moved :: "Msg \<Rightarrow> Action" where
  "moved msg =
     (if m_absolute msg then (case m_position msg of (x, y, w, h) \<Rightarrow> MoveTo (i16 x) (i16 y) (i16 w) (i16 h))
      else (case m_moved msg of (dx, dy) \<Rightarrow> MoveBy (i16 dx) (i16 dy)))"

text \<open>The switch over the input messages. What the relay does for the video path of \<open>requestidr\<close> and \<open>invalidateref\<close> is
  in \<open>Video_Relay\<close>; here they are recorded as actions, like the answer to a \<open>ping\<close>.\<close>

definition input_message :: "(int \<Rightarrow> int) \<Rightarrow> Engine \<Rightarrow> Policy \<Rightarrow> Msg \<Rightarrow> Input list" where
  "input_message toUpper e p msg =
     (if m_type msg = ''keydown'' \<or> m_type msg = ''keyup''
      then key_inputs e (relay_key toUpper (en_mode e) (m_key msg) (m_type msg = ''keydown''))
      else if m_type msg = ''inputstate''
      then let (held, buttons) = filterHeldState p (parseHeldKeys toUpper (m_keys msg) (en_mode e))
             (word_of_int (m_buttons msg)) in [Sync held buttons (m_buttonsHold msg)]
      else if m_type msg = ''mousemove'' then [Act (moved msg)]
      else if m_type msg = ''mousedown'' \<or> m_type msg = ''mouseup''
      then [Button (nat (m_button msg)) (m_type msg = ''mousedown'') (m_hold msg)]
      else if m_type msg = ''mousewheel'' then [Act (ScrollBy (i16 (m_delta msg)))]
      else if m_type msg = ''mousehwheel'' then [Act (HScrollBy (i16 (m_delta msg)))]
      else if m_type msg = ''secureattention'' then sendSecureAttention e
      else if m_type msg = ''textinput'' then sendUtf8Text e (m_text msg)
      else if m_type msg = ''locksync''
      then (case m_locks msg of (num, caps, scroll) \<Rightarrow> syncLockKeys e num caps scroll)
      else if m_type msg = ''clipboardpaste''
      then (if en_clipboard e then pasteFromClient (m_text msg) (m_injectCtrl msg) else [])
      else if m_type msg = ''requestidr'' then [Act KeyframeWanted]
      else if m_type msg = ''invalidateref'' then (case m_lost msg of (lostFrom, lostTo) \<Rightarrow> [Act (FramesMissing lostFrom lostTo)])
      else if m_type msg = ''ping'' then [Act (Pong (m_seq msg))]
      else if m_type msg = ''gamepad''
      then sendControllerState e (i16 (m_index msg)) (i16 (m_mask msg)) (pad_of msg)
      else if m_type msg = ''gamepadconnect''
      then sendControllerArrival e (u8 (m_index msg)) (u16 (m_mask msg)) (u8 (m_ctype msg)) (m_rumble msg)
      else if m_type msg = ''gamepaddisconnect''
      then sendControllerRemoval e (u8 (m_index msg)) (u16 (m_mask msg))
      else [])"

definition relay_message :: "(int \<Rightarrow> int) \<Rightarrow> Engine \<Rightarrow> Policy \<Rightarrow> int \<Rightarrow> Msg \<Rightarrow> Input list" where
  "relay_message toUpper e p now msg =
     Alive now #
     (if \<not> allowed (m_type msg) p then []
      else case engine_message msg of
             Some a \<Rightarrow> (if en_native e then [Act a] else [])
           | None \<Rightarrow> input_message toUpper e p msg)"

text \<open>What reaches the watchdog's owner, in order: the client's messages and the timer.\<close>

datatype RelayEvent = FromClient int Msg | Timer int

fun relay_event :: "(int \<Rightarrow> int) \<Rightarrow> Engine \<Rightarrow> Policy \<Rightarrow> RelayEvent \<Rightarrow> Input list" where
  "relay_event toUpper e p (FromClient now msg) = relay_message toUpper e p now msg"
| "relay_event toUpper e p (Timer now) = [Tick now]"

definition relay_inputs :: "(int \<Rightarrow> int) \<Rightarrow> Engine \<Rightarrow> Policy \<Rightarrow> RelayEvent list \<Rightarrow> Input list" where
  "relay_inputs toUpper e p es = concat (map (relay_event toUpper e p) es)"

definition client_run :: "(16 word \<Rightarrow> 16 word) \<Rightarrow> (int \<Rightarrow> int) \<Rightarrow> Engine \<Rightarrow> Policy \<Rightarrow> RelayEvent list \<Rightarrow>
    InputWatchdog \<times> Host" where
  "client_run qAbs toUpper e p es = fold (input_step qAbs) (relay_inputs toUpper e p es) (wd_new, host_idle)"

section \<open>What the switch lets through\<close>

text \<open>What acts on the host as a keyboard, a pointer or the owner of its windows and clipboard, and what as a gamepad.\<close>

fun desktop_act :: "Action \<Rightarrow> bool" where
  "desktop_act (TypeText s) \<longleftrightarrow> True"
| "desktop_act SecureAttention \<longleftrightarrow> True"
| "desktop_act (LockKeys a b c) \<longleftrightarrow> True"
| "desktop_act (MoveBy x y) \<longleftrightarrow> True"
| "desktop_act (MoveTo x y w h) \<longleftrightarrow> True"
| "desktop_act (ScrollBy d) \<longleftrightarrow> True"
| "desktop_act (HScrollBy d) \<longleftrightarrow> True"
| "desktop_act (CompositeCursor c px) \<longleftrightarrow> True"
| "desktop_act ReleaseInputBlock \<longleftrightarrow> True"
| "desktop_act (SetClipboard s) \<longleftrightarrow> True"
| "desktop_act _ \<longleftrightarrow> False"

fun pad_act :: "Action \<Rightarrow> bool" where
  "pad_act (PadArrival n m ty r) \<longleftrightarrow> True"
| "pad_act _ \<longleftrightarrow> False"

fun guest_input :: "Input \<Rightarrow> bool" where
  "guest_input (Key k down) \<longleftrightarrow> False"
| "guest_input (Char t down) \<longleftrightarrow> False"
| "guest_input (Button b down held) \<longleftrightarrow> False"
| "guest_input (Sync ks m b) \<longleftrightarrow> ks = [] \<and> m = 0"
| "guest_input (Act a) \<longleftrightarrow> \<not> desktop_act a"
| "guest_input _ \<longleftrightarrow> True"

fun pad_input :: "Input \<Rightarrow> bool" where
  "pad_input (Pad c m s) \<longleftrightarrow> True"
| "pad_input (PadGone c m) \<longleftrightarrow> True"
| "pad_input (Act a) \<longleftrightarrow> pad_act a"
| "pad_input _ \<longleftrightarrow> False"

lemma no_prefix_gamepad [simp]:
  "\<not> prefix ''gamepad'' ''keydown''" "\<not> prefix ''gamepad'' ''keyup''" "\<not> prefix ''gamepad'' ''mousedown''"
  "\<not> prefix ''gamepad'' ''mouseup''" "prefix ''gamepad'' ''gamepad''" "prefix ''gamepad'' ''gamepaddisconnect''"
  by (simp_all add: prefix_def)

lemma sync_lock_taps: "list_all P (sync_lock e vk k c d) \<longleftrightarrow> sync_lock e vk k c d = [] \<or> P (plain_event vk 0 True) \<and> P (plain_event vk 0 False)"
  by (simp add: sync_lock_def Let_def)

lemma guest_allowed:
  assumes "\<not> keyboardMouse_ok p" "allowed ty p"
  shows "prefix ''gamepad'' ty \<or> ty \<in> {''ping'', ''requestidr'', ''request_idr'', ''clientstats'', ''linkstats'', ''invalidateref'',
    ''framefloor'', ''clientrefresh'', ''clientbitrate'', ''clientfpscap'', ''inputstate''}"
  using assms by (auto simp: allowed_def split: if_splits)

lemmas pad_calls = sendControllerArrival_def sendControllerState_def sendControllerRemoval_def

lemma guest_message:
  assumes "\<not> keyboardMouse_ok p"
  shows "list_all guest_input (relay_message up e p now msg)"
proof (cases "allowed (m_type msg) p")
  case True
  have pads: "list_all guest_input (sendControllerArrival e n m ty r)" "list_all guest_input (sendControllerState e n m s)"
      "list_all guest_input (sendControllerRemoval e n m)" for n m ty r s
    by (auto simp: pad_calls split: option.splits)
  have "list_all guest_input (input_message up e p msg)"
    using guest_allowed[OF assms True] assms
    by (auto simp: input_message_def filterHeldState_def pads split: prod.splits)
  moreover have "engine_message msg = Some a \<Longrightarrow> \<not> desktop_act a" for a
    using guest_allowed[OF assms True] by (auto simp: engine_message_def split: if_splits)
  ultimately show ?thesis by (auto simp: relay_message_def split: option.splits)
qed (simp add: relay_message_def)

lemma padless_message:
  assumes "\<not> gamepad_ok p"
  shows "list_all (\<lambda>i. \<not> pad_input i) (relay_message up e p now msg)"
proof (cases "allowed (m_type msg) p")
  case True
  have "\<not> allowed ''gamepad'' p" "\<not> allowed ''gamepaddisconnect'' p" "\<not> allowed ''gamepadconnect'' p"
    using assms by (simp_all add: allowed_def)
  then have no: "m_type msg \<noteq> ''gamepad''" "m_type msg \<noteq> ''gamepaddisconnect''" "m_type msg \<noteq> ''gamepadconnect''"
    using True by metis+
  have keys: "list_all (\<lambda>i. \<not> pad_input i) (key_inputs e k)" for k
    by (cases k) (auto simp: sendKeyChar_def sendUtf8Text_def)
  have taps: "\<not> pad_input (plain_event c m d)" for c m d by (simp add: plain_event_def)
  have others: "list_all (\<lambda>i. \<not> pad_input i) (sendSecureAttention e)" "list_all (\<lambda>i. \<not> pad_input i) (sendUtf8Text e s)"
      "list_all (\<lambda>i. \<not> pad_input i) (syncLockKeys e a b c)" "list_all (\<lambda>i. \<not> pad_input i) (pasteFromClient s w)" for s a b c w
    by (simp_all add: sendSecureAttention_def sendUtf8Text_def syncLockKeys_def pasteFromClient_def sync_lock_taps taps)
  have "\<not> pad_act (moved msg)" by (simp add: moved_def split: prod.splits)
  then have "list_all (\<lambda>i. \<not> pad_input i) (input_message up e p msg)"
    unfolding input_message_def Let_def using no by (simp add: keys others split: prod.splits)
  moreover have "engine_message msg = Some a \<Longrightarrow> \<not> pad_act a" for a
    by (auto simp: engine_message_def split: if_splits)
  ultimately show ?thesis by (auto simp: relay_message_def split: option.splits)
qed (simp add: relay_message_def)

lemma all_inputs:
  "(\<And>now msg. list_all P (relay_message up e p now msg)) \<Longrightarrow> (\<And>now. P (Tick now)) \<Longrightarrow>
   list_all P (relay_inputs up e p es)"
proof (induction es)
  case (Cons ev es)
  then show ?case by (cases ev) (auto simp: relay_inputs_def)
qed (simp add: relay_inputs_def)

definition untouched_desktop :: "Host \<Rightarrow> bool" where
  "untouched_desktop h \<longleftrightarrow> keysDown h = {} \<and> charsDown h = {} \<and> buttonsDown h = {} \<and>
     (\<forall>a \<in> set (acts h). \<not> desktop_act a)"

definition untouched_pads :: "Host \<Rightarrow> bool" where
  "untouched_pads h \<longleftrightarrow> padState h = (\<lambda>c. pad_neutral) \<and> padsGone h = {} \<and> (\<forall>a \<in> set (acts h). \<not> pad_act a)"

lemma released_desktop: "untouched_desktop h \<Longrightarrow> untouched_desktop (fold host_release rs h)"
proof (induction rs arbitrary: h)
  case (Cons r rs)
  have "untouched_desktop (host_release r h)"
    using Cons.prems by (cases r) (auto simp: untouched_desktop_def host_pad_def)
  then show ?case using Cons.IH by simp
qed simp

lemma released_pads: "untouched_pads h \<Longrightarrow> untouched_pads (fold host_release rs h)"
proof (induction rs arbitrary: h)
  case (Cons r rs)
  have "untouched_pads (host_release r h)"
    using Cons.prems by (cases r) (auto simp: untouched_pads_def host_pad_def fun_eq_iff)
  then show ?case using Cons.IH by simp
qed simp

lemma sync_nothing: "untouched_desktop h \<Longrightarrow> untouched_desktop (host_sync (fst (sync [] 0 b w)) h)"
  by (auto simp: untouched_desktop_def host_sync_eq sync_def)

lemma untouched_simps [simp]:
  "untouched_desktop (h\<lparr>padState := f, padsGone := g\<rparr>) \<longleftrightarrow> untouched_desktop h"
  "untouched_desktop (h\<lparr>acts := acts h @ [a]\<rparr>) \<longleftrightarrow> untouched_desktop h \<and> \<not> desktop_act a"
  "untouched_desktop (host_pad c s h) \<longleftrightarrow> untouched_desktop h"
  "untouched_pads (host_key k d h) \<longleftrightarrow> untouched_pads h" "untouched_pads (host_button n d h) \<longleftrightarrow> untouched_pads h"
  "untouched_pads (h\<lparr>charsDown := t\<rparr>) \<longleftrightarrow> untouched_pads h"
  "untouched_pads (h\<lparr>acts := acts h @ [a]\<rparr>) \<longleftrightarrow> untouched_pads h \<and> \<not> pad_act a"
  "untouched_pads (host_sync df h) \<longleftrightarrow> untouched_pads h"
  by (auto simp: untouched_desktop_def untouched_pads_def host_pad_def host_key_def host_button_def host_sync_eq)

lemma guest_step:
  assumes "guest_input i" "untouched_desktop (snd s)"
  shows "untouched_desktop (snd (input_step qAbs i s))"
proof -
  obtain w h where s: "s = (w, h)" by fastforce
  show ?thesis
  proof (cases i)
    case (Sync ks m b)
    then show ?thesis using assms sync_nothing[of h b w] by (simp add: s case_prod_beta Let_def)
  next
    case (Tick n)
    then show ?thesis using assms released_desktop by (simp add: s case_prod_beta Let_def)
  next
    case (LetGo b)
    then show ?thesis using assms released_desktop by (simp add: s case_prod_beta Let_def)
  qed (use assms in \<open>simp_all add: s\<close>)
qed

lemma padless_step:
  assumes "\<not> pad_input i" "untouched_pads (snd s)"
  shows "untouched_pads (snd (input_step qAbs i s))"
proof -
  obtain w h where s: "s = (w, h)" by fastforce
  show ?thesis
  proof (cases i)
    case (Tick n)
    then show ?thesis using assms released_pads by (simp add: s case_prod_beta Let_def)
  next
    case (LetGo b)
    then show ?thesis using assms released_pads by (simp add: s case_prod_beta Let_def)
  qed (use assms in \<open>simp_all add: s case_prod_beta Let_def\<close>)
qed

lemma kept_inputs:
  assumes "\<And>i s. P i \<Longrightarrow> Q (snd s) \<Longrightarrow> Q (snd (input_step qAbs i s))"
  shows "list_all P is \<Longrightarrow> Q (snd s) \<Longrightarrow> Q (snd (fold (input_step qAbs) is s))"
  using assms by (induction "is" arbitrary: s) simp_all

fun no_tick :: "Input \<Rightarrow> bool" where
  "no_tick (Tick n) \<longleftrightarrow> False"
| "no_tick _ \<longleftrightarrow> True"

lemma heard_all: "list_all no_tick is \<Longrightarrow> heard_first True (is @ js) \<longleftrightarrow> heard_first True js"
proof (induction "is")
  case (Cons i "is")
  then show ?case by (cases i) auto
qed simp

lemma message_ticks: "list_all no_tick (input_message up e p msg)"
proof -
  have "list_all no_tick (key_inputs e k)" for k by (cases k) (auto simp: sendKeyChar_def sendUtf8Text_def)
  moreover have "no_tick (plain_event c m d)" for c m d by (simp add: plain_event_def)
  moreover have "list_all no_tick (sendControllerArrival e n m ty r)" "list_all no_tick (sendControllerState e n m s)"
      "list_all no_tick (sendControllerRemoval e n m)" for n m ty r s
    by (auto simp: pad_calls split: option.splits)
  ultimately show ?thesis
    unfolding input_message_def Let_def
    by (simp add: sendSecureAttention_def sendUtf8Text_def syncLockKeys_def pasteFromClient_def sync_lock_taps split: prod.splits)
qed

lemma relay_message_heard:
  "heard_first heard (relay_message up e p now msg @ is) \<longleftrightarrow> heard_first True is"
  by (simp add: relay_message_def heard_all message_ticks split: option.splits)

lemma letterVk_cases:
  "letterVk up ch \<noteq> 0 \<Longrightarrow> \<exists>c. ch = [c] \<and> 65 \<le> up c \<and> up c \<le> 90 \<and> letterVk up ch = up c"
  by (cases ch) (auto simp: letterVk_def Let_def i16_def split: if_splits)

definition plain_key :: KeyMsg where
  "plain_key = \<lparr>km_code = ''KeyQ'', km_keyCode = 81, km_char = [97], km_nonUs = True, km_ctrl = False,
     km_shift = False, km_alt = False, km_meta = False, km_hold = False\<rparr>"

definition pad_msg :: "string \<Rightarrow> Msg" where
  "pad_msg ty = \<lparr>m_type = ty, m_key = plain_key, m_keys = [], m_buttons = 0, m_buttonsHold = False,
     m_button = 0, m_hold = False, m_index = 0, m_mask = 1, m_padButtons = 0, m_lt = 255, m_rt = 0,
     m_sticks = (0, 0, 0, 0), m_ctype = 1, m_rumble = False, m_text = [97], m_injectCtrl = True,
     m_locks = (True, False, False), m_absolute = False, m_position = (0, 0, 0, 0), m_moved = (1, 1), m_delta = 120,
     m_composite = True, m_cursorPx = 0, m_fps = 30, m_mhz = 60000, m_vsync = True, m_kbps = 8000, m_owdRiseMs = 0,
     m_gaps = 0, m_resumed = False, m_lost = (0, 0), m_seq = 1\<rparr>"

definition this_machine :: Engine where
  "this_machine = \<lparr>en_native = True, en_mode = Native, en_offset = 0, en_hostLocks = - 1, en_clipboard = True\<rparr>"

definition a_sunshine :: Engine where
  "a_sunshine = \<lparr>en_native = False, en_mode = Positional, en_offset = 0, en_hostLocks = - 1, en_clipboard = False\<rparr>"

section \<open>Properties\<close>



text \<open>Every message the relay takes proves the client alive before it presses anything, allowed or refused,
  whatever messages and ticks come: the order the watchdog's release after a silence rests on.\<close>

theorem relay_hears_first: "heard_first heard (relay_inputs up e p es)"
  unfolding relay_inputs_def
proof (induction es arbitrary: heard)
  case (Cons ev es)
  then show ?case by (cases ev) (simp_all add: relay_message_heard)
qed simp

text \<open>On a host that is not the native one a key message is always a key press, never text: its position
  in the US layout as the client sent it, one of the two international keys, or, on Sunshine for Windows and for
  a character the US layout does not have there, the virtual key of a single letter A to Z.\<close>

theorem sunshine_presses_keys:
  assumes "mode \<noteq> Native" and "plan = resolveKey up msg mode"
  shows "\<not> isText plan \<and>
    (plan = \<lparr>kp_keyCode = i16 (km_keyCode msg), kp_flags = 0, kp_text = []\<rparr> \<or>
     km_code msg \<in> {''IntlBackslash'', ''IntlRo''} \<and> kp_keyCode plan \<in> {226, 193} \<and> kp_flags plan = 1 \<or>
     mode = SunshineWindows \<and> km_nonUs msg \<and> kp_flags plan = 1 \<and>
       (\<exists>c. km_char msg = [c] \<and> kp_keyCode plan = up c \<and> 65 \<le> up c \<and> up c \<le> 90))"
  using assms letterVk_cases[of up "km_char msg"]
  by (cases mode) (auto simp: resolveKey_def isText_def Let_def tunables)

lemma sunshine_presses_keys_witness:
  "\<not> isText (resolveKey (\<lambda>c. c - 32) plain_key SunshineWindows) \<and>
   kp_keyCode (resolveKey (\<lambda>c. c - 32) plain_key SunshineWindows) = 65"
  using sunshine_presses_keys[of SunshineWindows _ "\<lambda>c. c - 32" plain_key, OF _ refl]
  by (simp add: resolveKey_def plain_key_def letterVk_def i16_def isText_def)

text \<open>A heartbeat names exactly the keys the key messages of the same keys would press, with the same code,
  modifiers, flags and hold mark, and leaves out exactly those that go by their character: what the watchdog
  re-presses is what was pressed, and it never types.\<close>

fun is_key :: "Input \<Rightarrow> bool" where
  "is_key (Key k down) \<longleftrightarrow> True"
| "is_key _ \<longleftrightarrow> False"

theorem heartbeat_repeats_presses:
  "map (\<lambda>k. Key k True) (parseHeldKeys up ks mode) =
   filter is_key (concat (map (\<lambda>m. key_inputs e (relay_key up mode m True)) ks))"
  by (induction ks) (simp_all add: relay_key_def Let_def sendKeyChar_def sendUtf8Text_def)

text \<open>An unplugged gamepad leaves the watchdog's set only on a GameStream host: the native engine's removal
  leaves the set as it was, so a pad unplugged off its centre is still there when the silence of 3 s neutralizes
  every pad in it, which plugs it in again.\<close>

lemma removal_drops_pad:
  "wd_ActivePads (fst (fold (input_step qAbs) (sendControllerRemoval e n m) (w, h))) =
     (if en_native e then wd_ActivePads w
      else case applyControllerOffset (en_offset e) (i16 n) (i16 m) of None \<Rightarrow> wd_ActivePads w
           | Some (c, _) \<Rightarrow> if at_rest qAbs pad_neutral then AList.delete c (wd_ActivePads w)
               else wd_ActivePads (notePad c (snd (the (applyControllerOffset (en_offset e) (i16 n) (i16 m)))) False w))"
  by (auto simp: pad_calls notePad_def split: option.splits)

definition pulled :: InputWatchdog where
  "pulled = \<lparr>wd_LastAliveMs = 0, wd_HeldKeys = [], wd_HeldButtons = 0, wd_HeldButtonsHold = False,
     wd_ActivePads = [(0, 1)], wd_ShortFired = False, wd_LongFired = False, wd_HeartbeatSeen = True,
     wd_Timer = True\<rparr>"

lemma unplugged_comes_back:
  "wd_ActivePads (fst (fold (input_step short_qAbs) (relay_message id this_machine \<lparr>gamepad_ok = True, keyboardMouse_ok = True\<rparr> 10
      (pad_msg ''gamepaddisconnect'')) (pulled, host_idle))) = [(0, 1)] \<and>
   fst (tick 3010 (pulled\<lparr>wd_LastAliveMs := 10\<rparr>)) = [NeutralizePad 0 1] \<and>
   wd_ActivePads (fst (fold (input_step short_qAbs) (relay_message id a_sunshine \<lparr>gamepad_ok = True, keyboardMouse_ok = True\<rparr> 10
      (pad_msg ''gamepaddisconnect'')) (pulled, host_idle))) = []"
proof -
  have "buttons_in 0 = []" by (simp add: buttons_in_def)
  moreover have "at_rest short_qAbs pad_neutral" by (rule rest_looks) (simp add: short_qAbs_def fun_eq_iff)
  ultimately show ?thesis
    by (simp add: relay_message_def engine_message_def input_message_def allowed_def pad_msg_def pad_calls this_machine_def
        a_sunshine_def applyControllerOffset_def i16_def u8_def u16_def noteClientAlive_def notePad_def pulled_def)
      (simp add: tick_def release_def tunables)
qed

end
