(* ===== verification/Router_Ports.thy ===== *)
theory Router_Ports
  imports MW_Prelude
begin

text \<open>
  The walk over the router's ports (\<open>src/network/RouterPortCore.h\<close> and \<open>.cpp\<close>, the constants of
  \<open>RouterPortPools.h\<close>): one router, several hosts, and the rule that nobody takes what a neighbour holds. The
  router behind \<open>IUpnpGateway\<close> is a record of functions on a state of its own; what the walk relies on is the
  locale \<open>upnp_router\<close>, which the tests' router table (\<open>tests/test_router_port_core.cpp\<close>) provides. A
  \<open>uint16_t\<close> port is an integer from 0 to 65535, an address the string the router gives, empty for none.
\<close>

definition kLeaseSec :: int where
  [tunables]: "kLeaseSec = 3600"

definition kTunnelPreferred :: "int list" where
  "kTunnelPreferred = [3478, 3479, 3480, 3481, 5349, 5350, 5351, 5352]"

definition kTunnelPoolBegin :: int where
  [tunables]: "kTunnelPoolBegin = 46000"

definition kTunnelPoolEnd :: int where
  [tunables]: "kTunnelPoolEnd = 46031"

definition kUdp :: string where
  "kUdp = ''UDP''"

definition kTcp :: string where
  "kTcp = ''TCP''"

section \<open>The gateway\<close>

text \<open>\<open>add\<close> takes the external and internal port, the lease in seconds, the description and the protocol;
  \<open>owner\<close> answers \<open>None\<close> when there is no entry or the router cannot say.\<close>

record 'g Gateway =
  gw_lan :: "'g \<Rightarrow> string"
  gw_add :: "int \<Rightarrow> int \<Rightarrow> int \<Rightarrow> string \<Rightarrow> string \<Rightarrow> 'g \<Rightarrow> bool \<times> 'g"
  gw_owner :: "int \<Rightarrow> string \<Rightarrow> 'g \<Rightarrow> string option \<times> 'g"
  gw_remove :: "int \<Rightarrow> string \<Rightarrow> 'g \<Rightarrow> bool \<times> 'g"

section \<open>The claims\<close>

datatype Purpose = Tunnel | Media

record Claim =
  cl_purpose :: Purpose
  cl_slot :: int
  cl_external :: int
  cl_internal :: int
  cl_tcp :: bool

definition claim_eq :: "Claim \<Rightarrow> Claim \<Rightarrow> bool" where
  "claim_eq a b \<longleftrightarrow> cl_purpose a = cl_purpose b \<and> cl_slot a = cl_slot b \<and> cl_external a = cl_external b \<and>
     cl_internal a = cl_internal b"

definition no_claim :: Claim where
  "no_claim = \<lparr>cl_purpose = Tunnel, cl_slot = - 1, cl_external = 0, cl_internal = 0, cl_tcp = False\<rparr>"

datatype SkipReason = LocalBusy | Foreign | Refused | KeptElsewhere

record Skipped =
  sk_port :: int
  sk_reason :: SkipReason
  sk_owner :: string

record PortRequest =
  pr_purpose :: Purpose
  pr_slot :: int
  pr_internalPort :: int
  pr_remembered :: "int list"
  pr_preferred :: "int list"
  pr_poolBegin :: int
  pr_poolEnd :: int
  pr_description :: string

record ClaimResult =
  res_ok :: bool
  res_claim :: Claim
  res_skipped :: "Skipped list"
  res_reclaimedFrom :: string

record RouterPortCore =
  rp_PreviousLan :: string
  rp_Held :: "Claim list"
  rp_LeaseSec :: int
  rp_RenewFailures :: int

definition rp_new :: RouterPortCore where
  "rp_new = \<lparr>rp_PreviousLan = [], rp_Held = [], rp_LeaseSec = kLeaseSec, rp_RenewFailures = 0\<rparr>"

definition setPreviousLanAddress :: "string \<Rightarrow> RouterPortCore \<Rightarrow> RouterPortCore" where
  "setPreviousLanAddress ip c = c\<lparr>rp_PreviousLan := ip\<rparr>"

definition rp_holds :: "RouterPortCore \<Rightarrow> int \<Rightarrow> bool" where
  "rp_holds c externalPort \<longleftrightarrow> list_ex (\<lambda>cl. cl_external cl = externalPort) (rp_Held c)"

definition ownerOf :: "'g Gateway \<Rightarrow> int \<Rightarrow> 'g \<Rightarrow> string \<times> 'g" where
  "ownerOf gw external g =
     (case gw_owner gw external kUdp g of (None, g) \<Rightarrow> ([], g) | (Some client, g) \<Rightarrow> (client, g))"

definition addWithLatch :: "'g Gateway \<Rightarrow> int \<Rightarrow> int \<Rightarrow> string \<Rightarrow> string \<Rightarrow> RouterPortCore \<Rightarrow> 'g \<Rightarrow>
    bool \<times> RouterPortCore \<times> 'g" where
  "addWithLatch gw external internal desc proto c g =
     (if rp_LeaseSec c > 0
      then case gw_add gw external internal (rp_LeaseSec c) desc proto g of
             (True, g) \<Rightarrow> (True, c, g)
           | (False, g) \<Rightarrow>
               (case gw_add gw external internal 0 desc proto g of
                  (False, g) \<Rightarrow> (False, c, g)
                | (True, g) \<Rightarrow> (True, c\<lparr>rp_LeaseSec := 0\<rparr>, g))
      else case gw_add gw external internal 0 desc proto g of (ok, g) \<Rightarrow> (ok, c, g))"

definition consider_port :: "RouterPortCore \<Rightarrow> int \<Rightarrow> int list \<Rightarrow> int list" where
  "consider_port c port candidates =
     (if port = 0 \<or> rp_holds c port \<or> port \<in> set candidates then candidates else candidates @ [port])"

definition port_candidates :: "PortRequest \<Rightarrow> RouterPortCore \<Rightarrow> int list" where
  "port_candidates req c =
     fold (consider_port c) (pr_remembered req @ pr_preferred req @ [pr_poolBegin req .. min (pr_poolEnd req) 65535]) []"

definition skip :: "int \<Rightarrow> SkipReason \<Rightarrow> string \<Rightarrow> ClaimResult \<Rightarrow> ClaimResult" where
  "skip port why owner res =
     res\<lparr>res_skipped := res_skipped res @ [\<lparr>sk_port = port, sk_reason = why, sk_owner = owner\<rparr>]\<rparr>"

text \<open>The write of a mapping and its read-back, once nothing of a neighbour's is in the way.\<close>

definition take_port :: "'g Gateway \<Rightarrow> string \<Rightarrow> int \<Rightarrow> PortRequest \<Rightarrow> RouterPortCore \<Rightarrow> 'g \<Rightarrow> ClaimResult \<Rightarrow>
    bool \<times> RouterPortCore \<times> 'g \<times> ClaimResult" where
  "take_port gw lan external req c g res =
     (let internal = (if pr_purpose req = Tunnel then external else pr_internalPort req)
      in case addWithLatch gw external internal (pr_description req) kUdp c g of
           (False, c, g) \<Rightarrow> (False, c, g, skip external Refused [] res)
         | (True, c, g) \<Rightarrow>
             (case ownerOf gw external g of (after, g) \<Rightarrow>
                if after \<noteq> [] \<and> after \<noteq> lan then (False, c, g, skip external KeptElsewhere after res)
                else case addWithLatch gw external internal (pr_description req) kTcp c g of (tcp, c, g) \<Rightarrow>
                  let cl = \<lparr>cl_purpose = pr_purpose req, cl_slot = pr_slot req, cl_external = external,
                            cl_internal = internal, cl_tcp = tcp\<rparr>
                  in (True, c\<lparr>rp_Held := rp_Held c @ [cl]\<rparr>, g, res\<lparr>res_claim := cl\<rparr>)))"

definition tryOne :: "'g Gateway \<Rightarrow> (int \<Rightarrow> bool) option \<Rightarrow> int \<Rightarrow> PortRequest \<Rightarrow> RouterPortCore \<Rightarrow> 'g \<Rightarrow> ClaimResult \<Rightarrow>
    bool \<times> RouterPortCore \<times> 'g \<times> ClaimResult" where
  "tryOne gw probe external req c g res =
     (if pr_purpose req = Tunnel \<and> (case probe of None \<Rightarrow> False | Some free \<Rightarrow> \<not> free external)
      then (False, c, g, skip external LocalBusy [] res)
      else let lan = gw_lan gw g in case ownerOf gw external g of (before, g) \<Rightarrow>
        if before \<noteq> [] \<and> before \<noteq> lan
        then if rp_PreviousLan c \<noteq> [] \<and> before = rp_PreviousLan c
             then take_port gw lan external req c g (res\<lparr>res_reclaimedFrom := before\<rparr>)
             else (False, c, g, skip external Foreign before res)
        else take_port gw lan external req c g res)"

fun claim_loop :: "'g Gateway \<Rightarrow> (int \<Rightarrow> bool) option \<Rightarrow> PortRequest \<Rightarrow> int list \<Rightarrow> RouterPortCore \<Rightarrow> 'g \<Rightarrow> ClaimResult \<Rightarrow>
    ClaimResult \<times> RouterPortCore \<times> 'g" where
  "claim_loop gw probe req [] c g res = (res, c, g)"
| "claim_loop gw probe req (p # ps) c g res =
     (case tryOne gw probe p req c g res of
        (True, c, g, res) \<Rightarrow> (res\<lparr>res_ok := True\<rparr>, c, g)
      | (False, c, g, res) \<Rightarrow> claim_loop gw probe req ps c g res)"

definition no_result :: ClaimResult where
  "no_result = \<lparr>res_ok = False, res_claim = no_claim, res_skipped = [], res_reclaimedFrom = []\<rparr>"

definition claim_port :: "'g Gateway \<Rightarrow> (int \<Rightarrow> bool) option \<Rightarrow> PortRequest \<Rightarrow> RouterPortCore \<Rightarrow> 'g \<Rightarrow>
    ClaimResult \<times> RouterPortCore \<times> 'g" where
  "claim_port gw probe req c g = claim_loop gw probe req (port_candidates req c) c g no_result"

section \<open>Renewal and release\<close>

definition renew_description :: "Claim \<Rightarrow> string" where
  "renew_description cl = (if cl_purpose cl = Tunnel then ''MoonlightWeb tunnel''
     else ''MoonlightWeb media slot '' @ to_string (cl_slot cl))"

text \<open>One held mapping: written again, then asked for. The state carries whether every UDP write was accepted
  and the claims found lost with their owners.\<close>

definition renew_one :: "'g Gateway \<Rightarrow> string \<Rightarrow> Claim \<Rightarrow> bool \<times> (Claim \<times> string) list \<times> RouterPortCore \<times> 'g \<Rightarrow>
    bool \<times> (Claim \<times> string) list \<times> RouterPortCore \<times> 'g" where
  "renew_one gw lan cl = (\<lambda>(ok, lost, c, g).
     let desc = renew_description cl
     in case addWithLatch gw (cl_external cl) (cl_internal cl) desc kUdp c g of (udp, c, g) \<Rightarrow>
        case (if cl_tcp cl then snd (addWithLatch gw (cl_external cl) (cl_internal cl) desc kTcp c g) else (c, g))
          of (c, g) \<Rightarrow>
        case ownerOf gw (cl_external cl) g of (owner, g) \<Rightarrow>
          (ok \<and> udp, (if owner \<noteq> [] \<and> owner \<noteq> lan then lost @ [(cl, owner)] else lost), c, g))"

definition readd_permanent :: "'g Gateway \<Rightarrow> Claim \<Rightarrow> 'g \<Rightarrow> 'g" where
  "readd_permanent gw cl g =
     (let desc = renew_description cl;
          g = snd (gw_add gw (cl_external cl) (cl_internal cl) 0 desc kUdp g)
      in if cl_tcp cl then snd (gw_add gw (cl_external cl) (cl_internal cl) 0 desc kTcp g) else g)"

definition removeAll :: "Claim \<Rightarrow> Claim list \<Rightarrow> Claim list" where
  "removeAll cl held = filter (\<lambda>x. \<not> claim_eq x cl) held"

definition renew :: "'g Gateway \<Rightarrow> RouterPortCore \<Rightarrow> 'g \<Rightarrow> (Claim \<times> string) list \<times> RouterPortCore \<times> 'g" where
  "renew gw c g =
     (case fold (renew_one gw (gw_lan gw g)) (rp_Held c) (True, [], c, g) of (ok, lost, c, g) \<Rightarrow>
        let c = c\<lparr>rp_Held := fold (\<lambda>l. removeAll (fst l)) lost (rp_Held c)\<rparr>
        in if ok then (lost, c\<lparr>rp_RenewFailures := 0\<rparr>, g)
           else let c = c\<lparr>rp_RenewFailures := rp_RenewFailures c + 1\<rparr>
                in if rp_RenewFailures c \<ge> 2 \<and> rp_LeaseSec c > 0
                   then (lost, c\<lparr>rp_LeaseSec := 0\<rparr>, fold (readd_permanent gw) (rp_Held c) g)
                   else (lost, c, g))"

definition release_port :: "'g Gateway \<Rightarrow> Claim \<Rightarrow> RouterPortCore \<times> 'g \<Rightarrow> RouterPortCore \<times> 'g" where
  "release_port gw cl = (\<lambda>(c, g).
     if \<not> list_ex (claim_eq cl) (rp_Held c) then (c, g)
     else let g = snd (gw_remove gw (cl_external cl) kUdp g);
              g = (if cl_tcp cl then snd (gw_remove gw (cl_external cl) kTcp g) else g)
          in (c\<lparr>rp_Held := removeAll cl (rp_Held c)\<rparr>, g))"

definition releaseAll :: "'g Gateway \<Rightarrow> RouterPortCore \<times> 'g \<Rightarrow> RouterPortCore \<times> 'g" where
  "releaseAll gw s = fold (release_port gw) (rp_Held (fst s)) s"

section \<open>What one try does to the books\<close>

lemma latch_books: "addWithLatch gw p i d proto c g = (ok, c', g') \<Longrightarrow>
    rp_Held c' = rp_Held c \<and> rp_PreviousLan c' = rp_PreviousLan c \<and> rp_RenewFailures c' = rp_RenewFailures c \<and>
    (rp_LeaseSec c' = rp_LeaseSec c \<or> rp_LeaseSec c' = 0)"
  by (auto simp: addWithLatch_def split: if_splits prod.splits bool.splits)

definition try_books :: "int \<Rightarrow> RouterPortCore \<Rightarrow> ClaimResult \<Rightarrow> bool \<Rightarrow> RouterPortCore \<Rightarrow> ClaimResult \<Rightarrow> bool" where
  "try_books p c res b c' res' \<longleftrightarrow> rp_PreviousLan c' = rp_PreviousLan c \<and> res_ok res' = res_ok res \<and>
     (if b then rp_Held c' = rp_Held c @ [res_claim res'] \<and> cl_external (res_claim res') = p \<and>
           res_skipped res' = res_skipped res
      else rp_Held c' = rp_Held c \<and> res_claim res' = res_claim res \<and>
           map sk_port (res_skipped res') = map sk_port (res_skipped res) @ [p])"

lemma take_port_books:
  assumes "take_port gw lan p req c g res = (b, c', g', res')"
  shows "try_books p c res b c' res'"
proof -
  let ?i = "if pr_purpose req = Tunnel then p else pr_internalPort req"
  obtain ok c1 g1 where 1: "addWithLatch gw p ?i (pr_description req) kUdp c g = (ok, c1, g1)"
    by (metis prod_cases3)
  obtain after g2 where 2: "ownerOf gw p g1 = (after, g2)" by (metis surj_pair)
  obtain tcp c3 g3 where 3: "addWithLatch gw p ?i (pr_description req) kTcp c1 g2 = (tcp, c3, g3)"
    by (metis prod_cases3)
  show ?thesis
    using assms 1 2 3 latch_books[OF 1] latch_books[OF 3]
    by (auto simp: take_port_def try_books_def skip_def Let_def split: if_splits bool.splits)
qed

lemma tryOne_books:
  assumes "tryOne gw probe p req c g res = (b, c', g', res')"
  shows "try_books p c res b c' res'"
proof -
  obtain before g1 where o: "ownerOf gw p g = (before, g1)" by (metis surj_pair)
  show ?thesis
  proof (cases "b")
    case False
    then show ?thesis
      using assms o take_port_books[of gw "gw_lan gw g" p req c g1 _ b c' g' res']
      by (auto simp: tryOne_def try_books_def skip_def Let_def split: if_splits option.splits)
  next
    case True
    then show ?thesis
      using assms o take_port_books[of gw "gw_lan gw g" p req c g1 _ b c' g' res']
      by (auto simp: tryOne_def try_books_def skip_def Let_def split: if_splits option.splits)
  qed
qed

text \<open>The books of a whole walk over the candidates \<open>ps\<close>.\<close>

lemma claim_loop_books:
  assumes "claim_loop gw probe req ps c g res = (res', c', g')" "\<not> res_ok res"
  shows "if res_ok res'
    then \<exists>k < length ps. cl_external (res_claim res') = ps ! k \<and>
           map sk_port (res_skipped res') = map sk_port (res_skipped res) @ take k ps \<and>
           rp_Held c' = rp_Held c @ [res_claim res']
    else map sk_port (res_skipped res') = map sk_port (res_skipped res) @ ps \<and> rp_Held c' = rp_Held c"
  using assms
proof (induction ps arbitrary: c g res)
  case Nil
  then show ?case by simp
next
  case (Cons p ps)
  obtain b c1 g1 res1 where t: "tryOne gw probe p req c g res = (b, c1, g1, res1)"
    by (metis prod_cases4)
  note books = tryOne_books[OF t]
  show ?case
  proof (cases b)
    case True
    then show ?thesis using Cons.prems t books by (auto simp: try_books_def intro!: exI[of _ 0])
  next
    case False
    have l: "claim_loop gw probe req ps c1 g1 res1 = (res', c', g')" using Cons.prems t False by simp
    have IH: "if res_ok res'
      then \<exists>k < length ps. cl_external (res_claim res') = ps ! k \<and>
             map sk_port (res_skipped res') = map sk_port (res_skipped res1) @ take k ps \<and>
             rp_Held c' = rp_Held c1 @ [res_claim res']
      else map sk_port (res_skipped res') = map sk_port (res_skipped res1) @ ps \<and> rp_Held c' = rp_Held c1"
      using Cons.IH[OF l] books Cons.prems(2) by (simp add: try_books_def)
    show ?thesis
    proof (cases "res_ok res'")
      case True
      then obtain k where "k < length ps" "cl_external (res_claim res') = ps ! k"
        "map sk_port (res_skipped res') = map sk_port (res_skipped res1) @ take k ps"
        "rp_Held c' = rp_Held c1 @ [res_claim res']" using IH by auto
      then show ?thesis using True books \<open>\<not> b\<close>
        by (auto simp: try_books_def intro!: exI[of _ "Suc k"])
    next
      case False
      then show ?thesis using IH books \<open>\<not> b\<close> by (simp add: try_books_def)
    qed
  qed
qed

lemma fold_consider: "distinct cs \<Longrightarrow> list_all (\<lambda>p. p \<noteq> 0 \<and> \<not> rp_holds c p) cs \<Longrightarrow>
    distinct (fold (consider_port c) ps cs) \<and> list_all (\<lambda>p. p \<noteq> 0 \<and> \<not> rp_holds c p) (fold (consider_port c) ps cs) \<and>
    set (fold (consider_port c) ps cs) = set cs \<union> {p \<in> set ps. p \<noteq> 0 \<and> \<not> rp_holds c p}"
proof (induction ps arbitrary: cs)
  case (Cons p ps)
  have "distinct (consider_port c p cs)" "list_all (\<lambda>p. p \<noteq> 0 \<and> \<not> rp_holds c p) (consider_port c p cs)"
    using Cons.prems by (auto simp: consider_port_def list_all_iff)
  moreover have "set (consider_port c p cs) = set cs \<union> (if p \<noteq> 0 \<and> \<not> rp_holds c p then {p} else {})"
    by (auto simp: consider_port_def)
  ultimately show ?case using Cons.IH[of "consider_port c p cs"] by auto
qed simp

lemma port_candidates_props:
  "distinct (port_candidates req c)" "p \<in> set (port_candidates req c) \<Longrightarrow> p \<noteq> 0 \<and> \<not> rp_holds c p"
proof -
  let ?ps = "pr_remembered req @ pr_preferred req @ [pr_poolBegin req .. min (pr_poolEnd req) 65535]"
  have f: "distinct (fold (consider_port c) ?ps []) \<and>
      list_all (\<lambda>p. p \<noteq> 0 \<and> \<not> rp_holds c p) (fold (consider_port c) ?ps [])"
    using fold_consider[where cs = "[]" and c = c and ps = ?ps] list.pred_inject(1) distinct.simps(1) by blast
  then show "distinct (port_candidates req c)" unfolding port_candidates_def by blast
  show "p \<in> set (port_candidates req c) \<Longrightarrow> p \<noteq> 0 \<and> \<not> rp_holds c p"
    using f unfolding port_candidates_def list_all_iff by blast
qed

section \<open>The router the walk relies on\<close>

text \<open>A router that answers: a query changes nothing and says what the table holds, and a write or a removal
  touches at most the entry it names, which a write leaves alone or points at this machine.\<close>

locale upnp_router =
  fixes gw :: "'g Gateway" and tab :: "'g \<Rightarrow> int \<times> string \<Rightarrow> string option"
  assumes owner_keeps: "tab (snd (gw_owner gw p proto g)) = tab g"
    and owner_lan: "gw_lan gw (snd (gw_owner gw p proto g)) = gw_lan gw g"
    and owner_says: "fst (gw_owner gw p proto g) = tab g (p, proto)"
    and add_lan: "gw_lan gw (snd (gw_add gw p i l d proto g)) = gw_lan gw g"
    and add_frame: "e \<noteq> (p, proto) \<Longrightarrow> tab (snd (gw_add gw p i l d proto g)) e = tab g e"
    and add_entry: "tab (snd (gw_add gw p i l d proto g)) (p, proto) \<in> {tab g (p, proto), Some (gw_lan gw g)}"
    and remove_lan: "gw_lan gw (snd (gw_remove gw p proto g)) = gw_lan gw g"
    and remove_frame: "e \<noteq> (p, proto) \<Longrightarrow> tab (snd (gw_remove gw p proto g)) e = tab g e"
begin

definition touched :: "(int \<times> string) set \<Rightarrow> 'g \<Rightarrow> 'g \<Rightarrow> bool" where
  "touched E g g' \<longleftrightarrow> gw_lan gw g' = gw_lan gw g \<and> (\<forall>e. e \<notin> E \<longrightarrow> tab g' e = tab g e) \<and>
     (\<forall>e \<in> E. tab g' e \<in> {tab g e, Some (gw_lan gw g)})"

lemma touched_refl: "touched E g g"
  by (simp add: touched_def)

lemma touched_trans:
  assumes 1: "touched E g g'" and 2: "touched E g' g''"
  shows "touched E g g''"
proof -
  have lan: "gw_lan gw g' = gw_lan gw g" "gw_lan gw g'' = gw_lan gw g'"
    and other: "e \<notin> E \<Longrightarrow> tab g'' e = tab g' e" "e \<notin> E \<Longrightarrow> tab g' e = tab g e"
    and named1: "e \<in> E \<Longrightarrow> tab g' e \<in> {tab g e, Some (gw_lan gw g)}"
    and named2: "e \<in> E \<Longrightarrow> tab g'' e \<in> {tab g' e, Some (gw_lan gw g')}" for e
    using 1 2 unfolding touched_def by blast+
  have "tab g'' e \<in> {tab g e, Some (gw_lan gw g)}" if "e \<in> E" for e
    using named1[OF that] named2[OF that] lan by auto
  then show ?thesis unfolding touched_def using lan other by metis
qed

lemma touched_mono: "touched E g g' \<Longrightarrow> E \<subseteq> F \<Longrightarrow> touched F g g'"
  unfolding touched_def by blast

lemma touched_add: "touched {(p, proto)} g (snd (gw_add gw p i l d proto g))"
  using add_lan add_frame add_entry by (simp add: touched_def)

lemma touched_latch: "addWithLatch gw p i d proto c g = (ok, c', g') \<Longrightarrow> touched {(p, proto)} g g'"
  using touched_add[of p proto g i "rp_LeaseSec c" d]
    touched_add[of p proto g i 0 d]
    touched_trans[OF touched_add[of p proto g i "rp_LeaseSec c" d] touched_add[of p proto _ i 0 d]]
  by (auto simp: addWithLatch_def split: if_splits prod.splits bool.splits)

lemma owner_of: "ownerOf gw p g = (owner, g') \<Longrightarrow> tab g' = tab g \<and> gw_lan gw g' = gw_lan gw g \<and>
    owner = (case tab g (p, kUdp) of None \<Rightarrow> [] | Some x \<Rightarrow> x)"
  using owner_keeps[of p kUdp g] owner_lan[of p kUdp g] owner_says[of p kUdp g]
  by (auto simp: ownerOf_def split: prod.splits option.splits)

lemma touched_owner: "ownerOf gw p g = (owner, g') \<Longrightarrow> touched E g g'"
  using owner_of[of p g owner g'] by (simp add: touched_def)

definition not_foreign :: "int \<Rightarrow> 'g \<Rightarrow> bool" where
  "not_foreign p g \<longleftrightarrow> tab g (p, kUdp) \<in> {None, Some [], Some (gw_lan gw g)}"

lemma take_port_touched:
  assumes "take_port gw lan p req c g res = (b, c', g', res')" and "lan = gw_lan gw g"
  shows "touched {(p, kUdp), (p, kTcp)} g g' \<and> (b \<longrightarrow> not_foreign p g')"
proof -
  let ?i = "if pr_purpose req = Tunnel then p else pr_internalPort req"
  let ?E = "{(p, kUdp), (p, kTcp)}"
  obtain ok c1 g1 where 1: "addWithLatch gw p ?i (pr_description req) kUdp c g = (ok, c1, g1)"
    by (metis prod_cases3)
  obtain after g2 where 2: "ownerOf gw p g1 = (after, g2)" by (metis surj_pair)
  obtain tcp c3 g3 where 3: "addWithLatch gw p ?i (pr_description req) kTcp c1 g2 = (tcp, c3, g3)"
    by (metis prod_cases3)
  have t1: "touched ?E g g1" and t3: "touched ?E g2 g3"
    using touched_latch[OF 1] touched_latch[OF 3] by (auto elim: touched_mono)
  have t12: "touched ?E g g2" and t123: "touched ?E g g3"
    using touched_trans[OF t1 touched_owner[OF 2]] touched_trans[OF _ t3] by blast+
  have own: "not_foreign p g3" if "\<not> (after \<noteq> [] \<and> after \<noteq> lan)"
  proof -
    have "(p, kUdp) \<noteq> (p, kTcp)" by (simp add: kUdp_def kTcp_def)
    then have "tab g3 (p, kUdp) = tab g1 (p, kUdp)"
      using touched_latch[OF 3] owner_of[OF 2] by (simp add: touched_def)
    then show ?thesis
      using that owner_of[OF 2] t123 assms(2) by (auto simp: not_foreign_def touched_def split: option.splits)
  qed
  show ?thesis
    using assms(1) 1 2 3 t1 t12 t123 own
    by (auto simp: take_port_def Let_def split: if_splits bool.splits)
qed

lemma tryOne_spares:
  assumes "tryOne gw probe p req c g res = (b, c', g', res')"
  shows "touched {(p, kUdp), (p, kTcp)} g g' \<and> (b \<longrightarrow> not_foreign p g') \<and>
    (\<forall>x. tab g (p, kUdp) = Some x \<and> x \<noteq> [] \<and> x \<noteq> gw_lan gw g \<and> (x \<noteq> rp_PreviousLan c \<or> rp_PreviousLan c = []) \<longrightarrow>
       tab g' (p, kUdp) = Some x)"
proof -
  let ?E = "{(p, kUdp), (p, kTcp)}"
  obtain before g1 where o: "ownerOf gw p g = (before, g1)" by (metis surj_pair)
  have t1: "touched ?E g g1" and lan: "gw_lan gw g = gw_lan gw g1" and tab1: "tab g1 = tab g"
    and bf: "before = (case tab g (p, kUdp) of None \<Rightarrow> [] | Some x \<Rightarrow> x)"
    using touched_owner[OF o] owner_of[OF o] by simp_all
  have took: "touched ?E g g' \<and> (b \<longrightarrow> not_foreign p g')"
    if "take_port gw (gw_lan gw g) p req c g1 r = (b, c', g', res')" for r
    using take_port_touched[OF that lan] touched_trans[OF t1] by blast
  show ?thesis
    using assms o took t1 bf tab1
    by (auto simp: tryOne_def Let_def touched_refl split: if_splits option.splits bool.splits)
qed

lemma claim_loop_spares:
  assumes "claim_loop gw probe req ps c g res = (res', c', g')" "\<not> res_ok res"
    and "tab g (q, kUdp) = Some x" "x \<noteq> []" "x \<noteq> gw_lan gw g" "x \<noteq> rp_PreviousLan c \<or> rp_PreviousLan c = []"
  shows "tab g' (q, kUdp) = Some x \<and> gw_lan gw g' = gw_lan gw g"
  using assms
proof (induction ps arbitrary: c g res)
  case Nil
  then show ?case by simp
next
  case (Cons p ps)
  obtain b c1 g1 res1 where t: "tryOne gw probe p req c g res = (b, c1, g1, res1)"
    by (metis prod_cases4)
  have "(q, kUdp) \<notin> {(p, kUdp), (p, kTcp)} \<or> q = p" by auto
  then have x1: "tab g1 (q, kUdp) = Some x" and lan1: "gw_lan gw g1 = gw_lan gw g"
    using tryOne_spares[OF t] Cons.prems(3-6) by (auto simp: touched_def)
  show ?case
  proof (cases b)
    case True
    then show ?thesis using Cons.prems(1) t x1 lan1 by auto
  next
    case False
    then have l: "claim_loop gw probe req ps c1 g1 res1 = (res', c', g')" using Cons.prems(1) t by simp
    have "\<not> res_ok res1" "rp_PreviousLan c1 = rp_PreviousLan c"
      using tryOne_books[OF t] Cons.prems(2) by (auto simp: try_books_def)
    then show ?thesis using Cons.IH[OF l] Cons.prems x1 lan1 by simp
  qed
qed

lemma claim_loop_own:
  assumes "claim_loop gw probe req ps c g res = (res', c', g')" "\<not> res_ok res" "res_ok res'"
  shows "not_foreign (cl_external (res_claim res')) g'"
  using assms
proof (induction ps arbitrary: c g res)
  case (Cons p ps)
  obtain b c1 g1 res1 where t: "tryOne gw probe p req c g res = (b, c1, g1, res1)"
    by (metis prod_cases4)
  then show ?case
    using Cons tryOne_spares[OF t] tryOne_books[OF t]
    by (cases b) (auto simp: try_books_def)
qed simp

lemma touched_not_foreign: "touched E g g' \<Longrightarrow> not_foreign p g \<Longrightarrow> not_foreign p g'"
  unfolding not_foreign_def touched_def by (cases "(p, kUdp) \<in> E") auto

lemma touched_lan: "touched E g g' \<Longrightarrow> gw_lan gw g' = gw_lan gw g"
  by (simp add: touched_def)

lemma renew_one_keeps:
  assumes "renew_one gw lan cl (ok, lost, c, g) = (ok', lost', c', g')" and "lan = gw_lan gw g"
  shows "touched {(cl_external cl, kUdp), (cl_external cl, kTcp)} g g' \<and> rp_Held c' = rp_Held c \<and>
    (lost' = lost \<and> not_foreign (cl_external cl) g' \<or> (\<exists>owner. lost' = lost @ [(cl, owner)]))"
proof -
  let ?p = "cl_external cl" and ?i = "cl_internal cl" and ?d = "renew_description cl"
  let ?E = "{(?p, kUdp), (?p, kTcp)}"
  obtain udp c1 g1 where 1: "addWithLatch gw ?p ?i ?d kUdp c g = (udp, c1, g1)" by (metis prod_cases3)
  obtain tcp c2 g2 where 2: "addWithLatch gw ?p ?i ?d kTcp c1 g1 = (tcp, c2, g2)" by (metis prod_cases3)
  define s where "s = (if cl_tcp cl then (c2, g2) else (c1, g1))"
  obtain owner g3 where 3: "ownerOf gw ?p (snd s) = (owner, g3)" by (metis surj_pair)
  have t1: "touched ?E g g1" and t2: "touched ?E g1 g2"
    using touched_latch[OF 1] touched_latch[OF 2] by (auto elim: touched_mono)
  have ts: "touched ?E g (snd s)" using t1 touched_trans[OF t1 t2] by (simp add: s_def)
  have t: "touched ?E g g3" by (rule touched_trans[OF ts touched_owner[OF 3]])
  have held: "rp_Held (fst s) = rp_Held c" using latch_books[OF 1] latch_books[OF 2] by (simp add: s_def)
  have out: "(ok', lost', c', g') =
      (ok \<and> udp, (if owner \<noteq> [] \<and> owner \<noteq> lan then lost @ [(cl, owner)] else lost), fst s, g3)"
    using assms(1) 1 2 3 by (auto simp: renew_one_def Let_def s_def)
  have "not_foreign ?p g3" if "\<not> (owner \<noteq> [] \<and> owner \<noteq> lan)"
    using that owner_of[OF 3] touched_lan[OF ts] assms(2) by (auto simp: not_foreign_def split: option.splits)
  then show ?thesis using out t held by (auto split: if_splits)
qed

lemma renew_fold_keeps:
  assumes "fold (renew_one gw lan) cls (ok, lost, c, g) = (ok', lost', c', g')" and "lan = gw_lan gw g"
  shows "gw_lan gw g' = lan \<and> rp_Held c' = rp_Held c \<and> set lost \<subseteq> set lost' \<and>
    (\<forall>p. not_foreign p g \<longrightarrow> not_foreign p g') \<and>
    (\<forall>cl \<in> set cls. cl \<in> fst ` set lost' \<or> not_foreign (cl_external cl) g')"
  using assms
proof (induction cls arbitrary: ok lost c g)
  case Nil
  then show ?case by simp
next
  case (Cons cl cls)
  obtain ok1 lost1 c1 g1 where s: "renew_one gw lan cl (ok, lost, c, g) = (ok1, lost1, c1, g1)"
    by (metis prod_cases4)
  note k = renew_one_keeps[OF s Cons.prems(2)]
  have lan1: "lan = gw_lan gw g1" using k touched_lan Cons.prems(2) by metis
  have f: "fold (renew_one gw lan) cls (ok1, lost1, c1, g1) = (ok', lost', c', g')" using Cons.prems(1) s by simp
  note IH = Cons.IH[OF f lan1]
  have "set lost \<subseteq> set lost1" "cl \<in> fst ` set lost1 \<or> not_foreign (cl_external cl) g1" using k by force+
  moreover have "not_foreign p g1" if "not_foreign p g" for p using k touched_not_foreign that by blast
  ultimately show ?case using IH k by auto
qed

lemma readd_keeps: "touched {(cl_external cl, kUdp), (cl_external cl, kTcp)} g (readd_permanent gw cl g)"
proof -
  let ?p = "cl_external cl" and ?i = "cl_internal cl" and ?d = "renew_description cl"
  let ?g = "snd (gw_add gw ?p ?i 0 ?d kUdp g)"
  have "touched {(?p, kUdp), (?p, kTcp)} g ?g" "touched {(?p, kUdp), (?p, kTcp)} ?g (snd (gw_add gw ?p ?i 0 ?d kTcp ?g))"
    by (rule touched_mono[OF touched_add], blast)+
  then show ?thesis unfolding readd_permanent_def Let_def using touched_trans by auto
qed

lemma readd_fold_keeps: "not_foreign p g \<Longrightarrow> not_foreign p (fold (readd_permanent gw) cls g)"
proof (induction cls arbitrary: g)
  case (Cons cl cls)
  then show ?case using touched_not_foreign[OF readd_keeps] by simp
qed simp

lemma removed_lost: "set (fold (\<lambda>l. removeAll (fst l)) lost held) = {cl \<in> set held. \<forall>l \<in> set lost. \<not> claim_eq cl (fst l)}"
  by (induction lost arbitrary: held) (auto simp: removeAll_def)

lemma renew_keeps:
  assumes "renew gw c g = (lost, c', g')"
  shows "set (rp_Held c') = {cl \<in> set (rp_Held c). \<forall>l \<in> set lost. \<not> claim_eq cl (fst l)} \<and>
    (\<forall>cl \<in> set (rp_Held c'). not_foreign (cl_external cl) g') \<and>
    (rp_RenewFailures c' \<ge> 2 \<longrightarrow> rp_LeaseSec c' \<le> 0)"
proof -
  obtain ok lost1 c1 g1 where f: "fold (renew_one gw (gw_lan gw g)) (rp_Held c) (True, [], c, g) = (ok, lost1, c1, g1)"
    by (metis prod_cases4)
  note k = renew_fold_keeps[OF f refl]
  define left where "left = fold (\<lambda>l. removeAll (fst l)) lost1 (rp_Held c1)"
  have own: "not_foreign (cl_external cl) g1" if "cl \<in> set left" for cl
    using that k by (auto simp: left_def removed_lost claim_eq_def)
  have out: "lost = lost1 \<and> rp_Held c' = left \<and> (g' = g1 \<or> g' = fold (readd_permanent gw) left g1) \<and>
      (rp_RenewFailures c' \<ge> 2 \<longrightarrow> rp_LeaseSec c' \<le> 0)"
    using assms f by (auto simp: renew_def Let_def left_def split: if_splits)
  then have "set (rp_Held c') = {cl \<in> set (rp_Held c). \<forall>l \<in> set lost. \<not> claim_eq cl (fst l)}"
    using k by (simp add: left_def removed_lost)
  then show ?thesis using out own readd_fold_keeps by auto
qed

end

section \<open>The tests' router\<close>

record FakeKnobs =
  keepsForeignEntries :: bool
  mute :: bool
  refuseLease :: bool
  refuse :: "int list"

record FakeTable =
  fk_lan :: string
  fk_table :: "int \<times> string \<rightharpoonup> string \<times> int"

definition fake_gateway :: "FakeKnobs \<Rightarrow> FakeTable Gateway" where
  "fake_gateway k =
     \<lparr>gw_lan = fk_lan,
      gw_add = (\<lambda>ext int lease desc proto g.
        if ext \<in> set (refuse k) then (False, g)
        else if refuseLease k \<and> lease > 0 then (False, g)
        else if keepsForeignEntries k \<and>
                (case fk_table g (ext, proto) of None \<Rightarrow> False | Some e \<Rightarrow> fst e \<noteq> fk_lan g) then (True, g)
        else (True, g\<lparr>fk_table := (fk_table g)((ext, proto) \<mapsto> (fk_lan g, int))\<rparr>)),
      gw_owner = (\<lambda>ext proto g. (if mute k then None else map_option fst (fk_table g (ext, proto)), g)),
      gw_remove = (\<lambda>ext proto g.
        (fk_table g (ext, proto) \<noteq> None, g\<lparr>fk_table := (fk_table g)((ext, proto) := None)\<rparr>))\<rparr>"

definition fake_owner :: "FakeTable \<Rightarrow> int \<times> string \<Rightarrow> string option" where
  "fake_owner g e = map_option fst (fk_table g e)"

text \<open>The table is such a router whatever it refuses or keeps, as long as it answers.\<close>

interpretation fake: upnp_router "fake_gateway (k\<lparr>mute := False\<rparr>)" fake_owner for k
  by unfold_locales (auto simp: fake_gateway_def fake_owner_def)

section \<open>What the walk promises\<close>

text \<open>Candidates in order: the first occurrence of every remembered, preferred and pool port.\<close>

lemma consider_first: "fold (consider_port c) ps [] = filter (\<lambda>p. p \<noteq> 0 \<and> \<not> rp_holds c p) (rev (remdups (rev ps)))"
  by (induction ps rule: rev_induct) (auto simp: consider_port_def)

text \<open>Nobody takes what a neighbour holds: on a router that answers, a claim leaves every UDP entry pointing at
  another machine as it was, unless that machine is the address this host had before, and never returns such a port
  as claimed.\<close>

lemma claim_spares_neighbours:
  assumes "upnp_router gw tab" and "claim_port gw probe req c g = (res, c', g')"
    and "tab g (q, kUdp) = Some x" and "x \<noteq> []" and "x \<noteq> gw_lan gw g"
    and "x \<noteq> rp_PreviousLan c \<or> rp_PreviousLan c = []"
  shows "tab g' (q, kUdp) = Some x \<and> (res_ok res \<longrightarrow> cl_external (res_claim res) \<noteq> q)"
proof -
  have l: "claim_loop gw probe req (port_candidates req c) c g no_result = (res, c', g')" "\<not> res_ok no_result"
    using assms(2) by (simp_all add: claim_port_def no_result_def)
  note kept = upnp_router.claim_loop_spares[OF assms(1) l assms(3-6)]
  have "cl_external (res_claim res) \<noteq> q" if "res_ok res"
    using upnp_router.claim_loop_own[OF assms(1) l that] kept assms(4,5)
    by (auto simp: upnp_router.not_foreign_def[OF assms(1)])
  then show ?thesis using kept by blast
qed

text \<open>The walk: candidates are the remembered ports, then the preferred, then the pool, each port once, none zero
  or already held; the claim is the first that is not skipped, every earlier one is reported as skipped in order, and
  the books gain exactly that claim. When none is left, all are reported and the books are unchanged.\<close>

lemma claim_walks_in_order:
  assumes "claim_port gw probe req c g = (res, c', g')"
  shows "port_candidates req c = filter (\<lambda>p. p \<noteq> 0 \<and> \<not> rp_holds c p)
      (rev (remdups (rev (pr_remembered req @ pr_preferred req @ [pr_poolBegin req .. min (pr_poolEnd req) 65535])))) \<and>
    (if res_ok res
     then \<exists>k < length (port_candidates req c). cl_external (res_claim res) = port_candidates req c ! k \<and>
            map sk_port (res_skipped res) = take k (port_candidates req c) \<and>
            rp_Held c' = rp_Held c @ [res_claim res]
     else map sk_port (res_skipped res) = port_candidates req c \<and> rp_Held c' = rp_Held c)"
proof -
  have l: "claim_loop gw probe req (port_candidates req c) c g no_result = (res, c', g')" "\<not> res_ok no_result"
    and none: "res_skipped no_result = []"
    using assms by (simp_all add: claim_port_def no_result_def)
  note walk = claim_loop_books[OF l, unfolded none list.map append_Nil]
  show ?thesis using walk by (intro conjI) (simp add: port_candidates_def consider_first del: fold_append rev_append)
qed

text \<open>A renewal keeps in the books exactly the claims it did not report lost, and each of those, on a router that
  answers, points at this machine or at nobody; two failed renewals in a row leave no finite lease.\<close>

lemma renew_keeps_only_own:
  assumes "upnp_router gw tab" and "renew gw c g = (lost, c', g')"
  shows "set (rp_Held c') = {cl \<in> set (rp_Held c). \<not> list_ex (\<lambda>l. claim_eq cl (fst l)) lost} \<and>
    list_all (\<lambda>cl. tab g' (cl_external cl, kUdp) \<in> {None, Some [], Some (gw_lan gw g')}) (rp_Held c') \<and>
    (rp_RenewFailures c' < 2 \<or> rp_LeaseSec c' \<le> 0)"
  using upnp_router.renew_keeps[OF assms]
  by (auto simp: upnp_router.not_foreign_def[OF assms(1)] list_ex_iff list_all_iff)

section \<open>A router with neighbours\<close>

text \<open>Two ports mapped to a neighbour at .9: 46000 over both protocols, 46001 over TCP alone.\<close>

definition shared_router :: FakeTable where
  "shared_router = \<lparr>fk_lan = ''192.168.1.10'', fk_table =
     [(46000, kUdp) \<mapsto> (''192.168.1.9'', 46000), (46000, kTcp) \<mapsto> (''192.168.1.9'', 46000),
      (46001, kTcp) \<mapsto> (''192.168.1.9'', 46001)]\<rparr>"

definition plain_knobs :: FakeKnobs where
  "plain_knobs = \<lparr>keepsForeignEntries = False, mute = False, refuseLease = False, refuse = []\<rparr>"

definition tunnel_request :: PortRequest where
  "tunnel_request = \<lparr>pr_purpose = Tunnel, pr_slot = - 1, pr_internalPort = 0, pr_remembered = [], pr_preferred = [],
     pr_poolBegin = 46000, pr_poolEnd = 46002, pr_description = ''tunnel''\<rparr>"

definition shared_claim :: "ClaimResult \<times> RouterPortCore \<times> FakeTable" where
  "shared_claim = claim_port (fake_gateway plain_knobs) None tunnel_request rp_new shared_router"

lemmas shared_defs = shared_router_def plain_knobs_def tunnel_request_def shared_claim_def fake_gateway_def fake_owner_def

lemma plain_router: "upnp_router (fake_gateway plain_knobs) fake_owner"
  using fake.upnp_router_axioms[of plain_knobs] by (simp add: plain_knobs_def)

lemma shared_claim_takes: "res_ok (fst shared_claim) \<and> cl_external (res_claim (fst shared_claim)) = 46001 \<and>
    rp_Held (fst (snd shared_claim)) = [res_claim (fst shared_claim)]"
  by code_simp

lemma claim_spares_neighbours_witness:
  "fake_owner (snd (snd shared_claim)) (46000, kUdp) = Some ''192.168.1.9'' \<and>
   res_ok (fst shared_claim) \<and> cl_external (res_claim (fst shared_claim)) \<noteq> 46000"
proof -
  have s: "claim_port (fake_gateway plain_knobs) None tunnel_request rp_new shared_router =
      (fst shared_claim, fst (snd shared_claim), snd (snd shared_claim))" by (simp add: shared_claim_def)
  have "fake_owner shared_router (46000, kUdp) = Some ''192.168.1.9''" "''192.168.1.9'' \<noteq> []"
    "''192.168.1.9'' \<noteq> gw_lan (fake_gateway plain_knobs) shared_router" "rp_PreviousLan rp_new = []"
    by (simp_all add: shared_router_def fake_owner_def fake_gateway_def rp_new_def)
  then show ?thesis using claim_spares_neighbours[OF plain_router s] shared_claim_takes by blast
qed

lemma claim_walks_in_order_witness:
  "map sk_port (res_skipped (fst shared_claim)) = [46000]"
proof -
  have "claim_port (fake_gateway plain_knobs) None tunnel_request rp_new shared_router =
      (fst shared_claim, fst (snd shared_claim), snd (snd shared_claim))" by (simp add: shared_claim_def)
  note w = claim_walks_in_order[OF this]
  have c: "port_candidates tunnel_request rp_new = [46000, 46001, 46002]" by code_simp
  have "\<exists>k < 3. [46000, 46001, 46002] ! k = (46001 :: int) \<and>
      map sk_port (res_skipped (fst shared_claim)) = take k [46000, 46001, 46002]"
    using conjunct2[OF w] shared_claim_takes unfolding c numeral_3_eq_3 by auto
  then show ?thesis by (auto simp: less_Suc_eq numeral_3_eq_3)
qed

text \<open>Only the UDP owner is ever asked: on the tests' own router, a neighbour's TCP entry is overwritten by a
  claim for the same number, which reports success.\<close>

lemma tcp_entry_is_taken:
  "fake_owner shared_router (46001, kTcp) = Some ''192.168.1.9'' \<and> res_ok (fst shared_claim) \<and>
   cl_external (res_claim (fst shared_claim)) = 46001 \<and> rp_PreviousLan (fst (snd shared_claim)) = [] \<and>
   fake_owner (snd (snd shared_claim)) (46001, kTcp) = Some ''192.168.1.10''"
  by code_simp

text \<open>A machine that came later wrote over the entry this host held.\<close>

definition taken_over :: FakeTable where
  "taken_over = (snd (snd shared_claim))\<lparr>fk_table :=
     (fk_table (snd (snd shared_claim)))((46001, kUdp) \<mapsto> (''192.168.1.20'', 46001))\<rparr>"

definition overtaken_renewal :: "(Claim \<times> string) list \<times> RouterPortCore \<times> FakeTable" where
  "overtaken_renewal = renew (fake_gateway plain_knobs) (fst (snd shared_claim)) taken_over"

lemma renew_keeps_only_own_witness:
  "list_all (\<lambda>cl. fake_owner (snd (snd overtaken_renewal)) (cl_external cl, kUdp) \<in>
     {None, Some [], Some (gw_lan (fake_gateway plain_knobs) (snd (snd overtaken_renewal)))})
     (rp_Held (fst (snd overtaken_renewal)))"
proof -
  have "renew (fake_gateway plain_knobs) (fst (snd shared_claim)) taken_over =
      (fst overtaken_renewal, fst (snd overtaken_renewal), snd (snd overtaken_renewal))"
    by (simp add: overtaken_renewal_def)
  from renew_keeps_only_own[OF plain_router this] show ?thesis by blast
qed

text \<open>The renewal writes before it asks: on the tests' own router it takes back the entry a later machine had
  taken, reports nothing lost, and the later machine's mapping is gone.\<close>

lemma renewal_takes_back:
  "fake_owner taken_over (46001, kUdp) = Some ''192.168.1.20'' \<and> fst overtaken_renewal = [] \<and>
   fake_owner (snd (snd overtaken_renewal)) (46001, kUdp) = Some ''192.168.1.10''"
  by code_simp

end
