(* ===== verification/Auth_Addresses.thy ===== *)
theory Auth_Addresses
  imports Request_Guard
begin

text \<open>
  The address helpers of \<open>AuthManager\<close> (\<open>src/server/AuthManager.cpp\<close>): whose attempts a request counts against,
  which bucket an address is in, and which addresses may spend the admin password. Qt's address type is the
  parameter \<open>QtWeb\<close>, with two operations more: the text of an address and the number of a text.
\<close>

record QtAddr = QtWeb +
  qx_toString :: "HostAddress \<Rightarrow> string"
  qx_toInt :: "string \<Rightarrow> int option"

definition parse_addr :: "'a QtAddr_scheme \<Rightarrow> string \<Rightarrow> HostAddress" where
  "parse_addr q ip = qt_parse (qw_net q) ip"

definition cleanClientAddress :: "string \<Rightarrow> string" where
  "cleanClientAddress ip = (if prefix ''::ffff:'' ip then drop 7 ip else ip)"

section \<open>Texts in parts\<close>

text \<open>\<open>QString::split\<close>, which keeps empty parts, and with \<open>SkipEmptyParts\<close>.\<close>

fun splitOn :: "char \<Rightarrow> string \<Rightarrow> string list" where
  "splitOn c [] = [[]]"
| "splitOn c (x # s) = (if x = c then [] # splitOn c s else (x # hd (splitOn c s)) # tl (splitOn c s))"

definition split_skip :: "char \<Rightarrow> string \<Rightarrow> string list" where
  "split_skip c s = filter (\<lambda>p. p \<noteq> []) (splitOn c s)"

section \<open>Addresses on this network\<close>

definition isPrivateIP :: "'a QtAddr_scheme \<Rightarrow> string \<Rightarrow> string" where
  "isPrivateIP q ip =
     (let clean = cleanClientAddress ip
      in if qt_isLoopback (qw_net q) (parse_addr q clean) then ''Local''
         else case splitOn CHR ''.'' clean of
           [p0, p1, p2, p3] \<Rightarrow>
             (case qx_toInt q p0 of
                None \<Rightarrow> ''Remote''
              | Some a \<Rightarrow>
                  (case qx_toInt q p1 of
                     None \<Rightarrow> ''Remote''
                   | Some b \<Rightarrow>
                       if a = 10 then ''Local''
                       else if a = 172 \<and> b \<ge> 16 \<and> b \<le> 31 then ''Local''
                       else if a = 192 \<and> b = 168 then ''Local''
                       else ''Remote''))
         | _ \<Rightarrow> ''Remote'')"

definition isLanAddress :: "'a QtAddr_scheme \<Rightarrow> string \<Rightarrow> bool" where
  "isLanAddress q ip =
     (let addr = parse_addr q (cleanClientAddress ip)
      in if addr = NullAddress then False
         else if qt_isLoopback (qw_net q) addr then True
         else if qw_isLinkLocal q addr then True
         else case addr of
                IPv4 v4 \<Rightarrow> v4 AND 0xFF000000 = 0x0A000000 \<or> v4 AND 0xFFF00000 = 0xAC100000 \<or>
                           v4 AND 0xFFFF0000 = 0xC0A80000
              | IPv6 raw \<Rightarrow> raw ! 0 AND 0xFE = 0xFC
              | NullAddress \<Rightarrow> False)"

definition canUnlockAdmin :: "'a QtAddr_scheme \<Rightarrow> string \<Rightarrow> bool \<Rightarrow> bool \<Rightarrow> bool" where
  "canUnlockAdmin q ip hostTrusted viaTunnel = (if \<not> isLanAddress q ip then False else viaTunnel \<or> hostTrusted)"

section \<open>Whom an attempt is counted against\<close>

definition rateLimitKey :: "'a QtAddr_scheme \<Rightarrow> string \<Rightarrow> string" where
  "rateLimitKey q ip =
     (let clean = cleanClientAddress ip
      in case parse_addr q clean of
           IPv6 raw \<Rightarrow> qx_toString q (IPv6 (take 8 raw @ replicate 8 0)) @ ''/64''
         | _ \<Rightarrow> clean)"

text \<open>One candidate as a proxy writes it: quoted or not, bracketed or not, with a port or not.\<close>

definition unquoted :: "string \<Rightarrow> string" where
  "unquoted v = (if prefix [CHR 0x22] v \<and> suffix [CHR 0x22] v \<and> length v \<ge> 2 then take (length v - 2) (drop 1 v) else v)"

definition without_port :: "string \<Rightarrow> string" where
  "without_port v =
     (if prefix ''['' v
      then (if CHR '']'' \<in> set v then takeWhile (\<lambda>c. c \<noteq> CHR '']'') (drop 1 v) else [])
      else if length (filter (\<lambda>c. c = CHR '':'') v) = 1 then takeWhile (\<lambda>c. c \<noteq> CHR '':'') v
      else v)"

definition parse_candidate :: "'a QtAddr_scheme \<Rightarrow> string \<Rightarrow> string" where
  "parse_candidate q v =
     (let addr = parse_addr q (without_port (unquoted (trimmed v)))
      in if addr = NullAddress then [] else cleanClientAddress (qx_toString q addr))"

fun first_for :: "'a QtAddr_scheme \<Rightarrow> string list \<Rightarrow> string option" where
  "first_for q [] = None"
| "first_for q (pair # rest) =
     (let p = trimmed pair
      in if \<not> startsWith_ci p ''for='' then first_for q rest
         else if parse_candidate q (drop 4 p) \<noteq> [] then Some (parse_candidate q (drop 4 p))
         else first_for q rest)"

definition attemptAddress :: "'a QtAddr_scheme \<Rightarrow> string \<Rightarrow> headers \<Rightarrow> string" where
  "attemptAddress q peer hs =
     (let clean = cleanClientAddress peer;
          cf = parse_candidate q (header hs ''cf-connecting-ip'');
          xff = split_skip CHR '','' (header hs ''x-forwarded-for'');
          fwd = split_skip CHR '','' (header hs ''forwarded'')
      in if \<not> qt_isLoopback (qw_net q) (parse_addr q clean) then clean
         else if cf \<noteq> [] then cf
         else if xff \<noteq> [] \<and> parse_candidate q (last xff) \<noteq> [] then parse_candidate q (last xff)
         else if fwd \<noteq> []
         then (case first_for q (splitOn CHR '';'' (last fwd)) of Some a \<Rightarrow> a | None \<Rightarrow> clean)
         else clean)"

section \<open>What the parts of a text are\<close>

lemma splitOn_nonempty [simp]: "splitOn c s \<noteq> []"
  by (cases s) auto

lemma splitOn_code [code]:
  "splitOn c [] = [[]]"
  "splitOn c (x # s) = (if x = c then [] # splitOn c s else case splitOn c s of [] \<Rightarrow> [[x]] | l # ls \<Rightarrow> (x # l) # ls)"
  by (simp_all split: list.split)

lemma takeWhile_until: "x \<notin> set a \<Longrightarrow> takeWhile (\<lambda>c. c \<noteq> x) (a @ x # b) = a"
  by (induction a) auto

lemma splitOn_none: "c \<notin> set s \<Longrightarrow> splitOn c s = [s]"
  by (induction s) auto

lemma splitOn_append: "splitOn c (s @ c # t) = splitOn c s @ splitOn c t"
  by (induction s) auto

lemma split_skip_last: "c \<notin> set t \<Longrightarrow> t \<noteq> [] \<Longrightarrow> split_skip c (s @ c # t) = split_skip c s @ [t]"
  by (simp add: split_skip_def splitOn_append splitOn_none)

lemma split_skip_one: "c \<notin> set t \<Longrightarrow> t \<noteq> [] \<Longrightarrow> split_skip c t = [t]"
  by (simp add: split_skip_def splitOn_none)

section \<open>What holds\<close>

text \<open>The admin password's door is the local network: what \<open>canUnlockAdmin\<close> lets in, \<open>NetClassify\<close> calls loopback
  or private, never a tunnel's range and never the internet, whatever the request claims about its host.\<close>

theorem admin_door_is_local:
  assumes "canUnlockAdmin q ip hostTrusted viaTunnel"
    and "startsWith_ci ip ''::ffff:'' \<longleftrightarrow> prefix ''::ffff:'' ip"
    and "\<And>v. qw_isLinkLocal q (IPv4 v) \<longleftrightarrow> v AND 0xFFFF0000 = 0xA9FE0000"
    and "\<And>raw. qw_isLinkLocal q (IPv6 raw) \<longleftrightarrow> raw ! 0 = 0xFE \<and> raw ! 1 AND 0xC0 = 0x80"
    and "\<And>v. qw_toIPv4 q (IPv4 v) = Some v"
    and "\<And>raw v. qw_toIPv4 q (IPv6 raw) = Some v \<Longrightarrow> raw ! 0 = 0"
  shows "isPrivateOrLoopback (classify (QtWeb.truncate q) ip) \<and> (hostTrusted \<or> viaTunnel)"
proof -
  let ?b = "cleanClientAddress ip"
  have c: "isPrivateOrLoopback (classify (QtWeb.truncate q) ip) \<longleftrightarrow> toLower ip = ''localhost'' \<or>
      isPrivateOrLoopback (classify_parsed (QtWeb.truncate q) (parse_addr q ?b))"
    by (simp add: classify_def cleanClientAddress_def assms(2) parse_addr_def isPrivateOrLoopback_def QtWeb.truncate_def Let_def)
  have "isPrivateOrLoopback (classify_parsed (QtWeb.truncate q) (parse_addr q ?b))"
  proof (cases "parse_addr q ?b")
    case NullAddress
    then show ?thesis using assms(1) by (simp add: canUnlockAdmin_def isLanAddress_def split: if_splits)
  next
    case (IPv4 v)
    then show ?thesis using assms(1,3,5)
      by (auto simp: canUnlockAdmin_def isLanAddress_def classify_parsed_def isPrivateOrLoopback_def QtWeb.truncate_def
          Let_def split: if_splits)
  next
    case (IPv6 raw)
    have "raw ! 0 \<noteq> 0" if "raw ! 0 = 0xFE \<or> raw ! 0 AND 0xFE = 0xFC" using that by auto
    then have "qw_toIPv4 q (IPv6 raw) = None" if "raw ! 0 = 0xFE \<or> raw ! 0 AND 0xFE = 0xFC"
      using assms(6)[of raw] that by (cases "qw_toIPv4 q (IPv6 raw)") auto
    then show ?thesis using IPv6 assms(1,4)
      by (auto simp: canUnlockAdmin_def isLanAddress_def classify_parsed_def isPrivateOrLoopback_def QtWeb.truncate_def
          Let_def split: if_splits)
  qed
  then show ?thesis using c assms(1) by (auto simp: canUnlockAdmin_def split: if_splits)
qed

text \<open>Nobody buys a fresh counter with a header: a peer that is not this machine is counted under its own address
  whatever it sends, and behind a proxy on this machine, where no other header names anyone, it is the entry
  the proxy itself appended that counts, whatever the visitor wrote before it.\<close>

theorem attempt_address_not_forged:
  assumes "qx_toString q addr = t" and "parse_addr q t = addr" and "addr \<noteq> NullAddress"
    and "list_all (\<lambda>c. \<not> isSpace c \<and> c \<notin> {CHR '','', CHR '':'', CHR ''['', CHR 0x22}) t" and "t \<noteq> []"
    and "hs ''x-forwarded-for'' = Some (forged @ CHR '','' # t)" and "hs ''cf-connecting-ip'' = None"
    and "parse_addr q [] = NullAddress"
  shows "attemptAddress q peer hs =
    (if qt_isLoopback (qw_net q) (parse_addr q (cleanClientAddress peer)) then t else cleanClientAddress peer)"
proof -
  have plain: "\<not> isSpace c" "c \<noteq> CHR '',''" "c \<noteq> CHR '':''" "c \<noteq> CHR ''[''" "c \<noteq> CHR 0x22" if "c \<in> set t" for c
    using assms(4) that by (auto simp: list_all_iff)
  have "dropWhile isSpace s = s" if "set s \<subseteq> set t" for s using plain(1) that by (cases s) auto
  then have trim: "trimmed t = t" by (simp add: trimmed_def)
  obtain a r where ar: "t = a # r" using assms(5) by (cases t) auto
  then have a: "a \<noteq> CHR '':''" "a \<noteq> CHR ''[''" "a \<noteq> CHR 0x22" using plain[of a] by simp_all
  have colons: "filter (\<lambda>c. c = CHR '':'') t = []" using plain(3) by (auto simp: filter_empty_conv)
  have "unquoted t = t" using a by (simp add: unquoted_def ar)
  moreover have "without_port t = t" using a colons by (simp add: without_port_def ar)
  ultimately have "without_port (unquoted (trimmed t)) = t" using trim by simp
  then have cand: "parse_candidate q t = t"
    using assms(1,2,3) a by (simp add: parse_candidate_def cleanClientAddress_def ar)
  have none: "parse_candidate q [] = []"
    using assms(8) by (simp add: parse_candidate_def trimmed_def unquoted_def without_port_def)
  have comma: "CHR '','' \<notin> set t" using plain(2) by blast
  have last: "last (split_skip CHR '','' (header hs ''x-forwarded-for'')) = t"
    "split_skip CHR '','' (header hs ''x-forwarded-for'') \<noteq> []"
    using split_skip_last[OF comma assms(5), of forged] assms(6) by (simp_all add: header_def)
  show ?thesis using last cand none assms(5,7) by (simp add: attemptAddress_def header_def Let_def)
qed

text \<open>The witnesses' network: this machine, one private address and one of the internet.\<close>

definition small_addr :: "unit QtAddr_scheme" where
  "small_addr = \<lparr>qw_net = \<lparr>qt_parse = (\<lambda>s. if s = ''127.0.0.1'' then IPv4 0x7F000001
         else if s = ''10.0.0.7'' then IPv4 0x0A000007 else if s = ''8.8.8.8'' then IPv4 0x08080808 else NullAddress),
       qt_isLoopback = (\<lambda>a. a = IPv4 0x7F000001)\<rparr>,
     qw_isLinkLocal = (\<lambda>a. case a of IPv4 v \<Rightarrow> v AND 0xFFFF0000 = 0xA9FE0000
       | IPv6 raw \<Rightarrow> raw ! 0 = 0xFE \<and> raw ! 1 AND 0xC0 = 0x80 | NullAddress \<Rightarrow> False),
     qw_url = (\<lambda>s. (drop 8 s, 0)), qw_toIPv4 = (\<lambda>a. case a of IPv4 v \<Rightarrow> Some v | _ \<Rightarrow> None),
     qx_toString = (\<lambda>a. if a = IPv4 0x08080808 then ''8.8.8.8'' else if a = IPv4 0x0A000007 then ''10.0.0.7''
       else ''127.0.0.1''),
     qx_toInt = (\<lambda>s. None)\<rparr>"

lemma small_addr_simps:
  "parse_addr small_addr s = (if s = ''127.0.0.1'' then IPv4 0x7F000001
     else if s = ''10.0.0.7'' then IPv4 0x0A000007 else if s = ''8.8.8.8'' then IPv4 0x08080808 else NullAddress)"
  "qt_isLoopback (qw_net small_addr) a \<longleftrightarrow> a = IPv4 0x7F000001"
  "qx_toString small_addr a = (if a = IPv4 0x08080808 then ''8.8.8.8'' else if a = IPv4 0x0A000007 then ''10.0.0.7''
     else ''127.0.0.1'')"
  by (simp_all add: small_addr_def parse_addr_def)

lemma admin_door_is_local_witness:
  "isPrivateOrLoopback (classify (QtWeb.truncate small_addr) ''10.0.0.7'')"
proof -
  have "isPrivateOrLoopback (classify (QtWeb.truncate small_addr) ''10.0.0.7'') \<and> (False \<or> True)"
  proof (rule admin_door_is_local)
    show "canUnlockAdmin small_addr ''10.0.0.7'' False True"
      by (simp add: canUnlockAdmin_def isLanAddress_def cleanClientAddress_def parse_addr_def small_addr_def)
  qed (simp_all add: small_addr_def startsWith_ci_def lower_def)
  then show ?thesis by simp
qed

lemma attempt_address_not_forged_witness:
  "attemptAddress small_addr ''127.0.0.1'' [''x-forwarded-for'' \<mapsto> ''10.0.0.7,8.8.8.8''] = ''8.8.8.8'' \<and>
   attemptAddress small_addr ''10.0.0.7'' [''x-forwarded-for'' \<mapsto> ''10.0.0.7,8.8.8.8''] = ''10.0.0.7''"
  using attempt_address_not_forged[of small_addr "IPv4 0x08080808" "''8.8.8.8''" "[''x-forwarded-for'' \<mapsto> ''10.0.0.7,8.8.8.8'']" "''10.0.0.7''" "''127.0.0.1''"]
    attempt_address_not_forged[of small_addr "IPv4 0x08080808" "''8.8.8.8''" "[''x-forwarded-for'' \<mapsto> ''10.0.0.7,8.8.8.8'']" "''10.0.0.7''" "''10.0.0.7''"]
  by (simp add: small_addr_simps isSpace_def cleanClientAddress_def)

end
