(* ===== verification/Http_Parser.thy ===== *)
theory Http_Parser
  imports Auth_Addresses "HOL-Library.List_Lexorder" "HOL-Library.Char_ord"
begin

text \<open>
  A request from the bytes of a socket: \<open>HttpParser::parse\<close> (\<open>src/server/HttpParser.cpp\<close>), the framing of
  \<open>HttpServer::onReadyReadSocket\<close> and the answer \<open>HttpServer::sendResponse\<close> writes (\<open>src/server/HttpServer.cpp\<close>).
  Texts are character lists, one character a byte. Trimming, lower case and the letters and digits of a plain authority
  are those of ASCII; Qt's are Unicode's, so a header name or an authority with other letters is outside the model. What Qt reads is the parameter \<open>QtHttp\<close>: \<open>qh_utf8\<close> is a text
  that went through \<open>QString::fromUtf8\<close> and back, \<open>qh_url\<close> the decoded path and the query items of a target,
  \<open>qh_toInt\<close> the number of a text.
\<close>

record QtHttp =
  qh_utf8 :: "string \<Rightarrow> string"
  qh_url :: "string \<Rightarrow> string \<times> (string \<times> string) list"
  qh_toInt :: "string \<Rightarrow> int option"

section \<open>Lines\<close>

abbreviation "CR \<equiv> CHR 0x0D"
abbreviation "LF \<equiv> CHR 0x0A"
abbreviation "CRLF \<equiv> [CR, LF]"

fun grow_line :: "char \<Rightarrow> string list \<Rightarrow> string list" where
  "grow_line c [] = [[c]]"
| "grow_line c (l # ls) = (c # l) # ls"

fun split_lines :: "string \<Rightarrow> string list" where
  "split_lines [] = [[]]"
| "split_lines [c] = [[c]]"
| "split_lines (c # d # s) = (if c = CR \<and> d = LF then [] # split_lines s else grow_line c (split_lines (d # s)))"

fun join_lines :: "string list \<Rightarrow> string" where
  "join_lines [] = []"
| "join_lines [l] = l"
| "join_lines (l # m # ls) = l @ CRLF @ join_lines (m # ls)"

section \<open>The parser\<close>

definition hasControlChars :: "string \<Rightarrow> bool" where
  "hasControlChars s \<longleftrightarrow> list_ex (\<lambda>c. (of_char c :: nat) < 0x20 \<or> (of_char c :: nat) = 0x7F) s"

record Parsed =
  pq_method :: string
  pq_path :: string
  pq_headers :: headers
  pq_query :: "string \<rightharpoonup> string"
  pq_body :: string
  pq_malformed :: bool

definition blank_request :: Parsed where
  "blank_request = \<lparr>pq_method = [], pq_path = [], pq_headers = Map.empty, pq_query = Map.empty, pq_body = [],
     pq_malformed = False\<rparr>"

definition upper :: "char \<Rightarrow> char" where
  "upper c = (if 97 \<le> (of_char c :: nat) \<and> (of_char c :: nat) \<le> 122 then char_of ((of_char c :: nat) - 32) else c)"

definition toUpper :: "string \<Rightarrow> string" where
  "toUpper s = map upper s"

definition read_query :: "(string \<times> string) list \<Rightarrow> Parsed \<Rightarrow> Parsed" where
  "read_query items r = fold (\<lambda>(k, v) r.
     r\<lparr>pq_malformed := (pq_malformed r \<or> hasControlChars k \<or> hasControlChars v), pq_query := (pq_query r)(k \<mapsto> v)\<rparr>) items r"

definition read_request_line :: "QtHttp \<Rightarrow> string \<Rightarrow> Parsed" where
  "read_request_line q line =
     (case splitOn CHR '' '' line of
        m # t # _ \<Rightarrow>
          (let path = (if fst (qh_url q t) = [] then ''/'' else fst (qh_url q t))
           in read_query (snd (qh_url q t))
                (blank_request\<lparr>pq_method := toUpper m, pq_path := path, pq_malformed := hasControlChars path\<rparr>))
      | _ \<Rightarrow> blank_request)"

definition read_header :: "headers \<Rightarrow> string \<Rightarrow> headers" where
  "read_header hs line =
     (let name = takeWhile (\<lambda>c. c \<noteq> CHR '':'') line
      in if CHR '':'' \<in> set line \<and> name \<noteq> []
         then hs(toLower (trimmed name) \<mapsto> trimmed (drop (length name + 1) line))
         else hs)"

text \<open>The header lines up to the first empty one, and the lines after it when there is one.\<close>

fun read_headers :: "headers \<Rightarrow> string list \<Rightarrow> headers \<times> string list option" where
  "read_headers hs [] = (hs, None)"
| "read_headers hs (l # ls) = (if l = [] then (hs, Some ls) else read_headers (read_header hs l) ls)"

definition parse :: "QtHttp \<Rightarrow> string \<Rightarrow> Parsed" where
  "parse q raw =
     (let lines = split_lines (qh_utf8 q raw);
          req = read_request_line q (hd lines)
      in case read_headers (pq_headers req) (tl lines) of
           (hs, None) \<Rightarrow> req\<lparr>pq_headers := hs\<rparr>
         | (hs, Some bodyLines) \<Rightarrow> req\<lparr>pq_headers := hs, pq_body := join_lines bodyLines\<rparr>)"

section \<open>Framing\<close>

definition MAX_HEADER_BYTES :: nat where [tunables]: "MAX_HEADER_BYTES = 32 * 1024"
definition MAX_BODY_BYTES :: int where [tunables]: "MAX_BODY_BYTES = 8 * 1024 * 1024"

text \<open>The text before the first empty line and what follows that line.\<close>

fun cut_head :: "string \<Rightarrow> (string \<times> string) option" where
  "cut_head [] = None"
| "cut_head (c # s) = (if prefix (CRLF @ CRLF) (c # s) then Some ([], drop 3 s)
     else case cut_head s of None \<Rightarrow> None | Some (h, r) \<Rightarrow> Some (c # h, r))"

fun has_part_ci :: "string \<Rightarrow> string \<Rightarrow> bool" where
  "has_part_ci p [] \<longleftrightarrow> p = []"
| "has_part_ci p (c # s) \<longleftrightarrow> startsWith_ci (c # s) p \<or> has_part_ci p s"

record Framing =
  fr_contentLength :: int
  fr_haveContentLength :: bool
  fr_haveTransferEncoding :: bool

definition framing_line :: "QtHttp \<Rightarrow> string \<Rightarrow> Framing \<Rightarrow> Framing" where
  "framing_line q line f =
     (if \<not> fr_haveContentLength f \<and> startsWith_ci line ''Content-Length:''
      then f\<lparr>fr_contentLength := (case qh_toInt q (trimmed (drop 15 line)) of Some n \<Rightarrow> n | None \<Rightarrow> 0),
             fr_haveContentLength := True\<rparr>
      else if startsWith_ci line ''Transfer-Encoding:''
      then (if toLower (trimmed (drop 18 line)) \<noteq> ''identity'' then f\<lparr>fr_haveTransferEncoding := True\<rparr> else f)
      else f)"

definition no_framing :: Framing where
  "no_framing = \<lparr>fr_contentLength = 0, fr_haveContentLength = False, fr_haveTransferEncoding = False\<rparr>"

definition read_framing :: "QtHttp \<Rightarrow> string \<Rightarrow> Framing" where
  "read_framing q head = fold (framing_line q) (split_lines (qh_utf8 q head)) no_framing"

datatype Taken = Wait | Refuse int | WebSocketUpgrade | Request string string

text \<open>A refusal is the status of the answer; a request is its bytes and what stays in the buffer.\<close>

definition refused_framing :: "Framing \<Rightarrow> string \<Rightarrow> int option" where
  "refused_framing f method =
     (if fr_haveTransferEncoding f \<and> fr_haveContentLength f then Some 400
      else if fr_haveTransferEncoding f \<and> method \<noteq> ''GET'' \<and> method \<noteq> ''HEAD'' then Some 501
      else if fr_contentLength f < 0 \<or> fr_contentLength f > MAX_BODY_BYTES then Some 413
      else None)"

definition take_request :: "QtHttp \<Rightarrow> string \<Rightarrow> Taken" where
  "take_request q buffer =
     (case cut_head buffer of
        None \<Rightarrow> if length buffer > MAX_HEADER_BYTES then Refuse 431 else Wait
      | Some (head, rest) \<Rightarrow>
          (let headerPart = qh_utf8 q head;
               f = read_framing q head;
               method = toUpper (trimmed (takeWhile (\<lambda>c. c \<noteq> CHR '' '') headerPart));
               total = length head + 4 + nat (fr_contentLength f)
           in if has_part_ci ''Upgrade: websocket'' headerPart then WebSocketUpgrade
              else case refused_framing f method of
                     Some status \<Rightarrow> Refuse status
                   | None \<Rightarrow> if length buffer < total then Wait else Request (take total buffer) (drop total buffer)))"

text \<open>\<open>onReadyReadSocket\<close>: what arrived joins the buffer of the socket, and one request at most is taken.\<close>

definition onReadyRead :: "QtHttp \<Rightarrow> string \<Rightarrow> string \<Rightarrow> string \<times> Taken" where
  "onReadyRead q buffer arrived =
     (let b = buffer @ arrived
      in case take_request q b of Request r rest \<Rightarrow> (rest, Request r rest) | t \<Rightarrow> (b, t))"

fun receive :: "QtHttp \<Rightarrow> string \<Rightarrow> string list \<Rightarrow> string \<times> Taken list" where
  "receive q b [] = (b, [])"
| "receive q b (c # cs) =
     (case onReadyRead q b c of (b', t) \<Rightarrow> case receive q b' cs of (b'', ts) \<Rightarrow> (b'', t # ts))"

section \<open>The answer\<close>

record HttpResponse =
  rs_status :: int
  rs_contentType :: string
  rs_headers :: "(string \<times> string) list"
  rs_body :: string

definition sanitizeHeaderValue :: "string \<Rightarrow> string" where
  "sanitizeHeaderValue v = filter (\<lambda>c. (of_char c :: nat) \<ge> 0x20 \<and> (of_char c :: nat) \<noteq> 0x7F) v"

text \<open>A \<open>QMap\<close> is its entries in the order of the keys.\<close>

fun qmap_insert :: "string \<Rightarrow> string \<Rightarrow> (string \<times> string) list \<Rightarrow> (string \<times> string) list" where
  "qmap_insert k v [] = [(k, v)]"
| "qmap_insert k v ((k', v') # m) =
     (if k = k' then (k, v) # m else if k < k' then (k, v) # (k', v') # m else (k', v') # qmap_insert k v m)"

definition isPlainAuthority :: "string \<Rightarrow> bool" where
  "isPlainAuthority a \<longleftrightarrow> a \<noteq> [] \<and>
     list_all (\<lambda>c. let n = (of_char c :: nat)
       in (48 \<le> n \<and> n \<le> 57) \<or> (65 \<le> n \<and> n \<le> 90) \<or> (97 \<le> n \<and> n \<le> 122) \<or>
          c \<in> {CHR ''.'', CHR ''-'', CHR '':'', CHR ''['', CHR '']''}) a"

abbreviation quoted :: "string \<Rightarrow> string" where
  "quoted w \<equiv> [CHR 0x27] @ w @ [CHR 0x27]"

definition connect_src :: "QtWeb \<Rightarrow> string \<Rightarrow> string" where
  "connect_src q hostHeader =
     (let wsOrigin = normalizeAuthority q hostHeader
      in if isPlainAuthority wsOrigin then quoted ''self'' @ '' wss://'' @ wsOrigin else quoted ''self'')"

definition content_policy :: "string \<Rightarrow> string" where
  "content_policy connectSrc =
     ''default-src '' @ quoted ''self'' @ ''; script-src '' @ quoted ''self'' @ '' '' @ quoted ''wasm-unsafe-eval'' @
     ''; style-src '' @ quoted ''self'' @ '' '' @ quoted ''unsafe-inline'' @ ''; font-src '' @ quoted ''self'' @
     ''; img-src '' @ quoted ''self'' @ '' data: blob:; connect-src '' @ connectSrc @
     ''; worker-src '' @ quoted ''self'' @ '' blob:; frame-ancestors '' @ quoted ''none'' @ ''; base-uri '' @ quoted ''self'' @
     ''; form-action '' @ quoted ''self'' @ ''; object-src '' @ quoted ''none''"

definition securityHeaders :: "QtWeb \<Rightarrow> string \<Rightarrow> (string \<times> string) list" where
  "securityHeaders q hostHeader =
     fold (\<lambda>(k, v). qmap_insert k v)
       [(''X-Content-Type-Options'', ''nosniff''), (''X-Frame-Options'', ''DENY''),
        (''Referrer-Policy'', ''strict-origin-when-cross-origin''),
        (''Content-Security-Policy'', content_policy (connect_src q hostHeader)),
        (''Strict-Transport-Security'', ''max-age=31536000; includeSubDomains; preload'')] []"

definition statusText :: "int \<Rightarrow> string" where
  "statusText s =
     (if s = 200 then ''OK'' else if s = 201 then ''Created'' else if s = 204 then ''No Content''
      else if s = 304 then ''Not Modified'' else if s = 307 then ''Temporary Redirect''
      else if s = 400 then ''Bad Request'' else if s = 401 then ''Unauthorized'' else if s = 403 then ''Forbidden''
      else if s = 404 then ''Not Found'' else if s = 405 then ''Method Not Allowed''
      else if s = 413 then ''Payload Too Large'' else if s = 415 then ''Unsupported Media Type''
      else if s = 429 then ''Too Many Requests'' else if s = 431 then ''Request Header Fields Too Large''
      else if s = 500 then ''Internal Server Error'' else if s = 501 then ''Not Implemented''
      else if s = 504 then ''Gateway Timeout'' else ''Unknown'')"

definition answer_headers :: "QtWeb \<Rightarrow> string \<Rightarrow> HttpResponse \<Rightarrow> (string \<times> string) list" where
  "answer_headers q hostHeader r =
     fold (\<lambda>(k, v). qmap_insert k v) (rs_headers r) (qmap_insert ''Connection'' ''close'' (securityHeaders q hostHeader))"

definition status_line :: "HttpResponse \<Rightarrow> string" where
  "status_line r = ''HTTP/1.1 '' @ to_string (rs_status r) @ '' '' @ statusText (rs_status r)"

definition sendResponse :: "QtWeb \<Rightarrow> HttpResponse \<Rightarrow> string \<Rightarrow> string" where
  "sendResponse q r hostHeader =
     status_line r @ CRLF @
     (if rs_contentType r \<noteq> [] then ''Content-Type: '' @ sanitizeHeaderValue (rs_contentType r) @ CRLF else []) @
     ''Content-Length: '' @ to_string (int (length (rs_body r))) @ CRLF @
     concat (map (\<lambda>(k, v). sanitizeHeaderValue k @ '': '' @ sanitizeHeaderValue v @ CRLF) (answer_headers q hostHeader r)) @
     CRLF @ rs_body r"


section \<open>Lines and their breaks\<close>

lemma grow_line_nonempty [simp]: "grow_line c ls \<noteq> []"
  by (cases ls) auto

lemma split_lines_nonempty [simp]: "split_lines s \<noteq> []"
  by (induction s rule: split_lines.induct) auto

lemma join_empty_line: "ls \<noteq> [] \<Longrightarrow> join_lines ([] # ls) = CRLF @ join_lines ls"
  by (cases ls) auto

lemma join_grow_line: "ls \<noteq> [] \<Longrightarrow> join_lines (grow_line c ls) = c # join_lines ls"
  by (cases ls; cases "tl ls") auto

lemma join_split [simp]: "join_lines (split_lines s) = s"
  by (induction s rule: split_lines.induct) (auto simp: join_empty_line join_grow_line)

lemma split_lines_one: "CR \<notin> set l \<Longrightarrow> split_lines l = [l]"
  by (induction l rule: split_lines.induct) auto

lemma split_lines_break: "CR \<notin> set l \<Longrightarrow> split_lines (l @ CR # LF # s) = l # split_lines s"
proof (induction l)
  case (Cons c l)
  then have "split_lines ((c # l) @ CR # LF # s) = grow_line c (split_lines (l @ CR # LF # s))"
    by (cases l) auto
  then show ?case using Cons by simp
qed simp

lemma split_join_lines:
  "ls \<noteq> [] \<Longrightarrow> \<forall>l \<in> set ls. CR \<notin> set l \<Longrightarrow> split_lines (join_lines ls @ CR # LF # s) = ls @ split_lines s"
  by (induction ls rule: join_lines.induct) (auto simp: split_lines_break)

lemma split_join_only: "ls \<noteq> [] \<Longrightarrow> \<forall>l \<in> set ls. CR \<notin> set l \<Longrightarrow> split_lines (join_lines ls) = ls"
  by (induction ls rule: join_lines.induct) (auto simp: split_lines_break split_lines_one)

section \<open>The end of the headers\<close>

lemma cut_head_here [simp]: "cut_head (CR # LF # CR # LF # r) = Some ([], r)"
  by simp

lemma cut_head_next: "\<not> prefix (CRLF @ CRLF) (c # s) \<Longrightarrow>
    cut_head (c # s) = (case cut_head s of None \<Rightarrow> None | Some (h, r) \<Rightarrow> Some (c # h, r))"
  unfolding cut_head.simps by (simp only: if_False)

lemma empty_line_prefix: "prefix (CRLF @ CRLF) s \<longleftrightarrow> (\<exists>r. s = CR # LF # CR # LF # r)"
  by (auto simp: prefix_def)

declare cut_head.simps(2) [simp del]

lemma cut_head_sound: "cut_head s = Some (h, r) \<Longrightarrow> s = h @ CR # LF # CR # LF # r"
proof (induction s arbitrary: h)
  case (Cons c s)
  show ?case
  proof (cases "prefix (CRLF @ CRLF) (c # s)")
    case True
    then show ?thesis using Cons.prems unfolding empty_line_prefix by auto
  next
    case False
    then show ?thesis using Cons by (auto simp: cut_head_next split: option.splits)
  qed
qed simp

lemma cut_head_append: "cut_head s = Some (h, r) \<Longrightarrow> cut_head (s @ t) = Some (h, r @ t)"
proof (induction s arbitrary: h)
  case (Cons c s)
  show ?case
  proof (cases "prefix (CRLF @ CRLF) (c # s)")
    case True
    then show ?thesis using Cons.prems unfolding empty_line_prefix by auto
  next
    case False
    obtain h' where h: "cut_head s = Some (h', r)" "h = c # h'"
      using Cons.prems False by (auto simp: cut_head_next split: option.splits)
    have "\<not> prefix (CRLF @ CRLF) ((c # s) @ t)"
      using False cut_head_sound[OF h(1)] unfolding empty_line_prefix by (cases h'; cases "tl h'"; cases "tl (tl h')") auto
    then show ?thesis using Cons.IH[OF h(1)] h(2) by (simp add: cut_head_next)
  qed
qed simp

lemma cut_head_early:
  assumes "cut_head (s @ t) = Some (h, r)" "length s < length h + 4"
  shows "cut_head s = None"
proof (rule ccontr)
  assume "cut_head s \<noteq> None"
  then obtain h' r' where c: "cut_head s = Some (h', r')" by auto
  have "h' = h" using cut_head_append[OF c, of t] assms(1) by simp
  then show False using cut_head_sound[OF c] assms(2) by simp
qed

lemma cut_head_line: "CR \<notin> set l \<Longrightarrow>
    cut_head (l @ s) = (case cut_head s of None \<Rightarrow> None | Some (h, r) \<Rightarrow> Some (l @ h, r))"
  by (induction l) (auto simp: cut_head_next split: option.splits)

lemma cut_head_break:
  "\<not> prefix CRLF s \<Longrightarrow> cut_head (CR # LF # s) = (case cut_head s of None \<Rightarrow> None | Some (h, r) \<Rightarrow> Some (CRLF @ h, r))"
  by (cases s) (auto simp: cut_head_next split: option.splits)

lemma cut_head_lines:
  "ls \<noteq> [] \<Longrightarrow> \<forall>l \<in> set ls. CR \<notin> set l \<and> l \<noteq> [] \<Longrightarrow>
    cut_head (join_lines ls @ CRLF @ CRLF @ body) = Some (join_lines ls, body)"
proof (induction ls rule: join_lines.induct)
  case (2 l)
  then show ?case by (simp add: cut_head_line)
next
  case (3 l m ls)
  have "\<not> prefix CRLF (join_lines (m # ls) @ CRLF @ CRLF @ body)"
    using 3(3) by (cases m; cases ls) auto
  then show ?case using 3 by (simp add: cut_head_line cut_head_break)
qed simp

section \<open>A request as it is written\<close>

definition header_line :: "string \<times> string \<Rightarrow> string" where
  "header_line = (\<lambda>(k, v). k @ '': '' @ v)"

definition request_head :: "string \<Rightarrow> string \<Rightarrow> (string \<times> string) list \<Rightarrow> string list" where
  "request_head m t hs = (m @ CHR '' '' # t @ '' HTTP/1.1'') # map header_line hs"

definition request_text :: "string \<Rightarrow> string \<Rightarrow> (string \<times> string) list \<Rightarrow> string \<Rightarrow> string" where
  "request_text m t hs body = join_lines (request_head m t hs) @ CRLF @ CRLF @ body"

text \<open>A method and a target of one word each, and header fields of one line each with a name before the colon.\<close>

definition written :: "string \<Rightarrow> string \<Rightarrow> (string \<times> string) list \<Rightarrow> bool" where
  "written m t hs \<longleftrightarrow> toUpper m = m \<and> CHR '' '' \<notin> set m \<and> CHR '':'' \<notin> set m \<and> CR \<notin> set m \<and>
     CHR '' '' \<notin> set t \<and> CR \<notin> set t \<and>
     (\<forall>(k, v) \<in> set hs. k \<noteq> [] \<and> CHR '':'' \<notin> set k \<and> CR \<notin> set k \<and> CR \<notin> set v)"

definition declared_length :: "QtHttp \<Rightarrow> (string \<times> string) list \<Rightarrow> int option" where
  "declared_length q hs = (case map_of (map (\<lambda>(k, v). (toLower k, v)) hs) ''content-length'' of
     None \<Rightarrow> Some 0 | Some v \<Rightarrow> qh_toInt q (trimmed v))"

definition framed :: "QtHttp \<Rightarrow> string \<Rightarrow> string \<Rightarrow> (string \<times> string) list \<Rightarrow> string \<Rightarrow> bool" where
  "framed q m t hs body \<longleftrightarrow> declared_length q hs = Some (int (length body)) \<and> int (length body) \<le> MAX_BODY_BYTES \<and>
     map_of (map (\<lambda>(k, v). (toLower k, v)) hs) ''transfer-encoding'' = None \<and>
     \<not> has_part_ci ''Upgrade: websocket'' (join_lines (request_head m t hs)) \<and>
     qh_utf8 q (join_lines (request_head m t hs)) = join_lines (request_head m t hs)"

lemma writtenD:
  assumes "written m t hs"
  shows "toUpper m = m" "CHR '' '' \<notin> set m" "CHR '':'' \<notin> set m" "CR \<notin> set m" "CHR '' '' \<notin> set t" "CR \<notin> set t"
    "\<forall>(k, v) \<in> set hs. k \<noteq> [] \<and> CHR '':'' \<notin> set k \<and> CR \<notin> set k \<and> CR \<notin> set v"
  using assms unfolding written_def by argo+

lemma request_head_plain:
  assumes "written m t hs"
  shows "\<forall>l \<in> set (request_head m t hs). CR \<notin> set l \<and> l \<noteq> []"
proof -
  have "CR \<notin> set (m @ CHR '' '' # t @ '' HTTP/1.1'')" using writtenD(4,6)[OF assms] by simp
  moreover have "CR \<notin> set (header_line kv) \<and> header_line kv \<noteq> []" if "kv \<in> set hs" for kv
    using that writtenD(7)[OF assms] by (auto simp: header_line_def)
  ultimately show ?thesis by (simp add: request_head_def)
qed

lemma cut_request: "written m t hs \<Longrightarrow> cut_head (request_text m t hs body) = Some (join_lines (request_head m t hs), body)"
  unfolding request_text_def by (rule cut_head_lines) (use request_head_plain in \<open>auto simp: request_head_def\<close>)

lemma lower_colon [simp]: "lower c = CHR '':'' \<longleftrightarrow> c = CHR '':''"
  by (rule lower_char)


lemma name_of:
  assumes "CHR '':'' \<notin> set w"
  shows "startsWith_ci s (w @ '':'') \<longleftrightarrow> CHR '':'' \<in> set s \<and> toLower (takeWhile (\<lambda>c. c \<noteq> CHR '':'') s) = toLower w"
  using assms
proof (induction w arbitrary: s)
  case Nil
  have "lower CHR '':'' = CHR '':''" by simp
  then show ?case by (cases s) (auto simp: startsWith_ci_def toLower_def simp del: lower_colon, auto)
next
  case (Cons x w)
  show ?case
  proof (cases s)
    case (Cons c s')
    have "lower c = lower x \<Longrightarrow> c \<noteq> CHR '':''" using Cons.prems by (metis list.set_intros(1) lower_colon)
    then show ?thesis using Cons.IH[of s'] Cons.prems Cons by (auto simp: startsWith_ci_def toLower_def)
  qed (simp add: startsWith_ci_def)
qed

lemma trimmed_blank: "trimmed (CHR '' '' # v) = trimmed v"
  by (simp add: trimmed_def isSpace_def)

lemma read_header_line:
  "k \<noteq> [] \<Longrightarrow> CHR '':'' \<notin> set k \<Longrightarrow> read_header hs (header_line (k, v)) = hs(toLower (trimmed k) \<mapsto> trimmed v)"
  by (simp add: read_header_def header_line_def takeWhile_until trimmed_blank)

lemma read_headers_lines:
  "\<forall>(k, v) \<in> set hs. k \<noteq> [] \<and> CHR '':'' \<notin> set k \<Longrightarrow>
   read_headers m (map header_line hs @ [] # rest) =
     (m ++ map_of (rev (map (\<lambda>(k, v). (toLower (trimmed k), trimmed v)) hs)), Some rest)"
proof (induction hs arbitrary: m)
  case (Cons kv hs)
  obtain k v where kv: "kv = (k, v)" by (cases kv)
  have "header_line kv \<noteq> []" by (simp add: header_line_def kv)
  then show ?case using Cons kv by (simp add: read_header_line map_add_upd_left)
qed simp

lemma read_query_keeps [simp]:
  "pq_method (read_query items r) = pq_method r" "pq_path (read_query items r) = pq_path r"
  "pq_headers (read_query items r) = pq_headers r" "pq_body (read_query items r) = pq_body r"
  by (induction items arbitrary: r) (auto simp: read_query_def split: prod.splits)

lemma read_request_line_word:
  assumes "written m t hs"
  shows "read_request_line q (m @ CHR '' '' # t @ '' HTTP/1.1'') =
    (let path = (if fst (qh_url q t) = [] then ''/'' else fst (qh_url q t))
     in read_query (snd (qh_url q t)) (blank_request\<lparr>pq_method := m, pq_path := path, pq_malformed := hasControlChars path\<rparr>))"
proof -
  have "splitOn CHR '' '' (m @ CHR '' '' # t @ '' HTTP/1.1'') = m # t # splitOn CHR '' '' ''HTTP/1.1''"
    using writtenD[OF assms] by (simp add: splitOn_append splitOn_none)
  then show ?thesis unfolding read_request_line_def using writtenD(1)[OF assms] by simp
qed

section \<open>How much is read\<close>

lemma framing_names:
  "toLower ''Content-Length'' = ''content-length''" "toLower ''Transfer-Encoding'' = ''transfer-encoding''"
  by code_simp+

lemma framing_of_header:
  assumes "CHR '':'' \<notin> set k"
  shows "framing_line q (header_line (k, v)) f =
    (if \<not> fr_haveContentLength f \<and> toLower k = ''content-length''
     then f\<lparr>fr_contentLength := (case qh_toInt q (trimmed v) of Some n \<Rightarrow> n | None \<Rightarrow> 0), fr_haveContentLength := True\<rparr>
     else if toLower k = ''transfer-encoding'' \<and> toLower (trimmed v) \<noteq> ''identity''
     then f\<lparr>fr_haveTransferEncoding := True\<rparr> else f)"
proof -
  have n: "takeWhile (\<lambda>c. c \<noteq> CHR '':'') (header_line (k, v)) = k" and c: "CHR '':'' \<in> set (header_line (k, v))"
    using assms by (simp_all add: header_line_def takeWhile_until)
  have cl: "startsWith_ci (header_line (k, v)) ''Content-Length:'' \<longleftrightarrow> toLower k = ''content-length''"
    using name_of[of "''Content-Length''" "header_line (k, v)"] n c by (simp add: framing_names)
  have te: "startsWith_ci (header_line (k, v)) ''Transfer-Encoding:'' \<longleftrightarrow> toLower k = ''transfer-encoding''"
    using name_of[of "''Transfer-Encoding''" "header_line (k, v)"] n c by (simp add: framing_names)
  have "drop 15 (header_line (k, v)) = CHR '' '' # v" if "toLower k = ''content-length''"
    using arg_cong[OF that, of length] by (simp add: header_line_def toLower_def)
  moreover have "drop 18 (header_line (k, v)) = CHR '' '' # v" if "toLower k = ''transfer-encoding''"
    using arg_cong[OF that, of length] by (simp add: header_line_def toLower_def)
  ultimately show ?thesis unfolding framing_line_def cl te by (simp add: trimmed_blank)
qed

lemma framing_of_headers:
  assumes "\<forall>(k, v) \<in> set hs. CHR '':'' \<notin> set k" "map_of (map (\<lambda>(k, v). (toLower k, v)) hs) ''transfer-encoding'' = None"
  shows "fold (framing_line q) (map header_line hs) f =
    (if fr_haveContentLength f then f else
       case map_of (map (\<lambda>(k, v). (toLower k, v)) hs) ''content-length'' of None \<Rightarrow> f
       | Some v \<Rightarrow> f\<lparr>fr_contentLength := (case qh_toInt q (trimmed v) of Some n \<Rightarrow> n | None \<Rightarrow> 0),
                     fr_haveContentLength := True\<rparr>)"
  using assms
proof (induction hs arbitrary: f)
  case (Cons kv hs)
  obtain k v where kv: "kv = (k, v)" by (cases kv)
  have "toLower k \<noteq> ''transfer-encoding''" using Cons.prems(2) kv by (auto split: if_splits)
  then show ?case using Cons kv by (simp add: framing_of_header)
qed simp

lemma framing_of_request_line:
  assumes "written m t hs"
  shows "framing_line q (m @ CHR '' '' # t @ '' HTTP/1.1'') f = f"
proof -
  let ?l = "m @ CHR '' '' # t @ '' HTTP/1.1''"
  have "lower CHR '' '' \<in> set (toLower (takeWhile (\<lambda>c. c \<noteq> CHR '':'') ?l))"
    using writtenD(3)[OF assms] by (auto simp: takeWhile_append toLower_def)
  then have no: "\<not> startsWith_ci ?l (w @ '':'')" if "CHR '':'' \<notin> set w" "lower CHR '' '' \<notin> set (toLower w)" for w
    using name_of[OF that(1), of ?l] that(2) by auto
  have "\<not> startsWith_ci ?l (''Content-Length'' @ '':'')" "\<not> startsWith_ci ?l (''Transfer-Encoding'' @ '':'')"
    by (rule no; code_simp)+
  then show ?thesis by (simp add: framing_line_def)
qed

lemma no_framing_unset [simp]: "\<not> fr_haveContentLength no_framing" "\<not> fr_haveTransferEncoding no_framing"
  by (simp_all add: no_framing_def)

lemma read_framing_eq:
  assumes "written m t hs" "map_of (map (\<lambda>(k, v). (toLower k, v)) hs) ''transfer-encoding'' = None"
    "qh_utf8 q (join_lines (request_head m t hs)) = join_lines (request_head m t hs)"
  shows "read_framing q (join_lines (request_head m t hs)) =
      (case map_of (map (\<lambda>(k, v). (toLower k, v)) hs) ''content-length'' of None \<Rightarrow> no_framing
       | Some v \<Rightarrow> no_framing\<lparr>fr_contentLength := (case qh_toInt q (trimmed v) of Some n \<Rightarrow> n | None \<Rightarrow> 0),
                             fr_haveContentLength := True\<rparr>)"
proof -
  have "split_lines (join_lines (request_head m t hs)) = request_head m t hs"
    by (rule split_join_only) (use request_head_plain[OF assms(1)] in \<open>auto simp: request_head_def\<close>)
  moreover have "\<forall>(k, v) \<in> set hs. CHR '':'' \<notin> set k" using writtenD(7)[OF assms(1)] by auto
  ultimately show ?thesis using assms framing_of_headers[of hs q no_framing]
    by (simp add: read_framing_def request_head_def framing_of_request_line)
qed

lemma read_framing_of:
  assumes "written m t hs" "framed q m t hs body"
  shows "fr_contentLength (read_framing q (join_lines (request_head m t hs))) = int (length body)"
    "\<not> fr_haveTransferEncoding (read_framing q (join_lines (request_head m t hs)))"
  using assms(2) read_framing_eq[OF assms(1), of q] unfolding framed_def declared_length_def
  by (auto simp: no_framing_def split: option.splits)

lemma take_whole:
  assumes "written m t hs" "framed q m t hs body"
  shows "take_request q (request_text m t hs body) = Request (request_text m t hs body) []"
  using assms read_framing_of[OF assms] 
  by (simp add: take_request_def cut_request framed_def refused_framing_def Let_def) (simp add: request_text_def)

lemma take_part:
  assumes "written m t hs" "framed q m t hs body" "length (join_lines (request_head m t hs)) + 3 \<le> MAX_HEADER_BYTES"
    "request_text m t hs body = p @ s" "s \<noteq> []"
  shows "take_request q p = Wait"
proof (cases "cut_head p")
  case None
  have "length p \<le> length (join_lines (request_head m t hs)) + 3"
  proof (rule ccontr)
    assume "\<not> ?thesis"
    then have "length (join_lines (request_head m t hs) @ CRLF @ CRLF) \<le> length p" by simp
    moreover have "(join_lines (request_head m t hs) @ CRLF @ CRLF) @ body = p @ s"
      using assms(4) by (simp add: request_text_def)
    ultimately obtain u where "p = (join_lines (request_head m t hs) @ CRLF @ CRLF) @ u"
      using prefix_length_prefix[of "join_lines (request_head m t hs) @ CRLF @ CRLF" "p @ s" p]
      by (metis prefixI prefixE)
    then show False using cut_request[OF assms(1), of u] None by (simp add: request_text_def)
  qed
  then show ?thesis using None assms(3) by (simp add: take_request_def)
next
  case (Some hr)
  obtain h r where hr: "hr = (h, r)" by (cases hr)
  have h: "h = join_lines (request_head m t hs)" "body = r @ s"
    using cut_head_append[of p h r s] Some hr cut_request[OF assms(1), of body] assms(4) by simp_all
  have "length p < length h + 4 + length body"
    using h assms(5) cut_head_sound[of p h r] Some hr by simp
  then show ?thesis using Some hr h assms(2) read_framing_of[OF assms(1,2)]
    by (simp add: take_request_def framed_def refused_framing_def Let_def)
qed

lemma receive_parts:
  assumes "written m t hs" "framed q m t hs body" "length (join_lines (request_head m t hs)) + 3 \<le> MAX_HEADER_BYTES"
    "request_text m t hs body = p @ concat cs @ c" "c \<noteq> []"
  shows "receive q p (cs @ [c]) = ([], replicate (length cs) Wait @ [Request (request_text m t hs body) []])"
  using assms(4)
proof (induction cs arbitrary: p)
  case Nil
  then show ?case using take_whole[OF assms(1,2)] by (simp add: onReadyRead_def)
next
  case (Cons d cs)
  then have "take_request q (p @ d) = Wait"
    by (intro take_part[OF assms(1-3), where s = "concat cs @ c"]) (use assms(5) in auto)
  then show ?case using Cons by (simp add: onReadyRead_def)
qed

lemma parse_text:
  assumes "written m t hs" "qh_utf8 q (request_text m t hs body) = request_text m t hs body"
  shows "let r = parse q (request_text m t hs body) in
    pq_method r = m \<and> pq_path r = (if fst (qh_url q t) = [] then ''/'' else fst (qh_url q t)) \<and>
    pq_headers r = map_of (rev (map (\<lambda>(k, v). (toLower (trimmed k), trimmed v)) hs)) \<and> pq_body r = body"
proof -
  have "split_lines (request_text m t hs body) = request_head m t hs @ [] # split_lines body"
    using split_join_lines[of "request_head m t hs" "CRLF @ body"] request_head_plain[OF assms(1)]
      split_lines_break[of "[]" body] by (simp add: request_text_def request_head_def)
  moreover have "\<forall>(k, v) \<in> set hs. k \<noteq> [] \<and> CHR '':'' \<notin> set k" using writtenD(7)[OF assms(1)] by auto
  ultimately show ?thesis using assms(2)
    by (simp add: parse_def Let_def read_headers_lines request_head_def read_request_line_word[OF assms(1), unfolded Let_def] blank_request_def)
qed

section \<open>What an answer looks like\<close>

lemma no_break_sanitized [simp]: "CR \<notin> set (sanitizeHeaderValue v)"
  by (simp add: sanitizeHeaderValue_def)

lemma digits_plain: "c \<in> set (digits n) \<Longrightarrow> 48 \<le> (of_char c :: nat)"
proof (induction n rule: digits.induct)
  case (1 n)
  then show ?case by (subst (asm) digits.simps) (auto split: if_splits)
qed

lemma to_string_plain [simp]: "CR \<notin> set (to_string n)"
  using digits_plain[of CR] by (auto simp: to_string_def)

lemma status_plain [simp]: "CR \<notin> set (statusText s)"
  by (simp add: statusText_def)

definition answer_lines :: "QtWeb \<Rightarrow> HttpResponse \<Rightarrow> string \<Rightarrow> string list" where
  "answer_lines q r hostHeader =
     status_line r #
     (if rs_contentType r \<noteq> [] then [''Content-Type: '' @ sanitizeHeaderValue (rs_contentType r)] else []) @
     (''Content-Length: '' @ to_string (int (length (rs_body r)))) #
     map (\<lambda>(k, v). sanitizeHeaderValue k @ '': '' @ sanitizeHeaderValue v) (answer_headers q hostHeader r)"

lemma join_lines_concat: "ls \<noteq> [] \<Longrightarrow> join_lines ls @ CRLF @ s = concat (map (\<lambda>l. l @ CRLF) ls) @ s"
  by (induction ls rule: join_lines.induct) auto

lemma sendResponse_lines: "sendResponse q r h = join_lines (answer_lines q r h) @ CRLF @ CRLF @ rs_body r"
proof -
  have "answer_lines q r h \<noteq> []" by (simp add: answer_lines_def)
  then have "join_lines (answer_lines q r h) @ CRLF @ CRLF @ rs_body r =
      concat (map (\<lambda>l. l @ CRLF) (answer_lines q r h)) @ CRLF @ rs_body r"
    by (rule join_lines_concat)
  then show ?thesis by (simp add: sendResponse_def answer_lines_def comp_def case_prod_unfold)
qed

lemma answer_lines_plain: "\<forall>l \<in> set (answer_lines q r h). CR \<notin> set l \<and> l \<noteq> []"
  by (auto simp: answer_lines_def status_line_def)

section \<open>What holds\<close>

text \<open>C20. A request arrives as it was written. However the network cuts its bytes into parts, the server waits until
  the last byte, then takes the request, once and whole; and what the parser hands on is the method, the target's path,
  every header under its lowered name (the last of two that share one), and the body byte for byte, with whatever line
  breaks it holds. It has to be valid UTF-8, declare its length, and keep its headers within the cap.\<close>

theorem request_read_as_written:
  assumes "written m t hs" "framed q m t hs body" "qh_utf8 q (request_text m t hs body) = request_text m t hs body"
    and "length (join_lines (request_head m t hs)) + 3 \<le> MAX_HEADER_BYTES"
    and "request_text m t hs body = concat cs @ c" "c \<noteq> []"
  shows "receive q [] (cs @ [c]) = ([], replicate (length cs) Wait @ [Request (request_text m t hs body) []]) \<and>
    (let r = parse q (request_text m t hs body) in
      pq_method r = m \<and> pq_path r = (if fst (qh_url q t) = [] then ''/'' else fst (qh_url q t)) \<and>
      pq_headers r = map_of (rev (map (\<lambda>(k, v). (toLower (trimmed k), trimmed v)) hs)) \<and> pq_body r = body)"
  using receive_parts[OF assms(1,2,4), of "[]" cs c] parse_text[OF assms(1,3)] assms(5,6) by simp_all

text \<open>A small Qt for the examples: every text is valid, a target is its path, numbers are decimal.\<close>

definition toy_toInt :: "string \<Rightarrow> int option" where
  "toy_toInt s = (if s \<noteq> [] \<and> list_all (\<lambda>c. 48 \<le> (of_char c :: nat) \<and> (of_char c :: nat) \<le> 57) s \<and> length s \<le> 9
     then Some (foldl (\<lambda>a c. 10 * a + (of_char c - 48)) 0 s) else None)"

definition toy_http :: QtHttp where
  "toy_http = \<lparr>qh_utf8 = id, qh_url = (\<lambda>t. (t, [])), qh_toInt = toy_toInt\<rparr>"

definition toy_fields :: "(string \<times> string) list" where
  "toy_fields = [(''Host'', ''pc''), (''CONTENT-Length'', ''5'')]"

lemma has_part_ci_chars: "has_part_ci p s \<Longrightarrow> set (toLower p) \<subseteq> set (toLower s)"
proof (induction s)
  case (Cons c s)
  have "set (toLower p) \<subseteq> set (toLower (c # s))" if "startsWith_ci (c # s) p"
    using that unfolding startsWith_ci_def toLower_def by (metis set_take_subset take_map)
  then show ?case using Cons by (auto simp: toLower_def)
qed simp

lemma no_upgrade: "CHR ''w'' \<notin> set (toLower s) \<Longrightarrow> \<not> has_part_ci ''Upgrade: websocket'' s"
proof -
  have "CHR ''w'' \<in> set (toLower ''Upgrade: websocket'')" by code_simp
  then show "CHR ''w'' \<notin> set (toLower s) \<Longrightarrow> \<not> has_part_ci ''Upgrade: websocket'' s"
    using has_part_ci_chars by blast
qed

lemma toy_written: "written ''POST'' ''/q'' toy_fields"
  by code_simp

lemma toy_framed: "framed toy_http ''POST'' ''/q'' toy_fields (''a'' @ CRLF @ ''bc'')"
  unfolding framed_def by (intro conjI no_upgrade; code_simp)

theorem request_read_as_written_witness:
  "receive toy_http [] ([''POST /q HTTP/1.1'' @ CRLF @ ''Ho'', ''st: pc'' @ CRLF @ ''CONTENT-Length: 5'' @ CRLF @ [CR]]
       @ [LF # ''a'' @ CRLF @ ''bc'']) =
     ([], replicate 2 Wait @ [Request (request_text ''POST'' ''/q'' toy_fields (''a'' @ CRLF @ ''bc'')) []]) \<and>
   pq_body (parse toy_http (request_text ''POST'' ''/q'' toy_fields (''a'' @ CRLF @ ''bc''))) = ''a'' @ CRLF @ ''bc''"
proof -
  have "length (join_lines (request_head ''POST'' ''/q'' toy_fields)) + 3 \<le> MAX_HEADER_BYTES"
    "request_text ''POST'' ''/q'' toy_fields (''a'' @ CRLF @ ''bc'') =
      concat [''POST /q HTTP/1.1'' @ CRLF @ ''Ho'', ''st: pc'' @ CRLF @ ''CONTENT-Length: 5'' @ CRLF @ [CR]] @ (LF # ''a'' @ CRLF @ ''bc'')"
    by code_simp+
  moreover have "qh_utf8 toy_http s = s" for s by (simp add: toy_http_def)
  ultimately show ?thesis
    using request_read_as_written[OF toy_written toy_framed, of "[''POST /q HTTP/1.1'' @ CRLF @ ''Ho'', ''st: pc'' @ CRLF @ ''CONTENT-Length: 5'' @ CRLF @ [CR]]" "LF # ''a'' @ CRLF @ ''bc''"]
    by (simp only: Let_def list.size simp_thms) (simp only: list.distinct simp_thms numeral_2_eq_2 One_nat_def plus_nat.simps add_0_right add_Suc_right)
qed

text \<open>A Content-Length that is no \<open>int\<close> counts as 0: a request that declares 3 GB is taken with an empty body, and its
  body stays in the buffer. The comment above the check for 413 says that oversized and malformed bodies are refused there.\<close>

theorem unreadable_length_is_zero:
  assumes "written m t hs" "map_of (map (\<lambda>(k, v). (toLower k, v)) hs) ''content-length'' = Some v" "qh_toInt q (trimmed v) = None"
    and "map_of (map (\<lambda>(k, v). (toLower k, v)) hs) ''transfer-encoding'' = None"
    and "\<not> has_part_ci ''Upgrade: websocket'' (join_lines (request_head m t hs))"
    and "qh_utf8 q (join_lines (request_head m t hs)) = join_lines (request_head m t hs)"
  shows "take_request q (request_text m t hs body) = Request (request_text m t hs []) body"
proof -
  have "fr_contentLength (read_framing q (join_lines (request_head m t hs))) = 0"
    "\<not> fr_haveTransferEncoding (read_framing q (join_lines (request_head m t hs)))"
    using assms(2,3) read_framing_eq[OF assms(1,4,6)] by (simp_all add: no_framing_def)
  then show ?thesis using assms(5,6) cut_request[OF assms(1), of body]
    by (simp add: take_request_def refused_framing_def MAX_BODY_BYTES_def Let_def) (simp add: request_text_def)
qed

theorem unreadable_length_is_zero_witness:
  "take_request toy_http (request_text ''POST'' ''/q'' [(''Content-Length'', ''3000000000'')] ''body'') =
     Request (request_text ''POST'' ''/q'' [(''Content-Length'', ''3000000000'')] []) ''body''"
  by (rule unreadable_length_is_zero[where v = "''3000000000''"]; (rule no_upgrade)?; code_simp)

text \<open>C21. No header can be smuggled into an answer: whatever a handler puts in a header's name or value, whatever Host
  the request claimed, a reader that looks for the first empty line finds exactly the body, and before it exactly one line
  for the status, one for each entity header and one for each field the server set.\<close>

theorem answer_not_split:
  "cut_head (sendResponse q r h) = Some (join_lines (answer_lines q r h), rs_body r) \<and>
   split_lines (join_lines (answer_lines q r h)) = answer_lines q r h"
proof -
  have ne: "answer_lines q r h \<noteq> []" by (simp add: answer_lines_def)
  show ?thesis unfolding sendResponse_lines
    using cut_head_lines[OF ne answer_lines_plain] split_join_only[OF ne] answer_lines_plain by blast
qed

lemma length_splitOn: "length (splitOn c s) = Suc (length (filter (\<lambda>x. x = c) s))"
  by (induction s) auto

lemma policy_split:
  assumes "CHR '';'' \<notin> set s"
  shows "splitOn CHR '';'' (content_policy s) = (splitOn CHR '';'' (content_policy []))[5 := '' connect-src '' @ s]"
proof -
  define a where "a = ''default-src '' @ quoted ''self'' @ ''; script-src '' @ quoted ''self'' @ '' '' @ quoted ''wasm-unsafe-eval'' @
     ''; style-src '' @ quoted ''self'' @ '' '' @ quoted ''unsafe-inline'' @ ''; font-src '' @ quoted ''self'' @
     ''; img-src '' @ quoted ''self'' @ '' data: blob:''"
  define b where "b = '' worker-src '' @ quoted ''self'' @ '' blob:; frame-ancestors '' @ quoted ''none'' @ ''; base-uri '' @ quoted ''self'' @
     ''; form-action '' @ quoted ''self'' @ ''; object-src '' @ quoted ''none''"
  have p: "content_policy s = a @ CHR '';'' # ('' connect-src '' @ s) @ CHR '';'' # b" for s
    by (simp add: content_policy_def a_def b_def)
  have len: "length (splitOn CHR '';'' a) = 5"
    unfolding a_def length_splitOn by simp
  have "splitOn CHR '';'' (content_policy s) = splitOn CHR '';'' a @ ('' connect-src '' @ s) # splitOn CHR '';'' b"
    if "CHR '';'' \<notin> set s" for s
    unfolding p splitOn_append using splitOn_none[of "CHR '';''" "'' connect-src '' @ s"] that by simp
  from this[OF assms] this[of "[]"] show ?thesis using len by (simp add: list_update_append)
qed

lemma plain_authority_no_semicolon: "isPlainAuthority s \<Longrightarrow> CHR '';'' \<notin> set s"
  by (auto simp: isPlainAuthority_def list_all_iff Let_def)

text \<open>The Host of a request reaches the page's content policy in one place and cannot leave it: the policy's
  directives are the server's own, one for one, and connect-src names this origin alone, or this origin and a WebSocket
  back to the host the page was asked under.\<close>

theorem host_stays_in_its_directive:
  "splitOn CHR '';'' (content_policy (connect_src q h)) =
     (splitOn CHR '';'' (content_policy []))[5 := '' connect-src '' @ connect_src q h] \<and>
   (connect_src q h = quoted ''self'' \<or>
    connect_src q h = quoted ''self'' @ '' wss://'' @ normalizeAuthority q h \<and> isPlainAuthority (normalizeAuthority q h))"
proof -
  have "CHR '';'' \<notin> set (connect_src q h)"
    using plain_authority_no_semicolon by (auto simp: connect_src_def Let_def)
  from policy_split[OF this] show ?thesis by (simp only:) (simp add: connect_src_def Let_def)
qed

end
