(* ===== verification/Static_Files.thy ===== *)
theory Static_Files
  imports Http_Parser "HOL-Library.Multiset"
begin

text \<open>
  The files of the application: \<open>StaticFileHandler\<close> (\<open>src/server/StaticFileHandler.h\<close> and \<open>.cpp\<close>). The disk is what
  \<open>QFileInfo\<close> says of a path, a map; the HTTP date of a moment and the JSON of an error are Qt's, two fields of the
  handler's state. The version is taken to hold no place marker of \<open>QString::arg\<close>. The fingerprint over all files is not
  modelled.
\<close>

record FileEntry =
  fe_isFile :: bool
  fe_canonical :: string
  fe_modified :: int
  fe_content :: string
  fe_readable :: bool

record StaticFileHandler =
  sf_RootDir :: string
  sf_Version :: string
  sf_isDev :: bool
  sf_disk :: "string \<rightharpoonup> FileEntry"
  sf_httpDate :: "int \<Rightarrow> string"
  sf_errorJson :: "string \<Rightarrow> int \<Rightarrow> string"

definition http_error :: "(string \<Rightarrow> int \<Rightarrow> string) \<Rightarrow> int \<Rightarrow> string \<Rightarrow> HttpResponse" where
  "http_error json status message =
     \<lparr>rs_status = status, rs_contentType = ''application/json'', rs_headers = [], rs_body = json message status\<rparr>"

section \<open>Names\<close>

definition kSwappedIcons :: "string list" where
  "kSwappedIcons = [''assets/favicon.ico'', ''assets/icon-180.png'', ''assets/icon-192.png'', ''assets/icon-512.png'']"

definition servedPath :: "StaticFileHandler \<Rightarrow> string \<Rightarrow> string" where
  "servedPath h relative =
     (if \<not> sf_isDev h \<or> relative \<notin> set kSwappedIcons then relative
      else let swapped = ''assets/dev/'' @ drop 7 relative
           in if sf_disk h (sf_RootDir h @ swapped) \<noteq> None then swapped else relative)"

definition file_suffix :: "string \<Rightarrow> string" where
  "file_suffix path =
     (let name = last (splitOn CHR ''/'' path)
      in if CHR ''.'' \<in> set name then last (splitOn CHR ''.'' name) else [])"

definition mimeType :: "string \<Rightarrow> string" where
  "mimeType ext =
     (case map_of
        [(''html'', ''text/html; charset=utf-8''), (''css'', ''text/css; charset=utf-8''),
         (''js'', ''application/javascript; charset=utf-8''), (''json'', ''application/json''),
         (''webmanifest'', ''application/manifest+json''), (''png'', ''image/png''), (''jpg'', ''image/jpeg''),
         (''jpeg'', ''image/jpeg''), (''gif'', ''image/gif''), (''svg'', ''image/svg+xml''), (''ico'', ''image/x-icon''),
         (''woff'', ''font/woff''), (''woff2'', ''font/woff2''), (''ttf'', ''font/ttf''), (''map'', ''application/json'')]
        (toLower ext) of
        Some t \<Rightarrow> t | None \<Rightarrow> ''application/octet-stream'')"

text \<open>\<open>QByteArray::replace\<close>: every occurrence, from the left; the number counts the characters of a match still to skip.\<close>

fun replace_all :: "string \<Rightarrow> string \<Rightarrow> nat \<Rightarrow> string \<Rightarrow> string" where
  "replace_all pat rep k [] = []"
| "replace_all pat rep (Suc k) (c # s) = replace_all pat rep k s"
| "replace_all pat rep 0 (c # s) =
     (if prefix pat (c # s) then rep @ replace_all pat rep (length pat - 1) s else c # replace_all pat rep 0 s)"

section \<open>Serving\<close>

definition etag_of :: "StaticFileHandler \<Rightarrow> FileEntry \<Rightarrow> string" where
  "etag_of h f = [CHR 0x22] @ sf_Version h @ ''-'' @ to_string (fe_modified f) @ ''-'' @
     to_string (int (length (fe_content f))) @ [CHR 0x22]"

definition served_body :: "StaticFileHandler \<Rightarrow> string \<Rightarrow> string \<Rightarrow> string" where
  "served_body h ext content =
     (let content = (if ext = ''html'' then replace_all ''__MW_VERSION__'' (sf_Version h) 0 content else content)
      in if ext = ''webmanifest'' \<and> sf_isDev h
         then replace_all ([CHR 0x22] @ ''MoonlightWeb'' @ [CHR 0x22]) ([CHR 0x22] @ ''MoonlightWebDev'' @ [CHR 0x22]) 0 content
         else content)"

definition no_cache :: string where
  "no_cache = ''no-cache, must-revalidate''"

definition file_answer :: "StaticFileHandler \<Rightarrow> string \<Rightarrow> FileEntry \<Rightarrow> HttpResponse" where
  "file_answer h ext f =
     (let headers = qmap_insert ''Last-Modified'' (sf_httpDate h (fe_modified f)) (qmap_insert ''ETag'' (etag_of h f) [])
      in \<lparr>rs_status = 200, rs_contentType = mimeType ext,
          rs_headers = (if ext = ''html'' \<or> ext = ''css'' \<or> ext = ''js'' \<or> ext = ''webmanifest'' \<or> ext = ''json''
                        then qmap_insert ''Cache-Control'' no_cache headers else headers),
          rs_body = served_body h ext (fe_content f)\<rparr>)"

definition safe_path :: "string \<Rightarrow> string" where
  "safe_path requestPath =
     (let p = (if requestPath = ''/'' \<or> requestPath = [] then ''/index.html'' else requestPath)
      in if prefix ''/'' p then drop 1 p else p)"

definition serveFile :: "StaticFileHandler \<Rightarrow> string \<Rightarrow> string \<Rightarrow> HttpResponse" where
  "serveFile h requestPath ifNoneMatch =
     (if has_part ''..'' requestPath then http_error (sf_errorJson h) 403 ''Forbidden''
      else let safePath = safe_path requestPath;
               filePath = sf_RootDir h @ servedPath h safePath
           in case sf_disk h filePath of
                None \<Rightarrow> http_error (sf_errorJson h) 404 (''File not found: '' @ safePath)
              | Some f \<Rightarrow>
                  if \<not> fe_isFile f then http_error (sf_errorJson h) 404 (''File not found: '' @ safePath)
                  else if \<not> prefix (sf_RootDir h) (fe_canonical f) then http_error (sf_errorJson h) 403 ''Forbidden''
                  else if ifNoneMatch \<noteq> [] \<and> has_part (etag_of h f) ifNoneMatch
                  then \<lparr>rs_status = 304, rs_contentType = [],
                        rs_headers = qmap_insert ''Cache-Control'' no_cache (qmap_insert ''ETag'' (etag_of h f) []),
                        rs_body = []\<rparr>
                  else if \<not> fe_readable f then http_error (sf_errorJson h) 500 ''Failed to read file''
                  else file_answer h (toLower (file_suffix filePath)) f)"

section \<open>What the application is made of\<close>

definition kDevOnlyDirs :: "string list" where
  "kDevOnlyDirs = [''node_modules'', ''test'', ''scripts'', ''build'', ''coverage'', ''.claude'']"

definition listed :: "string \<Rightarrow> bool" where
  "listed relative \<longleftrightarrow>
     (let segments = splitOn CHR ''/'' relative
      in \<not> list_ex (prefix ''.'') segments \<and> hd segments \<notin> set kDevOnlyDirs \<and>
         \<not> (length segments > 1 \<and> segments ! 0 = ''assets'' \<and> segments ! 1 = ''dev'') \<and>
         \<not> suffix ''.map'' relative)"

text \<open>\<open>listFiles\<close> on the relative paths of all files below the root, in whatever order the disk gives them.\<close>

definition listFiles :: "string list \<Rightarrow> string list" where
  "listFiles relatives = sort (map ((@) ''/'') (filter listed relatives))"

section \<open>What holds\<close>

lemma has_part_self: "has_part p p"
  by (cases p) auto

lemma served_file:
  assumes "rs_status (serveFile h path inm) = 200 \<or> rs_status (serveFile h path inm) = 304"
  shows "\<not> has_part ''..'' path" "\<exists>f. sf_disk h (sf_RootDir h @ servedPath h (safe_path path)) = Some f \<and> fe_isFile f \<and>
    prefix (sf_RootDir h) (fe_canonical f) \<and>
    serveFile h path inm = (if inm \<noteq> [] \<and> has_part (etag_of h f) inm
      then \<lparr>rs_status = 304, rs_contentType = [], rs_headers = qmap_insert ''Cache-Control'' no_cache (qmap_insert ''ETag'' (etag_of h f) []),
            rs_body = []\<rparr>
      else file_answer h (toLower (file_suffix (sf_RootDir h @ servedPath h (safe_path path)))) f)"
  using assms by (auto simp: serveFile_def http_error_def Let_def split: if_splits option.splits)

text \<open>No path leads out of the application's directory: whatever the request's path, an answer with a file's bytes, or that the
  browser's copy of them is current, is for a file whose real place on the disk, links resolved, is below the root; and the
  bytes are that file's, with no more changed in them than the version stamp of a page and the name in a manifest.\<close>

theorem served_from_the_root:
  assumes "rs_status (serveFile h path inm) = 200 \<or> rs_status (serveFile h path inm) = 304"
  shows "\<not> has_part ''..'' path \<and>
    (\<exists>p f. sf_disk h p = Some f \<and> fe_isFile f \<and> prefix (sf_RootDir h) p \<and> prefix (sf_RootDir h) (fe_canonical f) \<and>
      (rs_status (serveFile h path inm) = 304 \<or>
       rs_body (serveFile h path inm) = served_body h (toLower (file_suffix p)) (fe_content f)))"
proof -
  obtain f where f: "sf_disk h (sf_RootDir h @ servedPath h (safe_path path)) = Some f" "fe_isFile f"
    "prefix (sf_RootDir h) (fe_canonical f)"
    "serveFile h path inm = (if inm \<noteq> [] \<and> has_part (etag_of h f) inm
      then \<lparr>rs_status = 304, rs_contentType = [], rs_headers = qmap_insert ''Cache-Control'' no_cache (qmap_insert ''ETag'' (etag_of h f) []),
            rs_body = []\<rparr>
      else file_answer h (toLower (file_suffix (sf_RootDir h @ servedPath h (safe_path path)))) f)"
    using served_file(2)[OF assms] by blast
  have "rs_status (serveFile h path inm) = 304 \<or> rs_body (serveFile h path inm) =
      served_body h (toLower (file_suffix (sf_RootDir h @ servedPath h (safe_path path)))) (fe_content f)"
    unfolding f(4) by (simp add: file_answer_def Let_def)
  moreover have "prefix (sf_RootDir h) (sf_RootDir h @ servedPath h (safe_path path))" by simp
  ultimately show ?thesis using f(1-3) served_file(1)[OF assms] by blast
qed

text \<open>A browser's copy is checked by its ETag: the tag an answer carried, sent back, is answered 304 without a body; and a 304
  is only ever given to a request that names the tag the file has now.\<close>

theorem etag_revalidates:
  assumes "rs_status (serveFile h path []) = 200" and "map_of (rs_headers (serveFile h path [])) ''ETag'' = Some etag"
  shows "rs_status (serveFile h path etag) = 304 \<and> rs_body (serveFile h path etag) = [] \<and>
    (rs_status (serveFile h path inm) = 304 \<longleftrightarrow> inm \<noteq> [] \<and> has_part etag inm)"
proof -
  obtain f where f: "sf_disk h (sf_RootDir h @ servedPath h (safe_path path)) = Some f" "fe_isFile f"
    "prefix (sf_RootDir h) (fe_canonical f)"
    "serveFile h path [] = file_answer h (toLower (file_suffix (sf_RootDir h @ servedPath h (safe_path path)))) f"
    and nodots: "\<not> has_part ''..'' path"
    using served_file[of h path "[]"] assms(1) by auto
  have etag: "etag = etag_of h f" using assms(2) unfolding f(4)
    by (simp add: file_answer_def Let_def split: if_splits)
  have all: "rs_status (serveFile h path inm) = 304 \<longleftrightarrow> inm \<noteq> [] \<and> has_part (etag_of h f) inm" for inm
    using f nodots by (simp add: serveFile_def file_answer_def http_error_def Let_def)
  have ne: "etag_of h f \<noteq> []" by (simp add: etag_of_def)
  have "rs_body (serveFile h path (etag_of h f)) = []"
    using f nodots ne by (simp add: serveFile_def has_part_self Let_def)
  then show ?thesis unfolding etag all using ne has_part_self by blast
qed

text \<open>What is downloaded at the start: the list is in order whatever the disk's order is, and names no dot file, nothing of
  the developer's directories and no source map.\<close>

theorem list_is_the_application:
  "mset relatives = mset relatives' \<Longrightarrow> listFiles relatives = listFiles relatives'"
  "p \<in> set (listFiles relatives) \<longleftrightarrow> (\<exists>r \<in> set relatives. p = ''/'' @ r \<and> listed r)"
proof -
  show "listFiles relatives = listFiles relatives'" if "mset relatives = mset relatives'"
  proof -
    have "mset (map ((@) ''/'') (filter listed relatives)) = mset (map ((@) ''/'') (filter listed relatives'))"
      using that by simp
    then show ?thesis unfolding listFiles_def by (metis mset_sort properties_for_sort sorted_sort)
  qed
  show "p \<in> set (listFiles relatives) \<longleftrightarrow> (\<exists>r \<in> set relatives. p = ''/'' @ r \<and> listed r)"
    by (auto simp: listFiles_def)
qed

section \<open>Examples\<close>

definition small_site :: StaticFileHandler where
  "small_site = \<lparr>sf_RootDir = ''/www/'', sf_Version = ''2'', sf_isDev = False,
     sf_disk = [''/www/a.html'' \<mapsto> \<lparr>fe_isFile = True, fe_canonical = ''/www/a.html'', fe_modified = 7,
        fe_content = ''v=__MW_VERSION__'', fe_readable = True\<rparr>],
     sf_httpDate = to_string, sf_errorJson = (\<lambda>m n. m)\<rparr>"

lemma small_page: "rs_status (serveFile small_site ''/a.html'' []) = 200"
  "rs_body (serveFile small_site ''/a.html'' []) = ''v=2''"
  "map_of (rs_headers (serveFile small_site ''/a.html'' [])) ''ETag'' = Some [CHR 0x22, CHR ''2'', CHR ''-'', CHR ''7'', CHR ''-'', CHR ''1'', CHR ''6'', CHR 0x22]"
  by code_simp+

lemma served_from_the_root_witness:
  "\<not> has_part ''..'' ''/a.html'' \<and> rs_body (serveFile small_site ''/a.html'' []) = ''v=2''"
  using served_from_the_root[of small_site "''/a.html''" "[]"] small_page by blast

lemma etag_revalidates_witness:
  "rs_status (serveFile small_site ''/a.html'' [CHR 0x22, CHR ''2'', CHR ''-'', CHR ''7'', CHR ''-'', CHR ''1'', CHR ''6'', CHR 0x22]) = 304"
  using etag_revalidates[OF small_page(1,3)] by blast

end
