(* ===== verification/Rest_Router.thy ===== *)
theory Rest_Router
  imports Auth_Addresses
begin

text \<open>
  Which handler an API request reaches: \<open>RestRouter\<close> (\<open>src/server/RestRouter.h\<close> and \<open>.cpp\<close>). A handler is a value of
  the type \<open>'h\<close>; a synchronous one is wrapped by the code into an asynchronous one, which changes nothing here.
\<close>

type_synonym params = "string \<rightharpoonup> string"

record 'h ParamRoute =
  pr_method :: string
  pr_segments :: "string list"
  pr_handler :: 'h

record 'h RestRouter =
  rr_Routes :: "string \<rightharpoonup> 'h"
  rr_ParamRoutes :: "'h ParamRoute list"

definition router_new :: "'h RestRouter" where
  "router_new = \<lparr>rr_Routes = Map.empty, rr_ParamRoutes = []\<rparr>"

definition routeKey :: "string \<Rightarrow> string \<Rightarrow> string" where
  "routeKey m p = m @ '':'' @ p"

section \<open>Registering\<close>

definition add_route :: "string \<Rightarrow> string \<Rightarrow> 'h \<Rightarrow> 'h RestRouter \<Rightarrow> 'h RestRouter" where
  "add_route m p h r =
     (if CHR '':'' \<in> set p
      then r\<lparr>rr_ParamRoutes := rr_ParamRoutes r @ [\<lparr>pr_method = m, pr_segments = split_skip CHR ''/'' p, pr_handler = h\<rparr>]\<rparr>
      else r\<lparr>rr_Routes := (rr_Routes r)(routeKey m p \<mapsto> h)\<rparr>)"

definition getAsync :: "string \<Rightarrow> 'h \<Rightarrow> 'h RestRouter \<Rightarrow> 'h RestRouter" where
  "getAsync p h r = add_route ''GET'' p h r"

definition postAsync :: "string \<Rightarrow> 'h \<Rightarrow> 'h RestRouter \<Rightarrow> 'h RestRouter" where
  "postAsync p h r = add_route ''POST'' p h r"

definition delAsync :: "string \<Rightarrow> 'h \<Rightarrow> 'h RestRouter \<Rightarrow> 'h RestRouter" where
  "delAsync p h r = add_route ''DELETE'' p h r"

section \<open>Finding\<close>

fun match_segments :: "string list \<Rightarrow> string list \<Rightarrow> params \<Rightarrow> params option" where
  "match_segments (a # as) (p # ps) m =
     (if prefix '':'' p then (if a = [] then None else match_segments as ps (m(drop 1 p \<mapsto> a)))
      else if p \<noteq> a then None
      else match_segments as ps m)"
| "match_segments _ _ m = Some m"

definition matchParamRoute :: "string list \<Rightarrow> 'h ParamRoute \<Rightarrow> params option" where
  "matchParamRoute pathSegments route =
     (if length pathSegments \<noteq> length (pr_segments route) then None
      else match_segments pathSegments (pr_segments route) Map.empty)"

fun first_match :: "string \<Rightarrow> string list \<Rightarrow> 'h ParamRoute list \<Rightarrow> ('h \<times> params) option" where
  "first_match m segs [] = None"
| "first_match m segs (r # rs) =
     (if pr_method r \<noteq> m then first_match m segs rs
      else case matchParamRoute segs r of Some ps \<Rightarrow> Some (pr_handler r, ps) | None \<Rightarrow> first_match m segs rs)"

text \<open>The handler and the parameters it is given; \<open>None\<close> is the answer 404.\<close>

definition dispatchAsync :: "'h RestRouter \<Rightarrow> string \<Rightarrow> string \<Rightarrow> ('h \<times> params) option" where
  "dispatchAsync r m p =
     (case rr_Routes r (routeKey m p) of
        Some h \<Rightarrow> Some (h, Map.empty)
      | None \<Rightarrow> first_match m (split_skip CHR ''/'' p) (rr_ParamRoutes r))"

definition hasRoute :: "'h RestRouter \<Rightarrow> string \<Rightarrow> string \<Rightarrow> bool" where
  "hasRoute r m p \<longleftrightarrow>
     rr_Routes r (routeKey m p) \<noteq> None \<or>
     list_ex (\<lambda>route. pr_method route = m \<and> matchParamRoute (split_skip CHR ''/'' p) route \<noteq> None) (rr_ParamRoutes r)"

section \<open>A table as it was registered\<close>

datatype Verb = Get | Post | Del

fun verb_name :: "Verb \<Rightarrow> string" where
  "verb_name Get = ''GET''"
| "verb_name Post = ''POST''"
| "verb_name Del = ''DELETE''"

fun register :: "Verb \<times> string \<times> 'h \<Rightarrow> 'h RestRouter \<Rightarrow> 'h RestRouter" where
  "register (Get, p, h) r = getAsync p h r"
| "register (Post, p, h) r = postAsync p h r"
| "register (Del, p, h) r = delAsync p h r"

text \<open>What a table promises: the path itself, or else the first pattern that fits, segment by segment.\<close>

definition fits :: "string list \<Rightarrow> string list \<Rightarrow> bool" where
  "fits as ps \<longleftrightarrow> list_all2 (\<lambda>a p. if prefix '':'' p then a \<noteq> [] else p = a) as ps"

definition values_of :: "string list \<Rightarrow> string list \<Rightarrow> params" where
  "values_of as ps = map_of (rev (map (\<lambda>(a, p). (drop 1 p, a)) (filter (\<lambda>(a, p). prefix '':'' p) (zip as ps))))"

definition names_path :: "string \<Rightarrow> string \<Rightarrow> Verb \<times> string \<times> 'h \<Rightarrow> bool" where
  "names_path m p = (\<lambda>(v, p', h). CHR '':'' \<notin> set p' \<and> verb_name v = m \<and> p' = p)"

definition fits_path :: "string \<Rightarrow> string \<Rightarrow> Verb \<times> string \<times> 'h \<Rightarrow> bool" where
  "fits_path m p = (\<lambda>(v, p', h). CHR '':'' \<in> set p' \<and> verb_name v = m \<and> fits (split_skip CHR ''/'' p) (split_skip CHR ''/'' p'))"

definition promised :: "(Verb \<times> string \<times> 'h) list \<Rightarrow> string \<Rightarrow> string \<Rightarrow> ('h \<times> params) option" where
  "promised table m p =
     (case find (names_path m p) (rev table) of
        Some (v, p', h) \<Rightarrow> Some (h, Map.empty)
      | None \<Rightarrow>
          map_option (\<lambda>(v, p', h). (h, values_of (split_skip CHR ''/'' p) (split_skip CHR ''/'' p')))
            (find (fits_path m p) table))"

section \<open>Keys and patterns\<close>

lemma verb_plain [simp]: "CHR '':'' \<notin> set (verb_name v)"
  by (cases v) auto

lemma register_add: "register (v, p, h) r = add_route (verb_name v) p h r"
  by (cases v) (auto simp: getAsync_def postAsync_def delAsync_def)

lemma routeKey_inj:
  assumes "CHR '':'' \<notin> set p'" shows "routeKey (verb_name v) p' = routeKey m p \<longleftrightarrow> verb_name v = m \<and> p' = p"
proof
  assume eq: "routeKey (verb_name v) p' = routeKey m p"
  have "filter (\<lambda>c. c = CHR '':'') p' = []" "filter (\<lambda>c. c = CHR '':'') (verb_name v) = []"
    using assms verb_plain[of v] by (auto simp: filter_empty_conv)
  then have "length (filter (\<lambda>c. c = CHR '':'') (routeKey m p)) = 1"
    unfolding eq[symmetric] by (simp add: routeKey_def)
  then have "CHR '':'' \<notin> set m" by (auto simp: routeKey_def filter_empty_conv)
  then show "verb_name v = m \<and> p' = p"
    using eq takeWhile_until[OF verb_plain, of v p'] takeWhile_until[of "CHR '':''" m p]
    by (simp add: routeKey_def)
qed simp

lemma match_segments_spec: "length as = length ps \<Longrightarrow>
    match_segments as ps m = (if fits as ps then Some (m ++ values_of as ps) else None)"
  by (induction as ps m rule: match_segments.induct) (auto simp: fits_def values_of_def map_add_upd_left)

lemma matchParamRoute_spec: "matchParamRoute as r =
    (if fits as (pr_segments r) then Some (values_of as (pr_segments r)) else None)"
  using match_segments_spec[of as "pr_segments r" Map.empty] list_all2_lengthD[of _ as "pr_segments r"]
  by (auto simp: matchParamRoute_def fits_def)

lemma first_match_append: "first_match m segs (rs @ rs') =
    (case first_match m segs rs of None \<Rightarrow> first_match m segs rs' | Some x \<Rightarrow> Some x)"
  by (induction rs) (auto split: option.split)

lemma first_match_ex: "first_match m segs rs \<noteq> None \<longleftrightarrow> list_ex (\<lambda>r. pr_method r = m \<and> matchParamRoute segs r \<noteq> None) rs"
  by (induction rs) (auto split: option.split)

lemma routes_of_table: "rr_Routes (fold register table router_new) (routeKey m p) =
    map_option (\<lambda>(v, p', h). h) (find (names_path m p) (rev table))"
proof (induction table rule: rev_induct)
  case (snoc x table)
  obtain v p' h where x: "x = (v, p', h)" by (metis prod_cases3)
  show ?case
  proof (cases "CHR '':'' \<in> set p'")
    case True
    then show ?thesis using snoc by (simp add: x register_add add_route_def names_path_def)
  next
    case False
    then have "routeKey m p = routeKey (verb_name v) p' \<longleftrightarrow> verb_name v = m \<and> p' = p"
      using routeKey_inj[OF False, of v m p] by metis
    then show ?thesis using snoc False by (simp add: x register_add add_route_def names_path_def)
  qed
qed (simp add: router_new_def)

lemma find_append: "find P (xs @ ys) = (case find P xs of None \<Rightarrow> find P ys | Some x \<Rightarrow> Some x)"
  by (induction xs) auto

lemma patterns_of_table: "first_match m (split_skip CHR ''/'' p) (rr_ParamRoutes (fold register table router_new)) =
    map_option (\<lambda>(v, p', h). (h, values_of (split_skip CHR ''/'' p) (split_skip CHR ''/'' p'))) (find (fits_path m p) table)"
proof (induction table rule: rev_induct)
  case (snoc x table)
  obtain v p' h where x: "x = (v, p', h)" by (metis prod_cases3)
  show ?case using snoc
    by (auto simp: x register_add add_route_def fits_path_def first_match_append matchParamRoute_spec find_append split: option.split)
qed (simp add: router_new_def)

lemma dispatch_promised: "dispatchAsync (fold register table router_new) m p = promised table m p"
  by (auto simp: dispatchAsync_def promised_def routes_of_table patterns_of_table split: option.split)

section \<open>What holds\<close>

text \<open>A request reaches the handler it was registered for: the last one registered for exactly its path, and where
  there is none the first pattern that fits it segment by segment, with each named segment's value; otherwise it is 404.
  No method and no path a client makes up, whatever colons it holds, is mistaken for another route.\<close>

theorem routed_as_registered: "dispatchAsync (fold register table router_new) m p = promised table m p"
  by (rule dispatch_promised)

text \<open>\<open>hasRoute\<close> says exactly whether a request would reach a handler.\<close>

theorem hasRoute_iff_dispatched: "hasRoute r m p \<longleftrightarrow> dispatchAsync r m p \<noteq> None"
  unfolding hasRoute_def dispatchAsync_def first_match_ex[symmetric] by (simp split: option.split)

end
