(* ===== verification/Constant_Time.thy ===== *)
theory Constant_Time
  imports MW_Prelude
begin

text \<open>
  The comparison of secrets both \<open>ShareManager\<close> and \<open>AuthManager\<close> have, \<open>constantTimeEquals\<close>
  (\<open>src/server/ShareManager.cpp\<close>, \<open>src/server/AuthManager.cpp\<close>, the same body): how it reads the two strings,
  when it says they are equal, and the case in which it says so of two that differ.
\<close>

section \<open>Comparing secrets\<close>

text \<open>The loop over both strings' bytes, which does not stop at the first difference; \<open>diff\<close> is a \<open>quint8\<close>.\<close>

definition byte_at :: "string \<Rightarrow> nat \<Rightarrow> 8 word" where
  "byte_at s i = (if i < length s then word_of_nat (of_char (s ! i)) else 0)"

definition constantTimeEquals :: "string \<Rightarrow> string \<Rightarrow> bool" where
  "constantTimeEquals a b \<longleftrightarrow>
     fold (\<lambda>i diff. or diff (xor (byte_at a i) (byte_at b i))) [0..<max (length a) (length b)]
       (word_of_nat (xor (length a) (length b))) = (0 :: 8 word)"

section \<open>When two strings compare equal\<close>

lemma or_loop: "fold (\<lambda>i diff. or diff (f i)) xs d = (0 :: 8 word) \<longleftrightarrow> d = 0 \<and> (\<forall>i \<in> set xs. f i = 0)"
proof (induction xs arbitrary: d)
  case (Cons x xs)
  have "or d (f x) = 0 \<longleftrightarrow> d = 0 \<and> f x = 0" by (rule or_eq_0_iff)
  then show ?case using Cons by auto
qed simp

lemma xor_zero_iff: "xor a b = (0 :: 8 word) \<longleftrightarrow> a = b"
  by (metis xor.left_neutral xor_self_eq xor.assoc)

lemma equals_bytes: "constantTimeEquals a b \<longleftrightarrow>
    (word_of_nat (xor (length a) (length b)) :: 8 word) = 0 \<and>
    (\<forall>i < max (length a) (length b). byte_at a i = byte_at b i)"
  unfolding constantTimeEquals_def or_loop xor_zero_iff by auto

lemma byte_inj: "(word_of_nat (of_char c) :: 8 word) = word_of_nat (of_char d) \<longleftrightarrow> c = d"
proof -
  have "unat (word_of_nat (of_char c) :: 8 word) = of_char c" for c :: char
    using nat_of_char_less_256[of c] by (simp add: unat_of_nat)
  then show ?thesis by (metis of_char_eq_iff)
qed

lemma byte_zero: "(word_of_nat (of_char c) :: 8 word) = 0 \<longleftrightarrow> c = CHR 0x00"
  using byte_inj[of c "CHR 0x00"] by simp

lemma shorter_differs:
  assumes "CHR 0x00 \<notin> set b" and "length a < length b"
  shows "\<exists>i < max (length a) (length b). byte_at a i \<noteq> byte_at b i"
proof -
  let ?i = "length b - 1"
  have "b ! ?i \<noteq> CHR 0x00" using assms by (metis diff_less length_pos_if_in_set less_nat_zero_code nth_mem zero_less_one neq0_conv)
  then have "byte_at b ?i \<noteq> 0" "byte_at a ?i = 0" using assms(2) by (auto simp: byte_at_def byte_zero)
  then show ?thesis using assms(2) by (intro exI[of _ ?i]) auto
qed

lemma equals_plain:
  assumes "CHR 0x00 \<notin> set a" and "CHR 0x00 \<notin> set b"
  shows "constantTimeEquals a b \<longleftrightarrow> a = b"
proof
  assume "constantTimeEquals a b"
  then have bytes: "byte_at a i = byte_at b i" if "i < max (length a) (length b)" for i
    using that by (simp add: equals_bytes)
  have len: "length a = length b"
    using shorter_differs[OF assms(2), of a] shorter_differs[OF assms(1), of b] bytes
    by (metis linorder_neqE_nat max.commute)
  have "a ! i = b ! i" if "i < length a" for i
    using bytes[of i] that len by (simp add: byte_at_def byte_inj)
  then show "a = b" using len by (simp add: list_eq_iff_nth_eq)
qed (simp add: equals_bytes)

text \<open>Two strings without a NUL byte compare equal exactly when they are the same: the loop over the longer one,
  which never stops early, loses nothing.\<close>

theorem constant_time_is_equality:
  assumes "CHR 0x00 \<notin> set a" and "CHR 0x00 \<notin> set b"
  shows "constantTimeEquals a b \<longleftrightarrow> a = b"
  by (rule equals_plain[OF assms])

lemma constant_time_is_equality_witness:
  "constantTimeEquals ''493817'' ''493817'' \<and> \<not> constantTimeEquals ''493817'' ''493818''"
  using constant_time_is_equality[of "''493817''" "''493817''"] constant_time_is_equality[of "''493817''" "''493818''"]
  by simp

text \<open>The difference of the lengths is cut to eight bits: a string followed by 256 NUL bytes compares equal to
  the string itself.\<close>

theorem padding_compares_equal: "constantTimeEquals s (s @ replicate 256 (CHR 0x00))"
proof -
  have "take_bit 8 (length s + 256) = take_bit 8 (length s)" by (simp add: take_bit_eq_mod)
  then have "take_bit 8 (xor (length s) (length s + 256)) = 0" by (simp add: take_bit_xor)
  then have "2 ^ 8 dvd xor (length s) (length s + 256)" by (rule take_bit_eq_0_iff[THEN iffD1])
  then have "(word_of_nat (xor (length s) (length s + 256)) :: 8 word) = 0" by (simp add: word_of_nat_eq_0_iff)
  moreover have "byte_at s i = byte_at (s @ replicate 256 (CHR 0x00)) i" if "i < length s + 256" for i
    using that by (auto simp: byte_at_def nth_append)
  ultimately show ?thesis by (simp add: equals_bytes)
qed

lemma same_secret:
  assumes "CHR 0x00 \<notin> set a" and "CHR 0x00 \<notin> set b" and "constantTimeEquals a c" and "constantTimeEquals b c"
  shows "a = b"
proof -
  have read: "byte_at s i = byte_at c i" if "constantTimeEquals s c" for s i
  proof (cases "i < max (length s) (length c)")
    case True
    then show ?thesis using that by (simp add: equals_bytes)
  next
    case False
    then show ?thesis by (simp add: byte_at_def less_max_iff_disj)
  qed
  have bytes: "byte_at a i = byte_at b i" for i using read[OF assms(3), of i] read[OF assms(4), of i] by simp
  have len: "length a = length b"
    using shorter_differs[OF assms(2), of a] shorter_differs[OF assms(1), of b] bytes
    by (cases "length a" "length b" rule: linorder_cases) auto
  have "a ! i = b ! i" if "i < length a" for i
    using bytes[of i] that len by (simp add: byte_at_def byte_inj)
  then show ?thesis using len by (simp add: list_eq_iff_nth_eq)
qed

end
