(* ===== verification/Auth_Manager.thy ===== *)
theory Auth_Manager
  imports Auth_Addresses Constant_Time "HOL-Library.AList" "HOL-Library.Char_ord" "HOL-Library.List_Lexorder"
    "HOL-Library.Product_Lexorder"
begin

text \<open>
  \<open>AuthManager\<close> (\<open>src/server/AuthManager.h\<close> and \<open>.cpp\<close>): the sign-in PIN, the certificate, the remote admin
  password, the sessions with their keys and their file, and the limits on guessing. Every operation takes the
  second it is called at; random values are arguments. The hashes are association lists under the code's keys;
  the signals emitted are a list in the state; \<open>sessions.json\<close> is the file of the state, whether it can be
  written is a flag. The digests (SHA-256, HMAC, PBKDF2), Base64 and the check of a public key are parameters,
  \<open>QtAuth\<close>; a list of machines is the text of its JSON.
\<close>

record QtAuth = QtAddr +
  qa_hashToken :: "string \<Rightarrow> string"
  qa_hmac :: "string \<Rightarrow> string \<Rightarrow> string"
  qa_pbkdf2 :: "string \<Rightarrow> string \<Rightarrow> int \<Rightarrow> nat \<Rightarrow> string"
  qa_toBase64 :: "string \<Rightarrow> string"
  qa_toBase64Url :: "string \<Rightarrow> string"
  qa_fromBase64 :: "string \<Rightarrow> string"
  qa_isValidSpki :: "string \<Rightarrow> bool"
  qa_number :: "int \<Rightarrow> string"

section \<open>Settings and sessions\<close>

definition MIN_ADMIN_PASSWORD_LEN :: nat where
  [tunables]: "MIN_ADMIN_PASSWORD_LEN = 8"

definition HOME_SCREEN_KEY_PREFIX :: string where
  "HOME_SCREEN_KEY_PREFIX = ''hs-''"

definition HOME_SCREEN_KEY_TTL_SECS :: int where
  [tunables]: "HOME_SCREEN_KEY_TTL_SECS = 24 * 3600"

definition PBKDF2_ITERATIONS :: int where
  [tunables]: "PBKDF2_ITERATIONS = 210000"

definition PBKDF2_KEY_BYTES :: nat where
  [tunables]: "PBKDF2_KEY_BYTES = 32"

definition LOCKOUT_SHORT_MS :: int where
  [tunables]: "LOCKOUT_SHORT_MS = 30000"

definition LOCKOUT_MEDIUM_MS :: int where
  [tunables]: "LOCKOUT_MEDIUM_MS = 120000"

definition LOCKOUT_LONG_MS :: int where
  [tunables]: "LOCKOUT_LONG_MS = 600000"

definition SESSION_TTL_SECS :: int where
  [tunables]: "SESSION_TTL_SECS = 90 * 24 * 3600"

definition EPHEMERAL_SESSION_TTL_SECS :: int where
  [tunables]: "EPHEMERAL_SESSION_TTL_SECS = 8 * 3600"

text \<open>The part of \<open>AppSettings\<close> this class reads and writes.\<close>

record AuthSettings =
  st_hmacKey :: string
  st_certificateToken :: string
  st_certAuthEnabled :: bool
  st_adminPasswordDigest :: string
  st_remoteAdminEnabled :: bool

record SessionInfo =
  si_token :: string
  si_ip :: string
  si_machineName :: string
  si_city :: string
  si_country :: string
  si_createdAt :: int
  si_lastSeen :: int
  si_streaming :: bool
  si_isHost :: bool
  si_isAdmin :: bool
  si_viaTunnel :: bool
  si_ephemeral :: bool
  si_pairingKey :: string

text \<open>A session as \<open>toJson\<close> writes it; the file may lack \<open>last_seen\<close>.\<close>

record SavedSession =
  sj_token :: string
  sj_pairing_key :: string
  sj_ip :: string
  sj_machine_name :: string
  sj_city :: string
  sj_country :: string
  sj_created_at :: int
  sj_last_seen :: "int option"
  sj_is_host :: bool
  sj_is_admin :: bool
  sj_via_tunnel :: bool

definition no_session :: SessionInfo where
  "no_session = \<lparr>si_token = [], si_ip = [], si_machineName = [], si_city = [], si_country = [], si_createdAt = 0,
     si_lastSeen = 0, si_streaming = False, si_isHost = False, si_isAdmin = False, si_viaTunnel = False,
     si_ephemeral = False, si_pairingKey = []\<rparr>"

definition session_toJson :: "QtAuth \<Rightarrow> SessionInfo \<Rightarrow> SavedSession" where
  "session_toJson q s = \<lparr>sj_token = si_token s,
     sj_pairing_key = (if si_pairingKey s = [] then [] else qa_toBase64 q (si_pairingKey s)),
     sj_ip = si_ip s, sj_machine_name = si_machineName s, sj_city = si_city s, sj_country = si_country s,
     sj_created_at = si_createdAt s, sj_last_seen = Some (si_lastSeen s), sj_is_host = si_isHost s,
     sj_is_admin = si_isAdmin s, sj_via_tunnel = si_viaTunnel s\<rparr>"

definition ttlFor :: "SessionInfo \<Rightarrow> int" where
  "ttlFor s = (if si_ephemeral s then EPHEMERAL_SESSION_TTL_SECS else SESSION_TTL_SECS)"

definition last_activity :: "SessionInfo \<Rightarrow> int" where
  "last_activity s = (if si_lastSeen s > 0 then si_lastSeen s else si_createdAt s)"

record RateLimitEntry =
  rl_failures :: int
  rl_lastFailure :: "int option"
  rl_lockoutUntilEpoch :: int

record HomeScreenKey =
  hk_key :: string
  hk_issuedAt :: int

datatype AuthSignal =
    PinChanged string
  | SessionCreated string string
  | SessionDestroyed string
  | StreamingSessionRevoked
  | SessionsChanged

record AuthManager =
  am_Settings :: "AuthSettings option"
  am_CurrentPin :: string
  am_PinConsumed :: bool
  am_HmacKey :: string
  am_RateLimits :: "(string \<times> RateLimitEntry) list"
  am_Sessions :: "(string \<times> SessionInfo) list"
  am_HomeScreenKeys :: "(string \<times> HomeScreenKey) list"
  am_HomeScreenInstances :: "(string \<times> string) list"
  am_Signals :: "AuthSignal list"
  am_File :: "SavedSession list option"
  am_Writable :: bool

definition session_of :: "AuthManager \<Rightarrow> string \<Rightarrow> SessionInfo option" where
  "session_of m = map_of (am_Sessions m)"

definition am_emit :: "AuthSignal \<Rightarrow> AuthManager \<Rightarrow> AuthManager" where
  "am_emit x m = m\<lparr>am_Signals := am_Signals m @ [x]\<rparr>"

definition put_session :: "string \<Rightarrow> SessionInfo \<Rightarrow> AuthManager \<Rightarrow> AuthManager" where
  "put_session i s m = m\<lparr>am_Sessions := AList.update i s (am_Sessions m)\<rparr>"

definition map_sessions :: "(SessionInfo \<Rightarrow> SessionInfo) \<Rightarrow> AuthManager \<Rightarrow> AuthManager" where
  "map_sessions f m = m\<lparr>am_Sessions := map (\<lambda>(i, s). (i, f s)) (am_Sessions m)\<rparr>"

section \<open>The file\<close>

definition saveSessions :: "QtAuth \<Rightarrow> AuthManager \<Rightarrow> AuthManager" where
  "saveSessions q m =
     (if am_Settings m = None \<or> \<not> am_Writable m then m
      else m\<lparr>am_File := Some (map (session_toJson q) (filter (\<lambda>s. \<not> si_ephemeral s) (map snd (am_Sessions m))))\<rparr>)"

definition remoteAdminEnabled :: "AuthManager \<Rightarrow> bool" where
  "remoteAdminEnabled m = (case am_Settings m of None \<Rightarrow> False | Some st \<Rightarrow> st_remoteAdminEnabled st)"

definition adminPasswordSet :: "AuthManager \<Rightarrow> bool" where
  "adminPasswordSet m = (case am_Settings m of None \<Rightarrow> False | Some st \<Rightarrow> st_adminPasswordDigest st \<noteq> [])"

definition loaded_session :: "QtAuth \<Rightarrow> bool \<Rightarrow> SavedSession \<Rightarrow> SessionInfo" where
  "loaded_session q keepAdminFlags obj =
     (let spki = qa_fromBase64 q (sj_pairing_key obj)
      in no_session\<lparr>si_token := sj_token obj, si_ip := sj_ip obj, si_machineName := sj_machine_name obj,
           si_city := sj_city obj, si_country := sj_country obj, si_createdAt := sj_created_at obj,
           si_lastSeen := (case sj_last_seen obj of Some t \<Rightarrow> t | None \<Rightarrow> sj_created_at obj),
           si_isHost := sj_is_host obj, si_viaTunnel := sj_via_tunnel obj,
           si_isAdmin := keepAdminFlags \<and> sj_is_admin obj,
           si_pairingKey := (if sj_pairing_key obj \<noteq> [] \<and> qa_isValidSpki q spki then spki else [])\<rparr>)"

definition load_one :: "QtAuth \<Rightarrow> int \<Rightarrow> bool \<Rightarrow> SavedSession \<Rightarrow> (string \<times> SessionInfo) list \<Rightarrow> (string \<times> SessionInfo) list" where
  "load_one q now keep obj ss =
     (let info = loaded_session q keep obj
      in if now - last_activity info > SESSION_TTL_SECS then ss else AList.update (si_token info) info ss)"

definition loadSessions :: "QtAuth \<Rightarrow> int \<Rightarrow> AuthManager \<Rightarrow> AuthManager" where
  "loadSessions q now m =
     (if am_Settings m = None then m
      else case am_File m of
             None \<Rightarrow> m
           | Some arr \<Rightarrow> m\<lparr>am_Sessions := fold (load_one q now (remoteAdminEnabled m \<and> adminPasswordSet m)) arr []\<rparr>)"

definition no_pin :: string where
  "no_pin = ''------''"

text \<open>A manager as the program starts it; \<open>fresh\<close> is a random key, kept where there are settings.\<close>

definition am_new :: "QtAuth \<Rightarrow> int \<Rightarrow> string \<Rightarrow> AuthSettings option \<Rightarrow> SavedSession list option \<Rightarrow> bool \<Rightarrow> AuthManager" where
  "am_new q now fresh settings file_on_disk writable =
     (let key = (case settings of Some st \<Rightarrow> (if st_hmacKey st = [] then fresh else st_hmacKey st) | None \<Rightarrow> fresh)
      in loadSessions q now \<lparr>am_Settings = map_option (\<lambda>st. st\<lparr>st_hmacKey := key\<rparr>) settings, am_CurrentPin = no_pin,
           am_PinConsumed = False, am_HmacKey = key, am_RateLimits = [], am_Sessions = [], am_HomeScreenKeys = [],
           am_HomeScreenInstances = [], am_Signals = [], am_File = file_on_disk, am_Writable = writable\<rparr>)"

section \<open>Sessions end\<close>

definition destroyAllSessions :: "QtAuth \<Rightarrow> AuthManager \<Rightarrow> AuthManager" where
  "destroyAllSessions q m =
     (let anyStreaming = list_ex (\<lambda>(i, s). si_streaming s) (am_Sessions m);
          some = am_Sessions m \<noteq> [];
          m = saveSessions q (m\<lparr>am_Sessions := []\<rparr>);
          m = (if some then am_emit SessionsChanged m else m)
      in if anyStreaming then am_emit StreamingSessionRevoked m else m)"

definition destroySession :: "QtAuth \<Rightarrow> string \<Rightarrow> AuthManager \<Rightarrow> AuthManager" where
  "destroySession q i m =
     (let m = m\<lparr>am_HomeScreenKeys := AList.delete i (am_HomeScreenKeys m),
                am_HomeScreenInstances := AList.delete i (am_HomeScreenInstances m)\<rparr>
      in case session_of m i of
           None \<Rightarrow> m
         | Some info \<Rightarrow>
             let m = saveSessions q (m\<lparr>am_Sessions := AList.delete i (am_Sessions m)\<rparr>);
                 m = am_emit SessionsChanged (am_emit (SessionDestroyed i) m)
             in if si_streaming info then am_emit StreamingSessionRevoked m else m)"

definition logoutSession :: "QtAuth \<Rightarrow> string \<Rightarrow> AuthManager \<Rightarrow> bool \<times> AuthManager" where
  "logoutSession q token m =
     (if token = [] then (False, m)
      else let i = qa_hashToken q token
           in if session_of m i = None then (False, m) else (True, destroySession q i m))"

definition inactive :: "int \<Rightarrow> SessionInfo \<Rightarrow> bool" where
  "inactive now s \<longleftrightarrow> now - last_activity s > ttlFor s"

definition purgeExpiredSessions :: "QtAuth \<Rightarrow> int \<Rightarrow> AuthManager \<Rightarrow> AuthManager" where
  "purgeExpiredSessions q now m =
     (let left = filter (\<lambda>(i, s). \<not> inactive now s) (am_Sessions m)
      in if length left < length (am_Sessions m)
         then am_emit SessionsChanged (saveSessions q (m\<lparr>am_Sessions := left\<rparr>)) else m)"

section \<open>The PIN and the certificate\<close>

definition generatePin :: "string \<Rightarrow> AuthManager \<Rightarrow> AuthManager" where
  "generatePin pin m = am_emit (PinChanged pin) (m\<lparr>am_CurrentPin := pin, am_PinConsumed := False\<rparr>)"

definition regeneratePin :: "QtAuth \<Rightarrow> string \<Rightarrow> AuthManager \<Rightarrow> AuthManager" where
  "regeneratePin q pin m = generatePin pin ((destroyAllSessions q m)\<lparr>am_RateLimits := []\<rparr>)"

definition autoRegeneratePin :: "string \<Rightarrow> AuthManager \<Rightarrow> AuthManager" where
  "autoRegeneratePin pin m = am_emit (PinChanged pin) (m\<lparr>am_CurrentPin := pin, am_PinConsumed := True\<rparr>)"

definition clearPin :: "AuthManager \<Rightarrow> AuthManager" where
  "clearPin m = am_emit (PinChanged no_pin) (m\<lparr>am_CurrentPin := no_pin, am_PinConsumed := False\<rparr>)"

definition hasValidPin :: "AuthManager \<Rightarrow> bool" where
  "hasValidPin m \<longleftrightarrow> am_CurrentPin m \<noteq> no_pin \<and> am_CurrentPin m \<noteq> []"

definition generateCertificateToken :: "string \<Rightarrow> AuthManager \<Rightarrow> AuthManager" where
  "generateCertificateToken token m =
     m\<lparr>am_Settings := map_option (\<lambda>st. st\<lparr>st_certificateToken := token\<rparr>) (am_Settings m)\<rparr>"

definition certificateToken :: "AuthManager \<Rightarrow> string" where
  "certificateToken m = (case am_Settings m of None \<Rightarrow> [] | Some st \<Rightarrow> st_certificateToken st)"

definition validateCertificate :: "string \<Rightarrow> AuthManager \<Rightarrow> bool" where
  "validateCertificate uploaded m =
     (let stored = certificateToken m
      in if stored = [] then False else constantTimeEquals (trimmed uploaded) stored)"

definition certAuthEnabled :: "AuthManager \<Rightarrow> bool" where
  "certAuthEnabled m = (case am_Settings m of None \<Rightarrow> False | Some st \<Rightarrow> st_certAuthEnabled st)"

definition setCertAuthEnabled :: "bool \<Rightarrow> AuthManager \<Rightarrow> AuthManager" where
  "setCertAuthEnabled b m = m\<lparr>am_Settings := map_option (\<lambda>st. st\<lparr>st_certAuthEnabled := b\<rparr>) (am_Settings m)\<rparr>"

section \<open>Limits on guessing\<close>

text \<open>One entry's next value in \<open>cleanupExpired\<close>, \<open>None\<close> where it is removed.\<close>

definition cleaned :: "int \<Rightarrow> RateLimitEntry \<Rightarrow> RateLimitEntry option" where
  "cleaned now e =
     (if rl_lockoutUntilEpoch e > now then Some e
      else let secsSinceFailure = (case rl_lastFailure e of Some t \<Rightarrow> now - t | None \<Rightarrow> 600);
               failures = (if secsSinceFailure \<ge> 600 then max 0 (rl_failures e - 1) else rl_failures e)
           in if failures \<le> 0 then None else Some (e\<lparr>rl_failures := failures\<rparr>))"

definition cleanupExpired :: "int \<Rightarrow> AuthManager \<Rightarrow> AuthManager" where
  "cleanupExpired now m = m\<lparr>am_RateLimits :=
     List.map_filter (\<lambda>(b, e). map_option (\<lambda>e. (b, e)) (cleaned now e)) (am_RateLimits m)\<rparr>"

definition bucketLockout :: "int \<Rightarrow> string \<Rightarrow> AuthManager \<Rightarrow> int" where
  "bucketLockout now bucket m =
     (case map_of (am_RateLimits m) bucket of
        None \<Rightarrow> 0
      | Some e \<Rightarrow> if rl_lockoutUntilEpoch e > now then rl_lockoutUntilEpoch e - now else 0)"

definition bucketRemainingAttempts :: "string \<Rightarrow> AuthManager \<Rightarrow> int" where
  "bucketRemainingAttempts bucket m =
     (case map_of (am_RateLimits m) bucket of
        None \<Rightarrow> 3
      | Some e \<Rightarrow> if rl_failures e < 3 then 3 - rl_failures e
                  else if rl_failures e < 5 then 5 - rl_failures e
                  else if rl_failures e < 10 then 10 - rl_failures e
                  else 0)"

datatype Verdict = Valid | InvalidPin | RateLimited

record ValidateResult =
  vr_result :: Verdict
  vr_remainingAttempts :: int
  vr_lockoutSeconds :: int

definition no_entry :: RateLimitEntry where
  "no_entry = \<lparr>rl_failures = 0, rl_lastFailure = None, rl_lockoutUntilEpoch = 0\<rparr>"

definition missed :: "int \<Rightarrow> RateLimitEntry \<Rightarrow> RateLimitEntry" where
  "missed now e =
     (let n = rl_failures e + 1
      in e\<lparr>rl_failures := n, rl_lastFailure := Some now,
           rl_lockoutUntilEpoch :=
             (if n \<ge> 10 then now + LOCKOUT_LONG_MS div 1000
              else if n \<ge> 5 then now + LOCKOUT_MEDIUM_MS div 1000
              else if n \<ge> 3 then now + LOCKOUT_SHORT_MS div 1000
              else rl_lockoutUntilEpoch e)\<rparr>)"

definition recordAttempt :: "int \<Rightarrow> string \<Rightarrow> bool \<Rightarrow> AuthManager \<Rightarrow> ValidateResult \<times> AuthManager" where
  "recordAttempt now bucket matched m =
     (let e = (case map_of (am_RateLimits m) bucket of Some e \<Rightarrow> e | None \<Rightarrow> no_entry);
          put = (\<lambda>e. m\<lparr>am_RateLimits := AList.update bucket e (am_RateLimits m)\<rparr>)
      in if matched
         then (\<lparr>vr_result = Valid, vr_remainingAttempts = 3, vr_lockoutSeconds = 0\<rparr>,
               put (e\<lparr>rl_failures := 0, rl_lockoutUntilEpoch := 0\<rparr>))
         else let m = put (missed now e)
              in (\<lparr>vr_result = InvalidPin, vr_remainingAttempts = bucketRemainingAttempts bucket m,
                   vr_lockoutSeconds = bucketLockout now bucket m\<rparr>, m))"

text \<open>The attempt on a secret, whichever it is: the limit first, then the comparison, which is counted.\<close>

definition attempt :: "int \<Rightarrow> string \<Rightarrow> (AuthManager \<Rightarrow> bool) \<Rightarrow> AuthManager \<Rightarrow> ValidateResult \<times> AuthManager" where
  "attempt now bucket matches m =
     (let m = cleanupExpired now m; locked = bucketLockout now bucket m
      in if locked > 0
         then (\<lparr>vr_result = RateLimited, vr_remainingAttempts = 0, vr_lockoutSeconds = locked\<rparr>, m)
         else recordAttempt now bucket (matches m) m)"

definition validatePin :: "QtAuth \<Rightarrow> int \<Rightarrow> string \<Rightarrow> string \<Rightarrow> AuthManager \<Rightarrow> ValidateResult \<times> AuthManager" where
  "validatePin q now ip pin =
     attempt now (rateLimitKey q ip) (\<lambda>m. hasValidPin m \<and> constantTimeEquals pin (am_CurrentPin m))"

definition remainingAttempts :: "QtAuth \<Rightarrow> string \<Rightarrow> AuthManager \<Rightarrow> int" where
  "remainingAttempts q ip m = bucketRemainingAttempts (rateLimitKey q ip) m"

definition lockoutSeconds :: "QtAuth \<Rightarrow> int \<Rightarrow> string \<Rightarrow> AuthManager \<Rightarrow> int" where
  "lockoutSeconds q now ip m = bucketLockout now (rateLimitKey q ip) m"

definition isRateLimited :: "QtAuth \<Rightarrow> int \<Rightarrow> string \<Rightarrow> AuthManager \<Rightarrow> bool" where
  "isRateLimited q now ip m \<longleftrightarrow> lockoutSeconds q now ip m > 0"

definition failedAttemptCount :: "QtAuth \<Rightarrow> string \<Rightarrow> AuthManager \<Rightarrow> int" where
  "failedAttemptCount q ip m =
     (case map_of (am_RateLimits m) (rateLimitKey q ip) of None \<Rightarrow> 0 | Some e \<Rightarrow> rl_failures e)"

section \<open>The admin password\<close>

definition encodePassword :: "QtAuth \<Rightarrow> string \<Rightarrow> string \<Rightarrow> string" where
  "encodePassword q salt password =
     ''pbkdf2-sha256$'' @ qa_number q PBKDF2_ITERATIONS @ ''$'' @ qa_toBase64 q salt @ ''$'' @
     qa_toBase64 q (qa_pbkdf2 q password salt PBKDF2_ITERATIONS PBKDF2_KEY_BYTES)"

definition passwordMatches :: "QtAuth \<Rightarrow> string \<Rightarrow> string \<Rightarrow> bool" where
  "passwordMatches q digest password =
     (case splitOn CHR ''$'' digest of
        [scheme, iterationsText, saltText, keyText] \<Rightarrow>
          if scheme \<noteq> ''pbkdf2-sha256'' then False
          else (case qx_toInt q iterationsText of
                  None \<Rightarrow> False
                | Some iterations \<Rightarrow>
                    if iterations \<le> 0 then False
                    else let salt = qa_fromBase64 q saltText; expected = qa_fromBase64 q keyText
                         in if salt = [] \<or> expected = [] then False
                            else constantTimeEquals
                                   (qa_toBase64 q (qa_pbkdf2 q password salt iterations (length expected))) keyText)
      | _ \<Rightarrow> False)"

definition demoteAdminSessions :: "QtAuth \<Rightarrow> AuthManager \<Rightarrow> AuthManager" where
  "demoteAdminSessions q m =
     (if list_ex (\<lambda>(i, s). si_isAdmin s) (am_Sessions m)
      then am_emit SessionsChanged (saveSessions q (map_sessions (\<lambda>s. s\<lparr>si_isAdmin := False\<rparr>) m)) else m)"

definition setAdminPassword :: "QtAuth \<Rightarrow> string \<Rightarrow> string \<Rightarrow> AuthManager \<Rightarrow> bool \<times> AuthManager" where
  "setAdminPassword q salt password m =
     (if am_Settings m = None then (False, m)
      else if length password < MIN_ADMIN_PASSWORD_LEN then (False, m)
      else (True, demoteAdminSessions q (m\<lparr>am_Settings :=
             map_option (\<lambda>st. st\<lparr>st_adminPasswordDigest := encodePassword q salt password\<rparr>) (am_Settings m)\<rparr>)))"

definition setRemoteAdminEnabled :: "QtAuth \<Rightarrow> bool \<Rightarrow> AuthManager \<Rightarrow> AuthManager" where
  "setRemoteAdminEnabled q enabled m =
     (if am_Settings m = None then m
      else let m = m\<lparr>am_Settings := map_option (\<lambda>st. st\<lparr>st_remoteAdminEnabled := enabled\<rparr>) (am_Settings m)\<rparr>
           in if \<not> enabled then demoteAdminSessions q m else m)"

definition admin_bucket :: "QtAuth \<Rightarrow> string \<Rightarrow> string" where
  "admin_bucket q ip = ''admin|'' @ rateLimitKey q ip"

definition password_matches :: "QtAuth \<Rightarrow> string \<Rightarrow> AuthManager \<Rightarrow> bool" where
  "password_matches q password m =
     (if remoteAdminEnabled m
      then case am_Settings m of
             None \<Rightarrow> False
           | Some st \<Rightarrow> st_adminPasswordDigest st \<noteq> [] \<and> passwordMatches q (st_adminPasswordDigest st) password
      else False)"

definition validateAdminPassword :: "QtAuth \<Rightarrow> int \<Rightarrow> string \<Rightarrow> string \<Rightarrow> AuthManager \<Rightarrow> ValidateResult \<times> AuthManager" where
  "validateAdminPassword q now ip password = attempt now (admin_bucket q ip) (password_matches q password)"

section \<open>Sessions\<close>

text \<open>The raw token of a new session: \<open>counter\<close>, \<open>ms\<close> and \<open>uuid\<close> are what the code draws.\<close>

definition session_token :: "QtAuth \<Rightarrow> string \<Rightarrow> int \<Rightarrow> int \<Rightarrow> string \<Rightarrow> AuthManager \<Rightarrow> string" where
  "session_token q cleanIp counter ms uuid m =
     qa_toBase64 q (qa_hmac q (cleanIp @ ''|'' @ qa_number q counter @ ''|'' @ qa_number q ms @ ''|'' @ uuid) (am_HmacKey m))"

definition new_session :: "int \<Rightarrow> string \<Rightarrow> string \<Rightarrow> string \<Rightarrow> bool \<Rightarrow> bool \<Rightarrow> bool \<Rightarrow> SessionInfo" where
  "new_session now i cleanIp machineName isHost ephemeral viaTunnel =
     no_session\<lparr>si_token := i, si_ip := cleanIp,
       si_machineName := (if machineName = [] then ''Unknown'' else machineName),
       si_createdAt := now, si_lastSeen := now, si_isHost := isHost, si_ephemeral := ephemeral,
       si_viaTunnel := viaTunnel\<rparr>"

definition createSession :: "QtAuth \<Rightarrow> int \<Rightarrow> string \<Rightarrow> string \<Rightarrow> string \<Rightarrow> bool \<Rightarrow> bool \<Rightarrow> bool \<Rightarrow> AuthManager \<Rightarrow> AuthManager" where
  "createSession q now token ip machineName isHost ephemeral viaTunnel m =
     (let i = qa_hashToken q token;
          m = put_session i (new_session now i (cleanClientAddress ip) machineName isHost ephemeral viaTunnel) m;
          m = (if \<not> ephemeral then saveSessions q m else m)
      in am_emit SessionsChanged (am_emit (SessionCreated ip machineName) m))"

definition validateSession :: "QtAuth \<Rightarrow> int \<Rightarrow> string \<Rightarrow> AuthManager \<Rightarrow> bool" where
  "validateSession q now token m =
     (if token = [] then False
      else case session_of m (qa_hashToken q token) of
             None \<Rightarrow> False
           | Some s \<Rightarrow> now - last_activity s \<le> ttlFor s)"

text \<open>A flag of the session behind a token, false where the token is not valid.\<close>

definition session_flag :: "(SessionInfo \<Rightarrow> bool) \<Rightarrow> QtAuth \<Rightarrow> int \<Rightarrow> string \<Rightarrow> AuthManager \<Rightarrow> bool" where
  "session_flag f q now token m =
     (if \<not> validateSession q now token m then False
      else case session_of m (qa_hashToken q token) of None \<Rightarrow> False | Some s \<Rightarrow> f s)"

definition isEphemeralSession :: "QtAuth \<Rightarrow> int \<Rightarrow> string \<Rightarrow> AuthManager \<Rightarrow> bool" where
  "isEphemeralSession = session_flag si_ephemeral"

definition isHostSession :: "QtAuth \<Rightarrow> int \<Rightarrow> string \<Rightarrow> AuthManager \<Rightarrow> bool" where
  "isHostSession = session_flag si_isHost"

definition isTunnelHostSession :: "QtAuth \<Rightarrow> int \<Rightarrow> string \<Rightarrow> AuthManager \<Rightarrow> bool" where
  "isTunnelHostSession = session_flag (\<lambda>s. si_isHost s \<and> si_viaTunnel s)"

definition isAdminSession :: "QtAuth \<Rightarrow> int \<Rightarrow> string \<Rightarrow> AuthManager \<Rightarrow> bool" where
  "isAdminSession = session_flag si_isAdmin"

definition promoteSessionToAdmin :: "QtAuth \<Rightarrow> int \<Rightarrow> string \<Rightarrow> AuthManager \<Rightarrow> bool \<times> AuthManager" where
  "promoteSessionToAdmin q now token m =
     (if \<not> validateSession q now token m then (False, m)
      else let i = qa_hashToken q token
           in case session_of m i of
                None \<Rightarrow> (False, m)
              | Some s \<Rightarrow>
                  if si_isAdmin s then (True, m)
                  else (True, am_emit SessionsChanged (saveSessions q (put_session i (s\<lparr>si_isAdmin := True\<rparr>) m))))"

definition touchSession :: "QtAuth \<Rightarrow> int \<Rightarrow> string \<Rightarrow> AuthManager \<Rightarrow> AuthManager" where
  "touchSession q now token m =
     (if token = [] then m
      else let i = qa_hashToken q token
           in case session_of m i of
                None \<Rightarrow> m
              | Some s \<Rightarrow>
                  let m = put_session i (s\<lparr>si_lastSeen := now\<rparr>) m
                  in if \<not> si_ephemeral s \<and> now - si_lastSeen s \<ge> 3600 then saveSessions q m else m)"

definition bindSessionKey :: "QtAuth \<Rightarrow> string \<Rightarrow> string \<Rightarrow> AuthManager \<Rightarrow> bool \<times> AuthManager" where
  "bindSessionKey q token spkiDer m =
     (if token = [] then (False, m)
      else if \<not> qa_isValidSpki q spkiDer then (False, m)
      else let i = qa_hashToken q token
           in case session_of m i of
                None \<Rightarrow> (False, m)
              | Some s \<Rightarrow>
                  if si_pairingKey s \<noteq> [] then (si_pairingKey s = spkiDer, m)
                  else let m = put_session i (s\<lparr>si_pairingKey := spkiDer\<rparr>) m
                       in (True, if \<not> si_ephemeral s then saveSessions q m else m))"

definition sessionPairingKey :: "QtAuth \<Rightarrow> string \<Rightarrow> AuthManager \<Rightarrow> string" where
  "sessionPairingKey q token m =
     (if token = [] then []
      else case session_of m (qa_hashToken q token) of None \<Rightarrow> [] | Some s \<Rightarrow> si_pairingKey s)"

definition setSessionGeo :: "QtAuth \<Rightarrow> string \<Rightarrow> string \<Rightarrow> string \<Rightarrow> AuthManager \<Rightarrow> AuthManager" where
  "setSessionGeo q token city country m =
     (let i = qa_hashToken q token
      in case session_of m i of
           None \<Rightarrow> m
         | Some s \<Rightarrow> saveSessions q (put_session i (s\<lparr>si_city := city, si_country := country\<rparr>) m))"

definition updateSessionAddress :: "QtAuth \<Rightarrow> int \<Rightarrow> string \<Rightarrow> string \<Rightarrow> AuthManager \<Rightarrow> bool \<times> AuthManager" where
  "updateSessionAddress q now token ip m =
     (let i = qa_hashToken q token
      in case session_of m i of
           None \<Rightarrow> (False, m)
         | Some s \<Rightarrow>
             let s = s\<lparr>si_lastSeen := now\<rparr>; cleanIp = cleanClientAddress ip
             in if cleanIp = [] \<or> si_ip s = cleanIp then (False, put_session i s m)
                else (True, am_emit SessionsChanged (saveSessions q
                       (put_session i (s\<lparr>si_ip := cleanIp, si_city := [], si_country := []\<rparr>) m))))"

definition setSessionStreaming :: "QtAuth \<Rightarrow> string \<Rightarrow> bool \<Rightarrow> AuthManager \<Rightarrow> AuthManager" where
  "setSessionStreaming q token streaming m =
     (if token = [] then m
      else let i = qa_hashToken q token;
               others = streaming \<and> list_ex (\<lambda>(j, s). j \<noteq> i \<and> si_streaming s) (am_Sessions m);
               cleared = (if streaming
                          then m\<lparr>am_Sessions := map (\<lambda>(j, s). (j, if j \<noteq> i then s\<lparr>si_streaming := False\<rparr> else s)) (am_Sessions m)\<rparr>
                          else m);
               own = (case session_of cleared i of None \<Rightarrow> False | Some s \<Rightarrow> si_streaming s \<noteq> streaming);
               m = (case session_of cleared i of
                      None \<Rightarrow> cleared
                    | Some s \<Rightarrow> if si_streaming s \<noteq> streaming then put_session i (s\<lparr>si_streaming := streaming\<rparr>) cleared else cleared)
           in if others \<or> own then am_emit SessionsChanged (saveSessions q m) else m)"

definition renameSession :: "QtAuth \<Rightarrow> string \<Rightarrow> string \<Rightarrow> AuthManager \<Rightarrow> bool \<times> AuthManager" where
  "renameSession q i machineName m =
     (case session_of m i of
        None \<Rightarrow> (False, m)
      | Some s \<Rightarrow> (True, am_emit SessionsChanged (saveSessions q (put_session i (s\<lparr>si_machineName := machineName\<rparr>) m))))"

definition auth_sessions :: "AuthManager \<Rightarrow> SessionInfo list" where
  "auth_sessions m = sort_key (\<lambda>s. (- si_createdAt s, si_token s)) (map snd (am_Sessions m))"

definition sessionForToken :: "QtAuth \<Rightarrow> string \<Rightarrow> AuthManager \<Rightarrow> SessionInfo" where
  "sessionForToken q token m =
     (if token = [] then no_session
      else case session_of m (qa_hashToken q token) of None \<Rightarrow> no_session | Some s \<Rightarrow> s)"

definition sessionIdForToken :: "QtAuth \<Rightarrow> string \<Rightarrow> AuthManager \<Rightarrow> string" where
  "sessionIdForToken q token m =
     (if token = [] then []
      else let i = qa_hashToken q token in if session_of m i = None then [] else i)"

definition activeSessionCount :: "AuthManager \<Rightarrow> nat" where
  "activeSessionCount m = length (am_Sessions m)"

section \<open>The home screen's keys\<close>

definition homeScreenKey :: "QtAuth \<Rightarrow> int \<Rightarrow> string \<Rightarrow> string \<Rightarrow> AuthManager \<Rightarrow> string \<times> AuthManager" where
  "homeScreenKey q now random token m =
     (if \<not> validateSession q now token m \<or> isEphemeralSession q now token m then ([], m)
      else let i = qa_hashToken q token;
               fresh = \<lparr>hk_key = HOME_SCREEN_KEY_PREFIX @ qa_toBase64Url q random, hk_issuedAt = now\<rparr>;
               mint = (hk_key fresh, m\<lparr>am_HomeScreenKeys := AList.update i fresh (am_HomeScreenKeys m)\<rparr>)
           in case map_of (am_HomeScreenKeys m) i of
                None \<Rightarrow> mint
              | Some k \<Rightarrow> if now - hk_issuedAt k < HOME_SCREEN_KEY_TTL_SECS div 2 then (hk_key k, m) else mint)"

definition setHomeScreenInstances :: "QtAuth \<Rightarrow> int \<Rightarrow> string \<Rightarrow> string \<Rightarrow> AuthManager \<Rightarrow> AuthManager" where
  "setHomeScreenInstances q now token instances m =
     (if \<not> validateSession q now token m then m
      else m\<lparr>am_HomeScreenInstances := AList.update (qa_hashToken q token) instances (am_HomeScreenInstances m)\<rparr>)"

record HomeScreenHandoff =
  hh_machineName :: string
  hh_instances :: string

text \<open>Every entry is compared; the last that matches counts, and an empty id is none.\<close>

definition key_owner :: "string \<Rightarrow> AuthManager \<Rightarrow> string" where
  "key_owner key m = fold (\<lambda>(i, k) found. if constantTimeEquals (hk_key k) key then i else found) (am_HomeScreenKeys m) []"

definition redeemHomeScreenKey :: "int \<Rightarrow> string \<Rightarrow> AuthManager \<Rightarrow> HomeScreenHandoff option \<times> AuthManager" where
  "redeemHomeScreenKey now key m =
     (if \<not> prefix HOME_SCREEN_KEY_PREFIX key then (None, m)
      else let i = key_owner key m
           in if i = [] then (None, m)
              else let m' = m\<lparr>am_HomeScreenKeys := AList.delete i (am_HomeScreenKeys m)\<rparr>;
                       issued = (case map_of (am_HomeScreenKeys m) i of Some k \<Rightarrow> hk_issuedAt k | None \<Rightarrow> 0)
                   in if now - issued > HOME_SCREEN_KEY_TTL_SECS then (None, m')
                      else (case session_of m' i of
                              None \<Rightarrow> (None, m')
                            | Some s \<Rightarrow>
                                if inactive now s then (None, m')
                                else (Some \<lparr>hh_machineName = si_machineName s,
                                        hh_instances = (case map_of (am_HomeScreenInstances m') i of Some x \<Rightarrow> x | None \<Rightarrow> [])\<rparr>, m')))"

end
