(* ===== verification/Auth_Life.thy ===== *)
theory Auth_Life
  imports Auth_Manager
begin

text \<open>
  \<open>AuthManager\<close> over its life: the calls its owners make, restarts included, and what no sequence of them can
  undo. A restart is the constructor on the settings and the file the last manager left. What the callers owe
  is \<open>auth_ok\<close>: a clock that does not go back, random tokens and keys that are new, and a promotion only while
  remote administration is on and has a password.
\<close>

section \<open>The calls\<close>

datatype AuthCall =
    CreateSession string string string bool bool bool
  | LogoutSession string
  | DestroySession string
  | DestroyAll
  | PurgeSessions
  | GeneratePin string
  | RegeneratePin string
  | AutoRegeneratePin string
  | ClearPin
  | TryPin string string
  | TryPassword string string
  | SetPassword string string
  | EnableRemoteAdmin bool
  | Promote string
  | Touch string
  | BindKey string string
  | SetGeo string string string
  | UpdateAddress string string
  | SetSessionStreaming string bool
  | Rename string string
  | MintKey string string
  | SetInstances string string
  | RedeemKey string
  | NewCertificate string
  | EnableCertificate bool
  | RestartAuth string

fun auth_call :: "QtAuth \<Rightarrow> int \<times> AuthCall \<Rightarrow> AuthManager \<Rightarrow> AuthManager" where
  "auth_call q (now, CreateSession token ip name host eph tunnel) m = createSession q now token ip name host eph tunnel m"
| "auth_call q (now, LogoutSession token) m = snd (logoutSession q token m)"
| "auth_call q (now, DestroySession i) m = destroySession q i m"
| "auth_call q (now, DestroyAll) m = destroyAllSessions q m"
| "auth_call q (now, PurgeSessions) m = purgeExpiredSessions q now m"
| "auth_call q (now, GeneratePin pin) m = generatePin pin m"
| "auth_call q (now, RegeneratePin pin) m = regeneratePin q pin m"
| "auth_call q (now, AutoRegeneratePin pin) m = autoRegeneratePin pin m"
| "auth_call q (now, ClearPin) m = clearPin m"
| "auth_call q (now, TryPin ip pin) m = snd (validatePin q now ip pin m)"
| "auth_call q (now, TryPassword ip pw) m = snd (validateAdminPassword q now ip pw m)"
| "auth_call q (now, SetPassword salt pw) m = snd (setAdminPassword q salt pw m)"
| "auth_call q (now, EnableRemoteAdmin b) m = setRemoteAdminEnabled q b m"
| "auth_call q (now, Promote token) m = snd (promoteSessionToAdmin q now token m)"
| "auth_call q (now, Touch token) m = touchSession q now token m"
| "auth_call q (now, BindKey token spki) m = snd (bindSessionKey q token spki m)"
| "auth_call q (now, SetGeo token city country) m = setSessionGeo q token city country m"
| "auth_call q (now, UpdateAddress token ip) m = snd (updateSessionAddress q now token ip m)"
| "auth_call q (now, SetSessionStreaming token b) m = setSessionStreaming q token b m"
| "auth_call q (now, Rename i name) m = snd (renameSession q i name m)"
| "auth_call q (now, MintKey random token) m = snd (homeScreenKey q now random token m)"
| "auth_call q (now, SetInstances token text) m = setHomeScreenInstances q now token text m"
| "auth_call q (now, RedeemKey key) m = snd (redeemHomeScreenKey now key m)"
| "auth_call q (now, NewCertificate token) m = generateCertificateToken token m"
| "auth_call q (now, EnableCertificate b) m = setCertAuthEnabled b m"
| "auth_call q (now, RestartAuth fresh) m = am_new q now fresh (am_Settings m) (am_File m) (am_Writable m)"

text \<open>The door to remote administration, and what a caller owes.\<close>

definition door_open :: "AuthManager \<Rightarrow> bool" where
  "door_open m \<longleftrightarrow> remoteAdminEnabled m \<and> adminPasswordSet m"

definition minted_key :: "QtAuth \<Rightarrow> string \<Rightarrow> string" where
  "minted_key q random = HOME_SCREEN_KEY_PREFIX @ qa_toBase64Url q random"

fun caller_ok :: "QtAuth \<Rightarrow> AuthCall \<Rightarrow> AuthManager \<Rightarrow> bool" where
  "caller_ok q (CreateSession token ip name host eph tunnel) m = (session_of m (qa_hashToken q token) = None)"
| "caller_ok q (Promote token) m = door_open m"
| "caller_ok q (MintKey random token) m = (CHR 0x00 \<notin> set (minted_key q random) \<and>
     minted_key q random \<notin> (\<lambda>(i, k). hk_key k) ` set (am_HomeScreenKeys m))"
| "caller_ok q _ m = True"

definition auth_ok :: "QtAuth \<Rightarrow> int \<times> AuthCall \<Rightarrow> int \<times> AuthManager \<Rightarrow> bool" where
  "auth_ok q e = (\<lambda>(t, m). t \<le> fst e \<and> 0 < fst e \<and> caller_ok q (snd e) m)"

definition timed_auth :: "QtAuth \<Rightarrow> int \<times> AuthCall \<Rightarrow> int \<times> AuthManager \<Rightarrow> int \<times> AuthManager" where
  "timed_auth q e = (\<lambda>(t, m). (fst e, auth_call q e m))"

text \<open>A fresh installation: no file, no password, a disk that can be written.\<close>

definition fresh_auth :: "QtAuth \<Rightarrow> AuthSettings \<Rightarrow> int \<times> AuthManager" where
  "fresh_auth q st = (0, am_new q 0 (st_hmacKey st) (Some st) None True)"

section \<open>The sessions after each operation\<close>

lemma session_of_emit [simp]: "session_of (am_emit x m) = session_of m"
  by (simp add: session_of_def am_emit_def)

lemma session_of_save [simp]: "session_of (saveSessions q m) = session_of m"
  by (simp add: session_of_def saveSessions_def)

lemma session_of_put [simp]: "session_of (put_session i s m) = (session_of m)(i \<mapsto> s)"
  by (auto simp: session_of_def put_session_def update_conv')

lemma session_of_map [simp]: "session_of (map_sessions f m) i = map_option f (session_of m i)"
  by (simp add: session_of_def map_sessions_def map_of_map)

lemma session_of_destroy: "session_of (destroySession q i m) = (session_of m)(i := None)"
  by (auto simp: destroySession_def Let_def session_of_def saveSessions_def am_emit_def delete_conv' split: option.split)

lemma session_of_destroyAll: "session_of (destroyAllSessions q m) = (\<lambda>_. None)"
  by (auto simp: destroyAllSessions_def Let_def session_of_def saveSessions_def am_emit_def)

lemma map_of_kept: "distinct (map fst xs) \<Longrightarrow> map_of (filter (\<lambda>(i, s). P s) xs) i =
    (case map_of xs i of None \<Rightarrow> None | Some s \<Rightarrow> if P s then Some s else None)"
  by (induction xs) (auto simp: map_of_eq_None_iff image_iff split: option.split)

lemma session_of_purge: "distinct (map fst (am_Sessions m)) \<Longrightarrow> session_of (purgeExpiredSessions q now m) i =
    (case session_of m i of None \<Rightarrow> None | Some s \<Rightarrow> if inactive now s then None else Some s)"
proof (cases "length (filter (\<lambda>(i, s). \<not> inactive now s) (am_Sessions m)) < length (am_Sessions m)")
  case True
  assume "distinct (map fst (am_Sessions m))"
  from map_of_kept[OF this, of "\<lambda>s. \<not> inactive now s" i] show ?thesis using True
    by (simp add: purgeExpiredSessions_def Let_def session_of_def saveSessions_def am_emit_def split: option.split)
next
  case False
  assume d: "distinct (map fst (am_Sessions m))"
  have "filter (\<lambda>(i, s). \<not> inactive now s) (am_Sessions m) = am_Sessions m"
    using False length_filter_less by (metis (no_types, lifting) filter_True)
  with map_of_kept[OF d, of "\<lambda>s. \<not> inactive now s" i] False show ?thesis
    by (cases "map_of (am_Sessions m) i") (auto simp: purgeExpiredSessions_def session_of_def split: if_splits)
qed

lemma session_of_pins [simp]:
  "session_of (generatePin pin m) = session_of m" "session_of (autoRegeneratePin pin m) = session_of m"
  "session_of (clearPin m) = session_of m" "session_of (generateCertificateToken c m) = session_of m"
  "session_of (setCertAuthEnabled b m) = session_of m" "session_of (regeneratePin q pin m) = (\<lambda>_. None)"
  using session_of_destroyAll[of q m]
  by (simp_all add: generatePin_def autoRegeneratePin_def clearPin_def generateCertificateToken_def regeneratePin_def
      setCertAuthEnabled_def session_of_def am_emit_def)

lemma session_of_attempt [simp]:
  "session_of (snd (attempt now b f m)) = session_of m"
  "session_of (snd (validatePin q now ip pin m)) = session_of m"
  "session_of (snd (validateAdminPassword q now ip pw m)) = session_of m"
  by (simp_all add: attempt_def recordAttempt_def cleanupExpired_def validatePin_def validateAdminPassword_def
      session_of_def Let_def)

lemma session_of_home [simp]:
  "session_of (snd (homeScreenKey q now random token m)) = session_of m"
  "session_of (setHomeScreenInstances q now token text m) = session_of m"
  "session_of (snd (redeemHomeScreenKey now key m)) = session_of m"
  by (simp_all add: homeScreenKey_def setHomeScreenInstances_def redeemHomeScreenKey_def session_of_def Let_def
      split: option.split)

lemma session_of_demote: "session_of (demoteAdminSessions q m) i = map_option (\<lambda>s. s\<lparr>si_isAdmin := False\<rparr>) (session_of m i)"
proof (cases "list_ex (\<lambda>(i, s). si_isAdmin s) (am_Sessions m)")
  case False
  have "s\<lparr>si_isAdmin := False\<rparr> = s" if "session_of m i = Some s" for s
  proof -
    have "\<not> si_isAdmin s" using that False by (fastforce simp: session_of_def list_ex_iff dest: map_of_SomeD)
    then show ?thesis by (cases s) simp
  qed
  then show ?thesis using False by (cases "session_of m i") (auto simp: demoteAdminSessions_def)
qed (simp add: demoteAdminSessions_def)

lemma session_of_settings [simp]: "session_of (m\<lparr>am_Settings := x\<rparr>) = session_of m"
  by (simp add: session_of_def)

lemma session_of_password: "session_of (snd (setAdminPassword q salt pw m)) i =
    (if am_Settings m = None \<or> length pw < MIN_ADMIN_PASSWORD_LEN then session_of m i
     else map_option (\<lambda>s. s\<lparr>si_isAdmin := False\<rparr>) (session_of m i))"
  by (simp add: setAdminPassword_def session_of_demote)

lemma session_of_enable: "session_of (setRemoteAdminEnabled q b m) i =
    (if am_Settings m = None \<or> b then session_of m i else map_option (\<lambda>s. s\<lparr>si_isAdmin := False\<rparr>) (session_of m i))"
  by (simp add: setRemoteAdminEnabled_def session_of_demote Let_def)

text \<open>Who streams after a call: with the flag set, the one session alone.\<close>

lemma session_of_streaming: "session_of (setSessionStreaming q token b m) i =
    (if token = [] then session_of m i
     else map_option (\<lambda>s. if i = qa_hashToken q token then s\<lparr>si_streaming := b\<rparr>
                          else if b then s\<lparr>si_streaming := False\<rparr> else s) (session_of m i))"
proof (cases "token = []")
  case False
  let ?h = "qa_hashToken q token"
  define cleared where "cleared = (if b
      then m\<lparr>am_Sessions := map (\<lambda>(j, s). (j, if j \<noteq> ?h then s\<lparr>si_streaming := False\<rparr> else s)) (am_Sessions m)\<rparr> else m)"
  have same: "s\<lparr>si_streaming := b\<rparr> = s" if "si_streaming s = b" for s b using that by (cases s) simp
  have mapped: "map_of (map (\<lambda>(j, s). (j, if j \<noteq> h then f s else s)) xs) k =
      map_option (\<lambda>s. if k \<noteq> h then f s else s) (map_of xs k)"
    for h k :: string and f :: "SessionInfo \<Rightarrow> SessionInfo" and xs
    by (induction xs) auto
  have c: "session_of cleared k = map_option (\<lambda>s. if b \<and> k \<noteq> ?h then s\<lparr>si_streaming := False\<rparr> else s) (session_of m k)" for k
    by (cases "session_of m k") (auto simp: cleared_def session_of_def mapped)
  let ?set = "\<lambda>found. case found of None \<Rightarrow> cleared
    | Some s \<Rightarrow> if si_streaming s \<noteq> b then put_session ?h (s\<lparr>si_streaming := b\<rparr>) cleared else cleared"
  have "session_of (setSessionStreaming q token b m) i = session_of (?set (session_of cleared ?h)) i"
    unfolding setSessionStreaming_def Let_def cleared_def[symmetric]
    by (simp only: False if_False session_of_emit session_of_save split: if_split) simp
  also have "\<dots> = (if i = ?h then map_option (\<lambda>s. s\<lparr>si_streaming := b\<rparr>) (session_of cleared ?h) else session_of cleared i)"
    by (cases "session_of cleared ?h") (auto simp: same)
  finally show ?thesis using False by (cases "i = ?h"; cases "session_of m i") (simp_all add: c)
qed (simp add: setSessionStreaming_def)

section \<open>What a call keeps of a session\<close>

text \<open>The session a call leaves under an id is the one that was there: its token, birth, kind and, once it is bound,
  its key stay, its clock moves to now or not at all, it is admin only if it was or was promoted, and
  streams only if it did or was told to.\<close>

definition carries :: "QtAuth \<Rightarrow> int \<Rightarrow> bool \<Rightarrow> bool \<Rightarrow> SessionInfo \<Rightarrow> SessionInfo \<Rightarrow> bool" where
  "carries q now promoted streams s s' \<longleftrightarrow> (si_streaming s' \<longrightarrow> si_streaming s \<or> streams) \<and> si_token s' = si_token s \<and> si_createdAt s' = si_createdAt s \<and>
     si_isHost s' = si_isHost s \<and> si_viaTunnel s' = si_viaTunnel s \<and> si_ephemeral s' = si_ephemeral s \<and>
     si_lastSeen s' \<in> {si_lastSeen s, now} \<and> (si_isAdmin s' \<longrightarrow> si_isAdmin s \<or> promoted) \<and>
     (si_pairingKey s' = si_pairingKey s \<or> si_pairingKey s = [] \<and> qa_isValidSpki q (si_pairingKey s'))"

lemma carries_refl [simp]: "carries q now p r s s"
  by (simp add: carries_def)

fun creates :: "QtAuth \<Rightarrow> string \<Rightarrow> AuthCall \<Rightarrow> bool" where
  "creates q i (CreateSession token ip name host eph tunnel) \<longleftrightarrow> i = qa_hashToken q token"
| "creates q i _ \<longleftrightarrow> False"

fun promotes :: "QtAuth \<Rightarrow> string \<Rightarrow> AuthCall \<Rightarrow> bool" where
  "promotes q i (Promote token) \<longleftrightarrow> i = qa_hashToken q token"
| "promotes q i _ \<longleftrightarrow> False"

fun streams :: "QtAuth \<Rightarrow> string \<Rightarrow> AuthCall \<Rightarrow> bool" where
  "streams q i (SetSessionStreaming token b) \<longleftrightarrow> b \<and> i = qa_hashToken q token"
| "streams q i _ \<longleftrightarrow> False"

fun restarts :: "AuthCall \<Rightarrow> bool" where
  "restarts (RestartAuth fresh) = True"
| "restarts _ = False"

lemma call_session:
  assumes "distinct (map fst (am_Sessions m))" and "\<not> creates q i c" and "\<not> restarts c"
    and "session_of (auth_call q (now, c) m) i = Some s'"
  shows "\<exists>s. session_of m i = Some s \<and> carries q now (promotes q i c) (streams q i c) s s'"
proof (cases c)
  case (CreateSession token ip name host eph tunnel)
  then show ?thesis using assms by (auto simp: createSession_def Let_def split: if_splits)
next
  case (LogoutSession token)
  then show ?thesis using assms by (auto simp: logoutSession_def session_of_destroy Let_def split: if_splits)
next
  case PurgeSessions
  then show ?thesis using assms by (auto simp: session_of_purge split: option.splits if_splits)
next
  case (SetPassword salt pw)
  then show ?thesis using assms by (auto simp: session_of_password carries_def split: if_splits)
next
  case (EnableRemoteAdmin b)
  then show ?thesis using assms by (auto simp: session_of_enable carries_def split: if_splits)
next
  case (Promote token)
  then show ?thesis using assms
    by (auto simp: promoteSessionToAdmin_def carries_def Let_def split: if_splits option.splits)
next
  case (Touch token)
  then show ?thesis using assms by (auto simp: touchSession_def carries_def Let_def split: if_splits option.splits)
next
  case (BindKey token spki)
  then show ?thesis using assms by (auto simp: bindSessionKey_def carries_def Let_def split: if_splits option.splits)
next
  case (SetGeo token city country)
  then show ?thesis using assms by (auto simp: setSessionGeo_def carries_def Let_def split: if_splits option.splits)
next
  case (UpdateAddress token ip)
  then show ?thesis using assms by (auto simp: updateSessionAddress_def carries_def Let_def split: if_splits option.splits)
next
  case (SetSessionStreaming token b)
  then show ?thesis using assms by (auto simp: session_of_streaming carries_def split: if_splits)
next
  case (Rename j name)
  then show ?thesis using assms by (auto simp: renameSession_def carries_def split: if_splits option.splits)
qed (use assms in \<open>simp_all add: session_of_destroy session_of_destroyAll split: if_splits\<close>)

section \<open>The file after each operation\<close>

text \<open>What the file says of a session: all of it, its clock perhaps an earlier one.\<close>

definition saved_as :: "QtAuth \<Rightarrow> SessionInfo \<Rightarrow> SavedSession \<Rightarrow> bool" where
  "saved_as q s f \<longleftrightarrow> (\<exists>l. 0 < l \<and> l \<le> si_lastSeen s \<and> f = session_toJson q (s\<lparr>si_lastSeen := l\<rparr>))"

definition expired_entry :: "int \<Rightarrow> SavedSession \<Rightarrow> bool" where
  "expired_entry t f \<longleftrightarrow> (case sj_last_seen f of Some l \<Rightarrow> 0 < l \<and> t - l > SESSION_TTL_SECS | None \<Rightarrow> False)"

definition remembered :: "AuthManager \<Rightarrow> string \<Rightarrow> SessionInfo option" where
  "remembered m i = (case session_of m i of Some s \<Rightarrow> if si_ephemeral s then None else Some s | None \<Rightarrow> None)"

lemma remembered_iff: "remembered m i = Some s \<longleftrightarrow> session_of m i = Some s \<and> \<not> si_ephemeral s"
  by (auto simp: remembered_def split: option.split)

definition saved_list :: "AuthManager \<Rightarrow> SavedSession list" where
  "saved_list m = (case am_File m of Some fs \<Rightarrow> fs | None \<Rightarrow> [])"

definition file_ok :: "QtAuth \<Rightarrow> int \<Rightarrow> AuthManager \<Rightarrow> bool" where
  "file_ok q t m \<longleftrightarrow> distinct (map sj_token (saved_list m)) \<and>
     (\<forall>f \<in> set (saved_list m). expired_entry t f \<or> (\<exists>s. remembered m (sj_token f) = Some s \<and> saved_as q s f)) \<and>
     (\<forall>i s. remembered m i = Some s \<longrightarrow> (\<exists>f \<in> set (saved_list m). sj_token f = i \<and> saved_as q s f))"

text \<open>What the manager keeps of every session, of its keys, and of itself.\<close>

definition sess_ok :: "QtAuth \<Rightarrow> int \<Rightarrow> bool \<Rightarrow> string \<Rightarrow> SessionInfo \<Rightarrow> bool" where
  "sess_ok q t door i s \<longleftrightarrow> si_token s = i \<and> 0 < si_lastSeen s \<and> si_lastSeen s \<le> t \<and>
     (si_pairingKey s = [] \<or> qa_isValidSpki q (si_pairingKey s)) \<and> (si_isAdmin s \<longrightarrow> door)"

definition table_ok :: "QtAuth \<Rightarrow> int \<Rightarrow> AuthManager \<Rightarrow> bool" where
  "table_ok q t m \<longleftrightarrow> am_Settings m \<noteq> None \<and> am_Writable m \<and> distinct (map fst (am_Sessions m)) \<and>
     (\<forall>i s. session_of m i = Some s \<longrightarrow> sess_ok q t (door_open m) i s)"

lemma saved_now: "0 < si_lastSeen s \<Longrightarrow> saved_as q s (session_toJson q s)"
  by (auto simp: saved_as_def intro!: exI[of _ "si_lastSeen s"])

lemma token_toJson [simp]: "sj_token (session_toJson q s) = si_token s"
  by (simp add: session_toJson_def)

lemma saved_token: "saved_as q s f \<Longrightarrow> sj_token f = si_token s"
  by (auto simp: saved_as_def)

text \<open>A save makes the file right, whatever it was before.\<close>

lemma file_saved:
  assumes "table_ok q t m"
  shows "file_ok q t (saveSessions q m)"
proof -
  let ?kept = "filter (\<lambda>s. \<not> si_ephemeral s) (map snd (am_Sessions m))"
  have d: "distinct (map fst (am_Sessions m))" and ok: "session_of m i = Some s \<Longrightarrow> sess_ok q t (door_open m) i s" for i s
    using assms by (auto simp: table_ok_def)
  have mem: "(i, s) \<in> set (am_Sessions m) \<longleftrightarrow> session_of m i = Some s" for i s
    using d by (simp add: session_of_def)
  have tok: "si_token s = i" if "(i, s) \<in> set (am_Sessions m)" for i s using ok that mem by (auto simp: sess_ok_def)
  have "map si_token (map snd (am_Sessions m)) = map fst (am_Sessions m)"
    using tok by auto
  then have "distinct (map si_token (map snd (am_Sessions m)))" using d by (simp only:)
  then have "distinct (map si_token ?kept)" by (rule distinct_map_filter)
  then have dist: "distinct (map sj_token (map (session_toJson q) ?kept))" by (simp add: comp_def)
  have kept: "s \<in> set ?kept \<longleftrightarrow> remembered m (si_token s) = Some s" for s
  proof -
    have "s \<in> set ?kept \<longleftrightarrow> \<not> si_ephemeral s \<and> (\<exists>i. (i, s) \<in> set (am_Sessions m))" by force
    also have "\<dots> \<longleftrightarrow> \<not> si_ephemeral s \<and> (si_token s, s) \<in> set (am_Sessions m)" using tok by metis
    finally show ?thesis by (simp add: remembered_iff mem conj_commute)
  qed
  have good: "saved_as q s (session_toJson q s)" "si_token s = i" if "remembered m i = Some s" for i s
    using ok that by (auto simp: remembered_iff sess_ok_def intro: saved_now)
  have rem: "remembered (saveSessions q m) = remembered m" by (simp add: remembered_def fun_eq_iff)
  have disk: "saved_list (saveSessions q m) = map (session_toJson q) ?kept"
    using assms by (auto simp: saveSessions_def table_ok_def saved_list_def)
  note dist
  moreover have "\<exists>s. remembered m (sj_token f) = Some s \<and> saved_as q s f" if f: "f \<in> session_toJson q ` set ?kept" for f
  proof -
    obtain s where "f = session_toJson q s" "s \<in> set ?kept" using f by blast
    then show ?thesis using kept[of s] good(1)[of "si_token s" s] by auto
  qed
  moreover have "\<exists>f \<in> session_toJson q ` set ?kept. sj_token f = i \<and> saved_as q s f" if r: "remembered m i = Some s" for i s
    using kept[of s] good[OF r] r by (intro bexI[of _ "session_toJson q s"] imageI) simp_all
  ultimately show ?thesis unfolding file_ok_def rem disk by (simp only: set_map) blast
qed

definition clock_moved :: "SessionInfo \<Rightarrow> SessionInfo \<Rightarrow> bool" where
  "clock_moved s s' \<longleftrightarrow> (\<exists>l b. si_lastSeen s \<le> l \<and> s' = s\<lparr>si_lastSeen := l, si_streaming := b\<rparr>)"

lemma clock_moved_intros [intro!]:
  "clock_moved s s" "clock_moved s (s\<lparr>si_streaming := b\<rparr>)"
  "si_lastSeen s \<le> l \<Longrightarrow> clock_moved s (s\<lparr>si_lastSeen := l\<rparr>)"
  unfolding clock_moved_def
    apply (intro exI[of _ "si_lastSeen s"] exI[of _ "si_streaming s"]; cases s; simp)
   apply (intro exI[of _ "si_lastSeen s"] exI[of _ b]; cases s; simp)
  apply (intro exI[of _ l] exI[of _ "si_streaming s"]; cases s; simp)
  done

text \<open>A call that does not save leaves the file right as long as no remembered session changed but for its clock and
  whether it streams.\<close>

lemma file_kept:
  assumes "file_ok q t m" and "am_File m' = am_File m" and "t \<le> t'"
    and "\<And>i. rel_option clock_moved (remembered m i) (remembered m' i)"
  shows "file_ok q t' m'"
proof -
  have saved: "saved_as q (s\<lparr>si_lastSeen := l, si_streaming := b\<rparr>) f" if sv: "saved_as q s f" and le: "si_lastSeen s \<le> l" for s f l b
  proof -
    obtain k where "0 < k" "k \<le> si_lastSeen s" "f = session_toJson q (s\<lparr>si_lastSeen := k\<rparr>)"
      using sv by (auto simp: saved_as_def)
    then show ?thesis using le by (auto simp: saved_as_def session_toJson_def intro!: exI[of _ k])
  qed
  have fwd: "\<exists>s'. remembered m' i = Some s' \<and> saved_as q s' f" if "remembered m i = Some s" "saved_as q s f" for i s f
    using assms(4)[of i] that saved by (auto simp: option_rel_Some1 clock_moved_def)
  have bwd: "\<exists>s. remembered m i = Some s \<and> (\<forall>f. saved_as q s f \<longrightarrow> saved_as q s' f)" if "remembered m' i = Some s'" for i s'
    using assms(4)[of i] that saved by (auto simp: option_rel_Some2 clock_moved_def)
  have later: "expired_entry t f \<Longrightarrow> expired_entry t' f" for f
    using assms(3) by (auto simp: expired_entry_def split: option.splits)
  show ?thesis using assms(1) fwd bwd later unfolding file_ok_def saved_list_def assms(2) by meson
qed

section \<open>Settings, disk and table after each operation\<close>

lemma frame_parts [simp]:
  "am_Settings (am_emit x m) = am_Settings m" "am_Writable (am_emit x m) = am_Writable m"
  "am_Settings (saveSessions q m) = am_Settings m" "am_Writable (saveSessions q m) = am_Writable m"
  "am_Settings (put_session i s m) = am_Settings m" "am_Writable (put_session i s m) = am_Writable m"
  "am_Settings (map_sessions f m) = am_Settings m" "am_Writable (map_sessions f m) = am_Writable m"
  "am_Sessions (am_emit x m) = am_Sessions m" "am_Sessions (saveSessions q m) = am_Sessions m"
  "am_File (am_emit x m) = am_File m" "am_File (put_session i s m) = am_File m"
  by (simp_all add: am_emit_def saveSessions_def put_session_def map_sessions_def)

definition keeps_settings :: "AuthCall \<Rightarrow> bool" where
  "keeps_settings c \<longleftrightarrow> (case c of SetPassword _ _ \<Rightarrow> False | EnableRemoteAdmin _ \<Rightarrow> False | NewCertificate _ \<Rightarrow> False
     | EnableCertificate _ \<Rightarrow> False | RestartAuth _ \<Rightarrow> False | _ \<Rightarrow> True)"

lemma frame_destroy [simp]:
  "am_Settings (destroySession q i m) = am_Settings m" "am_Writable (destroySession q i m) = am_Writable m"
  "am_Settings (destroyAllSessions q m) = am_Settings m" "am_Writable (destroyAllSessions q m) = am_Writable m"
  "am_Settings (purgeExpiredSessions q now m) = am_Settings m" "am_Writable (purgeExpiredSessions q now m) = am_Writable m"
  "am_Settings (demoteAdminSessions q m) = am_Settings m" "am_Writable (demoteAdminSessions q m) = am_Writable m"
  by (simp_all add: destroySession_def destroyAllSessions_def purgeExpiredSessions_def demoteAdminSessions_def Let_def
      split: option.split)

lemma frame_attempt [simp]:
  "am_Settings (snd (attempt now b f m)) = am_Settings m" "am_Writable (snd (attempt now b f m)) = am_Writable m"
  "am_Sessions (snd (attempt now b f m)) = am_Sessions m" "am_File (snd (attempt now b f m)) = am_File m"
  "am_HomeScreenKeys (snd (attempt now b f m)) = am_HomeScreenKeys m"
  by (simp_all add: attempt_def recordAttempt_def cleanupExpired_def Let_def)

lemma frame_pins [simp]:
  "am_Settings (generatePin pin m) = am_Settings m" "am_Writable (generatePin pin m) = am_Writable m"
  "am_Settings (autoRegeneratePin pin m) = am_Settings m" "am_Writable (autoRegeneratePin pin m) = am_Writable m"
  "am_Settings (clearPin m) = am_Settings m" "am_Writable (clearPin m) = am_Writable m"
  "am_Settings (regeneratePin q pin m) = am_Settings m" "am_Writable (regeneratePin q pin m) = am_Writable m"
  by (simp_all add: generatePin_def autoRegeneratePin_def clearPin_def regeneratePin_def)

lemma call_settings: "keeps_settings c \<Longrightarrow> am_Settings (auth_call q (now, c) m) = am_Settings m"
  by (cases c) (auto simp: keeps_settings_def createSession_def logoutSession_def validatePin_def
      validateAdminPassword_def promoteSessionToAdmin_def touchSession_def bindSessionKey_def setSessionGeo_def
      updateSessionAddress_def setSessionStreaming_def renameSession_def homeScreenKey_def setHomeScreenInstances_def
      redeemHomeScreenKey_def Let_def split: option.split)

lemma load_frame [simp]:
  "am_Settings (loadSessions q now m) = am_Settings m" "am_Writable (loadSessions q now m) = am_Writable m"
  "am_File (loadSessions q now m) = am_File m" "am_HomeScreenKeys (loadSessions q now m) = am_HomeScreenKeys m"
  by (simp_all add: loadSessions_def split: option.split)

lemma call_writable: "am_Writable (auth_call q (now, c) m) = am_Writable m"
  by (cases c) (auto simp: createSession_def logoutSession_def validatePin_def setAdminPassword_def setRemoteAdminEnabled_def
      validateAdminPassword_def promoteSessionToAdmin_def touchSession_def bindSessionKey_def setSessionGeo_def
      updateSessionAddress_def setSessionStreaming_def renameSession_def homeScreenKey_def setHomeScreenInstances_def
      redeemHomeScreenKey_def generateCertificateToken_def setCertAuthEnabled_def am_new_def Let_def split: option.split)

lemma call_has_settings: "am_Settings m \<noteq> None \<Longrightarrow> am_Settings (auth_call q (now, c) m) \<noteq> None"
proof (cases "keeps_settings c")
  case True
  assume "am_Settings m \<noteq> None"
  then show ?thesis by (simp only: call_settings[OF True]) simp
next
  case False
  assume "am_Settings m \<noteq> None"
  then show ?thesis using False
    by (cases c) (auto simp: keeps_settings_def setAdminPassword_def setRemoteAdminEnabled_def generateCertificateToken_def
      setCertAuthEnabled_def am_new_def Let_def split: option.split)
qed

lemma distinct_sessions:
  assumes "distinct (map fst (am_Sessions m))" and "\<not> restarts c"
  shows "distinct (map fst (am_Sessions (auth_call q (now, c) m)))"
proof -
  have upd: "distinct (map fst (am_Sessions (put_session i s n)))" if "distinct (map fst (am_Sessions n))" for i s n
    using that by (simp add: put_session_def distinct_update)
  have mapped: "map (fst \<circ> (\<lambda>(i, s). (i, f i s))) xs = map fst xs" for f :: "string \<Rightarrow> SessionInfo \<Rightarrow> SessionInfo" and xs
    by (induction xs) auto
  show ?thesis
    using assms
    by (cases c) (simp_all add: createSession_def logoutSession_def destroySession_def destroyAllSessions_def distinct_delete
        purgeExpiredSessions_def distinct_map_filter validatePin_def generatePin_def regeneratePin_def autoRegeneratePin_def
        clearPin_def demoteAdminSessions_def setAdminPassword_def setRemoteAdminEnabled_def map_sessions_def mapped upd
        validateAdminPassword_def promoteSessionToAdmin_def touchSession_def bindSessionKey_def setSessionGeo_def
        updateSessionAddress_def setSessionStreaming_def renameSession_def homeScreenKey_def setHomeScreenInstances_def
        redeemHomeScreenKey_def generateCertificateToken_def setCertAuthEnabled_def Let_def split: option.split)
qed

section \<open>Every call keeps the table and the file\<close>

lemma door_cong: "am_Settings m' = am_Settings m \<Longrightarrow> door_open m' = door_open m"
  by (simp add: door_open_def remoteAdminEnabled_def adminPasswordSet_def)

lemma table_step:
  assumes "table_ok q t m" and "auth_ok q (now, c) (t, m)" and "\<not> restarts c"
  shows "table_ok q now (auth_call q (now, c) m)"
proof -
  let ?m = "auth_call q (now, c) m"
  have d: "distinct (map fst (am_Sessions m))" and st: "am_Settings m \<noteq> None" and w: "am_Writable m"
    and ok: "session_of m i = Some s \<Longrightarrow> sess_ok q t (door_open m) i s" for i s
    using assms(1) by (auto simp: table_ok_def)
  have now: "t \<le> now" "0 < now" and caller: "caller_ok q c m" using assms(2) by (auto simp: auth_ok_def)
  have "sess_ok q now (door_open ?m) i s'" if s': "session_of ?m i = Some s'" for i s'
  proof (cases "creates q i c")
    case True
    then obtain token ip name host eph tunnel where c: "c = CreateSession token ip name host eph tunnel" "i = qa_hashToken q token"
      by (cases c) auto
    then have "s' = new_session now i (cleanClientAddress ip) name host eph tunnel"
      using s' by (auto simp: createSession_def Let_def split: if_splits)
    then show ?thesis using now by (simp add: sess_ok_def new_session_def no_session_def)
  next
    case False
    obtain s where s: "session_of m i = Some s" and cs: "carries q now (promotes q i c) (streams q i c) s s'"
      using call_session[OF d False assms(3) s'] by blast
    have kept: "si_token s' = si_token s" "si_lastSeen s' = si_lastSeen s \<or> si_lastSeen s' = now"
      "si_pairingKey s' = si_pairingKey s \<or> qa_isValidSpki q (si_pairingKey s')"
      using cs by (simp_all only: carries_def) blast+
    have was: "si_token s = i" "0 < si_lastSeen s" "si_lastSeen s \<le> t"
      "si_pairingKey s = [] \<or> qa_isValidSpki q (si_pairingKey s)"
      using ok[OF s] by (simp_all add: sess_ok_def)
    have "0 < si_lastSeen s' \<and> si_lastSeen s' \<le> now" using kept(2) was(2,3) now by linarith
    then have rest: "si_token s' = i" "0 < si_lastSeen s'" "si_lastSeen s' \<le> now" using kept(1) was(1) by simp_all
    have key: "si_pairingKey s' = [] \<or> qa_isValidSpki q (si_pairingKey s')" using kept(3) was(4) by metis
    have "door_open ?m" if admin: "si_isAdmin s'"
    proof -
      have door: "door_open m"
      proof -
        have "si_isAdmin s \<or> promotes q i c" using cs admin by (simp add: carries_def)
        moreover have "promotes q i c \<Longrightarrow> door_open m" using caller by (cases c) simp_all
        ultimately show ?thesis using ok[OF s] by (auto simp: sess_ok_def)
      qed
      show ?thesis
      proof (cases "keeps_settings c")
        case True
        then show ?thesis using door call_settings[OF True] door_cong by metis
      next
        case False
        then show ?thesis using assms(3) door s' s admin
          by (cases c) (auto simp: keeps_settings_def session_of_demote door_open_def encodePassword_def
              setAdminPassword_def setRemoteAdminEnabled_def generateCertificateToken_def setCertAuthEnabled_def
              remoteAdminEnabled_def adminPasswordSet_def Let_def split: if_splits option.splits)
      qed
    qed
    then show ?thesis using rest key by (simp add: sess_ok_def)
  qed
  then show ?thesis
    using distinct_sessions[OF d assms(3)] call_has_settings[OF st] call_writable w by (simp add: table_ok_def)
qed

lemma table_parts [simp]:
  "table_ok q t (am_emit x m) = table_ok q t m" "table_ok q t (saveSessions q m) = table_ok q t m"
  "table_ok q t (m\<lparr>am_HomeScreenKeys := k\<rparr>) = table_ok q t m"
  by (simp_all add: table_ok_def door_open_def remoteAdminEnabled_def adminPasswordSet_def session_of_def)

lemma file_cong: "am_File m' = am_File m \<Longrightarrow> session_of m' = session_of m \<Longrightarrow> file_ok q t m' = file_ok q t m"
  by (simp add: file_ok_def saved_list_def remembered_def)

lemma sfile_emit [simp]: "file_ok q t (am_emit x m) = file_ok q t m"
  by (rule file_cong) simp_all

lemma sfile_same:
  assumes "file_ok q t m" and "am_File m' = am_File m" and "session_of m' = session_of m" and "t \<le> t'"
  shows "file_ok q t' m'"
proof (rule file_kept[OF assms(1,2,4)])
  fix i
  have "remembered m' i = remembered m i" by (simp add: remembered_def assms(3))
  then show "rel_option clock_moved (remembered m i) (remembered m' i)" by (cases "remembered m i") auto
qed

text \<open>A session's clock moves on without a save.\<close>

lemma file_touched:
  assumes "file_ok q t m" and "session_of m i = Some s" and "si_lastSeen s \<le> now" and "t \<le> now"
  shows "file_ok q now (put_session i (s\<lparr>si_lastSeen := now\<rparr>) m)"
proof (rule file_kept[OF assms(1) _ assms(4)])
  fix j
  have "clock_moved s (s\<lparr>si_lastSeen := now\<rparr>)" using assms(3) by blast
  then show "rel_option clock_moved (remembered m j) (remembered (put_session i (s\<lparr>si_lastSeen := now\<rparr>) m) j)"
    using assms(2) by (cases "session_of m j") (auto simp: remembered_def)
qed simp

text \<open>A temporary session comes or changes without a save.\<close>

lemma file_temporary:
  assumes "file_ok q t m" and "remembered m i = None" and "si_ephemeral s" and "t \<le> now"
  shows "file_ok q now (put_session i s m)"
proof (rule file_kept[OF assms(1) _ assms(4)])
  fix j
  have "remembered (put_session i s m) j = remembered m j"
    using assms(2,3) by (simp add: remembered_def split: option.splits if_splits)
  then show "rel_option clock_moved (remembered m j) (remembered (put_session i s m) j)"
    by (cases "remembered m j") auto
qed simp

lemma file_of_destroy:
  assumes "table_ok q now (destroySession q i m)" and "file_ok q t m" and "t \<le> now"
  shows "file_ok q now (destroySession q i m)"
proof (cases "session_of m i")
  case None
  then show ?thesis
    by (intro sfile_same[OF assms(2) _ _ assms(3)]) (auto simp: destroySession_def Let_def session_of_def)
next
  case (Some s)
  define m1 where "m1 = m\<lparr>am_HomeScreenKeys := AList.delete i (am_HomeScreenKeys m),
    am_HomeScreenInstances := AList.delete i (am_HomeScreenInstances m)\<rparr>"
  define m2 where "m2 = m1\<lparr>am_Sessions := AList.delete i (am_Sessions m1)\<rparr>"
  have m': "destroySession q i m = (if si_streaming s then am_emit StreamingSessionRevoked
      (am_emit SessionsChanged (am_emit (SessionDestroyed i) (saveSessions q m2)))
      else am_emit SessionsChanged (am_emit (SessionDestroyed i) (saveSessions q m2)))"
    using Some by (simp add: destroySession_def Let_def m1_def m2_def session_of_def)
  then have "table_ok q now m2" using assms(1) by (simp split: if_splits)
  then show ?thesis using file_saved m' by simp
qed

lemma set_streaming_shape:
  obtains m1 where "am_File m1 = am_File m"
    and "setSessionStreaming q token b m = m1 \<or> setSessionStreaming q token b m = am_emit SessionsChanged (saveSessions q m1)"
proof (cases "token = []")
  case True
  then show ?thesis using that[of m] by (simp add: setSessionStreaming_def)
next
  case False
  let ?h = "qa_hashToken q token"
  define cleared where "cleared = (if b
      then m\<lparr>am_Sessions := map (\<lambda>(j, s). (j, if j \<noteq> ?h then s\<lparr>si_streaming := False\<rparr> else s)) (am_Sessions m)\<rparr> else m)"
  define m1 where "m1 = (case session_of cleared ?h of None \<Rightarrow> cleared
    | Some s \<Rightarrow> if si_streaming s \<noteq> b then put_session ?h (s\<lparr>si_streaming := b\<rparr>) cleared else cleared)"
  have "am_File m1 = am_File m" by (simp add: m1_def cleared_def split: option.split)
  moreover have "setSessionStreaming q token b m = m1 \<or> setSessionStreaming q token b m = am_emit SessionsChanged (saveSessions q m1)"
    unfolding setSessionStreaming_def Let_def cleared_def[symmetric] m1_def[symmetric]
    by (simp only: False if_False split: if_split) simp
  ultimately show ?thesis using that by blast
qed

lemma file_step:
  assumes "table_ok q t m" and "file_ok q t m" and "auth_ok q (now, c) (t, m)" and "\<not> restarts c"
  shows "file_ok q now (auth_call q (now, c) m)"
proof -
  let ?m = "auth_call q (now, c) m"
  have table: "table_ok q now ?m" by (rule table_step[OF assms(1,3,4)])
  have now: "t \<le> now" "0 < now" and caller: "caller_ok q c m" using assms(3) by (auto simp: auth_ok_def)
  note same = sfile_same[OF assms(2) _ _ now(1)]
  have keep: "file_ok q now m" by (rule same) simp_all
  have seen: "si_lastSeen s \<le> now" if "session_of m i = Some s" for i s
    using assms(1) that now(1) by (fastforce simp: table_ok_def sess_ok_def)
  have temp: "remembered m i = None" if "session_of m i = Some s" "si_ephemeral s" for i s
    using that by (simp add: remembered_def)
  note rules = keep file_saved file_touched[OF assms(2) _ seen now(1)] file_temporary[OF assms(2) temp _ now(1)]
  show ?thesis
  proof (cases c)
    case (CreateSession token ip name host eph tunnel)
    have none: "remembered m (qa_hashToken q token) = None" using caller CreateSession by (simp add: remembered_def)
    show ?thesis
    proof (cases eph)
      case True
      have "si_ephemeral (new_session now (qa_hashToken q token) (cleanClientAddress ip) name host True tunnel)"
        by (simp add: new_session_def)
      from file_temporary[OF assms(2) none this now(1)] show ?thesis
        using True CreateSession by (simp add: createSession_def Let_def)
    next
      case False
      then show ?thesis using table CreateSession by (simp add: createSession_def Let_def file_saved)
    qed
  next
    case (LogoutSession token)
    then show ?thesis using table file_of_destroy[OF _ assms(2) now(1)] keep by (auto simp: logoutSession_def Let_def)
  next
    case (DestroySession i)
    then show ?thesis using table file_of_destroy[OF _ assms(2) now(1)] by simp
  next
    case DestroyAll
    then show ?thesis using table by (simp add: destroyAllSessions_def Let_def file_saved split: if_splits)
  next
    case PurgeSessions
    then show ?thesis using table keep by (auto simp: purgeExpiredSessions_def Let_def intro: file_saved split: if_splits)
  next
    case (GeneratePin pin)
    then show ?thesis by (intro same) (simp_all add: generatePin_def session_of_def)
  next
    case (RegeneratePin pin)
    have "table_ok q now (m\<lparr>am_Sessions := []\<rparr>)" using assms(1) by (simp add: table_ok_def session_of_def)
    then have f: "file_ok q now (destroyAllSessions q m)" using file_saved by (simp add: destroyAllSessions_def Let_def)
    have "file_ok q now (regeneratePin q pin m) = file_ok q now (destroyAllSessions q m)"
      by (rule file_cong) (simp_all add: regeneratePin_def generatePin_def session_of_def)
    then show ?thesis using RegeneratePin f by simp
  next
    case (AutoRegeneratePin pin)
    then show ?thesis by (intro same) (simp_all add: autoRegeneratePin_def session_of_def)
  next
    case ClearPin
    then show ?thesis by (intro same) (simp_all add: clearPin_def session_of_def)
  next
    case (TryPin ip pin)
    then show ?thesis by (intro same) (simp_all add: validatePin_def)
  next
    case (TryPassword ip pw)
    then show ?thesis by (intro same) (simp_all add: validateAdminPassword_def)
  next
    case (SetPassword salt pw)
    have "file_ok q now (m\<lparr>am_Settings := x\<rparr>)" for x by (rule same) (simp_all add: session_of_def)
    then show ?thesis using table keep SetPassword
      by (auto simp: setAdminPassword_def demoteAdminSessions_def intro: file_saved)
  next
    case (EnableRemoteAdmin b)
    have "file_ok q now (m\<lparr>am_Settings := x\<rparr>)" for x by (rule same) (simp_all add: session_of_def)
    then show ?thesis using table keep EnableRemoteAdmin
      by (auto simp: setRemoteAdminEnabled_def demoteAdminSessions_def Let_def intro: file_saved)
  next
    case (Promote token)
    then show ?thesis using table keep
      by (auto simp: promoteSessionToAdmin_def Let_def intro: file_saved split: option.split)
  next
    case (Touch token)
    then show ?thesis using table rules by (auto simp: touchSession_def Let_def split: option.split)
  next
    case (BindKey token spki)
    then show ?thesis using table rules by (auto simp: bindSessionKey_def Let_def split: option.split)
  next
    case (SetGeo token city country)
    then show ?thesis using table rules by (auto simp: setSessionGeo_def Let_def split: option.split)
  next
    case (UpdateAddress token ip)
    then show ?thesis using table rules by (auto simp: updateSessionAddress_def Let_def split: option.split)
  next
    case (Rename i name)
    then show ?thesis using table rules by (auto simp: renameSession_def split: option.split)
  next
    case (MintKey random token)
    then show ?thesis by (intro same) (simp_all add: homeScreenKey_def session_of_def Let_def split: option.split)
  next
    case (SetInstances token machines)
    then show ?thesis by (intro same) (simp_all add: setHomeScreenInstances_def session_of_def)
  next
    case (RedeemKey key)
    then show ?thesis by (intro same) (simp_all add: redeemHomeScreenKey_def session_of_def Let_def split: option.split)
  next
    case (NewCertificate token)
    then show ?thesis by (intro same) (simp_all add: generateCertificateToken_def session_of_def)
  next
    case (EnableCertificate b)
    then show ?thesis by (intro same) (simp_all add: setCertAuthEnabled_def session_of_def)
  next
    case (SetSessionStreaming token b)
    let ?s = "setSessionStreaming q token b m"
    obtain m1 where m1: "am_File m1 = am_File m" "?s = m1 \<or> ?s = am_emit SessionsChanged (saveSessions q m1)"
      by (rule set_streaming_shape)
    have moved: "rel_option clock_moved (remembered m i) (remembered ?s i)" for i
      by (cases "session_of m i") (auto simp: remembered_def session_of_streaming)
    from m1(2) show ?thesis
    proof
      assume "?s = m1"
      then have "am_File ?s = am_File m" using m1(1) by simp
      from file_kept[OF assms(2) this now(1) moved] show ?thesis using SetSessionStreaming by simp
    next
      assume "?s = am_emit SessionsChanged (saveSessions q m1)"
      then show ?thesis using table SetSessionStreaming file_saved by simp
    qed
  next
    case (RestartAuth fresh)
    then show ?thesis using assms(4) by simp
  qed
qed

section \<open>A restart\<close>

text \<open>What the code needs of Base64: a public key comes back from its text.\<close>

definition key_text_ok :: "QtAuth \<Rightarrow> bool" where
  "key_text_ok q \<longleftrightarrow> (\<forall>k. qa_isValidSpki q k \<longrightarrow> k \<noteq> [] \<longrightarrow> qa_toBase64 q k \<noteq> [] \<and> qa_fromBase64 q (qa_toBase64 q k) = k)"

lemma loaded_saved:
  assumes "key_text_ok q" and "saved_as q s f" and "sess_ok q t keep i s" and "\<not> si_ephemeral s"
  obtains l where "0 < l" "l \<le> si_lastSeen s" "f = session_toJson q (s\<lparr>si_lastSeen := l\<rparr>)"
    "loaded_session q keep f = s\<lparr>si_lastSeen := l, si_streaming := False\<rparr>"
proof -
  obtain l where l: "0 < l" "l \<le> si_lastSeen s" and f: "f = session_toJson q (s\<lparr>si_lastSeen := l\<rparr>)"
    using assms(2) by (auto simp: saved_as_def)
  have admin: "(keep \<and> si_isAdmin s) = si_isAdmin s" using assms(3) by (auto simp: sess_ok_def)
  have key: "(if sj_pairing_key f \<noteq> [] \<and> qa_isValidSpki q (qa_fromBase64 q (sj_pairing_key f))
      then qa_fromBase64 q (sj_pairing_key f) else []) = si_pairingKey s"
    using assms(1,3) by (auto simp: key_text_ok_def sess_ok_def f session_toJson_def)
  have "loaded_session q keep f = s\<lparr>si_lastSeen := l, si_streaming := False\<rparr>"
    unfolding loaded_session_def Let_def key
    using admin assms(4) by (cases s) (simp add: f session_toJson_def no_session_def)
  then show ?thesis using that l f by blast
qed

lemma load_map:
  assumes "distinct (map sj_token fs)"
  shows "map_of (fold (load_one q now keep) fs ss) i =
    (case find (\<lambda>f. sj_token f = i \<and> now - last_activity (loaded_session q keep f) \<le> SESSION_TTL_SECS) fs of
       Some f \<Rightarrow> Some (loaded_session q keep f) | None \<Rightarrow> map_of ss i)"
  using assms
proof (induction fs arbitrary: ss)
  case (Cons f fs)
  have tok: "si_token (loaded_session q keep f) = sj_token f" by (simp add: loaded_session_def Let_def)
  have "find (\<lambda>g. sj_token g = sj_token f \<and> P g) fs = None" for P
    using Cons.prems by (auto simp: find_None_iff) (metis image_eqI)
  then show ?case using Cons tok by (auto simp: load_one_def Let_def update_conv' not_less split: option.splits)
qed simp

lemma load_distinct: "distinct (map fst ss) \<Longrightarrow> distinct (map fst (fold (load_one q now keep) fs ss))"
  by (induction fs arbitrary: ss) (auto simp: load_one_def Let_def distinct_update)

lemma find_in: "find P xs = Some x \<Longrightarrow> x \<in> set xs \<and> P x"
  by (induction xs) (auto split: if_splits)

text \<open>After a restart the remembered sessions are there as they were, each with the clock its file entry has, unless
  that is too long ago; the temporary ones are gone.\<close>

lemma restart_sessions:
  assumes "key_text_ok q" and "table_ok q t m" and "file_ok q t m" and "t \<le> now"
  shows "case remembered m i of
      None \<Rightarrow> session_of (auth_call q (now, RestartAuth fresh) m) i = None
    | Some s \<Rightarrow> \<exists>f \<in> set (saved_list m). \<exists>l. sj_token f = i \<and> sj_last_seen f = Some l \<and> 0 < l \<and> l \<le> si_lastSeen s \<and>
        f = session_toJson q (s\<lparr>si_lastSeen := l\<rparr>) \<and>
        session_of (auth_call q (now, RestartAuth fresh) m) i =
          (if now - l > SESSION_TTL_SECS then None else Some (s\<lparr>si_lastSeen := l, si_streaming := False\<rparr>))"
proof -
  let ?fs = "saved_list m"
  let ?alive = "\<lambda>i f. sj_token f = i \<and> now - last_activity (loaded_session q (door_open m) f) \<le> SESSION_TTL_SECS"
  have d: "distinct (map sj_token ?fs)"
    and known: "f \<in> set ?fs \<Longrightarrow> expired_entry t f \<or> (\<exists>s. remembered m (sj_token f) = Some s \<and> saved_as q s f)"
    and there: "remembered m i = Some s \<Longrightarrow> \<exists>f \<in> set ?fs. sj_token f = i \<and> saved_as q s f" for f i s
    using assms(3) by (auto simp: file_ok_def)
  have ok: "remembered m i = Some s \<Longrightarrow> sess_ok q t (door_open m) i s \<and> \<not> si_ephemeral s" for i s
    using assms(2) by (auto simp: table_ok_def remembered_iff)
  obtain st where st: "am_Settings m = Some st" using assms(2) by (auto simp: table_ok_def)
  have "session_of (auth_call q (now, RestartAuth fresh) m) i = map_of (fold (load_one q now (door_open m)) ?fs []) i"
    by (simp add: am_new_def loadSessions_def st session_of_def door_open_def remoteAdminEnabled_def adminPasswordSet_def
        saved_list_def Let_def split: option.split)
  then have new: "session_of (auth_call q (now, RestartAuth fresh) m) i =
      map_option (loaded_session q (door_open m)) (find (?alive i) ?fs)"
    by (simp add: load_map[OF d] split: option.split)
  show ?thesis
  proof (cases "remembered m i")
    case None
    have "\<not> ?alive i f" if "f \<in> set ?fs" for f
    proof (cases "sj_token f = i")
      case True
      then have "expired_entry t f" using known[OF that] None by simp
      then show ?thesis using assms(4)
        by (auto simp: expired_entry_def loaded_session_def last_activity_def Let_def split: option.splits)
    qed simp
    then have "find (?alive i) ?fs = None" unfolding find_None_iff by blast
    then show ?thesis using new None by simp
  next
    case (Some s)
    obtain f where f: "f \<in> set ?fs" "sj_token f = i" "saved_as q s f" using there[OF Some] by blast
    obtain l where l: "0 < l" "l \<le> si_lastSeen s" "f = session_toJson q (s\<lparr>si_lastSeen := l\<rparr>)"
      "loaded_session q (door_open m) f = s\<lparr>si_lastSeen := l, si_streaming := False\<rparr>"
      using loaded_saved[OF assms(1) f(3) conjunct1[OF ok[OF Some]] conjunct2[OF ok[OF Some]]] by blast
    have last: "sj_last_seen f = Some l" using l(3) by (simp add: session_toJson_def)
    have one: "g = f" if "g \<in> set ?fs" "sj_token g = i" for g
      using d that f(1,2) by (auto simp: distinct_map inj_on_def)
    have la: "last_activity (loaded_session q (door_open m) f) = l" using l(1,4) by (simp add: last_activity_def)
    have "find (?alive i) ?fs = (if now - l > SESSION_TTL_SECS then None else Some f)"
    proof (cases "now - l > SESSION_TTL_SECS")
      case True
      have "\<not> ?alive i g" if "g \<in> set ?fs" for g using one[OF that] la True by auto
      then have "find (?alive i) ?fs = None" unfolding find_None_iff by blast
      then show ?thesis using True by simp
    next
      case False
      obtain g where g: "find (?alive i) ?fs = Some g"
      proof (cases "find (?alive i) ?fs")
        case None
        then have "\<not> ?alive i f" using f(1) unfolding find_None_iff by blast
        then show ?thesis using False la f(2) by simp
      qed (use that in blast)
      then have "g \<in> set ?fs" "sj_token g = i" using find_in[OF g] by blast+
      then show ?thesis using g one False by simp
    qed
    then have "session_of (auth_call q (now, RestartAuth fresh) m) i =
        (if now - l > SESSION_TTL_SECS then None else Some (s\<lparr>si_lastSeen := l, si_streaming := False\<rparr>))"
      using new l(4) by simp
    with f(1,2) last l(1,2,3) show ?thesis unfolding Some option.case by blast
  qed
qed

lemma restart_gone:
  assumes "key_text_ok q" and "table_ok q t m" and "file_ok q t m" and "t \<le> now" and "remembered m i = None"
  shows "session_of (auth_call q (now, RestartAuth fresh) m) i = None"
  using restart_sessions[OF assms(1-4), where i = i and fresh = fresh] unfolding assms(5) option.case .

lemma restart_kept:
  assumes "key_text_ok q" and "table_ok q t m" and "file_ok q t m" and "t \<le> now" and "remembered m i = Some s"
  obtains f l where "f \<in> set (saved_list m)" "sj_token f = i" "sj_last_seen f = Some l" "0 < l" "l \<le> si_lastSeen s"
    "f = session_toJson q (s\<lparr>si_lastSeen := l\<rparr>)"
    "session_of (auth_call q (now, RestartAuth fresh) m) i =
       (if now - l > SESSION_TTL_SECS then None else Some (s\<lparr>si_lastSeen := l, si_streaming := False\<rparr>))"
  using restart_sessions[OF assms(1-4), where i = i and fresh = fresh] that unfolding assms(5) option.case by blast

lemma restart_table:
  assumes "key_text_ok q" and "table_ok q t m" and "file_ok q t m" and "t \<le> now"
  shows "table_ok q now (auth_call q (now, RestartAuth fresh) m)"
proof -
  let ?m = "auth_call q (now, RestartAuth fresh) m"
  obtain st where st: "am_Settings m = Some st" and w: "am_Writable m" using assms(2) by (auto simp: table_ok_def)
  have door: "door_open ?m = door_open m"
    using st by (simp add: am_new_def Let_def door_open_def remoteAdminEnabled_def adminPasswordSet_def)
  have "sess_ok q now (door_open ?m) i s'" if s': "session_of ?m i = Some s'" for i s'
  proof -
    obtain s where r: "remembered m i = Some s" using restart_gone[OF assms] s' by (cases "remembered m i") auto
    obtain l where s: "0 < l" "l \<le> si_lastSeen s" "s' = s\<lparr>si_lastSeen := l, si_streaming := False\<rparr>"
      using restart_kept[OF assms r, of fresh] s' by (metis option.distinct(1) option.inject)
    have "session_of m i = Some s" using r by (simp add: remembered_iff)
    then have "sess_ok q t (door_open m) i s" using assms(2) by (auto simp: table_ok_def)
    then show ?thesis using s assms(4) door by (simp add: sess_ok_def)
  qed
  moreover have "distinct (map fst (am_Sessions ?m))"
    by (simp add: am_new_def loadSessions_def st Let_def load_distinct split: option.split)
  ultimately show ?thesis using st w by (simp add: table_ok_def am_new_def Let_def)
qed

lemma restart_sfile:
  assumes "key_text_ok q" and "table_ok q t m" and "file_ok q t m" and "t \<le> now"
  shows "file_ok q now (auth_call q (now, RestartAuth fresh) m)"
proof -
  let ?m = "auth_call q (now, RestartAuth fresh) m"
  let ?fs = "saved_list m"
  have disk: "saved_list ?m = ?fs" by (simp add: am_new_def Let_def saved_list_def)
  have d: "distinct (map sj_token ?fs)"
    and known: "f \<in> set ?fs \<Longrightarrow> expired_entry t f \<or> (\<exists>s. remembered m (sj_token f) = Some s \<and> saved_as q s f)" for f
    using assms(3) by (auto simp: file_ok_def)
  have saved: "saved_as q (s\<lparr>si_lastSeen := l, si_streaming := b\<rparr>) (session_toJson q (s\<lparr>si_lastSeen := l\<rparr>))" if "0 < l" for s l b
    using that by (auto simp: saved_as_def session_toJson_def intro!: exI[of _ l])
  have "expired_entry now f \<or> (\<exists>s. remembered ?m (sj_token f) = Some s \<and> saved_as q s f)" if f: "f \<in> set ?fs" for f
  proof (cases "expired_entry t f")
    case True
    then show ?thesis using assms(4) by (auto simp: expired_entry_def split: option.splits)
  next
    case False
    then obtain s where s: "remembered m (sj_token f) = Some s" using known[OF f] by blast
    obtain g l where g: "g \<in> set ?fs" "sj_token g = sj_token f" "sj_last_seen g = Some l" "0 < l"
      "g = session_toJson q (s\<lparr>si_lastSeen := l\<rparr>)" "session_of ?m (sj_token f) =
          (if now - l > SESSION_TTL_SECS then None else Some (s\<lparr>si_lastSeen := l, si_streaming := False\<rparr>))"
      using restart_kept[OF assms s, of fresh] by metis
    have "g = f" using d f g(1,2) by (auto simp: distinct_map inj_on_def)
    then show ?thesis using g(3-6) saved s by (auto simp: expired_entry_def remembered_iff)
  qed
  moreover have "\<exists>f \<in> set ?fs. sj_token f = i \<and> saved_as q s' f" if s': "remembered ?m i = Some s'" for i s'
  proof -
    have si: "session_of ?m i = Some s'" using s' by (simp add: remembered_iff)
    then obtain s where s: "remembered m i = Some s" using restart_gone[OF assms] by (cases "remembered m i") auto
    obtain f l where f: "f \<in> set ?fs" "sj_token f = i" "0 < l" "f = session_toJson q (s\<lparr>si_lastSeen := l\<rparr>)"
      "s' = s\<lparr>si_lastSeen := l, si_streaming := False\<rparr>"
      using restart_kept[OF assms s, of fresh] si by (metis option.distinct(1) option.inject)
    then show ?thesis using saved by blast
  qed
  ultimately show ?thesis unfolding file_ok_def disk using d by blast
qed

section \<open>The machine\<close>

definition one_stream :: "AuthManager \<Rightarrow> bool" where
  "one_stream m \<longleftrightarrow> (\<forall>i j s s'. session_of m i = Some s \<longrightarrow> session_of m j = Some s' \<longrightarrow>
     si_streaming s \<longrightarrow> si_streaming s' \<longrightarrow> i = j)"

definition key_list_ok :: "(string \<times> HomeScreenKey) list \<Rightarrow> bool" where
  "key_list_ok ks \<longleftrightarrow> distinct (map fst ks) \<and> (\<forall>i k. (i, k) \<in> set ks \<longrightarrow> CHR 0x00 \<notin> set (hk_key k)) \<and>
     (\<forall>i k j k'. (i, k) \<in> set ks \<longrightarrow> (j, k') \<in> set ks \<longrightarrow> hk_key k = hk_key k' \<longrightarrow> i = j)"

definition keys_ok :: "AuthManager \<Rightarrow> bool" where
  "keys_ok m \<longleftrightarrow> key_list_ok (am_HomeScreenKeys m)"

definition auth_inv :: "QtAuth \<Rightarrow> int \<times> AuthManager \<Rightarrow> bool" where
  "auth_inv q = (\<lambda>(t, m). key_text_ok q \<and> table_ok q t m \<and> file_ok q t m \<and> one_stream m \<and> keys_ok m)"

lemma stream_step:
  assumes "one_stream m" and "distinct (map fst (am_Sessions m))" and "auth_ok q (now, c) (t, m)" and "\<not> restarts c"
  shows "one_stream (auth_call q (now, c) m)"
  unfolding one_stream_def
proof (intro allI impI)
  fix i j s s'
  let ?m = "auth_call q (now, c) m"
  assume s: "session_of ?m i = Some s" "session_of ?m j = Some s'" and streaming: "si_streaming s" "si_streaming s'"
  show "i = j"
  proof (cases "\<exists>token. c = SetSessionStreaming token True")
    case True
    then obtain token where c: "c = SetSessionStreaming token True" by blast
    show ?thesis
    proof (cases "token = []")
      case True
      then show ?thesis using assms(1) s streaming c by (auto simp: one_stream_def setSessionStreaming_def)
    next
      case False
      then show ?thesis using s streaming c by (auto simp: session_of_streaming split: if_splits)
    qed
  next
    case False
    have old: "\<exists>r. session_of m k = Some r \<and> si_streaming r" if "session_of ?m k = Some r'" "si_streaming r'" for k r'
    proof (cases "creates q k c")
      case True
      then show ?thesis using that by (cases c) (auto simp: createSession_def new_session_def no_session_def Let_def split: if_splits)
    next
      case fresh: False
      have "\<not> streams q k c" using False by (cases c) auto
      then show ?thesis using call_session[OF assms(2) fresh assms(4) that(1)] that(2) by (auto simp: carries_def)
    qed
    show ?thesis using old[OF s(1) streaming(1)] old[OF s(2) streaming(2)] assms(1) by (auto simp: one_stream_def)
  qed
qed

lemma keys_of_call: "am_HomeScreenKeys (auth_call q (now, c) m) \<in>
    {am_HomeScreenKeys m, []} \<union> range (\<lambda>i. AList.delete i (am_HomeScreenKeys m)) \<union>
    (case c of MintKey random token \<Rightarrow>
       range (\<lambda>i. AList.update i \<lparr>hk_key = minted_key q random, hk_issuedAt = now\<rparr> (am_HomeScreenKeys m)) | _ \<Rightarrow> {})"
proof -
  have save: "am_HomeScreenKeys (saveSessions q n) = am_HomeScreenKeys n" for n by (simp add: saveSessions_def)
  have emit: "am_HomeScreenKeys (am_emit x n) = am_HomeScreenKeys n" for x n by (simp add: am_emit_def)
  have put: "am_HomeScreenKeys (put_session i s n) = am_HomeScreenKeys n" for i s n by (simp add: put_session_def)
  have demote: "am_HomeScreenKeys (demoteAdminSessions q n) = am_HomeScreenKeys n" for n
    by (simp add: demoteAdminSessions_def map_sessions_def save emit)
  have destroy: "am_HomeScreenKeys (destroySession q i m) = AList.delete i (am_HomeScreenKeys m)" for i
    by (simp add: destroySession_def Let_def save emit split: option.split)
  have all: "am_HomeScreenKeys (destroyAllSessions q n) = am_HomeScreenKeys n" for n
    by (simp add: destroyAllSessions_def Let_def save emit)
  show ?thesis
    by (cases c) (auto simp: createSession_def logoutSession_def destroy all demote save emit put
        purgeExpiredSessions_def validatePin_def generatePin_def regeneratePin_def autoRegeneratePin_def
        clearPin_def setAdminPassword_def setRemoteAdminEnabled_def minted_key_def
        validateAdminPassword_def promoteSessionToAdmin_def touchSession_def bindSessionKey_def setSessionGeo_def
        updateSessionAddress_def setSessionStreaming_def renameSession_def homeScreenKey_def setHomeScreenInstances_def
        redeemHomeScreenKey_def generateCertificateToken_def setCertAuthEnabled_def am_new_def Let_def split: option.split)
qed

lemma set_updated: "distinct (map fst xs) \<Longrightarrow> set (AList.update i k xs) \<subseteq> insert (i, k) {x \<in> set xs. fst x \<noteq> i}"
proof (induction xs)
  case (Cons x xs)
  have "fst y \<noteq> fst x" if "y \<in> set xs" for y using Cons.prems that by (auto simp: image_iff)
  then show ?case using Cons by (cases x) auto
qed simp

lemma key_list_fewer: "key_list_ok ks \<Longrightarrow> distinct (map fst ks') \<Longrightarrow> set ks' \<subseteq> set ks \<Longrightarrow> key_list_ok ks'"
  unfolding key_list_ok_def by (meson subsetD)

lemma key_list_update:
  assumes "key_list_ok ks" and "CHR 0x00 \<notin> set (hk_key k)" and "hk_key k \<notin> (\<lambda>(i, k). hk_key k) ` set ks"
  shows "key_list_ok (AList.update i k ks)"
proof -
  have d: "distinct (map fst ks)" using assms(1) by (simp add: key_list_ok_def)
  have old: "k' = k \<and> j = i \<or> (j, k') \<in> set ks" if "(j, k') \<in> set (AList.update i k ks)" for j k'
    using set_updated[OF d, of i k] that by blast
  have "hk_key k' \<noteq> hk_key k" if "(j, k') \<in> set ks" for j k' using assms(3) that by force
  moreover have "CHR 0x00 \<notin> set (hk_key k')" if "(j, k') \<in> set ks" for j k'
    using assms(1) that by (auto simp: key_list_ok_def)
  moreover have "j = l" if "(j, k') \<in> set ks" "(l, k'') \<in> set ks" "hk_key k' = hk_key k''" for j l k' k''
    using assms(1) that unfolding key_list_ok_def by metis
  ultimately show ?thesis using old d assms(2) unfolding key_list_ok_def
    by (intro conjI allI impI) (simp add: distinct_update, metis, metis)
qed

lemma keys_step:
  assumes "keys_ok m" and "auth_ok q (now, c) (t, m)"
  shows "keys_ok (auth_call q (now, c) m)"
proof -
  let ?ks = "am_HomeScreenKeys m"
  have d: "distinct (map fst ?ks)" and ok: "key_list_ok ?ks" using assms(1) by (simp_all add: keys_ok_def key_list_ok_def)
  have del: "key_list_ok (AList.delete i ?ks)" for i
    by (rule key_list_fewer[OF ok distinct_delete[OF d]]) (auto simp: AList.delete_eq)
  have nil: "key_list_ok []" by (simp add: key_list_ok_def)
  show ?thesis
  proof (cases "\<exists>random token. c = MintKey random token")
    case True
    then obtain random token where c: "c = MintKey random token" by blast
    have "key_list_ok (AList.update i \<lparr>hk_key = minted_key q random, hk_issuedAt = now\<rparr> ?ks)" for i
      using assms(2) c by (intro key_list_update[OF ok]) (simp_all add: auth_ok_def)
    then show ?thesis using keys_of_call[of q now c m] c ok del nil by (auto simp: keys_ok_def simp del: auth_call.simps)
  next
    case False
    then have "am_HomeScreenKeys (auth_call q (now, c) m) \<in> {?ks, []} \<union> range (\<lambda>i. AList.delete i ?ks)"
      using keys_of_call[of q now c m] by (cases c) (auto simp del: auth_call.simps)
    then show ?thesis using ok del nil by (auto simp: keys_ok_def simp del: auth_call.simps)
  qed
qed

lemma auth_step:
  assumes "auth_inv q s" and "auth_ok q e s"
  shows "auth_inv q (timed_auth q e s)"
proof -
  obtain t m now c where s: "s = (t, m)" "e = (now, c)" by (metis surj_pair)
  have inv: "key_text_ok q" "table_ok q t m" "file_ok q t m" "one_stream m" "keys_ok m" and ok: "auth_ok q (now, c) (t, m)"
    using assms s by (simp_all add: auth_inv_def)
  have now: "t \<le> now" using ok by (simp add: auth_ok_def)
  have d: "distinct (map fst (am_Sessions m))" using inv(2) by (simp add: table_ok_def)
  have "table_ok q now (auth_call q (now, c) m) \<and> file_ok q now (auth_call q (now, c) m) \<and> one_stream (auth_call q (now, c) m)"
  proof (cases "restarts c")
    case True
    then obtain fresh where c: "c = RestartAuth fresh" by (cases c) auto
    have "one_stream (auth_call q (now, RestartAuth fresh) m)"
    proof -
      have "\<not> si_streaming s'" if s': "session_of (auth_call q (now, RestartAuth fresh) m) i = Some s'" for i s'
      proof -
        obtain r where r: "remembered m i = Some r"
          using restart_gone[OF inv(1-3) now] s' by (cases "remembered m i") auto
        show ?thesis using restart_kept[OF inv(1-3) now r, of fresh] s'
          by (metis (no_types, lifting) SessionInfo.select_convs(8) SessionInfo.surjective SessionInfo.update_convs(8) option.distinct(1) option.inject)
      qed
      then show ?thesis unfolding one_stream_def by blast
    qed
    then show ?thesis using restart_table[OF inv(1-3) now] restart_sfile[OF inv(1-3) now] c by metis
  next
    case False
    then show ?thesis using table_step[OF inv(2) ok] file_step[OF inv(2,3) ok] stream_step[OF inv(4) d ok] by blast
  qed
  then show ?thesis using inv(1) keys_step[OF inv(5) ok] s by (simp add: auth_inv_def timed_auth_def del: auth_call.simps)
qed

interpretation auth: guarded_machine "timed_auth q" "auth_ok q" "auth_inv q" for q
  by unfold_locales (rule auth_step)

lemma fresh_auth_inv: "key_text_ok q \<Longrightarrow> auth_inv q (fresh_auth q st)"
  by (simp add: auth_inv_def fresh_auth_def am_new_def loadSessions_def table_ok_def file_ok_def saved_list_def one_stream_def
      keys_ok_def key_list_ok_def session_of_def remembered_def Let_def)

end
