(* ===== verification/Auth_Promises.thy ===== *)
theory Auth_Promises
  imports Auth_Life
begin

text \<open>
  What \<open>AuthManager\<close> promises over any life of it: who streams, what a revocation ends, what a password change
  takes back, what a pairing is worth, what a restart keeps, how long a lockout holds, and how often a home-screen
  key opens. The lives are sequences of calls from a fresh installation (\<open>Auth_Life\<close>).
\<close>

section \<open>One session over many calls\<close>

definition reached :: "QtAuth \<Rightarrow> AuthSettings \<Rightarrow> (int \<times> AuthCall) list \<Rightarrow> int \<times> AuthManager" where
  "reached q st es = fold (timed_auth q) es (fresh_auth q st)"

definition lawful :: "QtAuth \<Rightarrow> AuthSettings \<Rightarrow> (int \<times> AuthCall) list \<Rightarrow> bool" where
  "lawful q st es \<longleftrightarrow> key_text_ok q \<and> legal (auth_ok q) (timed_auth q) es (fresh_auth q st)"

lemma reached_inv: "lawful q st es \<Longrightarrow> auth_inv q (reached q st es)"
  unfolding lawful_def reached_def using auth.inv_run[OF fresh_auth_inv] by blast

lemma lawful_append: "lawful q st (es @ fs) \<Longrightarrow> lawful q st es \<and> legal (auth_ok q) (timed_auth q) fs (reached q st es)"
  by (simp add: lawful_def reached_def)

lemma reached_append: "reached q st (es @ fs) = fold (timed_auth q) fs (reached q st es)"
  by (simp add: reached_def)

text \<open>Every call but the creation of the session itself leaves under an id what was there, or nothing; a restart brings
  back what was there, with an earlier clock.\<close>

lemma session_survives:
  assumes "auth_inv q (t, m)" and "auth_ok q (now, c) (t, m)" and "\<not> creates q i c"
    and "session_of (auth_call q (now, c) m) i = Some s'"
  obtains s where "session_of m i = Some s" "si_isAdmin s' \<longrightarrow> si_isAdmin s \<or> promotes q i c"
    "si_pairingKey s = [] \<or> si_pairingKey s' = si_pairingKey s"
proof (cases "restarts c")
  case True
  then obtain fresh where c: "c = RestartAuth fresh" by (cases c) auto
  have inv: "key_text_ok q" "table_ok q t m" "file_ok q t m" "t \<le> now"
    using assms(1,2) by (simp_all add: auth_inv_def auth_ok_def)
  obtain s where s: "remembered m i = Some s"
    using restart_gone[OF inv] assms(4) c by (cases "remembered m i") auto
  obtain l where "s' = s\<lparr>si_lastSeen := l, si_streaming := False\<rparr>"
    using restart_kept[OF inv s, of fresh] assms(4) c by (metis option.distinct(1) option.inject)
  then show ?thesis using that s by (simp add: remembered_iff)
next
  case False
  have "distinct (map fst (am_Sessions m))" using assms(1) by (simp add: auth_inv_def table_ok_def)
  from call_session[OF this assms(3) False assms(4)] show ?thesis using that unfolding carries_def by metis
qed

text \<open>A property of the session under an id that every such step keeps, kept over a life without its creation.\<close>

lemma session_run:
  assumes "auth_inv q x" and "legal (auth_ok q) (timed_auth q) fs x" and "P (session_of (snd x) i)" and "P None"
    and "\<And>t m now c. auth_inv q (t, m) \<Longrightarrow> auth_ok q (now, c) (t, m) \<Longrightarrow> (now, c) \<in> set fs \<Longrightarrow>
      P (session_of m i) \<Longrightarrow> session_of (auth_call q (now, c) m) i \<noteq> None \<Longrightarrow> P (session_of (auth_call q (now, c) m) i)"
  shows "P (session_of (snd (fold (timed_auth q) fs x)) i)"
  using assms
proof (induction fs arbitrary: x)
  case (Cons e fs)
  obtain t m now c where x: "x = (t, m)" "e = (now, c)" by (metis surj_pair)
  have ok: "auth_ok q (now, c) (t, m)" and inv: "auth_inv q (t, m)" using Cons.prems(1,2) x by simp_all
  have "P (session_of (auth_call q (now, c) m) i)"
    using Cons.prems(5)[OF inv ok] Cons.prems(3,4) x by (cases "session_of (auth_call q (now, c) m) i") auto
  moreover have y: "timed_auth q e x = (now, auth_call q (now, c) m)" by (simp add: timed_auth_def x del: auth_call.simps)
  ultimately have P: "P (session_of (snd (timed_auth q e x)) i)" by (simp del: auth_call.simps)
  have inv': "auth_inv q (timed_auth q e x)" and legal': "legal (auth_ok q) (timed_auth q) fs (timed_auth q e x)"
    using auth_step[OF Cons.prems(1)] Cons.prems(2) by simp_all
  have "P (session_of (snd (fold (timed_auth q) fs (timed_auth q e x))) i)"
    by (rule Cons.IH[OF inv' legal' P Cons.prems(4)]) (rule Cons.prems(5); simp)
  then show ?case by simp
qed simp

definition untouched :: "(AuthCall \<Rightarrow> bool) \<Rightarrow> (int \<times> AuthCall) list \<Rightarrow> bool" where
  "untouched f fs \<longleftrightarrow> list_all (\<lambda>e. \<not> f (snd e)) fs"

lemma gone_stays_gone:
  assumes "auth_inv q x" and "legal (auth_ok q) (timed_auth q) fs x" and "session_of (snd x) i = None"
    and "untouched (creates q i) fs"
  shows "session_of (snd (fold (timed_auth q) fs x)) i = None"
proof (rule session_run[OF assms(1,2), where P = "\<lambda>found. found = None"])
  fix t m now c
  assume *: "auth_inv q (t, m)" "auth_ok q (now, c) (t, m)" "(now, c) \<in> set fs" "session_of m i = None"
  have "\<not> creates q i c" using *(3) assms(4) by (auto simp: untouched_def list_all_iff)
  then show "session_of (auth_call q (now, c) m) i = None"
    using session_survives[OF *(1,2)] *(4) by (metis not_Some_eq)
qed (use assms(3) in simp_all)

section \<open>The promises\<close>

text \<open>One stream: over any life, two sessions that are marked as streaming are one and the same.\<close>

theorem one_stream_at_most:
  assumes "lawful q st es" and "m = snd (reached q st es)"
    and "si_streaming (sessionForToken q a m)" and "si_streaming (sessionForToken q b m)"
  shows "qa_hashToken q a = qa_hashToken q b"
proof -
  have "one_stream m" using reached_inv[OF assms(1)] assms(2) by (cases "reached q st es") (simp add: auth_inv_def)
  then show ?thesis using assms(3,4)
    by (auto simp: one_stream_def sessionForToken_def no_session_def split: if_splits option.splits)
qed

text \<open>C29. The session table is well formed at every moment of a lawful life: no two sessions have one id, every session knows its
  own id, was last seen at a moment that has been, has no key or one that is a key, and is an administrator's only
  while remote administration is on and has a password.\<close>

theorem session_table_well_formed:
  assumes "lawful q st es" and "reached q st es = (t, m)"
  shows "distinct (map fst (am_Sessions m)) \<and>
    list_all (\<lambda>(i, s). si_token s = i \<and> 0 < si_lastSeen s \<and> si_lastSeen s \<le> t \<and>
      (si_pairingKey s = [] \<or> qa_isValidSpki q (si_pairingKey s)) \<and>
      (\<not> si_isAdmin s \<or> remoteAdminEnabled m \<and> adminPasswordSet m)) (am_Sessions m)"
proof -
  have inv: "table_ok q t m" using reached_inv[OF assms(1)] assms(2) by (simp add: auth_inv_def)
  then have d: "distinct (map fst (am_Sessions m))" by (simp add: table_ok_def)
  have "session_of m i = Some s" if "(i, s) \<in> set (am_Sessions m)" for i s
    using that d by (simp add: session_of_def)
  then show ?thesis using inv d by (auto simp: list_all_iff table_ok_def sess_ok_def door_open_def)
qed

lemma revoked_gone:
  assumes "lawful q st (es @ e # fs)" and "snd e = DestroySession i \<or> snd e = LogoutSession token"
    and "i = qa_hashToken q token" and "token \<noteq> []"
    and "untouched (creates q i) fs" and "m = snd (reached q st (es @ e # fs))"
  shows "session_of m i = None"
proof -
  obtain t m0 where x: "reached q st es = (t, m0)" by fastforce
  obtain n where e: "e = (n, snd e)" by (metis prod.collapse)
  have legal: "legal (auth_ok q) (timed_auth q) (e # fs) (t, m0)" and inv: "auth_inv q (t, m0)"
    using lawful_append[OF assms(1)] reached_inv x by metis+
  let ?y = "timed_auth q e (t, m0)"
  have "snd ?y = auth_call q (n, snd e) m0" using e by (metis case_prod_conv snd_conv timed_auth_def)
  then have "session_of (snd ?y) i = None"
    using assms(2,3,4) by (auto simp: session_of_destroy logoutSession_def Let_def split: if_splits)
  then have "session_of (snd (fold (timed_auth q) fs ?y)) i = None"
    using gone_stays_gone[OF auth_step[OF inv] _ _ assms(5)] legal by simp
  then show ?thesis using assms(6) x by (simp add: reached_append)
qed

text \<open>A revoked session stays out: once the owner has destroyed it, or its browser has logged out, no token under its
  id is valid, admin or host again, whatever is called and however often the program restarts, until a session is
  created under that very id.\<close>

theorem revoked_stays_out:
  assumes "lawful q st (es @ e # fs)" and "snd e = DestroySession i \<or> snd e = LogoutSession token"
    and "i = qa_hashToken q token" and "token \<noteq> []"
    and "untouched (creates q i) fs" and "m = snd (reached q st (es @ e # fs))"
  shows "\<not> validateSession q now token m \<and> \<not> isAdminSession q now token m \<and> \<not> isHostSession q now token m \<and>
    sessionPairingKey q token m = []"
  using revoked_gone[OF assms] assms(3)
  by (simp add: validateSession_def isAdminSession_def isHostSession_def session_flag_def sessionPairingKey_def)

text \<open>C27. A pairing is for the session's life: once a browser's key is bound, nobody replaces it, restarts or not; as
  long as the session is there its key is the one bound first.\<close>

theorem pairing_key_stays:
  assumes "lawful q st (es @ fs)" and "k = sessionPairingKey q token (snd (reached q st es))" and "k \<noteq> []"
    and "untouched (creates q (qa_hashToken q token)) fs" and "m = snd (reached q st (es @ fs))"
  shows "session_of m (qa_hashToken q token) = None \<and> sessionPairingKey q token m = [] \<or> sessionPairingKey q token m = k"
proof -
  let ?i = "qa_hashToken q token" and ?x = "reached q st es"
  have tok: "token \<noteq> []" using assms(2,3) by (auto simp: sessionPairingKey_def)
  let ?P = "\<lambda>found. case found of None \<Rightarrow> True | Some s \<Rightarrow> si_pairingKey s = k"
  have "?P (session_of (snd (fold (timed_auth q) fs ?x)) ?i)"
  proof (rule session_run)
    show "auth_inv q ?x" "legal (auth_ok q) (timed_auth q) fs ?x"
      using lawful_append[OF assms(1)] reached_inv by blast+
    show "?P (session_of (snd ?x) ?i)" using assms(2) tok by (simp add: sessionPairingKey_def split: option.splits)
  next
    fix t m now c
    assume *: "auth_inv q (t, m)" "auth_ok q (now, c) (t, m)" "(now, c) \<in> set fs" "?P (session_of m ?i)"
      "session_of (auth_call q (now, c) m) ?i \<noteq> None"
    have no: "\<not> creates q ?i c" using *(3) assms(4) by (auto simp: untouched_def list_all_iff)
    obtain s' where s': "session_of (auth_call q (now, c) m) ?i = Some s'" using *(5) by blast
    obtain s where "session_of m ?i = Some s" "si_pairingKey s = [] \<or> si_pairingKey s' = si_pairingKey s"
      using session_survives[OF *(1,2) no s'] by metis
    then show "?P (session_of (auth_call q (now, c) m) ?i)" using *(4) s' assms(3) by auto
  qed simp
  then show ?thesis using assms(5) tok
    by (auto simp: reached_append sessionPairingKey_def split: option.splits)
qed

lemma not_admin_stays:
  assumes "auth_inv q x" and "legal (auth_ok q) (timed_auth q) fs x"
    and "case session_of (snd x) i of None \<Rightarrow> True | Some s \<Rightarrow> \<not> si_isAdmin s" and "untouched (promotes q i) fs"
  shows "case session_of (snd (fold (timed_auth q) fs x)) i of None \<Rightarrow> True | Some s \<Rightarrow> \<not> si_isAdmin s"
proof (rule session_run[OF assms(1,2), where P = "\<lambda>found. case found of None \<Rightarrow> True | Some s \<Rightarrow> \<not> si_isAdmin s"])
  fix t m now c
  assume *: "auth_inv q (t, m)" "auth_ok q (now, c) (t, m)" "(now, c) \<in> set fs"
    "case session_of m i of None \<Rightarrow> True | Some s \<Rightarrow> \<not> si_isAdmin s" "session_of (auth_call q (now, c) m) i \<noteq> None"
  have no: "\<not> promotes q i c" using *(3) assms(4) by (auto simp: untouched_def list_all_iff)
  show "case session_of (auth_call q (now, c) m) i of None \<Rightarrow> True | Some s \<Rightarrow> \<not> si_isAdmin s"
  proof (cases "creates q i c")
    case True
    then show ?thesis by (cases c) (auto simp: createSession_def new_session_def no_session_def Let_def split: if_splits)
  next
    case False
    obtain s' where s': "session_of (auth_call q (now, c) m) i = Some s'" using *(5) by blast
    obtain s where "session_of m i = Some s" "si_isAdmin s' \<longrightarrow> si_isAdmin s \<or> promotes q i c"
      using session_survives[OF *(1,2) False s'] by metis
    then show ?thesis using *(4) no unfolding s' by simp
  qed
qed (use assms(3) in simp_all)

text \<open>Changing the admin password, or closing remote administration, takes the access back from every machine: after
  it no session is admin, restarts or not, until it is promoted again.\<close>

theorem password_change_revokes:
  assumes "lawful q st (es @ (n, c) # fs)"
    and "c = EnableRemoteAdmin False \<or> c = SetPassword salt pw \<and> 8 \<le> length pw"
    and "untouched (promotes q (qa_hashToken q token)) fs" and "m = snd (reached q st (es @ (n, c) # fs))"
  shows "\<not> isAdminSession q now token m"
proof -
  let ?i = "qa_hashToken q token"
  obtain t m0 where x: "reached q st es = (t, m0)" by fastforce
  have legal: "legal (auth_ok q) (timed_auth q) ((n, c) # fs) (t, m0)" and inv: "auth_inv q (t, m0)"
    using lawful_append[OF assms(1)] reached_inv x by metis+
  let ?y = "timed_auth q (n, c) (t, m0)"
  have st: "am_Settings m0 \<noteq> None" using inv by (simp add: auth_inv_def table_ok_def)
  have "case session_of (snd ?y) ?i of None \<Rightarrow> True | Some s \<Rightarrow> \<not> si_isAdmin s"
    using assms(2) st
    by (auto simp: timed_auth_def session_of_enable session_of_password tunables split: option.split)
  from not_admin_stays[OF auth_step[OF inv] _ this assms(3)] legal
  have "case session_of (snd (fold (timed_auth q) fs ?y)) ?i of None \<Rightarrow> True | Some s \<Rightarrow> \<not> si_isAdmin s" by simp
  then have "case session_of m ?i of None \<Rightarrow> True | Some s \<Rightarrow> \<not> si_isAdmin s" using assms(4) x by (simp add: reached_append)
  then show ?thesis by (simp add: isAdminSession_def session_flag_def split: option.splits)
qed

text \<open>The clock the file has for a session.\<close>

definition written_clock :: "AuthManager \<Rightarrow> string \<Rightarrow> int option" where
  "written_clock m i = Option.bind (map_of (map (\<lambda>f. (sj_token f, f)) (saved_list m)) i) sj_last_seen"

lemma written_entry:
  assumes "distinct (map sj_token (saved_list m))" and "f \<in> set (saved_list m)" and "sj_token f = i"
  shows "written_clock m i = sj_last_seen f"
proof -
  have "map_of (map (\<lambda>f. (sj_token f, f)) (saved_list m)) i = Some f"
    using assms by (intro map_of_is_SomeI) (auto simp: comp_def)
  then show ?thesis by (simp add: written_clock_def)
qed

lemma written_by_save:
  assumes "table_ok q t m" and "remembered m i = Some s"
  shows "written_clock (saveSessions q m) i = Some (si_lastSeen s)"
proof -
  have d: "distinct (map sj_token (saved_list (saveSessions q m)))" using file_saved[OF assms(1)] by (simp add: file_ok_def)
  have s: "session_of m i = Some s" "\<not> si_ephemeral s" using assms(2) by (simp_all add: remembered_iff)
  then have tok: "si_token s = i" using assms(1) by (auto simp: table_ok_def sess_ok_def)
  have "(i, s) \<in> set (am_Sessions m)" using s(1) by (auto simp: session_of_def dest: map_of_SomeD)
  then have "session_toJson q s \<in> set (saved_list (saveSessions q m))"
    using assms(1) s(2) by (force simp: saveSessions_def table_ok_def saved_list_def)
  from written_entry[OF d this] show ?thesis using tok by (simp add: session_toJson_def)
qed

text \<open>C28. A restart is not a sign-out: every session the visitor asked to be remembered is there as it was, with its
  pairing key and its access and the clock the file has for it, and is lost only where that clock is more than ninety days back; only the
  stream is over, and the temporary sessions with it. That clock is never ahead of the session, and every time the sessions
  are written it is the session's own.\<close>

theorem restart_keeps_remembered:
  assumes "lawful q st (es @ [(now, RestartAuth fresh)])" and "m = snd (reached q st es)"
    and "m' = auth_call q (now, RestartAuth fresh) m"
  shows "case session_of m i of
      None \<Rightarrow> session_of m' i = None
    | Some s \<Rightarrow> if si_ephemeral s then session_of m' i = None
        else (case written_clock m i of
            None \<Rightarrow> False
          | Some l \<Rightarrow> l \<le> si_lastSeen s \<and> session_of m' i =
              (if now - l > 90 * 24 * 3600 then None else Some (s\<lparr>si_lastSeen := l, si_streaming := False\<rparr>))) \<and>
          written_clock (saveSessions q m) i = Some (si_lastSeen s)"
proof -
  obtain t where x: "reached q st es = (t, m)" using assms(2) by (metis prod.collapse)
  have "auth_inv q (t, m)" "auth_ok q (now, RestartAuth fresh) (t, m)"
    using lawful_append[OF assms(1)] reached_inv x by (metis, simp)
  then have inv: "key_text_ok q" "table_ok q t m" "file_ok q t m" "t \<le> now"
    by (simp_all add: auth_inv_def auth_ok_def)
  have d: "distinct (map sj_token (saved_list m))" using inv(3) by (simp add: file_ok_def)
  have gone: "remembered m i = None \<Longrightarrow> session_of m' i = None" using restart_gone[OF inv] assms(3) by metis
  have kept: "\<exists>l. written_clock m i = Some l \<and> l \<le> si_lastSeen s \<and> session_of m' i =
      (if now - l > 90 * 24 * 3600 then None else Some (s\<lparr>si_lastSeen := l, si_streaming := False\<rparr>))"
    if r: "remembered m i = Some s" for s
    using restart_kept[OF inv r, of fresh] written_entry[OF d] assms(3) unfolding SESSION_TTL_SECS_def by metis
  show ?thesis
  proof (cases "remembered m i")
    case None
    then show ?thesis using gone by (auto simp: remembered_def split: if_splits option.splits)
  next
    case (Some s)
    then obtain l where "written_clock m i = Some l" "l \<le> si_lastSeen s" "session_of m' i =
        (if now - l > 90 * 24 * 3600 then None else Some (s\<lparr>si_lastSeen := l, si_streaming := False\<rparr>))"
      using kept by blast
    then show ?thesis using written_by_save[OF inv(2) Some] Some by (simp add: remembered_iff)
  qed
qed

section \<open>Limits on guessing\<close>

lemma cleaned_locked: "rl_lockoutUntilEpoch e > now \<Longrightarrow> cleaned now e = Some e"
  by (simp add: cleaned_def)

lemma cleanup_keeps_locked:
  assumes "map_of (am_RateLimits m) b = Some e" and "rl_lockoutUntilEpoch e > now"
  shows "map_of (am_RateLimits (cleanupExpired now m)) b = Some e"
proof -
  have "map_of xs b = Some e \<Longrightarrow>
      map_of (List.map_filter (\<lambda>(b, e). map_option (\<lambda>e. (b, e)) (cleaned now e)) xs) b = Some e" for xs
    by (induction xs) (auto simp: List.map_filter_simps cleaned_locked[OF assms(2)] split: if_splits option.splits)
  then show ?thesis using assms(1) by (simp add: cleanupExpired_def)
qed

text \<open>An attempt on a locked bucket is turned away uncompared, and no attempt unlocks a bucket that is locked.\<close>

lemma attempt_locked:
  assumes "map_of (am_RateLimits m) b = Some e" and "rl_lockoutUntilEpoch e > now"
  shows "fst (attempt now b f m) =
      \<lparr>vr_result = RateLimited, vr_remainingAttempts = 0, vr_lockoutSeconds = rl_lockoutUntilEpoch e - now\<rparr>"
    and "map_of (am_RateLimits (snd (attempt now b' f m))) b = Some e"
proof -
  note kept = cleanup_keeps_locked[OF assms]
  then have locked: "bucketLockout now b (cleanupExpired now m) = rl_lockoutUntilEpoch e - now"
    using assms(2) by (simp add: bucketLockout_def)
  then show "fst (attempt now b f m) =
      \<lparr>vr_result = RateLimited, vr_remainingAttempts = 0, vr_lockoutSeconds = rl_lockoutUntilEpoch e - now\<rparr>"
    using assms(2) by (simp add: attempt_def Let_def)
  show "map_of (am_RateLimits (snd (attempt now b' f m))) b = Some e"
    using kept locked assms(2)
    by (cases "b' = b") (simp_all add: attempt_def recordAttempt_def update_conv' Let_def)
qed

fun unlocks :: "AuthCall \<Rightarrow> bool" where
  "unlocks (RegeneratePin pin) = True"
| "unlocks (RestartAuth fresh) = True"
| "unlocks _ = False"

lemma call_keeps_locked:
  assumes "map_of (am_RateLimits m) b = Some e" and "rl_lockoutUntilEpoch e > now" and "\<not> unlocks c"
  shows "map_of (am_RateLimits (auth_call q (now, c) m)) b = Some e"
proof -
  have save: "am_RateLimits (saveSessions q n) = am_RateLimits n" for n by (simp add: saveSessions_def)
  have emit: "am_RateLimits (am_emit x n) = am_RateLimits n" for x n by (simp add: am_emit_def)
  have put: "am_RateLimits (put_session i s n) = am_RateLimits n" for i s n by (simp add: put_session_def)
  have demote: "am_RateLimits (demoteAdminSessions q n) = am_RateLimits n" for n
    by (simp add: demoteAdminSessions_def map_sessions_def save emit)
  have destroy: "am_RateLimits (destroySession q i m) = am_RateLimits m" for i
    by (simp add: destroySession_def Let_def save emit split: option.split)
  show ?thesis
    using assms attempt_locked(2)[OF assms(1,2)]
    by (cases c) (auto simp: createSession_def logoutSession_def destroy demote save emit put destroyAllSessions_def
        purgeExpiredSessions_def validatePin_def generatePin_def autoRegeneratePin_def
        clearPin_def setAdminPassword_def setRemoteAdminEnabled_def
        validateAdminPassword_def promoteSessionToAdmin_def touchSession_def bindSessionKey_def setSessionGeo_def
        updateSessionAddress_def setSessionStreaming_def renameSession_def homeScreenKey_def setHomeScreenInstances_def
        redeemHomeScreenKey_def generateCertificateToken_def setCertAuthEnabled_def Let_def split: option.split)
qed

text \<open>A lockout holds: once an answer has told a caller to wait, every PIN it tries before then is turned away
  unread, the right one included, whatever anyone calls in between, until the owner regenerates the PIN or the
  program restarts.\<close>

theorem lockout_holds:
  assumes "vr_lockoutSeconds (fst (validatePin q now ip pin m)) = wait" and "0 < wait"
    and "list_all (\<lambda>e. fst e < now + wait \<and> \<not> unlocks (snd e)) es"
    and "m' = fold (auth_call q) es (snd (validatePin q now ip pin m))" and "now' < now + wait"
    and "rateLimitKey q ip' = rateLimitKey q ip"
  shows "fst (validatePin q now' ip' pin' m') =
    \<lparr>vr_result = RateLimited, vr_remainingAttempts = 0, vr_lockoutSeconds = now + wait - now'\<rparr>"
proof -
  let ?b = "rateLimitKey q ip" and ?m = "snd (validatePin q now ip pin m)"
  have "bucketLockout now ?b ?m = wait"
    using assms(1,2) by (auto simp: validatePin_def attempt_def recordAttempt_def Let_def split: if_splits)
  then obtain e where e: "map_of (am_RateLimits ?m) ?b = Some e" "rl_lockoutUntilEpoch e = now + wait"
    using assms(2) by (auto simp: bucketLockout_def split: option.splits if_splits)
  have "map_of (am_RateLimits (fold (auth_call q) es n)) ?b = Some e" if "map_of (am_RateLimits n) ?b = Some e" for n
    using assms(3) that
  proof (induction es arbitrary: n)
    case (Cons x es)
    have "map_of (am_RateLimits (auth_call q (fst x, snd x) n)) ?b = Some e"
      using Cons.prems e(2) by (intro call_keeps_locked) simp_all
    then show ?case using Cons by simp
  qed simp
  from this[OF e(1)] have "map_of (am_RateLimits m') ?b = Some e" using assms(4) by simp
  from attempt_locked(1)[OF this] show ?thesis using e(2) assms(5,6) by (simp add: validatePin_def)
qed

text \<open>Forgiveness can be bought: a caller on another address who is turned away or fails, again and again in one
  second, has one failure of every quiet entry forgiven per try; ten tries empty any bucket whose last failure is ten
  minutes old, where the comment says a failure every ten minutes.\<close>

theorem tries_forgive_others:
  assumes "map_of (am_RateLimits m) b = Some e" and "rl_lockoutUntilEpoch e \<le> now" and "rl_lastFailure e = Some f"
    and "f + 600 \<le> now" and "0 < rl_failures e" and "rl_failures e \<le> int (length tries)" and "distinct (map fst (am_RateLimits m))"
    and "list_all (\<lambda>(ip, pin). rateLimitKey q ip \<noteq> b) tries"
  shows "map_of (am_RateLimits (fold (\<lambda>(ip, pin) m. snd (validatePin q now ip pin m)) tries m)) b = None"
proof -
  have kept: "map_of (List.map_filter (\<lambda>(b, e). map_option (\<lambda>e. (b, e)) (cleaned now e)) xs) b =
      Option.bind (map_of xs b) (cleaned now)" if "distinct (map fst xs)" for xs
    using that
  proof (induction xs)
    case (Cons x xs)
    obtain c r where x: "x = (c, r)" by fastforce
    have "map_of xs b = None" if "c = b" using Cons.prems x that by (auto simp: map_of_eq_None_iff)
    then show ?case using Cons x by (cases "cleaned now r") (auto simp: List.map_filter_simps)
  qed (simp add: List.map_filter_simps)
  have fsts: "fst ` set (List.map_filter (\<lambda>(b, e). map_option (\<lambda>e. (b, e)) (cleaned now e)) xs) \<subseteq> fst ` set xs" for xs
    by (induction xs) (auto simp: List.map_filter_simps split: option.splits)
  have dist: "distinct (map fst (List.map_filter (\<lambda>(b, e). map_option (\<lambda>e. (b, e)) (cleaned now e)) xs))"
    if "distinct (map fst xs)" for xs
    using that
  proof (induction xs)
    case (Cons x xs)
    have "fst x \<notin> fst ` set (List.map_filter (\<lambda>(b, e). map_option (\<lambda>e. (b, e)) (cleaned now e)) xs)"
      using Cons.prems fsts[of xs] by auto
    then show ?case using Cons by (cases x) (auto simp: List.map_filter_simps split: option.splits)
  qed (simp add: List.map_filter_simps)
  have step: "map_of (am_RateLimits (snd (validatePin q now ip pin n))) b = Option.bind (map_of (am_RateLimits n) b) (cleaned now) \<and>
      distinct (map fst (am_RateLimits (snd (validatePin q now ip pin n))))"
    if "distinct (map fst (am_RateLimits n))" "rateLimitKey q ip \<noteq> b" for ip pin n
    using kept[OF that(1)] dist[OF that(1)] that(2)
    by (simp add: validatePin_def attempt_def recordAttempt_def cleanupExpired_def update_conv' distinct_update Let_def)
  define quiet where "quiet n k \<longleftrightarrow> (case map_of (am_RateLimits n) b of None \<Rightarrow> True
    | Some e \<Rightarrow> rl_lockoutUntilEpoch e \<le> now \<and> rl_lastFailure e = Some f \<and> 0 < rl_failures e \<and> rl_failures e \<le> k)"
    for n :: AuthManager and k
  have next_quiet: "quiet (snd (validatePin q now ip pin n)) (k - 1)"
    if "quiet n k" "distinct (map fst (am_RateLimits n))" "rateLimitKey q ip \<noteq> b" for ip pin n k
    using that(1) step[OF that(2,3), of pin] assms(4) by (auto simp: quiet_def cleaned_def split: option.splits)
  have "quiet (fold (\<lambda>(ip, pin) m. snd (validatePin q now ip pin m)) ts n) 0"
    if "quiet n (int (length ts))" "distinct (map fst (am_RateLimits n))" "list_all (\<lambda>(ip, pin). rateLimitKey q ip \<noteq> b) ts" for ts n
    using that
  proof (induction ts arbitrary: n)
    case (Cons x ts)
    obtain ip pin where x: "x = (ip, pin)" by fastforce
    have "rateLimitKey q ip \<noteq> b" using Cons.prems(3) x by simp
    with Cons.prems(1,2) have "quiet (snd (validatePin q now ip pin n)) (int (length ts))"
      "distinct (map fst (am_RateLimits (snd (validatePin q now ip pin n))))"
      using next_quiet[of n "int (length (x # ts))" ip pin] step[of n ip pin] by simp_all
    then show ?case using Cons.IH Cons.prems(3) x by simp
  qed simp
  from this[of m tries] have "quiet (fold (\<lambda>(ip, pin) m. snd (validatePin q now ip pin m)) tries m) 0"
    using assms by (simp add: quiet_def)
  then show ?thesis by (auto simp: quiet_def split: option.splits)
qed

section \<open>The home screen's keys\<close>

lemma owner_last: "fold (\<lambda>(i, k) found. if P k then i else found) ks init =
    (case find (\<lambda>(i, k). P k) (rev ks) of Some (i, k) \<Rightarrow> i | None \<Rightarrow> init)"
proof (induction ks arbitrary: init)
  case (Cons x ks)
  have app: "find Q (xs @ ys) = (case find Q xs of Some y \<Rightarrow> Some y | None \<Rightarrow> find Q ys)" for Q and xs ys :: "('a \<times> 'b) list"
    by (induction xs) auto
  show ?case using Cons by (cases x) (auto simp: app split: option.splits)
qed simp

text \<open>An entry answers to a key when it compares equal; of different keys only one does.\<close>

definition answers :: "string \<Rightarrow> AuthManager \<Rightarrow> string \<Rightarrow> bool" where
  "answers key m i \<longleftrightarrow> (\<exists>k. (i, k) \<in> set (am_HomeScreenKeys m) \<and> constantTimeEquals (hk_key k) key)"

lemma owner_answers: "key_owner key m = i \<Longrightarrow> i \<noteq> [] \<Longrightarrow> answers key m i"
  by (auto simp: key_owner_def owner_last answers_def split: option.splits prod.splits dest!: find_in)

lemma owner_none: "(\<And>i. \<not> answers key m i) \<Longrightarrow> key_owner key m = []"
  using owner_answers by blast

lemma answers_once:
  assumes "keys_ok m" and "answers key m i" and "answers key m j"
  shows "i = j"
proof -
  obtain k k' where k: "(i, k) \<in> set (am_HomeScreenKeys m)" "constantTimeEquals (hk_key k) key"
    "(j, k') \<in> set (am_HomeScreenKeys m)" "constantTimeEquals (hk_key k') key"
    using assms(2,3) by (auto simp: answers_def)
  have "CHR 0x00 \<notin> set (hk_key k)" "CHR 0x00 \<notin> set (hk_key k')"
    using assms(1) k(1,3) unfolding keys_ok_def key_list_ok_def by blast+
  then have "hk_key k = hk_key k'" using same_secret k(2,4) by blast
  then show ?thesis using assms(1) k(1,3) unfolding keys_ok_def key_list_ok_def by metis
qed

fun mints :: "QtAuth \<Rightarrow> string \<Rightarrow> AuthCall \<Rightarrow> bool" where
  "mints q key (MintKey random token) \<longleftrightarrow> constantTimeEquals (minted_key q random) key"
| "mints q key _ \<longleftrightarrow> False"

lemma unanswered_call:
  assumes "auth_inv q (t, m)" and "\<And>i. \<not> answers key m i" and "\<not> mints q key c"
  shows "\<not> answers key (auth_call q (now, c) m) i"
proof -
  let ?ks = "am_HomeScreenKeys m"
  have d: "distinct (map fst ?ks)" using assms(1) by (simp add: auth_inv_def keys_ok_def key_list_ok_def)
  have del: "set (AList.delete j ?ks) \<subseteq> set ?ks" for j by (auto simp: AList.delete_eq)
  have "set (am_HomeScreenKeys (auth_call q (now, c) m)) \<subseteq> set ?ks \<union>
      {(j, k). \<not> constantTimeEquals (hk_key k) key}"
  proof (cases "\<exists>random token. c = MintKey random token")
    case True
    then obtain random token where c: "c = MintKey random token" by blast
    have upd: "set (AList.update j \<lparr>hk_key = minted_key q random, hk_issuedAt = now\<rparr> ?ks) \<subseteq> set ?ks \<union>
      {(j, k). \<not> constantTimeEquals (hk_key k) key}" for j
      using set_updated[OF d, of j "\<lparr>hk_key = minted_key q random, hk_issuedAt = now\<rparr>"] assms(3) c by auto
    show ?thesis using keys_of_call[of q now c m] c
      by (auto simp del: auth_call.simps dest: del[THEN subsetD] upd[THEN subsetD])
  next
    case False
    then show ?thesis using keys_of_call[of q now c m]
      by (cases c) (auto simp del: auth_call.simps dest: del[THEN subsetD])
  qed
  then show ?thesis using assms(2) by (auto simp: answers_def)
qed

text \<open>C38. A home-screen key opens once: the first redemption that succeeds finds a session that is there and not too long
  idle, with a key at most a day old, and after it no redemption of the same key succeeds, whatever is called in
  between, unless the host's random generator makes that very key again.\<close>

theorem home_key_opens_once:
  assumes "lawful q st (es @ (now, RedeemKey key) # fs)" and "m = snd (reached q st es)"
    and "fst (redeemHomeScreenKey now key m) = Some h" and "untouched (mints q key) fs"
    and "m' = snd (reached q st (es @ (now, RedeemKey key) # fs))"
  shows "(case session_of m (key_owner key m) of None \<Rightarrow> False
      | Some s \<Rightarrow> hh_machineName h = si_machineName s \<and> now - last_activity s \<le> ttlFor s) \<and>
    (case map_of (am_HomeScreenKeys m) (key_owner key m) of None \<Rightarrow> True | Some k \<Rightarrow> now - hk_issuedAt k \<le> 24 * 3600) \<and>
    fst (redeemHomeScreenKey later key m') = None"
proof (intro conjI)
  obtain t where x: "reached q st es = (t, m)" using assms(2) by (metis prod.collapse)
  have legal: "legal (auth_ok q) (timed_auth q) ((now, RedeemKey key) # fs) (t, m)" and inv: "auth_inv q (t, m)"
    using lawful_append[OF assms(1)] reached_inv x by metis+
  show "case session_of m (key_owner key m) of None \<Rightarrow> False
      | Some s \<Rightarrow> hh_machineName h = si_machineName s \<and> now - last_activity s \<le> ttlFor s"
    using assms(3) by (auto simp: redeemHomeScreenKey_def session_of_def inactive_def Let_def split: if_splits option.splits)
  show "case map_of (am_HomeScreenKeys m) (key_owner key m) of None \<Rightarrow> True | Some k \<Rightarrow> now - hk_issuedAt k \<le> 24 * 3600"
    using assms(3) by (auto simp: redeemHomeScreenKey_def Let_def tunables split: if_splits option.splits)
  let ?o = "key_owner key m" and ?y = "timed_auth q (now, RedeemKey key) (t, m)"
  have o: "?o \<noteq> []" "answers key m ?o"
    using assms(3) owner_answers by (auto simp: redeemHomeScreenKey_def Let_def split: if_splits)
  have ks: "am_HomeScreenKeys (snd ?y) = AList.delete ?o (am_HomeScreenKeys m)"
    using assms(3) by (auto simp: timed_auth_def redeemHomeScreenKey_def Let_def split: if_splits option.splits)
  have "keys_ok m" using inv by (simp add: auth_inv_def)
  then have "answers key m i \<Longrightarrow> i = ?o" for i using answers_once o(2) by blast
  then have none: "\<not> answers key (snd ?y) i" for i unfolding answers_def ks by (auto simp: AList.delete_eq answers_def)
  have "\<not> answers key (snd (fold (timed_auth q) fs y)) i"
    if "auth_inv q y" "legal (auth_ok q) (timed_auth q) fs y" "\<And>i. \<not> answers key (snd y) i" for y i
    using that assms(4)
  proof (induction fs arbitrary: y)
    case (Cons e fs)
    obtain u n now' c where y: "y = (u, n)" "e = (now', c)" by (metis surj_pair)
    have "\<not> mints q key c" using Cons.prems(4) y by (simp add: untouched_def)
    then have "\<not> answers key (snd (timed_auth q e y)) i" for i
      using unanswered_call[of q u n key c now'] Cons.prems(1,3) y by (simp add: timed_auth_def del: auth_call.simps)
    then show ?case
      using Cons.IH[of "timed_auth q e y"] Cons.prems auth_step[OF Cons.prems(1)] by (simp add: untouched_def)
  qed simp
  from this[OF auth_step[OF inv] _ none] legal have "\<not> answers key m' i" for i
    using assms(5) x by (simp add: reached_append)
  then have "key_owner key m' = []" by (rule owner_none)
  then show "fst (redeemHomeScreenKey later key m') = None" by (simp add: redeemHomeScreenKey_def Let_def)
qed

section \<open>The list the owner sees\<close>

text \<open>The list of sessions is newest first, and it depends on which sessions there are, not on where a hash table
  keeps them: whatever order two tables with distinct ids hold the same sessions in, the owner sees one list.\<close>

theorem list_ignores_hash_order:
  assumes "set (am_Sessions m) = set (am_Sessions m')"
    and "distinct (map (si_token \<circ> snd) (am_Sessions m))" and "distinct (map (si_token \<circ> snd) (am_Sessions m'))"
  shows "auth_sessions m = auth_sessions m' \<and> sorted_wrt (\<lambda>a b. si_createdAt b \<le> si_createdAt a) (auth_sessions m) \<and>
    set (auth_sessions m) = snd ` set (am_Sessions m')"
proof (intro conjI)
  let ?k = "\<lambda>s. (- si_createdAt s, si_token s)"
  have set: "set (auth_sessions n) = snd ` set (am_Sessions n)" for n by (simp add: auth_sessions_def)
  have sorted: "sorted (map ?k (auth_sessions n))" for n unfolding auth_sessions_def by (rule sorted_sort_key)
  have distinct: "distinct (map ?k (auth_sessions n))" if d: "distinct (map (si_token \<circ> snd) (am_Sessions n))" for n
  proof -
    have "distinct (map si_token (map snd (am_Sessions n)))" using d by simp
    then have "distinct (map snd (am_Sessions n))" "inj_on si_token (snd ` set (am_Sessions n))"
      unfolding distinct_map[of si_token] by simp_all
    then have "distinct (auth_sessions n)" "inj_on si_token (set (auth_sessions n))"
      by (simp_all add: auth_sessions_def)
    then show ?thesis by (auto simp: distinct_map inj_on_def)
  qed
  have inj: "inj_on si_token (snd ` set (am_Sessions m'))" using assms(3) by (auto simp: distinct_map inj_on_def)
  have "map ?k (auth_sessions m) = map ?k (auth_sessions m')"
    using sorted distinct assms by (intro sorted_distinct_set_unique) (simp_all add: set)
  moreover have "inj_on ?k (set (auth_sessions m) \<union> set (auth_sessions m'))"
    using inj assms(1) by (auto simp: set inj_on_def)
  ultimately show "auth_sessions m = auth_sessions m'" by (rule inj_on_map_eq_map[THEN iffD1, rotated])
  have "sorted_wrt (\<lambda>a b. ?k a \<le> ?k b) (auth_sessions m)" using sorted[of m] by (simp add: sorted_map)
  then show "sorted_wrt (\<lambda>a b. si_createdAt b \<le> si_createdAt a) (auth_sessions m)"
    by (rule sorted_wrt_mono_rel[rotated]) (auto simp: less_eq_prod_def)
  show "set (auth_sessions m) = snd ` set (am_Sessions m')" using set[of m] assms(1) by simp
qed

section \<open>The password\<close>

text \<open>What is stored for a password accepts exactly the passwords that derive the same key: written by
  \<open>setAdminPassword\<close>, split and decoded again by the check, as long as Base64 is read back and its alphabet has no
  dollar sign and no NUL.\<close>

theorem stored_password_matches:
  assumes "qa_fromBase64 q (qa_toBase64 q salt) = salt" and "salt \<noteq> []" and "key \<noteq> []"
    and "key = qa_pbkdf2 q password salt 210000 32" and "length key = 32" and "qa_fromBase64 q (qa_toBase64 q key) = key"
    and "CHR ''$'' \<notin> set (qa_toBase64 q salt) \<union> set (qa_toBase64 q key)"
    and "CHR 0x00 \<notin> set (qa_toBase64 q key) \<union> set (qa_toBase64 q (qa_pbkdf2 q other salt 210000 32))"
    and "CHR ''$'' \<notin> set (qa_number q 210000)" and "qx_toInt q (qa_number q 210000) = Some 210000"
    and "inj (qa_toBase64 q)"
  shows "passwordMatches q (encodePassword q salt password) other \<longleftrightarrow> qa_pbkdf2 q other salt 210000 32 = key"
proof -
  have parts: "splitOn CHR ''$'' (encodePassword q salt password) =
      [''pbkdf2-sha256'', qa_number q 210000, qa_toBase64 q salt, qa_toBase64 q key]"
  proof -
    have four: "splitOn CHR ''$'' (a @ CHR ''$'' # b @ CHR ''$'' # c @ CHR ''$'' # d) = [a, b, c, d]"
      if "CHR ''$'' \<notin> set a" "CHR ''$'' \<notin> set b" "CHR ''$'' \<notin> set c" "CHR ''$'' \<notin> set d" for a b c d
      using that by (simp add: splitOn_append splitOn_none)
    have e: "encodePassword q salt password = ''pbkdf2-sha256'' @ CHR ''$'' # qa_number q 210000 @ CHR ''$'' #
        qa_toBase64 q salt @ CHR ''$'' # qa_toBase64 q key"
      by (simp add: encodePassword_def tunables assms(4))
    show ?thesis unfolding e by (rule four) (use assms(7,9) in simp_all)
  qed
  have "constantTimeEquals (qa_toBase64 q (qa_pbkdf2 q other salt 210000 32)) (qa_toBase64 q key) \<longleftrightarrow>
      qa_toBase64 q (qa_pbkdf2 q other salt 210000 32) = qa_toBase64 q key"
    by (rule equals_plain) (use assms(8) in blast)+
  also have "\<dots> \<longleftrightarrow> qa_pbkdf2 q other salt 210000 32 = key" by (rule inj_eq[OF assms(11)])
  finally have same: "constantTimeEquals (qa_toBase64 q (qa_pbkdf2 q other salt 210000 32)) (qa_toBase64 q key) \<longleftrightarrow>
      qa_pbkdf2 q other salt 210000 32 = key" .
  show ?thesis unfolding passwordMatches_def parts list.case Let_def
    by (simp only: assms(10) option.case assms(1,6) assms(5)) (simp add: assms(2,3) same)
qed

section \<open>Activity that is not written\<close>

text \<open>Every activity is under an hour after the one before it.\<close>

fun hourly :: "int \<Rightarrow> int list \<Rightarrow> bool" where
  "hourly t [] = True"
| "hourly t (u # us) = (u - t < 3600 \<and> hourly u us)"

lemma touches:
  assumes "session_of m (qa_hashToken q token) = Some s" and "token \<noteq> []" and "hourly (si_lastSeen s) ts"
  shows "am_File (fold (\<lambda>now. touchSession q now token) ts m) = am_File m \<and>
    am_Settings (fold (\<lambda>now. touchSession q now token) ts m) = am_Settings m \<and>
    am_Writable (fold (\<lambda>now. touchSession q now token) ts m) = am_Writable m \<and>
    session_of (fold (\<lambda>now. touchSession q now token) ts m) (qa_hashToken q token) =
      Some (s\<lparr>si_lastSeen := last (si_lastSeen s # ts)\<rparr>)"
  using assms
proof (induction ts arbitrary: m s)
  case Nil
  then show ?case by (cases s) simp
next
  case (Cons now ts)
  have one: "touchSession q now token m = put_session (qa_hashToken q token) (s\<lparr>si_lastSeen := now\<rparr>) m"
    using Cons.prems by (simp add: touchSession_def Let_def)
  have "session_of (touchSession q now token m) (qa_hashToken q token) = Some (s\<lparr>si_lastSeen := now\<rparr>)" by (simp add: one)
  from Cons.IH[OF this Cons.prems(2)] Cons.prems(3) show ?case by (simp add: one)
qed

text \<open>Steady use is forgotten: a remembered session that is used at least once an hour is never written again, so after
  ninety days of it a restart signs the browser out, though it was active a second before. The code means to write
  it hourly; it measures from the last activity, not from the last write.\<close>

theorem steady_use_is_forgotten:
  assumes "token \<noteq> []" and "0 < born" and "hourly born ts" and "now = last (born # ts)" and "now - born > 90 * 24 * 3600"
    and "m = fold (\<lambda>t. touchSession q t token) ts (createSession q born token ip name host False tunnel (snd (fresh_auth q st)))"
  shows "validateSession q now token m \<and> \<not> validateSession q now token (auth_call q (now, RestartAuth fresh) m)"
proof -
  let ?i = "qa_hashToken q token"
  define s where "s = new_session born ?i (cleanClientAddress ip) name host False tunnel"
  define m0 where "m0 = createSession q born token ip name host False tunnel (snd (fresh_auth q st))"
  have seen: "si_lastSeen s = born" "si_createdAt s = born" "\<not> si_ephemeral s" by (simp_all add: s_def new_session_def no_session_def)
  have m0: "session_of m0 ?i = Some s" "am_Settings m0 \<noteq> None" "am_File m0 = Some [session_toJson q s]"
    by (simp_all add: m0_def createSession_def s_def fresh_auth_def am_new_def loadSessions_def saveSessions_def
        put_session_def session_of_def am_emit_def new_session_def no_session_def Let_def)
  have hourly: "hourly (si_lastSeen s) ts" using assms(3) seen by simp
  note run = touches[OF m0(1) assms(1) hourly]
  have m: "m = fold (\<lambda>now. touchSession q now token) ts m0" using assms(6) by (simp add: m0_def)
  have last: "session_of m ?i = Some (s\<lparr>si_lastSeen := now\<rparr>)" using run seen assms(4) m by simp
  have "0 < now" using assms(2,5) by simp
  then have valid: "validateSession q now token m"
    using last assms(1) seen by (simp add: validateSession_def last_activity_def ttlFor_def tunables)
  have keys: "sj_token (session_toJson q s) = ?i" by (simp add: s_def new_session_def)
  obtain st' where st': "am_Settings m = Some st'" using run m0(2) m by auto
  have old: "last_activity (loaded_session q keep (session_toJson q s)) = born" for keep
    using assms(2) seen by (simp add: loaded_session_def session_toJson_def last_activity_def Let_def)
  have "am_Sessions (auth_call q (now, RestartAuth fresh) m) = []"
    using run m0(3) m st' old assms(5) by (simp add: am_new_def loadSessions_def load_one_def tunables Let_def)
  then have "\<not> validateSession q now token (auth_call q (now, RestartAuth fresh) m)"
    by (simp add: validateSession_def session_of_def del: auth_call.simps)
  then show ?thesis using valid by blast
qed

section \<open>The promises at work\<close>

text \<open>The witnesses' installation: digests and encodings are the texts themselves, a key of 32 bytes is the password
  repeated, and no address is an address.\<close>

definition toy_auth :: QtAuth where
  "toy_auth = \<lparr>qw_net = \<lparr>qt_parse = (\<lambda>s. NullAddress), qt_isLoopback = (\<lambda>a. False)\<rparr>, qw_isLinkLocal = (\<lambda>a. False),
     qw_url = (\<lambda>s. (s, 0)), qw_toIPv4 = (\<lambda>a. None), qx_toString = (\<lambda>a. []),
     qx_toInt = (\<lambda>s. if s = ''210000'' then Some 210000 else None),
     qa_hashToken = (\<lambda>s. s), qa_hmac = (\<lambda>data key. data), qa_pbkdf2 = (\<lambda>pw salt n k. take k (concat (replicate k pw))),
     qa_toBase64 = (\<lambda>s. s), qa_toBase64Url = (\<lambda>s. s), qa_fromBase64 = (\<lambda>s. s), qa_isValidSpki = (\<lambda>s. s \<noteq> []),
     qa_number = (\<lambda>n. if n = 210000 then ''210000'' else [])\<rparr>"

definition toy_settings :: AuthSettings where
  "toy_settings = \<lparr>st_hmacKey = ''k'', st_certificateToken = [], st_certAuthEnabled = False, st_adminPasswordDigest = [],
     st_remoteAdminEnabled = True\<rparr>"

lemma toy_key_text: "key_text_ok toy_auth"
  by (simp add: key_text_ok_def toy_auth_def)

lemma lawful_toy: "legal (auth_ok toy_auth) (timed_auth toy_auth) es (fresh_auth toy_auth toy_settings) \<Longrightarrow> lawful toy_auth toy_settings es"
  by (simp add: lawful_def toy_key_text)

text \<open>Two browsers sign in, one is paired, unlocks the admin page and streams, then the other does.\<close>

definition two_browsers :: "(int \<times> AuthCall) list" where
  "two_browsers = [(10, CreateSession ''a'' ''ip'' ''tv'' False False False), (11, BindKey ''a'' ''spki''),
     (12, CreateSession ''b'' ''ip'' ''pc'' False True False), (13, SetPassword ''salt'' ''password''), (14, Promote ''a''),
     (15, SetSessionStreaming ''a'' True), (16, SetSessionStreaming ''b'' True), (17, MintKey ''r'' ''a'')]"

lemma one_stream_at_most_witness:
  "si_streaming (sessionForToken toy_auth ''b'' (snd (reached toy_auth toy_settings two_browsers))) \<and>
   qa_hashToken toy_auth ''b'' = qa_hashToken toy_auth ''b''"
proof -
  have l: "lawful toy_auth toy_settings two_browsers" by (rule lawful_toy) code_simp
  have s: "si_streaming (sessionForToken toy_auth ''b'' (snd (reached toy_auth toy_settings two_browsers)))" by code_simp
  show ?thesis using one_stream_at_most[OF l refl s s] s by blast
qed

lemma session_table_well_formed_witness:
  "distinct (map fst (am_Sessions (snd (reached toy_auth toy_settings two_browsers)))) \<and>
   length (am_Sessions (snd (reached toy_auth toy_settings two_browsers))) = 2"
proof -
  have l: "lawful toy_auth toy_settings two_browsers" by (rule lawful_toy) code_simp
  have n: "length (am_Sessions (snd (reached toy_auth toy_settings two_browsers))) = 2" by code_simp
  show ?thesis using session_table_well_formed[OF l prod.collapse[symmetric]] n by blast
qed

lemma revoked_stays_out_witness:
  "\<not> validateSession toy_auth 21 ''a'' (snd (reached toy_auth toy_settings
     (two_browsers @ (18, DestroySession ''a'') # [(20, RestartAuth ''x'')])))"
proof -
  have l: "lawful toy_auth toy_settings (two_browsers @ (18, DestroySession ''a'') # [(20, RestartAuth ''x'')])"
    by (rule lawful_toy) code_simp
  have h: "''a'' = qa_hashToken toy_auth ''a''" by (simp add: toy_auth_def)
  show ?thesis using revoked_stays_out[OF l _ h _ _ refl, where now = 21] by (simp add: untouched_def)
qed

lemma pairing_key_stays_witness:
  "sessionPairingKey toy_auth ''a'' (snd (reached toy_auth toy_settings
     (two_browsers @ [(18, BindKey ''a'' ''thief''), (19, RestartAuth ''x''), (20, BindKey ''a'' ''thief'')]))) = ''spki''"
proof -
  let ?fs = "[(18, BindKey ''a'' ''thief''), (19, RestartAuth ''x''), (20, BindKey ''a'' ''thief'')]"
  have l: "lawful toy_auth toy_settings (two_browsers @ ?fs)" by (rule lawful_toy) code_simp
  have k: "''spki'' = sessionPairingKey toy_auth ''a'' (snd (reached toy_auth toy_settings two_browsers))" by code_simp
  have there: "session_of (snd (reached toy_auth toy_settings (two_browsers @ ?fs))) (qa_hashToken toy_auth ''a'') \<noteq> None"
    by code_simp
  show ?thesis using pairing_key_stays[OF l k _ _ refl] there by (simp add: untouched_def)
qed

lemma password_change_revokes_witness:
  "\<not> isAdminSession toy_auth 21 ''a'' (snd (reached toy_auth toy_settings
     (two_browsers @ (18, SetPassword ''salt'' ''new password'') # [(20, RestartAuth ''x'')]))) \<and>
   isAdminSession toy_auth 21 ''a'' (snd (reached toy_auth toy_settings two_browsers))"
proof -
  have l: "lawful toy_auth toy_settings (two_browsers @ (18, SetPassword ''salt'' ''new password'') # [(20, RestartAuth ''x'')])"
    by (rule lawful_toy) code_simp
  have "isAdminSession toy_auth 21 ''a'' (snd (reached toy_auth toy_settings two_browsers))" by code_simp
  then show ?thesis using password_change_revokes[OF l _ _ refl, where token = "''a''" and now = 21 and salt = "''salt''" and pw = "''new password''"]
    by (simp add: untouched_def)
qed

lemma restart_keeps_remembered_witness:
  "session_of (auth_call toy_auth (20, RestartAuth ''x'') (snd (reached toy_auth toy_settings two_browsers))) ''a'' \<noteq> None"
proof -
  let ?m = "snd (reached toy_auth toy_settings two_browsers)"
  have l: "lawful toy_auth toy_settings (two_browsers @ [(20, RestartAuth ''x'')])" by (rule lawful_toy) code_simp
  have f: "case session_of ?m ''a'' of None \<Rightarrow> False | Some s \<Rightarrow> \<not> si_ephemeral s"
    "case written_clock ?m ''a'' of None \<Rightarrow> False | Some l \<Rightarrow> 20 - l \<le> 90 * 24 * 3600" by code_simp+
  show ?thesis using restart_keeps_remembered[OF l refl refl, of "''a''"] f
    by (auto simp del: auth_call.simps split: option.splits)
qed

definition missed_thrice :: AuthManager where
  "missed_thrice = snd (validatePin toy_auth 1001 ''ip'' ''2''
     (snd (validatePin toy_auth 1000 ''ip'' ''1'' (generatePin ''123456'' (snd (fresh_auth toy_auth toy_settings))))))"

lemma lockout_holds_witness:
  "fst (validatePin toy_auth 1020 ''ip'' ''123456'' (auth_call toy_auth (1010, TryPin ''other'' ''9'')
     (snd (validatePin toy_auth 1002 ''ip'' ''3'' missed_thrice)))) =
   \<lparr>vr_result = RateLimited, vr_remainingAttempts = 0, vr_lockoutSeconds = 12\<rparr>"
proof -
  have w: "vr_lockoutSeconds (fst (validatePin toy_auth 1002 ''ip'' ''3'' missed_thrice)) = 30" by code_simp
  show ?thesis
    using lockout_holds[OF w, of "[(1010, TryPin ''other'' ''9'')]" _ 1020 "''ip''" "''123456''"] by simp
qed

lemma tries_forgive_others_witness:
  "map_of (am_RateLimits (fold (\<lambda>(ip, pin) m. snd (validatePin toy_auth 2000 ip pin m))
     [(''other'', ''1''), (''other'', ''2''), (''third'', ''3'')] (snd (validatePin toy_auth 1002 ''ip'' ''3'' missed_thrice)))) ''ip'' = None"
proof (rule tries_forgive_others[where f = 1002 and e = "\<lparr>rl_failures = 3, rl_lastFailure = Some 1002, rl_lockoutUntilEpoch = 1032\<rparr>"])
  show "map_of (am_RateLimits (snd (validatePin toy_auth 1002 ''ip'' ''3'' missed_thrice))) ''ip'' =
    Some \<lparr>rl_failures = 3, rl_lastFailure = Some 1002, rl_lockoutUntilEpoch = 1032\<rparr>" by code_simp
  show "distinct (map fst (am_RateLimits (snd (validatePin toy_auth 1002 ''ip'' ''3'' missed_thrice))))" by code_simp
qed (simp_all add: rateLimitKey_def parse_addr_def toy_auth_def cleanClientAddress_def)

lemma home_key_opens_once_witness:
  "fst (redeemHomeScreenKey 19 ''hs-r'' (snd (reached toy_auth toy_settings
     (two_browsers @ (18, RedeemKey ''hs-r'') # [(18, Touch ''a'')])))) = None"
proof -
  have l: "lawful toy_auth toy_settings (two_browsers @ (18, RedeemKey ''hs-r'') # [(18, Touch ''a'')])"
    by (rule lawful_toy) code_simp
  have h: "fst (redeemHomeScreenKey 18 ''hs-r'' (snd (reached toy_auth toy_settings two_browsers))) =
    Some \<lparr>hh_machineName = ''tv'', hh_instances = []\<rparr>" by code_simp
  show ?thesis using home_key_opens_once[OF l refl h _ refl, of 19] by (simp add: untouched_def)
qed

lemma list_ignores_hash_order_witness:
  "auth_sessions (snd (reached toy_auth toy_settings two_browsers)) =
   auth_sessions ((snd (reached toy_auth toy_settings two_browsers))
     \<lparr>am_Sessions := rev (am_Sessions (snd (reached toy_auth toy_settings two_browsers)))\<rparr>)"
proof -
  let ?m = "snd (reached toy_auth toy_settings two_browsers)"
  have d: "distinct (map (si_token \<circ> snd) (am_Sessions ?m))" by code_simp
  then have "distinct (map (si_token \<circ> snd) (rev (am_Sessions ?m)))" by (simp flip: rev_map)
  then show ?thesis using list_ignores_hash_order[OF _ d, of "?m\<lparr>am_Sessions := rev (am_Sessions ?m)\<rparr>"] by simp
qed

lemma stored_password_matches_witness:
  "passwordMatches toy_auth (encodePassword toy_auth ''salt'' ''password'') ''password'' \<and>
   \<not> passwordMatches toy_auth (encodePassword toy_auth ''salt'' ''password'') ''passwort''"
proof -
  let ?key = "qa_pbkdf2 toy_auth ''password'' ''salt'' 210000 32"
  have k: "?key = concat (replicate 4 ''password'')" "qa_pbkdf2 toy_auth ''passwort'' ''salt'' 210000 32 = concat (replicate 4 ''passwort'')"
    by code_simp+
  have "passwordMatches toy_auth (encodePassword toy_auth ''salt'' ''password'') other \<longleftrightarrow>
      qa_pbkdf2 toy_auth other ''salt'' 210000 32 = ?key"
    if "other = ''password'' \<or> other = ''passwort''" for other
    by (rule stored_password_matches)
      (use that in \<open>auto simp: k[unfolded toy_auth_def] toy_auth_def numeral_eq_Suc inj_def\<close>)
  then show ?thesis using k by (simp add: numeral_eq_Suc)
qed

lemma steady_use_is_forgotten_witness:
  "\<not> validateSession toy_auth (100 + 3599 * 2161) ''a'' (auth_call toy_auth (100 + 3599 * 2161, RestartAuth ''x'')
     (fold (\<lambda>t. touchSession toy_auth t ''a'') (map (\<lambda>k. 100 + 3599 * int k) [1..<2162])
        (createSession toy_auth 100 ''a'' ''ip'' ''tv'' False False False (snd (fresh_auth toy_auth toy_settings)))))"
proof -
  have steady: "hourly (t + 3599 * int k) (map (\<lambda>k. t + 3599 * int k) [Suc k..<n])" for t k n
  proof (induction "n - k" arbitrary: k)
    case (Suc d)
    have "t + 3599 * int (Suc k) - (t + 3599 * int k) < 3600" by simp
    moreover have "hourly (t + 3599 * int (Suc k)) (map (\<lambda>k. t + 3599 * int k) [Suc (Suc k)..<n])"
      using Suc by (intro Suc.hyps(1)) simp
    ultimately show ?case by (cases "Suc k < n") (simp_all only: upt_conv_Cons list.map hourly.simps, simp_all)
  qed simp
  have h: "hourly 100 (map (\<lambda>k. 100 + 3599 * int k) [1..<2162])" using steady[of 100 0 2162] by simp
  have l: "100 + 3599 * 2161 = last (100 # map (\<lambda>k. 100 + 3599 * int k) [1..<2162])"
    by (simp add: last_map)
  show ?thesis using steady_use_is_forgotten[OF _ _ h l _ refl] by simp
qed

end
