(* ===== verification/Http_Server.thy ===== *)
theory Http_Server
  imports Static_Files Rest_Router Auth_Promises
begin

text \<open>
  The web server between the sockets and the routes (\<open>src/server/HttpServer.cpp\<close>): which request is local, the
  redirect to HTTPS, the access decision of \<open>serveRequest\<close> and what it lets through to the router, the WebSocket
  upgrades of a socket and of a tunnel. It puts \<open>Request_Guard\<close>, \<open>Auth_Manager\<close>, \<open>Connection_Guard\<close> and
  \<open>Rest_Router\<close> together as the code does. An answer is named by its branch; the list of files in the application's manifest and the
  rewriting of a file for a home-screen shortcut are not modelled. Every operation also says whether it reported a failure to the guard.
\<close>

section \<open>What the server holds\<close>

record Incoming = Parsed +
  in_clientAddress :: string
  in_isLocal :: bool
  in_isHostMachine :: bool
  in_hostTrusted :: bool
  in_viaTunnel :: bool

record SlotPorts =
  sp_signaling :: int
  sp_relay :: int

text \<open>\<open>sv_localAddresses\<close> is what \<open>QNetworkInterface::allAddresses\<close> returns, \<open>sv_now\<close> the second it is; the two
  callbacks the program installs are \<open>sv_PlayerSlotAuth\<close> and whether there is a \<open>m_HomeScreenIdentity\<close>.\<close>

record Server =
  sv_qt :: QtAuth
  sv_http :: QtHttp
  sv_localAddresses :: "HostAddress list"
  sv_now :: int
  sv_AuthManager :: "AuthManager option"
  sv_AdminKey :: string
  sv_domain :: string
  sv_ActiveHttpsPort :: int
  sv_SignalingPort :: int
  sv_StreamRelayPort :: int
  sv_ControlPort :: int
  sv_SlotPorts :: "int \<rightharpoonup> SlotPorts"
  sv_FirstPlayerSlot :: int
  sv_FirstExtraSlot :: int
  sv_PlayerSlotAuth :: "(Incoming \<Rightarrow> int \<Rightarrow> bool) option"
  sv_HomeScreenIdentity :: bool
  sv_StaticFiles :: StaticFileHandler

definition sv_web :: "Server \<Rightarrow> QtWeb" where
  "sv_web sv = QtWeb.truncate (sv_qt sv)"

definition sv_parse :: "Server \<Rightarrow> string \<Rightarrow> HostAddress" where
  "sv_parse sv a = qt_parse (qw_net (sv_qt sv)) a"

section \<open>Addresses and names\<close>

definition isLanHost :: "Server \<Rightarrow> string \<Rightarrow> bool" where
  "isLanHost sv host =
     (let h = trimmed (toLower host)
      in if h = [] then True
         else if h = ''localhost'' \<or> h = ''127.0.0.1'' \<or> h = ''::1'' then True
         else let addr = sv_parse sv h
              in if addr = NullAddress then False
                 else if qt_isLoopback (qw_net (sv_qt sv)) addr then True
                 else (case addr of IPv4 ip \<Rightarrow> private_ipv4 ip | _ \<Rightarrow> False))"

definition own_address :: "Server \<Rightarrow> HostAddress \<Rightarrow> HostAddress \<Rightarrow> bool" where
  "own_address sv peer local =
     (if qt_isLoopback (qw_net (sv_qt sv)) local then False
      else local = peer \<or>
           (case (qw_toIPv4 (sv_qt sv) peer, qw_toIPv4 (sv_qt sv) local) of
              (Some peer4, Some local4) \<Rightarrow> local4 = peer4 | _ \<Rightarrow> False))"

definition isLocalRequest :: "Server \<Rightarrow> string \<Rightarrow> bool" where
  "isLocalRequest sv addr =
     (if addr = [] then False
      else if addr = ''127.0.0.1'' \<or> addr = ''::1'' \<or> addr = ''::ffff:127.0.0.1'' \<or>
              qt_isLoopback (qw_net (sv_qt sv)) (sv_parse sv addr) then True
      else let peer = sv_parse sv addr
           in if peer = NullAddress then False else list_ex (own_address sv peer) (sv_localAddresses sv))"

section \<open>Cookies, keys and slots\<close>

definition cookieFromRequest :: "headers \<Rightarrow> string \<Rightarrow> string" where
  "cookieFromRequest hs name =
     (let cookie = header hs ''cookie''
      in if cookie = [] then []
         else case find (\<lambda>c. startsWith_ci (trimmed c) (name @ ''='')) (splitOn CHR '';'' cookie) of
                None \<Rightarrow> [] | Some c \<Rightarrow> drop (length name + 1) (trimmed c))"

definition sessionToken :: "headers \<Rightarrow> string" where
  "sessionToken hs = cookieFromRequest hs ''mw_session''"

definition isAuthenticated :: "Server \<Rightarrow> headers \<Rightarrow> bool" where
  "isAuthenticated sv hs =
     (case sv_AuthManager sv of
        None \<Rightarrow> True
      | Some m \<Rightarrow> sessionToken hs \<noteq> [] \<and> validateSession (sv_qt sv) (sv_now sv) (sessionToken hs) m)"

text \<open>The comparison is the one of \<open>constantTimeEquals\<close>, loop for loop.\<close>

definition adminKeyMatches :: "Server \<Rightarrow> headers \<Rightarrow> bool" where
  "adminKeyMatches sv hs =
     (if sv_AdminKey sv = [] then False else constantTimeEquals (header hs ''x-mw-admin-key'') (sv_AdminKey sv))"

definition slotFromWsPath :: "Server \<Rightarrow> string \<Rightarrow> int \<times> bool" where
  "slotFromWsPath sv path =
     (if \<not> prefix ''/ws'' path then (-1, False)
      else let rest = drop 3 path;
               isRelay = suffix ''/stream'' rest;
               rest = (if isRelay then take (length rest - 7) rest else rest)
           in (if rest = [] then 0
               else case qh_toInt (sv_http sv) rest of Some slot \<Rightarrow> if slot > 0 then slot else -1 | None \<Rightarrow> -1,
               isRelay))"

section \<open>Serving a request\<close>

datatype Arrival = Socket | ControlTunnel

datatype 'h Reply =
    BadRequest
  | Blocked Outcome
  | AdminToken AdminTokenReply
  | AppManifest
  | WebManifest HttpResponse
  | NotFound
  | NotAllowed
  | VersionJson
  | StaticFile HttpResponse
  | HomeScreenFile HttpResponse string
  | AuthRequired
  | Handled 'h params Incoming

definition session_is :: "(QtAuth \<Rightarrow> int \<Rightarrow> string \<Rightarrow> AuthManager \<Rightarrow> bool) \<Rightarrow> Server \<Rightarrow> string \<Rightarrow> bool" where
  "session_is f sv token = (case sv_AuthManager sv of None \<Rightarrow> False | Some m \<Rightarrow> f (sv_qt sv) (sv_now sv) token m)"

definition request_context :: "Server \<Rightarrow> Arrival \<Rightarrow> Incoming \<Rightarrow> Context" where
  "request_context sv arrival req =
     (let viaTunnel = (arrival = ControlTunnel);
          token = sessionToken (pq_headers req);
          tunnelHost = (viaTunnel \<and> session_is isTunnelHostSession sv token);
          admin = session_is isAdminSession sv token
      in \<lparr>peerLocal = \<not> viaTunnel \<and> isLocalRequest sv (in_clientAddress req),
          hostSession = session_is isHostSession sv token \<and> (\<not> viaTunnel \<or> tunnelHost),
          adminSession = admin,
          adminKeyOk = (\<not> viaTunnel \<or> tunnelHost \<or> admin) \<and> adminKeyMatches sv (pq_headers req),
          publicDomain = sv_domain sv\<rparr>)"

definition describe :: "Incoming \<Rightarrow> HttpRequest" where
  "describe req = \<lparr>rq_method = pq_method req, rq_path = pq_path req, rq_headers = pq_headers req,
     rq_bodySize = int (length (pq_body req))\<rparr>"

definition public_route :: "string \<Rightarrow> bool" where
  "public_route p \<longleftrightarrow> p = ''/api/health'' \<or> p = ''/api/server/hostname'' \<or> prefix ''/api/auth/'' p \<or>
     prefix ''/api/share/player/'' p"

text \<open>A file of the application, or its entry page for a path that names no file; what is rewritten for a home-screen
  shortcut (\<open>personaliseForHomeScreen\<close>) is the reply \<open>HomeScreenFile\<close>, before the rewriting.\<close>

definition head_of :: "Incoming \<Rightarrow> HttpResponse \<Rightarrow> HttpResponse" where
  "head_of req r = (if pq_method req = ''HEAD'' then r\<lparr>rs_body := []\<rparr> else r)"

definition answer_static :: "Server \<Rightarrow> Incoming \<Rightarrow> 'h Reply" where
  "answer_static sv req =
     (if pq_method req \<noteq> ''GET'' \<and> pq_method req \<noteq> ''HEAD'' then NotAllowed
      else if pq_path req = ''/version.json'' then VersionJson
      else let lastSegment = last (splitOn CHR ''/'' (pq_path req));
               looksLikeFile = (CHR ''.'' \<in> set lastSegment);
               homeScreen = (in_viaTunnel req \<and> sv_HomeScreenIdentity sv \<and>
                 (\<not> looksLikeFile \<or> pq_path req = ''/index.html'' \<or> pq_path req = ''/manifest.webmanifest''));
               ifNoneMatch = header (pq_headers req) ''if-none-match'';
               fileIfNoneMatch = (if homeScreen then [] else ifNoneMatch);
               resp = serveFile (sv_StaticFiles sv) (pq_path req) fileIfNoneMatch;
               resp = (if rs_status resp = 404 \<and> \<not> looksLikeFile then serveFile (sv_StaticFiles sv) ''/'' fileIfNoneMatch
                       else resp)
           in if homeScreen \<and> rs_status resp = 200 then HomeScreenFile resp ifNoneMatch
              else StaticFile (head_of req resp))"

text \<open>The manifest of a home-screen shortcut, as the file has it but for the headers.\<close>

definition web_manifest :: "Server \<Rightarrow> Incoming \<Rightarrow> 'h Reply" where
  "web_manifest sv req =
     (if \<not> in_viaTunnel req \<or> \<not> sv_HomeScreenIdentity sv \<or> pq_method req \<noteq> ''GET'' then NotFound
      else let resp = serveFile (sv_StaticFiles sv) ''/manifest.webmanifest'' []
           in WebManifest (resp\<lparr>rs_headers := qmap_insert ''Cache-Control'' ''no-store''
                (filter (\<lambda>(k, v). k \<noteq> ''ETag'' \<and> k \<noteq> ''Last-Modified'') (rs_headers resp))\<rparr>))"

text \<open>The part after the access decision; the boolean is whether a failure was reported to the guard.\<close>

definition serve_allowed :: "Server \<Rightarrow> 'h RestRouter \<Rightarrow> Incoming \<Rightarrow> Context \<Rightarrow> Decision \<Rightarrow> 'h Reply \<times> bool" where
  "serve_allowed sv router req ctx d =
     (let path = pq_path req;
          authenticated = isAuthenticated sv (pq_headers req)
      in if path = ''/api/admin/token''
         then (let r = adminTokenReply d ctx authenticated in (AdminToken r, r = Deny))
         else if path = ''/api/app/manifest'' then (AppManifest, False)
         else if path = ''/api/app/web-manifest''
         then (web_manifest sv req, False)
         else if \<not> prefix ''/api/'' path then (answer_static sv req, False)
         else if sv_AuthManager sv \<noteq> None \<and> \<not> d_localPrivilege d \<and> \<not> public_route path \<and> \<not> authenticated
         then (AuthRequired, True)
         else case dispatchAsync router (pq_method req) path of
                None \<Rightarrow> (NotFound, False)
              | Some (h, ps) \<Rightarrow> (Handled h ps req, False))"

definition serveRequest :: "Server \<Rightarrow> 'h RestRouter \<Rightarrow> Arrival \<Rightarrow> Incoming \<Rightarrow> 'h Reply \<times> bool" where
  "serveRequest sv router arrival req =
     (let req = req\<lparr>in_viaTunnel := (arrival = ControlTunnel)\<rparr>
      in if pq_malformed req \<or> CR \<in> set (pq_path req) \<or> LF \<in> set (pq_path req) then (BadRequest, True)
         else let ctx = request_context sv arrival req;
                  d = evaluate_access (sv_web sv) (describe req) ctx
              in if d_outcome d \<noteq> Allow then (Blocked (d_outcome d), d_outcome d = BlockCrossSite)
                 else serve_allowed sv router
                        (req\<lparr>in_isLocal := d_adminPrivilege d, in_isHostMachine := d_hostMachine d,
                             in_hostTrusted := d_hostTrusted d\<rparr>) ctx d)"

text \<open>An answer of the router leaves with \<open>no-store\<close> unless the handler had a policy of its own.\<close>

definition no_store :: "HttpResponse \<Rightarrow> HttpResponse" where
  "no_store r = (if ''Cache-Control'' \<in> fst ` set (rs_headers r) then r
     else r\<lparr>rs_headers := qmap_insert ''Cache-Control'' ''no-store'' (rs_headers r)\<rparr>)"

section \<open>A request on a socket\<close>

datatype 'h SocketReply = Refused | Redirect string | Served "'h Reply"

definition before_last_colon :: "string \<Rightarrow> string" where
  "before_last_colon s =
     (if CHR '':'' \<in> set s then rev (tl (dropWhile (\<lambda>c. c \<noteq> CHR '':'') (rev s))) else s)"

text \<open>\<open>QString::arg\<close>: the place markers, \<open>%\<close> with one or two digits and perhaps an \<open>L\<close> between, of the lowest number
  present are replaced, every one. A Host with a marker of its own takes part in it.\<close>

definition arg_digit :: "char \<Rightarrow> nat option" where
  "arg_digit c = (if CHR ''0'' \<le> c \<and> c \<le> CHR ''9'' then Some (of_char c - 48) else None)"

definition marker_number :: "string \<Rightarrow> (nat \<times> nat) option" where
  "marker_number s =
     (case s of
        [] \<Rightarrow> None
      | c # cs \<Rightarrow> (case arg_digit c of
          None \<Rightarrow> None
        | Some d \<Rightarrow> (case cs of [] \<Rightarrow> Some (d, 1)
            | c' # _ \<Rightarrow> (case arg_digit c' of None \<Rightarrow> Some (d, 1) | Some d' \<Rightarrow> Some (10 * d + d', 2)))))"

definition marker :: "string \<Rightarrow> (nat \<times> nat) option" where
  "marker s =
     (case s of
        c # cs \<Rightarrow>
          (if c \<noteq> CHR ''%'' then None
           else if cs \<noteq> [] \<and> hd cs = CHR ''L'' then map_option (map_prod id (\<lambda>n. n + 2)) (marker_number (tl cs))
           else map_option (map_prod id Suc) (marker_number cs))
      | [] \<Rightarrow> None)"

fun markers :: "nat \<Rightarrow> string \<Rightarrow> nat list" where
  "markers k [] = []"
| "markers (Suc k) (c # s) = markers k s"
| "markers 0 (c # s) = (case marker (c # s) of None \<Rightarrow> markers 0 s | Some (m, n) \<Rightarrow> m # markers (n - 1) s)"

fun fill_marker :: "nat \<Rightarrow> string \<Rightarrow> nat \<Rightarrow> string \<Rightarrow> string" where
  "fill_marker m a k [] = []"
| "fill_marker m a (Suc k) (c # s) = fill_marker m a k s"
| "fill_marker m a 0 (c # s) =
     (case marker (c # s) of
        None \<Rightarrow> c # fill_marker m a 0 s
      | Some (m', n) \<Rightarrow> if m' = m then a @ fill_marker m a (n - 1) s
          else take n (c # s) @ fill_marker m a (n - 1) s)"

definition qt_arg :: "string \<Rightarrow> string \<Rightarrow> string" where
  "qt_arg a s = (if markers 0 s = [] then s else fill_marker (Min (set (markers 0 s))) a 0 s)"

definition redirect_target :: "Server \<Rightarrow> bool \<Rightarrow> Incoming \<Rightarrow> string option" where
  "redirect_target sv encrypted req =
     (if \<not> encrypted \<and> sv_ActiveHttpsPort sv > 0
      then (let hostname = before_last_colon (header (pq_headers req) ''host'');
                isLocalClient = isLocalRequest sv (in_clientAddress req);
                isPublicDomain = \<not> isLanHost sv hostname;
                isLoopbackHost = (toLower hostname = ''localhost'' \<or> hostname = ''127.0.0.1'' \<or>
                                  hostname = ''::1'' \<or> hostname = ''[::1]'')
            in if \<not> ((isLocalClient \<and> isPublicDomain) \<or> isLoopbackHost)
               then Some (qt_arg (pq_path req)
                      (qt_arg (if sv_ActiveHttpsPort sv \<noteq> 443 then qt_arg (to_string (sv_ActiveHttpsPort sv)) '':%1'' else [])
                        (qt_arg hostname ''https://%1%2%3'')))
               else None)
      else None)"

definition incoming :: "Parsed \<Rightarrow> string \<Rightarrow> Incoming" where
  "incoming p peer = Parsed.extend p \<lparr>in_clientAddress = peer, in_isLocal = False, in_isHostMachine = False,
     in_hostTrusted = False, in_viaTunnel = False\<rparr>"

definition processRequest :: "Server \<Rightarrow> 'h RestRouter \<Rightarrow> bool \<Rightarrow> string \<Rightarrow> string \<Rightarrow> 'h SocketReply \<times> bool" where
  "processRequest sv router encrypted peer requestData =
     (let req = incoming (parse (sv_http sv) requestData) peer
      in if pq_malformed req then (Refused, True)
         else case redirect_target sv encrypted req of
                Some location \<Rightarrow> (Redirect location, False)
              | None \<Rightarrow> (case serveRequest sv router Socket req of (r, reported) \<Rightarrow> (Served r, reported)))"

section \<open>WebSocket upgrades\<close>

datatype Upgrade = WsRefused int | WsForward int

definition slot_ports :: "Server \<Rightarrow> int \<Rightarrow> SlotPorts" where
  "slot_ports sv slot = (case sv_SlotPorts sv slot of None \<Rightarrow> \<lparr>sp_signaling = 0, sp_relay = 0\<rparr> | Some p \<Rightarrow> p)"

definition is_player_slot :: "Server \<Rightarrow> int \<Rightarrow> bool" where
  "is_player_slot sv slot \<longleftrightarrow> sv_FirstPlayerSlot sv \<le> slot \<and> slot < sv_FirstExtraSlot sv"

definition player_may :: "Server \<Rightarrow> Incoming \<Rightarrow> int \<Rightarrow> bool" where
  "player_may sv req slot = (case sv_PlayerSlotAuth sv of None \<Rightarrow> False | Some f \<Rightarrow> f req slot)"

text \<open>Over the tunnel: the port, or 0 with a reason.\<close>

definition authorizeTunnelWebSocket :: "Server \<Rightarrow> Incoming \<Rightarrow> int \<times> bool" where
  "authorizeTunnelWebSocket sv req =
     (if pq_path req = ''/ws/control'' then (0, False)
      else case slotFromWsPath sv (pq_path req) of (slot, wsIsRelay) \<Rightarrow>
        let targetPort = (if slot > 0 then sp_signaling (slot_ports sv slot) else sv_SignalingPort sv)
        in if slot < 0 then (0, False)
           else if wsIsRelay then (0, False)
           else if slot > 0 \<and> targetPort = 0 then (0, False)
           else if is_player_slot sv slot
           then (if \<not> player_may sv req slot then (0, True) else (targetPort, False))
           else (case sv_AuthManager sv of
                   Some m \<Rightarrow>
                     if \<not> validateSession (sv_qt sv) (sv_now sv) (sessionToken (pq_headers req)) m then (0, True)
                     else (targetPort, False)
                 | None \<Rightarrow> (targetPort, False)))"

text \<open>On a socket: \<open>path\<close> is the second word of the request line as it was sent.\<close>

definition upgrade_port :: "Server \<Rightarrow> string \<Rightarrow> int option" where
  "upgrade_port sv path =
     (case slotFromWsPath sv path of (wsSlot, wsIsRelay) \<Rightarrow>
        if path = ''/ws/control'' then Some (sv_ControlPort sv)
        else if wsSlot = 0 then Some (if wsIsRelay then sv_StreamRelayPort sv else sv_SignalingPort sv)
        else if wsSlot > 0
        then (let port = (if wsIsRelay then sp_relay (slot_ports sv wsSlot) else sp_signaling (slot_ports sv wsSlot))
              in if port = 0 then None else Some port)
        else Some (sv_SignalingPort sv))"

definition second_word :: "string \<Rightarrow> string" where
  "second_word line = (case splitOn CHR '' '' line of _ # w # _ \<Rightarrow> w | _ \<Rightarrow> [])"

definition handleWebSocketUpgrade :: "Server \<Rightarrow> string \<Rightarrow> string \<Rightarrow> Upgrade \<times> bool" where
  "handleWebSocketUpgrade sv peer requestData =
     (let up = incoming (parse (sv_http sv) requestData) [];
          path = second_word (qh_utf8 (sv_http sv) (hd (split_lines requestData)));
          wsSlot = fst (slotFromWsPath sv path);
          localPrivilege = (isLocalRequest sv peer \<and> isLocalHostName (sv_web sv) (header (pq_headers up) ''host''))
      in if pq_malformed up then (WsRefused 400, True)
         else if \<not> isWebSocketOriginAllowed (sv_web sv) (header (pq_headers up) ''origin'') (header (pq_headers up) ''host'')
         then (WsRefused 403, True)
         else case upgrade_port sv path of
                None \<Rightarrow> (WsRefused 404, False)
              | Some port \<Rightarrow>
                  if is_player_slot sv wsSlot
                  then (if \<not> player_may sv up wsSlot then (WsRefused 401, True) else (WsForward port, False))
                  else (case sv_AuthManager sv of
                          Some m \<Rightarrow>
                            if \<not> localPrivilege \<and>
                               \<not> validateSession (sv_qt sv) (sv_now sv) (sessionToken (pq_headers up)) m
                            then (WsRefused 401, True) else (WsForward port, False)
                        | None \<Rightarrow> (WsForward port, False)))"


section \<open>What reaches a handler\<close>

definition served_at_home :: "Server \<Rightarrow> Arrival \<Rightarrow> Incoming \<Rightarrow> bool" where
  "served_at_home sv arrival req \<longleftrightarrow> arrival = Socket \<and> isLocalRequest sv (in_clientAddress req) \<and>
     isLocalHostName (sv_web sv) (header (pq_headers req) ''host'')"

lemma evaluate_allowed:
  assumes "d_outcome (evaluate_access q req ctx) = Allow"
  shows "evaluate_access q req ctx = access_granted q req ctx" "prefix ''/api/'' (rq_path req) \<Longrightarrow> \<not> isCrossSite q (rq_headers req)"
  using assms by (auto simp: evaluate_access_def no_privilege_def Let_def split: if_splits)

lemma static_reply: "answer_static sv r \<in> {NotAllowed, VersionJson} \<union> range StaticFile \<union> {HomeScreenFile f e | f e. True}"
  by (simp add: answer_static_def Let_def)

lemma static_not_handled [simp]: "answer_static sv r \<noteq> Handled h ps r'" "answer_static sv r \<noteq> AdminToken a"
  by (simp_all add: answer_static_def Let_def)

lemma manifest_not_handled [simp]: "web_manifest sv r \<noteq> Handled h ps r'" "web_manifest sv r \<noteq> AdminToken a"
  by (simp_all add: web_manifest_def Let_def)

lemma handled_parts:
  assumes "serveRequest sv router arrival req = (Handled h ps r, reported)"
  defines "ctx \<equiv> request_context sv arrival (req\<lparr>in_viaTunnel := (arrival = ControlTunnel)\<rparr>)"
    and "d \<equiv> evaluate_access (sv_web sv) (describe (req\<lparr>in_viaTunnel := (arrival = ControlTunnel)\<rparr>))
      (request_context sv arrival (req\<lparr>in_viaTunnel := (arrival = ControlTunnel)\<rparr>))"
  shows "d_outcome d = Allow" "prefix ''/api/'' (pq_path req)" "\<not> reported"
    "r = req\<lparr>in_viaTunnel := (arrival = ControlTunnel), in_isLocal := d_adminPrivilege d, in_isHostMachine := d_hostMachine d,
       in_hostTrusted := d_hostTrusted d\<rparr>"
    "sv_AuthManager sv \<noteq> None \<Longrightarrow> d_localPrivilege d \<or> public_route (pq_path req) \<or> isAuthenticated sv (pq_headers req)"
    "dispatchAsync router (pq_method req) (pq_path req) = Some (h, ps)"
    "pq_path req \<noteq> ''/api/admin/token''" "\<not> pq_malformed req"
  using assms(1) unfolding serveRequest_def serve_allowed_def Let_def d_def
  by (auto split: if_splits option.splits)

lemma context_parts:
  "peerLocal (request_context sv arrival (req\<lparr>in_viaTunnel := b\<rparr>)) \<longleftrightarrow>
     arrival = Socket \<and> isLocalRequest sv (in_clientAddress req)"
  "hostSession (request_context sv arrival (req\<lparr>in_viaTunnel := b\<rparr>)) \<longleftrightarrow> session_is isHostSession sv (sessionToken (pq_headers req)) \<and>
     (arrival = ControlTunnel \<longrightarrow> session_is isTunnelHostSession sv (sessionToken (pq_headers req)))"
  "adminSession (request_context sv arrival (req\<lparr>in_viaTunnel := b\<rparr>)) \<longleftrightarrow> session_is isAdminSession sv (sessionToken (pq_headers req))"
  "adminKeyOk (request_context sv arrival (req\<lparr>in_viaTunnel := b\<rparr>)) \<Longrightarrow> adminKeyMatches sv (pq_headers req)"
  by (cases arrival; simp add: request_context_def Let_def)+

lemma describe_parts [simp]: "rq_path (describe r) = pq_path r" "rq_headers (describe r) = pq_headers r"
  "rq_method (describe r) = pq_method r"
  by (simp_all add: describe_def)

lemma granted_parts:
  "d_localPrivilege (access_granted q req ctx) \<longleftrightarrow> peerLocal ctx \<and> isLocalHostName q (header (rq_headers req) ''host'')"
  "d_hostMachine (access_granted q req ctx) \<longleftrightarrow>
     peerLocal ctx \<and> isLocalHostName q (header (rq_headers req) ''host'') \<or> hostSession ctx"
  "d_adminPrivilege (access_granted q req ctx) \<longleftrightarrow> (d_hostMachine (access_granted q req ctx) \<or> adminSession ctx) \<and>
     (rq_method req \<noteq> ''GET'' \<and> rq_method req \<noteq> ''HEAD'' \<longrightarrow> adminKeyOk ctx)"
  by (auto simp: access_granted_def Let_def)

lemma at_home: "peerLocal (request_context sv arrival (req\<lparr>in_viaTunnel := b\<rparr>)) \<and>
    isLocalHostName (sv_web sv) (header (pq_headers req) ''host'') \<longleftrightarrow> served_at_home sv arrival req"
  by (simp add: served_at_home_def context_parts)

lemma authenticated_valid: "sv_AuthManager sv = Some m \<Longrightarrow> isAuthenticated sv hs \<Longrightarrow>
    validateSession (sv_qt sv) (sv_now sv) (sessionToken hs) m"
  by (simp add: isAuthenticated_def)

lemma branches:
  fixes s w :: "'h Reply"
  assumes "x = (if a then (AdminToken r, r = Deny) else if b then (AppManifest, False)
      else if c then (w, False) else if f then (s, False)
      else if g then (AuthRequired, True)
      else case found of None \<Rightarrow> (NotFound, False) | Some (h, ps) \<Rightarrow> (Handled h ps req, False))"
    and "s \<in> {NotAllowed, VersionJson} \<union> range StaticFile \<union> {HomeScreenFile f e | f e. True}"
    and "w \<in> insert NotFound (range WebManifest)"
  shows "(snd x \<longleftrightarrow> fst x \<in> {AdminToken Deny, AuthRequired}) \<and> fst x \<noteq> BadRequest \<and> fst x \<noteq> Blocked out"
  using assms by (auto split: option.splits if_splits)

lemma allowed_failures:
  "(snd (serve_allowed sv router req ctx d) \<longleftrightarrow> fst (serve_allowed sv router req ctx d) \<in> {AdminToken Deny, AuthRequired}) \<and>
   fst (serve_allowed sv router req ctx d) \<noteq> BadRequest \<and> fst (serve_allowed sv router req ctx d) \<noteq> Blocked out"
proof (rule branches[OF _ static_reply])
  show "web_manifest sv req \<in> insert NotFound (range WebManifest)" by (simp add: web_manifest_def Let_def)
qed (simp only: serve_allowed_def Let_def)

lemma session_is_Some [simp]: "sv_AuthManager sv = Some m \<Longrightarrow> session_is f sv token = f (sv_qt sv) (sv_now sv) token m"
  by (simp add: session_is_def)

section \<open>What holds\<close>

lemma by_right:
  assumes "serveRequest sv router arrival req = (Handled h ps r, reported)" and "sv_AuthManager sv = Some m"
  shows "\<not> isCrossSite (sv_web sv) (pq_headers req) \<and> dispatchAsync router (pq_method r) (pq_path r) = Some (h, ps) \<and>
    (public_route (pq_path r) \<or> served_at_home sv arrival req \<or> validateSession (sv_qt sv) (sv_now sv) (sessionToken (pq_headers req)) m) \<and>
    (in_isHostMachine r \<longrightarrow> served_at_home sv arrival req \<or> isHostSession (sv_qt sv) (sv_now sv) (sessionToken (pq_headers req)) m \<and>
       (arrival = ControlTunnel \<longrightarrow> isTunnelHostSession (sv_qt sv) (sv_now sv) (sessionToken (pq_headers req)) m)) \<and>
    (in_isLocal r \<longrightarrow> in_isHostMachine r \<or> isAdminSession (sv_qt sv) (sv_now sv) (sessionToken (pq_headers req)) m) \<and>
    (in_isLocal r \<longrightarrow> pq_method r = ''GET'' \<or> pq_method r = ''HEAD'' \<or> adminKeyMatches sv (pq_headers req))"
proof -
  let ?req = "req\<lparr>in_viaTunnel := (arrival = ControlTunnel)\<rparr>"
  let ?ctx = "request_context sv arrival ?req"
  let ?d = "access_granted (sv_web sv) (describe ?req) ?ctx"
  note parts = handled_parts[OF assms(1)]
  have d: "evaluate_access (sv_web sv) (describe ?req) ?ctx = ?d"
    and x: "\<not> isCrossSite (sv_web sv) (pq_headers req)"
    using evaluate_allowed[OF parts(1)] parts(2) by simp_all
  have "public_route (pq_path req) \<or> served_at_home sv arrival req \<or> validateSession (sv_qt sv) (sv_now sv) (sessionToken (pq_headers req)) m"
    using parts(5) assms(2) authenticated_valid[OF assms(2), of "pq_headers req"] at_home[where b = "arrival = ControlTunnel" and req = req and sv = sv and arrival = arrival]
    unfolding d granted_parts by auto
  moreover have "d_hostMachine ?d \<longrightarrow> served_at_home sv arrival req \<or> isHostSession (sv_qt sv) (sv_now sv) (sessionToken (pq_headers req)) m \<and>
       (arrival = ControlTunnel \<longrightarrow> isTunnelHostSession (sv_qt sv) (sv_now sv) (sessionToken (pq_headers req)) m)"
    using at_home[where b = "arrival = ControlTunnel" and req = req and sv = sv and arrival = arrival] assms(2)
    unfolding granted_parts context_parts(2) by auto
  moreover have "d_adminPrivilege ?d \<longrightarrow> d_hostMachine ?d \<or> isAdminSession (sv_qt sv) (sv_now sv) (sessionToken (pq_headers req)) m"
    "d_adminPrivilege ?d \<longrightarrow> pq_method req = ''GET'' \<or> pq_method req = ''HEAD'' \<or> adminKeyMatches sv (pq_headers req)"
    using assms(2) context_parts(4)[where b = "arrival = ControlTunnel" and req = req and sv = sv and arrival = arrival]
    unfolding granted_parts(3) context_parts(3) by auto
  ultimately show ?thesis using x parts(4,6) unfolding d by simp
qed

text \<open>C3. A handler runs only for who may call it. If a request reaches one, it was not driven by another site's page,
  and it is for a public route, or comes from this machine under one of its local names, or carries a valid session;
  it counts as the host machine only at home or with the host's session (through a tunnel, one made through a tunnel);
  it administers only so, or with an admin session, and to change anything it also has to show the admin key.\<close>

theorem handler_reached_by_right:
  assumes "serveRequest sv router arrival req = (Handled h ps r, reported)" and "sv_AuthManager sv = Some m"
  defines "token \<equiv> sessionToken (pq_headers req)"
  shows "\<not> isCrossSite (sv_web sv) (pq_headers req) \<and> dispatchAsync router (pq_method r) (pq_path r) = Some (h, ps) \<and>
    (public_route (pq_path r) \<or> served_at_home sv arrival req \<or> validateSession (sv_qt sv) (sv_now sv) token m) \<and>
    (in_isHostMachine r \<longrightarrow> served_at_home sv arrival req \<or> isHostSession (sv_qt sv) (sv_now sv) token m \<and>
       (arrival = ControlTunnel \<longrightarrow> isTunnelHostSession (sv_qt sv) (sv_now sv) token m)) \<and>
    (in_isLocal r \<longrightarrow> in_isHostMachine r \<or> isAdminSession (sv_qt sv) (sv_now sv) token m) \<and>
    (in_isLocal r \<longrightarrow> pq_method r = ''GET'' \<or> pq_method r = ''HEAD'' \<or> adminKeyMatches sv (pq_headers req))"
  unfolding token_def by (rule by_right[OF assms(1,2)])

text \<open>The failures the guard hears of from \<open>serveRequest\<close> itself, before any handler: a target with control characters, an API call
  another site's page drove, the admin key asked for without a session, an API call without one.\<close>

theorem failures_counted:
  "snd (serveRequest sv router arrival req) \<longleftrightarrow>
   fst (serveRequest sv router arrival req) \<in> {BadRequest, Blocked BlockCrossSite, AdminToken Deny, AuthRequired}"
  unfolding serveRequest_def Let_def by (simp add: allowed_failures)

lemma key_told:
  assumes "fst (serveRequest sv router arrival req) = AdminToken Grant" and "sv_AuthManager sv = Some m"
  shows "served_at_home sv arrival req \<or> isAdminSession (sv_qt sv) (sv_now sv) (sessionToken (pq_headers req)) m \<or>
    isHostSession (sv_qt sv) (sv_now sv) (sessionToken (pq_headers req)) m \<and>
      (arrival = ControlTunnel \<longrightarrow> isTunnelHostSession (sv_qt sv) (sv_now sv) (sessionToken (pq_headers req)) m)"
proof -
  let ?req = "req\<lparr>in_viaTunnel := (arrival = ControlTunnel)\<rparr>"
  let ?ctx = "request_context sv arrival ?req"
  let ?d = "evaluate_access (sv_web sv) (describe ?req) ?ctx"
  have ok: "d_outcome ?d = Allow" and "adminTokenReply ?d ?ctx (isAuthenticated sv (pq_headers req)) = Grant"
    using assms(1) by (auto simp: serveRequest_def serve_allowed_def Let_def split: if_splits option.splits)
  then have "d_hostMachine ?d \<or> adminSession ?ctx" by (auto simp: adminTokenReply_def split: if_splits)
  then show ?thesis using at_home[where b = "arrival = ControlTunnel" and req = req and sv = sv and arrival = arrival] assms(2)
    unfolding evaluate_allowed(1)[OF ok] granted_parts context_parts(2,3) by auto
qed

text \<open>The admin key is told to nobody but the machine itself, a host session or an admin session; through the tunnel
  only to a host session made there or to an admin session.\<close>

theorem admin_key_told:
  assumes "fst (serveRequest sv router arrival req) = AdminToken Grant" and "sv_AuthManager sv = Some m"
  defines "token \<equiv> sessionToken (pq_headers req)"
  shows "served_at_home sv arrival req \<or> isAdminSession (sv_qt sv) (sv_now sv) token m \<or>
    isHostSession (sv_qt sv) (sv_now sv) token m \<and>
      (arrival = ControlTunnel \<longrightarrow> isTunnelHostSession (sv_qt sv) (sv_now sv) token m)"
  unfolding token_def by (rule key_told[OF assms(1,2)])

lemma tunnel_signalling:
  assumes "authorizeTunnelWebSocket sv req = (port, reported)" "port \<noteq> 0" and "sv_AuthManager sv = Some m"
  shows "\<exists>slot. slotFromWsPath sv (pq_path req) = (slot, False) \<and> 0 \<le> slot \<and>
    port = (if slot = 0 then sv_SignalingPort sv else sp_signaling (slot_ports sv slot)) \<and>
    (if is_player_slot sv slot then player_may sv req slot
     else validateSession (sv_qt sv) (sv_now sv) (sessionToken (pq_headers req)) m)"
  using assms by (cases "slotFromWsPath sv (pq_path req)")
    (auto simp: authorizeTunnelWebSocket_def Let_def split: if_splits)

text \<open>Through a tunnel a WebSocket leads to the signalling of a stream and nowhere else: never to the control channel,
  never to the video relay; a player's slot opens to that slot's player alone, any other to a valid session alone,
  wherever the request seems to come from.\<close>

theorem tunnel_opens_signalling_only:
  assumes "authorizeTunnelWebSocket sv req = (port, reported)" "port \<noteq> 0" and "sv_AuthManager sv = Some m"
  shows "\<exists>slot. slotFromWsPath sv (pq_path req) = (slot, False) \<and> 0 \<le> slot \<and>
    port = (if slot = 0 then sv_SignalingPort sv else sp_signaling (slot_ports sv slot)) \<and>
    (if is_player_slot sv slot then player_may sv req slot
     else validateSession (sv_qt sv) (sv_now sv) (sessionToken (pq_headers req)) m)"
  by (rule tunnel_signalling[OF assms])

text \<open>A WebSocket is handed on to a stream or to the control channel only for an origin that passes, the server's own or, of a
  client that is no browser, none, and only for a caller with a right to it: on a player's slot the player it was given to,
  not even the machine itself; anywhere else the machine under a local name, or a valid session.\<close>

theorem upgrade_needs_right:
  assumes "handleWebSocketUpgrade sv peer bytes = (WsForward port, reported)" and "sv_AuthManager sv = Some m"
  defines "up \<equiv> incoming (parse (sv_http sv) bytes) []"
    and "path \<equiv> second_word (qh_utf8 (sv_http sv) (hd (split_lines bytes)))"
  shows "isWebSocketOriginAllowed (sv_web sv) (header (pq_headers up) ''origin'') (header (pq_headers up) ''host'') \<and>
    upgrade_port sv path = Some port \<and>
    (if is_player_slot sv (fst (slotFromWsPath sv path)) then player_may sv up (fst (slotFromWsPath sv path))
     else isLocalRequest sv peer \<and> isLocalHostName (sv_web sv) (header (pq_headers up) ''host'') \<or>
       validateSession (sv_qt sv) (sv_now sv) (sessionToken (pq_headers up)) m)"
  using assms(1,2) unfolding handleWebSocketUpgrade_def Let_def up_def[symmetric] path_def[symmetric]
  by (auto split: if_splits option.splits)

text \<open>C7. A browser the owner has revoked is a stranger everywhere at once. After its session was destroyed or logged out,
  whatever was called since and however often the program restarted, no request that carries its cookie reaches a route
  that is not public or runs as the host or an administrator, none is told the admin key, and no WebSocket of its opens
  through a tunnel; only sitting at the machine itself, or holding a player's slot, is a right of another kind.\<close>

theorem revoked_browser_is_a_stranger:
  assumes "lawful q st (es @ e # fs)" and "snd e = DestroySession i \<or> snd e = LogoutSession token"
    and "i = qa_hashToken q token" and "token \<noteq> []" and "untouched (creates q i) fs"
    and "sv_AuthManager sv = Some (snd (reached q st (es @ e # fs)))" and "sv_qt sv = q"
    and "sessionToken (pq_headers req) = token" and "\<not> served_at_home sv arrival req"
  shows "(case fst (serveRequest sv router arrival req) of
      Handled h ps r \<Rightarrow> public_route (pq_path r) \<and> \<not> in_isLocal r \<and> \<not> in_isHostMachine r
    | AdminToken reply \<Rightarrow> reply \<noteq> Grant
    | _ \<Rightarrow> True) \<and>
    (fst (authorizeTunnelWebSocket sv req) = 0 \<or> is_player_slot sv (fst (slotFromWsPath sv (pq_path req))))"
proof -
  let ?m = "snd (reached q st (es @ e # fs))"
  have none: "session_of ?m (qa_hashToken q token) = None" using revoked_gone[OF assms(1-5) refl] assms(3) by simp
  have bad: "\<not> validateSession (sv_qt sv) (sv_now sv) (sessionToken (pq_headers req)) ?m"
    "\<not> isAdminSession (sv_qt sv) (sv_now sv) (sessionToken (pq_headers req)) ?m"
    "\<not> isHostSession (sv_qt sv) (sv_now sv) (sessionToken (pq_headers req)) ?m"
    using none assms(7,8) by (simp_all add: validateSession_def isAdminSession_def isHostSession_def session_flag_def)
  have handled: "public_route (pq_path r) \<and> \<not> in_isLocal r \<and> \<not> in_isHostMachine r"
    if "serveRequest sv router arrival req = (Handled h ps r, b)" for h ps r b
    using by_right[OF that assms(6)] bad assms(9) by blast
  have told: "fst (serveRequest sv router arrival req) \<noteq> AdminToken Grant"
    using key_told[OF _ assms(6)] bad assms(9) by blast
  have "fst (authorizeTunnelWebSocket sv req) = 0 \<or> is_player_slot sv (fst (slotFromWsPath sv (pq_path req)))"
    using tunnel_signalling[OF _ _ assms(6)] bad(1) by (metis fst_conv surj_pair)
  then show ?thesis using handled told
    by (cases "serveRequest sv router arrival req") (auto split: Reply.split)
qed


section \<open>Examples\<close>

text \<open>A server whose two browsers signed in, one of them with the admin page unlocked.\<close>

definition two_signed_in :: AuthManager where
  "two_signed_in = snd (reached toy_auth toy_settings two_browsers)"

definition toy_server :: "AuthManager \<Rightarrow> Server" where
  "toy_server m = \<lparr>sv_qt = toy_auth, sv_http = toy_http, sv_localAddresses = [], sv_now = 30, sv_AuthManager = Some m,
     sv_AdminKey = ''key'', sv_domain = [], sv_ActiveHttpsPort = 443, sv_SignalingPort = 1, sv_StreamRelayPort = 2,
     sv_ControlPort = 3, sv_SlotPorts = Map.empty, sv_FirstPlayerSlot = 2, sv_FirstExtraSlot = 5,
     sv_PlayerSlotAuth = None, sv_HomeScreenIdentity = False, sv_StaticFiles = small_site\<rparr>"

definition toy_request :: "string \<Rightarrow> string \<Rightarrow> Incoming" where
  "toy_request p cookie = incoming (blank_request\<lparr>pq_method := ''GET'', pq_path := p,
     pq_headers := [''cookie'' \<mapsto> ''mw_session='' @ cookie]\<rparr>) ''1.2.3.4''"

definition toy_router :: "nat RestRouter" where
  "toy_router = fold register [(Get, ''/api/quit'', 7), (Get, ''/api/hosts/:id'', 8)] router_new"

lemma handler_reached_by_right_witness:
  "\<not> isCrossSite (sv_web (toy_server two_signed_in)) (pq_headers (toy_request ''/api/hosts/pc'' ''a'')) \<and>
   isAdminSession toy_auth 30 ''a'' two_signed_in"
proof -
  let ?sv = "toy_server two_signed_in" and ?r = "toy_request ''/api/hosts/pc'' ''a''"
  have s: "case serveRequest ?sv toy_router ControlTunnel ?r of
      (Handled h ps r, reported) \<Rightarrow> in_isLocal r \<and> \<not> in_isHostMachine r | _ \<Rightarrow> False" by code_simp
  then obtain h ps r reported where eq: "serveRequest ?sv toy_router ControlTunnel ?r = (Handled h ps r, reported)"
    and r: "in_isLocal r" "\<not> in_isHostMachine r" by (auto split: prod.splits Reply.splits)
  have t: "sessionToken (pq_headers ?r) = ''a''" by code_simp
  show ?thesis using handler_reached_by_right[OF eq, of two_signed_in] r unfolding t by (simp add: toy_server_def)
qed

lemma admin_key_told_witness: "isAdminSession toy_auth 30 ''a'' two_signed_in"
proof -
  let ?sv = "toy_server two_signed_in" and ?r = "toy_request ''/api/admin/token'' ''a''"
  have s: "case fst (serveRequest ?sv toy_router ControlTunnel ?r) of AdminToken x \<Rightarrow> x = Grant | _ \<Rightarrow> False" by code_simp
  then have g: "fst (serveRequest ?sv toy_router ControlTunnel ?r) = AdminToken Grant" by (auto split: Reply.splits)
  have t: "sessionToken (pq_headers ?r) = ''a''" "\<not> isHostSession toy_auth 30 ''a'' two_signed_in" by code_simp+
  show ?thesis using admin_key_told[OF g, of two_signed_in] t(2) unfolding t(1)
    by (simp add: toy_server_def served_at_home_def)
qed

lemma tunnel_opens_signalling_only_witness: "validateSession toy_auth 30 ''b'' two_signed_in"
proof -
  let ?sv = "toy_server two_signed_in" and ?r = "toy_request ''/ws'' ''b''"
  have s: "authorizeTunnelWebSocket ?sv ?r = (1, False)" "sessionToken (pq_headers ?r) = ''b''"
    "slotFromWsPath ?sv (pq_path ?r) = (0, False)" "\<not> is_player_slot ?sv 0" by code_simp+
  show ?thesis using tunnel_opens_signalling_only[OF s(1), of two_signed_in] s(2-4) by (simp add: toy_server_def)
qed

lemma upgrade_needs_right_witness:
  "validateSession toy_auth 30 ''b'' two_signed_in"
proof -
  let ?sv = "toy_server two_signed_in" and ?b = "request_text ''GET'' ''/ws'' [(''Cookie'', ''mw_session=b'')] []"
  have s: "handleWebSocketUpgrade ?sv ''1.2.3.4'' ?b = (WsForward 1, False)" by code_simp
  have t: "sessionToken (pq_headers (incoming (parse (sv_http ?sv) ?b) [])) = ''b''"
    "fst (slotFromWsPath ?sv (second_word (qh_utf8 (sv_http ?sv) (hd (split_lines ?b))))) = 0"
    "\<not> is_player_slot ?sv 0" "\<not> isLocalRequest ?sv ''1.2.3.4''" by code_simp+
  show ?thesis using upgrade_needs_right[OF s, of two_signed_in] t by (simp add: toy_server_def)
qed

lemma revoked_browser_is_a_stranger_witness:
  "case fst (serveRequest (toy_server (snd (reached toy_auth toy_settings
       (two_browsers @ (18, DestroySession ''a'') # [(20, RestartAuth ''x'')])))) toy_router Socket (toy_request ''/api/quit'' ''a'')) of
     Handled h ps r \<Rightarrow> public_route (pq_path r) \<and> \<not> in_isLocal r \<and> \<not> in_isHostMachine r
   | AdminToken reply \<Rightarrow> reply \<noteq> Grant | _ \<Rightarrow> True"
proof -
  let ?m = "snd (reached toy_auth toy_settings (two_browsers @ (18, DestroySession ''a'') # [(20, RestartAuth ''x'')]))"
  have l: "lawful toy_auth toy_settings (two_browsers @ (18, DestroySession ''a'') # [(20, RestartAuth ''x'')])"
    by (rule lawful_toy) code_simp
  have h: "''a'' = qa_hashToken toy_auth ''a''" by (simp add: toy_auth_def)
  have t: "sessionToken (pq_headers (toy_request ''/api/quit'' ''a'')) = ''a''"
    "\<not> served_at_home (toy_server ?m) Socket (toy_request ''/api/quit'' ''a'')" by code_simp+
  show ?thesis
    using revoked_browser_is_a_stranger[OF l _ h _ _ _ _ t(1) t(2), of toy_router]
    by (simp add: toy_server_def untouched_def)
qed


lemma redirect_plain: "qt_arg ''/x'' (qt_arg '':8443'' (qt_arg ''pc.lan'' ''https://%1%2%3'')) = ''https://pc.lan:8443/x''"
  by code_simp

end
