(* ===== verification/Share_Manager.thy ===== *)
theory Share_Manager
  imports Constant_Time "HOL-Library.AList"
begin

text \<open>
  \<open>ShareManager\<close> (\<open>src/server/ShareManager.h\<close> and \<open>.cpp\<close>): the owner's invitations to the three player slots.
  An invitation is a link token and a PIN, valid for one opening; it answers to one device, whose cookie is what
  opens the slot from then on. Strings are lists of one-byte characters. Every operation takes the second it is
  called at; random tokens, PINs and identifiers are arguments; the signals emitted are a list in the state, and
  \<open>share.json\<close> is the file of the state, its members read with the defaults the code gives (an absent or
  mistyped member is its default). The digest of a string and Qt's \<open>simplified\<close> are parameters.
\<close>

record QtShare =
  sh_hash :: "string \<Rightarrow> string"
  sh_simplified :: "string \<Rightarrow> string"

definition kFirstSlot :: int where
  [tunables]: "kFirstSlot = 2"

definition kSlotCount :: int where
  [tunables]: "kSlotCount = 3"

definition kLastSlot :: int where
  [tunables]: "kLastSlot = kFirstSlot + kSlotCount - 1"

definition kTtlSecs :: int where
  [tunables]: "kTtlSecs = 8 * 3600"

definition kMaxPinFailures :: int where
  [tunables]: "kMaxPinFailures = 10"

definition kMaxCookiesPerActivation :: nat where
  [tunables]: "kMaxCookiesPerActivation = 1"

definition kMaxNameLength :: nat where
  [tunables]: "kMaxNameLength = 32"

definition RATE_TIER1 :: int where
  [tunables]: "RATE_TIER1 = 3"

definition RATE_TIER2 :: int where
  [tunables]: "RATE_TIER2 = 5"

definition RATE_TIER3 :: int where
  [tunables]: "RATE_TIER3 = 10"

definition LOCKOUT_SHORT_SECS :: int where
  [tunables]: "LOCKOUT_SHORT_SECS = 30"

definition LOCKOUT_MEDIUM_SECS :: int where
  [tunables]: "LOCKOUT_MEDIUM_SECS = 120"

definition LOCKOUT_LONG_SECS :: int where
  [tunables]: "LOCKOUT_LONG_SECS = 600"

definition kTtlChoices :: "int list" where
  "kTtlChoices = [3600, 4 * 3600, 8 * 3600, 24 * 3600, 48 * 3600, 0]"

definition isValidTtl :: "int \<Rightarrow> bool" where
  "isValidTtl secs \<longleftrightarrow> secs \<in> set kTtlChoices"

definition isPlayerSlot :: "int \<Rightarrow> bool" where
  "isPlayerSlot slot \<longleftrightarrow> kFirstSlot \<le> slot \<and> slot \<le> kLastSlot"

definition player_slots :: "int list" where
  "player_slots = [kFirstSlot .. kLastSlot]"

section \<open>Names and permissions\<close>

definition is_control :: "char \<Rightarrow> bool" where
  "is_control c \<longleftrightarrow> (let n = (of_char c :: nat) in n \<le> 31 \<or> n = 127)"

definition sanitizeName :: "QtShare \<Rightarrow> string \<Rightarrow> string" where
  "sanitizeName q name = take kMaxNameLength (filter (\<lambda>c. \<not> is_control c) (sh_simplified q name))"

record Permissions =
  pm_gamepad :: bool
  pm_keyboardMouse :: bool

definition accessLevel :: "Permissions \<Rightarrow> string" where
  "accessLevel p =
     (if pm_gamepad p \<and> pm_keyboardMouse p then ''full''
      else if pm_keyboardMouse p then ''desktop''
      else if pm_gamepad p then ''gamer'' else ''viewer'')"

definition viewer :: Permissions where
  "viewer = \<lparr>pm_gamepad = False, pm_keyboardMouse = False\<rparr>"

section \<open>The state\<close>

datatype EndReason = OwnerToggle | OwnerStop | Expired | PinAbuse

datatype ShareState = Off | Shared | Binded

record BoundDevice =
  bd_boundAt :: int
  bd_userAgent :: string

record Activation =
  av_id :: string
  av_tokenHash :: string
  av_pinHash :: string
  av_cookieHashes :: "string list"
  av_devices :: "BoundDevice list"
  av_permissions :: Permissions
  av_ttlSecs :: int
  av_expiresAtSecs :: int
  av_activatedAt :: int
  av_pinFailures :: int
  av_streaming :: bool
  av_lastRefusedAt :: int
  av_lastRefusedAgent :: string
  av_hostUuid :: string
  av_appId :: int
  av_tokenClear :: string
  av_pinClear :: string

definition no_activation :: Activation where
  "no_activation = \<lparr>av_id = [], av_tokenHash = [], av_pinHash = [], av_cookieHashes = [], av_devices = [],
     av_permissions = viewer, av_ttlSecs = kTtlSecs, av_expiresAtSecs = 0, av_activatedAt = 0, av_pinFailures = 0,
     av_streaming = False, av_lastRefusedAt = 0, av_lastRefusedAgent = [], av_hostUuid = [], av_appId = - 1,
     av_tokenClear = [], av_pinClear = []\<rparr>"

definition is_live :: "Activation \<Rightarrow> bool" where
  "is_live a \<longleftrightarrow> av_tokenHash a \<noteq> []"

record ShareSlot =
  ss_name :: string
  ss_lastPermissions :: Permissions
  ss_lastTtlSecs :: int
  ss_activation :: Activation

definition fresh_slot :: ShareSlot where
  "fresh_slot = \<lparr>ss_name = [], ss_lastPermissions = viewer, ss_lastTtlSecs = kTtlSecs, ss_activation = no_activation\<rparr>"

record RateEntry =
  re_failures :: int
  re_lastFailure :: int
  re_lockoutUntil :: int

definition no_failures :: RateEntry where
  "no_failures = \<lparr>re_failures = 0, re_lastFailure = 0, re_lockoutUntil = 0\<rparr>"

datatype Signal = SlotChanged int | PlayerMustDisconnect int EndReason | PermissionsChanged int bool bool

record SavedActivation =
  sa_id :: string
  sa_tokenHash :: string
  sa_pinHash :: string
  sa_cookieHashes :: "string list"
  sa_devices :: "BoundDevice list"
  sa_permissions :: Permissions
  sa_ttlSecs :: int
  sa_expiresAt :: "int option"
  sa_activatedAt :: int
  sa_pinFailures :: int
  sa_hostUuid :: string
  sa_appId :: int
  sa_lastRefusedAt :: int
  sa_lastRefusedAgent :: string

record SavedSlot =
  sv_slot :: int
  sv_name :: string
  sv_lastPermissions :: Permissions
  sv_lastTtlSecs :: int
  sv_activation :: "SavedActivation option"

record ShareManager =
  m_Slots :: "(int \<times> ShareSlot) list"
  m_RateLimits :: "(string \<times> RateEntry) list"
  m_Signals :: "Signal list"
  m_File :: "SavedSlot list option"
  m_Writable :: bool

definition slot_at :: "ShareManager \<Rightarrow> int \<Rightarrow> ShareSlot" where
  "slot_at m slot = (case map_of (m_Slots m) slot of None \<Rightarrow> fresh_slot | Some s \<Rightarrow> s)"

definition slot_of :: "ShareManager \<Rightarrow> int \<Rightarrow> Activation" where
  "slot_of m slot = ss_activation (slot_at m slot)"

definition set_slot :: "int \<Rightarrow> ShareSlot \<Rightarrow> ShareManager \<Rightarrow> ShareManager" where
  "set_slot slot s m = m\<lparr>m_Slots := AList.update slot s (m_Slots m)\<rparr>"

definition set_activation :: "int \<Rightarrow> Activation \<Rightarrow> ShareManager \<Rightarrow> ShareManager" where
  "set_activation slot a m = set_slot slot ((slot_at m slot)\<lparr>ss_activation := a\<rparr>) m"

definition emit :: "Signal \<Rightarrow> ShareManager \<Rightarrow> ShareManager" where
  "emit x m = m\<lparr>m_Signals := m_Signals m @ [x]\<rparr>"

section \<open>The file\<close>

definition saved_activation :: "Activation \<Rightarrow> SavedActivation" where
  "saved_activation a = \<lparr>sa_id = av_id a, sa_tokenHash = av_tokenHash a, sa_pinHash = av_pinHash a,
     sa_cookieHashes = av_cookieHashes a, sa_devices = av_devices a, sa_permissions = av_permissions a,
     sa_ttlSecs = av_ttlSecs a, sa_expiresAt = Some (av_expiresAtSecs a), sa_activatedAt = av_activatedAt a,
     sa_pinFailures = av_pinFailures a, sa_hostUuid = av_hostUuid a, sa_appId = av_appId a,
     sa_lastRefusedAt = av_lastRefusedAt a, sa_lastRefusedAgent = av_lastRefusedAgent a\<rparr>"

definition saved_slot :: "ShareManager \<Rightarrow> int \<Rightarrow> SavedSlot" where
  "saved_slot m slot =
     (let s = slot_at m slot
      in \<lparr>sv_slot = slot, sv_name = ss_name s, sv_lastPermissions = ss_lastPermissions s,
          sv_lastTtlSecs = ss_lastTtlSecs s,
          sv_activation = (if is_live (ss_activation s) then Some (saved_activation (ss_activation s)) else None)\<rparr>)"

definition save :: "ShareManager \<Rightarrow> ShareManager" where
  "save m = (if m_Writable m then m\<lparr>m_File := Some (map (saved_slot m) player_slots)\<rparr> else m)"

definition pad_devices :: "nat \<Rightarrow> BoundDevice list \<Rightarrow> BoundDevice list" where
  "pad_devices n ds = take n (ds @ replicate (n - length ds) \<lparr>bd_boundAt = 0, bd_userAgent = []\<rparr>)"

text \<open>The activation a file restores, \<open>None\<close> at each \<open>continue\<close>.\<close>

definition restored :: "int \<Rightarrow> SavedActivation \<Rightarrow> Activation option" where
  "restored now act =
     (if sa_activatedAt act \<le> 0 then None
      else let ttl = (if isValidTtl (sa_ttlSecs act) then sa_ttlSecs act else kTtlSecs);
               expires = (case sa_expiresAt act of Some e \<Rightarrow> e
                          | None \<Rightarrow> if ttl > 0 then sa_activatedAt act + ttl else 0)
           in if expires > 0 \<and> now \<ge> expires then None
              else if sa_tokenHash act = [] \<or> sa_pinHash act = [] then None
              else if sa_hostUuid act = [] then None
              else Some (no_activation\<lparr>av_id := sa_id act, av_tokenHash := sa_tokenHash act,
                     av_pinHash := sa_pinHash act, av_cookieHashes := sa_cookieHashes act,
                     av_devices := pad_devices (length (sa_cookieHashes act)) (sa_devices act),
                     av_permissions := sa_permissions act, av_ttlSecs := ttl, av_expiresAtSecs := expires,
                     av_activatedAt := sa_activatedAt act, av_pinFailures := sa_pinFailures act,
                     av_hostUuid := sa_hostUuid act, av_appId := sa_appId act,
                     av_lastRefusedAt := sa_lastRefusedAt act, av_lastRefusedAgent := sa_lastRefusedAgent act\<rparr>))"

definition load_slot :: "QtShare \<Rightarrow> int \<Rightarrow> SavedSlot \<Rightarrow> ShareManager \<Rightarrow> ShareManager" where
  "load_slot q now sv m =
     (if \<not> isPlayerSlot (sv_slot sv) then m
      else let s = (slot_at m (sv_slot sv))\<lparr>ss_name := sanitizeName q (sv_name sv),
                 ss_lastPermissions := sv_lastPermissions sv,
                 ss_lastTtlSecs := (if isValidTtl (sv_lastTtlSecs sv) then sv_lastTtlSecs sv else kTtlSecs)\<rparr>
           in set_slot (sv_slot sv)
                (case Option.bind (sv_activation sv) (restored now) of
                   None \<Rightarrow> s | Some a \<Rightarrow> s\<lparr>ss_activation := a\<rparr>) m)"

definition load :: "QtShare \<Rightarrow> int \<Rightarrow> ShareManager \<Rightarrow> ShareManager" where
  "load q now m = (case m_File m of None \<Rightarrow> m | Some file \<Rightarrow> fold (load_slot q now) file m)"

text \<open>A manager as it comes up on a file; the file is kept as it is until the next save.\<close>

definition sm_new :: "QtShare \<Rightarrow> int \<Rightarrow> bool \<Rightarrow> SavedSlot list option \<Rightarrow> ShareManager" where
  "sm_new q now writable file =
     load q now \<lparr>m_Slots = map (\<lambda>slot. (slot, fresh_slot)) player_slots, m_RateLimits = [], m_Signals = [], m_File = file,
       m_Writable = writable\<rparr>"

section \<open>The owner's side\<close>

definition clearActivation :: "int \<Rightarrow> EndReason \<Rightarrow> ShareManager \<Rightarrow> ShareManager" where
  "clearActivation slot reason m =
     (if \<not> isPlayerSlot slot \<or> \<not> is_live (slot_of m slot) then m
      else let wasStreaming = av_streaming (slot_of m slot);
               m = set_activation slot no_activation m
           in emit (SlotChanged slot) (if wasStreaming then emit (PlayerMustDisconnect slot reason) m else m))"

definition overdue :: "int \<Rightarrow> Activation \<Rightarrow> bool" where
  "overdue now a \<longleftrightarrow> is_live a \<and> av_expiresAtSecs a > 0 \<and> now \<ge> av_expiresAtSecs a"

definition pruneExpired :: "int \<Rightarrow> ShareManager \<Rightarrow> ShareManager" where
  "pruneExpired now m =
     (let expired = filter (\<lambda>slot. overdue now (slot_of m slot)) player_slots;
          m = fold (\<lambda>slot. clearActivation slot Expired) expired m
      in if expired \<noteq> [] then save m else m)"

record SlotStatus =
  st_slot :: int
  st_state :: ShareState
  st_name :: string
  st_permissions :: Permissions
  st_streaming :: bool
  st_ttlSecs :: int
  st_expiresAt :: int
  st_devices :: "BoundDevice list"
  st_lastRefusedAt :: int
  st_lastRefusedAgent :: string

definition slot_status :: "ShareManager \<Rightarrow> int \<Rightarrow> SlotStatus" where
  "slot_status m slot =
     (let s = slot_at m slot; a = ss_activation s
      in if \<not> is_live a
         then \<lparr>st_slot = slot, st_state = Off, st_name = ss_name s, st_permissions = ss_lastPermissions s,
               st_streaming = False, st_ttlSecs = ss_lastTtlSecs s, st_expiresAt = 0, st_devices = [],
               st_lastRefusedAt = 0, st_lastRefusedAgent = []\<rparr>
         else \<lparr>st_slot = slot, st_state = (if av_devices a = [] then Shared else Binded), st_name = ss_name s,
               st_permissions = av_permissions a, st_streaming = av_streaming a, st_ttlSecs = av_ttlSecs a,
               st_expiresAt = av_expiresAtSecs a, st_devices = av_devices a, st_lastRefusedAt = av_lastRefusedAt a,
               st_lastRefusedAgent = av_lastRefusedAgent a\<rparr>)"

definition status :: "int \<Rightarrow> ShareManager \<Rightarrow> SlotStatus list \<times> ShareManager" where
  "status now m = (let m = pruneExpired now m in (map (slot_status m) player_slots, m))"

definition minted :: "QtShare \<Rightarrow> int \<Rightarrow> string \<Rightarrow> int \<Rightarrow> int \<Rightarrow> string \<Rightarrow> string \<Rightarrow> string \<Rightarrow> Permissions \<Rightarrow> Activation" where
  "minted q now host app ttl token pin uuid perms =
     no_activation\<lparr>av_id := uuid, av_tokenHash := sh_hash q token, av_pinHash := sh_hash q pin,
       av_tokenClear := token, av_pinClear := pin, av_permissions := perms, av_ttlSecs := ttl,
       av_activatedAt := now, av_expiresAtSecs := (if ttl > 0 then now + ttl else 0), av_hostUuid := host,
       av_appId := app\<rparr>"

definition activate :: "QtShare \<Rightarrow> int \<Rightarrow> int \<Rightarrow> string \<Rightarrow> int \<Rightarrow> int \<Rightarrow> string \<Rightarrow> string \<Rightarrow> string \<Rightarrow> ShareManager \<Rightarrow>
    (string \<times> string) option \<times> ShareManager" where
  "activate q now slot host app ttl token pin uuid m =
     (if \<not> isPlayerSlot slot \<or> host = [] \<or> \<not> isValidTtl ttl then (None, m)
      else let m = clearActivation slot OwnerToggle (pruneExpired now m);
               s = slot_at m slot
           in (Some (token, pin), emit (SlotChanged slot) (save (set_slot slot
                (s\<lparr>ss_activation := minted q now host app ttl token pin uuid (ss_lastPermissions s),
                   ss_lastTtlSecs := ttl\<rparr>) m))))"

definition secrets :: "int \<Rightarrow> int \<Rightarrow> ShareManager \<Rightarrow> (string \<times> string) option \<times> ShareManager" where
  "secrets now slot m =
     (let m = pruneExpired now m; a = slot_of m slot
      in (if \<not> isPlayerSlot slot \<or> \<not> is_live a \<or> av_tokenClear a = [] \<or> av_pinClear a = [] then None
          else Some (av_tokenClear a, av_pinClear a), m))"

definition setPermissions :: "int \<Rightarrow> int \<Rightarrow> Permissions \<Rightarrow> ShareManager \<Rightarrow> bool \<times> ShareManager" where
  "setPermissions now slot perms m =
     (let m = pruneExpired now m; s = slot_at m slot
      in if \<not> isPlayerSlot slot then (False, m)
         else if \<not> is_live (ss_activation s)
         then (if ss_lastPermissions s = perms then (True, m)
               else (True, emit (SlotChanged slot) (save (set_slot slot (s\<lparr>ss_lastPermissions := perms\<rparr>) m))))
         else if av_permissions (ss_activation s) = perms then (True, m)
         else (True, emit (SlotChanged slot) (emit (PermissionsChanged slot (pm_gamepad perms) (pm_keyboardMouse perms))
                (save (set_slot slot (s\<lparr>ss_activation := (ss_activation s)\<lparr>av_permissions := perms\<rparr>,
                   ss_lastPermissions := perms\<rparr>) m)))))"

definition shortened :: "int \<Rightarrow> int \<Rightarrow> Activation \<Rightarrow> Activation" where
  "shortened now ttl a =
     (let candidate = (if ttl > 0 then now + ttl else 0);
          deadline = (if av_expiresAtSecs a = 0 then candidate
                      else if candidate > 0 then min candidate (av_expiresAtSecs a)
                      else av_expiresAtSecs a)
      in a\<lparr>av_expiresAtSecs := deadline, av_ttlSecs := ttl\<rparr>)"

definition setTtl :: "int \<Rightarrow> int \<Rightarrow> int \<Rightarrow> ShareManager \<Rightarrow> bool \<times> ShareManager" where
  "setTtl now slot ttl m =
     (if \<not> isValidTtl ttl then (False, m)
      else let m = pruneExpired now m; s = slot_at m slot
           in if \<not> isPlayerSlot slot then (False, m)
              else if \<not> is_live (ss_activation s)
              then (True, emit (SlotChanged slot) (save (set_slot slot (s\<lparr>ss_lastTtlSecs := ttl\<rparr>) m)))
              else (True, emit (SlotChanged slot) (save (set_slot slot
                     (s\<lparr>ss_lastTtlSecs := ttl, ss_activation := shortened now ttl (ss_activation s)\<rparr>) m))))"

definition setName :: "QtShare \<Rightarrow> int \<Rightarrow> string \<Rightarrow> ShareManager \<Rightarrow> bool \<times> ShareManager" where
  "setName q slot name m =
     (if \<not> isPlayerSlot slot then (False, m)
      else let clean = sanitizeName q name; s = slot_at m slot
           in if ss_name s = clean then (True, m)
              else (True, emit (SlotChanged slot) (save (set_slot slot (s\<lparr>ss_name := clean\<rparr>) m))))"

definition slot_name :: "int \<Rightarrow> ShareManager \<Rightarrow> string" where
  "slot_name slot m = (if isPlayerSlot slot then ss_name (slot_at m slot) else [])"

definition deactivate :: "int \<Rightarrow> EndReason \<Rightarrow> ShareManager \<Rightarrow> bool \<times> ShareManager" where
  "deactivate slot reason m =
     (if \<not> isPlayerSlot slot \<or> \<not> is_live (slot_of m slot) then (False, m)
      else (True, save (clearActivation slot reason m)))"

definition deactivateAll :: "EndReason \<Rightarrow> ShareManager \<Rightarrow> ShareManager" where
  "deactivateAll reason m =
     (let any = list_ex (\<lambda>slot. is_live (slot_of m slot)) player_slots;
          m = fold (\<lambda>slot. clearActivation slot reason) player_slots m
      in if any then save m else m)"

definition streamingCount :: "int \<Rightarrow> ShareManager \<Rightarrow> nat \<times> ShareManager" where
  "streamingCount now m =
     (let m = pruneExpired now m
      in (length (filter (\<lambda>slot. is_live (slot_of m slot) \<and> av_streaming (slot_of m slot)) player_slots), m))"

section \<open>Rate limits\<close>

definition pin_bucket :: "string \<Rightarrow> string" where
  "pin_bucket rateKey = ''share-pin:'' @ rateKey"

definition rateLockout :: "int \<Rightarrow> string \<Rightarrow> ShareManager \<Rightarrow> int" where
  "rateLockout now bucket m =
     (case map_of (m_RateLimits m) bucket of None \<Rightarrow> 0
      | Some e \<Rightarrow> if re_lockoutUntil e > now then re_lockoutUntil e - now else 0)"

text \<open>The entry after one more failure, and the attempts it leaves.\<close>

definition rate_failed :: "int \<Rightarrow> RateEntry \<Rightarrow> RateEntry" where
  "rate_failed now e =
     (let n = re_failures e + 1
      in \<lparr>re_failures = n, re_lastFailure = now,
          re_lockoutUntil = (if n \<ge> RATE_TIER3 then now + LOCKOUT_LONG_SECS
            else if n \<ge> RATE_TIER2 then now + LOCKOUT_MEDIUM_SECS
            else if n \<ge> RATE_TIER1 then now + LOCKOUT_SHORT_SECS else re_lockoutUntil e)\<rparr>)"

definition rate_remaining :: "int \<Rightarrow> int" where
  "rate_remaining n = (if n < RATE_TIER1 then RATE_TIER1 - n else if n < RATE_TIER2 then RATE_TIER2 - n
     else if n < RATE_TIER3 then RATE_TIER3 - n else 0)"

definition rateRecord :: "int \<Rightarrow> string \<Rightarrow> bool \<Rightarrow> ShareManager \<Rightarrow> int \<times> int \<times> ShareManager" where
  "rateRecord now bucket matched m =
     (let e = (case map_of (m_RateLimits m) bucket of None \<Rightarrow> no_failures | Some e \<Rightarrow> e)
      in if matched
         then (RATE_TIER1, 0, m\<lparr>m_RateLimits := AList.update bucket (e\<lparr>re_failures := 0, re_lockoutUntil := 0\<rparr>) (m_RateLimits m)\<rparr>)
         else let e = rate_failed now e; m = m\<lparr>m_RateLimits := AList.update bucket e (m_RateLimits m)\<rparr>
              in (rate_remaining (re_failures e), rateLockout now bucket m, m))"

definition rate_decay :: "int \<Rightarrow> RateEntry \<Rightarrow> RateEntry option" where
  "rate_decay now e =
     (if re_lockoutUntil e \<le> now \<and> now - re_lastFailure e \<ge> LOCKOUT_LONG_SECS
      then (let n = max 0 (re_failures e - 1) in if n = 0 then None else Some (e\<lparr>re_failures := n\<rparr>))
      else Some e)"

definition ratePurge :: "int \<Rightarrow> ShareManager \<Rightarrow> ShareManager" where
  "ratePurge now m = m\<lparr>m_RateLimits := List.map_filter (\<lambda>(b, e). map_option (Pair b) (rate_decay now e)) (m_RateLimits m)\<rparr>"

section \<open>The player's side\<close>

text \<open>Every slot is visited, and the last match counts; the slots are visited in order here, where the code's hash
  table has an order of its own: it matters only when two live activations share a token.\<close>

definition slotForTokenHash :: "string \<Rightarrow> ShareManager \<Rightarrow> int option" where
  "slotForTokenHash tokenHash m =
     (if tokenHash = [] then None
      else fold (\<lambda>slot found. if is_live (slot_of m slot) \<and> constantTimeEquals (av_tokenHash (slot_of m slot)) tokenHash
                              then Some slot else found) player_slots None)"

datatype PinResult = Ok | Invalid | RateLimited | AlreadyBound

record PinOutcome =
  po_result :: PinResult
  po_slot :: int
  po_cookie :: string
  po_lockoutSeconds :: int
  po_remainingAttempts :: int

definition no_outcome :: PinOutcome where
  "no_outcome = \<lparr>po_result = Invalid, po_slot = - 1, po_cookie = [], po_lockoutSeconds = 0, po_remainingAttempts = 0\<rparr>"

definition pin_failed :: "int \<Rightarrow> ShareManager \<Rightarrow> ShareManager" where
  "pin_failed slot m =
     (let a = slot_of m slot;
          m = set_activation slot (a\<lparr>av_pinFailures := av_pinFailures a + 1\<rparr>) m
      in save (if av_pinFailures a + 1 \<ge> kMaxPinFailures then clearActivation slot PinAbuse m else m))"

definition pin_accepted :: "QtShare \<Rightarrow> int \<Rightarrow> int \<Rightarrow> string \<Rightarrow> string \<Rightarrow> PinOutcome \<Rightarrow> ShareManager \<Rightarrow> PinOutcome \<times> ShareManager" where
  "pin_accepted q now slot userAgent cookie out m =
     (let a = (slot_of m slot)\<lparr>av_pinFailures := 0\<rparr>;
          agent = take 256 (sh_simplified q userAgent)
      in if length (av_cookieHashes a) \<ge> kMaxCookiesPerActivation
         then (out\<lparr>po_result := AlreadyBound, po_slot := slot\<rparr>,
               emit (SlotChanged slot) (save (set_activation slot
                 (a\<lparr>av_lastRefusedAt := now, av_lastRefusedAgent := agent\<rparr>) m)))
         else (out\<lparr>po_result := Ok, po_slot := slot, po_cookie := cookie\<rparr>,
               emit (SlotChanged slot) (save (set_activation slot
                 (a\<lparr>av_cookieHashes := av_cookieHashes a @ [sh_hash q cookie],
                    av_devices := av_devices a @ [\<lparr>bd_boundAt = now, bd_userAgent = agent\<rparr>]\<rparr>) m))))"

definition pin_matches :: "QtShare \<Rightarrow> string \<Rightarrow> Activation \<Rightarrow> bool" where
  "pin_matches q pin a \<longleftrightarrow> pin \<noteq> [] \<and> constantTimeEquals (av_pinHash a) (sh_hash q pin)"

definition redeemPin :: "QtShare \<Rightarrow> int \<Rightarrow> string \<Rightarrow> string \<Rightarrow> string \<Rightarrow> string \<Rightarrow> string \<Rightarrow> ShareManager \<Rightarrow>
    PinOutcome \<times> ShareManager" where
  "redeemPin q now token pin rateKey userAgent cookie m =
     (let m = pruneExpired now m; bucket = pin_bucket rateKey; locked = rateLockout now bucket m
      in if locked > 0 then (no_outcome\<lparr>po_result := RateLimited, po_lockoutSeconds := locked\<rparr>, m)
         else let slot = slotForTokenHash (sh_hash q token) m;
                  matched = (case slot of None \<Rightarrow> False | Some s \<Rightarrow> pin_matches q pin (slot_of m s))
              in case rateRecord now bucket matched m of (remaining, lockout, m) \<Rightarrow>
                let out = no_outcome\<lparr>po_remainingAttempts := remaining, po_lockoutSeconds := lockout\<rparr>
                in case slot of
                     None \<Rightarrow> (out, m)
                   | Some s \<Rightarrow> if \<not> matched then (out, pin_failed s m)
                              else pin_accepted q now s userAgent cookie out m)"

definition slotForCookie :: "QtShare \<Rightarrow> int \<Rightarrow> string \<Rightarrow> ShareManager \<Rightarrow> int \<times> ShareManager" where
  "slotForCookie q now cookie m =
     (if cookie = [] then (- 1, m)
      else let m = pruneExpired now m
           in (fold (\<lambda>slot found.
                 if is_live (slot_of m slot) \<and>
                    list_ex (\<lambda>stored. constantTimeEquals stored (sh_hash q cookie)) (av_cookieHashes (slot_of m slot))
                 then slot else found) player_slots (- 1), m))"

definition slotForToken :: "QtShare \<Rightarrow> int \<Rightarrow> string \<Rightarrow> ShareManager \<Rightarrow> int \<times> ShareManager" where
  "slotForToken q now token m =
     (let m = pruneExpired now m
      in (case slotForTokenHash (sh_hash q token) m of Some s \<Rightarrow> s | None \<Rightarrow> - 1, m))"

definition tokenIsLive :: "QtShare \<Rightarrow> int \<Rightarrow> string \<Rightarrow> ShareManager \<Rightarrow> bool \<times> ShareManager" where
  "tokenIsLive q now token m = (case slotForToken q now token m of (slot, m) \<Rightarrow> (slot \<ge> 0, m))"

section \<open>The stream\<close>

definition setStreaming :: "int \<Rightarrow> bool \<Rightarrow> ShareManager \<Rightarrow> ShareManager" where
  "setStreaming slot streaming m =
     (let a = slot_of m slot
      in if \<not> isPlayerSlot slot \<or> \<not> is_live a \<or> av_streaming a = streaming then m
         else emit (SlotChanged slot) (set_activation slot (a\<lparr>av_streaming := streaming\<rparr>) m))"

definition slot_permissions :: "int \<Rightarrow> ShareManager \<Rightarrow> Permissions" where
  "slot_permissions slot m =
     (if \<not> isPlayerSlot slot then viewer
      else if is_live (slot_of m slot) then av_permissions (slot_of m slot) else ss_lastPermissions (slot_at m slot))"

definition share_state :: "int \<Rightarrow> int \<Rightarrow> ShareManager \<Rightarrow> ShareState \<times> ShareManager" where
  "share_state now slot m =
     (let m = pruneExpired now m
      in (if \<not> isPlayerSlot slot \<or> \<not> is_live (slot_of m slot) then Off
          else if av_devices (slot_of m slot) = [] then Shared else Binded, m))"

definition isStreaming :: "int \<Rightarrow> ShareManager \<Rightarrow> bool" where
  "isStreaming slot m \<longleftrightarrow> isPlayerSlot slot \<and> is_live (slot_of m slot) \<and> av_streaming (slot_of m slot)"

definition isBound :: "int \<Rightarrow> ShareManager \<Rightarrow> bool" where
  "isBound slot m \<longleftrightarrow> isPlayerSlot slot \<and> is_live (slot_of m slot) \<and>
     length (av_cookieHashes (slot_of m slot)) \<ge> kMaxCookiesPerActivation"

definition expiresAt :: "int \<Rightarrow> ShareManager \<Rightarrow> int" where
  "expiresAt slot m = (if \<not> isPlayerSlot slot \<or> \<not> is_live (slot_of m slot) then 0 else av_expiresAtSecs (slot_of m slot))"

definition slot_ttlSecs :: "int \<Rightarrow> ShareManager \<Rightarrow> int" where
  "slot_ttlSecs slot m = (if \<not> isPlayerSlot slot \<or> \<not> is_live (slot_of m slot) then 0 else av_ttlSecs (slot_of m slot))"

definition hostForSlot :: "int \<Rightarrow> int \<Rightarrow> ShareManager \<Rightarrow> string \<times> ShareManager" where
  "hostForSlot now slot m =
     (let m = pruneExpired now m
      in (if \<not> isPlayerSlot slot \<or> \<not> is_live (slot_of m slot) then [] else av_hostUuid (slot_of m slot), m))"

definition appForSlot :: "int \<Rightarrow> int \<Rightarrow> ShareManager \<Rightarrow> int \<times> ShareManager" where
  "appForSlot now slot m =
     (let m = pruneExpired now m
      in (if \<not> isPlayerSlot slot \<or> \<not> is_live (slot_of m slot) then - 1 else av_appId (slot_of m slot), m))"

definition sweep :: "int \<Rightarrow> ShareManager \<Rightarrow> ShareManager" where
  "sweep now m = ratePurge now (pruneExpired now m)"

section \<open>A manager over its life\<close>

datatype ShareCall =
    Activate int string int int string string string
  | SetPermissions int Permissions
  | SetTtl int int
  | SetName int string
  | Deactivate int EndReason
  | DeactivateAll EndReason
  | Redeem string string string string string
  | SetStreaming int bool
  | Ask
  | Sweep
  | Restart

fun share_call :: "QtShare \<Rightarrow> int \<times> ShareCall \<Rightarrow> ShareManager \<Rightarrow> ShareManager" where
  "share_call q (now, Activate slot host app ttl token pin uuid) m = snd (activate q now slot host app ttl token pin uuid m)"
| "share_call q (now, SetPermissions slot p) m = snd (setPermissions now slot p m)"
| "share_call q (now, SetTtl slot ttl) m = snd (setTtl now slot ttl m)"
| "share_call q (now, SetName slot name) m = snd (setName q slot name m)"
| "share_call q (now, Deactivate slot r) m = snd (deactivate slot r m)"
| "share_call q (now, DeactivateAll r) m = deactivateAll r m"
| "share_call q (now, Redeem token pin key agent cookie) m = snd (redeemPin q now token pin key agent cookie m)"
| "share_call q (now, SetStreaming slot b) m = setStreaming slot b m"
| "share_call q (now, Ask) m = pruneExpired now m"
| "share_call q (now, Sweep) m = sweep now m"
| "share_call q (now, Restart) m = sm_new q now (m_Writable m) (m_File m)"

section \<open>What each operation does to a slot\<close>

lemma player_slots_eq: "player_slots = [2, 3, 4]"
  by (simp add: player_slots_def tunables upto_rec1)

lemma set_player_slots [simp]: "set player_slots = {s. isPlayerSlot s}"
  by (auto simp: player_slots_def isPlayerSlot_def)

lemma slot_of_emit [simp]: "slot_of (emit x m) = slot_of m"
  by (simp add: slot_of_def slot_at_def emit_def fun_eq_iff)

lemma slot_of_save [simp]: "slot_of (save m) = slot_of m"
  by (simp add: slot_of_def slot_at_def save_def fun_eq_iff)

lemma slot_of_set_slot [simp]: "slot_of (set_slot slot s m) = (slot_of m)(slot := ss_activation s)"
  by (simp add: slot_of_def slot_at_def set_slot_def fun_eq_iff update_conv)

lemma slot_of_set_activation [simp]: "slot_of (set_activation slot a m) = (slot_of m)(slot := a)"
  by (simp add: set_activation_def)

lemma not_live [simp]: "\<not> is_live no_activation"
  by (simp add: is_live_def no_activation_def)

lemma no_hash [simp]: "av_tokenHash no_activation = []"
  by (simp add: no_activation_def)

lemma slot_of_clear: "slot_of (clearActivation slot r m) s =
    (if s = slot \<and> isPlayerSlot s \<and> is_live (slot_of m s) then no_activation else slot_of m s)"
  by (auto simp: clearActivation_def Let_def)

lemma slot_of_clears: "slot_of (fold (\<lambda>slot. clearActivation slot r) xs m) s =
    (if s \<in> set xs \<and> isPlayerSlot s \<and> is_live (slot_of m s) then no_activation else slot_of m s)"
  by (induction xs arbitrary: m) (auto simp: slot_of_clear)

lemma slot_of_prune: "slot_of (pruneExpired now m) s =
    (if isPlayerSlot s \<and> overdue now (slot_of m s) then no_activation else slot_of m s)"
  by (auto simp: pruneExpired_def Let_def slot_of_clears overdue_def filter_empty_conv)

lemma rate_slots [simp]: "slot_of (snd (snd (rateRecord now b matched m))) = slot_of m"
  by (simp add: rateRecord_def Let_def slot_of_def slot_at_def fun_eq_iff)

lemma purge_slots [simp]: "slot_of (ratePurge now m) = slot_of m"
  by (simp add: ratePurge_def slot_of_def slot_at_def fun_eq_iff)

lemma slot_of_failed: "slot_of (pin_failed slot m) s =
    (if s = slot then
       if av_pinFailures (slot_of m s) + 1 \<ge> kMaxPinFailures \<and> isPlayerSlot s \<and> is_live (slot_of m s) then no_activation
       else (slot_of m s)\<lparr>av_pinFailures := av_pinFailures (slot_of m s) + 1\<rparr>
     else slot_of m s)"
  by (simp add: pin_failed_def Let_def slot_of_clear is_live_def)

lemma find_app: "find P (xs @ ys) = (case find P xs of Some x \<Rightarrow> Some x | None \<Rightarrow> find P ys)"
  by (induction xs) auto

lemma fold_last: "fold (\<lambda>x found. if P x then Some x else found) xs init =
    (case find P (rev xs) of Some x \<Rightarrow> Some x | None \<Rightarrow> init)"
proof (induction xs arbitrary: init)
  case (Cons x xs)
  then show ?case by (auto simp: find_app split: option.splits)
qed simp

lemma token_slot: "slotForTokenHash h m = Some s \<Longrightarrow>
    h \<noteq> [] \<and> isPlayerSlot s \<and> is_live (slot_of m s) \<and> constantTimeEquals (av_tokenHash (slot_of m s)) h"
  by (auto simp: slotForTokenHash_def fold_last find_Some_iff split: if_splits option.splits)
    (metis nth_mem set_player_slots mem_Collect_eq set_rev length_rev)

text \<open>The three ways a redemption can end.\<close>

lemma redeem_locked:
  assumes "rateLockout now (pin_bucket key) (pruneExpired now m) > 0"
  shows "redeemPin q now token pin key agent cookie m =
    (no_outcome\<lparr>po_result := RateLimited,
       po_lockoutSeconds := rateLockout now (pin_bucket key) (pruneExpired now m)\<rparr>, pruneExpired now m)"
  using assms by (simp add: redeemPin_def Let_def)

lemma redeem_open:
  assumes "\<not> rateLockout now (pin_bucket key) (pruneExpired now m) > 0"
    and "slot = slotForTokenHash (sh_hash q token) (pruneExpired now m)"
    and "matched = (case slot of None \<Rightarrow> False | Some s \<Rightarrow> pin_matches q pin (slot_of (pruneExpired now m) s))"
    and "rateRecord now (pin_bucket key) matched (pruneExpired now m) = (remaining, lockout, m1)"
    and "out = no_outcome\<lparr>po_remainingAttempts := remaining, po_lockoutSeconds := lockout\<rparr>"
  shows "redeemPin q now token pin key agent cookie m =
    (case slot of None \<Rightarrow> (out, m1)
     | Some s \<Rightarrow> if \<not> matched then (out, pin_failed s m1) else pin_accepted q now s agent cookie out m1)"
  using assms by (auto simp: redeemPin_def Let_def split: option.split)

section \<open>One invitation over its life\<close>

text \<open>A deadline that is as early or earlier, 0 being none; an activation that is still the same invitation.\<close>

definition no_later :: "int \<Rightarrow> int \<Rightarrow> bool" where
  "no_later d' d \<longleftrightarrow> d = 0 \<or> (0 < d' \<and> d' \<le> d)"

definition same_invitation :: "Activation \<Rightarrow> Activation \<Rightarrow> bool" where
  "same_invitation a a' \<longleftrightarrow> av_id a' = av_id a \<and> av_tokenHash a' = av_tokenHash a \<and> av_pinHash a' = av_pinHash a \<and>
     av_hostUuid a' = av_hostUuid a \<and> av_appId a' = av_appId a \<and> av_activatedAt a' = av_activatedAt a \<and>
     no_later (av_expiresAtSecs a') (av_expiresAtSecs a) \<and>
     (\<exists>more. av_cookieHashes a' = av_cookieHashes a @ more)"

definition lives_on :: "Activation \<Rightarrow> Activation \<Rightarrow> bool" where
  "lives_on a a' \<longleftrightarrow> \<not> is_live a' \<or> (is_live a \<and> same_invitation a a')"

lemma no_later_refl [simp]: "0 \<le> d \<Longrightarrow> no_later d d"
  by (auto simp: no_later_def)

lemma same_trans: "same_invitation a b \<Longrightarrow> same_invitation b c \<Longrightarrow> same_invitation a c"
  by (auto simp: same_invitation_def no_later_def)

lemma lives_trans: "lives_on a b \<Longrightarrow> lives_on b c \<Longrightarrow> lives_on a c"
  by (auto simp: lives_on_def intro: same_trans)

text \<open>What holds of every slot: a live invitation is bound to a host, has a PIN that was missed fewer than ten
  times, and answers to one device at most, which is the one the board shows.\<close>

definition slot_inv :: "Activation \<Rightarrow> bool" where
  "slot_inv a \<longleftrightarrow> (if is_live a then length (av_cookieHashes a) \<le> kMaxCookiesPerActivation \<and>
       length (av_devices a) = length (av_cookieHashes a) \<and> 0 \<le> av_pinFailures a \<and> av_pinFailures a < kMaxPinFailures \<and>
       av_hostUuid a \<noteq> [] \<and> av_pinHash a \<noteq> [] \<and> 0 < av_activatedAt a \<and> 0 \<le> av_expiresAtSecs a \<and> isValidTtl (av_ttlSecs a)
     else a = no_activation)"

lemma slot_inv_none [simp]: "slot_inv no_activation"
  by (simp add: slot_inv_def)

lemma lives_none [simp]: "lives_on a no_activation"
  by (simp add: lives_on_def)

lemma lives_refl: "slot_inv a \<Longrightarrow> lives_on a a"
  by (auto simp: lives_on_def same_invitation_def slot_inv_def split: if_splits)

text \<open>One activation's next value, for the operations that do not open or restore one.\<close>

definition next_ok :: "Activation \<Rightarrow> Activation \<Rightarrow> bool" where
  "next_ok a a' \<longleftrightarrow> (slot_inv a \<longrightarrow> slot_inv a' \<and> lives_on a a')"

lemma next_refl: "next_ok a a"
  by (simp add: next_ok_def lives_refl)

lemma next_none [simp]: "next_ok a no_activation"
  by (simp add: next_ok_def)

lemma next_trans: "next_ok a b \<Longrightarrow> next_ok b c \<Longrightarrow> next_ok a c"
  by (auto simp: next_ok_def intro: lives_trans)

lemma next_prune: "next_ok (slot_of m s) (slot_of (pruneExpired now m) s)"
  by (simp add: slot_of_prune next_refl)

lemma next_clear: "next_ok (slot_of m s) (slot_of (clearActivation slot r m) s)"
  by (simp add: slot_of_clear next_refl)

lemma next_permissions: "is_live a \<Longrightarrow> next_ok a (a\<lparr>av_permissions := p\<rparr>)"
  by (auto simp: next_ok_def slot_inv_def lives_on_def same_invitation_def is_live_def)

lemma next_streaming: "is_live a \<Longrightarrow> next_ok a (a\<lparr>av_streaming := b\<rparr>)"
  by (auto simp: next_ok_def slot_inv_def lives_on_def same_invitation_def is_live_def)

lemma valid_ttl_nonneg: "isValidTtl ttl \<Longrightarrow> 0 \<le> ttl"
  by (auto simp: isValidTtl_def kTtlChoices_def)

lemma next_shortened: "is_live a \<Longrightarrow> isValidTtl ttl \<Longrightarrow> 0 < now \<Longrightarrow> next_ok a (shortened now ttl a)"
  using valid_ttl_nonneg[of ttl]
  by (auto simp: next_ok_def slot_inv_def lives_on_def same_invitation_def is_live_def shortened_def Let_def
      no_later_def min_def)

lemma next_counted: "is_live a \<Longrightarrow> av_pinFailures a + 1 < kMaxPinFailures \<Longrightarrow>
    next_ok a (a\<lparr>av_pinFailures := av_pinFailures a + 1\<rparr>)"
  by (auto simp: next_ok_def slot_inv_def lives_on_def same_invitation_def is_live_def)

lemma next_failed: "is_live (slot_of m slot) \<Longrightarrow> isPlayerSlot slot \<Longrightarrow> next_ok (slot_of m s) (slot_of (pin_failed slot m) s)"
  by (simp add: slot_of_failed next_refl next_counted)

lemma accepted_slots: "slot_of (snd (pin_accepted q now slot agent cookie out m)) s =
    (if s \<noteq> slot then slot_of m s
     else if length (av_cookieHashes (slot_of m s)) \<ge> kMaxCookiesPerActivation
     then (slot_of m s)\<lparr>av_pinFailures := 0, av_lastRefusedAt := now, av_lastRefusedAgent := take 256 (sh_simplified q agent)\<rparr>
     else (slot_of m s)\<lparr>av_pinFailures := 0, av_cookieHashes := av_cookieHashes (slot_of m s) @ [sh_hash q cookie],
        av_devices := av_devices (slot_of m s) @ [\<lparr>bd_boundAt = now, bd_userAgent = take 256 (sh_simplified q agent)\<rparr>]\<rparr>)"
  by (simp add: pin_accepted_def Let_def)

lemma next_refused: "is_live a \<Longrightarrow> next_ok a (a\<lparr>av_pinFailures := 0, av_lastRefusedAt := r, av_lastRefusedAgent := g\<rparr>)"
  by (auto simp: next_ok_def slot_inv_def lives_on_def same_invitation_def is_live_def tunables)

lemma next_bound: "is_live a \<Longrightarrow> av_cookieHashes a = [] \<Longrightarrow>
    next_ok a (a\<lparr>av_pinFailures := 0, av_cookieHashes := av_cookieHashes a @ [h], av_devices := av_devices a @ [d]\<rparr>)"
  by (auto simp: next_ok_def slot_inv_def lives_on_def same_invitation_def is_live_def tunables)

lemma next_accepted: "is_live (slot_of m slot) \<Longrightarrow>
    next_ok (slot_of m s) (slot_of (snd (pin_accepted q now slot agent cookie out m)) s)"
  using next_bound[of "slot_of m s"] by (auto simp: accepted_slots next_refl next_refused tunables Suc_le_eq)

lemma next_redeem: "next_ok (slot_of m s) (slot_of (snd (redeemPin q now token pin key agent cookie m)) s)"
proof (cases "rateLockout now (pin_bucket key) (pruneExpired now m) > 0")
  case True
  then show ?thesis by (simp add: redeem_locked next_prune)
next
  case False
  let ?m = "pruneExpired now m"
  let ?slot = "slotForTokenHash (sh_hash q token) ?m"
  let ?matched = "case ?slot of None \<Rightarrow> False | Some s \<Rightarrow> pin_matches q pin (slot_of ?m s)"
  obtain r l m1 where rec: "rateRecord now (pin_bucket key) ?matched ?m = (r, l, m1)" by (metis prod_cases3)
  have m1: "slot_of m1 = slot_of ?m" using rate_slots[of now "pin_bucket key" ?matched ?m] unfolding rec by simp
  note open' = redeem_open[OF False refl refl rec refl, of agent cookie]
  have "next_ok (slot_of ?m s) (slot_of (snd (redeemPin q now token pin key agent cookie m)) s)"
  proof (cases ?slot)
    case None
    then show ?thesis using open' by (simp add: m1 next_refl)
  next
    case (Some slot)
    then have "is_live (slot_of m1 slot)" "isPlayerSlot slot" using token_slot[OF Some] m1 by auto
    then show ?thesis
      using open' Some next_failed[of m1 slot s] next_accepted[of m1 slot s] m1 by (auto split: if_splits)
  qed
  then show ?thesis using next_prune next_trans by blast
qed

lemma next_set: "next_ok (slot_of m slot) a \<Longrightarrow> next_ok (slot_of m s) (((slot_of m)(slot := a)) s)"
  by (auto simp: next_refl)

lemma activation_of_slot [simp]: "ss_activation (slot_at m slot) = slot_of m slot"
  by (simp add: slot_of_def)

lemma permissions_slots: "slot_of (snd (setPermissions now slot p m)) s =
    (if s = slot \<and> isPlayerSlot s \<and> is_live (slot_of (pruneExpired now m) s)
     then (slot_of (pruneExpired now m) s)\<lparr>av_permissions := p\<rparr> else slot_of (pruneExpired now m) s)"
  by (auto simp: setPermissions_def Let_def)

lemma ttl_slots: "slot_of (snd (setTtl now slot ttl m)) s =
    (if \<not> isValidTtl ttl then slot_of m s
     else if s = slot \<and> isPlayerSlot s \<and> is_live (slot_of (pruneExpired now m) s)
     then shortened now ttl (slot_of (pruneExpired now m) s) else slot_of (pruneExpired now m) s)"
  by (auto simp: setTtl_def Let_def)

lemma name_slots: "slot_of (snd (setName q slot name m)) = slot_of m"
  by (simp add: setName_def Let_def)

lemma deactivate_slots: "slot_of (snd (deactivate slot r m)) s =
    (if s = slot \<and> isPlayerSlot s \<and> is_live (slot_of m s) then no_activation else slot_of m s)"
  by (auto simp: deactivate_def slot_of_clear)

lemma deactivateAll_slots: "slot_of (deactivateAll r m) s =
    (if isPlayerSlot s \<and> is_live (slot_of m s) then no_activation else slot_of m s)"
  by (auto simp: deactivateAll_def Let_def slot_of_clears)

lemma streaming_slots: "slot_of (setStreaming slot b m) s =
    (if s = slot \<and> isPlayerSlot s \<and> is_live (slot_of m s) then (slot_of m s)\<lparr>av_streaming := b\<rparr> else slot_of m s)"
  by (auto simp: setStreaming_def Let_def)

lemma activate_slots: "slot_of (snd (activate q now slot host app ttl token pin uuid m)) s =
    (if \<not> isPlayerSlot slot \<or> host = [] \<or> \<not> isValidTtl ttl then slot_of m s
     else if s = slot then minted q now host app ttl token pin uuid
       (ss_lastPermissions (slot_at (clearActivation slot OwnerToggle (pruneExpired now m)) slot))
     else slot_of (pruneExpired now m) s)"
  by (simp add: activate_def Let_def slot_of_clear)

fun opens :: "ShareCall \<Rightarrow> int \<Rightarrow> bool" where
  "opens (Activate slot host app ttl token pin uuid) s \<longleftrightarrow> s = slot"
| "opens c s \<longleftrightarrow> False"

lemma call_next:
  assumes "0 < now" and "c \<noteq> Restart" and "\<not> opens c s"
  shows "next_ok (slot_of m s) (slot_of (share_call q (now, c) m) s)"
proof (cases c)
  case (SetTtl slot ttl)
  then show ?thesis using next_trans[OF next_prune next_shortened] assms(1) by (auto simp: ttl_slots next_prune next_refl)
next
  case (SetPermissions slot p)
  then show ?thesis using next_trans[OF next_prune next_permissions] by (auto simp: permissions_slots next_prune)
qed (use assms in \<open>auto simp: name_slots deactivate_slots deactivateAll_slots streaming_slots activate_slots sweep_def
  next_refl next_prune next_streaming intro: next_redeem\<close>)

section \<open>The file is current\<close>

definition file_match :: "int \<Rightarrow> SavedActivation option \<Rightarrow> Activation \<Rightarrow> bool" where
  "file_match t saved a \<longleftrightarrow> (case saved of None \<Rightarrow> \<not> is_live a
     | Some sa \<Rightarrow> is_live a \<and> sa = saved_activation a \<or>
         \<not> is_live a \<and> (\<exists>e. sa_expiresAt sa = Some e \<and> 0 < e \<and> e \<le> t))"

definition file_inv :: "int \<Rightarrow> ShareManager \<Rightarrow> bool" where
  "file_inv t m \<longleftrightarrow> m_Writable m \<and>
     (case m_File m of None \<Rightarrow> list_all (\<lambda>s. \<not> is_live (slot_of m s)) player_slots
      | Some f \<Rightarrow> list_all2 (\<lambda>sv s. sv_slot sv = s \<and> file_match t (sv_activation sv) (slot_of m s)) f player_slots)"

lemma writable [simp]:
  "m_Writable (emit x m) = m_Writable m" "m_Writable (save m) = m_Writable m" "m_Writable (set_slot slot s m) = m_Writable m"
  "m_Writable (set_activation slot a m) = m_Writable m" "m_Writable (clearActivation slot r m) = m_Writable m"
  "m_Writable (snd (snd (rateRecord now b matched m))) = m_Writable m" "m_Writable (ratePurge now m) = m_Writable m"
  by (simp_all add: emit_def save_def set_slot_def set_activation_def clearActivation_def rateRecord_def ratePurge_def Let_def)

lemma writable_clears [simp]: "m_Writable (fold (\<lambda>slot. clearActivation slot r) xs m) = m_Writable m"
  by (induction xs arbitrary: m) auto

lemma writable_prune [simp]: "m_Writable (pruneExpired now m) = m_Writable m"
  by (simp add: pruneExpired_def Let_def)

lemma file_untouched [simp]:
  "m_File (emit x m) = m_File m" "m_File (set_slot slot s m) = m_File m" "m_File (set_activation slot a m) = m_File m"
  "m_File (clearActivation slot r m) = m_File m" "m_File (snd (snd (rateRecord now b matched m))) = m_File m"
  "m_File (ratePurge now m) = m_File m"
  by (simp_all add: emit_def set_slot_def set_activation_def clearActivation_def rateRecord_def ratePurge_def Let_def)

lemma file_same: "slot_of m' = slot_of m \<Longrightarrow> m_File m' = m_File m \<Longrightarrow> m_Writable m' = m_Writable m \<Longrightarrow>
    file_inv t m' = file_inv t m"
  unfolding file_inv_def by (simp only:)

lemma file_emit [simp]: "file_inv t (emit x m) = file_inv t m"
  by (rule file_same) simp_all

lemma file_save [simp]: "file_inv t (save m) = m_Writable m"
proof -
  have "list_all2 (\<lambda>sv s. sv_slot sv = s \<and> file_match t (sv_activation sv) (slot_of m s)) (map (saved_slot m) xs) xs" for xs
    by (induction xs) (simp_all add: saved_slot_def file_match_def Let_def)
  moreover have "slot_of (m\<lparr>m_File := f\<rparr>) = slot_of m" for f
    by (simp add: slot_of_def slot_at_def fun_eq_iff del: activation_of_slot)
  ultimately show ?thesis by (simp add: file_inv_def save_def)
qed

lemma file_writable: "file_inv t m \<Longrightarrow> m_Writable m"
  by (simp add: file_inv_def)

lemma file_prune: "file_inv t m \<Longrightarrow> file_inv t (pruneExpired now m)"
  by (auto simp: pruneExpired_def Let_def file_writable)

lemma file_later: "file_inv t m \<Longrightarrow> t \<le> t' \<Longrightarrow> file_inv t' m"
proof -
  assume f: "file_inv t m" and t: "t \<le> t'"
  have "file_match t sa a \<Longrightarrow> file_match t' sa a" for sa a
    using t by (auto simp: file_match_def split: option.splits)
  then show ?thesis using f by (auto simp: file_inv_def split: option.splits elim: list_all2_mono)
qed

lemma call_file:
  assumes "file_inv t m" and "c \<noteq> Restart"
  shows "file_inv t (share_call q (now, c) m)"
proof -
  note w = file_writable[OF assms(1)]
  show ?thesis
  proof (cases c)
    case (Redeem token pin key agent cookie)
    let ?m = "pruneExpired now m"
    show ?thesis
    proof (cases "rateLockout now (pin_bucket key) ?m > 0")
      case True
      then show ?thesis using Redeem assms by (simp add: redeem_locked file_prune)
    next
      case False
      let ?slot = "slotForTokenHash (sh_hash q token) ?m"
      let ?matched = "case ?slot of None \<Rightarrow> False | Some s \<Rightarrow> pin_matches q pin (slot_of ?m s)"
      obtain r l m1 where rec: "rateRecord now (pin_bucket key) ?matched ?m = (r, l, m1)" by (metis prod_cases3)
      have "slot_of m1 = slot_of ?m" "m_File m1 = m_File ?m" "m_Writable m1 = m_Writable ?m"
        using rate_slots[of now "pin_bucket key" ?matched ?m] file_untouched(5)[of now "pin_bucket key" ?matched ?m]
          writable(6)[of now "pin_bucket key" ?matched ?m] unfolding rec by simp_all
      then have f1: "file_inv t m1" using file_same[of m1 ?m t] file_prune[OF assms(1)] by blast
      have "file_inv t (pin_failed s m1)" "file_inv t (snd (pin_accepted q now s agent cookie out m1))" for s out
        using file_writable[OF f1] by (simp_all add: pin_failed_def pin_accepted_def Let_def)
      then show ?thesis
        using redeem_open[OF False refl refl rec refl, of agent cookie] Redeem f1 by (auto split: option.splits)
    qed
  next
    case (SetStreaming slot b)
    let ?m = "setStreaming slot b m"
    have "m_File ?m = m_File m" "m_Writable ?m = m_Writable m" by (simp_all add: setStreaming_def Let_def)
    moreover have "is_live (slot_of ?m s) = is_live (slot_of m s)"
      "saved_activation (slot_of ?m s) = saved_activation (slot_of m s)" for s
      by (simp_all add: streaming_slots saved_activation_def is_live_def)
    then have "file_match t sa (slot_of ?m s) = file_match t sa (slot_of m s)" "is_live (slot_of ?m s) = is_live (slot_of m s)"
      for sa s by (simp_all add: file_match_def split: option.split)
    ultimately show ?thesis using assms SetStreaming by (simp add: file_inv_def split: option.splits)
  next
    case Sweep
    then show ?thesis
      using file_same[of "ratePurge now (pruneExpired now m)" "pruneExpired now m" t] assms(1)
      by (simp add: sweep_def file_prune)
  next
    case (DeactivateAll r)
    let ?m = "fold (\<lambda>slot. clearActivation slot r) player_slots m"
    have "m_File (fold (\<lambda>slot. clearActivation slot r) xs m) = m_File m" for xs by (induction xs arbitrary: m) auto
    moreover have "slot_of ?m = slot_of m" if "\<not> list_ex (\<lambda>slot. is_live (slot_of m slot)) player_slots"
      using that by (auto simp: fun_eq_iff slot_of_clears list_ex_iff)
    ultimately have "file_inv t ?m" if "\<not> list_ex (\<lambda>slot. is_live (slot_of m slot)) player_slots"
      using file_same[of ?m m t] assms(1) that by simp
    then show ?thesis using DeactivateAll w by (simp add: deactivateAll_def Let_def)
  qed (use assms(1,2) w in \<open>simp_all add: activate_def setPermissions_def setTtl_def setName_def deactivate_def Let_def file_prune\<close>)
qed

section \<open>Restarting\<close>

definition after_restart :: "Activation \<Rightarrow> Activation" where
  "after_restart a = a\<lparr>av_streaming := False, av_tokenClear := [], av_pinClear := []\<rparr>"

lemma restored_saved:
  assumes "slot_inv a" and "is_live a"
  shows "restored now (saved_activation a) = (if overdue now a then None else Some (after_restart a))"
proof -
  have "length (av_devices a) = length (av_cookieHashes a)" "0 < av_activatedAt a" "av_pinHash a \<noteq> []"
    "av_hostUuid a \<noteq> []" "isValidTtl (av_ttlSecs a)" "av_tokenHash a \<noteq> []"
    using assms by (auto simp: slot_inv_def is_live_def)
  then show ?thesis
    using assms(2) by (auto simp: restored_def saved_activation_def overdue_def pad_devices_def after_restart_def
        no_activation_def Let_def)
qed

lemma load_slot_slots: "slot_of (load_slot q now sv m) s =
    (if s = sv_slot sv \<and> isPlayerSlot s
     then case Option.bind (sv_activation sv) (restored now) of None \<Rightarrow> slot_of m s | Some a \<Rightarrow> a else slot_of m s)"
  by (auto simp: load_slot_def Let_def split: option.splits)

lemma load_slots: "distinct (map sv_slot f) \<Longrightarrow> slot_of (fold (load_slot q now) f m) s =
    (case find (\<lambda>sv. sv_slot sv = s) f of None \<Rightarrow> slot_of m s
     | Some sv \<Rightarrow> if isPlayerSlot s
         then case Option.bind (sv_activation sv) (restored now) of None \<Rightarrow> slot_of m s | Some a \<Rightarrow> a else slot_of m s)"
proof (induction f arbitrary: m)
  case (Cons sv f)
  have "find (\<lambda>sv. sv_slot sv = s) f = None" if "sv_slot sv = s"
    using Cons.prems that by (force simp: find_None_iff image_iff)
  then show ?case using Cons by (auto simp: load_slot_slots split: option.splits)
qed simp

lemma load_keeps [simp]: "m_File (load q now m) = m_File m" "m_Writable (load q now m) = m_Writable m"
proof -
  have "m_File (fold (load_slot q now) f m) = m_File m \<and> m_Writable (fold (load_slot q now) f m) = m_Writable m" for f
    by (induction f arbitrary: m) (simp_all add: load_slot_def Let_def)
  then show "m_File (load q now m) = m_File m" "m_Writable (load q now m) = m_Writable m"
    by (simp_all add: load_def split: option.splits)
qed

lemma restart_keeps [simp]: "m_File (sm_new q now w f) = f" "m_Writable (sm_new q now w f) = w"
  by (simp_all add: sm_new_def)

lemma file_members:
  assumes "file_inv t m" and "m_File m = Some f"
  shows "map sv_slot f = player_slots" and "sv \<in> set f \<Longrightarrow> file_match t (sv_activation sv) (slot_of m (sv_slot sv))"
proof -
  have all: "list_all2 (\<lambda>sv s. sv_slot sv = s \<and> file_match t (sv_activation sv) (slot_of m s)) f player_slots"
    using assms by (simp add: file_inv_def)
  then show "map sv_slot f = player_slots" by (auto simp: list_all2_conv_all_nth intro: nth_equalityI)
  show "sv \<in> set f \<Longrightarrow> file_match t (sv_activation sv) (slot_of m (sv_slot sv))"
    using all by (auto simp: list_all2_conv_all_nth in_set_conv_nth)
qed

lemma restored_match:
  assumes "file_match t saved a" and "slot_inv a" and "t \<le> now"
  shows "Option.bind saved (restored now) = (if is_live a \<and> \<not> overdue now a then Some (after_restart a) else None)"
proof (cases saved)
  case None
  then show ?thesis using assms(1) by (simp add: file_match_def)
next
  case (Some sa)
  then show ?thesis
    using assms by (auto simp: file_match_def restored_saved) (auto simp: restored_def Let_def)
qed

lemma fresh_slots: "slot_of \<lparr>m_Slots = map (\<lambda>slot. (slot, fresh_slot)) player_slots, m_RateLimits = r, m_Signals = x, m_File = f, m_Writable = w\<rparr> s
    = no_activation"
proof -
  have "(case map_of (map (\<lambda>slot. (slot, fresh_slot)) xs) s of None \<Rightarrow> fresh_slot | Some x \<Rightarrow> x) = fresh_slot" for xs
    by (induction xs) auto
  then have "slot_at \<lparr>m_Slots = map (\<lambda>slot. (slot, fresh_slot)) player_slots, m_RateLimits = r, m_Signals = x, m_File = f,
      m_Writable = w\<rparr> s = fresh_slot"
    unfolding slot_at_def by (simp only: ShareManager.simps)
  then show ?thesis unfolding slot_of_def by (simp only: fresh_slot_def ShareSlot.simps)
qed

lemma restart_slots:
  assumes "file_inv t m" and "slot_inv (slot_of m s)" and "t \<le> now" and "isPlayerSlot s"
  shows "slot_of (sm_new q now w (m_File m)) s =
    (if is_live (slot_of m s) \<and> \<not> overdue now (slot_of m s) then after_restart (slot_of m s) else no_activation)"
proof (cases "m_File m")
  case None
  then have "\<not> is_live (slot_of m s)" using assms(1,4) by (simp add: file_inv_def list_all_iff)
  then show ?thesis using None by (simp add: sm_new_def load_def fresh_slots)
next
  case (Some f)
  have slots: "map sv_slot f = player_slots" by (rule file_members(1)[OF assms(1) Some])
  then have d: "distinct (map sv_slot f)" by (simp add: player_slots_def)
  have "s \<in> sv_slot ` set f" using assms(4) slots by (metis set_map set_player_slots mem_Collect_eq)
  then obtain sv where sv: "find (\<lambda>sv. sv_slot sv = s) f = Some sv"
    by (cases "find (\<lambda>sv. sv_slot sv = s) f") (auto simp: find_None_iff)
  then have "sv \<in> set f" "sv_slot sv = s" by (auto simp: find_Some_iff)
  then have "file_match t (sv_activation sv) (slot_of m s)" using file_members(2)[OF assms(1) Some] by blast
  then show ?thesis
    using restored_match[OF _ assms(2,3)] assms(4) sv Some d
    by (simp add: sm_new_def load_def load_slots fresh_slots)
qed

lemma after_restart_simps [simp]: "is_live (after_restart a) = is_live a"
  "saved_activation (after_restart a) = saved_activation a"
  by (simp_all add: after_restart_def is_live_def saved_activation_def)

lemma saved_deadline [simp]: "sa_expiresAt (saved_activation a) = Some (av_expiresAtSecs a)"
  by (simp add: saved_activation_def)

lemma next_restart: "is_live a \<Longrightarrow> next_ok a (after_restart a)"
  by (auto simp: next_ok_def slot_inv_def lives_on_def same_invitation_def) (simp_all add: after_restart_def)

lemma restart_file:
  assumes f: "file_inv t m" and inv: "\<And>s. isPlayerSlot s \<Longrightarrow> slot_inv (slot_of m s)" and "t \<le> now"
  shows "file_inv now (sm_new q now True (m_File m))"
proof -
  let ?m = "sm_new q now True (m_File m)"
  have new: "slot_of ?m s = (if is_live (slot_of m s) \<and> \<not> overdue now (slot_of m s)
      then after_restart (slot_of m s) else no_activation)" if "isPlayerSlot s" for s
    using restart_slots[OF f inv[OF that] assms(3) that] .
  have match: "file_match now saved (slot_of ?m s)" if "file_match t saved (slot_of m s)" "isPlayerSlot s" for saved s
    using that assms(3) new by (auto simp: file_match_def overdue_def split: option.splits)
  show ?thesis
  proof (cases "m_File m")
    case None
    then have "\<not> is_live (slot_of m s)" if "isPlayerSlot s" for s using that f by (auto simp: file_inv_def list_all_iff)
    then show ?thesis using None new by (auto simp: file_inv_def list_all_iff)
  next
    case (Some fl)
    then have "list_all2 (\<lambda>sv s. sv_slot sv = s \<and> file_match t (sv_activation sv) (slot_of m s)) fl player_slots"
      using f by (simp add: file_inv_def)
    then have "list_all2 (\<lambda>sv s. sv_slot sv = s \<and> file_match now (sv_activation sv) (slot_of ?m s)) fl player_slots"
      by (rule list.rel_mono_strong) (auto intro: match)
    then show ?thesis using Some by (simp add: file_inv_def)
  qed
qed

section \<open>The machine\<close>

definition timed_share :: "QtShare \<Rightarrow> int \<times> ShareCall \<Rightarrow> int \<times> ShareManager \<Rightarrow> int \<times> ShareManager" where
  "timed_share q e = (\<lambda>(t, m). (fst e, share_call q e m))"

definition on_clock :: "int \<times> ShareCall \<Rightarrow> int \<times> ShareManager \<Rightarrow> bool" where
  "on_clock e = (\<lambda>(t, m). t \<le> fst e \<and> 0 < fst e)"

definition share_inv :: "QtShare \<Rightarrow> int \<times> ShareManager \<Rightarrow> bool" where
  "share_inv q = (\<lambda>(t, m). [] \<notin> range (sh_hash q) \<and> file_inv t m \<and> (\<forall>s. isPlayerSlot s \<longrightarrow> slot_inv (slot_of m s)))"

lemma minted_inv:
  assumes "[] \<notin> range (sh_hash q)" and "0 < now" and "host \<noteq> []" and "isValidTtl ttl"
  shows "slot_inv (minted q now host app ttl token pin uuid p)"
proof -
  have "sh_hash q token \<noteq> []" "sh_hash q pin \<noteq> []" using assms(1) by (metis rangeI)+
  then show ?thesis
    using assms valid_ttl_nonneg by (simp add: slot_inv_def minted_def is_live_def no_activation_def tunables)
qed

lemma activate_inv:
  assumes "[] \<notin> range (sh_hash q)" and "0 < now" and "slot_inv (slot_of m s)"
  shows "slot_inv (slot_of (snd (activate q now slot host app ttl token pin uuid m)) s)"
proof -
  have "slot_inv (slot_of (pruneExpired now m) s)" using assms(3) by (simp add: slot_of_prune)
  then show ?thesis using assms minted_inv by (auto simp: activate_slots)
qed

lemma share_step:
  assumes "share_inv q s" and "on_clock e s"
  shows "share_inv q (timed_share q e s)"
proof -
  obtain t m now c where s: "s = (t, m)" "e = (now, c)" by (metis surj_pair)
  have h: "[] \<notin> range (sh_hash q)" and f: "file_inv t m" and inv: "isPlayerSlot s \<Longrightarrow> slot_inv (slot_of m s)"
    and now: "t \<le> now" "0 < now" for s
    using assms s by (auto simp: share_inv_def on_clock_def)
  have "file_inv now (share_call q (now, c) m) \<and> (\<forall>s. isPlayerSlot s \<longrightarrow> slot_inv (slot_of (share_call q (now, c) m) s))"
  proof (cases "c = Restart")
    case True
    have "slot_inv (slot_of (sm_new q now True (m_File m)) s)" if "isPlayerSlot s" for s
      using restart_slots[OF f inv[OF that] now(1) that] inv[OF that] next_restart[of "slot_of m s"]
      by (auto simp: next_ok_def)
    then show ?thesis using True restart_file[OF f inv now(1)] file_writable[OF f] by simp
  next
    case False
    have "slot_inv (slot_of (share_call q (now, c) m) s)" if "isPlayerSlot s" for s
    proof (cases "opens c s")
      case True
      then obtain host app ttl token pin uuid where "c = Activate s host app ttl token pin uuid"
        by (cases c) auto
      then show ?thesis using activate_inv[OF h now(2) inv[OF that]] by simp
    next
      case No: False
      show ?thesis using call_next[OF now(2) False No] inv[OF that] by (simp add: next_ok_def)
    qed
    then show ?thesis using file_later[OF call_file[OF f False] now(1)] by blast
  qed
  then show ?thesis using h s by (simp add: share_inv_def timed_share_def)
qed

interpretation share: guarded_machine "timed_share q" on_clock "share_inv q" for q
  by unfold_locales (rule share_step)

text \<open>A fresh installation: no file, nothing shared, a disk that can be written.\<close>

definition fresh_install :: "QtShare \<Rightarrow> int \<times> ShareManager" where
  "fresh_install q = (0, sm_new q 0 True None)"

lemma fresh_inv: "[] \<notin> range (sh_hash q) \<Longrightarrow> share_inv q (fresh_install q)"
  by (simp add: share_inv_def fresh_install_def file_inv_def sm_new_def load_def fresh_slots list_all_iff)

section \<open>Counting wrong PINs\<close>

text \<open>What a call is to slot \<open>s\<close>: a wrong PIN behind its link, a right one, or neither. A call turned away by the
  rate limit is neither.\<close>

fun tried :: "QtShare \<Rightarrow> int \<Rightarrow> bool \<Rightarrow> int \<times> ShareCall \<Rightarrow> ShareManager \<Rightarrow> bool" where
  "tried q s right (now, Redeem token pin key agent cookie) m \<longleftrightarrow>
     \<not> rateLockout now (pin_bucket key) (pruneExpired now m) > 0 \<and>
     slotForTokenHash (sh_hash q token) (pruneExpired now m) = Some s \<and>
     pin_matches q pin (slot_of (pruneExpired now m) s) = right"
| "tried q s right e m \<longleftrightarrow> False"

fun wrong_pins :: "QtShare \<Rightarrow> int \<Rightarrow> (int \<times> ShareCall) list \<Rightarrow> int \<times> ShareManager \<Rightarrow> int" where
  "wrong_pins q s [] x = 0"
| "wrong_pins q s (e # es) x =
     (if tried q s False e (snd x) then 1 else 0) + wrong_pins q s es (timed_share q e x)"

fun never :: "(int \<times> ShareCall \<Rightarrow> ShareManager \<Rightarrow> bool) \<Rightarrow> QtShare \<Rightarrow> (int \<times> ShareCall) list \<Rightarrow> int \<times> ShareManager \<Rightarrow> bool" where
  "never P q [] x \<longleftrightarrow> True"
| "never P q (e # es) x \<longleftrightarrow> \<not> P e (snd x) \<and> never P q es (timed_share q e x)"

lemma prune_counts: "is_live (slot_of (pruneExpired now m) s) \<Longrightarrow> slot_of (pruneExpired now m) s = slot_of m s"
  by (auto simp: slot_of_prune split: if_splits)

lemma redeem_counts:
  assumes "\<not> tried q s True (now, Redeem token pin key agent cookie) m"
    and "is_live (slot_of (snd (redeemPin q now token pin key agent cookie m)) s)"
  shows "is_live (slot_of m s) \<and> av_pinFailures (slot_of (snd (redeemPin q now token pin key agent cookie m)) s) =
    av_pinFailures (slot_of m s) + (if tried q s False (now, Redeem token pin key agent cookie) m then 1 else 0)"
proof (cases "rateLockout now (pin_bucket key) (pruneExpired now m) > 0")
  case True
  then show ?thesis using assms prune_counts[of now m s] by (auto simp: redeem_locked)
next
  case False
  let ?m = "pruneExpired now m"
  let ?slot = "slotForTokenHash (sh_hash q token) ?m"
  let ?matched = "case ?slot of None \<Rightarrow> False | Some s \<Rightarrow> pin_matches q pin (slot_of ?m s)"
  obtain r l m1 where rec: "rateRecord now (pin_bucket key) ?matched ?m = (r, l, m1)" by (metis prod_cases3)
  have m1: "slot_of m1 = slot_of ?m" using rate_slots[of now "pin_bucket key" ?matched ?m] unfolding rec by simp
  note open' = redeem_open[OF False refl refl rec refl, of agent cookie]
  show ?thesis
  proof (cases ?slot)
    case None
    then show ?thesis using open' assms(2) False prune_counts[of now m s] by (auto simp: m1)
  next
    case (Some slot)
    show ?thesis
    proof (cases "pin_matches q pin (slot_of ?m slot)")
      case True
      then have "s \<noteq> slot" using assms(1) Some False by auto
      then show ?thesis
        using open' assms(2) Some True False prune_counts[of now m s] by (auto simp: m1 accepted_slots)
    next
      case wrong: False
      then have out: "slot_of (snd (redeemPin q now token pin key agent cookie m)) s = slot_of (pin_failed slot m1) s"
        using open' Some by simp
      have "is_live (slot_of m1 s)" using assms(2) unfolding out by (auto simp: slot_of_failed is_live_def split: if_splits)
      then show ?thesis
        using assms(2) out Some wrong False prune_counts[of now m s] unfolding out
        by (auto simp: m1 slot_of_failed is_live_def split: if_splits)
    qed
  qed
qed

lemma call_counts:
  assumes "c \<noteq> Restart" and "\<not> opens c s" and "\<not> tried q s True (now, c) m"
    and "is_live (slot_of (share_call q (now, c) m) s)"
  shows "is_live (slot_of m s) \<and> av_pinFailures (slot_of (share_call q (now, c) m) s) =
    av_pinFailures (slot_of m s) + (if tried q s False (now, c) m then 1 else 0)"
proof (cases c)
  case (Redeem token pin key agent cookie)
  then show ?thesis using redeem_counts assms(3,4) by simp
next
  case (SetPermissions slot p)
  then show ?thesis using assms(4) prune_counts[of now m s] by (auto simp: permissions_slots is_live_def split: if_splits)
next
  case (SetTtl slot ttl)
  then show ?thesis using assms(4) prune_counts[of now m s]
    by (auto simp: ttl_slots shortened_def Let_def is_live_def split: if_splits)
next
  case (SetStreaming slot b)
  then show ?thesis using assms(4) by (auto simp: streaming_slots is_live_def split: if_splits)
next
  case (Activate slot host app ttl token pin uuid)
  then show ?thesis using assms(2,4) prune_counts[of now m s] by (auto simp: activate_slots split: if_splits)
qed (use assms prune_counts[of now m s] in \<open>auto simp: name_slots deactivate_slots deactivateAll_slots sweep_def split: if_splits\<close>)

lemma run_counts:
  assumes "share_inv q x" and "legal on_clock (timed_share q) es x" and "isPlayerSlot s"
    and "never (\<lambda>e m. opens (snd e) s) q es x" and "never (tried q s True) q es x"
    and "is_live (slot_of (snd (fold (timed_share q) es x)) s)"
  shows "is_live (slot_of (snd x) s) \<and> av_pinFailures (slot_of (snd (fold (timed_share q) es x)) s) =
    av_pinFailures (slot_of (snd x) s) + wrong_pins q s es x"
  using assms
proof (induction es arbitrary: x)
  case (Cons e es)
  obtain t m now c where x: "x = (t, m)" "e = (now, c)" by (metis surj_pair)
  let ?m = "share_call q (now, c) m"
  have step: "timed_share q e x = (now, ?m)" using x by (simp add: timed_share_def)
  have inv: "share_inv q (timed_share q e x)" using Cons.prems(1,2) share_step by simp
  have IH: "is_live (slot_of ?m s) \<and> av_pinFailures (slot_of (snd (fold (timed_share q) es (now, ?m))) s) =
      av_pinFailures (slot_of ?m s) + wrong_pins q s es (now, ?m)"
    using Cons.IH[OF inv] Cons.prems step by simp
  have one: "is_live (slot_of m s) \<and> av_pinFailures (slot_of ?m s) =
      av_pinFailures (slot_of m s) + (if tried q s False (now, c) m then 1 else 0)"
  proof (cases "c = Restart")
    case True
    have f: "file_inv t m" "slot_inv (slot_of m s)" "t \<le> now"
      using Cons.prems(1,2,3) x by (auto simp: share_inv_def on_clock_def)
    then have "slot_of ?m s = (if is_live (slot_of m s) \<and> \<not> overdue now (slot_of m s)
        then after_restart (slot_of m s) else no_activation)"
      using restart_slots[OF f(1,2,3) Cons.prems(3)] True by simp
    then show ?thesis using IH True by (auto simp: after_restart_def split: if_splits)
  next
    case False
    then show ?thesis using call_counts[OF False, of s q now m] Cons.prems(4,5) IH x by simp
  qed
  then show ?case using IH step x by simp
qed simp

section \<open>What a share promises\<close>

text \<open>The one answer to anything wrong: it depends on the caller's bucket alone.\<close>

definition wrong_answer :: "int \<Rightarrow> string \<Rightarrow> ShareManager \<Rightarrow> PinOutcome" where
  "wrong_answer now b m = (case rateRecord now b False m of (remaining, lockout, m') \<Rightarrow>
     no_outcome\<lparr>po_remainingAttempts := remaining, po_lockoutSeconds := lockout\<rparr>)"

text \<open>C30. One invitation, one device: after any calls and restarts of a fresh installation on a clock that does not go
  back, a live invitation answers to at most one cookie, the board lists as many devices, it is bound to a host,
  and its PIN was missed fewer than ten times since it was last right.\<close>

theorem one_device_per_invitation:
  assumes "[] \<notin> range (sh_hash q)" and "legal on_clock (timed_share q) es (fresh_install q)"
    and "a = slot_of (snd (fold (timed_share q) es (fresh_install q))) s" and "isPlayerSlot s" and "is_live a"
  shows "length (av_cookieHashes a) \<le> 1 \<and> length (av_devices a) = length (av_cookieHashes a) \<and>
    av_hostUuid a \<noteq> [] \<and> 0 \<le> av_pinFailures a \<and> av_pinFailures a < 10"
proof -
  have "share_inv q (fold (timed_share q) es (fresh_install q))"
    by (rule share.inv_run[OF fresh_inv[OF assms(1)] assms(2)])
  then have "slot_inv a" using assms(3,4) by (auto simp: share_inv_def split: prod.splits)
  then show ?thesis using assms(5) by (simp add: slot_inv_def tunables)
qed

lemma run_lives:
  assumes "share_inv q x" and "legal on_clock (timed_share q) es x" and "isPlayerSlot s"
    and "never (\<lambda>e m. opens (snd e) s) q es x"
  shows "lives_on (slot_of (snd x) s) (slot_of (snd (fold (timed_share q) es x)) s)"
  using assms
proof (induction es arbitrary: x)
  case Nil
  then show ?case using lives_refl by (auto simp: share_inv_def split: prod.splits)
next
  case (Cons e es)
  obtain t m now c where x: "x = (t, m)" "e = (now, c)" by (metis surj_pair)
  let ?m = "share_call q (now, c) m"
  have step: "timed_share q e x = (now, ?m)" using x by (simp add: timed_share_def)
  have now: "t \<le> now" "0 < now" and inv: "slot_inv (slot_of m s)" "file_inv t m"
    using Cons.prems(1,2,3) x by (auto simp: share_inv_def on_clock_def)
  have "next_ok (slot_of m s) (slot_of ?m s)"
  proof (cases "c = Restart")
    case True
    then show ?thesis using restart_slots[OF inv(2,1) now(1) Cons.prems(3)] next_restart by (simp add: next_refl)
  next
    case False
    then show ?thesis using call_next[OF now(2) False] Cons.prems(4) x by simp
  qed
  then have "lives_on (slot_of m s) (slot_of ?m s)" using inv(1) by (simp add: next_ok_def)
  moreover have "share_inv q (now, ?m)" using share_step[OF Cons.prems(1), of e] Cons.prems(2) step by simp
  then have "lives_on (slot_of ?m s) (slot_of (snd (fold (timed_share q) es (now, ?m))) s)"
    using Cons.IH[of "(now, ?m)"] Cons.prems step by simp
  ultimately show ?case using step x lives_trans by simp
qed

text \<open>C31. An invitation only ever shrinks: whatever is called and however often the program restarts, until the
  owner opens the slot again it is over or still the same one, with the same link, PIN, host and app, and with a
  deadline no later than before. No call extends it and none points it at another machine.\<close>

theorem invitation_only_shrinks:
  assumes "[] \<notin> range (sh_hash q)" and "legal on_clock (timed_share q) (es @ fs) (fresh_install q)"
    and "x = fold (timed_share q) es (fresh_install q)" and "isPlayerSlot s"
    and "never (\<lambda>e m. opens (snd e) s) q fs x"
    and "a = slot_of (snd x) s" and "a' = slot_of (snd (fold (timed_share q) fs x)) s" and "is_live a'"
  shows "is_live a \<and> av_tokenHash a' = av_tokenHash a \<and> av_pinHash a' = av_pinHash a \<and>
    av_hostUuid a' = av_hostUuid a \<and> av_appId a' = av_appId a \<and>
    (av_expiresAtSecs a = 0 \<or> 0 < av_expiresAtSecs a' \<and> av_expiresAtSecs a' \<le> av_expiresAtSecs a)"
proof -
  have legal: "legal on_clock (timed_share q) es (fresh_install q)" "legal on_clock (timed_share q) fs x"
    using assms(2,3) by simp_all
  have "share_inv q x" unfolding assms(3) by (rule share.inv_run[OF fresh_inv[OF assms(1)] legal(1)])
  from run_lives[OF this legal(2) assms(4,5)] show ?thesis
    using assms(6,7,8) by (simp add: lives_on_def same_invitation_def no_later_def)
qed

text \<open>C39. A PIN cannot be guessed at length: as long as nobody gives the right PIN and the owner does not open the slot
  again, an invitation that is still live has counted every wrong PIN tried behind its link, restarts or not, and
  they are fewer than ten; the tenth ends it.\<close>

theorem ten_wrong_pins_end_it:
  assumes "[] \<notin> range (sh_hash q)" and "legal on_clock (timed_share q) (es @ fs) (fresh_install q)"
    and "x = fold (timed_share q) es (fresh_install q)" and "isPlayerSlot s"
    and "never (\<lambda>e m. opens (snd e) s) q fs x" and "never (tried q s True) q fs x"
    and "a' = slot_of (snd (fold (timed_share q) fs x)) s" and "is_live a'"
  shows "av_pinFailures a' = av_pinFailures (slot_of (snd x) s) + wrong_pins q s fs x \<and> wrong_pins q s fs x < 10"
proof -
  have legal: "legal on_clock (timed_share q) es (fresh_install q)" "legal on_clock (timed_share q) fs x"
    using assms(2,3) by simp_all
  have inv: "share_inv q x" unfolding assms(3) by (rule share.inv_run[OF fresh_inv[OF assms(1)] legal(1)])
  have counts: "is_live (slot_of (snd x) s) \<and> av_pinFailures a' = av_pinFailures (slot_of (snd x) s) + wrong_pins q s fs x"
    using run_counts[OF inv legal(2) assms(4,5,6)] assms(7,8) by simp
  have "slot_inv (slot_of (snd x) s)" using inv assms(4) by (auto simp: share_inv_def split: prod.splits)
  moreover have "slot_inv a'"
    using share.inv_run[OF inv legal(2)] assms(4,7) by (auto simp: share_inv_def split: prod.splits)
  ultimately show ?thesis using counts assms(8) by (simp add: slot_inv_def tunables)
qed

text \<open>A restart is neither an owner action nor a deadline: it keeps every invitation that has not expired as it
  was, but for the stream, which died, and the link and PIN in clear, which were never written.\<close>

theorem restart_keeps_invitations:
  assumes "[] \<notin> range (sh_hash q)" and "legal on_clock (timed_share q) (es @ [(now, Restart)]) (fresh_install q)"
    and "m = snd (fold (timed_share q) es (fresh_install q))" and "isPlayerSlot s"
  shows "slot_of (share_call q (now, Restart) m) s =
    (if is_live (slot_of m s) \<and> \<not> overdue now (slot_of m s)
     then (slot_of m s)\<lparr>av_streaming := False, av_tokenClear := [], av_pinClear := []\<rparr> else no_activation)"
proof -
  obtain t where x: "fold (timed_share q) es (fresh_install q) = (t, m)" using assms(3) by (metis surjective_pairing)
  have "legal on_clock (timed_share q) es (fresh_install q)" and now: "t \<le> now" using assms(2) x by (simp_all add: on_clock_def)
  then have "share_inv q (t, m)" using share.inv_run[OF fresh_inv[OF assms(1)]] x by metis
  then have "file_inv t m" "slot_inv (slot_of m s)" using assms(4) by (auto simp: share_inv_def)
  from restart_slots[OF this now assms(4)] show ?thesis by (simp add: after_restart_def)
qed

text \<open>What a redemption answers, in full: the rate limit first; then a wrong link and a wrong PIN alike, with what
  the caller's own bucket says; a right PIN on an invitation already bound is told so and gets no cookie, and only a
  right PIN on a free one gets the new cookie and the slot.\<close>

theorem redeem_answers:
  assumes "m' = pruneExpired now m" and "b = pin_bucket key" and "slot = slotForTokenHash (sh_hash q token) m'"
  shows "fst (redeemPin q now token pin key agent cookie m) =
    (if rateLockout now b m' > 0
     then no_outcome\<lparr>po_result := RateLimited, po_lockoutSeconds := rateLockout now b m'\<rparr>
     else case slot of
       Some s \<Rightarrow>
         if pin_matches q pin (slot_of m' s)
         then (if isBound s m'
               then no_outcome\<lparr>po_result := AlreadyBound, po_slot := s, po_remainingAttempts := 3\<rparr>
               else no_outcome\<lparr>po_result := Ok, po_slot := s, po_cookie := cookie, po_remainingAttempts := 3\<rparr>)
         else wrong_answer now b m'
     | None \<Rightarrow> wrong_answer now b m')"
proof (cases "rateLockout now b m' > 0")
  case True
  then show ?thesis using assms redeem_locked[of now key m q] by simp
next
  case False
  let ?matched = "case slot of None \<Rightarrow> False | Some s \<Rightarrow> pin_matches q pin (slot_of m' s)"
  obtain r l m1 where rec: "rateRecord now b ?matched m' = (r, l, m1)" by (metis prod_cases3)
  have m1: "slot_of m1 = slot_of m'" using rate_slots[of now b ?matched m'] unfolding rec by simp
  have wrong: "\<not> ?matched \<Longrightarrow> no_outcome\<lparr>po_remainingAttempts := r, po_lockoutSeconds := l\<rparr> = wrong_answer now b m'"
    using rec by (simp add: wrong_answer_def)
  have right: "?matched \<Longrightarrow> r = 3 \<and> l = 0" using rec by (auto simp: rateRecord_def Let_def tunables)
  have bound: "isBound s m' \<longleftrightarrow> length (av_cookieHashes (slot_of m1 s)) \<ge> kMaxCookiesPerActivation" if "slot = Some s" for s
    using token_slot[of "sh_hash q token" m' s] that assms(3) m1 by (simp add: isBound_def)
  note answer = redeem_open[OF False[unfolded assms(1,2)] refl refl rec[unfolded assms(2,3), unfolded assms(1)] refl, of agent cookie]
  show ?thesis
  proof (cases slot)
    case None
    then show ?thesis using answer False wrong assms by simp
  next
    case (Some s)
    then show ?thesis using answer False wrong right bound[OF Some] assms m1
      by (cases "pin_matches q pin (slot_of m' s)") (auto simp: pin_accepted_def Let_def no_outcome_def)
  qed
qed

definition holds_cookie :: "QtShare \<Rightarrow> string \<Rightarrow> Activation \<Rightarrow> bool" where
  "holds_cookie q cookie a \<longleftrightarrow> is_live a \<and> list_ex (\<lambda>stored. constantTimeEquals stored (sh_hash q cookie)) (av_cookieHashes a)"

lemma fold_last_slot: "fold (\<lambda>x found. if P x then x else found) xs (init :: int) =
    (case find P (rev xs) of Some x \<Rightarrow> x | None \<Rightarrow> init)"
  by (induction xs arbitrary: init) (auto simp: find_app split: option.splits)

text \<open>A cookie opens exactly the slots of live invitations that answer to it: the slot named is a player's, its
  invitation is live, not overdue and holds the cookie's digest, and the answer is that there is none exactly when
  no invitation that is left does.\<close>

theorem cookie_opens_live_slot:
  assumes "slotForCookie q now cookie m = (s, m')" and "cookie \<noteq> []"
  shows "if s = - 1 then list_all (\<lambda>s. \<not> holds_cookie q cookie (slot_of m' s)) player_slots
    else isPlayerSlot s \<and> holds_cookie q cookie (slot_of m' s) \<and> \<not> overdue now (slot_of m s) \<and> slot_of m' s = slot_of m s"
proof -
  have m': "m' = pruneExpired now m" and s: "s = (case find (\<lambda>s. holds_cookie q cookie (slot_of m' s)) (rev player_slots)
      of Some x \<Rightarrow> x | None \<Rightarrow> - 1)"
    using assms by (auto simp: slotForCookie_def Let_def fold_last_slot holds_cookie_def)
  show ?thesis
  proof (cases "find (\<lambda>s. holds_cookie q cookie (slot_of m' s)) (rev player_slots)")
    case None
    then have "s = - 1" using s by simp
    then show ?thesis using None by (auto simp: find_None_iff list_all_iff)
  next
    case (Some x)
    then have x: "isPlayerSlot x" "holds_cookie q cookie (slot_of m' x)"
      by (metis find_Some_iff nth_mem set_player_slots mem_Collect_eq set_rev)+
    moreover have "x \<noteq> - 1" using x(1) by (simp add: isPlayerSlot_def tunables)
    moreover have "s = x" using s Some by simp
    moreover have "slot_of m' x = slot_of m x" using x(2) prune_counts[of now m x] m' by (simp add: holds_cookie_def)
    moreover have "\<not> overdue now (slot_of m x)"
    proof
      assume "overdue now (slot_of m x)"
      then have "slot_of m' x = no_activation" using x(1) m' by (simp add: slot_of_prune)
      then show False using x(2) by (simp add: holds_cookie_def)
    qed
    ultimately show ?thesis by simp
  qed
qed

text \<open>Forgiveness is faster than the comment says: once ten quiet minutes have passed, the sweep of every minute
  forgives one more failure, so an entry of \<open>n\<close> failures is gone after ten minutes and \<open>n - 1\<close>, not after \<open>n\<close>
  times ten.\<close>

theorem sweep_forgives_every_minute:
  assumes "0 < n" and "0 \<le> j" and "u \<le> quiet + 600"
  shows "fold (\<lambda>k e. Option.bind e (rate_decay (quiet + 600 + 60 * k))) [j..j + int n - 1]
    (Some \<lparr>re_failures = int n, re_lastFailure = quiet, re_lockoutUntil = u\<rparr>) = None"
  using assms
proof (induction n arbitrary: j)
  case (Suc n)
  have gone: "fold (\<lambda>k e. Option.bind e (rate_decay (f k))) ks None = None" for f and ks :: "int list"
    by (induction ks) auto
  show ?case
  proof (cases "n = 0")
    case True
    then show ?thesis using Suc.prems by (simp add: upto_rec1 rate_decay_def tunables)
  next
    case False
    then show ?thesis using Suc.IH[of "j + 1"] Suc.prems
      by (simp add: upto_rec1[of j] rate_decay_def tunables algebra_simps)
  qed
qed simp

section \<open>Two invitations\<close>

definition toy :: QtShare where
  "toy = \<lparr>sh_hash = (\<lambda>x. CHR ''#'' # x), sh_simplified = id\<rparr>"

lemma toy_hash: "[] \<notin> range (sh_hash toy)"
  by (auto simp: toy_def)

definition opened :: "(int \<times> ShareCall) list" where
  "opened = [(10, Activate 2 ''host'' 1 3600 ''a'' ''1'' ''i''), (10, Activate 3 ''host'' 1 0 ''v'' ''9'' ''j''),
     (20, Redeem ''a'' ''1'' ''ip'' ''agent'' ''c'')]"

definition guessed :: "(int \<times> ShareCall) list" where
  "guessed = [(30, Redeem ''v'' ''0'' ''ip'' ''agent'' ''d''), (31, SetTtl 3 3600), (40, Restart),
     (50, Redeem ''v'' ''2'' ''ip'' ''agent'' ''d'')]"

definition shared_state :: "int \<times> ShareManager" where
  "shared_state = fold (timed_share toy) opened (fresh_install toy)"

lemma one_device_per_invitation_witness:
  "length (av_cookieHashes (slot_of (snd shared_state) 2)) = 1 \<and> length (av_devices (slot_of (snd shared_state) 2)) = 1"
proof -
  have "legal on_clock (timed_share toy) opened (fresh_install toy)" "isPlayerSlot 2" "is_live (slot_of (snd shared_state) 2)"
    "length (av_cookieHashes (slot_of (snd shared_state) 2)) = 1" by code_simp+
  then show ?thesis
    using one_device_per_invitation[OF toy_hash, of opened "slot_of (snd shared_state) 2" 2] by (simp add: shared_state_def)
qed

lemma guessed_facts:
  "legal on_clock (timed_share toy) (opened @ guessed) (fresh_install toy)" "isPlayerSlot 3"
  "never (\<lambda>e m. opens (snd e) 3) toy guessed shared_state" "never (tried toy 3 True) toy guessed shared_state"
  "is_live (slot_of (snd (fold (timed_share toy) guessed shared_state)) 3)"
  by code_simp+

lemma invitation_only_shrinks_witness:
  "av_tokenHash (slot_of (snd (fold (timed_share toy) guessed shared_state)) 3) = av_tokenHash (slot_of (snd shared_state) 3)"
  using invitation_only_shrinks[OF toy_hash guessed_facts(1) shared_state_def guessed_facts(2,3) refl refl guessed_facts(5)]
  by blast

lemma ten_wrong_pins_end_it_witness:
  "wrong_pins toy 3 guessed shared_state = 2 \<and>
   av_pinFailures (slot_of (snd (fold (timed_share toy) guessed shared_state)) 3) = 2"
proof -
  have "wrong_pins toy 3 guessed shared_state = 2" "av_pinFailures (slot_of (snd shared_state) 3) = 0" by code_simp+
  then show ?thesis
    using ten_wrong_pins_end_it[OF toy_hash guessed_facts(1) shared_state_def guessed_facts(2,3,4) refl guessed_facts(5)]
    by simp
qed

lemma restart_keeps_invitations_witness:
  "av_cookieHashes (slot_of (share_call toy (25, Restart) (snd shared_state)) 2) = [''#c''] \<and>
   slot_of (share_call toy (3610, Restart) (snd shared_state)) 2 = no_activation"
proof -
  have l: "legal on_clock (timed_share toy) (opened @ [(now, Restart)]) (fresh_install toy)" if "now \<in> {25, 3610}" for now
    using that by (elim insertE emptyE) (simp only:, code_simp)+
  have p: "isPlayerSlot 2" by code_simp
  have "is_live (slot_of (snd shared_state) 2) \<and> \<not> overdue 25 (slot_of (snd shared_state) 2)"
    "overdue 3610 (slot_of (snd shared_state) 2)" "av_cookieHashes (slot_of (snd shared_state) 2) = [''#c'']" by code_simp+
  then show ?thesis
    using restart_keeps_invitations[OF toy_hash l _ p, of 25 "snd shared_state"]
      restart_keeps_invitations[OF toy_hash l _ p, of 3610 "snd shared_state"]
    by (simp add: shared_state_def)
qed

lemma redeem_answers_witness:
  "po_result (fst (redeemPin toy 30 ''a'' ''1'' ''ip'' ''agent'' ''d'' (snd shared_state))) = AlreadyBound \<and>
   po_cookie (fst (redeemPin toy 30 ''a'' ''1'' ''ip'' ''agent'' ''d'' (snd shared_state))) = []"
proof -
  let ?m = "pruneExpired 30 (snd shared_state)"
  have "\<not> rateLockout 30 (pin_bucket ''ip'') ?m > 0" "slotForTokenHash (sh_hash toy ''a'') ?m = Some 2"
    "pin_matches toy ''1'' (slot_of ?m 2)" "isBound 2 ?m" by code_simp+
  then show ?thesis
    using redeem_answers[OF refl refl refl, where now = 30 and key = "''ip''" and m = "snd shared_state" and q = toy
        and token = "''a''" and pin = "''1''" and agent = "''agent''" and cookie = "''d''"]
    by (simp add: no_outcome_def)
qed

lemma cookie_opens_live_slot_witness:
  "fst (slotForCookie toy 30 ''c'' (snd shared_state)) = 2 \<and> \<not> overdue 30 (slot_of (snd shared_state) 2)"
proof -
  have "fst (slotForCookie toy 30 ''c'' (snd shared_state)) = 2" by code_simp
  then show ?thesis
    using cookie_opens_live_slot[of toy 30 "''c''" "snd shared_state" _ "snd (slotForCookie toy 30 ''c'' (snd shared_state))",
        OF prod.collapse[symmetric]] by simp
qed

lemma sweep_forgives_every_minute_witness:
  "fold (\<lambda>k e. Option.bind e (rate_decay (600 + 60 * k))) [0..2]
    (Some \<lparr>re_failures = 3, re_lastFailure = 0, re_lockoutUntil = 30\<rparr>) = None"
  using sweep_forgives_every_minute[of 3 0 30 0] by simp

text \<open>The ladder can be stepped off: whoever holds one link and its PIN resets the caller's bucket with them, though
  the invitation is bound and gives nothing, and goes on guessing another link's PIN in the same second, past the
  three misses that lock a caller out.\<close>

theorem right_pin_resets_the_ladder:
  "av_pinFailures (slot_of (snd (fold (timed_share toy)
     [(30, Redeem ''v'' ''0'' ''ip'' ''agent'' ''d''), (30, Redeem ''v'' ''1'' ''ip'' ''agent'' ''d''),
      (30, Redeem ''a'' ''1'' ''ip'' ''agent'' ''d''), (30, Redeem ''v'' ''2'' ''ip'' ''agent'' ''d''),
      (30, Redeem ''v'' ''3'' ''ip'' ''agent'' ''d'')] shared_state)) 3) = 4 \<and>
   av_pinFailures (slot_of (snd (fold (timed_share toy)
     [(30, Redeem ''v'' ''0'' ''ip'' ''agent'' ''d''), (30, Redeem ''v'' ''1'' ''ip'' ''agent'' ''d''),
      (30, Redeem ''v'' ''2'' ''ip'' ''agent'' ''d''), (30, Redeem ''v'' ''3'' ''ip'' ''agent'' ''d'')] shared_state)) 3) = 3"
  by code_simp

end
