(* ===== verification/Share_Routes.thy ===== *)
theory Share_Routes
  imports Http_Server Share_Manager
begin

text \<open>
  The routes of session sharing (\<open>src/server/routes/ShareRoutes.h\<close> and \<open>.cpp\<close>), and the gate of a player's WebSocket that
  \<open>main.cpp\<close> installs. A handler takes the invitations to the invitations after it, what it asks of the streams and
  of the guard, and its answer. The callbacks the program hands to the routes are the record \<open>ShareRoutesDeps\<close>; the fields
  \<open>QJsonDocument\<close> reads in the body are \<open>ShareBody\<close>, \<open>None\<close> where the code gives a default; the token, PIN, identifier
  and cookie that are drawn are \<open>ShareDrawn\<close>.
\<close>

section \<open>What a handler is given\<close>

record ShareBody =
  sb_host_uuid :: string
  sb_app_id :: "int option"
  sb_ttl_secs :: "int option"
  sb_permissions :: Permissions
  sb_name :: string
  sb_token :: string
  sb_pin :: string
  sb_transport_index :: "int option"
  sb_height :: "int option"
  sb_aspect :: string

record ShareDrawn =
  sd_token :: string
  sd_pin :: string
  sd_uuid :: string
  sd_cookie :: string

record ShareRoutesDeps =
  startPlayerStream :: bool
  workerRuns :: "int \<Rightarrow> bool"
  startDetaches :: "int \<Rightarrow> bool"
  joinTarget :: "int \<Rightarrow> string \<times> bool"
  currentOwnerContext :: "string \<times> int"
  hostAppExists :: "(string \<Rightarrow> int \<Rightarrow> bool) option"
  machineName :: string
  playerLink :: "string \<Rightarrow> string"
  remoteReachable :: bool
  statsReporting :: bool

text \<open>What a handler asks of others: a stream to start (slot, height, aspect, permissions, host name, rung of the transport
  chain), a stream to stop (slot, whether the player is told), a failure to count against an address.\<close>

datatype ShareEffect =
    StartStream int int string Permissions string int
  | StopStream int bool
  | CountFailure string

section \<open>What a handler answers\<close>

definition stateName :: "ShareState \<Rightarrow> string" where
  "stateName s = (case s of Off \<Rightarrow> ''off'' | Shared \<Rightarrow> ''shared'' | Binded \<Rightarrow> ''binded'')"

record SlotJson =
  sl_slot :: int
  sl_state :: string
  sl_name :: string
  sl_permissions :: Permissions
  sl_access_level :: string
  sl_streaming :: bool
  sl_ttl_secs :: int
  sl_expires_at :: "int option"
  sl_devices :: "BoundDevice list"
  sl_last_refused :: "(int \<times> string) option"

definition slotJson :: "SlotStatus \<Rightarrow> SlotJson" where
  "slotJson st =
     \<lparr>sl_slot = st_slot st, sl_state = stateName (st_state st), sl_name = st_name st, sl_permissions = st_permissions st,
      sl_access_level = accessLevel (st_permissions st), sl_streaming = st_streaming st, sl_ttl_secs = st_ttlSecs st,
      sl_expires_at = (if st_state st \<noteq> Off \<and> st_ttlSecs st = 0 then None else Some (st_expiresAt st)),
      sl_devices = st_devices st,
      sl_last_refused = (if st_lastRefusedAt st > 0 then Some (st_lastRefusedAt st, st_lastRefusedAgent st) else None)\<rparr>"

record PlayerInfo =
  pi_machine_name :: string
  pi_state :: string
  pi_access_level :: string
  pi_permissions :: Permissions
  pi_expires_at :: int
  pi_app_name :: string
  pi_cold_start :: bool
  pi_stats_reporting :: bool

text \<open>A link is its address and whether only this network can open it.\<close>

datatype ShareAnswer =
    ShareError int string
  | Board "SlotJson list" nat bool
  | Row SlotJson
  | Opened SlotJson "string \<times> bool" string
  | Credentials "string \<times> bool" string
  | NoCredentials
  | PinTaken string
  | PinBound
  | PinLimited int
  | PinWrong int int
  | DeadLink int
  | NeedsPin
  | Info PlayerInfo
  | InProgress
  | Starting
  | Left

section \<open>Addresses\<close>

definition dotted :: "32 word \<Rightarrow> string" where
  "dotted ip = to_string (uint (drop_bit 24 ip AND 255)) @ ''.'' @ to_string (uint (drop_bit 16 ip AND 255)) @ ''.'' @
     to_string (uint (drop_bit 8 ip AND 255)) @ ''.'' @ to_string (uint (ip AND 255))"

definition lanIPv4 :: "Server \<Rightarrow> string" where
  "lanIPv4 sv =
     (case find (\<lambda>addr. \<not> qt_isLoopback (qw_net (sv_qt sv)) addr \<and> (case addr of IPv4 ip \<Rightarrow> True | _ \<Rightarrow> False) \<and>
                        \<not> qw_isLinkLocal (sv_web sv) addr) (sv_localAddresses sv) of
        Some (IPv4 ip) \<Rightarrow> dotted ip | _ \<Rightarrow> ''127.0.0.1'')"

definition fillLink :: "Server \<Rightarrow> ShareRoutesDeps \<Rightarrow> string \<Rightarrow> string \<times> bool" where
  "fillLink sv deps token =
     (let remote = playerLink deps token; port = sv_ActiveHttpsPort sv;
          origin = ''https://'' @ lanIPv4 sv @ (if port = 443 then [] else '':'' @ to_string port)
      in if remote \<noteq> [] then (remote, False) else (origin @ ''/p/'' @ token, True))"

definition kPlayerCookie :: string where
  "kPlayerCookie = ''mw_player''"

definition slotParam :: "QtHttp \<Rightarrow> params \<Rightarrow> int" where
  "slotParam q ps =
     (case qh_toInt q (case ps ''n'' of None \<Rightarrow> [] | Some n \<Rightarrow> n) of
        Some slot \<Rightarrow> if isPlayerSlot slot then slot else - 1 | None \<Rightarrow> - 1)"

section \<open>The owner's side\<close>

type_synonym handled = "ShareManager \<times> ShareEffect list \<times> ShareAnswer"

definition route_share_status :: "Server \<Rightarrow> ShareRoutesDeps \<Rightarrow> ShareManager \<Rightarrow> handled" where
  "route_share_status sv deps m =
     (case Share_Manager.status (sv_now sv) m of (rows, m) \<Rightarrow>
      case streamingCount (sv_now sv) m of (n, m) \<Rightarrow> (m, [], Board (map slotJson rows) n (remoteReachable deps)))"

definition row_after :: "Server \<Rightarrow> int \<Rightarrow> ShareManager \<Rightarrow> handled" where
  "row_after sv slot m =
     (case Share_Manager.status (sv_now sv) m of (rows, m) \<Rightarrow> (m, [], Row (slotJson (rows ! nat (slot - kFirstSlot)))))"

definition unknown_slot :: "ShareManager \<Rightarrow> handled" where
  "unknown_slot m = (m, [], ShareError 404 ''Unknown player slot'')"

text \<open>Where a new invitation leads: to what the owner streams, or else to the host and app of the body.\<close>

definition invited_to :: "ShareRoutesDeps \<Rightarrow> ShareBody \<Rightarrow> (int \<times> string) + (string \<times> int)" where
  "invited_to deps body =
     (let (hostUuid, appId) = currentOwnerContext deps
      in if hostUuid \<noteq> [] then Inr (hostUuid, appId)
         else let hostUuid = sb_host_uuid body;
                  appId = (case sb_app_id body of None \<Rightarrow> - 1 | Some a \<Rightarrow> a)
              in if hostUuid = [] then Inl (400, ''Pick a host to share'')
                 else if (case hostAppExists deps of None \<Rightarrow> False | Some f \<Rightarrow> \<not> f hostUuid appId)
                 then Inl (404, ''Unknown host or app'')
                 else Inr (hostUuid, appId))"

definition route_activate :: "QtShare \<Rightarrow> Server \<Rightarrow> ShareRoutesDeps \<Rightarrow> int \<Rightarrow> ShareBody \<Rightarrow> ShareDrawn \<Rightarrow> ShareManager \<Rightarrow> handled" where
  "route_activate q sv deps slot body dr m =
     (if slot < 0 then unknown_slot m
      else case invited_to deps body of
             Inl (code, why) \<Rightarrow> (m, [], ShareError code why)
           | Inr (hostUuid, appId) \<Rightarrow>
               (let ttl = (case sb_ttl_secs body of None \<Rightarrow> kTtlSecs | Some t \<Rightarrow> t)
                in if \<not> isValidTtl ttl then (m, [], ShareError 400 ''Unsupported lifetime'')
                   else case activate q (sv_now sv) slot hostUuid appId ttl (sd_token dr) (sd_pin dr) (sd_uuid dr) m of
                          (None, m) \<Rightarrow> (m, [], ShareError 500 ''Could not share this slot'')
                        | (Some (token, pin), m) \<Rightarrow>
                            (m, [], Opened (slotJson (slot_status m slot)) (fillLink sv deps token) pin)))"

definition route_credentials :: "Server \<Rightarrow> ShareRoutesDeps \<Rightarrow> int \<Rightarrow> ShareManager \<Rightarrow> handled" where
  "route_credentials sv deps slot m =
     (if slot < 0 then unknown_slot m
      else case secrets (sv_now sv) slot m of
             (None, m) \<Rightarrow> (m, [], NoCredentials)
           | (Some (token, pin), m) \<Rightarrow> (m, [], Credentials (fillLink sv deps token) pin))"

definition route_permissions :: "Server \<Rightarrow> int \<Rightarrow> ShareBody \<Rightarrow> ShareManager \<Rightarrow> handled" where
  "route_permissions sv slot body m =
     (if slot < 0 then unknown_slot m
      else case setPermissions (sv_now sv) slot (sb_permissions body) m of
             (done, m) \<Rightarrow> if \<not> done then unknown_slot m else row_after sv slot m)"

definition route_ttl :: "Server \<Rightarrow> int \<Rightarrow> ShareBody \<Rightarrow> ShareManager \<Rightarrow> handled" where
  "route_ttl sv slot body m =
     (if slot < 0 then unknown_slot m
      else case setTtl (sv_now sv) slot (case sb_ttl_secs body of None \<Rightarrow> - 1 | Some t \<Rightarrow> t) m of
             (done, m) \<Rightarrow> if \<not> done then (m, [], ShareError 400 ''Unsupported lifetime'') else row_after sv slot m)"

definition route_name :: "QtShare \<Rightarrow> Server \<Rightarrow> int \<Rightarrow> ShareBody \<Rightarrow> ShareManager \<Rightarrow> handled" where
  "route_name q sv slot body m =
     (if slot < 0 then unknown_slot m
      else case setName q slot (sb_name body) m of
             (done, m) \<Rightarrow> if \<not> done then (m, [], ShareError 400 ''Could not rename this slot'') else row_after sv slot m)"

text \<open>What \<open>stopPlayerStream\<close> of \<open>main.cpp\<close> does to the invitations, and \<open>startPlayerStream\<close> before it answers: a worker that is
  detached no longer tells of its end, so the slot is marked here. What the worker it starts tells later (streaming,
  ended) is a \<open>setStreaming\<close> of its own.\<close>

definition stopped_stream :: "ShareRoutesDeps \<Rightarrow> int \<Rightarrow> ShareManager \<Rightarrow> ShareManager" where
  "stopped_stream deps slot m = (if workerRuns deps slot then setStreaming slot False m else m)"

definition started_stream :: "ShareRoutesDeps \<Rightarrow> int \<Rightarrow> ShareManager \<Rightarrow> ShareManager" where
  "started_stream deps slot m = (if startDetaches deps slot then setStreaming slot False m else m)"

text \<open>The stream is stopped before the invitation goes.\<close>

definition route_deactivate :: "Server \<Rightarrow> ShareRoutesDeps \<Rightarrow> int \<Rightarrow> ShareManager \<Rightarrow> handled" where
  "route_deactivate sv deps slot m =
     (if slot < 0 then unknown_slot m
      else case row_after sv slot (snd (deactivate slot OwnerToggle (stopped_stream deps slot m))) of
             (m, es, a) \<Rightarrow> (m, StopStream slot True # es, a))"

section \<open>The player's side\<close>

definition playerCookie :: "string \<Rightarrow> int \<Rightarrow> string" where
  "playerCookie cookie ttl =
     kPlayerCookie @ ''='' @ cookie @ ''; HttpOnly; Secure; Path=/; SameSite=Strict; Max-Age='' @
     to_string (if ttl > 0 then ttl else 400 * 24 * 3600)"

definition route_player_pin :: "QtShare \<Rightarrow> Server \<Rightarrow> Incoming \<Rightarrow> ShareBody \<Rightarrow> ShareDrawn \<Rightarrow> ShareManager \<Rightarrow> handled" where
  "route_player_pin q sv req body dr m =
     (let rateKey = rateLimitKey (sv_qt sv) (attemptAddress (sv_qt sv) (in_clientAddress req) (pq_headers req))
      in case redeemPin q (sv_now sv) (sb_token body) (sb_pin body) rateKey (header (pq_headers req) ''user-agent'') (sd_cookie dr) m of
           (outcome, m) \<Rightarrow>
             (case po_result outcome of
                PinResult.Ok \<Rightarrow> (m, [], PinTaken (playerCookie (po_cookie outcome) (slot_ttlSecs (po_slot outcome) m)))
              | PinResult.AlreadyBound \<Rightarrow> (m, [], PinBound)
              | PinResult.RateLimited \<Rightarrow> (m, [CountFailure (in_clientAddress req)], PinLimited (po_lockoutSeconds outcome))
              | PinResult.Invalid \<Rightarrow> (m, [CountFailure (in_clientAddress req)],
                  PinWrong (po_remainingAttempts outcome) (po_lockoutSeconds outcome))))"

definition player_cookie :: "headers \<Rightarrow> string" where
  "player_cookie hs = cookieFromRequest hs kPlayerCookie"

definition route_player_info :: "QtShare \<Rightarrow> Server \<Rightarrow> ShareRoutesDeps \<Rightarrow> Incoming \<Rightarrow> ShareManager \<Rightarrow> handled" where
  "route_player_info q sv deps req m =
     (case slotForToken q (sv_now sv) (case pq_query req ''token'' of None \<Rightarrow> [] | Some t \<Rightarrow> t) m of (slot, m) \<Rightarrow>
        if slot < 0 then (m, [], DeadLink 404)
        else case slotForCookie q (sv_now sv) (player_cookie (pq_headers req)) m of (own, m) \<Rightarrow>
          if own \<noteq> slot then (m, [], if isBound slot m then DeadLink 404 else NeedsPin)
          else case share_state (sv_now sv) slot m of (st, m) \<Rightarrow>
            (m, [], Info \<lparr>pi_machine_name = machineName deps, pi_state = stateName st,
               pi_access_level = accessLevel (slot_permissions slot m), pi_permissions = slot_permissions slot m,
               pi_expires_at = expiresAt slot m, pi_app_name = fst (joinTarget deps slot),
               pi_cold_start = snd (joinTarget deps slot), pi_stats_reporting = statsReporting deps\<rparr>))"

definition join_height :: "ShareBody \<Rightarrow> int" where
  "join_height body =
     (let requested = (case sb_height body of None \<Rightarrow> 1080 | Some h \<Rightarrow> h)
      in if requested = 720 \<or> requested = 1440 then requested else 1080)"

definition route_player_join :: "QtShare \<Rightarrow> Server \<Rightarrow> ShareRoutesDeps \<Rightarrow> Incoming \<Rightarrow> ShareBody \<Rightarrow> ShareManager \<Rightarrow> handled" where
  "route_player_join q sv deps req body m =
     (let now = sv_now sv; refused = (\<lambda>m. (m, [CountFailure (in_clientAddress req)], DeadLink 403))
      in case slotForToken q now (sb_token body) m of (slot, m) \<Rightarrow>
         if slot < 0 then refused m
         else case slotForCookie q now (player_cookie (pq_headers req)) m of (own, m) \<Rightarrow>
           if own \<noteq> slot then refused m
           else case share_state now slot m of (st, m) \<Rightarrow>
             if st = Off then refused m
             else let transportIndex = max 0 (case sb_transport_index body of None \<Rightarrow> 0 | Some i \<Rightarrow> i)
                  in if isStreaming slot m \<and> transportIndex = 0 then (m, [], InProgress)
                     else if \<not> startPlayerStream deps then (m, [], ShareError 503 ''Streaming unavailable'')
                     else (started_stream deps slot m, [StartStream slot (join_height body) (sb_aspect body) (slot_permissions slot m)
                                 (takeWhile (\<lambda>c. c \<noteq> CHR '':'') (header (pq_headers req) ''host'')) transportIndex], Starting))"

definition route_player_leave :: "QtShare \<Rightarrow> Server \<Rightarrow> ShareRoutesDeps \<Rightarrow> Incoming \<Rightarrow> ShareManager \<Rightarrow> handled" where
  "route_player_leave q sv deps req m =
     (case slotForCookie q (sv_now sv) (player_cookie (pq_headers req)) m of (slot, m) \<Rightarrow>
        if slot < 0 then (m, [], ShareError 403 ''Forbidden'') else (stopped_stream deps slot m, [StopStream slot False], Left))"

section \<open>The routes\<close>

datatype ShareRoute =
    SStatus | SActivate | SCredentials | SPermissions | STtl | SName | SDeactivate | PPin | PInfo | PJoin | PLeave

definition share_routes :: "(Verb \<times> string \<times> ShareRoute) list" where
  "share_routes =
     [(Get, ''/api/share/status'', SStatus), (Post, ''/api/share/slots/:n/activate'', SActivate),
      (Post, ''/api/share/slots/:n/credentials'', SCredentials), (Post, ''/api/share/slots/:n/permissions'', SPermissions),
      (Post, ''/api/share/slots/:n/ttl'', STtl), (Post, ''/api/share/slots/:n/name'', SName),
      (Post, ''/api/share/slots/:n/deactivate'', SDeactivate), (Post, ''/api/share/player/pin'', PPin),
      (Get, ''/api/share/player/info'', PInfo), (Post, ''/api/share/player/join'', PJoin),
      (Post, ''/api/share/player/leave'', PLeave)]"

fun share_route :: "QtShare \<Rightarrow> ShareRoute \<Rightarrow> Server \<Rightarrow> ShareRoutesDeps \<Rightarrow> Incoming \<Rightarrow> params \<Rightarrow> ShareBody \<Rightarrow> ShareDrawn \<Rightarrow>
    ShareManager \<Rightarrow> handled" where
  "share_route q SStatus sv deps req ps body dr m = route_share_status sv deps m"
| "share_route q SActivate sv deps req ps body dr m = route_activate q sv deps (slotParam (sv_http sv) ps) body dr m"
| "share_route q SCredentials sv deps req ps body dr m = route_credentials sv deps (slotParam (sv_http sv) ps) m"
| "share_route q SPermissions sv deps req ps body dr m = route_permissions sv (slotParam (sv_http sv) ps) body m"
| "share_route q STtl sv deps req ps body dr m = route_ttl sv (slotParam (sv_http sv) ps) body m"
| "share_route q SName sv deps req ps body dr m = route_name q sv (slotParam (sv_http sv) ps) body m"
| "share_route q SDeactivate sv deps req ps body dr m = route_deactivate sv deps (slotParam (sv_http sv) ps) m"
| "share_route q PPin sv deps req ps body dr m = route_player_pin q sv req body dr m"
| "share_route q PInfo sv deps req ps body dr m = route_player_info q sv deps req m"
| "share_route q PJoin sv deps req ps body dr m = route_player_join q sv deps req body m"
| "share_route q PLeave sv deps req ps body dr m = route_player_leave q sv deps req m"

text \<open>The gate of a player's WebSocket, as \<open>main.cpp\<close> installs it.\<close>

definition player_authorizer :: "QtShare \<Rightarrow> int \<Rightarrow> ShareManager \<Rightarrow> Incoming \<Rightarrow> int \<Rightarrow> bool" where
  "player_authorizer q now m req slot = (fst (slotForCookie q now (player_cookie (pq_headers req)) m) = slot)"

end
