(* ===== verification/Share_Promises.thy ===== *)
theory Share_Promises
  imports Share_Routes
begin

text \<open>
  Session sharing from the wire to the invitations: a request through \<open>serveRequest\<close>, the router and the handlers of
  \<open>Share_Routes\<close> is a sequence of the calls \<open>Share_Manager\<close> is proved for, and what a guest, a stranger and a guest who
  was put out can and cannot do. The router here holds the sharing routes; those of other files are not in it.
\<close>

section \<open>The calls a route makes\<close>

text \<open>The mark that a slot no longer streams is made as the owner ends its invitation, and as a guest joins or leaves: on the slot
  his cookie is of.\<close>

fun makes :: "QtShare \<Rightarrow> headers \<Rightarrow> ShareManager \<Rightarrow> ShareRoute \<Rightarrow> ShareCall \<Rightarrow> bool" where
  "makes q hs m r (Activate slot host app ttl token pin uuid) \<longleftrightarrow> r = SActivate"
| "makes q hs m r (SetPermissions slot p) \<longleftrightarrow> r = SPermissions"
| "makes q hs m r (SetTtl slot ttl) \<longleftrightarrow> r = STtl"
| "makes q hs m r (SetName slot name) \<longleftrightarrow> r = SName"
| "makes q hs m r (Deactivate slot why) \<longleftrightarrow> r = SDeactivate"
| "makes q hs m r (Redeem token pin key agent cookie) \<longleftrightarrow> r = PPin"
| "makes q hs m r (SetStreaming slot b) \<longleftrightarrow> \<not> b \<and>
     (r = SDeactivate \<or> (r = PJoin \<or> r = PLeave) \<and> holds_cookie q (player_cookie hs) (slot_of m slot))"
| "makes q hs m r Ask \<longleftrightarrow> True"
| "makes q hs m r c \<longleftrightarrow> False"

text \<open>What a stranger's request may do: ask, try a PIN, and mark the slot he holds the cookie of as not streaming.\<close>

fun guest_call :: "QtShare \<Rightarrow> headers \<Rightarrow> ShareManager \<Rightarrow> ShareCall \<Rightarrow> bool" where
  "guest_call q hs m (Redeem token pin key agent cookie) \<longleftrightarrow> True"
| "guest_call q hs m (SetStreaming slot b) \<longleftrightarrow> \<not> b \<and> holds_cookie q (player_cookie hs) (slot_of m slot)"
| "guest_call q hs m Ask \<longleftrightarrow> True"
| "guest_call q hs m c \<longleftrightarrow> False"

definition shares :: "QtShare \<Rightarrow> int \<Rightarrow> ShareCall list \<Rightarrow> ShareManager \<Rightarrow> ShareManager" where
  "shares q now cs m = fold (\<lambda>c. share_call q (now, c)) cs m"

lemma shares_simps [simp]: "shares q now [] m = m" "shares q now (c # cs) m = shares q now cs (share_call q (now, c) m)"
  by (simp_all add: shares_def)

lemma asks [simp]:
  "snd (Share_Manager.status now m) = pruneExpired now m" "snd (streamingCount now m) = pruneExpired now m"
  "snd (secrets now slot m) = pruneExpired now m" "snd (slotForToken q now token m) = pruneExpired now m"
  "snd (share_state now slot m) = pruneExpired now m"
  "snd (slotForCookie q now cookie m) = (if cookie = [] then m else pruneExpired now m)"
  by (simp_all add: status_def streamingCount_def secrets_def slotForToken_def share_state_def slotForCookie_def Let_def)

lemma fst_row [simp]: "fst (row_after sv slot m) = pruneExpired (sv_now sv) m"
  by (simp add: row_after_def split_def)

text \<open>The slot a cookie or a link opens.\<close>

lemma cookie_slot:
  assumes "fst (slotForCookie q now cookie m) = s" and "s \<noteq> - 1"
  shows "isPlayerSlot s \<and> holds_cookie q cookie (slot_of m s) \<and> \<not> overdue now (slot_of m s)"
proof -
  let ?m = "pruneExpired now m"
  have s: "s = (case find (\<lambda>s. holds_cookie q cookie (slot_of ?m s)) (rev player_slots) of Some x \<Rightarrow> x | None \<Rightarrow> - 1)"
    using assms by (auto simp: slotForCookie_def Let_def fold_last_slot holds_cookie_def split: if_splits)
  then have "find (\<lambda>s. holds_cookie q cookie (slot_of ?m s)) (rev player_slots) = Some s"
    using assms(2) by (auto split: option.splits)
  then have x: "isPlayerSlot s" "holds_cookie q cookie (slot_of ?m s)" by (auto dest!: find_in)
  then show ?thesis by (auto simp: slot_of_prune holds_cookie_def split: if_splits)
qed

text \<open>A handler is a list of the calls its route makes.\<close>

lemma prune_again [simp]: "pruneExpired now (pruneExpired now m) = pruneExpired now m"
proof -
  have "filter (\<lambda>slot. overdue now (slot_of (pruneExpired now m) slot)) player_slots = []"
    by (auto simp: filter_empty_conv slot_of_prune overdue_def)
  then show ?thesis by (subst pruneExpired_def) (simp add: Let_def)
qed

lemma route_makes:
  "\<exists>cs. fst (share_route q route sv deps req ps body dr m) = shares q (sv_now sv) cs m \<and>
     list_all (makes q (pq_headers req) m route) cs"
proof -
  have none: "fst (share_route q route sv deps req ps body dr m) = m \<Longrightarrow> ?thesis" by (intro exI[of _ "[]"]) simp
  have two: ?thesis if "fst (share_route q route sv deps req ps body dr m) \<in> {m, shares q (sv_now sv) [c] m, shares q (sv_now sv) [c, Ask] m}"
    and "makes q (pq_headers req) m route c" for c
    using that(1) by (elim insertE emptyE) (rule exI[of _ "[]"] exI[of _ "[c]"] exI[of _ "[c, Ask]"], simp add: that(2))+
  have ask: "fst (share_route q route sv deps req ps body dr m) = pruneExpired (sv_now sv) m \<Longrightarrow> ?thesis" 
    by (intro exI[of _ "[Ask]"]) simp
  show ?thesis
  proof (cases route)
    case SStatus
    then show ?thesis by (intro ask) (simp add: route_share_status_def split_def)
  next
    case SCredentials
    then show ?thesis using none ask by (auto simp: route_credentials_def unknown_slot_def split_def split: option.split if_splits)
  next
    case PInfo
    then show ?thesis by (intro ask) (auto simp: route_player_info_def Let_def split_def)
  next
    case PJoin
    let ?p = "pruneExpired (sv_now sv) m" and ?cookie = "player_cookie (pq_headers req)"
    let ?slot = "fst (slotForToken q (sv_now sv) (sb_token body) m)"
    have "fst (route_player_join q sv deps req body m) = ?p \<or> fst (route_player_join q sv deps req body m) = setStreaming ?slot False ?p \<and>
        0 \<le> ?slot \<and> fst (slotForCookie q (sv_now sv) ?cookie ?p) = ?slot"
      by (auto simp: route_player_join_def started_stream_def Let_def split_def)
    then show ?thesis
    proof
      assume "fst (route_player_join q sv deps req body m) = ?p"
      then show ?thesis by (intro ask) (simp add: PJoin)
    next
      assume j: "fst (route_player_join q sv deps req body m) = setStreaming ?slot False ?p \<and>
        0 \<le> ?slot \<and> fst (slotForCookie q (sv_now sv) ?cookie ?p) = ?slot"
      then have "holds_cookie q ?cookie (slot_of ?p ?slot)" using cookie_slot[of q "sv_now sv" ?cookie ?p ?slot] by auto
      then have "holds_cookie q ?cookie (slot_of m ?slot)" by (auto simp: slot_of_prune holds_cookie_def split: if_splits)
      then show ?thesis using j by (intro exI[of _ "[Ask, SetStreaming ?slot False]"]) (simp add: PJoin)
    qed
  next
    case PLeave
    let ?p = "pruneExpired (sv_now sv) m" and ?cookie = "player_cookie (pq_headers req)"
    let ?slot = "fst (slotForCookie q (sv_now sv) ?cookie m)"
    have "fst (route_player_leave q sv deps req m) \<in> {m, ?p} \<or> fst (route_player_leave q sv deps req m) \<in> {setStreaming ?slot False m, setStreaming ?slot False ?p} \<and>
        0 \<le> ?slot"
      by (auto simp: route_player_leave_def stopped_stream_def Let_def split_def split: if_splits)
    then show ?thesis
    proof
      assume "fst (route_player_leave q sv deps req m) \<in> {m, ?p}"
      then show ?thesis using none ask by (auto simp: PLeave)
    next
      assume j: "fst (route_player_leave q sv deps req m) \<in> {setStreaming ?slot False m, setStreaming ?slot False ?p} \<and> 0 \<le> ?slot"
      then have "holds_cookie q ?cookie (slot_of m ?slot)" using cookie_slot[of q "sv_now sv" ?cookie m ?slot] by auto
      then have h: "makes q (pq_headers req) m PLeave (SetStreaming ?slot False)" by simp
      from j show ?thesis
      proof (elim conjE insertE emptyE)
        assume "fst (route_player_leave q sv deps req m) = setStreaming ?slot False m"
        then show ?thesis using h by (intro exI[of _ "[SetStreaming ?slot False]"]) (simp add: PLeave)
      next
        assume "fst (route_player_leave q sv deps req m) = setStreaming ?slot False ?p"
        then show ?thesis using h by (intro exI[of _ "[Ask, SetStreaming ?slot False]"]) (simp add: PLeave)
      qed
    qed
  next
    case PPin
    show ?thesis
      by (rule exI[of _ "[Redeem (sb_token body) (sb_pin body)
        (rateLimitKey (sv_qt sv) (attemptAddress (sv_qt sv) (in_clientAddress req) (pq_headers req)))
        (header (pq_headers req) ''user-agent'') (sd_cookie dr)]"])
        (simp add: PPin route_player_pin_def Let_def split_def split: PinResult.split)
  next
    case SActivate
    show ?thesis
    proof (cases "invited_to deps body")
      case (Inr x)
      let ?ttl = "case sb_ttl_secs body of None \<Rightarrow> kTtlSecs | Some t \<Rightarrow> t"
      let ?slot = "slotParam (sv_http sv) ps"
      have "fst (share_route q route sv deps req ps body dr m) = m \<or> fst (share_route q route sv deps req ps body dr m) =
        snd (activate q (sv_now sv) ?slot (fst x) (snd x) ?ttl (sd_token dr) (sd_pin dr) (sd_uuid dr) m)"
        by (auto simp: SActivate route_activate_def unknown_slot_def Inr Let_def split_def split: option.split)
      then show ?thesis using none
        by (elim disjE) (auto intro!: exI[of _ "[Activate ?slot (fst x) (snd x) ?ttl (sd_token dr) (sd_pin dr) (sd_uuid dr)]"] simp: SActivate)
    next
      case (Inl x)
      then show ?thesis by (intro none) (auto simp: SActivate route_activate_def unknown_slot_def split_def)
    qed
  next
    case SPermissions
    let ?c = "SetPermissions (slotParam (sv_http sv) ps) (sb_permissions body)"
    have "fst (share_route q route sv deps req ps body dr m) \<in> {m, shares q (sv_now sv) [?c] m, shares q (sv_now sv) [?c, Ask] m}"
      by (auto simp: SPermissions route_permissions_def unknown_slot_def split_def)
    then show ?thesis by (rule two) (simp add: SPermissions)
  next
    case STtl
    let ?c = "SetTtl (slotParam (sv_http sv) ps) (case sb_ttl_secs body of None \<Rightarrow> - 1 | Some t \<Rightarrow> t)"
    have "fst (share_route q route sv deps req ps body dr m) \<in> {m, shares q (sv_now sv) [?c] m, shares q (sv_now sv) [?c, Ask] m}"
      by (auto simp: STtl route_ttl_def unknown_slot_def split_def)
    then show ?thesis by (rule two) (simp add: STtl)
  next
    case SName
    let ?c = "SetName (slotParam (sv_http sv) ps) (sb_name body)"
    have "fst (share_route q route sv deps req ps body dr m) \<in> {m, shares q (sv_now sv) [?c] m, shares q (sv_now sv) [?c, Ask] m}"
      by (auto simp: SName route_name_def unknown_slot_def split_def)
    then show ?thesis by (rule two) (simp add: SName)
  next
    case SDeactivate
    let ?slot = "slotParam (sv_http sv) ps"
    let ?stop = "if workerRuns deps ?slot then [SetStreaming ?slot False] else []"
    have "fst (share_route q route sv deps req ps body dr m) = m \<or>
        fst (share_route q route sv deps req ps body dr m) = shares q (sv_now sv) (?stop @ [Deactivate ?slot OwnerToggle, Ask]) m"
      by (auto simp: SDeactivate route_deactivate_def stopped_stream_def unknown_slot_def split_def)
    then show ?thesis
      by (elim disjE) (use none in blast, intro exI[of _ "?stop @ [Deactivate ?slot OwnerToggle, Ask]"], simp add: SDeactivate)
  qed
qed


section \<open>What a stranger reaches\<close>

lemma segments_below: "prefix (s @ ''/'') p \<Longrightarrow>
    take (length (split_skip CHR ''/'' s)) (split_skip CHR ''/'' p) = split_skip CHR ''/'' s"
  by (auto simp: prefix_def split_skip_def splitOn_append)

lemma some_segments:
  "split_skip CHR ''/'' ''/api/auth'' = [''api'', ''auth'']" "split_skip CHR ''/'' ''/api/share/player'' = [''api'', ''share'', ''player'']"
  "split_skip CHR ''/'' ''/api/health'' = [''api'', ''health'']" "split_skip CHR ''/'' ''/api/server/hostname'' = [''api'', ''server'', ''hostname'']"
  by code_simp+

lemma public_segments:
  assumes "public_route p"
  shows "split_skip CHR ''/'' p = [''api'', ''health''] \<or> split_skip CHR ''/'' p = [''api'', ''server'', ''hostname''] \<or>
    take 2 (split_skip CHR ''/'' p) = [''api'', ''auth''] \<or> take 3 (split_skip CHR ''/'' p) = [''api'', ''share'', ''player'']"
proof -
  have "''/api/auth/'' = ''/api/auth'' @ ''/''" "''/api/share/player/'' = ''/api/share/player'' @ ''/''" by simp_all
  then have p: "p = ''/api/health'' \<or> p = ''/api/server/hostname'' \<or> prefix (''/api/auth'' @ ''/'') p \<or> prefix (''/api/share/player'' @ ''/'') p"
    using assms unfolding public_route_def by argo
  have n: "length [''api'', ''auth''] = 2" "length [''api'', ''share'', ''player''] = 3" by simp_all
  have "prefix (''/api/auth'' @ ''/'') p \<Longrightarrow> take 2 (split_skip CHR ''/'' p) = [''api'', ''auth'']"
    "prefix (''/api/share/player'' @ ''/'') p \<Longrightarrow> take 3 (split_skip CHR ''/'' p) = [''api'', ''share'', ''player'']"
    using segments_below[of "''/api/auth''" p] segments_below[of "''/api/share/player''" p]
    unfolding some_segments n by blast+
  then show ?thesis using p some_segments(3,4) by blast
qed

lemma slots_private:
  assumes "fits (split_skip CHR ''/'' p) ps" and "take 3 ps = [''api'', ''share'', ''slots'']"
  shows "\<not> public_route p"
proof
  assume "public_route p"
  obtain qs where ps: "ps = ''api'' # ''share'' # ''slots'' # qs" using assms(2) append_take_drop_id[of 3 ps] by (metis append_Cons append_Nil)
  obtain as where "split_skip CHR ''/'' p = ''api'' # ''share'' # ''slots'' # as"
    using assms(1) unfolding ps fits_def by (auto simp: list_all2_Cons2)
  then show False using public_segments[OF \<open>public_route p\<close>] by simp
qed

lemma share_table_parts: "list_all (\<lambda>(v, p, route). route = PPin \<or> route = PInfo \<or> route = PJoin \<or> route = PLeave \<or>
    (if CHR '':'' \<in> set p then take 3 (split_skip CHR ''/'' p) = [''api'', ''share'', ''slots''] else \<not> public_route p)) share_routes"
  by code_simp

lemma stranger_routes:
  assumes "dispatchAsync (fold register share_routes router_new) m p = Some (route, ps)" and "public_route p"
  shows "route = PPin \<or> route = PInfo \<or> route = PJoin \<or> route = PLeave"
proof -
  obtain v p' where x: "(v, p', route) \<in> set share_routes"
    and fit: "names_path m p (v, p', route) \<or> fits_path m p (v, p', route)"
    using assms(1) unfolding dispatch_promised promised_def by (auto split: option.splits dest!: find_in)
  show ?thesis using share_table_parts x assms(2) slots_private fit
    unfolding list_all_iff names_path_def fits_path_def by fastforce
qed

section \<open>A request from the wire to the invitations\<close>

definition share_visit :: "QtShare \<Rightarrow> Server \<Rightarrow> ShareRoutesDeps \<Rightarrow> Arrival \<Rightarrow> Incoming \<Rightarrow> ShareBody \<Rightarrow> ShareDrawn \<Rightarrow> ShareManager \<Rightarrow>
    ShareManager \<times> ShareEffect list" where
  "share_visit q sv deps arrival req body dr m =
     (case fst (serveRequest sv (fold register share_routes router_new) arrival req) of
        Handled route ps r \<Rightarrow> (case share_route q route sv deps r ps body dr m of (m', effects, answer) \<Rightarrow> (m', effects))
      | _ \<Rightarrow> (m, []))"

lemma share_visit_cases:
  obtains "share_visit q sv deps arrival req body dr m = (m, [])"
  | route ps r where "serveRequest sv (fold register share_routes router_new) arrival req = (Handled route ps r, False)"
    "fst (share_visit q sv deps arrival req body dr m) = fst (share_route q route sv deps r ps body dr m)"
    "snd (share_visit q sv deps arrival req body dr m) = fst (snd (share_route q route sv deps r ps body dr m))"
    "pq_headers r = pq_headers req" "in_clientAddress r = in_clientAddress req"
proof -
  obtain x b where s: "serveRequest sv (fold register share_routes router_new) arrival req = (x, b)" by fastforce
  show ?thesis
  proof (cases "\<exists>route ps r. x = Handled route ps r")
    case True
    then obtain route ps r where x: "x = Handled route ps r" by blast
    note parts = handled_parts[OF s[unfolded x]]
    show ?thesis using that(2)[of route ps r] s x parts(3,4) by (simp add: share_visit_def split_def)
  next
    case False
    then show ?thesis using that(1) s by (cases x) (auto simp: share_visit_def)
  qed
qed

definition stranger :: "Server \<Rightarrow> AuthManager \<Rightarrow> Arrival \<Rightarrow> Incoming \<Rightarrow> bool" where
  "stranger sv am arrival req \<longleftrightarrow> \<not> served_at_home sv arrival req \<and>
     \<not> validateSession (sv_qt sv) (sv_now sv) (sessionToken (pq_headers req)) am"

lemma visit_makes:
  assumes "sv_AuthManager sv = Some am"
  obtains cs where "fst (share_visit q sv deps arrival req body dr m) = shares q (sv_now sv) cs m"
    "Restart \<notin> set cs" "stranger sv am arrival req \<Longrightarrow> list_all (guest_call q (pq_headers req) m) cs"
proof -
  have no: "\<not> makes q hs m route Restart" for hs route by simp
  show ?thesis
  proof (rule share_visit_cases[of q sv deps arrival req body dr m])
    assume "share_visit q sv deps arrival req body dr m = (m, [])"
    then show ?thesis using that[of "[]"] by simp
  next
    fix route ps r
    assume s: "serveRequest sv (fold register share_routes router_new) arrival req = (Handled route ps r, False)"
      and m: "fst (share_visit q sv deps arrival req body dr m) = fst (share_route q route sv deps r ps body dr m)"
      and hs: "pq_headers r = pq_headers req"
    obtain cs where cs: "fst (share_route q route sv deps r ps body dr m) = shares q (sv_now sv) cs m"
        "list_all (makes q (pq_headers req) m route) cs"
      using route_makes[of q route sv deps r ps body dr m] hs by auto
    have "guest_call q (pq_headers req) m c" if "stranger sv am arrival req" "c \<in> set cs" for c
    proof -
      have "dispatchAsync (fold register share_routes router_new) (pq_method r) (pq_path r) = Some (route, ps)" "public_route (pq_path r)"
        using by_right[OF s assms] that(1) by (auto simp: stranger_def)
      from stranger_routes[OF this] show ?thesis using cs(2) that(2) by (cases c) (auto simp: list_all_iff)
    qed
    moreover have "Restart \<notin> set cs" using cs(2) no by (auto simp: list_all_iff)
    ultimately show ?thesis using that[of cs] m cs(1) by (simp add: list_all_iff)
  qed
qed

lemma at_once: "t \<le> now \<Longrightarrow> 0 < now \<Longrightarrow> legal on_clock (timed_share q) (map (Pair now) cs) (t, m) \<and>
    fold (timed_share q) (map (Pair now) cs) (t, m) = (if cs = [] then t else now, shares q now cs m)"
proof (induction cs arbitrary: t m)
  case (Cons c cs)
  then show ?case using Cons.IH[of now "share_call q (now, c) m"] by (auto simp: on_clock_def timed_share_def)
qed simp

text \<open>C10. A request does to the invitations what calls of the owner and of guests do, none of them a restart, so all that is promised of
  sequences of calls holds behind the wire, and the invariant of table and file is kept; and a stranger, neither at the
  machine nor signed in, does no more than ask, try a PIN, and, by joining or leaving, mark the slot of the invitation he holds
  the cookie of as not streaming. What the worker of a stream tells later is a call of its own.\<close>

theorem share_requests_are_calls:
  assumes "share_inv q (t, m)" and "t \<le> sv_now sv" and "0 < sv_now sv" and "sv_AuthManager sv = Some am"
  shows "\<exists>cs. fst (share_visit q sv deps arrival req body dr m) =
      snd (fold (timed_share q) (map (Pair (sv_now sv)) cs) (t, m)) \<and>
    legal on_clock (timed_share q) (map (Pair (sv_now sv)) cs) (t, m) \<and>
    share_inv q (fold (timed_share q) (map (Pair (sv_now sv)) cs) (t, m)) \<and> Restart \<notin> set cs \<and>
    (stranger sv am arrival req \<longrightarrow> list_all (guest_call q (pq_headers req) m) cs)"
proof (rule visit_makes[OF assms(4), of q deps arrival req body dr m])
  fix cs
  assume cs: "fst (share_visit q sv deps arrival req body dr m) = shares q (sv_now sv) cs m" "Restart \<notin> set cs"
    "stranger sv am arrival req \<Longrightarrow> list_all (guest_call q (pq_headers req) m) cs"
  note one = at_once[OF assms(2,3), of q cs m]
  moreover have "share_inv q (fold (timed_share q) (map (Pair (sv_now sv)) cs) (t, m))"
    using share.inv_run[OF assms(1)] one by blast
  ultimately show ?thesis using cs by (intro exI[of _ cs]) auto
qed

lemma last_fold: "fold (\<lambda>x found. if P x then Some x else found) xs None = find P (rev xs)"
proof -
  have "fold (\<lambda>x found. if P x then Some x else found) xs init = (case find P (rev xs) of Some x \<Rightarrow> Some x | None \<Rightarrow> init)" for init
    by (induction xs arbitrary: init) (auto simp: find_append split: option.splits)
  then show ?thesis by (simp split: option.split)
qed

lemma link_slot:
  assumes "fst (slotForToken q now token m) = s" and "0 \<le> s"
  shows "isPlayerSlot s \<and> is_live (slot_of m s) \<and> constantTimeEquals (av_tokenHash (slot_of m s)) (sh_hash q token) \<and>
    \<not> overdue now (slot_of m s)"
proof -
  have "slotForTokenHash (sh_hash q token) (pruneExpired now m) = Some s"
    using assms by (auto simp: slotForToken_def Let_def split: option.splits)
  then have x: "isPlayerSlot s" "is_live (slot_of (pruneExpired now m) s)"
      "constantTimeEquals (av_tokenHash (slot_of (pruneExpired now m) s)) (sh_hash q token)"
    unfolding slotForTokenHash_def last_fold by (auto split: if_splits dest!: find_in)
  then show ?thesis by (auto simp: slot_of_prune split: if_splits)
qed

lemma row_effects [simp]: "fst (snd (row_after sv slot m)) = []"
  by (simp add: row_after_def split_def)

lemma other_routes:
  "route \<noteq> PJoin \<Longrightarrow> StartStream slot height aspect perms host rung \<notin> set (fst (snd (share_route q route sv deps req ps body dr m)))"
  by (cases route) (auto simp: route_share_status_def route_activate_def route_credentials_def route_permissions_def route_ttl_def
    route_name_def route_deactivate_def route_player_pin_def route_player_info_def route_player_leave_def unknown_slot_def Let_def
    split_def split: option.split sum.split PinResult.split)

lemma asked_once [simp]: "snd (slotForCookie q now cookie (pruneExpired now m)) = pruneExpired now m"
  by simp

lemma join_parts:
  assumes "StartStream slot height aspect perms host rung \<in> set (fst (snd (route_player_join q sv deps req body m)))"
  shows "fst (slotForToken q (sv_now sv) (sb_token body) m) = slot" "0 \<le> slot"
    "fst (slotForCookie q (sv_now sv) (player_cookie (pq_headers req)) (pruneExpired (sv_now sv) m)) = slot"
    "perms = slot_permissions slot (pruneExpired (sv_now sv) m)" "height = join_height body"
    "isStreaming slot (pruneExpired (sv_now sv) m) \<longrightarrow> 0 < rung"
  using assms unfolding route_player_join_def Let_def split_def
  by (auto split: if_splits simp del: asks(6))

lemma start_needs_invitation:
  assumes "StartStream slot height aspect perms host rung \<in> set (snd (share_visit q sv deps arrival req body dr m))"
  shows "isPlayerSlot slot \<and> is_live (slot_of m slot) \<and> \<not> overdue (sv_now sv) (slot_of m slot) \<and>
    constantTimeEquals (av_tokenHash (slot_of m slot)) (sh_hash q (sb_token body)) \<and>
    holds_cookie q (player_cookie (pq_headers req)) (slot_of m slot) \<and> perms = av_permissions (slot_of m slot) \<and>
    height \<in> {720, 1080, 1440} \<and> (av_streaming (slot_of m slot) \<longrightarrow> 0 < rung)"
proof (rule share_visit_cases[of q sv deps arrival req body dr m])
  assume "share_visit q sv deps arrival req body dr m = (m, [])"
  then show ?thesis using assms by simp
next
  fix route ps r
  assume e: "snd (share_visit q sv deps arrival req body dr m) = fst (snd (share_route q route sv deps r ps body dr m))"
    and r: "pq_headers r = pq_headers req"
  then have j: "StartStream slot height aspect perms host rung \<in> set (fst (snd (route_player_join q sv deps r body m)))"
    using assms other_routes by (cases "route = PJoin") auto
  note parts = join_parts[OF j]
  note token = link_slot[OF parts(1,2)]
  have "slot \<noteq> - 1" using parts(2) by simp
  note cookie = cookie_slot[OF parts(3) this]
  have same: "slot_of (pruneExpired (sv_now sv) m) slot = slot_of m slot" using token by (simp add: slot_of_prune)
  have "perms = av_permissions (slot_of m slot)" using parts(4) token by (simp add: slot_permissions_def same)
  moreover have "av_streaming (slot_of m slot) \<longrightarrow> 0 < rung" using parts(6) token by (simp add: isStreaming_def same)
  ultimately show ?thesis using token cookie parts(5) r by (auto simp: same join_height_def Let_def)
qed

text \<open>Two states of one invitation: its identity, link and PIN.\<close>

definition same_keys :: "Activation \<Rightarrow> Activation \<Rightarrow> bool" where
  "same_keys a a' \<longleftrightarrow> av_id a' = av_id a \<and> av_tokenHash a' = av_tokenHash a \<and> av_pinHash a' = av_pinHash a"

text \<open>A call that entered the PIN of an invitation, with the cookie of digest \<open>h\<close> drawn for the device that did.\<close>

definition entered :: "QtShare \<Rightarrow> int \<times> ShareCall \<Rightarrow> ShareManager \<Rightarrow> int \<Rightarrow> string \<Rightarrow> bool" where
  "entered q e m s h \<longleftrightarrow> (case snd e of
     Redeem token pin key agent cookie \<Rightarrow> h = sh_hash q cookie \<and> is_live (slot_of m s) \<and> \<not> overdue (fst e) (slot_of m s) \<and>
       constantTimeEquals (av_tokenHash (slot_of m s)) (sh_hash q token) \<and> pin_matches q pin (slot_of m s) \<and>
       av_cookieHashes (slot_of m s) = []
   | _ \<Rightarrow> False)"

lemma no_cookies [simp]: "av_cookieHashes no_activation = []"
  by (simp add: no_activation_def)

lemma same_keys_refl [simp]: "same_keys a a"
  by (simp add: same_keys_def)

lemma keys_kept [simp]:
  "same_keys a (b\<lparr>av_permissions := p\<rparr>) = same_keys a b" "same_keys a (b\<lparr>av_streaming := x\<rparr>) = same_keys a b"
  "same_keys a (b\<lparr>av_pinFailures := n\<rparr>) = same_keys a b" "same_keys a (b\<lparr>av_cookieHashes := cs\<rparr>) = same_keys a b"
  "same_keys a (b\<lparr>av_devices := ds\<rparr>) = same_keys a b" "same_keys a (b\<lparr>av_lastRefusedAt := n\<rparr>) = same_keys a b"
  "same_keys a (b\<lparr>av_lastRefusedAgent := g\<rparr>) = same_keys a b" "same_keys a (shortened now ttl b) = same_keys a b"
  "same_keys a (after_restart b) = same_keys a b"
  by (auto simp: same_keys_def shortened_def after_restart_def Let_def)

lemma cookies_kept [simp]:
  "av_cookieHashes (shortened now ttl b) = av_cookieHashes b" "av_cookieHashes (after_restart b) = av_cookieHashes b"
  "av_cookieHashes (minted q now host app ttl token pin uuid p) = []"
  by (auto simp: shortened_def after_restart_def minted_def Let_def no_activation_def)

lemma pruned_slot: "slot_of (pruneExpired now m) s = slot_of m s \<and> \<not> (isPlayerSlot s \<and> overdue now (slot_of m s)) \<or>
    slot_of (pruneExpired now m) s = no_activation"
  by (simp add: slot_of_prune)

lemma redeem_cookies:
  assumes "h \<in> set (av_cookieHashes (slot_of (snd (redeemPin q now token pin key agent cookie m)) s))"
  shows "same_keys (slot_of m s) (slot_of (snd (redeemPin q now token pin key agent cookie m)) s) \<and>
    (h \<in> set (av_cookieHashes (slot_of m s)) \<or> entered q (now, Redeem token pin key agent cookie) m s h)"
proof (cases "rateLockout now (pin_bucket key) (pruneExpired now m) > 0")
  case True
  then show ?thesis using assms by (auto simp: redeem_locked slot_of_prune split: if_splits)
next
  case False
  let ?m = "pruneExpired now m"
  let ?slot = "slotForTokenHash (sh_hash q token) ?m"
  let ?matched = "case ?slot of None \<Rightarrow> False | Some s \<Rightarrow> pin_matches q pin (slot_of ?m s)"
  obtain r l m1 where rec: "rateRecord now (pin_bucket key) ?matched ?m = (r, l, m1)" by (metis prod_cases3)
  have m1: "slot_of m1 = slot_of ?m" using rate_slots[of now "pin_bucket key" ?matched ?m] unfolding rec by simp
  note open' = redeem_open[OF False refl refl rec refl, of agent cookie]
  show ?thesis
  proof (cases ?slot)
    case None
    then show ?thesis using assms open' m1 by (auto simp: slot_of_prune split: if_splits)
  next
    case (Some slot)
    note t = token_slot[OF Some]
    then have p: "slot_of ?m slot = slot_of m slot" "\<not> overdue now (slot_of m slot)" by (auto simp: slot_of_prune split: if_splits)
    show ?thesis
      using assms open' Some t p m1
      by (auto simp: slot_of_failed accepted_slots entered_def slot_of_prune tunables Suc_le_eq split: if_splits)
  qed
qed

lemma call_cookies:
  assumes "c \<noteq> Restart" and "h \<in> set (av_cookieHashes (slot_of (share_call q (now, c) m) s))"
  shows "same_keys (slot_of m s) (slot_of (share_call q (now, c) m) s) \<and>
    (h \<in> set (av_cookieHashes (slot_of m s)) \<or> entered q (now, c) m s h)"
proof (cases c)
  case (Redeem token pin key agent cookie)
  then show ?thesis using redeem_cookies assms(2) by simp
qed (use assms in \<open>auto simp: name_slots deactivate_slots deactivateAll_slots streaming_slots activate_slots sweep_def
  ttl_slots permissions_slots slot_of_prune split: if_splits\<close>)

lemma cookie_was_earned:
  assumes "[] \<notin> range (sh_hash q)" and "legal on_clock (timed_share q) es (fresh_install q)" and "isPlayerSlot s"
    and "h \<in> set (av_cookieHashes (slot_of (snd (fold (timed_share q) es (fresh_install q))) s))"
  shows "\<exists>es1 e es2. es = es1 @ e # es2 \<and> (case snd (fold (timed_share q) es1 (fresh_install q)) of m1 \<Rightarrow>
    entered q e m1 s h \<and> same_keys (slot_of m1 s) (slot_of (snd (fold (timed_share q) es (fresh_install q))) s))"
  using assms(2,4)
proof (induction es rule: rev_induct)
  case Nil
  then show ?case by (simp add: fresh_install_def sm_new_def load_def fresh_slots)
next
  case (snoc e es)
  obtain t m where x: "fold (timed_share q) es (fresh_install q) = (t, m)" by fastforce
  obtain now c where e: "e = (now, c)" by fastforce
  have legal: "legal on_clock (timed_share q) es (fresh_install q)" "on_clock e (t, m)" using snoc.prems(1) x by simp_all
  then have inv: "share_inv q (t, m)" using share.inv_run[OF fresh_inv[OF assms(1)]] x by metis
  let ?m = "share_call q (now, c) m"
  have m': "snd (fold (timed_share q) (es @ [e]) (fresh_install q)) = ?m" by (simp add: x e timed_share_def)
  have step: "same_keys (slot_of m s) (slot_of ?m s) \<and> (h \<in> set (av_cookieHashes (slot_of m s)) \<or> entered q (now, c) m s h)"
  proof (cases "c = Restart")
    case True
    have "slot_inv (slot_of m s)" "file_inv t m" "t \<le> now" using inv assms(3) legal(2) e by (auto simp: share_inv_def on_clock_def)
    then show ?thesis using snoc.prems(2) restart_slots[of t m s now q "m_Writable m"] assms(3)
      unfolding m' by (auto simp: True split: if_splits)
  next
    case False
    then show ?thesis using call_cookies snoc.prems(2) unfolding m' by blast
  qed
  show ?case
  proof (cases "entered q e m s h")
    case True
    then show ?thesis using step x m' by (intro exI[of _ es] exI[of _ e] exI[of _ "[]"]) simp
  next
    case False
    then have "h \<in> set (av_cookieHashes (slot_of (snd (fold (timed_share q) es (fresh_install q))) s))" using step e x by simp
    from snoc.IH[OF legal(1) this] obtain es1 d es2 where d: "es = es1 @ d # es2"
      "entered q d (snd (fold (timed_share q) es1 (fresh_install q))) s h"
      "same_keys (slot_of (snd (fold (timed_share q) es1 (fresh_install q))) s) (slot_of m s)" using x by auto
    then have "same_keys (slot_of (snd (fold (timed_share q) es1 (fresh_install q))) s) (slot_of ?m s)"
      using step by (simp add: same_keys_def)
    then show ?thesis using d m' by (intro exI[of _ es1] exI[of _ d] exI[of _ "es2 @ [e]"]) simp
  qed
qed
text \<open>C9. A guest's stream starts only for the device that gave the PIN. After any calls and restarts of a fresh installation, a request that
  starts a stream on a slot shows the link of the live invitation there and a cookie that was drawn by an earlier call which gave this
  very invitation's link and PIN while no device was bound to it; no other device answers to the invitation; the guest
  gets exactly the permissions the owner left there and a picture of one of three heights; and while a stream is marked
  as running another is started only on a later rung of the transport chain.\<close>

theorem join_needs_link_and_device:
  assumes "[] \<notin> range (sh_hash q)" and "legal on_clock (timed_share q) es (fresh_install q)"
    and "m = snd (fold (timed_share q) es (fresh_install q))"
    and "StartStream slot height aspect perms host rung \<in> set (snd (share_visit q sv deps arrival req body dr m))"
  shows "isPlayerSlot slot \<and> is_live (slot_of m slot) \<and> \<not> overdue (sv_now sv) (slot_of m slot) \<and>
    constantTimeEquals (av_tokenHash (slot_of m slot)) (sh_hash q (sb_token body)) \<and>
    (\<exists>es1 e es2 h. es = es1 @ e # es2 \<and> constantTimeEquals h (sh_hash q (player_cookie (pq_headers req))) \<and>
       (case snd (fold (timed_share q) es1 (fresh_install q)) of m1 \<Rightarrow>
          entered q e m1 slot h \<and> same_keys (slot_of m1 slot) (slot_of m slot))) \<and>
    length (av_cookieHashes (slot_of m slot)) \<le> 1 \<and> perms = av_permissions (slot_of m slot) \<and>
    height \<in> {720, 1080, 1440} \<and> (av_streaming (slot_of m slot) \<longrightarrow> 0 < rung)"
proof -
  note s = start_needs_invitation[OF assms(4)]
  obtain h where h: "h \<in> set (av_cookieHashes (slot_of m slot))" "constantTimeEquals h (sh_hash q (player_cookie (pq_headers req)))"
    using s by (auto simp: holds_cookie_def list_ex_iff)
  obtain es1 e es2 where e: "es = es1 @ e # es2" "case snd (fold (timed_share q) es1 (fresh_install q)) of m1 \<Rightarrow>
      entered q e m1 slot h \<and> same_keys (slot_of m1 slot) (slot_of m slot)"
    using cookie_was_earned[OF assms(1,2), of slot h] s h(1) unfolding assms(3) by blast
  have "share_inv q (fold (timed_share q) es (fresh_install q))" by (rule share.inv_run[OF fresh_inv[OF assms(1)] assms(2)])
  then have "slot_inv (slot_of m slot)" using assms(3) s by (auto simp: share_inv_def split: prod.splits)
  then have "length (av_cookieHashes (slot_of m slot)) \<le> 1" using s by (simp add: slot_inv_def tunables)
  then show ?thesis using s h(2) e by blast
qed

lemma gate_needs_invitation:
  assumes "sv_PlayerSlotAuth sv = Some (player_authorizer q now m)" and "player_may sv req slot" and "isPlayerSlot slot"
  shows "holds_cookie q (player_cookie (pq_headers req)) (slot_of m slot) \<and> \<not> overdue now (slot_of m slot)"
proof -
  have "slot \<noteq> - 1" using assms(3) by (simp add: isPlayerSlot_def tunables)
  then show ?thesis using cookie_slot[of q now _ m slot] assms(1,2) by (simp add: player_may_def player_authorizer_def)
qed

text \<open>C8. A guest the owner has put out stays out. After the owner ended an invitation, whatever was called since and however often
  the program restarted, until the owner opens that slot again no request starts a stream on it and no WebSocket reaches
  its signalling or its relay, through a tunnel or on a socket, whatever link, PIN or cookie it shows.\<close>

theorem evicted_guest_stays_out:
  assumes "[] \<notin> range (sh_hash q)" and "legal on_clock (timed_share q) (es @ (at, Deactivate slot why) # fs) (fresh_install q)"
    and "x = fold (timed_share q) (es @ [(at, Deactivate slot why)]) (fresh_install q)"
    and "never (\<lambda>e m. opens (snd e) slot) q fs x" and "m = snd (fold (timed_share q) fs x)" and "isPlayerSlot slot"
    and "sv_PlayerSlotAuth sv = Some (player_authorizer q (sv_now sv) m)" and "is_player_slot sv slot"
    and "sv_AuthManager sv = Some am"
  shows "StartStream slot height aspect perms host rung \<notin> set (snd (share_visit q sv deps arrival req body dr m)) \<and>
    (fst (slotFromWsPath sv (pq_path ws)) = slot \<longrightarrow> fst (authorizeTunnelWebSocket sv ws) = 0) \<and>
    (fst (slotFromWsPath sv (second_word (qh_utf8 (sv_http sv) (hd (split_lines bytes))))) = slot \<longrightarrow>
      handleWebSocketUpgrade sv peer bytes \<noteq> (WsForward port, reported))"
proof -
  have legal: "legal on_clock (timed_share q) (es @ [(at, Deactivate slot why)]) (fresh_install q)" "legal on_clock (timed_share q) fs x"
    using assms(2,3) by simp_all
  have inv: "share_inv q x" unfolding assms(3) by (rule share.inv_run[OF fresh_inv[OF assms(1)] legal(1)])
  have "\<not> is_live (slot_of (snd x) slot)"
    by (auto simp: assms(3) timed_share_def deactivate_slots assms(6) split: prod.split)
  then have dead: "\<not> is_live (slot_of m slot)"
    using run_lives[OF inv legal(2) assms(6,4)] assms(5) by (auto simp: lives_on_def)
  have out: "\<not> player_may sv r slot" for r
    using gate_needs_invitation[OF assms(7) _ assms(6), of r] dead by (auto simp: holds_cookie_def)
  have "StartStream slot height aspect perms host rung \<notin> set (snd (share_visit q sv deps arrival req body dr m))"
    using start_needs_invitation dead by blast
  moreover have "fst (authorizeTunnelWebSocket sv ws) = 0" if "fst (slotFromWsPath sv (pq_path ws)) = slot"
    using tunnel_signalling[of sv ws _ _ am, OF prod.collapse[symmetric] _ assms(9)] that out[of ws] assms(8) by fastforce
  moreover have "handleWebSocketUpgrade sv peer bytes \<noteq> (WsForward port, reported)"
    if "fst (slotFromWsPath sv (second_word (qh_utf8 (sv_http sv) (hd (split_lines bytes))))) = slot"
    using that out assms(8) by (auto simp: handleWebSocketUpgrade_def Let_def split: option.splits)
  ultimately show ?thesis by blast
qed

section \<open>A guest\<close>

definition guest_request :: "string \<Rightarrow> Incoming" where
  "guest_request p = incoming (blank_request\<lparr>pq_method := ''POST'', pq_path := p,
     pq_headers := [''cookie'' \<mapsto> ''mw_player=c'', ''host'' \<mapsto> ''pc.lan:8443'']\<rparr>) ''1.2.3.4''"

definition guest_body :: ShareBody where
  "guest_body = \<lparr>sb_host_uuid = [], sb_app_id = None, sb_ttl_secs = None, sb_permissions = viewer, sb_name = [], sb_token = ''a'',
     sb_pin = [], sb_transport_index = None, sb_height = Some 720, sb_aspect = ''16:9''\<rparr>"

definition toy_deps :: ShareRoutesDeps where
  "toy_deps = \<lparr>startPlayerStream = True, workerRuns = (\<lambda>s. False), startDetaches = (\<lambda>s. True), joinTarget = (\<lambda>s. ([], False)), currentOwnerContext = ([], 0), hostAppExists = None,
     machineName = ''pc'', playerLink = (\<lambda>t. []), remoteReachable = False, statsReporting = False\<rparr>"

definition toy_mint :: ShareDrawn where
  "toy_mint = \<lparr>sd_token = ''t'', sd_pin = ''5'', sd_uuid = ''u'', sd_cookie = ''k''\<rparr>"

definition guest_visit :: "ShareManager \<times> ShareEffect list" where
  "guest_visit = share_visit toy (toy_server two_signed_in) toy_deps ControlTunnel (guest_request ''/api/share/player/join'')
     guest_body toy_mint (snd shared_state)"

lemma guest_joins: "snd guest_visit = [StartStream 2 720 ''16:9'' viewer ''pc.lan'' 0]"
  by code_simp

lemma join_needs_link_and_device_witness:
  "\<exists>es1 e es2 h. opened = es1 @ e # es2 \<and> constantTimeEquals h ''#c'' \<and>
     entered toy e (snd (fold (timed_share toy) es1 (fresh_install toy))) 2 h"
proof -
  have l: "legal on_clock (timed_share toy) opened (fresh_install toy)" by code_simp
  have c: "sh_hash toy (player_cookie (pq_headers (guest_request ''/api/share/player/join''))) = ''#c''" by code_simp
  have j: "StartStream 2 720 ''16:9'' viewer ''pc.lan'' 0 \<in> set (snd (share_visit toy (toy_server two_signed_in) toy_deps ControlTunnel
      (guest_request ''/api/share/player/join'') guest_body toy_mint (snd shared_state)))"
    using guest_joins by (simp add: guest_visit_def)
  from join_needs_link_and_device[OF toy_hash l _ j] show ?thesis unfolding c by (auto simp: shared_state_def)
qed

lemma share_requests_are_calls_witness:
  "\<exists>cs. fst guest_visit = snd (fold (timed_share toy) (map (Pair 30) cs) (20, snd shared_state)) \<and>
     list_all (guest_call toy (pq_headers (guest_request ''/api/share/player/join'')) (snd shared_state)) cs"
proof -
  let ?sv = "toy_server two_signed_in"
  have "legal on_clock (timed_share toy) opened (fresh_install toy)" "fst shared_state = 20" by code_simp+
  then have inv: "share_inv toy (20, snd shared_state)"
    using share.inv_run[OF fresh_inv[OF toy_hash]] by (metis shared_state_def prod.collapse)
  have "stranger ?sv two_signed_in ControlTunnel (guest_request ''/api/share/player/join'')" by code_simp
  then show ?thesis
    using share_requests_are_calls[OF inv, of ?sv two_signed_in toy_deps ControlTunnel "guest_request ''/api/share/player/join''" guest_body toy_mint]
    unfolding guest_visit_def by (auto simp: toy_server_def)
qed

lemma evicted_guest_stays_out_witness:
  "fst (authorizeTunnelWebSocket ((toy_server two_signed_in)\<lparr>sv_PlayerSlotAuth :=
     Some (player_authorizer toy 30 (snd (fold (timed_share toy) [(26, Restart)] (fold (timed_share toy) (opened @ [(25, Deactivate 2 OwnerToggle)]) (fresh_install toy)))))\<rparr>)
     (guest_request ''/ws2'')) = 0"
proof -
  let ?x = "fold (timed_share toy) (opened @ [(25, Deactivate 2 OwnerToggle)]) (fresh_install toy)"
  let ?m = "snd (fold (timed_share toy) [(26, Restart)] ?x)"
  let ?sv = "(toy_server two_signed_in)\<lparr>sv_PlayerSlotAuth := Some (player_authorizer toy 30 ?m)\<rparr>"
  have l: "legal on_clock (timed_share toy) (opened @ (25, Deactivate 2 OwnerToggle) # [(26, Restart)]) (fresh_install toy)"
    "never (\<lambda>e m. opens (snd e) 2) toy [(26, Restart)] ?x" by code_simp+
  have g: "isPlayerSlot 2" "is_player_slot ?sv 2" "fst (slotFromWsPath ?sv (pq_path (guest_request ''/ws2''))) = 2" by code_simp+
  have s: "sv_PlayerSlotAuth ?sv = Some (player_authorizer toy (sv_now ?sv) ?m)" "sv_AuthManager ?sv = Some two_signed_in"
    by (simp_all add: toy_server_def)
  show ?thesis using evicted_guest_stays_out[OF toy_hash l(1) refl l(2) refl g(1) s(1) g(2) s(2)] g(3) by blast
qed

end
