(* ===== verification/Auth_Routes.thy ===== *)
theory Auth_Routes
  imports Http_Server
begin

text \<open>
  The routes that call \<open>AuthManager\<close> while they answer: every one of \<open>src/server/routes/AuthRoutes.cpp\<close>, and
  \<open>/api/auth/host-key\<close> and \<open>/api/admin/settings\<close> of \<open>SystemRoutes.cpp\<close>. What a request that reached a handler does to \<open>AuthManager\<close>. A handler is the list of the calls it makes, in the terms of
  \<open>Auth_Life\<close>, and its answer. The fields \<open>QJsonDocument\<close> reads in the body are the record \<open>AuthBody\<close>; what the code
  draws at random is the record \<open>Drawn\<close>. The look-up of a place by address, which answers later, is the call \<open>SetGeo\<close>
  some other time.
\<close>

section \<open>What a handler is given and answers\<close>

record AuthBody =
  ab_pin :: string
  ab_certificate :: string
  ab_machine_name :: string
  ab_remember :: bool
  ab_public_key :: string
  ab_key :: string
  ab_instances :: "(string \<times> string \<times> string) list"
  ab_password :: string
  ab_enabled :: "bool option"
  ab_token :: string
  ab_cert_enabled :: "bool option"

record Drawn =
  dr_token :: string
  dr_pin :: string
  dr_random :: string
  dr_salt :: string
  dr_certificate :: string
  dr_localKey :: string

text \<open>What the handlers know beside the server: the text of a list of machines (\<open>QJsonDocument\<close>), SHA-256, the public
  address the router reported, and \<open>AppSettings::localKey\<close>, the key the host's own shortcut carries.\<close>

record Outside =
  os_json :: "(string \<times> string \<times> string) list \<Rightarrow> string"
  os_sha256 :: "string \<Rightarrow> string"
  os_publicIp :: string
  os_localKey :: string

datatype Cookie = NoCookie | SessionCookie string bool | ClearedCookie

text \<open>An answer: its status, the \<open>error\<close>, the cookie, the \<open>pairing_key\<close> of the reply, the PIN, key or certificate it tells,
  the attempts left and the seconds to wait, its boolean fields by their names, the count of sessions, the rows of the list,
  and whether the handler reported a failure to the guard.\<close>

record Answer =
  an_status :: int
  an_error :: string
  an_cookie :: Cookie
  an_pairing :: string
  an_secret :: string
  an_remaining :: int
  an_lockout :: int
  an_flags :: "(string \<times> bool) list"
  an_active :: nat
  an_rows :: "(SavedSession \<times> string \<times> bool) list"
  an_reported :: bool

definition answer_ok :: Answer where
  "answer_ok = \<lparr>an_status = 200, an_error = [], an_cookie = NoCookie, an_pairing = [], an_secret = [], an_remaining = 0,
     an_lockout = 0, an_flags = [], an_active = 0, an_rows = [], an_reported = False\<rparr>"

definition refuse :: "int \<Rightarrow> string \<Rightarrow> Answer" where
  "refuse status why = answer_ok\<lparr>an_status := status, an_error := why\<rparr>"

definition not_local :: Answer where
  "not_local = refuse 403 ''Only available from localhost''"

text \<open>The cookie as it is set: with \<open>Max-Age\<close> where the session is remembered.\<close>

definition sessionCookie :: "string \<Rightarrow> bool \<Rightarrow> string" where
  "sessionCookie token remember =
     ''mw_session='' @ token @ ''; HttpOnly; Secure; Path=/; SameSite=Strict'' @
     (if remember then ''; Max-Age=7776000'' else [])"

definition clearedSessionCookie :: string where
  "clearedSessionCookie = ''mw_session=; HttpOnly; Secure; Path=/; SameSite=Strict; Max-Age=0''"

section \<open>Signing in\<close>

text \<open>\<open>bindKeyFromLoginBody\<close>: the call, and what the reply says of it, in the state after \<open>m\<close>.\<close>

definition bindKeyFromLoginBody :: "QtAuth \<Rightarrow> string \<Rightarrow> AuthBody \<Rightarrow> AuthManager \<Rightarrow> AuthCall list \<times> string" where
  "bindKeyFromLoginBody q token body m =
     (let b64 = ab_public_key body; spki = qa_fromBase64 q b64
      in if b64 = [] then ([], [])
         else ([BindKey token spki], if fst (bindSessionKey q token spki m) then ''bound'' else ''rejected''))"

fun after :: "QtAuth \<Rightarrow> int \<Rightarrow> AuthCall list \<Rightarrow> AuthManager \<Rightarrow> AuthManager" where
  "after q now [] m = m"
| "after q now (c # cs) m = after q now cs (auth_call q (now, c) m)"

text \<open>The tail of every sign-in: the calls so far, the key of the body, the cookie.\<close>

definition signed_in :: "Server \<Rightarrow> AuthCall list \<Rightarrow> string \<Rightarrow> bool \<Rightarrow> AuthBody \<Rightarrow> AuthManager \<Rightarrow> AuthCall list \<times> Answer" where
  "signed_in sv calls token remember body m =
     (case bindKeyFromLoginBody (sv_qt sv) token body (after (sv_qt sv) (sv_now sv) calls m) of (bind, pairing) \<Rightarrow>
        (calls @ bind, answer_ok\<lparr>an_cookie := SessionCookie token remember, an_pairing := pairing,
           an_flags := [(''remembered'', remember)]\<rparr>))"

definition route_validate :: "Server \<Rightarrow> Incoming \<Rightarrow> AuthBody \<Rightarrow> Drawn \<Rightarrow> AuthManager \<Rightarrow> AuthCall list \<times> Answer" where
  "route_validate sv req body dr m =
     (let q = sv_qt sv; remember = ab_remember body; ip = in_clientAddress req;
          create = CreateSession (dr_token dr) ip (ab_machine_name body) False (\<not> remember) False
      in if ab_certificate body \<noteq> [] \<and> certAuthEnabled m
         then (if validateCertificate (ab_certificate body) m
               then signed_in sv [create] (dr_token dr) remember body m
               else ([], refuse 401 ''invalid_certificate''))
         else if ab_pin body = [] then ([], refuse 400 ''Missing 'pin' field'')
         else (let bucket = attemptAddress q ip (pq_headers req);
                   result = fst (validatePin q (sv_now sv) bucket (ab_pin body) m)
               in case vr_result result of
                    Valid \<Rightarrow> signed_in sv [TryPin bucket (ab_pin body), create, AutoRegeneratePin (dr_pin dr)]
                               (dr_token dr) remember body m
                  | InvalidPin \<Rightarrow> ([TryPin bucket (ab_pin body)],
                      (refuse 401 ''invalid_pin'')\<lparr>an_remaining := vr_remainingAttempts result,
                        an_lockout := vr_lockoutSeconds result\<rparr>)
                  | RateLimited \<Rightarrow> ([TryPin bucket (ab_pin body)],
                      (refuse 429 ''rate_limited'')\<lparr>an_lockout := vr_lockoutSeconds result\<rparr>)))"

definition route_home_screen :: "Server \<Rightarrow> Incoming \<Rightarrow> AuthBody \<Rightarrow> Drawn \<Rightarrow> AuthManager \<Rightarrow> AuthCall list \<times> Answer" where
  "route_home_screen sv req body dr m =
     (let redeem = (if in_viaTunnel req then [RedeemKey (ab_key body)] else []);
          handoff = (if in_viaTunnel req then fst (redeemHomeScreenKey (sv_now sv) (ab_key body) m) else None)
      in case handoff of
           None \<Rightarrow> (redeem, (refuse 403 ''This shortcut's key is spent or expired'')\<lparr>an_reported := True\<rparr>)
         | Some h \<Rightarrow>
             (let name = trimmed (ab_machine_name body);
                  name = (if name = [] then hh_machineName h else name)
              in case signed_in sv (redeem @ [CreateSession (dr_token dr) (in_clientAddress req) name False False False])
                        (dr_token dr) True body m of
                   (calls, a) \<Rightarrow> (calls, a\<lparr>an_secret := hh_instances h\<rparr>)))"

definition route_home_screen_key :: "Server \<Rightarrow> Incoming \<Rightarrow> Drawn \<Rightarrow> AuthManager \<Rightarrow> AuthCall list \<times> Answer" where
  "route_home_screen_key sv req dr m =
     (let q = sv_qt sv; now = sv_now sv; token = sessionToken (pq_headers req)
      in if \<not> in_viaTunnel req then ([], refuse 404 ''Not Found'')
         else if \<not> validateSession q now token m then ([], refuse 401 ''Not authenticated'')
         else let key = fst (homeScreenKey q now (dr_random dr) token m)
              in ([MintKey (dr_random dr) token],
                  if key = [] then refuse 403 ''A session that is not remembered hands out no key''
                  else answer_ok\<lparr>an_secret := key\<rparr>))"

text \<open>At most sixteen machines, each with its three fields and within their lengths.\<close>

fun kept_instances :: "(string \<times> string \<times> string) list \<Rightarrow> (string \<times> string \<times> string) list \<Rightarrow> (string \<times> string \<times> string) list" where
  "kept_instances [] kept = kept"
| "kept_instances ((i, name, url) # given) kept =
     (if i = [] \<or> name = [] \<or> url = [] \<or> length i > 256 \<or> length name > 128 \<or> length url > 512
      then kept_instances given kept
      else let kept = kept @ [(i, name, url)]
           in if length kept \<ge> 16 then kept else kept_instances given kept)"

definition route_home_screen_instances ::
  "((string \<times> string \<times> string) list \<Rightarrow> string) \<Rightarrow> Server \<Rightarrow> Incoming \<Rightarrow> AuthBody \<Rightarrow> AuthManager \<Rightarrow> AuthCall list \<times> Answer" where
  "route_home_screen_instances to_json sv req body m =
     (let token = sessionToken (pq_headers req)
      in if \<not> validateSession (sv_qt sv) (sv_now sv) token m then ([], refuse 401 ''Not authenticated'')
         else ([SetInstances token (to_json (kept_instances (ab_instances body) []))], answer_ok))"

definition route_pairing_key :: "Server \<Rightarrow> Incoming \<Rightarrow> AuthBody \<Rightarrow> AuthManager \<Rightarrow> AuthCall list \<times> Answer" where
  "route_pairing_key sv req body m =
     (let q = sv_qt sv; token = sessionToken (pq_headers req); b64 = ab_public_key body; spki = qa_fromBase64 q b64
      in if \<not> validateSession q (sv_now sv) token m then ([], refuse 401 ''Not authenticated'')
         else if \<not> isTrustedPeer (classify (sv_web sv) (in_clientAddress req))
         then ([], refuse 403 ''Pair with a PIN from this network'')
         else if b64 = [] then ([], refuse 400 ''Missing 'public_key' field'')
         else ([BindKey token spki],
               if \<not> fst (bindSessionKey q token spki m) then refuse 409 ''This session is already bound to another key''
               else answer_ok))"

section \<open>The PIN and the certificate, for the owner\<close>

definition route_pin_generate :: "Incoming \<Rightarrow> Drawn \<Rightarrow> AuthCall list \<times> Answer" where
  "route_pin_generate req dr =
     (if \<not> in_isLocal req then ([], not_local)
      else ([GeneratePin (dr_pin dr)], answer_ok\<lparr>an_secret := dr_pin dr\<rparr>))"

definition route_regenerate :: "Incoming \<Rightarrow> Drawn \<Rightarrow> AuthCall list \<times> Answer" where
  "route_regenerate req dr =
     (if \<not> in_isLocal req then ([], not_local)
      else ([RegeneratePin (dr_pin dr)], answer_ok\<lparr>an_secret := dr_pin dr\<rparr>))"

definition route_pin_clear :: "Incoming \<Rightarrow> AuthCall list \<times> Answer" where
  "route_pin_clear req =
     (if \<not> in_isLocal req then ([], not_local) else ([ClearPin], answer_ok\<lparr>an_secret := no_pin\<rparr>))"

definition route_certificate_download :: "Incoming \<Rightarrow> AuthManager \<Rightarrow> AuthCall list \<times> Answer" where
  "route_certificate_download req m =
     ([], if \<not> in_isLocal req then not_local
          else if certificateToken m = [] then refuse 500 ''Certificate token not initialized''
          else answer_ok\<lparr>an_secret := certificateToken m\<rparr>)"

definition route_certificate_regenerate :: "Incoming \<Rightarrow> Drawn \<Rightarrow> AuthCall list \<times> Answer" where
  "route_certificate_regenerate req dr =
     (if \<not> in_isLocal req then ([], not_local) else ([NewCertificate (dr_certificate dr)],
      answer_ok\<lparr>an_flags := [(''certificate_regenerated'', True)]\<rparr>))"

section \<open>The admin password\<close>

definition route_admin_unlock :: "Server \<Rightarrow> Incoming \<Rightarrow> AuthBody \<Rightarrow> AuthManager \<Rightarrow> AuthCall list \<times> Answer" where
  "route_admin_unlock sv req body m =
     (let q = sv_qt sv; now = sv_now sv; ip = in_clientAddress req; token = sessionToken (pq_headers req)
      in if in_isLocal req \<or> in_isHostMachine req then ([], answer_ok)
         else if \<not> canUnlockAdmin q ip (in_hostTrusted req) (in_viaTunnel req) then ([], refuse 403 ''lan_only'')
         else if \<not> validateSession q now token m then ([], refuse 401 ''not_authenticated'')
         else if \<not> remoteAdminEnabled m \<or> \<not> adminPasswordSet m then ([], refuse 403 ''not_configured'')
         else let try = TryPassword ip (ab_password body);
                  result = fst (validateAdminPassword q now ip (ab_password body) m)
              in case vr_result result of
                   Valid \<Rightarrow> ([try, Promote token], answer_ok)
                 | InvalidPin \<Rightarrow> ([try], (refuse 401 ''invalid_password'')\<lparr>an_remaining := vr_remainingAttempts result,
                     an_lockout := vr_lockoutSeconds result\<rparr>)
                 | RateLimited \<Rightarrow> ([try], (refuse 429 ''rate_limited'')\<lparr>an_lockout := vr_lockoutSeconds result\<rparr>))"

definition route_admin_password :: "Server \<Rightarrow> Incoming \<Rightarrow> AuthBody \<Rightarrow> Drawn \<Rightarrow> AuthManager \<Rightarrow> AuthCall list \<times> Answer" where
  "route_admin_password sv req body dr m =
     (let q = sv_qt sv; now = sv_now sv; token = sessionToken (pq_headers req);
          callerWasRemoteAdmin = isAdminSession q now token m;
          toggle = (case ab_enabled body of None \<Rightarrow> [] | Some b \<Rightarrow> [EnableRemoteAdmin b]);
          m1 = after q now toggle m;
          change = (if ab_password body = [] then [] else [SetPassword (dr_salt dr) (ab_password body)]);
          m2 = after q now change m1
      in if \<not> in_isLocal req then ([], not_local)
         else if ab_password body \<noteq> [] \<and> \<not> fst (setAdminPassword q (dr_salt dr) (ab_password body) m1)
         then (toggle @ change, refuse 400 ''too_short'')
         else (toggle @ change @ (if callerWasRemoteAdmin \<and> remoteAdminEnabled m2 then [Promote token] else []),
               answer_ok\<lparr>an_flags := [(''remote_admin_enabled'', remoteAdminEnabled m2), (''admin_password_set'', adminPasswordSet m2)]\<rparr>))"

section \<open>Sessions\<close>

text \<open>The tokens a request shows: every cookie under the session's name.\<close>

definition presented :: "headers \<Rightarrow> string list" where
  "presented hs =
     (if header hs ''cookie'' = [] then []
      else map (\<lambda>c. drop 11 (trimmed c))
             (filter (\<lambda>c. startsWith_ci (trimmed c) ''mw_session='') (splitOn CHR '';'' (header hs ''cookie''))))"

definition admin_unlock_available :: "Server \<Rightarrow> Incoming \<Rightarrow> bool \<Rightarrow> AuthManager \<Rightarrow> bool" where
  "admin_unlock_available sv req authenticated m \<longleftrightarrow>
     \<not> in_isLocal req \<and> authenticated \<and> remoteAdminEnabled m \<and> adminPasswordSet m \<and>
     canUnlockAdmin (sv_qt sv) (in_clientAddress req) (in_hostTrusted req) (in_viaTunnel req)"

text \<open>What every status says, in the state after the calls.\<close>

definition status_reply :: "Server \<Rightarrow> Incoming \<Rightarrow> bool \<Rightarrow> (string \<times> bool) list \<Rightarrow> AuthManager \<Rightarrow> Answer" where
  "status_reply sv req authenticated only_owner m =
     answer_ok\<lparr>an_active := activeSessionCount m,
       an_flags := [(''is_localhost'', in_isLocal req), (''is_host_machine'', in_isHostMachine req),
         (''authenticated'', authenticated)] @ only_owner @
         [(''requires_pin'', \<not> in_isLocal req), (''cert_auth_enabled'', certAuthEnabled m),
          (''admin_unlock_available'', admin_unlock_available sv req authenticated m),
          (''has_session'', validateSession (sv_qt sv) (sv_now sv) (sessionToken (pq_headers req)) m)]\<rparr>"

definition route_status :: "Server \<Rightarrow> Incoming \<Rightarrow> AuthManager \<Rightarrow> AuthCall list \<times> Answer" where
  "route_status sv req m =
     (let q = sv_qt sv; now = sv_now sv; ip = in_clientAddress req; bucket = attemptAddress q ip (pq_headers req)
      in if in_isLocal req
         then ([], (status_reply sv req True
                      [(''pin_consumed'', am_PinConsumed m), (''remote_admin_enabled'', remoteAdminEnabled m),
                       (''admin_password_set'', adminPasswordSet m)] m)\<lparr>an_secret := am_CurrentPin m\<rparr>)
         else case find (\<lambda>token. validateSession q now token m) (presented (pq_headers req)) of
                None \<Rightarrow> ([], (status_reply sv req False [] m)\<lparr>an_remaining := remainingAttempts q bucket m,
                                an_lockout := lockoutSeconds q now bucket m\<rparr>)
              | Some token \<Rightarrow>
                  (let calls = [Touch token, UpdateAddress token ip]; m' = after q now calls m
                   in (calls, (status_reply sv req True [] m')\<lparr>an_cookie :=
                        SessionCookie token (\<not> isEphemeralSession q now token m')\<rparr>)))"

definition route_logout :: "Server \<Rightarrow> Incoming \<Rightarrow> AuthManager \<Rightarrow> AuthCall list \<times> Answer" where
  "route_logout sv req m =
     (let token = sessionToken (pq_headers req)
      in ([LogoutSession token],
          answer_ok\<lparr>an_flags := [(''had_session'', fst (logoutSession (sv_qt sv) token m))], an_cookie := ClearedCookie\<rparr>))"

text \<open>The sessions as the admin page lists them: each, where it comes from, and whether it is the caller's own.\<close>

definition route_sessions :: "Server \<Rightarrow> Incoming \<Rightarrow> AuthManager \<Rightarrow> AuthCall list \<times> Answer" where
  "route_sessions sv req m =
     (let currentId = sessionIdForToken (sv_qt sv) (sessionToken (pq_headers req)) m
      in ([], if \<not> in_isLocal req then not_local
              else answer_ok\<lparr>an_rows := map (\<lambda>s. (session_toJson (sv_qt sv) s, isPrivateIP (sv_qt sv) (si_ip s),
                     currentId \<noteq> [] \<and> si_token s = currentId)) (auth_sessions m)\<rparr>))"

definition route_revoke :: "Server \<Rightarrow> Incoming \<Rightarrow> AuthBody \<Rightarrow> AuthManager \<Rightarrow> AuthCall list \<times> Answer" where
  "route_revoke sv req body m =
     (let currentId = sessionIdForToken (sv_qt sv) (sessionToken (pq_headers req)) m
      in if \<not> in_isLocal req then ([], not_local)
         else if ab_token body = [] then ([], refuse 400 ''Missing 'token' in request body'')
         else if currentId \<noteq> [] \<and> ab_token body = currentId then ([], refuse 409 ''cannot_revoke_self'')
         else ([DestroySession (ab_token body)], answer_ok))"

section \<open>The host's own key\<close>

text \<open>\<open>/api/auth/host-key\<close>: a key that opened is spent, and another is drawn (\<open>key_after\<close> below).\<close>

definition plausiblyHost :: "Server \<Rightarrow> string \<Rightarrow> string \<Rightarrow> bool" where
  "plausiblyHost sv publicIp addr \<longleftrightarrow>
     isLocalRequest sv addr \<or> isPrivateIP (sv_qt sv) addr = ''Local'' \<or> (publicIp \<noteq> [] \<and> addr = publicIp)"

definition host_key_refused :: "Outside \<Rightarrow> Server \<Rightarrow> Incoming \<Rightarrow> AuthBody \<Rightarrow> bool" where
  "host_key_refused j sv req body \<longleftrightarrow>
     \<not> plausiblyHost sv (os_publicIp j) (cleanClientAddress (in_clientAddress req)) \<or> ab_key body = [] \<or>
     os_sha256 j (ab_key body) \<noteq> os_sha256 j (os_localKey j)"

definition route_host_key :: "Outside \<Rightarrow> Server \<Rightarrow> Incoming \<Rightarrow> AuthBody \<Rightarrow> Drawn \<Rightarrow> AuthCall list \<times> Answer" where
  "route_host_key j sv req body dr =
     (if host_key_refused j sv req body then ([], refuse 403 ''Invalid host key'')
      else ([CreateSession (dr_token dr) (in_clientAddress req)
               (if in_viaTunnel req then ''Host machine (remote link)'' else ''Host machine'') True False (in_viaTunnel req)],
            answer_ok\<lparr>an_cookie := SessionCookie (dr_token dr) True, an_flags := [(''is_localhost'', True)]\<rparr>))"

text \<open>\<open>/api/admin/settings\<close>, as far as it reaches \<open>AuthManager\<close>: the other fields of its body belong to \<open>AppSettings\<close>.\<close>

definition route_admin_settings :: "Incoming \<Rightarrow> AuthBody \<Rightarrow> AuthCall list \<times> Answer" where
  "route_admin_settings req body =
     (if \<not> in_isLocal req then ([], refuse 403 ''Admin settings can only be modified from localhost'')
      else (case ab_cert_enabled body of
              None \<Rightarrow> ([], answer_ok)
            | Some b \<Rightarrow> ([EnableCertificate b], answer_ok\<lparr>an_flags := [(''cert_auth_enabled'', b)]\<rparr>)))"

section \<open>The routes\<close>

datatype AuthRoute =
    RValidate | RHomeScreen | RHomeScreenKey | RHomeScreenInstances | RPairingKey | RPinGenerate | RRegenerate | RPinClear
  | RAdminUnlock | RAdminPassword | RStatus | RLogout | RSessions | RRevoke | RCertificateDownload | RCertificateRegenerate
  | RHostKey | RAdminSettings

definition auth_routes :: "(Verb \<times> string \<times> AuthRoute) list" where
  "auth_routes =
     [(Post, ''/api/auth/validate'', RValidate), (Post, ''/api/auth/home-screen'', RHomeScreen),
      (Post, ''/api/auth/home-screen/key'', RHomeScreenKey), (Post, ''/api/auth/home-screen/instances'', RHomeScreenInstances),
      (Post, ''/api/auth/pairing-key'', RPairingKey), (Post, ''/api/admin/pin/generate'', RPinGenerate),
      (Post, ''/api/auth/regenerate'', RRegenerate), (Post, ''/api/admin/pin/clear'', RPinClear),
      (Post, ''/api/auth/admin-unlock'', RAdminUnlock), (Post, ''/api/admin/password'', RAdminPassword),
      (Get, ''/api/auth/status'', RStatus), (Post, ''/api/auth/logout'', RLogout), (Get, ''/api/auth/sessions'', RSessions),
      (Post, ''/api/auth/sessions/revoke'', RRevoke), (Get, ''/api/admin/certificate/download'', RCertificateDownload),
      (Post, ''/api/admin/certificate/regenerate'', RCertificateRegenerate),
      (Post, ''/api/auth/host-key'', RHostKey), (Post, ''/api/admin/settings'', RAdminSettings)]"

fun auth_route :: "Outside \<Rightarrow> AuthRoute \<Rightarrow> Server \<Rightarrow> Incoming \<Rightarrow> AuthBody \<Rightarrow> Drawn \<Rightarrow>
    AuthManager \<Rightarrow> AuthCall list \<times> Answer" where
  "auth_route j RValidate sv req body dr m = route_validate sv req body dr m"
| "auth_route j RHomeScreen sv req body dr m = route_home_screen sv req body dr m"
| "auth_route j RHomeScreenKey sv req body dr m = route_home_screen_key sv req dr m"
| "auth_route j RHomeScreenInstances sv req body dr m = route_home_screen_instances (os_json j) sv req body m"
| "auth_route j RPairingKey sv req body dr m = route_pairing_key sv req body m"
| "auth_route j RPinGenerate sv req body dr m = route_pin_generate req dr"
| "auth_route j RRegenerate sv req body dr m = route_regenerate req dr"
| "auth_route j RPinClear sv req body dr m = route_pin_clear req"
| "auth_route j RAdminUnlock sv req body dr m = route_admin_unlock sv req body m"
| "auth_route j RAdminPassword sv req body dr m = route_admin_password sv req body dr m"
| "auth_route j RStatus sv req body dr m = route_status sv req m"
| "auth_route j RLogout sv req body dr m = route_logout sv req m"
| "auth_route j RSessions sv req body dr m = route_sessions sv req m"
| "auth_route j RRevoke sv req body dr m = route_revoke sv req body m"
| "auth_route j RCertificateDownload sv req body dr m = route_certificate_download req m"
| "auth_route j RCertificateRegenerate sv req body dr m = route_certificate_regenerate req dr"
| "auth_route j RHostKey sv req body dr m = route_host_key j sv req body dr"
| "auth_route j RAdminSettings sv req body dr m = route_admin_settings req body"

text \<open>The local key after a handler: \<open>rotateLocalKey\<close> where the host's key opened.\<close>

definition key_after :: "Outside \<Rightarrow> AuthRoute \<Rightarrow> Server \<Rightarrow> Incoming \<Rightarrow> AuthBody \<Rightarrow> Drawn \<Rightarrow> string" where
  "key_after j route sv req body dr =
     (if route = RHostKey \<and> \<not> host_key_refused j sv req body then dr_localKey dr else os_localKey j)"

section \<open>The calls of a handler\<close>

fun callers_ok :: "QtAuth \<Rightarrow> int \<Rightarrow> AuthCall list \<Rightarrow> AuthManager \<Rightarrow> bool" where
  "callers_ok q now [] m = True"
| "callers_ok q now (c # cs) m = (caller_ok q c m \<and> callers_ok q now cs (auth_call q (now, c) m))"

lemma legal_at_once: "t \<le> now \<Longrightarrow> 0 < now \<Longrightarrow> callers_ok q now cs m \<Longrightarrow>
    legal (auth_ok q) (timed_auth q) (map (Pair now) cs) (t, m)"
  by (induction cs arbitrary: t m) (auto simp: auth_ok_def timed_auth_def simp del: auth_call.simps)

lemma after_fold: "cs \<noteq> [] \<Longrightarrow> fold (timed_auth q) (map (Pair now) cs) (t, m) = (now, after q now cs m)"
proof (induction cs arbitrary: t m)
  case (Cons c cs)
  then show ?case by (cases cs) (auto simp: timed_auth_def simp del: auth_call.simps)
qed simp

lemma after_append [simp]: "after q now (cs @ ds) m = after q now ds (after q now cs m)"
  by (induction cs arbitrary: m) (auto simp del: auth_call.simps)

lemma callers_append [simp]: "callers_ok q now (cs @ ds) m \<longleftrightarrow> callers_ok q now cs m \<and> callers_ok q now ds (after q now cs m)"
  by (induction cs arbitrary: m) (auto simp del: auth_call.simps)

text \<open>What a request draws is new: a token no session answers to, and a key no browser holds.\<close>

definition drawn_new :: "QtAuth \<Rightarrow> Drawn \<Rightarrow> AuthManager \<Rightarrow> bool" where
  "drawn_new q dr m \<longleftrightarrow> session_of m (qa_hashToken q (dr_token dr)) = None \<and> CHR 0x00 \<notin> set (minted_key q (dr_random dr)) \<and>
     minted_key q (dr_random dr) \<notin> (\<lambda>(i, k). hk_key k) ` set (am_HomeScreenKeys m)"

lemma bind_calls: "fst (bindKeyFromLoginBody q token body m) = (if ab_public_key body = [] then [] else
    [BindKey token (qa_fromBase64 q (ab_public_key body))])"
  by (simp add: bindKeyFromLoginBody_def Let_def)

lemma signed_in_calls: "fst (signed_in sv cs token b body m) = cs @ (if ab_public_key body = [] then [] else
    [BindKey token (qa_fromBase64 (sv_qt sv) (ab_public_key body))])"
  using bind_calls[of "sv_qt sv" token body "after (sv_qt sv) (sv_now sv) cs m"]
  by (cases "bindKeyFromLoginBody (sv_qt sv) token body (after (sv_qt sv) (sv_now sv) cs m)") (simp add: signed_in_def)

lemma validate_calls: "fst (route_validate sv req body dr m) =
    (let bind = (if ab_public_key body = [] then [] else [BindKey (dr_token dr) (qa_fromBase64 (sv_qt sv) (ab_public_key body))]);
         create = CreateSession (dr_token dr) (in_clientAddress req) (ab_machine_name body) False (\<not> ab_remember body) False;
         bucket = attemptAddress (sv_qt sv) (in_clientAddress req) (pq_headers req)
     in if ab_certificate body \<noteq> [] \<and> certAuthEnabled m
        then (if validateCertificate (ab_certificate body) m then create # bind else [])
        else if ab_pin body = [] then []
        else if vr_result (fst (validatePin (sv_qt sv) (sv_now sv) bucket (ab_pin body) m)) = Valid
        then [TryPin bucket (ab_pin body), create, AutoRegeneratePin (dr_pin dr)] @ bind
        else [TryPin bucket (ab_pin body)])"
  unfolding route_validate_def Let_def by (auto simp: signed_in_calls split: Verdict.split)

lemma home_calls: "fst (route_home_screen sv req body dr m) =
    (if \<not> in_viaTunnel req then []
     else case fst (redeemHomeScreenKey (sv_now sv) (ab_key body) m) of None \<Rightarrow> [RedeemKey (ab_key body)]
     | Some h \<Rightarrow> [RedeemKey (ab_key body), CreateSession (dr_token dr) (in_clientAddress req)
         (if trimmed (ab_machine_name body) = [] then hh_machineName h else trimmed (ab_machine_name body)) False False False] @
         (if ab_public_key body = [] then [] else [BindKey (dr_token dr) (qa_fromBase64 (sv_qt sv) (ab_public_key body))]))"
proof -
  have split: "fst (case x of (calls, a) \<Rightarrow> (calls, f a)) = fst x" for x :: "AuthCall list \<times> Answer" and f :: "Answer \<Rightarrow> Answer"
    by (cases x) simp
  show ?thesis unfolding route_home_screen_def Let_def
    by (cases "fst (redeemHomeScreenKey (sv_now sv) (ab_key body) m)") (auto simp: split signed_in_calls)
qed

lemma unlock_calls: "fst (route_admin_unlock sv req body m) =
    (let q = sv_qt sv; now = sv_now sv; ip = in_clientAddress req; token = sessionToken (pq_headers req)
     in if \<not> in_isLocal req \<and> \<not> in_isHostMachine req \<and> canUnlockAdmin q ip (in_hostTrusted req) (in_viaTunnel req) \<and>
           validateSession q now token m \<and> remoteAdminEnabled m \<and> adminPasswordSet m
        then (if vr_result (fst (validateAdminPassword q now ip (ab_password body) m)) = Valid
              then [TryPassword ip (ab_password body), Promote token] else [TryPassword ip (ab_password body)])
        else [])"
  unfolding route_admin_unlock_def Let_def by (auto split: Verdict.split)

lemma password_calls: "fst (route_admin_password sv req body dr m) =
    (let q = sv_qt sv; now = sv_now sv; token = sessionToken (pq_headers req);
         toggle = (case ab_enabled body of None \<Rightarrow> [] | Some b \<Rightarrow> [EnableRemoteAdmin b]);
         change = (if ab_password body = [] then [] else [SetPassword (dr_salt dr) (ab_password body)])
     in if \<not> in_isLocal req then []
        else if ab_password body \<noteq> [] \<and> \<not> fst (setAdminPassword q (dr_salt dr) (ab_password body) (after q now toggle m))
        then toggle @ change
        else toggle @ change @ (if isAdminSession q now token m \<and> remoteAdminEnabled (after q now change (after q now toggle m))
               then [Promote token] else []))"
  unfolding route_admin_password_def Let_def by auto

lemma password_stays_set:
  assumes "adminPasswordSet m" "am_Settings m \<noteq> None"
  shows "adminPasswordSet (snd (setAdminPassword q salt pw m))" "adminPasswordSet (setRemoteAdminEnabled q b m)"
  using assms by (auto simp: adminPasswordSet_def setAdminPassword_def setRemoteAdminEnabled_def encodePassword_def Let_def split: option.splits)

lemma route_callers:
  assumes "auth_inv (sv_qt sv) (t, m)" and "drawn_new (sv_qt sv) dr m"
  shows "callers_ok (sv_qt sv) (sv_now sv) (fst (auth_route j route sv req body dr m)) m"
proof -
  let ?q = "sv_qt sv"
  have new: "session_of m (qa_hashToken ?q (dr_token dr)) = None" using assms(2) by (simp add: drawn_new_def)
  have settings: "am_Settings m \<noteq> None" and table: "table_ok ?q t m" using assms(1) by (auto simp: auth_inv_def table_ok_def)
  show ?thesis
  proof (cases route)
    case RValidate
    then show ?thesis using new by (simp add: validate_calls Let_def)
  next
    case RHomeScreen
    then show ?thesis using new by (auto simp: home_calls split: option.split)
  next
    case RHomeScreenKey
    then show ?thesis using assms(2) by (simp add: route_home_screen_key_def drawn_new_def Let_def)
  next
    case RAdminUnlock
    have "door_open (snd (validateAdminPassword ?q now ip pw m)) = door_open m" for now ip pw
      by (rule door_cong) (simp add: validateAdminPassword_def)
    then show ?thesis using RAdminUnlock by (simp add: unlock_calls door_open_def Let_def)
  next
    case RAdminPassword
    let ?now = "sv_now sv"
    let ?token = "sessionToken (pq_headers req)"
    have set: "adminPasswordSet m" if admin: "isAdminSession ?q ?now ?token m"
    proof -
      obtain s where "session_of m (qa_hashToken ?q ?token) = Some s" "si_isAdmin s"
        using admin by (auto simp: isAdminSession_def session_flag_def split: if_splits option.splits)
      then show ?thesis using table by (auto simp: table_ok_def sess_ok_def door_open_def)
    qed
    define toggle where "toggle = (case ab_enabled body of None \<Rightarrow> [] | Some b \<Rightarrow> [EnableRemoteAdmin b])"
    define change where "change = (if ab_password body = [] then [] else [SetPassword (dr_salt dr) (ab_password body)])"
    have m1: "am_Settings (after ?q ?now toggle m) \<noteq> None \<and> (adminPasswordSet m \<longrightarrow> adminPasswordSet (after ?q ?now toggle m))"
      using settings password_stays_set(2)[OF _ settings] call_has_settings[OF settings, of ?q ?now]
      by (cases "ab_enabled body") (auto simp: toggle_def simp del: auth_call.simps, auto)
    have "adminPasswordSet m \<longrightarrow> adminPasswordSet (after ?q ?now change (after ?q ?now toggle m))"
      using m1 password_stays_set(1) by (auto simp: change_def)
    then have door: "isAdminSession ?q ?now ?token m \<Longrightarrow> remoteAdminEnabled (after ?q ?now change (after ?q ?now toggle m)) \<Longrightarrow>
        door_open (after ?q ?now change (after ?q ?now toggle m))" using set by (auto simp: door_open_def)
    have free: "callers_ok ?q ?now toggle n" "callers_ok ?q ?now change n" for n
      by (auto simp: toggle_def change_def split: option.split)
    show ?thesis using door free
      unfolding RAdminPassword auth_route.simps password_calls Let_def toggle_def[symmetric] change_def[symmetric] by simp
  qed (auto simp: route_home_screen_instances_def route_pairing_key_def route_pin_generate_def route_regenerate_def route_pin_clear_def
      route_status_def route_logout_def route_sessions_def route_revoke_def route_certificate_download_def
      route_certificate_regenerate_def route_host_key_def route_admin_settings_def new Let_def split: option.split)
qed

section \<open>What a handler leaves alone\<close>

fun acts_on :: "QtAuth \<Rightarrow> AuthCall \<Rightarrow> string set" where
  "acts_on q (CreateSession token ip name host eph tunnel) = {qa_hashToken q token}"
| "acts_on q (LogoutSession token) = (if token = [] then {} else {qa_hashToken q token})"
| "acts_on q (Promote token) = (if token = [] then {} else {qa_hashToken q token})"
| "acts_on q (Touch token) = {qa_hashToken q token}"
| "acts_on q (BindKey token spki) = {qa_hashToken q token}"
| "acts_on q (UpdateAddress token ip) = {qa_hashToken q token}"
| "acts_on q (TryPin ip pin) = {}"
| "acts_on q (TryPassword ip pw) = {}"
| "acts_on q (AutoRegeneratePin pin) = {}"
| "acts_on q (RedeemKey key) = {}"
| "acts_on q (MintKey random token) = {}"
| "acts_on q (SetInstances token x) = {}"
| "acts_on q _ = UNIV"

lemma call_elsewhere: "i \<notin> acts_on q c \<Longrightarrow> session_of (auth_call q (now, c) m) i = session_of m i"
  by (cases c) (auto simp: createSession_def logoutSession_def session_of_destroy promoteSessionToAdmin_def touchSession_def
      bindSessionKey_def updateSessionAddress_def validateSession_def Let_def split: if_splits option.split)

lemma after_elsewhere: "\<forall>c \<in> set cs. i \<notin> acts_on q c \<Longrightarrow> session_of (after q now cs m) i = session_of m i"
  by (induction cs arbitrary: m) (auto simp: call_elsewhere simp del: auth_call.simps)

lemma after_settings: "\<forall>c \<in> set cs. keeps_settings c \<Longrightarrow> am_Settings (after q now cs m) = am_Settings m"
  by (induction cs arbitrary: m) (auto simp: call_settings simp del: auth_call.simps)

fun keeps_pin :: "AuthCall \<Rightarrow> bool" where
  "keeps_pin (GeneratePin pin) = False"
| "keeps_pin (RegeneratePin pin) = False"
| "keeps_pin (AutoRegeneratePin pin) = False"
| "keeps_pin ClearPin = False"
| "keeps_pin (RestartAuth fresh) = False"
| "keeps_pin c = True"

lemma call_pin: "keeps_pin c \<Longrightarrow> am_CurrentPin (auth_call q (now, c) m) = am_CurrentPin m"
  by (cases c) (auto simp: createSession_def logoutSession_def destroySession_def destroyAllSessions_def purgeExpiredSessions_def
      validatePin_def attempt_def recordAttempt_def cleanupExpired_def demoteAdminSessions_def map_sessions_def
      setAdminPassword_def setRemoteAdminEnabled_def validateAdminPassword_def promoteSessionToAdmin_def touchSession_def bindSessionKey_def
      setSessionGeo_def updateSessionAddress_def setSessionStreaming_def renameSession_def homeScreenKey_def saveSessions_def am_emit_def put_session_def
      setHomeScreenInstances_def redeemHomeScreenKey_def generateCertificateToken_def setCertAuthEnabled_def Let_def split: option.split)

lemma after_pin: "\<forall>c \<in> set cs. keeps_pin c \<Longrightarrow> am_CurrentPin (after q now cs m) = am_CurrentPin m"
  by (induction cs arbitrary: m) (auto simp: call_pin simp del: auth_call.simps)

lemma token_presented: "sessionToken hs = [] \<or> sessionToken hs \<in> set (presented hs)"
proof (cases "find (\<lambda>c. startsWith_ci (trimmed c) ''mw_session='') (splitOn CHR '';'' (header hs ''cookie''))")
  case None
  then show ?thesis by (simp add: sessionToken_def cookieFromRequest_def Let_def)
next
  case (Some c)
  then have "c \<in> set (splitOn CHR '';'' (header hs ''cookie''))" "startsWith_ci (trimmed c) ''mw_session=''"
    by (auto dest!: find_in)
  moreover have n: "length ''mw_session'' + 1 = 11" "''mw_session'' @ ''='' = ''mw_session=''" by simp_all
  have "sessionToken hs = (if header hs ''cookie'' = [] then [] else drop 11 (trimmed c))"
    unfolding sessionToken_def cookieFromRequest_def Let_def n Some option.case ..
  ultimately show ?thesis by (auto simp: presented_def)
qed

text \<open>Without administration every call of a handler acts on the browser's own session or the one it just made, and on no
  setting; the PIN changes only because it was used.\<close>

lemma visitor_calls:
  assumes "\<not> in_isLocal req" and "c \<in> set (fst (auth_route j route sv req body dr m))"
  shows "acts_on (sv_qt sv) c \<subseteq> qa_hashToken (sv_qt sv) ` insert (dr_token dr) (set (presented (pq_headers req))) \<and>
    keeps_settings c \<and>
    (keeps_pin c \<or> route = RValidate \<and> vr_result (fst (validatePin (sv_qt sv) (sv_now sv)
       (attemptAddress (sv_qt sv) (in_clientAddress req) (pq_headers req)) (ab_pin body) m)) = Valid)"
proof -
  have own: "sessionToken (pq_headers req) \<noteq> [] \<Longrightarrow> sessionToken (pq_headers req) \<in> set (presented (pq_headers req))"
    using token_presented by blast
  have valid: "validateSession (sv_qt sv) (sv_now sv) (sessionToken (pq_headers req)) m \<Longrightarrow> sessionToken (pq_headers req) \<noteq> []"
    by (auto simp: validateSession_def)
  note defs = route_home_screen_key_def route_home_screen_instances_def route_pairing_key_def route_pin_generate_def
    route_regenerate_def route_pin_clear_def route_status_def route_logout_def route_sessions_def route_revoke_def
    route_certificate_download_def route_certificate_regenerate_def route_host_key_def route_admin_settings_def Let_def
  show ?thesis
  proof (cases route)
    case RValidate
    then show ?thesis using assms by (auto simp: validate_calls keeps_settings_def Let_def split: if_splits)
  next
    case RHomeScreen
    then show ?thesis using assms by (auto simp: home_calls keeps_settings_def split: if_splits option.splits)
  next
    case RAdminUnlock
    then show ?thesis using assms own by (auto simp: unlock_calls keeps_settings_def Let_def split: if_splits)
  next
    case RAdminPassword
    then show ?thesis using assms by (auto simp: password_calls Let_def)
  next
    case RStatus
    then show ?thesis using assms by (auto simp: defs keeps_settings_def dest!: find_in split: option.splits)
  qed (use assms own valid in \<open>auto simp: defs keeps_settings_def split: if_splits\<close>)
qed

end
