(* ===== verification/Web_Promises.thy ===== *)
theory Web_Promises
  imports Auth_Routes
begin

text \<open>
  The sign-in from the wire to the sessions: a request through \<open>serveRequest\<close>, the router and the handler
  (\<open>Http_Server\<close>, \<open>Rest_Router\<close>, \<open>Auth_Routes\<close>) to the calls on \<open>AuthManager\<close>, and what no request can do. The
  router here holds every route that calls \<open>AuthManager\<close> to change it while it answers. What the streams and the look-up of a place
  write later, whoever caused it, is \<open>marks\<close> below.
\<close>

section \<open>A request from the wire to the sessions\<close>

text \<open>What a request does: the calls of the handler it reaches; the key of the home-screen shortcut where it is answered with a page that
  carries it (\<open>homeScreenKey\<close> in \<open>m_HomeScreenIdentity\<close>); none elsewhere.\<close>

definition visit :: "Outside \<Rightarrow> Server \<Rightarrow> Arrival \<Rightarrow> Incoming \<Rightarrow> AuthBody \<Rightarrow> Drawn \<Rightarrow> AuthManager \<Rightarrow> AuthCall list" where
  "visit j sv arrival req body dr m =
     (let mint = [MintKey (dr_random dr) (sessionToken (pq_headers req))]
      in case fst (serveRequest (sv\<lparr>sv_AuthManager := Some m\<rparr>) (fold register auth_routes router_new) arrival req) of
           Handled route ps r \<Rightarrow> fst (auth_route j route sv r body dr m)
         | HomeScreenFile file inm \<Rightarrow> mint
         | WebManifest file \<Rightarrow> (if rs_status file = 200 then mint else [])
         | AppManifest \<Rightarrow> (if arrival = ControlTunnel \<and> sv_HomeScreenIdentity sv then mint else [])
         | _ \<Rightarrow> [])"

text \<open>The host's local key after it.\<close>

definition visit_key :: "Outside \<Rightarrow> Server \<Rightarrow> Arrival \<Rightarrow> Incoming \<Rightarrow> AuthBody \<Rightarrow> Drawn \<Rightarrow> AuthManager \<Rightarrow> string" where
  "visit_key j sv arrival req body dr m =
     (case fst (serveRequest (sv\<lparr>sv_AuthManager := Some m\<rparr>) (fold register auth_routes router_new) arrival req) of
        Handled route ps r \<Rightarrow> key_after j route sv r body dr
      | _ \<Rightarrow> os_localKey j)"

text \<open>What is written on the sessions outside of any handler: which of them streams, as streams start and end (\<open>main.cpp\<close>), and the
  place of an address, when the look-up answers.\<close>

fun marks_only :: "AuthCall \<Rightarrow> bool" where
  "marks_only (SetSessionStreaming token b) = True"
| "marks_only (SetGeo token city country) = True"
| "marks_only _ = False"

definition unmarked :: "SessionInfo \<Rightarrow> SessionInfo" where
  "unmarked s = s\<lparr>si_streaming := False, si_city := [], si_country := []\<rparr>"

lemma mark_sessions:
  assumes "marks_only c"
  shows "map_option unmarked (session_of (auth_call q (now, c) m) i) = map_option unmarked (session_of m i)"
proof -
  have clear: "map_option unmarked (map_of (map (\<lambda>(j, s). (j, if j \<noteq> k then s\<lparr>si_streaming := False\<rparr> else s)) xs) i) =
      map_option unmarked (map_of xs i)" for k xs i
    by (induction xs) (auto simp: unmarked_def)
  show ?thesis
  proof (cases c)
    case (SetSessionStreaming token b)
    define n where "n = m\<lparr>am_Sessions := map (\<lambda>(j, s). (j, if j \<noteq> qa_hashToken q token then s\<lparr>si_streaming := False\<rparr> else s)) (am_Sessions m)\<rparr>"
    have n: "map_option unmarked (session_of n k) = map_option unmarked (session_of m k)" for k
      using clear by (simp add: session_of_def n_def)
    have u: "unmarked (s\<lparr>si_streaming := x\<rparr>) = unmarked s" for s x by (simp add: unmarked_def)
    show ?thesis
    proof (cases b)
      case True
      have "b = True" using True by simp
      then show ?thesis using n[of i] n[of "qa_hashToken q token"]
        unfolding SetSessionStreaming auth_call.simps setSessionStreaming_def Let_def \<open>b = True\<close> if_True n_def[symmetric]
        by (cases "session_of n (qa_hashToken q token)") (auto simp: u)
    next
      case False
      then show ?thesis unfolding SetSessionStreaming auth_call.simps setSessionStreaming_def Let_def
        by (cases "session_of m (qa_hashToken q token)") (auto simp: u)
    qed
  next
    case (SetGeo token city country)
    then show ?thesis by (auto simp: setSessionGeo_def unmarked_def Let_def split: option.split if_split)
  qed (use assms in auto)
qed
lemma marks_sessions: "\<forall>c \<in> set cs. marks_only c \<Longrightarrow>
    map_option unmarked (session_of (after q now cs m) i) = map_option unmarked (session_of m i)"
  by (induction cs arbitrary: m) (auto simp: mark_sessions simp del: auth_call.simps)

lemma marks_keep: "marks_only c \<Longrightarrow> keeps_settings c \<and> keeps_pin c"
  by (cases c) (auto simp: keeps_settings_def)

lemma same_server [simp]:
  "sv_web (sv\<lparr>sv_AuthManager := x\<rparr>) = sv_web sv" "isLocalRequest (sv\<lparr>sv_AuthManager := x\<rparr>) = isLocalRequest sv"
  "served_at_home (sv\<lparr>sv_AuthManager := x\<rparr>) = served_at_home sv"
proof -
  show w: "sv_web (sv\<lparr>sv_AuthManager := x\<rparr>) = sv_web sv" by (simp add: sv_web_def)
  have "own_address (sv\<lparr>sv_AuthManager := x\<rparr>) = own_address sv" by (intro ext) (simp add: own_address_def)
  then show l: "isLocalRequest (sv\<lparr>sv_AuthManager := x\<rparr>) = isLocalRequest sv"
    by (intro ext) (simp add: isLocalRequest_def sv_parse_def)
  show "served_at_home (sv\<lparr>sv_AuthManager := x\<rparr>) = served_at_home sv"
    by (intro ext) (simp add: served_at_home_def w l)
qed

lemma visit_cases:
  assumes "visit j sv arrival req body dr m \<noteq> []"
  obtains (handler) route ps r where "visit j sv arrival req body dr m = fst (auth_route j route sv r body dr m)"
    "visit_key j sv arrival req body dr m = key_after j route sv r body dr"
    "serveRequest (sv\<lparr>sv_AuthManager := Some m\<rparr>) (fold register auth_routes router_new) arrival req = (Handled route ps r, False)"
    "pq_headers r = pq_headers req" "in_clientAddress r = in_clientAddress req" "in_viaTunnel r = (arrival = ControlTunnel)"
  | (shortcut) "visit j sv arrival req body dr m = [MintKey (dr_random dr) (sessionToken (pq_headers req))]"
    "visit_key j sv arrival req body dr m = os_localKey j"
proof -
  obtain x b where s: "serveRequest (sv\<lparr>sv_AuthManager := Some m\<rparr>) (fold register auth_routes router_new) arrival req = (x, b)"
    by fastforce
  show ?thesis
  proof (cases "\<exists>route ps r. x = Handled route ps r")
    case True
    then obtain route ps r where x: "x = Handled route ps r" by blast
    note parts = handled_parts[OF s[unfolded x]]
    have v: "visit j sv arrival req body dr m = fst (auth_route j route sv r body dr m)"
      "visit_key j sv arrival req body dr m = key_after j route sv r body dr"
      by (simp_all add: visit_def visit_key_def s x Let_def)
    show ?thesis using handler[OF v] s x parts(3,4) by simp
  next
    case False
    then have "visit j sv arrival req body dr m = [MintKey (dr_random dr) (sessionToken (pq_headers req))]"
      using assms s by (auto simp: visit_def Let_def split: Reply.splits if_splits)
    moreover have "visit_key j sv arrival req body dr m = os_localKey j"
      using False s by (auto simp: visit_key_def split: Reply.split)
    ultimately show ?thesis by (rule shortcut)
  qed
qed

lemma visit_none: "visit j sv arrival req body dr m = [] \<Longrightarrow> visit_key j sv arrival req body dr m \<noteq> os_localKey j \<Longrightarrow> False"
  by (auto simp: visit_def visit_key_def key_after_def route_host_key_def Let_def split: Reply.splits if_splits)

section \<open>Calls that create and promote\<close>

lemma after_present:
  assumes "session_of m i = None" "session_of (after q now cs m) i \<noteq> None" "distinct (map fst (am_Sessions m))"
    "\<forall>c \<in> set cs. \<not> restarts c"
  shows "\<exists>c \<in> set cs. creates q i c"
  using assms
proof (induction cs arbitrary: m)
  case (Cons c cs)
  show ?case
  proof (cases "creates q i c")
    case False
    then have "session_of (auth_call q (now, c) m) i = None"
      using call_session[OF Cons.prems(3) False] Cons.prems(1,4) by (cases "session_of (auth_call q (now, c) m) i") auto
    then show ?thesis using Cons distinct_sessions[OF Cons.prems(3), of c q now] by (auto simp del: auth_call.simps)
  qed simp
qed simp

lemma after_admin:
  assumes "session_of (after q now cs m) i = Some s'" "si_isAdmin s'" "distinct (map fst (am_Sessions m))"
    "\<forall>c \<in> set cs. \<not> restarts c"
  shows "(\<exists>s. session_of m i = Some s \<and> si_isAdmin s) \<or> (\<exists>c \<in> set cs. promotes q i c)"
  using assms
proof (induction cs arbitrary: m)
  case (Cons c cs)
  have d: "distinct (map fst (am_Sessions (auth_call q (now, c) m)))"
    using distinct_sessions[OF Cons.prems(3)] Cons.prems(4) by simp
  consider s where "session_of (auth_call q (now, c) m) i = Some s" "si_isAdmin s" | "\<exists>c \<in> set cs. promotes q i c"
    using Cons.IH[OF _ Cons.prems(2) d] Cons.prems(1,4) by (auto simp del: auth_call.simps)
  then show ?case
  proof cases
    case 1
    show ?thesis
    proof (cases "creates q i c")
      case True
      then show ?thesis using 1 by (cases c) (auto simp: createSession_def new_session_def no_session_def Let_def split: if_splits)
    next
      case False
      obtain r where "session_of m i = Some r" "carries q now (promotes q i c) (streams q i c) r s"
        using call_session[OF Cons.prems(3) False _ 1(1)] Cons.prems(4) by auto
      then show ?thesis using 1(2) by (auto simp: carries_def)
    qed
  qed auto
qed auto

lemma route_no_restart: "c \<in> set (fst (auth_route j route sv req body dr m)) \<Longrightarrow> \<not> restarts c"
  by (cases route) (auto simp: validate_calls home_calls unlock_calls password_calls route_home_screen_key_def route_home_screen_instances_def
      route_pairing_key_def route_pin_generate_def route_regenerate_def route_pin_clear_def route_status_def route_logout_def route_sessions_def
      route_revoke_def route_certificate_download_def route_certificate_regenerate_def route_host_key_def route_admin_settings_def Let_def split: if_splits option.splits)

lemma route_creates:
  assumes "c \<in> set (fst (auth_route j route sv r body dr m))" "creates q i c"
  shows "i = qa_hashToken q (dr_token dr) \<and>
    (certAuthEnabled m \<and> validateCertificate (ab_certificate body) m \<or>
     vr_result (fst (validatePin (sv_qt sv) (sv_now sv) (attemptAddress (sv_qt sv) (in_clientAddress r) (pq_headers r)) (ab_pin body) m)) = Valid \<or>
     in_viaTunnel r \<and> fst (redeemHomeScreenKey (sv_now sv) (ab_key body) m) \<noteq> None \<or>
     \<not> host_key_refused j sv r body)"
  using assms
  by (cases route) (auto simp: validate_calls home_calls unlock_calls password_calls route_home_screen_key_def route_home_screen_instances_def
      route_pairing_key_def route_pin_generate_def route_regenerate_def route_pin_clear_def route_status_def route_logout_def route_sessions_def
      route_revoke_def route_certificate_download_def route_certificate_regenerate_def route_host_key_def route_admin_settings_def Let_def split: if_splits option.splits)

lemma route_promotes:
  assumes "c \<in> set (fst (auth_route j route sv r body dr m))" "promotes q i c"
  shows "i = qa_hashToken q (sessionToken (pq_headers r)) \<and>
    (isAdminSession (sv_qt sv) (sv_now sv) (sessionToken (pq_headers r)) m \<or>
     canUnlockAdmin (sv_qt sv) (in_clientAddress r) (in_hostTrusted r) (in_viaTunnel r) \<and>
     validateSession (sv_qt sv) (sv_now sv) (sessionToken (pq_headers r)) m \<and>
     vr_result (fst (validateAdminPassword (sv_qt sv) (sv_now sv) (in_clientAddress r) (ab_password body) m)) = Valid)"
  using assms
  by (cases route) (auto simp: validate_calls home_calls unlock_calls password_calls route_home_screen_key_def route_home_screen_instances_def
      route_pairing_key_def route_pin_generate_def route_regenerate_def route_pin_clear_def route_status_def route_logout_def route_sessions_def
      route_revoke_def route_certificate_download_def route_certificate_regenerate_def route_host_key_def route_admin_settings_def Let_def split: if_splits option.splits)

section \<open>What holds\<close>

text \<open>C6. Whoever calls, and whatever the request says, the server keeps the bargain the guarantees of \<open>AuthManager\<close> rest on:
  the calls a request leads to extend a lawful history by a lawful one. Only a promotion is owed anything, and no route
  promotes a session unless remote administration is on and has a password.\<close>

theorem requests_keep_the_bargain:
  assumes "lawful q st es" and "reached q st es = (t, m)" and "sv_qt sv = q" and "t \<le> sv_now sv" "0 < sv_now sv"
    and "drawn_new q dr m"
  shows "lawful q st (es @ map (Pair (sv_now sv)) (visit j sv arrival req body dr m))"
proof (cases "visit j sv arrival req body dr m = []")
  case False
  have inv: "auth_inv (sv_qt sv) (t, m)" using reached_inv[OF assms(1)] assms(2,3) by simp
  have "callers_ok q (sv_now sv) (visit j sv arrival req body dr m) m"
    using False
  proof (cases rule: visit_cases)
    case (handler route ps r)
    then show ?thesis using route_callers[OF inv] assms(3,6) by simp
  next
    case shortcut
    then show ?thesis using assms(6) by (simp add: drawn_new_def)
  qed
  then have "legal (auth_ok q) (timed_auth q) (map (Pair (sv_now sv)) (visit j sv arrival req body dr m)) (t, m)"
    by (rule legal_at_once[OF assms(4,5)])
  then show ?thesis using assms(1,2) by (simp add: lawful_def reached_def)
qed (use assms(1) in simp)

lemma visitor_after:
  assumes "\<not> served_at_home sv arrival req"
    and "\<not> isHostSession (sv_qt sv) (sv_now sv) (sessionToken (pq_headers req)) m"
    and "\<not> isAdminSession (sv_qt sv) (sv_now sv) (sessionToken (pq_headers req)) m"
    and "c \<in> set (visit j sv arrival req body dr m)"
  shows "acts_on (sv_qt sv) c \<subseteq> qa_hashToken (sv_qt sv) ` insert (dr_token dr) (set (presented (pq_headers req))) \<and>
    keeps_settings c \<and>
    (keeps_pin c \<or> vr_result (fst (validatePin (sv_qt sv) (sv_now sv)
       (attemptAddress (sv_qt sv) (in_clientAddress req) (pq_headers req)) (ab_pin body) m)) = Valid)"
proof -
  have "visit j sv arrival req body dr m \<noteq> []" using assms(4) by auto
  then show ?thesis
  proof (cases rule: visit_cases)
    case (handler route ps r)
    have "\<not> in_isLocal r" using by_right[OF handler(3), of m] assms(1-3) by auto
    from visitor_calls[OF this] show ?thesis using assms(4) handler by metis
  next
    case shortcut
    then show ?thesis using assms(4) by (simp add: keeps_settings_def)
  qed
qed

lemma key_rotated:
  assumes "visit_key j sv arrival req body dr m \<noteq> os_localKey j"
  shows "plausiblyHost sv (os_publicIp j) (cleanClientAddress (in_clientAddress req)) \<and> ab_key body \<noteq> [] \<and>
    os_sha256 j (ab_key body) = os_sha256 j (os_localKey j)"
proof -
  have "visit j sv arrival req body dr m \<noteq> []" using visit_none assms by blast
  then show ?thesis
  proof (cases rule: visit_cases)
    case (handler route ps r)
    then have "\<not> host_key_refused j sv r body" using assms by (auto simp: key_after_def split: if_splits)
    then show ?thesis using handler by (simp add: host_key_refused_def)
  qed (use assms in simp)
qed

text \<open>C2. A visitor touches only what is his. After a request that does not come from the machine itself and shows no host and no
  admin session, the settings of the sign-in (the secret of the digests, the certificate, the admin password, remote administration) are
  as they were; so is every session but those whose cookies it shows and the one it may just have earned, up to the marks that
  streams and the look-up of places write on sessions by themselves; the PIN stays, unless it was this very PIN that let the
  visitor in; and the host's key stays, unless this very key was given from an address that may be the host's.\<close>

theorem visitor_confined:
  assumes "\<not> served_at_home sv arrival req"
    and "\<not> isHostSession (sv_qt sv) (sv_now sv) (sessionToken (pq_headers req)) m"
    and "\<not> isAdminSession (sv_qt sv) (sv_now sv) (sessionToken (pq_headers req)) m"
    and "\<forall>c \<in> set marks. marks_only c"
    and "m' = after (sv_qt sv) (sv_now sv) (visit j sv arrival req body dr m @ marks) m"
  shows "am_Settings m' = am_Settings m \<and>
    (map_option unmarked (session_of m' i) = map_option unmarked (session_of m i) \<or>
     i \<in> qa_hashToken (sv_qt sv) ` insert (dr_token dr) (set (presented (pq_headers req)))) \<and>
    (am_CurrentPin m' = am_CurrentPin m \<or> vr_result (fst (validatePin (sv_qt sv) (sv_now sv)
       (attemptAddress (sv_qt sv) (in_clientAddress req) (pq_headers req)) (ab_pin body) m)) = Valid) \<and>
    (visit_key j sv arrival req body dr m = os_localKey j \<or>
     plausiblyHost sv (os_publicIp j) (cleanClientAddress (in_clientAddress req)) \<and> ab_key body \<noteq> [] \<and>
     os_sha256 j (ab_key body) = os_sha256 j (os_localKey j))"
proof -
  let ?q = "sv_qt sv" and ?now = "sv_now sv"
  let ?v = "visit j sv arrival req body dr m"
  note calls = visitor_after[OF assms(1-3), where j = j and body = body and dr = dr]
  have m': "m' = after ?q ?now marks (after ?q ?now ?v m)" using assms(5) by simp
  have "session_of (after ?q ?now ?v m) i = session_of m i"
    if "i \<notin> qa_hashToken ?q ` insert (dr_token dr) (set (presented (pq_headers req)))"
    by (rule after_elsewhere) (use calls that in blast)
  moreover have "map_option unmarked (session_of m' i) = map_option unmarked (session_of (after ?q ?now ?v m) i)"
    unfolding m' by (rule marks_sessions[OF assms(4)])
  moreover have "am_Settings (after ?q ?now ?v m) = am_Settings m" by (rule after_settings) (use calls in blast)
  moreover have "am_Settings m' = am_Settings (after ?q ?now ?v m)"
    unfolding m' by (rule after_settings) (use assms(4) marks_keep in blast)
  moreover have "am_CurrentPin (after ?q ?now ?v m) = am_CurrentPin m" if "vr_result (fst (validatePin ?q ?now
       (attemptAddress ?q (in_clientAddress req) (pq_headers req)) (ab_pin body) m)) \<noteq> Valid"
    by (rule after_pin) (use calls that in blast)
  moreover have "am_CurrentPin m' = am_CurrentPin (after ?q ?now ?v m)"
    unfolding m' by (rule after_pin) (use assms(4) marks_keep in blast)
  ultimately show ?thesis using key_rotated[of j sv arrival req body dr m] by metis
qed

text \<open>C4. Nobody is signed in without a secret: where a request leaves a session that was not there, it is the one it drew, and
  the request carried the current PIN within the limits on guessing, or the certificate while certificates are
  accepted, or, through a tunnel, a home-screen key that was still good, or, from an address that may be the host's own,
  the host's key.\<close>

theorem session_needs_secret:
  assumes "auth_inv (sv_qt sv) (t, m)" and "m' = after (sv_qt sv) (sv_now sv) (visit j sv arrival req body dr m) m"
    and "session_of m i = None" and "session_of m' i \<noteq> None"
  shows "i = qa_hashToken (sv_qt sv) (dr_token dr) \<and>
    (certAuthEnabled m \<and> validateCertificate (ab_certificate body) m \<or>
     vr_result (fst (validatePin (sv_qt sv) (sv_now sv) (attemptAddress (sv_qt sv) (in_clientAddress req) (pq_headers req)) (ab_pin body) m)) = Valid \<or>
     arrival = ControlTunnel \<and> fst (redeemHomeScreenKey (sv_now sv) (ab_key body) m) \<noteq> None \<or>
     plausiblyHost sv (os_publicIp j) (cleanClientAddress (in_clientAddress req)) \<and> ab_key body \<noteq> [] \<and>
     os_sha256 j (ab_key body) = os_sha256 j (os_localKey j))"
proof -
  have d: "distinct (map fst (am_Sessions m))" using assms(1) by (simp add: auth_inv_def table_ok_def)
  have "visit j sv arrival req body dr m \<noteq> []" using assms(2-4) by auto
  then show ?thesis
  proof (cases rule: visit_cases)
    case (handler route ps r)
    have "session_of (after (sv_qt sv) (sv_now sv) (fst (auth_route j route sv r body dr m)) m) i \<noteq> None"
      using assms(2,4) handler(1) by simp
    from after_present[OF assms(3) this d] obtain c where
      "c \<in> set (fst (auth_route j route sv r body dr m))" "creates (sv_qt sv) i c"
      using route_no_restart by blast
    from route_creates[OF this] show ?thesis using handler by (auto simp: host_key_refused_def)
  next
    case shortcut
    have "session_of (after (sv_qt sv) (sv_now sv) [MintKey (dr_random dr) (sessionToken (pq_headers req))] m) i = session_of m i"
      by (rule after_elsewhere) simp
    then show ?thesis using assms(2-4) shortcut by simp
  qed
qed

text \<open>C5. Administration is gained through one door: a session that administers after a request and did not before is the
  request's own, was signed in already, sits on this network, and gave the admin password within the limits on guessing.\<close>

theorem admin_needs_password:
  assumes "auth_inv (sv_qt sv) (t, m)" and "m' = after (sv_qt sv) (sv_now sv) (visit j sv arrival req body dr m) m"
    and "session_of m' i = Some s'" "si_isAdmin s'" and "\<And>s. session_of m i = Some s \<Longrightarrow> \<not> si_isAdmin s"
  defines "token \<equiv> sessionToken (pq_headers req)"
  shows "i = qa_hashToken (sv_qt sv) token \<and> validateSession (sv_qt sv) (sv_now sv) token m \<and>
    isLanAddress (sv_qt sv) (in_clientAddress req) \<and>
    vr_result (fst (validateAdminPassword (sv_qt sv) (sv_now sv) (in_clientAddress req) (ab_password body) m)) = Valid"
proof -
  have d: "distinct (map fst (am_Sessions m))" using assms(1) by (simp add: auth_inv_def table_ok_def)
  have "visit j sv arrival req body dr m \<noteq> []" using assms(2-5) by auto
  then show ?thesis
  proof (cases rule: visit_cases)
    case (handler route ps r)
    have "session_of (after (sv_qt sv) (sv_now sv) (fst (auth_route j route sv r body dr m)) m) i = Some s'"
      using assms(2,3) handler(1) by simp
    from after_admin[OF this assms(4) d] obtain c where
      c: "c \<in> set (fst (auth_route j route sv r body dr m))" "promotes (sv_qt sv) i c"
      using route_no_restart assms(5) by blast
    note p = route_promotes[OF c]
    have "\<not> isAdminSession (sv_qt sv) (sv_now sv) token m"
      using assms(5) p handler unfolding token_def by (auto simp: isAdminSession_def session_flag_def split: if_splits option.splits)
    then show ?thesis using p handler unfolding token_def by (auto simp: canUnlockAdmin_def split: if_splits)
  next
    case shortcut
    have "session_of (after (sv_qt sv) (sv_now sv) [MintKey (dr_random dr) (sessionToken (pq_headers req))] m) i = session_of m i"
      by (rule after_elsewhere) simp
    then show ?thesis using assms(2-5) shortcut by simp
  qed
qed

text \<open>A PIN opens once: when a sign-in with it succeeded, the next attempt with the same PIN, from any address at any time,
  is refused, unless the fresh PIN drawn happens to be the same.\<close>

theorem pin_opens_once:
  assumes "fst (auth_route j RValidate sv req body dr m) = calls" and "TryPin bucket (ab_pin body) \<in> set calls"
    and "vr_result (fst (validatePin (sv_qt sv) (sv_now sv) bucket (ab_pin body) m)) = Valid"
    and "CHR 0x00 \<notin> set (ab_pin body)" "CHR 0x00 \<notin> set (dr_pin dr)" "dr_pin dr \<noteq> ab_pin body"
  shows "vr_result (fst (validatePin (sv_qt sv) later ip (ab_pin body) (after (sv_qt sv) (sv_now sv) calls m))) \<noteq> Valid"
proof -
  let ?q = "sv_qt sv" and ?now = "sv_now sv"
  let ?m = "after ?q ?now calls m"
  obtain cs where calls: "calls = cs @ [AutoRegeneratePin (dr_pin dr)] @ (if ab_public_key body = [] then [] else
      [BindKey (dr_token dr) (qa_fromBase64 ?q (ab_public_key body))])"
    using assms(1-3) by (auto simp: validate_calls Let_def split: if_splits)
  have "am_CurrentPin ?m = dr_pin dr" unfolding calls
    by (simp add: autoRegeneratePin_def am_emit_def bindSessionKey_def put_session_def saveSessions_def Let_def split: option.split)
  then have "\<not> constantTimeEquals (ab_pin body) (am_CurrentPin (cleanupExpired later ?m))"
    using equals_plain[OF assms(4,5)] assms(6) by (simp add: cleanupExpired_def)
  then show ?thesis by (simp add: validatePin_def attempt_def recordAttempt_def Let_def)
qed

text \<open>The host's key makes a host session only for a caller that can be the host, and is spent by it: offered again, it
  is refused.\<close>

theorem host_key_opens_once:
  assumes "fst (auth_route j RHostKey sv req body dr m) \<noteq> []"
    and "j' = j\<lparr>os_localKey := key_after j RHostKey sv req body dr\<rparr>" and "os_sha256 j (dr_localKey dr) \<noteq> os_sha256 j (ab_key body)"
  shows "plausiblyHost sv (os_publicIp j) (cleanClientAddress (in_clientAddress req)) \<and>
    os_sha256 j (ab_key body) = os_sha256 j (os_localKey j) \<and>
    (\<exists>name. fst (auth_route j RHostKey sv req body dr m) =
       [CreateSession (dr_token dr) (in_clientAddress req) name True False (in_viaTunnel req)]) \<and>
    auth_route j' RHostKey sv' req' body dr' m' = ([], refuse 403 ''Invalid host key'')"
  using assms by (auto simp: route_host_key_def host_key_refused_def key_after_def split: if_splits)

section \<open>Examples\<close>

text \<open>The two browsers, and a PIN shown on the host's screen.\<close>

definition pin_shown :: "(int \<times> AuthCall) list" where
  "pin_shown = two_browsers @ [(18, GeneratePin ''111111'')]"

definition pin_state :: AuthManager where
  "pin_state = snd (reached toy_auth toy_settings pin_shown)"

definition toy_body :: AuthBody where
  "toy_body = \<lparr>ab_pin = ''111111'', ab_certificate = [], ab_machine_name = ''tablet'', ab_remember = True, ab_public_key = ''spki'',
     ab_key = ''host'', ab_instances = [], ab_password = ''password'', ab_enabled = None, ab_token = [], ab_cert_enabled = None\<rparr>"

definition toy_outside :: Outside where
  "toy_outside = \<lparr>os_json = (\<lambda>xs. []), os_sha256 = id, os_publicIp = ''1.2.3.4'', os_localKey = ''other''\<rparr>"

definition toy_drawn :: Drawn where
  "toy_drawn = \<lparr>dr_token = ''n'', dr_pin = ''222222'', dr_random = ''z'', dr_salt = ''salt'', dr_certificate = ''c'', dr_localKey = ''next''\<rparr>"

definition toy_post :: "string \<Rightarrow> string \<Rightarrow> Incoming" where
  "toy_post p cookie = incoming (blank_request\<lparr>pq_method := ''POST'', pq_path := p,
     pq_headers := [''cookie'' \<mapsto> ''mw_session='' @ cookie]\<rparr>) ''1.2.3.4''"

lemma pin_lawful: "lawful toy_auth toy_settings pin_shown"
  by (rule lawful_toy) code_simp

lemma pin_reached: "reached toy_auth toy_settings pin_shown = (18, pin_state)"
  by (simp add: pin_state_def reached_def pin_shown_def timed_auth_def del: auth_call.simps split: prod.split)

lemma pin_inv: "auth_inv (sv_qt (toy_server pin_state)) (18, pin_state)"
  using reached_inv[OF pin_lawful] by (simp add: pin_reached toy_server_def)

definition toy_sign_in :: "AuthCall list" where
  "toy_sign_in = visit toy_outside (toy_server pin_state) Socket (toy_post ''/api/auth/validate'' ''x'') toy_body toy_drawn pin_state"

lemma toy_calls: "toy_sign_in = [TryPin ''1.2.3.4'' ''111111'', CreateSession ''n'' ''1.2.3.4'' ''tablet'' False False False,
    AutoRegeneratePin ''222222'', BindKey ''n'' ''spki'']"
  by code_simp

lemma requests_keep_the_bargain_witness:
  "lawful toy_auth toy_settings (pin_shown @ map (Pair 30) toy_sign_in) \<and> length toy_sign_in = 4"
proof -
  have new: "drawn_new toy_auth toy_drawn pin_state" by code_simp
  have "lawful toy_auth toy_settings (pin_shown @ map (Pair (sv_now (toy_server pin_state))) toy_sign_in)"
    unfolding toy_sign_in_def
    by (rule requests_keep_the_bargain[OF pin_lawful pin_reached _ _ _ new]) (simp_all add: toy_server_def)
  then show ?thesis by (simp add: toy_calls) (simp add: toy_server_def)
qed

lemma visitor_confined_witness:
  "map_option unmarked (session_of (after toy_auth 30 (toy_sign_in @ [SetSessionStreaming ''n'' True]) pin_state) ''a'') =
     map_option unmarked (session_of pin_state ''a'') \<and>
   am_Settings (after toy_auth 30 (toy_sign_in @ [SetSessionStreaming ''n'' True]) pin_state) = am_Settings pin_state \<and>
   visit_key toy_outside (toy_server pin_state) Socket (toy_post ''/api/auth/validate'' ''x'') toy_body toy_drawn pin_state = ''other''"
proof -
  let ?sv = "toy_server pin_state" and ?r = "toy_post ''/api/auth/validate'' ''x''"
  have f: "\<not> served_at_home ?sv Socket ?r" "\<not> isHostSession (sv_qt ?sv) (sv_now ?sv) (sessionToken (pq_headers ?r)) pin_state"
    "\<not> isAdminSession (sv_qt ?sv) (sv_now ?sv) (sessionToken (pq_headers ?r)) pin_state"
    "''a'' \<notin> qa_hashToken (sv_qt ?sv) ` insert (dr_token toy_drawn) (set (presented (pq_headers ?r)))"
    "visit_key toy_outside ?sv Socket ?r toy_body toy_drawn pin_state = ''other''" by code_simp+
  have mk: "\<forall>c \<in> set [SetSessionStreaming ''n'' True]. marks_only c" by simp
  show ?thesis using visitor_confined[OF f(1-3) mk refl, of toy_outside toy_body toy_drawn "''a''"] f(4,5)
    unfolding toy_sign_in_def[symmetric] by (simp add: toy_server_def del: auth_call.simps after_append)
qed

lemma session_needs_secret_witness:
  "''n'' = qa_hashToken toy_auth ''n'' \<and>
   vr_result (fst (validatePin toy_auth 30 (attemptAddress toy_auth ''1.2.3.4'' (pq_headers (toy_post ''/api/auth/validate'' ''x''))) ''111111'' pin_state)) = Valid"
proof -
  let ?sv = "toy_server pin_state" and ?r = "toy_post ''/api/auth/validate'' ''x''"
  have f: "session_of pin_state ''n'' = None"
    "session_of (after (sv_qt ?sv) (sv_now ?sv) toy_sign_in pin_state) ''n'' \<noteq> None" "\<not> certAuthEnabled pin_state"
    "os_sha256 toy_outside (ab_key toy_body) \<noteq> os_sha256 toy_outside (os_localKey toy_outside)" by code_simp+
  show ?thesis using session_needs_secret[OF pin_inv refl f(1) f(2)[unfolded toy_sign_in_def]] f(3,4)
    by (simp add: toy_server_def toy_post_def toy_body_def toy_drawn_def incoming_def Parsed.defs)
qed

text \<open>The same host on a network it can tell: one address of it is private.\<close>

definition lan_auth :: QtAuth where
  "lan_auth = toy_auth\<lparr>qw_net := \<lparr>qt_parse = (\<lambda>s. if s = ''10.0.0.7'' then IPv4 0x0A000007 else NullAddress),
     qt_isLoopback = (\<lambda>a. False)\<rparr>\<rparr>"

definition lan_server :: Server where
  "lan_server = (toy_server pin_state)\<lparr>sv_qt := lan_auth\<rparr>"

definition lan_unlock :: Incoming where
  "lan_unlock = (toy_post ''/api/auth/admin-unlock'' ''b'')\<lparr>in_clientAddress := ''10.0.0.7''\<rparr>"

definition lan_state :: AuthManager where
  "lan_state = snd (reached lan_auth toy_settings pin_shown)"

lemma lan_unlocked: "visit toy_outside lan_server ControlTunnel lan_unlock toy_body toy_drawn lan_state =
    [TryPassword ''10.0.0.7'' ''password'', Promote ''b'']"
  by code_simp

lemma admin_needs_password_witness: "isLanAddress lan_auth ''10.0.0.7'' \<and> validateSession lan_auth 30 ''b'' lan_state"
proof -
  have "key_text_ok lan_auth" by (simp add: lan_auth_def key_text_ok_def toy_auth_def)
  moreover have "legal (auth_ok lan_auth) (timed_auth lan_auth) pin_shown (fresh_auth lan_auth toy_settings)" by code_simp
  ultimately have l: "lawful lan_auth toy_settings pin_shown" by (simp add: lawful_def)
  obtain t where t: "reached lan_auth toy_settings pin_shown = (t, lan_state)" by (metis lan_state_def prod.collapse)
  have inv: "auth_inv (sv_qt lan_server) (t, lan_state)" using reached_inv[OF l] by (simp add: t lan_server_def)
  have n: "case session_of (after (sv_qt lan_server) (sv_now lan_server) [TryPassword ''10.0.0.7'' ''password'', Promote ''b''] lan_state) ''b'' of
      None \<Rightarrow> False | Some s \<Rightarrow> si_isAdmin s" by code_simp
  then obtain s' where s': "session_of (after (sv_qt lan_server) (sv_now lan_server)
      (visit toy_outside lan_server ControlTunnel lan_unlock toy_body toy_drawn lan_state) lan_state) ''b'' = Some s'" "si_isAdmin s'"
    unfolding lan_unlocked by (auto split: option.splits)
  have "case session_of lan_state ''b'' of None \<Rightarrow> True | Some s \<Rightarrow> \<not> si_isAdmin s" by code_simp
  then have was: "\<And>s. session_of lan_state ''b'' = Some s \<Longrightarrow> \<not> si_isAdmin s" by simp
  have tok: "sessionToken (pq_headers lan_unlock) = ''b''" "in_clientAddress lan_unlock = ''10.0.0.7''" by code_simp+
  show ?thesis using admin_needs_password[OF inv refl s' was] unfolding tok by (simp add: lan_server_def toy_server_def)
qed

lemma pin_opens_once_witness:
  "vr_result (fst (validatePin toy_auth 31 ''5.6.7.8'' ''111111'' (after toy_auth 30 toy_sign_in pin_state))) \<noteq> Valid"
proof -
  let ?sv = "toy_server pin_state" and ?r = "toy_post ''/api/auth/validate'' ''x''"
  have c: "fst (auth_route toy_outside RValidate ?sv ?r toy_body toy_drawn pin_state) = toy_sign_in"
    "TryPin ''1.2.3.4'' (ab_pin toy_body) \<in> set toy_sign_in"
    "vr_result (fst (validatePin (sv_qt ?sv) (sv_now ?sv) ''1.2.3.4'' (ab_pin toy_body) pin_state)) = Valid" by code_simp+
  show ?thesis using pin_opens_once[OF c, of 31 "''5.6.7.8''"] by (simp add: toy_body_def toy_drawn_def toy_server_def)
qed

lemma host_key_opens_once_witness:
  "auth_route (toy_outside\<lparr>os_localKey := ''next''\<rparr>) RHostKey (toy_server pin_state) (toy_post ''/api/auth/host-key'' []) toy_body toy_drawn pin_state =
     ([], refuse 403 ''Invalid host key'')"
proof -
  let ?sv = "toy_server pin_state" and ?r = "toy_post ''/api/auth/host-key'' []"
  have c: "fst (auth_route (toy_outside\<lparr>os_localKey := ''host''\<rparr>) RHostKey ?sv ?r toy_body toy_drawn pin_state) \<noteq> []"
    "key_after (toy_outside\<lparr>os_localKey := ''host''\<rparr>) RHostKey ?sv ?r toy_body toy_drawn = ''next''" by code_simp+
  have n: "os_sha256 (toy_outside\<lparr>os_localKey := ''host''\<rparr>) (dr_localKey toy_drawn) \<noteq> os_sha256 (toy_outside\<lparr>os_localKey := ''host''\<rparr>) (ab_key toy_body)"
    by (simp add: toy_outside_def toy_drawn_def toy_body_def)
  show ?thesis using host_key_opens_once[OF c(1) refl n, of ?sv ?r toy_drawn pin_state] unfolding c(2) by simp
qed

end
