(* ===== verification/Double_Math.thy ===== *)
theory Double_Math
  imports MW_Prelude "HOL-Library.Log_Nat"
begin

text \<open>
  The \<open>double\<close> arithmetic of the sources, on the rationals a \<open>double\<close> stands for: a result is the nearest number of 53
  significant bits, ties to the even one. The exponent is not bounded; the values here stay far inside the range.
\<close>

section \<open>Rounding\<close>

definition pow2 :: "int \<Rightarrow> rat" where
  "pow2 k = (if 0 \<le> k then 2 ^ nat k else 1 / 2 ^ nat (- k))"

text \<open>The exponent that leaves a positive number a significand of 53 bits.\<close>

definition fl_exp :: "rat \<Rightarrow> int" where
  "fl_exp x =
     (let (p, q) = quotient_of x; k = bitlen p - bitlen q - 53
      in if x < 2 ^ 53 * pow2 k then k else k + 1)"

definition half_even :: "rat \<Rightarrow> int" where
  "half_even m =
     (let f = \<lfloor>m\<rfloor>; d = m - of_int f
      in if d < 1 / 2 then f else if d > 1 / 2 then f + 1 else if even f then f else f + 1)"

definition fl :: "rat \<Rightarrow> rat" where
  "fl x =
     (if x = 0 then 0
      else let k = fl_exp \<bar>x\<bar>; m = rat_of_int (half_even (\<bar>x\<bar> / pow2 k)) * pow2 k
           in if x < 0 then - m else m)"

text \<open>\<open>std::lround\<close>: to the nearest integer, halves away from zero.\<close>

definition lround :: "rat \<Rightarrow> int" where
  "lround x = (if 0 \<le> x then \<lfloor>x + 1 / 2\<rfloor> else - \<lfloor>1 / 2 - x\<rfloor>)"

section \<open>How far a result is off\<close>

lemma pow2_pos [simp]: "0 < pow2 k"
  by (simp add: pow2_def)

lemma half_even_near: "\<bar>of_int (half_even m) - m\<bar> \<le> 1 / 2"
proof -
  have "of_int \<lfloor>m\<rfloor> \<le> m" "m < of_int \<lfloor>m\<rfloor> + 1" by linarith+
  then show ?thesis by (auto simp: half_even_def Let_def abs_le_iff)
qed

lemma bits_below: "0 < (p :: int) \<Longrightarrow> 2 ^ nat (bitlen p - 1) \<le> p \<and> p < 2 ^ nat (bitlen p)"
  using bitlen_bounds by auto

lemma pow2_add: "pow2 (a + b) = pow2 a * pow2 b"
proof -
  have "pow2 k = 2 powi k" for k by (auto simp: pow2_def power_int_def field_simps)
  then show ?thesis by (simp add: power_int_add)
qed

lemma significand:
  assumes "0 < x" shows "2 ^ 52 \<le> x / pow2 (fl_exp x)"
proof -
  obtain p q where x: "quotient_of x = (p, q)" by (cases "quotient_of x")
  then have q: "0 < q" and eq: "x = of_int p / of_int q" by (auto intro: quotient_of_denom_pos quotient_of_div)
  then have p: "0 < p" using assms by (simp add: zero_less_divide_iff)
  let ?k = "bitlen p - bitlen q - 53"
  have b: "0 < bitlen p" "0 < bitlen q" using p q by (simp_all add: bitlen_alt_def)
  have "rat_of_int (2 ^ nat (bitlen p - 1)) \<le> of_int p" "of_int q \<le> rat_of_int (2 ^ nat (bitlen q))"
    unfolding of_int_le_iff using bits_below[OF p] bits_below[OF q] by linarith+
  then have "pow2 (bitlen p - 1) \<le> of_int p" "of_int q \<le> pow2 (bitlen q)" using b by (simp_all add: pow2_def)
  moreover have "pow2 (bitlen p - 1) = 2 ^ 52 * pow2 ?k * pow2 (bitlen q)"
  proof -
    have "pow2 (bitlen p - 1) = pow2 (52 + ?k + bitlen q)" by simp
    also have "\<dots> = pow2 52 * pow2 ?k * pow2 (bitlen q)" by (simp only: pow2_add)
    finally show ?thesis by (simp add: pow2_def)
  qed
  ultimately have "2 ^ 52 * pow2 ?k * of_int q \<le> of_int p" 
    by (smt (verit, best) mult_left_mono pow2_pos mult_pos_pos zero_less_numeral zero_less_power less_imp_le order_trans)
  then have low: "2 ^ 52 * pow2 ?k \<le> x" using q eq by (simp add: pos_le_divide_eq)
  have "pow2 (?k + 1) = 2 * pow2 ?k" by (simp only: pow2_add) (simp add: pow2_def)
  then have "2 ^ 52 * pow2 (fl_exp x) \<le> x" using low by (auto simp: fl_exp_def x Let_def)
  then show ?thesis by (simp add: pos_le_divide_eq)
qed

lemma fl_near: "\<bar>fl x - x\<bar> \<le> \<bar>x\<bar> / 2 ^ 53"
proof -
  have pos: "\<bar>of_int (half_even (y / pow2 (fl_exp y))) * pow2 (fl_exp y) - y\<bar> \<le> y / 2 ^ 53" if "0 < y" for y
  proof -
    let ?s = "pow2 (fl_exp y)"
    have "of_int (half_even (y / ?s)) * ?s - y = (of_int (half_even (y / ?s)) - y / ?s) * ?s"
      using less_imp_neq[OF pow2_pos[of "fl_exp y"]] by (simp add: left_diff_distrib)
    then have "\<bar>of_int (half_even (y / ?s)) * ?s - y\<bar> = \<bar>of_int (half_even (y / ?s)) - y / ?s\<bar> * ?s"
      using pow2_pos[of "fl_exp y"] by (simp add: abs_mult abs_of_pos)
    also have "\<dots> \<le> 1 / 2 * ?s" using half_even_near less_imp_le[OF pow2_pos] by (intro mult_right_mono)
    also have "\<dots> \<le> y / 2 ^ 53" using significand[OF that] by (simp add: field_simps)
    finally show ?thesis .
  qed
  consider "x = 0" | "0 < x" | "x < 0" by linarith
  then show ?thesis
  proof cases
    case 3
    define r where "r = of_int (half_even (- x / pow2 (fl_exp (- x)))) * pow2 (fl_exp (- x))"
    have "\<bar>r - - x\<bar> \<le> - x / 2 ^ 53" using pos[of "- x"] 3 by (simp add: r_def)
    moreover have "\<bar>r - - x\<bar> = \<bar>- r - x\<bar>" by linarith
    moreover have "fl x = - r" using 3 by (simp add: fl_def Let_def r_def)
    ultimately show ?thesis using 3 by (simp only: abs_of_neg)
  qed (use pos[of x] in \<open>simp_all add: fl_def Let_def\<close>)
qed

lemma fl_0 [simp]: "fl 0 = 0"
  by (simp add: fl_def)

lemma fl_le: "0 \<le> x \<Longrightarrow> fl x \<le> x * (1 + 1 / 2 ^ 53)" and fl_ge: "0 \<le> x \<Longrightarrow> x * (1 - 1 / 2 ^ 53) \<le> fl x"
proof -
  assume "0 \<le> x"
  then have b: "\<bar>fl x - x\<bar> \<le> x / 2 ^ 53" using fl_near[of x] by (simp only: abs_of_nonneg)
  have "fl x - x \<le> \<bar>fl x - x\<bar>" "x - fl x \<le> \<bar>fl x - x\<bar>" by simp_all
  then have "fl x - x \<le> x / 2 ^ 53" "x - fl x \<le> x / 2 ^ 53" using b by linarith+
  then show "fl x \<le> x * (1 + 1 / 2 ^ 53)" "x * (1 - 1 / 2 ^ 53) \<le> fl x" by (simp_all add: field_simps)
qed

lemma fl_examples: "fl (1366 / 768) = 8010308712224085 / 4503599627370496" "lround (5 / 2) = 3" "lround (- (5 / 2)) = - 3"
  by code_simp+

end
