(* ===== verification/Display_Kinds.thy ===== *)
theory Display_Kinds
  imports MW_Prelude "HOL-Library.Sublist"
begin

text \<open>
  The names of the engine's choices and what kind of display an output is (\<open>native-host/include/mw/native/Capabilities.h\<close>,
  \<open>native-host/src/core/Capabilities.cpp\<close>). \<open>std::tolower\<close> is the one of the C locale.
\<close>

section \<open>The choices and their names\<close>

datatype Codec = Av1 | Hevc | H264

datatype EncoderApi = NoEncoder | Nvenc | Amf | Vpl | VaApi | VideoToolbox | MediaFoundation | Software

datatype CaptureApi = NoCapture | DxgiDuplication | WindowsGraphicsCapture | PipeWire | ScreenCaptureKit | Kms

datatype Unavailability = Usable | NoDisplay | NoCaptureApi | CapturePermission | EncoderMissing | NoInteractiveSession
  | OsTooOld | ArchNotSupported | ProbeFailed

datatype DisplayKind = UnknownKind | BuiltIn | External | Virtual

fun codec_name :: "Codec \<Rightarrow> string" where
  "codec_name Av1 = ''AV1''"
| "codec_name Hevc = ''HEVC''"
| "codec_name H264 = ''H.264''"

fun encoder_name :: "EncoderApi \<Rightarrow> string" where
  "encoder_name NoEncoder = ''none''"
| "encoder_name Nvenc = ''NVENC''"
| "encoder_name Amf = ''AMF''"
| "encoder_name Vpl = ''oneVPL''"
| "encoder_name VaApi = ''VA-API''"
| "encoder_name VideoToolbox = ''VideoToolbox''"
| "encoder_name MediaFoundation = ''Media Foundation''"
| "encoder_name Software = ''software''"

fun capture_name :: "CaptureApi \<Rightarrow> string" where
  "capture_name NoCapture = ''none''"
| "capture_name DxgiDuplication = ''DXGI Desktop Duplication''"
| "capture_name WindowsGraphicsCapture = ''Windows.Graphics.Capture''"
| "capture_name PipeWire = ''PipeWire''"
| "capture_name ScreenCaptureKit = ''ScreenCaptureKit''"
| "capture_name Kms = ''DRM/KMS''"

fun unavailable_name :: "Unavailability \<Rightarrow> string" where
  "unavailable_name Usable = ''available''"
| "unavailable_name NoDisplay = ''no display attached''"
| "unavailable_name NoCaptureApi = ''no usable capture API''"
| "unavailable_name CapturePermission = ''screen capture permission not granted''"
| "unavailable_name EncoderMissing = ''no usable encoder''"
| "unavailable_name NoInteractiveSession = ''no interactive desktop session''"
| "unavailable_name OsTooOld = ''operating system too old''"
| "unavailable_name ArchNotSupported = ''architecture not supported''"
| "unavailable_name ProbeFailed = ''probe failed''"

fun kind_name :: "DisplayKind \<Rightarrow> string" where
  "kind_name UnknownKind = ''unknown''"
| "kind_name BuiltIn = ''builtin''"
| "kind_name External = ''external''"
| "kind_name Virtual = ''virtual''"

definition displayKindFromString :: "string \<Rightarrow> DisplayKind" where
  "displayKindFromString s =
     (if s = ''builtin'' then BuiltIn else if s = ''external'' then External else if s = ''virtual'' then Virtual
      else UnknownKind)"

section \<open>What an output is\<close>

definition virtual_markers :: "string list" where
  "virtual_markers = [''virtual'', ''vdd'', ''parsec'', ''sudovda'', ''dummy'', ''headless'']"

definition nameLooksVirtual :: "string \<Rightarrow> bool" where
  "nameLooksVirtual monitorName \<longleftrightarrow> list_ex (\<lambda>marker. sublist marker (map lower monitorName)) virtual_markers"

definition classifyOutputTechnology :: "int \<Rightarrow> string \<Rightarrow> DisplayKind" where
  "classifyOutputTechnology technology monitorName =
     (if nameLooksVirtual monitorName then Virtual
      else if technology \<in> {0x80000000, 6, 11, 13} then BuiltIn
      else if technology = 17 then Virtual
      else if technology \<in> {16, - 1, 0xFFFFFFFF} then (if monitorName = [] then Virtual else External)
      else External)"

definition classifyConnectorName :: "string \<Rightarrow> DisplayKind" where
  "classifyConnectorName connector =
     (if connector = [] then UnknownKind
      else let lower = map lower (takeWhile (\<lambda>c. c \<noteq> CHR ''-'') connector)
           in if lower \<in> {''edp'', ''lvds'', ''dsi''} then BuiltIn
              else if lower \<in> {''virtual'', ''writeback''} then Virtual
              else External)"

section \<open>What holds of them\<close>

text \<open>The name of a kind is read back as the kind, and no other text names one that is known.\<close>

lemma kind_read_back: "displayKindFromString (kind_name k) = k"
  by (cases k) (simp_all add: displayKindFromString_def)

lemma known_kind_has_its_name: "displayKindFromString s = k \<Longrightarrow> k \<noteq> UnknownKind \<Longrightarrow> s = kind_name k"
  by (auto simp: displayKindFromString_def split: if_splits)

text \<open>A marker anywhere in a monitor's name, in letters of either case, makes it virtual whatever cable Windows reports.\<close>

lemma marked_is_virtual:
  "map lower marker \<in> set virtual_markers \<Longrightarrow> classifyOutputTechnology technology (before @ marker @ after) = Virtual"
  unfolding classifyOutputTechnology_def nameLooksVirtual_def list_ex_iff
  by (auto intro!: bexI[of _ "map lower marker"])

text \<open>Without a name only what the platform calls built in, or a cable, is not virtual.\<close>

lemma nameless_virtual_iff:
  "classifyOutputTechnology technology [] = Virtual \<longleftrightarrow> technology \<in> {16, 17, - 1, 0xFFFFFFFF}"
  by (auto simp: classifyOutputTechnology_def nameLooksVirtual_def virtual_markers_def)

text \<open>Only the type before the first dash of a connector counts.\<close>

lemma connector_number_ignored:
  "CHR ''-'' \<notin> set t \<Longrightarrow> t \<noteq> [] \<Longrightarrow> classifyConnectorName (t @ CHR ''-'' # number) = classifyConnectorName t"
proof -
  assume t: "CHR ''-'' \<notin> set t" "t \<noteq> []"
  then have "\<forall>c \<in> set t. c \<noteq> CHR ''-''" by auto
  then have "takeWhile (\<lambda>c. c \<noteq> CHR ''-'') (t @ CHR ''-'' # number) = t" "takeWhile (\<lambda>c. c \<noteq> CHR ''-'') t = t"
    using takeWhile_append2[of t] takeWhile_eq_all_conv[of _ t] by fastforce+
  then show "classifyConnectorName (t @ CHR ''-'' # number) = classifyConnectorName t"
    using t by (simp add: classifyConnectorName_def del: takeWhile_eq_all_conv)
qed

end
