(* ===== verification/Encoder_Selection.thy ===== *)
theory Encoder_Selection
  imports Double_Math Display_Kinds
begin

unbundle bit_operations_syntax

text \<open>
  Which display, GPU, encoder, codec and picture size a session gets: \<open>select\<close> and the geometry beside it
  (\<open>native-host/src/core/Selector.h\<close> and \<open>.cpp\<close>), with the records it reads (\<open>Capabilities.h\<close>, \<open>SessionConfig.h\<close>,
  \<open>Capabilities.cpp\<close>). A pointer into the list of GPUs is the index; what is only logged, and the fields of a record that no decision reads, are left out.
\<close>

section \<open>The machine and the request\<close>

record GpuInfo =
  gi_id :: int
  gi_name :: string
  gi_encoders :: "EncoderApi list"
  gi_codecs :: "Codec list"
  gi_supports10Bit :: bool
  gi_codecs444 :: "Codec list"

record FallbackEncoder =
  fe_api :: EncoderApi
  fe_codecs :: "Codec list"
  fe_hardware :: bool
  fe_name :: string

record DisplayInfo =
  di_id :: int
  di_width :: int
  di_height :: int
  di_refreshMilliHz :: int
  di_gpuId :: int
  di_hdrActive :: bool
  di_primary :: bool

record Capabilities =
  cp_gpus :: "GpuInfo list"
  cp_displays :: "DisplayInfo list"
  cp_fallbacks :: "FallbackEncoder list"

record SessionConfig =
  sc_displayId :: int
  sc_width :: int
  sc_height :: int
  sc_fps :: int
  sc_clientCodecs :: "Codec list"
  sc_hdr :: bool
  sc_yuv444 :: bool
  sc_fitRequestedBox :: bool
  sc_allowUpscale :: bool
  sc_matchClientDisplay :: bool
  sc_requestedWidth :: int
  sc_requestedHeight :: int
  sc_fallbackWidth :: int
  sc_fallbackHeight :: int
  sc_encodeGpuId :: int

record Selection =
  se_display :: DisplayInfo
  se_gpu :: "nat option"
  se_codec :: Codec
  se_encoder :: EncoderApi
  se_width :: int
  se_height :: int
  se_fps :: int
  se_hdr :: bool
  se_hdrCapable :: bool
  se_yuv444 :: bool
  se_crossGpuCopy :: bool
  se_fallbackEncoder :: bool
  se_cpuEncoder :: bool

section \<open>Looking around\<close>

definition findDisplay :: "Capabilities \<Rightarrow> int \<Rightarrow> DisplayInfo option" where
  "findDisplay caps displayId =
     (if displayId < 0
      then (case find di_primary (cp_displays caps) of
              Some d \<Rightarrow> Some d
            | None \<Rightarrow> (case cp_displays caps of [] \<Rightarrow> None | d # _ \<Rightarrow> Some d))
      else find (\<lambda>d. di_id d = displayId) (cp_displays caps))"

fun first_index :: "('a \<Rightarrow> bool) \<Rightarrow> 'a list \<Rightarrow> nat option" where
  "first_index P [] = None"
| "first_index P (x # xs) = (if P x then Some 0 else map_option Suc (first_index P xs))"

fun last_index :: "('a \<Rightarrow> bool) \<Rightarrow> 'a list \<Rightarrow> nat option" where
  "last_index P [] = None"
| "last_index P (x # xs) = (case last_index P xs of Some i \<Rightarrow> Some (Suc i) | None \<Rightarrow> if P x then Some 0 else None)"

definition gpuFor :: "Capabilities \<Rightarrow> DisplayInfo \<Rightarrow> nat option" where
  "gpuFor caps d = first_index (\<lambda>gpu. gi_id gpu = di_gpuId d) (cp_gpus caps)"

definition can_encode :: "GpuInfo \<Rightarrow> bool" where
  "can_encode gpu \<longleftrightarrow> gi_encoders gpu \<noteq> [] \<and> gi_codecs gpu \<noteq> []"

definition anyGpuEncodes :: "Capabilities \<Rightarrow> bool" where
  "anyGpuEncodes caps \<longleftrightarrow> list_ex can_encode (cp_gpus caps)"

definition firstEncodingGpu :: "Capabilities \<Rightarrow> nat option" where
  "firstEncodingGpu caps = first_index can_encode (cp_gpus caps)"

definition supports444 :: "GpuInfo \<Rightarrow> Codec \<Rightarrow> bool" where
  "supports444 gpu codec \<longleftrightarrow> codec \<in> set (gi_codecs444 gpu)"

definition hasCodec :: "Codec list \<Rightarrow> Codec \<Rightarrow> bool" where
  "hasCodec codecs codec \<longleftrightarrow> codec \<in> set codecs"

definition bestFallback :: "Capabilities \<Rightarrow> FallbackEncoder option" where
  "bestFallback caps =
     fold (\<lambda>fb best. if fe_api fb = NoEncoder \<or> fe_codecs fb = [] then best
        else case best of None \<Rightarrow> Some fb
             | Some b \<Rightarrow> if fe_hardware fb \<and> \<not> fe_hardware b then Some fb else Some b)
       (cp_fallbacks caps) None"

section \<open>Geometry\<close>

record FrameSize =
  fs_width :: int
  fs_height :: int

record FramePolicy =
  fp_fitBox :: bool
  fp_allowUpscale :: bool

definition even_down :: "int \<Rightarrow> int" where
  "even_down x = x AND NOT 1"

definition aspect :: "FrameSize \<Rightarrow> rat" where
  "aspect s = fl (of_int (fs_width s) / of_int (fs_height s))"

definition shape_differs :: "FrameSize \<Rightarrow> FrameSize \<Rightarrow> bool" where
  "shape_differs display frame \<longleftrightarrow>
     fl (\<bar>fl (aspect frame - aspect display)\<bar> / aspect display) > fl (5 / 1000)"

definition reshaped :: "FrameSize \<Rightarrow> FrameSize \<Rightarrow> FramePolicy \<Rightarrow> FrameSize" where
  "reshaped display frame policy =
     (let by_height = frame\<lparr>fs_width := even_down (lround (fl (of_int (fs_height frame) * aspect display)))\<rparr>;
          by_width = frame\<lparr>fs_height := even_down (lround (fl (of_int (fs_width frame) / aspect display)))\<rparr>
      in if shape_differs display frame
         then (if \<not> fp_fitBox policy then by_height
               else if aspect frame > aspect display then by_height
               else by_width)
         else frame)"

definition frameForDisplay :: "FrameSize \<Rightarrow> FrameSize \<Rightarrow> FramePolicy \<Rightarrow> FrameSize" where
  "frameForDisplay display frame policy =
     (if fs_width display \<le> 0 \<or> fs_height display \<le> 0 \<or> fs_width frame \<le> 0 \<or> fs_height frame \<le> 0 then frame
      else let out = reshaped display frame policy;
               out = \<lparr>fs_width = even_down (fs_width out), fs_height = even_down (fs_height out)\<rparr>
           in if \<not> fp_allowUpscale policy \<and> (fs_width out > fs_width display \<or> fs_height out > fs_height display)
              then \<lparr>fs_width = even_down (fs_width display), fs_height = even_down (fs_height display)\<rparr>
              else out)"

text \<open>The walk down the grid of blocks: the best pair so far with its error, and the steps left.\<close>

fun block_walk :: "nat \<Rightarrow> int \<Rightarrow> int \<Rightarrow> int \<Rightarrow> rat \<Rightarrow> int \<Rightarrow> FrameSize \<times> rat \<Rightarrow> FrameSize" where
  "block_walk 0 w h block wanted i best = fst best"
| "block_walk (Suc n) w h block wanted i (best, bestErr) =
     (let cw = w - i * block
      in if cw < block then best
         else let ch = lround (fl (of_int cw / wanted)) AND NOT (block - 1);
                  ch = (if ch > h then h else ch);
                  err = \<bar>fl (fl (of_int cw / of_int ch) - wanted)\<bar>
              in if ch < block then block_walk n w h block wanted (i + 1) (best, bestErr)
                 else block_walk n w h block wanted (i + 1)
                   (if err < fl (bestErr - fl (1 / 10 ^ 12)) then (\<lparr>fs_width = cw, fs_height = ch\<rparr>, err) else (best, bestErr)))"

definition alignedToBlocks :: "FrameSize \<Rightarrow> int \<Rightarrow> FrameSize" where
  "alignedToBlocks frame block =
     (if block \<le> 1 \<or> block AND (block - 1) \<noteq> 0 then frame
      else if fs_width frame \<le> 0 \<or> fs_height frame \<le> 0 then frame
      else let w = fs_width frame AND NOT (block - 1); h = fs_height frame AND NOT (block - 1)
           in if w = fs_width frame \<and> h = fs_height frame then frame
              else if w < block \<or> h < block then \<lparr>fs_width = max w block, fs_height = max h block\<rparr>
              else let wanted = fl (of_int (fs_width frame) / of_int (fs_height frame));
                       bestErr = \<bar>fl (fl (of_int w / of_int h) - wanted)\<bar>
                   in block_walk 17 w h block wanted 0 (\<lparr>fs_width = w, fs_height = h\<rparr>, bestErr))"

definition policyOf :: "SessionConfig \<Rightarrow> FramePolicy" where
  "policyOf config = \<lparr>fp_fitBox = sc_fitRequestedBox config, fp_allowUpscale = sc_fitRequestedBox config \<and> sc_allowUpscale config\<rparr>"

definition fallBackFromMatch :: "SessionConfig \<Rightarrow> bool \<times> SessionConfig" where
  "fallBackFromMatch config =
     (if \<not> sc_matchClientDisplay config then (False, config)
      else let config = config\<lparr>sc_matchClientDisplay := False, sc_allowUpscale := False, sc_fitRequestedBox := True\<rparr>
           in (True,
               if sc_fallbackWidth config > 0 \<and> sc_fallbackHeight config > 0
               then config\<lparr>sc_width := sc_fallbackWidth config, sc_height := sc_fallbackHeight config\<rparr>
               else if sc_requestedWidth config > 0 \<and> sc_requestedHeight config > 0
               then config\<lparr>sc_width := sc_requestedWidth config, sc_height := sc_requestedHeight config\<rparr>
               else config))"

section \<open>The decision\<close>

text \<open>Why a session is refused, with what each message names.\<close>

datatype SelectError = NoClientCodecs | DisplayMissing int | GpuMissing int | GpuWithoutEncoder int string
  | NothingEncodes | NoFallbackCodec | NoCodecInCommon

text \<open>The GPU that encodes: its index if there is one, whether each frame crosses to it, and the fallback when no GPU can.\<close>

definition gpu_able :: "Capabilities \<Rightarrow> nat option \<Rightarrow> bool" where
  "gpu_able caps g = (case g of None \<Rightarrow> False | Some i \<Rightarrow> can_encode (cp_gpus caps ! i))"

definition forced_gpu :: "Capabilities \<Rightarrow> SessionConfig \<Rightarrow> nat option \<Rightarrow> SelectError + nat option \<times> bool" where
  "forced_gpu caps config own =
     (if sc_encodeGpuId config < 0 then Inr (own, False)
      else case last_index (\<lambda>gpu. gi_id gpu = sc_encodeGpuId config) (cp_gpus caps) of
             None \<Rightarrow> Inl (GpuMissing (sc_encodeGpuId config))
           | Some i \<Rightarrow>
               if \<not> can_encode (cp_gpus caps ! i) \<and> firstEncodingGpu caps \<noteq> None then Inl (GpuWithoutEncoder (sc_encodeGpuId config) (gi_name (cp_gpus caps ! i)))
               else Inr (Some i, own \<noteq> Some i))"

definition encoding_gpu :: "Capabilities \<Rightarrow> SessionConfig \<Rightarrow> DisplayInfo \<Rightarrow> SelectError + nat option \<times> bool \<times> FallbackEncoder option" where
  "encoding_gpu caps config d =
     (case forced_gpu caps config (gpuFor caps d) of
        Inl e \<Rightarrow> Inl e
      | Inr (g, copy) \<Rightarrow>
          if gpu_able caps g then Inr (g, copy, None)
          else case firstEncodingGpu caps of
                 Some other \<Rightarrow> Inr (Some other, g \<noteq> None, None)
               | None \<Rightarrow> (case bestFallback caps of
                   None \<Rightarrow> Inl NothingEncodes
                 | Some fb \<Rightarrow> Inr (g, sc_encodeGpuId config \<ge> 0 \<and> copy, Some fb)))"

definition codec_for :: "SessionConfig \<Rightarrow> GpuInfo option \<Rightarrow> FallbackEncoder option \<Rightarrow> (Codec \<times> bool) option" where
  "codec_for config gpu fallback =
     (let available = (case fallback of Some fb \<Rightarrow> fe_codecs fb | None \<Rightarrow> (case gpu of Some g \<Rightarrow> gi_codecs g | None \<Rightarrow> []));
          full = (if sc_yuv444 config \<and> fallback = None
                  then find (\<lambda>c. case gpu of None \<Rightarrow> False | Some g \<Rightarrow> hasCodec (gi_codecs g) c \<and> supports444 g c) (sc_clientCodecs config)
                  else None)
      in case full of
           Some c \<Rightarrow> Some (c, True)
         | None \<Rightarrow> map_option (\<lambda>c. (c, False)) (find (hasCodec available) (sc_clientCodecs config)))"

definition granted :: "SessionConfig \<Rightarrow> DisplayInfo \<Rightarrow> nat option \<Rightarrow> GpuInfo option \<Rightarrow> bool \<Rightarrow> FallbackEncoder option \<Rightarrow> Codec \<Rightarrow>
    bool \<Rightarrow> Selection" where
  "granted config d g gpu copy fallback codec full =
     (let hdrCapable = (fallback = None \<and> (case gpu of None \<Rightarrow> False | Some g \<Rightarrow> gi_supports10Bit g) \<and>
                        (codec = Hevc \<or> codec = Av1));
          hdr = (sc_hdr config \<and> hdrCapable \<and> di_hdrActive d);
          asked = \<lparr>fs_width = (if sc_width config > 0 then sc_width config else di_width d),
                   fs_height = (if sc_height config > 0 then sc_height config else di_height d)\<rparr>;
          shaped = frameForDisplay \<lparr>fs_width = di_width d, fs_height = di_height d\<rparr> asked (policyOf config);
          fps = (if sc_fps config > 0 then sc_fps config else (di_refreshMilliHz d + 500) sdiv 1000)
      in \<lparr>se_display = d, se_gpu = g, se_codec = codec,
          se_encoder = (case fallback of Some fb \<Rightarrow> fe_api fb
                        | None \<Rightarrow> (case gpu of Some g \<Rightarrow> hd (gi_encoders g) | None \<Rightarrow> NoEncoder)),
          se_width = fs_width shaped, se_height = fs_height shaped, se_fps = (if fps \<le> 0 then 60 else fps),
          se_hdr = hdr, se_hdrCapable = hdrCapable, se_yuv444 = full \<and> \<not> hdr, se_crossGpuCopy = copy,
          se_fallbackEncoder = (fallback \<noteq> None),
          se_cpuEncoder = (case fallback of None \<Rightarrow> False | Some fb \<Rightarrow> \<not> fe_hardware fb)\<rparr>)"

definition select :: "Capabilities \<Rightarrow> SessionConfig \<Rightarrow> SelectError + Selection" where
  "select caps config =
     (if sc_clientCodecs config = [] then Inl NoClientCodecs
      else case findDisplay caps (sc_displayId config) of
        None \<Rightarrow> Inl (DisplayMissing (sc_displayId config))
      | Some d \<Rightarrow>
        (case encoding_gpu caps config d of
           Inl e \<Rightarrow> Inl e
         | Inr (g, copy, fallback) \<Rightarrow>
           (let gpu = map_option ((!) (cp_gpus caps)) g
            in case codec_for config gpu fallback of
                 None \<Rightarrow> Inl (if fallback \<noteq> None then NoFallbackCodec else NoCodecInCommon)
               | Some (codec, full) \<Rightarrow> Inr (granted config d g gpu copy fallback codec full))))"

lemma and_not_mask_int: "(x :: int) AND NOT (2 ^ n - 1) = x - x mod 2 ^ n"
proof -
  have "push_bit n (drop_bit n x) = x AND NOT (mask n)" by (rule bit_eqI) (auto simp: bit_simps)
  then show ?thesis using bits_ident[of n x] by (simp add: mask_eq_exp_minus_1 take_bit_eq_mod)
qed

lemma even_down_mod: "even_down x = x - x mod 2"
  using and_not_mask_int[of x 1] by (simp add: even_down_def)

lemma power_of_two:
  fixes b :: int
  assumes "1 < b" and "b AND (b - 1) = 0"
  shows "\<exists>n. 0 < n \<and> b = 2 ^ n"
  using assms
proof (induction "nat b" arbitrary: b rule: less_induct)
  case less
  show ?case
  proof (cases "even b")
    case True
    then obtain c where c: "b = 2 * c" by blast
    show ?thesis
    proof (cases "c = 1")
      case False
      have "drop_bit 1 (b AND (b - 1)) = 0" using less.prems(2) by simp
      moreover have "drop_bit 1 b = c" "drop_bit 1 (b - 1) = c - 1" using c by (simp_all add: drop_bit_eq_div)
      ultimately have "c AND (c - 1) = 0" by (simp only: drop_bit_and)
      then obtain n where "0 < n" "c = 2 ^ n" using less.hyps[of c] less.prems(1) c False by auto
      then show ?thesis using c by (intro exI[of _ "Suc n"]) simp
    qed (use c in \<open>auto intro!: exI[of _ 1]\<close>)
  next
    case False
    then obtain c where c: "b = 2 * c + 1" by (auto elim: oddE)
    have "drop_bit 1 (b AND (b - 1)) = 0" using less.prems(2) by simp
    moreover have "drop_bit 1 b = c" "drop_bit 1 (b - 1) = c" using c by (simp_all add: drop_bit_eq_div)
    ultimately have "c AND c = 0" by (simp only: drop_bit_and)
    then show ?thesis using c less.prems(1) by simp
  qed
qed

section \<open>What holds of the size\<close>

lemma lround_le: "x < of_int n + 1 / 2 \<Longrightarrow> 0 \<le> x \<Longrightarrow> lround x \<le> n"
  unfolding lround_def by (simp add: floor_less_iff) linarith

lemma even_down_le: "even_down x \<le> x" "even (even_down x)" "0 \<le> x \<Longrightarrow> 0 \<le> even_down x"
  using zmod_le_nonneg_dividend[of x 2] by (auto simp: even_down_mod)

lemma fl_nonneg: "0 \<le> x \<Longrightarrow> 0 \<le> fl x"
proof -
  assume "0 \<le> x"
  then have "0 \<le> x * (1 - 1 / 2 ^ 53)" by (intro mult_nonneg_nonneg) simp_all
  then show "0 \<le> fl x" using fl_ge[OF \<open>0 \<le> x\<close>] by linarith
qed

text \<open>Two roundings cannot carry a side of 31 bits over a half.\<close>

lemma two_roundings: "0 \<le> y \<Longrightarrow> y \<le> of_int n * (1 + 1 / 2 ^ 52) \<Longrightarrow> 0 \<le> n \<Longrightarrow> n < 2 ^ 31 \<Longrightarrow> lround (fl y) \<le> n"
proof -
  assume y: "0 \<le> y" "y \<le> of_int n * (1 + 1 / 2 ^ 52)" and n: "0 \<le> n" "n < 2 ^ 31"
  have n': "rat_of_int n < 2 ^ 31" using n by (metis of_int_less_iff of_int_numeral of_int_power)
  have "fl y \<le> y * (1 + 1 / 2 ^ 53)" by (rule fl_le[OF y(1)])
  also have "\<dots> \<le> of_int n * (1 + 1 / 2 ^ 52) * (1 + 1 / 2 ^ 53)" using y by (intro mult_right_mono) simp_all
  also have "\<dots> < of_int n + 1 / 2" using n' by (simp add: field_simps)
  finally show "lround (fl y) \<le> n" using lround_le fl_nonneg[OF y(1)] by blast
qed

lemma aspect_near:
  assumes "0 < fs_width s" "0 < fs_height s"
  shows "aspect s \<le> of_int (fs_width s) / of_int (fs_height s) * (1 + 1 / 2 ^ 53)"
    "of_int (fs_width s) / of_int (fs_height s) * (1 - 1 / 2 ^ 53) \<le> aspect s" "0 < aspect s"
proof -
  have pos: "0 < rat_of_int (fs_width s) / of_int (fs_height s)" using assms by simp
  show "aspect s \<le> of_int (fs_width s) / of_int (fs_height s) * (1 + 1 / 2 ^ 53)"
    and low: "of_int (fs_width s) / of_int (fs_height s) * (1 - 1 / 2 ^ 53) \<le> aspect s"
    unfolding aspect_def using fl_le fl_ge pos less_imp_le by blast+
  have "0 < rat_of_int (fs_width s) / of_int (fs_height s) * (1 - 1 / 2 ^ 53)" by (rule mult_pos_pos[OF pos]) simp
  then show "0 < aspect s" using low by linarith
qed

lemma reshaped_fits:
  assumes box: "0 < fs_width frame" "0 < fs_height frame" "fs_width frame < 2 ^ 31" "fs_height frame < 2 ^ 31"
    and "0 < fs_width display" "0 < fs_height display" and "fp_fitBox policy"
  shows "fs_width (reshaped display frame policy) \<le> fs_width frame \<and> fs_height (reshaped display frame policy) \<le> fs_height frame"
proof -
  let ?fw = "rat_of_int (fs_width frame)" and ?fh = "rat_of_int (fs_height frame)"
  have fh: "0 < ?fh" and fw: "0 < ?fw" using box by simp_all
  note da = aspect_near(3)[OF assms(5,6)] and fa = aspect_near[OF box(1,2)]
  have w: "lround (fl (?fh * aspect display)) \<le> fs_width frame" if "aspect display < aspect frame"
  proof (rule two_roundings)
    have "?fh * aspect display \<le> ?fh * (?fw / ?fh * (1 + 1 / 2 ^ 53))"
      by (rule mult_left_mono[OF order_trans[OF less_imp_le[OF that] fa(1)] less_imp_le[OF fh]])
    also have "\<dots> = ?fw * (1 + 1 / 2 ^ 53)" using fh by simp
    also have "\<dots> \<le> ?fw * (1 + 1 / 2 ^ 52)" by (rule mult_left_mono) (use fw in simp_all)
    finally show "?fh * aspect display \<le> ?fw * (1 + 1 / 2 ^ 52)" .
  qed (use box fh da in auto)
  have h: "lround (fl (?fw / aspect display)) \<le> fs_height frame" if "aspect frame \<le> aspect display"
  proof (rule two_roundings)
    have "?fw * (1 - 1 / 2 ^ 53) = ?fw / ?fh * (1 - 1 / 2 ^ 53) * ?fh" using fh by simp
    also have "\<dots> \<le> aspect frame * ?fh" by (rule mult_right_mono[OF fa(2) less_imp_le[OF fh]])
    also have "\<dots> \<le> aspect display * ?fh" by (rule mult_right_mono[OF that less_imp_le[OF fh]])
    finally have "?fw * (1 - 1 / 2 ^ 53) \<le> ?fh * aspect display" by (simp only: mult.commute)
    then have "?fw / aspect display * (1 - 1 / 2 ^ 53) \<le> ?fh" using da by (simp add: pos_divide_le_eq)
    moreover have "?fh * 1 \<le> ?fh * ((1 + 1 / 2 ^ 52) * (1 - 1 / 2 ^ 53))" by (rule mult_left_mono) (use fh in simp_all)
    ultimately have "?fw / aspect display * (1 - 1 / 2 ^ 53) \<le> ?fh * (1 + 1 / 2 ^ 52) * (1 - 1 / 2 ^ 53)"
      by (simp only: mult_1_right mult.assoc)
    then show "?fw / aspect display \<le> ?fh * (1 + 1 / 2 ^ 52)" by (rule mult_right_le_imp_le) simp
  qed (use box fw da in auto)
  show ?thesis using w h assms(7)
    by (auto simp: reshaped_def Let_def intro: order_trans[OF even_down_le(1)])
qed

lemma frame_shape:
  fixes policy :: FramePolicy
  assumes "0 < fs_width display" "0 < fs_height display" "0 < fs_width frame" "0 < fs_height frame"
  defines "out \<equiv> frameForDisplay display frame policy"
  shows "even (fs_width out) \<and> even (fs_height out)"
    "fp_allowUpscale policy \<or> fs_width out \<le> fs_width display \<and> fs_height out \<le> fs_height display"
    "out = \<lparr>fs_width = even_down (fs_width display), fs_height = even_down (fs_height display)\<rparr> \<or>
     fs_width out \<le> fs_width (reshaped display frame policy) \<and> fs_height out \<le> fs_height (reshaped display frame policy)"
  using assms(1-4) even_down_le(1)[of "fs_width display"] even_down_le(1)[of "fs_height display"]
  unfolding out_def frameForDisplay_def Let_def by (auto simp: even_down_le split: if_splits)

text \<open>C19. A session never streams more pixels than the display has unless the client asked for its own screen's size, always an
  even number of them each way, and when the client gave a box to fit, the picture is inside the box or is the whole
  display; the computation in \<open>double\<close>s, rounded twice, cannot spill over.\<close>

theorem frame_stays_inside:
  fixes policy :: FramePolicy
  assumes "0 < fs_width display" "0 < fs_height display" "0 < fs_width frame" "0 < fs_height frame"
    and "fs_width frame < 2 ^ 31" "fs_height frame < 2 ^ 31"
  defines "out \<equiv> frameForDisplay display frame policy"
  shows "even (fs_width out) \<and> even (fs_height out) \<and>
    (fp_allowUpscale policy \<or> fs_width out \<le> fs_width display \<and> fs_height out \<le> fs_height display) \<and>
    (fp_fitBox policy \<longrightarrow> out = \<lparr>fs_width = even_down (fs_width display), fs_height = even_down (fs_height display)\<rparr> \<or>
       fs_width out \<le> fs_width frame \<and> fs_height out \<le> fs_height frame)"
  using frame_shape[OF assms(1-4), of policy] reshaped_fits[OF assms(3-6,1,2), of policy] unfolding out_def by auto

lemma frame_stays_inside_witness:
  "case frameForDisplay \<lparr>fs_width = 1920, fs_height = 1080\<rparr> \<lparr>fs_width = 1920, fs_height = 1200\<rparr> \<lparr>fp_fitBox = True, fp_allowUpscale = False\<rparr>
   of out \<Rightarrow> fs_width out \<le> 1920 \<and> fs_height out \<le> 1200"
  using frame_stays_inside[of "\<lparr>fs_width = 1920, fs_height = 1080\<rparr>" "\<lparr>fs_width = 1920, fs_height = 1200\<rparr>"
    "\<lparr>fp_fitBox = True, fp_allowUpscale = False\<rparr>"] by auto

section \<open>What holds of the blocks\<close>

definition whole_blocks :: "int \<Rightarrow> FrameSize \<Rightarrow> bool" where
  "whole_blocks block f \<longleftrightarrow> block dvd fs_width f \<and> block dvd fs_height f \<and> block \<le> fs_width f \<and> block \<le> fs_height f"

lemma block_down: "0 < n \<Longrightarrow> (x :: int) AND NOT (2 ^ n - 1) \<le> x \<and> 2 ^ n dvd x AND NOT (2 ^ n - 1)"
  by (simp add: and_not_mask_int)

lemma walk_blocks:
  assumes "block = 2 ^ k" "0 < k" "block dvd w" "block dvd h" "block \<le> h" "0 \<le> i"
    and "whole_blocks block (fst best)" "fs_width (fst best) \<le> w" "fs_height (fst best) \<le> h"
  shows "whole_blocks block (block_walk n w h block wanted i best) \<and> fs_width (block_walk n w h block wanted i best) \<le> w \<and>
    fs_height (block_walk n w h block wanted i best) \<le> h"
  using assms(6-9)
proof (induction n arbitrary: i best)
  case (Suc n)
  obtain f e where best: "best = (f, e)" by (cases best)
  define cw where "cw = w - i * block"
  define ch where "ch = (let c = lround (fl (of_int cw / wanted)) AND NOT (block - 1) in if c > h then h else c)"
  have d: "block dvd cw" "block dvd ch" "cw \<le> w" "ch \<le> h"
    using assms(1,3,4) Suc.prems(1) block_down[OF assms(2)] by (auto simp: cw_def ch_def Let_def)
  have next': "0 \<le> i + 1" using Suc.prems(1) by simp
  have grid: "whole_blocks block \<lparr>fs_width = cw, fs_height = ch\<rparr>" if "\<not> cw < block" "\<not> ch < block"
    using d that by (simp add: whole_blocks_def)
  let ?good = "\<lambda>s. whole_blocks block s \<and> fs_width s \<le> w \<and> fs_height s \<le> h"
  have old: "?good (block_walk n w h block wanted (i + 1) best)" "?good f"
    using Suc.IH[OF next' Suc.prems(2-4)] Suc.prems(2-4) best by simp_all
  have new: "?good (block_walk n w h block wanted (i + 1) (\<lparr>fs_width = cw, fs_height = ch\<rparr>, x))"
    if "\<not> cw < block" "\<not> ch < block" for x
    using Suc.IH[OF next', of "(\<lparr>fs_width = cw, fs_height = ch\<rparr>, x)"] grid[OF that] d by simp
  have step: "block_walk (Suc n) w h block wanted i best =
      (if cw < block then f else if ch < block then block_walk n w h block wanted (i + 1) best
       else block_walk n w h block wanted (i + 1)
         (if \<bar>fl (fl (of_int cw / of_int ch) - wanted)\<bar> < fl (e - fl (1 / 10 ^ 12))
          then (\<lparr>fs_width = cw, fs_height = ch\<rparr>, \<bar>fl (fl (of_int cw / of_int ch) - wanted)\<bar>) else best))"
    unfolding best block_walk.simps Let_def cw_def[symmetric] ch_def[unfolded Let_def, symmetric] ..
  show ?case unfolding step using old new by (auto split: if_split)
qed simp

lemma keep_block: "0 < b \<Longrightarrow> b \<le> x \<Longrightarrow> b \<le> x - x mod (b :: int)"
proof -
  assume "0 < b" "b \<le> x"
  then have "b * 1 \<le> b * (x div b)" by (intro mult_left_mono) (simp_all add: pos_imp_zdiv_pos_iff int_one_le_iff_zero_less)
  then show ?thesis by (simp add: minus_mod_eq_mult_div)
qed

text \<open>An encoder of whole blocks is given whole blocks, at least one each way, and inside the frame wherever the frame holds one at
  all: the search for the better shape never leaves the grid and never grows a side.\<close>

theorem aligned_is_whole_blocks:
  assumes "1 < block" "block AND (block - 1) = 0" and "0 < fs_width frame" "0 < fs_height frame"
  shows "whole_blocks block (alignedToBlocks frame block) \<and>
    (block \<le> fs_width frame \<and> block \<le> fs_height frame \<longrightarrow>
      fs_width (alignedToBlocks frame block) \<le> fs_width frame \<and> fs_height (alignedToBlocks frame block) \<le> fs_height frame)"
proof -
  obtain n where n: "0 < n" "block = 2 ^ n" using power_of_two[OF assms(1,2)] by blast
  let ?w = "fs_width frame AND NOT (block - 1)" and ?h = "fs_height frame AND NOT (block - 1)"
  have wh: "?w \<le> fs_width frame" "block dvd ?w" "?h \<le> fs_height frame" "block dvd ?h" using block_down[OF n(1)] n(2) by auto
  have nonneg: "0 \<le> ?w" "0 \<le> ?h" using assms(3,4) by (simp_all add: n(2) and_not_mask_int zmod_le_nonneg_dividend)
  have big: "block \<le> x AND NOT (block - 1)" if "block \<le> x" for x
    using that n keep_block[of block x] by (simp add: and_not_mask_int)
  have zero: "x AND NOT (block - 1) = 0" if "0 \<le> x" "x AND NOT (block - 1) < block" for x
    using big[of x] that n by (cases "block \<le> x") (auto simp: and_not_mask_int)
  show ?thesis
  proof (cases "?w = fs_width frame \<and> ?h = fs_height frame \<or> ?w < block \<or> ?h < block")
    case True
    then show ?thesis using wh nonneg big zero assms zdvd_imp_le[of block "fs_width frame"] zdvd_imp_le[of block "fs_height frame"]
      by (auto simp: alignedToBlocks_def whole_blocks_def Let_def max_def)
  next
    case False
    then have block: "block \<le> ?w" "block \<le> ?h" by simp_all
    define e where "e = \<bar>fl (fl (of_int ?w / of_int ?h) - fl (of_int (fs_width frame) / of_int (fs_height frame)))\<bar>"
    have whole: "whole_blocks block \<lparr>fs_width = ?w, fs_height = ?h\<rparr>" using wh block by (simp add: whole_blocks_def)
    have "(block \<le> 1 \<or> block AND (block - 1) \<noteq> 0) = False" "(fs_width frame \<le> 0 \<or> fs_height frame \<le> 0) = False"
      "(?w = fs_width frame \<and> ?h = fs_height frame) = False" "(?w < block \<or> ?h < block) = False"
      using False assms by (blast | simp)+
    then have eq: "alignedToBlocks frame block =
        block_walk 17 ?w ?h block (fl (of_int (fs_width frame) / of_int (fs_height frame))) 0
          (\<lparr>fs_width = ?w, fs_height = ?h\<rparr>, e)"
      by (simp only: alignedToBlocks_def Let_def e_def if_False)
    have "whole_blocks block (alignedToBlocks frame block) \<and> fs_width (alignedToBlocks frame block) \<le> ?w \<and>
        fs_height (alignedToBlocks frame block) \<le> ?h"
      unfolding eq by (rule walk_blocks[OF n(2,1) wh(2,4) block(2)]) (use whole in simp_all)
    then show ?thesis using wh by (meson order_trans)
  qed
qed

lemma aligned_is_whole_blocks_witness:
  "whole_blocks 8 (alignedToBlocks \<lparr>fs_width = 1366, fs_height = 768\<rparr> 8) \<and>
   fs_width (alignedToBlocks \<lparr>fs_width = 1366, fs_height = 768\<rparr> 8) \<le> 1366"
  using aligned_is_whole_blocks[of 8 "\<lparr>fs_width = 1366, fs_height = 768\<rparr>"] by simp


section \<open>What holds of the decision\<close>

lemma last_index_lt: "last_index P xs = Some i \<Longrightarrow> i < length xs \<and> P (xs ! i)"
  by (induction xs arbitrary: i) (auto split: option.splits if_splits)

lemma first_index_lt: "first_index P xs = Some i \<Longrightarrow> i < length xs \<and> P (xs ! i)"
  by (induction xs arbitrary: i) (auto split: option.splits if_splits)

lemma first_index_None: "first_index P xs = None \<longleftrightarrow> \<not> list_ex P xs"
  by (induction xs) auto

lemma find_met: "find P xs = Some x \<Longrightarrow> x \<in> set xs \<and> P x"
  by (induction xs) (auto split: if_splits)

definition usable :: "FallbackEncoder \<Rightarrow> bool" where
  "usable fb \<longleftrightarrow> fe_api fb \<noteq> NoEncoder \<and> fe_codecs fb \<noteq> []"

lemma best_so_far:
  assumes "fold (\<lambda>fb best. if fe_api fb = NoEncoder \<or> fe_codecs fb = [] then best
        else case best of None \<Rightarrow> Some fb | Some b \<Rightarrow> if fe_hardware fb \<and> \<not> fe_hardware b then Some fb else Some b) fbs best = out"
  shows "(out = None \<longleftrightarrow> best = None \<and> (\<forall>fb \<in> set fbs. \<not> usable fb)) \<and>
    (\<forall>b. out = Some b \<longrightarrow> (best = Some b \<or> b \<in> set fbs \<and> usable b) \<and>
      (fe_hardware b \<or> (\<forall>fb \<in> set fbs. usable fb \<longrightarrow> \<not> fe_hardware fb) \<and> (\<forall>a. best = Some a \<longrightarrow> \<not> fe_hardware a)))"
  using assms
proof (induction fbs arbitrary: best)
  case (Cons f fbs)
  let ?next = "if fe_api f = NoEncoder \<or> fe_codecs f = [] then best
        else case best of None \<Rightarrow> Some f | Some b \<Rightarrow> if fe_hardware f \<and> \<not> fe_hardware b then Some f else Some b"
  note ih = Cons.IH[of ?next]
  show ?case using ih Cons.prems by (auto simp: usable_def split: option.splits if_splits)
qed auto

lemma bestFallback_cases:
  "(bestFallback caps = None \<longleftrightarrow> (\<forall>fb \<in> set (cp_fallbacks caps). \<not> usable fb)) \<and>
   (\<forall>b. bestFallback caps = Some b \<longrightarrow> b \<in> set (cp_fallbacks caps) \<and> usable b \<and>
     (fe_hardware b \<or> (\<forall>fb \<in> set (cp_fallbacks caps). usable fb \<longrightarrow> \<not> fe_hardware fb)))"
  using best_so_far[of "cp_fallbacks caps" None "bestFallback caps"] unfolding bestFallback_def by auto

lemma encoding_gpu_cases:
  assumes "encoding_gpu caps config d = Inr (g, copy, fallback)"
  shows "(fallback = None \<longrightarrow> (\<exists>i. g = Some i \<and> i < length (cp_gpus caps) \<and> can_encode (cp_gpus caps ! i))) \<and>
    (fallback \<noteq> None \<longrightarrow> \<not> anyGpuEncodes caps \<and> fallback = bestFallback caps)"
proof -
  have lt: "i < length (cp_gpus caps)" if "forced_gpu caps config (gpuFor caps d) = Inr (Some i, c)" for i c
    using that by (auto simp: forced_gpu_def gpuFor_def split: option.splits if_splits dest!: last_index_lt first_index_lt)
  obtain h c where chosen: "forced_gpu caps config (gpuFor caps d) = Inr (h, c)"
    using assms by (cases "forced_gpu caps config (gpuFor caps d)") (auto simp: encoding_gpu_def)
  have able: "\<exists>i. h = Some i \<and> i < length (cp_gpus caps) \<and> can_encode (cp_gpus caps ! i)" if "gpu_able caps h"
    using that lt chosen by (cases h) (auto simp: gpu_able_def)
  show ?thesis
  proof (cases "gpu_able caps h")
    case True
    then show ?thesis using assms chosen able by (simp add: encoding_gpu_def)
  next
    case False
    show ?thesis
    proof (cases "firstEncodingGpu caps")
      case (Some i)
      note ok = first_index_lt[OF Some[unfolded firstEncodingGpu_def]]
      have "g = Some i" "fallback = None" using assms chosen False Some by (simp_all add: encoding_gpu_def)
      then show ?thesis using ok by simp
    next
      case None
      then have "\<not> anyGpuEncodes caps" by (simp add: anyGpuEncodes_def firstEncodingGpu_def first_index_None)
      then show ?thesis using assms chosen False None
        by (cases "bestFallback caps") (auto simp: encoding_gpu_def)
    qed

  qed
qed

lemma codec_for_cases:
  assumes "codec_for config gpu fallback = Some (c, full)"
  shows "c \<in> set (sc_clientCodecs config) \<and> (full \<longrightarrow> sc_yuv444 config \<and> fallback = None) \<and>
    (case fallback of Some fb \<Rightarrow> c \<in> set (fe_codecs fb)
     | None \<Rightarrow> (case gpu of None \<Rightarrow> False | Some g \<Rightarrow> c \<in> set (gi_codecs g) \<and> (full \<longrightarrow> c \<in> set (gi_codecs444 g))))"
  using assms unfolding codec_for_def Let_def
  by (cases fallback; cases gpu) (auto simp: hasCodec_def supports444_def split: if_splits option.splits dest!: find_met)

lemma select_parts:
  assumes "select caps config = Inr s"
  obtains d g copy fallback codec full where
    "findDisplay caps (sc_displayId config) = Some d"
    "encoding_gpu caps config d = Inr (g, copy, fallback)"
    "codec_for config (map_option ((!) (cp_gpus caps)) g) fallback = Some (codec, full)"
    "s = granted config d g (map_option ((!) (cp_gpus caps)) g) copy fallback codec full"
proof -
  obtain d where d: "findDisplay caps (sc_displayId config) = Some d" and codecs: "sc_clientCodecs config \<noteq> []"
    using assms by (auto simp: select_def split: if_splits option.splits)
  obtain g copy fallback where e: "encoding_gpu caps config d = Inr (g, copy, fallback)"
    using assms d codecs by (cases "encoding_gpu caps config d") (auto simp: select_def)
  obtain codec full where c: "codec_for config (map_option ((!) (cp_gpus caps)) g) fallback = Some (codec, full)"
    using assms d codecs e by (cases "codec_for config (map_option ((!) (cp_gpus caps)) g) fallback") (auto simp: select_def)
  show thesis using that[OF d e c] assms d codecs e c by (simp add: select_def)
qed

text \<open>C17. A session runs only on what both sides have: it shows the display asked for; the codec is one the browser listed; it comes from a GPU that encodes, with the
  GPU's first encoder, or, when no GPU of the machine encodes, from a usable fallback, the CPU only when no fallback is
  hardware; HDR needs the request, the 10 bits, the codec and the display, 4:4:4 the request and the codec, and the two never ride
  together; and there is always a rate.\<close>

theorem selection_is_sound:
  assumes "select caps config = Inr s"
  shows "findDisplay caps (sc_displayId config) = Some (se_display s) \<and>
    se_codec s \<in> set (sc_clientCodecs config) \<and> \<not> (se_hdr s \<and> se_yuv444 s) \<and> 0 < se_fps s \<and>
    (se_hdr s \<longrightarrow> sc_hdr config \<and> di_hdrActive (se_display s) \<and> se_codec s \<in> {Hevc, Av1}) \<and>
    (se_yuv444 s \<longrightarrow> sc_yuv444 config) \<and>
    (if se_fallbackEncoder s
     then \<not> anyGpuEncodes caps \<and> \<not> se_hdr s \<and> \<not> se_yuv444 s \<and>
       (\<exists>fb \<in> set (cp_fallbacks caps). usable fb \<and> se_encoder s = fe_api fb \<and> se_codec s \<in> set (fe_codecs fb)) \<and>
       (se_cpuEncoder s \<longrightarrow> (\<forall>fb \<in> set (cp_fallbacks caps). usable fb \<longrightarrow> \<not> fe_hardware fb))
     else \<exists>i < length (cp_gpus caps). se_gpu s = Some i \<and> (case cp_gpus caps ! i of g \<Rightarrow>
       gi_encoders g \<noteq> [] \<and> se_encoder s = hd (gi_encoders g) \<and> se_codec s \<in> set (gi_codecs g) \<and>
       (se_hdr s \<longrightarrow> gi_supports10Bit g) \<and> (se_yuv444 s \<longrightarrow> se_codec s \<in> set (gi_codecs444 g))))"
proof -
  from assms obtain d g copy fallback codec full where
    d: "findDisplay caps (sc_displayId config) = Some d" and e: "encoding_gpu caps config d = Inr (g, copy, fallback)" and
    c: "codec_for config (map_option ((!) (cp_gpus caps)) g) fallback = Some (codec, full)" and
    s: "s = granted config d g (map_option ((!) (cp_gpus caps)) g) copy fallback codec full" by (rule select_parts)
  note parts = encoding_gpu_cases[OF e] codec_for_cases[OF c]
  show ?thesis
  proof (cases fallback)
    case None
    then obtain i where "g = Some i" "i < length (cp_gpus caps)" "can_encode (cp_gpus caps ! i)" using parts by auto
    then show ?thesis using parts None by (auto simp: s d granted_def Let_def can_encode_def)
  next
    case (Some fb)
    then have "bestFallback caps = Some fb" using parts by simp
    then have "fb \<in> set (cp_fallbacks caps)" "usable fb"
      "fe_hardware fb \<or> (\<forall>fb \<in> set (cp_fallbacks caps). usable fb \<longrightarrow> \<not> fe_hardware fb)"
      using bestFallback_cases[of caps] by auto
    then show ?thesis using parts Some by (auto simp: s d granted_def Let_def)
  qed
qed


lemma encoder_exists:
  assumes "sc_encodeGpuId config < 0" and "anyGpuEncodes caps \<or> list_ex usable (cp_fallbacks caps)"
  shows "\<exists>g copy fallback. encoding_gpu caps config d = Inr (g, copy, fallback)"
proof -
  have "firstEncodingGpu caps \<noteq> None \<or> bestFallback caps \<noteq> None"
    using assms(2) bestFallback_cases[of caps] by (auto simp: firstEncodingGpu_def first_index_None anyGpuEncodes_def list_ex_iff)
  then show ?thesis using assms(1) by (auto simp: encoding_gpu_def forced_gpu_def split: option.splits)
qed

lemma codec_exists:
  assumes "c \<in> set (sc_clientCodecs config)"
    and "case fallback of Some fb \<Rightarrow> c \<in> set (fe_codecs fb) | None \<Rightarrow> (case gpu of Some g \<Rightarrow> c \<in> set (gi_codecs g) | None \<Rightarrow> False)"
  shows "codec_for config gpu fallback \<noteq> None"
proof -
  have found: "find (hasCodec cs) (sc_clientCodecs config) \<noteq> None" if "c \<in> set cs" for cs
    using assms(1) that by (auto simp: find_None_iff hasCodec_def)
  show ?thesis using assms(2) found unfolding codec_for_def Let_def
    by (cases fallback; cases gpu) (auto split: option.splits)
qed

definition bench_machine :: Capabilities where
  "bench_machine = \<lparr>cp_gpus =
     [\<lparr>gi_id = 0, gi_name = ''Intel'', gi_encoders = [Amf], gi_codecs = [], gi_supports10Bit = False, gi_codecs444 = []\<rparr>,
      \<lparr>gi_id = 1, gi_name = ''NVIDIA'', gi_encoders = [Nvenc], gi_codecs = [Hevc, H264], gi_supports10Bit = True,
       gi_codecs444 = [Hevc]\<rparr>],
     cp_displays = [\<lparr>di_id = 7, di_width = 2560, di_height = 1440, di_refreshMilliHz = 143980, di_gpuId = 1,
       di_hdrActive = True, di_primary = True\<rparr>],
     cp_fallbacks = []\<rparr>"

definition plain_request :: SessionConfig where
  "plain_request = \<lparr>sc_displayId = - 1, sc_width = 2560, sc_height = 1440, sc_fps = 0, sc_clientCodecs = [Av1, Hevc, H264],
     sc_hdr = True, sc_yuv444 = True, sc_fitRequestedBox = False, sc_allowUpscale = False, sc_matchClientDisplay = False,
     sc_requestedWidth = 0, sc_requestedHeight = 0, sc_fallbackWidth = 0, sc_fallbackHeight = 0, sc_encodeGpuId = - 1\<rparr>"

lemma bench_selected: "\<exists>s. select bench_machine plain_request = Inr s"
  by (simp add: select_def bench_machine_def plain_request_def findDisplay_def encoding_gpu_def forced_gpu_def gpuFor_def
      gpu_able_def can_encode_def codec_for_def hasCodec_def supports444_def)

lemma selection_is_sound_witness:
  "\<exists>s. select bench_machine plain_request = Inr s \<and> se_codec s \<in> {Av1, Hevc, H264} \<and> \<not> (se_hdr s \<and> se_yuv444 s)"
  using bench_selected selection_is_sound[of bench_machine plain_request] by (force simp: plain_request_def)

text \<open>C18. Where there is a way to encode, the session is granted: if no GPU is forced (as only the bench does), the display asked for
  exists, something on the machine encodes, and every GPU that encodes and every usable fallback makes some codec the
  browser reads, each perhaps another one, then \<open>select\<close> does not refuse; and the GPU of the display, when it can
  encode, is the one, without a copy and without a fallback.\<close>

theorem session_is_granted:
  assumes "sc_encodeGpuId config < 0" and "findDisplay caps (sc_displayId config) = Some d"
    and "\<And>g. g \<in> set (cp_gpus caps) \<Longrightarrow> can_encode g \<Longrightarrow> set (sc_clientCodecs config) \<inter> set (gi_codecs g) \<noteq> {}"
    and "\<And>fb. fb \<in> set (cp_fallbacks caps) \<Longrightarrow> usable fb \<Longrightarrow> set (sc_clientCodecs config) \<inter> set (fe_codecs fb) \<noteq> {}"
    and "anyGpuEncodes caps \<or> list_ex usable (cp_fallbacks caps)"
  shows "\<exists>s. select caps config = Inr s \<and> se_display s = d \<and>
    (\<forall>i. gpuFor caps d = Some i \<and> can_encode (cp_gpus caps ! i) \<longrightarrow>
       se_gpu s = Some i \<and> \<not> se_crossGpuCopy s \<and> \<not> se_fallbackEncoder s)"
proof -
  obtain g copy fallback where e: "encoding_gpu caps config d = Inr (g, copy, fallback)"
    using encoder_exists[OF assms(1,5)] by blast
  have "\<exists>c. c \<in> set (sc_clientCodecs config) \<and> (case fallback of Some fb \<Rightarrow> c \<in> set (fe_codecs fb)
      | None \<Rightarrow> (case map_option ((!) (cp_gpus caps)) g of Some g \<Rightarrow> c \<in> set (gi_codecs g) | None \<Rightarrow> False))"
  proof (cases fallback)
    case None
    then obtain i where i: "g = Some i" "i < length (cp_gpus caps)" "can_encode (cp_gpus caps ! i)"
      using encoding_gpu_cases[OF e] by auto
    then show ?thesis using assms(3)[of "cp_gpus caps ! i"] None by auto
  next
    case (Some fb)
    then have "bestFallback caps = Some fb" using encoding_gpu_cases[OF e] by simp
    then have "fb \<in> set (cp_fallbacks caps)" "usable fb" using bestFallback_cases[of caps] by auto
    then show ?thesis using assms(4)[of fb] Some by auto
  qed
  then obtain c where c: "c \<in> set (sc_clientCodecs config)" "case fallback of Some fb \<Rightarrow> c \<in> set (fe_codecs fb)
      | None \<Rightarrow> (case map_option ((!) (cp_gpus caps)) g of Some g \<Rightarrow> c \<in> set (gi_codecs g) | None \<Rightarrow> False)" by blast
  then obtain codec full where k: "codec_for config (map_option ((!) (cp_gpus caps)) g) fallback = Some (codec, full)"
    using codec_exists[OF c] by auto
  have "select caps config = Inr (granted config d g (map_option ((!) (cp_gpus caps)) g) copy fallback codec full)"
    using assms(2) c(1) e k by (auto simp: select_def)
  moreover have "g = Some i \<and> \<not> copy \<and> fallback = None" if "gpuFor caps d = Some i" "can_encode (cp_gpus caps ! i)" for i
    using that e assms(1) by (simp add: encoding_gpu_def forced_gpu_def gpu_able_def)
  ultimately show ?thesis by (auto simp: granted_def Let_def)
qed

lemma session_is_granted_witness:
  "\<exists>s. select bench_machine plain_request = Inr s \<and> se_gpu s = Some 1 \<and> \<not> se_crossGpuCopy s"
proof -
  have "\<exists>s. select bench_machine plain_request = Inr s \<and> se_display s = hd (cp_displays bench_machine) \<and>
    (\<forall>i. gpuFor bench_machine (hd (cp_displays bench_machine)) = Some i \<and> can_encode (cp_gpus bench_machine ! i) \<longrightarrow>
       se_gpu s = Some i \<and> \<not> se_crossGpuCopy s \<and> \<not> se_fallbackEncoder s)"
    by (rule session_is_granted[of plain_request bench_machine])
      (auto simp: bench_machine_def plain_request_def findDisplay_def anyGpuEncodes_def can_encode_def)
  then show ?thesis by (auto simp: bench_machine_def gpuFor_def can_encode_def)
qed

text \<open>When the shapes are within half a percent the box's own sizes are taken, and the step that refuses to upscale then answers with
  the display's, which may be larger than the box the other way.\<close>

lemma box_is_overrun:
  "frameForDisplay \<lparr>fs_width = 1919, fs_height = 1084\<rparr> \<lparr>fs_width = 1920, fs_height = 1080\<rparr> \<lparr>fp_fitBox = True, fp_allowUpscale = False\<rparr> =
     \<lparr>fs_width = 1918, fs_height = 1084\<rparr>"
proof -
  have "\<not> shape_differs \<lparr>fs_width = 1919, fs_height = 1084\<rparr> \<lparr>fs_width = 1920, fs_height = 1080\<rparr>" by code_simp
  then show ?thesis by (simp add: frameForDisplay_def reshaped_def Let_def even_down_mod)
qed


text \<open>A display on no known GPU is streamed by another one without the copy being declared.\<close>

lemma unknown_gpu_copies_unsaid:
  assumes "sc_encodeGpuId config < 0" "findDisplay caps (sc_displayId config) = Some d" "gpuFor caps d = None" "select caps config = Inr s"
  shows "\<not> se_crossGpuCopy s"
proof -
  from assms(4) obtain d' g copy fallback codec full where "findDisplay caps (sc_displayId config) = Some d'"
    and e: "encoding_gpu caps config d' = Inr (g, copy, fallback)"
    and s: "s = granted config d' g (map_option ((!) (cp_gpus caps)) g) copy fallback codec full" by (rule select_parts)
  then have "d' = d" using assms(2) by simp
  then show ?thesis using e assms(1,3) s
    by (auto simp: encoding_gpu_def forced_gpu_def gpu_able_def granted_def Let_def split: option.splits)
qed

end
