(* ===== verification/Frame_Sender.thy ===== *)
theory Frame_Sender
  imports Tunnel_Frame "HOL-Library.Sublist" "HOL-Library.Multiset"
begin

text \<open>
  The thread that sends frames over a data channel (\<open>src/streaming/FrameSender.h\<close> and \<open>.cpp\<close>): the chunks a frame is
  cut into and the queue of frames that wait. The thread and the callers meet only in the queue, under its lock,
  so a run is a sequence of \<open>push\<close>es, turns of the thread and stops. What the channel does with a chunk is an argument of \<open>sendJob\<close>.
\<close>

unbundle bit_operations_syntax

section \<open>The chunks of a frame\<close>

definition kFragHeaderSize :: nat where
  [tunables]: "kFragHeaderSize = 17"

definition kMaxPayloadSize :: nat where
  [tunables]: "kMaxPayloadSize = 16000"

text \<open>Two bytes of a \<open>uint16_t\<close>, the higher first; four of a \<open>uint32_t\<close> are \<open>appendU32\<close>.\<close>

definition two_bytes :: "16 word \<Rightarrow> 8 word list" where
  "two_bytes v = [ucast (drop_bit 8 v AND 0xFF), ucast (v AND 0xFF)]"

definition writeHeader :: "32 word \<Rightarrow> 16 word \<Rightarrow> 16 word \<Rightarrow> bool \<Rightarrow> 32 word \<Rightarrow> 32 word \<Rightarrow> 8 word list" where
  "writeHeader frameId chunkIdx totalChunks isKeyframe payloadSize backendTs =
     appendU32 (appendU32 (appendU32 [] frameId @ two_bytes chunkIdx @ two_bytes totalChunks @
       [if isKeyframe then 1 else 0]) payloadSize) backendTs"

definition buildFragments :: "8 word list \<Rightarrow> bool \<Rightarrow> 32 word \<Rightarrow> 32 word \<Rightarrow> 8 word list list" where
  "buildFragments data isKeyframe frameId backendTs =
     (if data = [] then []
      else let totalChunks = (length data + kMaxPayloadSize - 1) div kMaxPayloadSize
           in map (\<lambda>chunkIdx.
                let offset = chunkIdx * kMaxPayloadSize;
                    payloadSize = min kMaxPayloadSize (length data - offset)
                in writeHeader frameId (word_of_nat chunkIdx) (word_of_nat totalChunks) isKeyframe
                     (word_of_nat payloadSize) backendTs @ take payloadSize (drop offset data)) [0..<totalChunks])"

section \<open>The queue\<close>

text \<open>A whole frame the sender cuts, or chunks that are ready.\<close>

datatype JobBody = Whole "8 word list" | Ready "8 word list list"

record Job =
  jb_body :: JobBody
  jb_isKeyframe :: bool
  jb_frameId :: "32 word"
  jb_backendTs :: "32 word"
  jb_frameNumber :: "32 word"
  jb_sink :: bool

record FrameSender =
  fq_maxQueuedDeltas :: nat
  fq_queue :: "Job list"
  fq_queueDrops :: nat
  fq_stop :: bool

definition kMaxQueued :: nat where
  [tunables]: "kMaxQueued = 8"

definition fq_new :: "nat \<Rightarrow> FrameSender" where
  "fq_new maxQueuedDeltas = \<lparr>fq_maxQueuedDeltas = maxQueuedDeltas, fq_queue = [], fq_queueDrops = 0, fq_stop = False\<rparr>"

text \<open>The oldest delta, and the queue without it.\<close>

fun oldest_delta :: "Job list \<Rightarrow> (Job \<times> Job list) option" where
  "oldest_delta [] = None"
| "oldest_delta (j # js) =
     (if \<not> jb_isKeyframe j then Some (j, js)
      else case oldest_delta js of None \<Rightarrow> None | Some (d, rest) \<Rightarrow> Some (d, j # rest))"

lemma oldest_delta_shorter: "oldest_delta js = Some (d, rest) \<Longrightarrow> length rest < length js"
  by (induction js arbitrary: rest) (auto split: if_splits option.splits)

text \<open>While the queue is full, the oldest delta goes; the evicted are returned beside the queue.\<close>

function make_room :: "Job list \<Rightarrow> Job list \<times> Job list" where
  "make_room q =
     (if length q \<ge> kMaxQueued
      then (case oldest_delta q of
              None \<Rightarrow> ([], q)
            | Some (d, rest) \<Rightarrow> (case make_room rest of (out, q) \<Rightarrow> (d # out, q)))
      else ([], q))"
  by auto

termination by (relation "measure length") (auto dest: oldest_delta_shorter)

declare make_room.simps [simp del]

text \<open>The first deltas go until only \<open>keep\<close> are left.\<close>

fun shed_deltas :: "nat \<Rightarrow> nat \<Rightarrow> Job list \<Rightarrow> Job list \<times> Job list" where
  "shed_deltas deltas keep [] = ([], [])"
| "shed_deltas deltas keep (j # js) =
     (if \<not> deltas > keep then ([], j # js)
      else if jb_isKeyframe j then (case shed_deltas deltas keep js of (out, q) \<Rightarrow> (out, j # q))
      else (case shed_deltas (deltas - 1) keep js of (out, q) \<Rightarrow> (j # out, q)))"

definition evictions :: "Job \<Rightarrow> FrameSender \<Rightarrow> Job list \<times> Job list" where
  "evictions job s =
     (let (full, q) = make_room (fq_queue s);
          keep = (if jb_isKeyframe job \<or> fq_maxQueuedDeltas s = 0 then 0 else fq_maxQueuedDeltas s - 1);
          (late, q) = (if fq_maxQueuedDeltas s < kMaxQueued
                       then shed_deltas (length (filter (\<lambda>j. \<not> jb_isKeyframe j) q)) keep q else ([], q))
      in (full @ late, q))"

definition push :: "Job \<Rightarrow> FrameSender \<Rightarrow> bool \<times> 32 word list \<times> FrameSender" where
  "push job s =
     (let (evicted, q) = evictions job s
      in (evicted \<noteq> [], map jb_frameNumber evicted,
          s\<lparr>fq_queue := q @ [job], fq_queueDrops := fq_queueDrops s + length evicted\<rparr>))"

definition enqueue :: "bool \<Rightarrow> 8 word list \<Rightarrow> bool \<Rightarrow> 32 word \<Rightarrow> 32 word \<Rightarrow> 32 word \<Rightarrow> bool \<Rightarrow> FrameSender \<Rightarrow>
    bool \<times> 32 word list \<times> FrameSender" where
  "enqueue dc data isKeyframe frameId backendTs frameNumber sink s =
     (if fq_stop s \<or> \<not> dc then (False, [], s)
      else push \<lparr>jb_body = Whole data, jb_isKeyframe = isKeyframe, jb_frameId = frameId, jb_backendTs = backendTs,
             jb_frameNumber = frameNumber, jb_sink = sink\<rparr> s)"

definition enqueueFragments :: "bool \<Rightarrow> 8 word list list \<Rightarrow> bool \<Rightarrow> 32 word \<Rightarrow> bool \<Rightarrow> FrameSender \<Rightarrow>
    bool \<times> 32 word list \<times> FrameSender" where
  "enqueueFragments dc fragments isKeyframe frameNumber sink s =
     (if fq_stop s \<or> \<not> dc \<or> fragments = [] then (False, [], s)
      else push \<lparr>jb_body = Ready fragments, jb_isKeyframe = isKeyframe, jb_frameId = 0, jb_backendTs = 0,
             jb_frameNumber = frameNumber, jb_sink = sink\<rparr> s)"

definition fq_stopped :: "FrameSender \<Rightarrow> FrameSender" where
  "fq_stopped s = (if fq_stop s then s else s\<lparr>fq_stop := True, fq_queue := []\<rparr>)"

text \<open>The turn of the thread: it leaves when stopped, waits on an empty queue, and takes the first job otherwise.\<close>

definition next_job :: "FrameSender \<Rightarrow> (Job \<times> FrameSender) option" where
  "next_job s =
     (if fq_stop s then None
      else case fq_queue s of [] \<Rightarrow> None | job # q \<Rightarrow> Some (job, s\<lparr>fq_queue := q\<rparr>))"

definition job_chunks :: "Job \<Rightarrow> 8 word list list" where
  "job_chunks job =
     (case jb_body job of
        Ready fragments \<Rightarrow> fragments
      | Whole data \<Rightarrow>
          (let totalChunks = (length data + kMaxPayloadSize - 1) div kMaxPayloadSize
           in map (\<lambda>chunkIdx.
                let offset = chunkIdx * kMaxPayloadSize;
                    payloadSize = min kMaxPayloadSize (length data - offset)
                in writeHeader (jb_frameId job) (word_of_nat chunkIdx) (word_of_nat totalChunks) (jb_isKeyframe job)
                     (word_of_nat payloadSize) (jb_backendTs job) @ take payloadSize (drop offset data)) [0..<totalChunks]))"

text \<open>What is handed to the channel, and whether the sink is told. \<open>taken\<close> is how many chunks go before the stop or
  an error of the channel ends the sending.\<close>

definition sendJob :: "bool \<Rightarrow> bool \<Rightarrow> nat \<Rightarrow> Job \<Rightarrow> 8 word list list \<times> 32 word option" where
  "sendJob stopped isOpen taken job =
     (if stopped \<or> \<not> isOpen then ([], None)
      else (take taken (job_chunks job),
            if length (job_chunks job) \<le> taken \<and> jb_sink job then Some (jb_frameNumber job) else None))"


section \<open>A run of the queue\<close>

text \<open>The calls that touch the queue: a \<open>push\<close>, whose caller may have looked at \<open>m_Stop\<close> before a \<open>stop\<close> that came first; a turn
  of the thread, with what it finds when it sends (stopped by then, the channel open, how many chunks go before a stop or an
  error); and a \<open>stop\<close>. The ledger says what became of every frame: the jobs the thread took, each with the number of its
  chunks that went to the channel, the chunks the channel was handed, the frames the sink was told of, the frames evicted and
  those a stop cleared away.\<close>

datatype QueueCall = Push Job | Turn bool bool nat | Stop

record Ledger =
  lg_sender :: FrameSender
  lg_taken :: "(Job \<times> nat) list"
  lg_wire :: "8 word list list"
  lg_told :: "32 word list"
  lg_evicted :: "Job list"
  lg_cleared :: "Job list"

definition pushed :: "QueueCall list \<Rightarrow> Job list" where
  "pushed cs = concat (map (\<lambda>c. case c of Push j \<Rightarrow> [j] | _ \<Rightarrow> []) cs)"

fun queue_call :: "QueueCall \<Rightarrow> Ledger \<Rightarrow> Ledger" where
  "queue_call (Push j) l = l\<lparr>lg_sender := snd (snd (push j (lg_sender l))), lg_evicted := lg_evicted l @ fst (evictions j (lg_sender l))\<rparr>"
| "queue_call (Turn halted isOpen n) l =
     (case next_job (lg_sender l) of
        None \<Rightarrow> l
      | Some (j, s) \<Rightarrow>
          (case sendJob halted isOpen n j of (chunks, told) \<Rightarrow>
             l\<lparr>lg_sender := s, lg_taken := lg_taken l @ [(j, length chunks)], lg_wire := lg_wire l @ chunks,
               lg_told := lg_told l @ (case told of None \<Rightarrow> [] | Some f \<Rightarrow> [f])\<rparr>))"
| "queue_call Stop l = l\<lparr>lg_sender := fq_stopped (lg_sender l),
     lg_cleared := lg_cleared l @ (if fq_stop (lg_sender l) then [] else fq_queue (lg_sender l))\<rparr>"

definition queue_run :: "nat \<Rightarrow> QueueCall list \<Rightarrow> Ledger" where
  "queue_run maxQueuedDeltas cs = fold queue_call cs \<lparr>lg_sender = fq_new maxQueuedDeltas, lg_taken = [], lg_wire = [],
     lg_told = [], lg_evicted = [], lg_cleared = []\<rparr>"

text \<open>The frames of which every chunk went, and somebody asked to be told.\<close>

definition sent_whole :: "(Job \<times> nat) list \<Rightarrow> 32 word list" where
  "sent_whole ts = map (jb_frameNumber \<circ> fst) (filter (\<lambda>(j, n). jb_sink j \<and> n = length (job_chunks j)) ts)"

abbreviation deltas :: "Job list \<Rightarrow> Job list" where
  "deltas q \<equiv> filter (\<lambda>j. \<not> jb_isKeyframe j) q"

text \<open>What leaves a queue early: deltas only, the rest in its order.\<close>

definition left_out :: "Job list \<Rightarrow> Job list \<times> Job list \<Rightarrow> bool" where
  "left_out q p \<longleftrightarrow> (case p of (out, rest) \<Rightarrow>
     mset q = mset out + mset rest \<and> subseq rest q \<and> filter jb_isKeyframe rest = filter jb_isKeyframe q \<and>
     filter jb_isKeyframe out = [])"

lemma left_out_none: "left_out q ([], q)"
  by (simp add: left_out_def)

lemma left_out_trans:
  assumes "left_out q (a, q1)" "left_out q1 (b, q2)"
  shows "left_out q (a @ b, q2)"
  using assms unfolding left_out_def by (auto intro: subseq_order.trans)

lemma left_out_Cons: "left_out q (out, rest) \<Longrightarrow> left_out (j # q) (out, j # rest)"
  by (auto simp: left_out_def)

lemma left_out_delta: "left_out q (out, rest) \<Longrightarrow> \<not> jb_isKeyframe j \<Longrightarrow> left_out (j # q) (j # out, rest)"
  by (auto simp: left_out_def)

lemma oldest_left_out: "oldest_delta q = Some (d, rest) \<Longrightarrow> left_out q ([d], rest)"
  by (induction q arbitrary: rest) (auto split: if_splits option.splits simp: left_out_delta[OF left_out_none] left_out_Cons)

lemma oldest_none: "oldest_delta q = None \<longleftrightarrow> deltas q = []"
  by (induction q) (auto split: option.splits)

lemma make_room_out: "left_out q (make_room q) \<and> (length (snd (make_room q)) < kMaxQueued \<or> deltas (snd (make_room q)) = [])"
proof (induction q rule: make_room.induct)
  case (1 q)
  show ?case
  proof (cases "length q \<ge> kMaxQueued")
    case True
    show ?thesis
    proof (cases "oldest_delta q")
      case None
      then show ?thesis using True oldest_none[of q] by (simp add: make_room.simps[of q] left_out_none)
    next
      case (Some p)
      obtain d rest where p: "p = (d, rest)" by (cases p)
      obtain out q' where r: "make_room rest = (out, q')" by (cases "make_room rest")
      have "left_out q ([d] @ out, q')"
        using "1.IH"[OF True Some p[symmetric]] oldest_left_out[of q d rest] Some p r
          left_out_trans[of q "[d]" rest out q'] by simp
      then show ?thesis using "1.IH"[OF True Some p[symmetric]] True Some p r by (simp add: make_room.simps[of q])
    qed
  qed (simp add: make_room.simps[of q] left_out_none)
qed

lemma shed_out:
  "n = length (deltas q) \<Longrightarrow>
    left_out q (shed_deltas n keep q) \<and> length (deltas (snd (shed_deltas n keep q))) = min keep n"
proof (induction q arbitrary: n)
  case (Cons j q)
  show ?case
  proof (cases "n > keep")
    case True
    let ?m = "if jb_isKeyframe j then n else n - 1"
    obtain out rest where r: "shed_deltas ?m keep q = (out, rest)" by fastforce
    have "?m = length (deltas q)" using Cons.prems by auto
    then show ?thesis using Cons.IH[of ?m] True r Cons.prems
      by (cases "jb_isKeyframe j") (auto simp: left_out_Cons left_out_delta)
  qed (use Cons.prems in \<open>simp add: left_out_none\<close>)
qed (simp add: left_out_none)

lemma evictions_out:
  "left_out (fq_queue s) (evictions j s) \<and>
   (length (snd (evictions j s)) < kMaxQueued \<or> deltas (snd (evictions j s)) = []) \<and>
   (fq_maxQueuedDeltas s < kMaxQueued \<longrightarrow> length (deltas (snd (evictions j s))) \<le>
      (if jb_isKeyframe j then 0 else fq_maxQueuedDeltas s - 1))"
proof -
  obtain full q where m: "make_room (fq_queue s) = (full, q)" by fastforce
  let ?keep = "if jb_isKeyframe j \<or> fq_maxQueuedDeltas s = 0 then 0 else fq_maxQueuedDeltas s - 1"
  obtain late r where l: "shed_deltas (length (deltas q)) ?keep q = (late, r)" by fastforce
  note room = make_room_out[of "fq_queue s", unfolded m] and shed = shed_out[OF refl, of q ?keep, unfolded l]
  show ?thesis
  proof (cases "fq_maxQueuedDeltas s < kMaxQueued")
    case True
    have "length r \<le> length q" using shed by (auto simp: left_out_def dest: list_emb_length)
    moreover have "deltas r = []" if "deltas q = []" using shed that by auto
    ultimately show ?thesis using True m l room shed by (auto simp: evictions_def intro: left_out_trans)
  qed (use m room in \<open>simp add: evictions_def\<close>)
qed

definition queue_inv :: "nat \<Rightarrow> QueueCall list \<Rightarrow> Ledger \<Rightarrow> bool" where
  "queue_inv d cs l \<longleftrightarrow> (let q = fq_queue (lg_sender l); taken = map fst (lg_taken l) in
     mset (pushed cs) = mset taken + mset (lg_evicted l) + mset (lg_cleared l) + mset q \<and> subseq (taken @ q) (pushed cs) \<and>
     filter jb_isKeyframe (lg_evicted l) = [] \<and> (lg_cleared l = [] \<or> Stop \<in> set cs) \<and>
     fq_queueDrops (lg_sender l) = length (lg_evicted l) \<and> fq_maxQueuedDeltas (lg_sender l) = d \<and>
     lg_wire l = concat (map (\<lambda>(j, n). take n (job_chunks j)) (lg_taken l)) \<and> subseq (lg_told l) (sent_whole (lg_taken l)) \<and>
     (length q \<le> kMaxQueued \<or> length (deltas q) \<le> 1) \<and>
     length (deltas q) \<le> (if d < kMaxQueued then max 1 d else kMaxQueued))"

lemma sent_chunks: "fst (sendJob halted isOpen n j) = take (length (fst (sendJob halted isOpen n j))) (job_chunks j)"
  by (auto simp: sendJob_def min_def)

lemma told_whole: "snd (sendJob halted isOpen n j) = Some f \<Longrightarrow>
    f = jb_frameNumber j \<and> jb_sink j \<and> length (fst (sendJob halted isOpen n j)) = length (job_chunks j)"
  by (auto simp: sendJob_def min_def split: if_splits)

lemma sent_whole_append [simp]: "sent_whole (xs @ ys) = sent_whole xs @ sent_whole ys"
  by (simp add: sent_whole_def)

lemma push_step:
  assumes "queue_inv d cs l"
  shows "queue_inv d (cs @ [Push j]) (queue_call (Push j) l)"
proof -
  let ?s = "lg_sender l" and ?taken = "map fst (lg_taken l)"
  obtain ev q where e: "evictions j ?s = (ev, q)" by fastforce
  note o = evictions_out[of ?s j, unfolded e] and i = assms[unfolded queue_inv_def Let_def]
  have st: "queue_call (Push j) l = l\<lparr>lg_sender := ?s\<lparr>fq_queue := q @ [j], fq_queueDrops := fq_queueDrops ?s + length ev\<rparr>,
      lg_evicted := lg_evicted l @ ev\<rparr>"
    by (simp add: push_def e)
  have p: "pushed (cs @ [Push j]) = pushed cs @ [j]" by (simp add: pushed_def)
  have parts: "mset (fq_queue ?s) = mset ev + mset q" "subseq q (fq_queue ?s)" "filter jb_isKeyframe ev = []"
    using o by (auto simp: left_out_def)
  have "subseq (?taken @ q) (pushed cs)" using parts(2) i by (metis subseq_order.trans list_emb_append_mono subseq_order.refl)
  then have sub: "subseq ((?taken @ q) @ [j]) (pushed cs @ [j])" by (rule list_emb_append_mono) simp
  have many: "length (deltas q) < 8"
    using o le_less_trans[OF length_filter_le[of "\<lambda>j. \<not> jb_isKeyframe j" q], of 8] by (auto simp: tunables)
  have bound: "length (q @ [j]) \<le> kMaxQueued \<or> length (deltas (q @ [j])) \<le> 1" using o by auto
  have "length (deltas (q @ [j])) \<le> (if d < kMaxQueued then max 1 d else kMaxQueued)"
    using o i many by (auto simp: tunables split: if_splits)
  then show ?thesis unfolding queue_inv_def st p Let_def using i parts sub bound by auto
qed

lemma turn_step:
  assumes "queue_inv d cs l"
  shows "queue_inv d (cs @ [Turn halted isOpen n]) (queue_call (Turn halted isOpen n) l)"
proof -
  have p: "pushed (cs @ [Turn halted isOpen n]) = pushed cs" by (simp add: pushed_def)
  note i = assms[unfolded queue_inv_def Let_def]
  show ?thesis
  proof (cases "next_job (lg_sender l)")
    case None
    then show ?thesis using i unfolding queue_inv_def p Let_def by simp
  next
    case (Some js)
    obtain j q where j: "fq_queue (lg_sender l) = j # q" "next_job (lg_sender l) = Some (j, (lg_sender l)\<lparr>fq_queue := q\<rparr>)"
      using Some by (auto simp: next_job_def split: if_splits list.splits)
    obtain chunks told where s: "sendJob halted isOpen n j = (chunks, told)" by fastforce
    note c = sent_chunks[of halted isOpen n j, unfolded s fst_conv]
    have "subseq (case told of None \<Rightarrow> [] | Some f \<Rightarrow> [f]) (sent_whole [(j, length chunks)])"
      using told_whole[of halted isOpen n j, unfolded s fst_conv snd_conv]
      by (cases told) (auto simp: sent_whole_def)
    then have told: "subseq (lg_told l @ (case told of None \<Rightarrow> [] | Some f \<Rightarrow> [f])) (sent_whole (lg_taken l @ [(j, length chunks)]))"
      using i unfolding sent_whole_append by (blast intro: list_emb_append_mono)
    show ?thesis using i told c unfolding queue_inv_def p Let_def
      by (auto simp: j s split: if_splits)
  qed
qed

lemma stop_step:
  assumes "queue_inv d cs l"
  shows "queue_inv d (cs @ [Stop]) (queue_call Stop l)"
proof -
  have p: "pushed (cs @ [Stop]) = pushed cs" by (simp add: pushed_def)
  note i = assms[unfolded queue_inv_def Let_def]
  have "subseq (map fst (lg_taken l)) (pushed cs)" using i by (metis list_emb_append2 subseq_order.trans subseq_order.refl append_Nil2 list_emb_append_mono list_emb_Nil)
  then show ?thesis using i unfolding queue_inv_def p Let_def by (auto simp: fq_stopped_def)
qed

lemma queue_run_inv: "queue_inv d cs (queue_run d cs)"
proof (induction cs rule: rev_induct)
  case (snoc c cs)
  then show ?case using push_step turn_step stop_step by (cases c) (simp_all add: queue_run_def)
qed (simp add: queue_run_def queue_inv_def fq_new_def pushed_def sent_whole_def tunables)


text \<open>Three deltas and a keyframe through a sender with room for one delta: the first goes whole, the third evicts the second, and of the
  third one chunk of two goes before the channel fails; a stop clears the keyframe.\<close>

definition small_job :: "bool \<Rightarrow> 32 word \<Rightarrow> Job" where
  "small_job k n = \<lparr>jb_body = Ready [[1], [2]], jb_isKeyframe = k, jb_frameId = n, jb_backendTs = 0, jb_frameNumber = n, jb_sink = True\<rparr>"



section \<open>The frame put together again\<close>

text \<open>What the header of \<open>FrameSender.cpp\<close> lays down of a chunk, read back: frame, index, number of chunks, keyframe, size,
  time and payload.\<close>

definition read_u16 :: "8 word list \<Rightarrow> nat \<Rightarrow> 16 word" where
  "read_u16 b i = push_bit 8 (ucast (b ! i)) OR ucast (b ! (i + 1))"

record Chunk =
  ck_frameId :: "32 word"
  ck_index :: "16 word"
  ck_total :: "16 word"
  ck_isKeyframe :: bool
  ck_size :: "32 word"
  ck_backendTs :: "32 word"
  ck_payload :: "8 word list"

definition read_chunk :: "8 word list \<Rightarrow> Chunk" where
  "read_chunk b = \<lparr>ck_frameId = readU32 b 0, ck_index = read_u16 b 4, ck_total = read_u16 b 6, ck_isKeyframe = (b ! 8 = 1),
     ck_size = readU32 b 9, ck_backendTs = readU32 b 13, ck_payload = drop kFragHeaderSize b\<rparr>"

lemma byte_mask_16: "(0xFF :: 16 word) = mask 8"
  by (simp add: mask_eq_exp_minus_1)

lemma two_bytes_back: "read_u16 (two_bytes v @ rest) 0 = v"
proof (rule bit_word_eqI)
  fix n assume "n < LENGTH(16)"
  then show "bit (read_u16 (two_bytes v @ rest) 0) n = bit v n"
    unfolding two_bytes_def byte_mask_16 by (cases "n < 8") (auto simp: read_u16_def bit_simps)
qed

lemma read_u16_at: "length xs = n \<Longrightarrow> read_u16 (xs @ b) n = read_u16 b 0"
  by (auto simp: read_u16_def nth_append)

lemma readU32_at: "length xs = n \<Longrightarrow> readU32 (xs @ b) n = readU32 b 0"
  by (auto simp: readU32_def nth_append numeral_2_eq_2 numeral_3_eq_3)

lemma length_two_bytes [simp]: "length (two_bytes v) = 2"
  by (simp add: two_bytes_def)

lemma chunk_read_back:
  "read_chunk (writeHeader f i n k len ts @ payload) =
     \<lparr>ck_frameId = f, ck_index = i, ck_total = n, ck_isKeyframe = k, ck_size = len, ck_backendTs = ts, ck_payload = payload\<rparr>"
proof -
  let ?k = "[if k then 1 else 0 :: 8 word]"
  let ?b = "appendU32 [] f @ two_bytes i @ two_bytes n @ ?k @ appendU32 [] len @ appendU32 [] ts @ payload"
  have w: "writeHeader f i n k len ts @ payload = ?b"
    by (simp add: writeHeader_def appendU32_def)
  have "read_u16 ?b 4 = i" by (subst read_u16_at) (simp_all add: two_bytes_back)
  moreover have "read_u16 ?b 6 = n"
    using read_u16_at[of "appendU32 [] f @ two_bytes i" 6 "two_bytes n @ ?k @ appendU32 [] len @ appendU32 [] ts @ payload"]
    by (simp add: two_bytes_back)
  moreover have "?b ! 8 = hd ?k" by (simp add: nth_append)
  moreover have "readU32 ?b 9 = len"
    using readU32_at[of "appendU32 [] f @ two_bytes i @ two_bytes n @ ?k" 9 "appendU32 [] len @ appendU32 [] ts @ payload"]
    by (simp only: append_assoc length_append length_appendU32 length_two_bytes list.size) (simp add: read_appended)
  moreover have "readU32 ?b 13 = ts"
    using readU32_at[of "appendU32 [] f @ two_bytes i @ two_bytes n @ ?k @ appendU32 [] len" 13 "appendU32 [] ts @ payload"]
    by (simp only: append_assoc length_append length_appendU32 length_two_bytes list.size) (simp add: read_appended)
  moreover have "drop 17 ?b = payload" by simp
  ultimately show ?thesis unfolding w read_chunk_def by (simp add: read_appended kFragHeaderSize_def)
qed

lemma length_writeHeader [simp]: "length (writeHeader f i n k len ts) = 17"
  by (simp add: writeHeader_def two_bytes_def)

text \<open>The pieces of \<open>k\<close> elements of a list are the list.\<close>

lemma count_step: "0 < n \<Longrightarrow> 0 < k \<Longrightarrow> (n + k - 1) div k = Suc ((n - k + k - 1) div (k :: nat))"
proof -
  assume n: "0 < n" "0 < k"
  show ?thesis
  proof (cases "k \<le> n")
    case True
    then have "n + k - 1 = (n - k + k - 1) + k" using n by simp
    then show ?thesis using n by (metis div_add_self2 less_numeral_extra(3) Suc_eq_plus1)
  next
    case False
    then have "(n + k - 1) div k = 1" "(n - k + k - 1) div k = 0" using n by (intro div_nat_eqI; simp)+
    then show ?thesis by simp
  qed
qed

lemma pieces_join: "0 < k \<Longrightarrow> concat (map (\<lambda>i. take k (drop (i * k) xs)) [0..<(length xs + k - 1) div k]) = xs"
proof (induction "length xs" arbitrary: xs rule: less_induct)
  case less
  show ?case
  proof (cases "xs = []")
    case False
    let ?m = "(length (drop k xs) + k - 1) div k"
    have n: "(length xs + k - 1) div k = Suc ?m" using count_step[of "length xs" k] False less.prems by simp
    have ih: "concat (map (\<lambda>i. take k (drop (i * k) (drop k xs))) [0..<?m]) = drop k xs"
      by (rule less.hyps) (use False less.prems in simp_all)
    have "[0..<Suc ?m] = 0 # map Suc [0..<?m]" by (simp only: upt_conv_Cons[OF zero_less_Suc] map_Suc_upt)
    then have "map (\<lambda>i. take k (drop (i * k) xs)) [0..<Suc ?m] =
        take k xs # map (\<lambda>i. take k (drop (i * k) (drop k xs))) [0..<?m]"
      by (simp only: list.map map_map comp_def drop_drop mult_Suc mult_0 drop_0 add.commute)
    then show ?thesis unfolding n using ih by (simp only: concat.simps append_take_drop_id)
  qed (use less.prems in simp)
qed


lemma job_chunks_whole:
  "job_chunks \<lparr>jb_body = Whole data, jb_isKeyframe = k, jb_frameId = f, jb_backendTs = ts, jb_frameNumber = n, jb_sink = s\<rparr> =
     buildFragments data k f ts"
  by (simp add: job_chunks_def buildFragments_def Let_def tunables)

text \<open>The chunks of a frame: how many, and each of them.\<close>

lemma take_rest: "take (min k (length xs - a)) (drop a xs) = take k (drop a xs)"
  by (cases "k \<le> length xs - a") (simp_all add: min_def)

lemma chunks_of:
  assumes "data \<noteq> []"
  defines "n \<equiv> (length data + kMaxPayloadSize - 1) div kMaxPayloadSize"
  shows "buildFragments data k f ts =
    map (\<lambda>i. writeHeader f (word_of_nat i) (word_of_nat n) k (word_of_nat (length (take kMaxPayloadSize (drop (i * kMaxPayloadSize) data)))) ts @
      take kMaxPayloadSize (drop (i * kMaxPayloadSize) data)) [0..<n]"
  using assms(1) unfolding buildFragments_def n_def Let_def by (simp only: if_False take_rest) (simp add: min.commute)

text \<open>C16. A frame is put together again from what is sent of it: the payloads of the chunks, in order, are its bytes, and every
  chunk says which frame it is of, which part of how many, how many bytes it carries and when the frame was captured; none is
  larger than 16,017 bytes. And the two ways a frame reaches the wire, cut by the thread or by the producer, send the same
  chunks.\<close>

theorem frame_reassembles:
  fixes data :: "8 word list" and frameId backendTs :: "32 word" and isKeyframe :: bool
  assumes "data \<noteq> []" and "length data \<le> 65535 * 16000"
  defines "chunks \<equiv> buildFragments data isKeyframe frameId backendTs"
  shows "concat (map (ck_payload \<circ> read_chunk) chunks) = data \<and>
    (\<forall>i < length chunks. case read_chunk (chunks ! i) of c \<Rightarrow>
       ck_frameId c = frameId \<and> unat (ck_index c) = i \<and> unat (ck_total c) = length chunks \<and> ck_isKeyframe c = isKeyframe \<and>
       unat (ck_size c) = length (ck_payload c) \<and> ck_backendTs c = backendTs \<and> length (chunks ! i) \<le> 16017) \<and>
    job_chunks \<lparr>jb_body = Whole data, jb_isKeyframe = isKeyframe, jb_frameId = frameId, jb_backendTs = backendTs,
      jb_frameNumber = number, jb_sink = sink\<rparr> = chunks"
proof -
  let ?n = "(length data + kMaxPayloadSize - 1) div kMaxPayloadSize"
  let ?piece = "\<lambda>i. take kMaxPayloadSize (drop (i * kMaxPayloadSize) data)"
  have cs: "chunks = map (\<lambda>i. writeHeader frameId (word_of_nat i) (word_of_nat ?n) isKeyframe
      (word_of_nat (length (?piece i))) backendTs @ ?piece i) [0..<?n]"
    unfolding chunks_def by (rule chunks_of[OF assms(1)])
  have "?n \<le> (65535 * 16000 + 15999) div 16000" using assms(2) unfolding tunables by (intro div_le_mono) simp
  then have n: "?n \<le> 65535" by simp
  have "map (ck_payload \<circ> read_chunk) chunks = map ?piece [0..<?n]" by (simp add: cs chunk_read_back comp_def)
  moreover have "concat (map ?piece [0..<?n]) = data" by (rule pieces_join) (simp add: tunables)
  moreover have "case read_chunk (chunks ! i) of c \<Rightarrow>
       ck_frameId c = frameId \<and> unat (ck_index c) = i \<and> unat (ck_total c) = length chunks \<and> ck_isKeyframe c = isKeyframe \<and>
       unat (ck_size c) = length (ck_payload c) \<and> ck_backendTs c = backendTs \<and> length (chunks ! i) \<le> 16017"
    if "i < length chunks" for i
  proof -
    have i: "i < ?n" using that by (simp add: cs)
    have small: "length (?piece i) \<le> 16000" by (simp add: tunables)
    have "unat (word_of_nat i :: 16 word) = i" "unat (word_of_nat ?n :: 16 word) = ?n"
      "unat (word_of_nat (length (?piece i)) :: 32 word) = length (?piece i)"
      using i n small by (simp_all only: unsigned_of_nat, (subst take_bit_nat_eq_self; simp)+)
    then show ?thesis using i small by (simp add: cs chunk_read_back)
  qed
  ultimately show ?thesis using job_chunks_whole by (simp add: chunks_def)
qed

lemma frame_reassembles_witness:
  "concat (map (ck_payload \<circ> read_chunk) (buildFragments (replicate 20000 7) True 3 5)) = replicate 20000 7"
  using frame_reassembles[of "replicate 20000 7" True 3 5] by simp

end
