(* ===== verification/Hevc_Patch.thy ===== *)
theory Hevc_Patch
  imports H264_Vui
begin

text \<open>
  The patch of the first HEVC keyframe (\<open>src/streaming/DataChannelRelay.cpp\<close>): its parameter sets are found in the byte stream and
  rebuilt for a single temporal layer. A \<open>QByteArray\<close> is a list of bytes; \<open>mid\<close> and \<open>replace\<close> cut at the end as Qt's do.
\<close>

unbundle bit_operations_syntax

section \<open>Emulation prevention\<close>

fun removeHvcEp :: "8 word list \<Rightarrow> 8 word list" where
  "removeHvcEp (a # b # c # rest) =
     (if a = 0 \<and> b = 0 \<and> c = 3 then 0 # 0 # removeHvcEp rest else a # removeHvcEp (b # c # rest))"
| "removeHvcEp xs = xs"

fun add_ep :: "nat \<Rightarrow> 8 word list \<Rightarrow> 8 word list" where
  "add_ep zeroRun [] = []"
| "add_ep zeroRun (b # bs) =
     (if zeroRun \<ge> 2 \<and> b \<le> 3 then 3 # b # add_ep (if b = 0 then 1 else 0) bs
      else b # add_ep (if b = 0 then zeroRun + 1 else 0) bs)"

definition addHvcEp :: "8 word list \<Rightarrow> 8 word list" where
  "addHvcEp rbsp = add_ep 0 rbsp"

section \<open>The NAL units of a stream\<close>

record NalLocation =
  nl_startOffset :: nat
  nl_startLen :: nat
  nl_nalOffset :: nat
  nl_nalLen :: nat

definition start_code :: "8 word list \<Rightarrow> nat \<Rightarrow> nat" where
  "start_code d i =
     (if d ! i = 0 \<and> d ! (i + 1) = 0
      then (if d ! (i + 2) = 1 then 3 else if i + 3 < length d \<and> d ! (i + 2) = 0 \<and> d ! (i + 3) = 1 then 4 else 0)
      else 0)"

function nal_end :: "8 word list \<Rightarrow> nat \<Rightarrow> nat" where
  "nal_end d j =
     (if j + 3 < length d then (if start_code d j \<noteq> 0 then j else nal_end d (j + 1)) else length d)"
  by auto

termination by (relation "measure (\<lambda>(d, j). length d - j)") auto

declare nal_end.simps [simp del]

lemma nal_end_ge: "j \<le> length d \<Longrightarrow> j \<le> nal_end d j \<and> nal_end d j \<le> length d"
proof (induction d j rule: nal_end.induct)
  case (1 d j)
  then show ?case by (subst (1 2) nal_end.simps) (auto simp: nal_end.simps[of d j])
qed

lemma start_code_len: "start_code d i \<noteq> 0 \<Longrightarrow> start_code d i = 3 \<or> start_code d i = 4"
  by (simp add: start_code_def split: if_splits)

function scan_from :: "8 word list \<Rightarrow> nat \<Rightarrow> NalLocation list" where
  "scan_from d i =
     (if i + 3 < length d
      then (if start_code d i \<noteq> 0
            then let off = i + start_code d i; end = nal_end d off
                 in \<lparr>nl_startOffset = i, nl_startLen = start_code d i, nl_nalOffset = off, nl_nalLen = end - off\<rparr> # scan_from d end
            else scan_from d (i + 1))
      else [])"
  by auto

termination
proof (relation "measure (\<lambda>(d, j). length d - j)")
  fix d :: "8 word list" and i x xa
  assume "i + 3 < length d" "start_code d i \<noteq> 0" "x = i + start_code d i" "xa = nal_end d x"
  then show "((d, xa), d, i) \<in> measure (\<lambda>(d, j). length d - j)"
    using nal_end_ge[of x d] start_code_len[of d i] by auto
qed auto

declare scan_from.simps [simp del]

definition scanNals :: "8 word list \<Rightarrow> NalLocation list" where
  "scanNals data = scan_from data 0"

definition hevcNalType :: "8 word list \<Rightarrow> int" where
  "hevcNalType nal = (if length nal < 2 then - 1 else uint (drop_bit 1 (nal ! 0) AND 0x3F))"

definition nal_of :: "8 word list \<Rightarrow> NalLocation \<Rightarrow> 8 word list" where
  "nal_of data loc = take (nl_nalLen loc) (drop (nl_nalOffset loc) data)"

section \<open>The parameter sets rebuilt\<close>

definition rebuildVpsNoSubLayers :: "8 word list \<Rightarrow> 8 word list" where
  "rebuildVpsNoSubLayers vps =
     (if length vps < 18 then []
      else if drop_bit 1 (vps ! 3) AND 0x07 = 0 then []
      else take 2 vps @ [vps ! 2, vps ! 3 AND 0xF1, vps ! 4, vps ! 5] @ take 12 (drop 6 vps) @ [0x00, 0x00, 0x70, 0x24])"

text \<open>What the present flags of a layer add after them.\<close>

definition layer_bytes :: "8 word \<Rightarrow> 8 word \<Rightarrow> nat \<Rightarrow> nat" where
  "layer_bytes flagsByte0 flagsByte1 j =
     (let profilePresent = (if j < 4 then bit flagsByte0 (7 - j * 2) else bit flagsByte1 (15 - j * 2));
          levelPresent = (if j < 4 then bit flagsByte0 (6 - j * 2) else bit flagsByte1 (14 - j * 2))
      in (if profilePresent then 12 else 0) + (if levelPresent then 1 else 0))"

definition rebuildSpsNoSubLayers :: "8 word list \<Rightarrow> 8 word list" where
  "rebuildSpsNoSubLayers sps =
     (if length sps < 17 then []
      else let origSubLayers = unat (drop_bit 1 (sps ! 2) AND 0x07)
           in if origSubLayers = 0 then []
              else let subLayerDataBytes = sum_list (map (layer_bytes (sps ! 15) (sps ! 16)) [0..<origSubLayers]);
                       ptlEnd = min (15 + 2 + subLayerDataBytes) (length sps)
                   in take 2 sps @ [sps ! 2 AND 0xF1] @ take 12 (drop 3 sps) @ [0x00, 0x00] @ drop ptlEnd sps)"

definition capped_level :: "8 word \<Rightarrow> 8 word" where
  "capped_level levelIdc = (if levelIdc > 153 then 153 else if levelIdc > 0 \<and> levelIdc < 30 then 153 else levelIdc)"

definition replace_nal :: "NalLocation \<Rightarrow> 8 word list \<Rightarrow> 8 word list \<Rightarrow> 8 word list" where
  "replace_nal loc new data = take (nl_nalOffset loc) data @ new @ drop (nl_nalOffset loc + nl_nalLen loc) data"

definition last_of_type :: "8 word list \<Rightarrow> int \<Rightarrow> NalLocation option" where
  "last_of_type data ty = find (\<lambda>loc. hevcNalType (nal_of data loc) = ty) (rev (scanNals data))"

definition patch_vps :: "NalLocation \<Rightarrow> 8 word list \<Rightarrow> 8 word list" where
  "patch_vps loc data =
     (let rebuilt = rebuildVpsNoSubLayers (removeHvcEp (nal_of data loc))
      in if rebuilt = [] then data else replace_nal loc (addHvcEp rebuilt) data)"

definition patch_sps :: "NalLocation \<Rightarrow> 8 word list \<Rightarrow> 8 word list" where
  "patch_sps loc data =
     (let rebuilt = rebuildSpsNoSubLayers (removeHvcEp (nal_of data loc))
      in if rebuilt = [] then data
         else replace_nal loc (addHvcEp (if length rebuilt > 14 then rebuilt[14 := capped_level (rebuilt ! 14)] else rebuilt)) data)"

text \<open>The places are found before anything is replaced.\<close>

definition patchHevcKeyframe :: "8 word list \<Rightarrow> 8 word list" where
  "patchHevcKeyframe data =
     (let vps = last_of_type data 32; sps = last_of_type data 33;
          data = (case vps of None \<Rightarrow> data | Some loc \<Rightarrow> patch_vps loc data)
      in case sps of None \<Rightarrow> data | Some loc \<Rightarrow> patch_sps loc data)"

text \<open>What is done to the first keyframe of a session.\<close>

definition first_keyframe :: "8 word list \<Rightarrow> 8 word list" where
  "first_keyframe data =
     (if list_ex (\<lambda>loc. hevcNalType (take (min (nl_nalLen loc) 16) (drop (nl_nalOffset loc) data)) = 32) (scanNals data)
      then patchHevcKeyframe data else data)"


section \<open>What holds of the patch\<close>

lemma remove_hd: "removeHvcEp (a # xs) = a # tl (removeHvcEp (a # xs))"
  by (cases "(a # xs)" rule: removeHvcEp.cases) auto

lemma remove_nonzero: "b \<noteq> 0 \<Longrightarrow> removeHvcEp (b # bs) = b # removeHvcEp bs"
  by (cases "(b # bs)" rule: removeHvcEp.cases) auto

lemma remove_zero_nonzero: "b \<noteq> 0 \<Longrightarrow> removeHvcEp (0 # b # bs) = 0 # b # removeHvcEp bs"
  by (cases bs) (auto simp: remove_nonzero)

lemma remove_zeros: "removeHvcEp (0 # 0 # xs) = 0 # 0 # drop 2 (removeHvcEp (0 # 0 # xs))"
proof (cases xs)
  case (Cons c rest)
  have "removeHvcEp (0 # c # rest) = 0 # tl (removeHvcEp (0 # c # rest))" by (rule remove_hd)
  then show ?thesis unfolding Cons by (auto simp: drop_Suc)
qed simp

lemma remove_short: "length xs < 3 \<Longrightarrow> removeHvcEp xs = xs"
  by (cases xs rule: removeHvcEp.cases) auto

lemma unescape_as_removed: "unescape_loop z xs = drop (min z 2) (removeHvcEp (replicate (min z 2) 0 @ xs))"
proof (induction xs arbitrary: z)
  case (Cons b bs)
  obtain r where r: "removeHvcEp (0 # 0 # bs) = 0 # 0 # r" using remove_zeros[of bs] by blast
  obtain q where q: "removeHvcEp (0 # bs) = 0 # q" using remove_hd[of 0 bs] by blast
  consider "z = 0" | "z = 1" | n where "z = n + 2" by (metis One_nat_def add_2_eq_Suc' not0_implies_Suc)
  then show ?case
  proof cases
    case 1
    then show ?thesis using Cons.IH[of 1] Cons.IH[of 0] q by (cases "b = 0") (simp_all add: remove_nonzero)
  next
    case 2
    then show ?thesis using Cons.IH[of 2] Cons.IH[of 0] r
      by (cases "b = 0") (simp_all add: remove_zero_nonzero numeral_2_eq_2)
  next
    case 3
    have m: "min z 2 = 2" "min (Suc z) 2 = 2" using 3 by simp_all
    have two: "replicate 2 (0 :: 8 word) = [0, 0]" by (simp add: numeral_2_eq_2)
    consider "b = 3" | "b = 0" | "b \<noteq> 3" "b \<noteq> 0" by blast
    then show ?thesis
    proof cases
      case 2
      then show ?thesis using Cons.IH[of "Suc z"] 3 r unfolding m two by simp
    qed (use Cons.IH[of 0] 3 in \<open>simp_all add: m two remove_zero_nonzero\<close>)
  qed
qed (simp add: remove_short)

lemma add_ep_escape: "add_ep z bs = escape_loop z bs []"
  by (induction bs arbitrary: z) (auto simp: escape_loop_Cons simp del: escape_loop.simps(2))

text \<open>C36. The relay's own emulation prevention is the engine's: the bytes the patch takes out of a parameter set are those \<open>H264Vui.h\<close>
  takes out, the bytes it puts back are those \<open>H264Vui.h\<close> puts in, so that what is read again after a patch is what was
  written, and a rebuilt parameter set never holds a start code.\<close>

theorem patch_escapes_as_the_engine:
  "removeHvcEp nal = unescape nal \<and> addHvcEp rbsp = escapeInto rbsp [] \<and> removeHvcEp (addHvcEp rbsp) = rbsp \<and>
   start_code_free (addHvcEp rbsp)"
proof -
  have "removeHvcEp xs = unescape xs" for xs using unescape_as_removed[of 0 xs] by (simp add: unescape_def)
  moreover have "addHvcEp rbsp = escapeInto rbsp []" by (simp add: addHvcEp_def add_ep_escape escapeInto_def)
  ultimately show ?thesis using escape_round_trip by simp
qed

text \<open>A stream whose parameter sets have one layer is left as it is.\<close>

lemma single_layer_untouched:
  assumes "\<And>loc. loc \<in> set (scanNals data) \<Longrightarrow> hevcNalType (nal_of data loc) = 32 \<Longrightarrow>
      drop_bit 1 (removeHvcEp (nal_of data loc) ! 3) AND 7 = 0"
    and "\<And>loc. loc \<in> set (scanNals data) \<Longrightarrow> hevcNalType (nal_of data loc) = 33 \<Longrightarrow>
      drop_bit 1 (removeHvcEp (nal_of data loc) ! 2) AND 7 = 0"
  shows "first_keyframe data = data"
proof -
  have found: "loc \<in> set (scanNals data) \<and> hevcNalType (nal_of data loc) = ty" if "last_of_type data ty = Some loc" for ty loc
    using that by (auto simp: last_of_type_def find_Some_iff) (metis length_rev nth_mem set_rev)
  have "patch_vps loc data = data" if "last_of_type data 32 = Some loc" for loc
    using found[OF that] assms(1)[of loc] by (simp add: patch_vps_def rebuildVpsNoSubLayers_def)
  moreover have "patch_sps loc data = data" if "last_of_type data 33 = Some loc" for loc
    using found[OF that] assms(2)[of loc] by (simp add: patch_sps_def rebuildSpsNoSubLayers_def)
  ultimately show ?thesis by (simp add: first_keyframe_def patchHevcKeyframe_def split: option.splits)
qed

text \<open>A VPS of two layers and 24 bytes, an SPS of two layers behind it.\<close>

definition layered_keyframe :: "8 word list" where
  "layered_keyframe = [0, 0, 0, 1, 0x40, 1, 0x0C, 0x03, 0xFF, 0xFF, 1, 2, 4, 5, 6, 7, 8, 9, 10, 11, 12, 93, 0x50, 0x50, 13, 14, 15, 16,
     0, 0, 0, 1, 0x42, 1, 0x03, 1, 2, 4, 5, 6, 7, 8, 9, 10, 11, 12, 93, 0x40, 0x40, 21, 22, 23, 24, 25, 26, 27, 28, 29, 30]"


text \<open>The SPS is looked for where it was before the VPS shrank: its layers stay, and bytes behind them are lost.\<close>

lemma sps_place_is_stale:
  "patchHevcKeyframe layered_keyframe =
     take 4 layered_keyframe @ rebuildVpsNoSubLayers (take 24 (drop 4 layered_keyframe)) @
       [0, 0, 0, 1, 0x42, 1, 0x03, 1, 0, 4, 5, 6, 7, 8, 9, 10, 11, 12, 93, 0x40, 0x40, 0, 0, 23, 24, 25, 26, 27, 28, 29, 30]"
  "rebuildSpsNoSubLayers (drop 32 layered_keyframe) =
     [0x42, 1, 0x01, 1, 2, 4, 5, 6, 7, 8, 9, 10, 11, 12, 93, 0, 0, 22, 23, 24, 25, 26, 27, 28, 29, 30]"
  by code_simp+

end
