(* ===== verification/Video_Relay.thy ===== *)
theory Video_Relay
  imports Frame_Sender Link_Watch Hevc_Patch
begin

text \<open>
  The video path of a session over a data channel (\<open>src/streaming/DataChannelRelay.cpp\<close>): which frames of the engine are handed to
  the sender, when a keyframe is asked for, the keyframe that waits for the channel to open, and the names a receiver
  gives to frames it lost. The lock around every entry makes a run a sequence of calls. What a call reads of the world is a
  \<open>Moment\<close>: the wall clock, the steady clock, what the channel has buffered, what the engine answers; what it asks of the engine
  is a list of effects. Counters for the log are kept; the decode latency of the statistics is left out.
\<close>

unbundle bit_operations_syntax

section \<open>The state\<close>

datatype Channel = NoChannel | NotOpen | IsOpen

record VideoRelay =
  vr_stopping :: bool
  vr_videoDc :: Channel
  vr_rideOutLoss :: bool
  vr_directVideoSend :: bool
  vr_awaitingIdr :: bool
  vr_idrCooldownTimer :: "int option"
  vr_idrCooldownMs :: int
  vr_idrOutstanding :: bool
  vr_idrWaitsForDrain :: bool
  vr_idrWaitSinceMs :: int
  vr_bufferedKeyframe :: "8 word list"
  vr_bufferedKeyframePresUs :: int
  vr_haveBufferedKeyframe :: bool
  vr_newKeyframeArrived :: bool
  vr_hevcPatched :: bool
  vr_backlog :: SendBacklog
  vr_freezes :: LinkFreezeLog
  vr_hostLag :: HostLagTracker
  vr_frameId :: "32 word"
  vr_frameNumberById :: "int list"
  vr_frameCount :: int
  vr_deltaDroppedCount :: int
  vr_awaitingIdrDropCount :: int
  vr_keyframeBackpressureWarnings :: int
  vr_backpressureDropCount :: int
  vr_sender :: FrameSender

record Moment =
  mo_wallMs :: int
  mo_steadyMs :: int
  mo_bufferedAmount :: int
  mo_intraRefresh :: bool
  mo_referenceInvalidation :: bool
  mo_workerDroppedDelta :: bool
  mo_sink :: bool
  mo_firstArrivalSteadyMs :: int
  mo_presentationTimeUs :: int

datatype RelayEffect = AskKeyframe | InvalidateReference "32 word" | NoteEviction

type_synonym acted = "VideoRelay \<times> RelayEffect list"

definition kIdrCooldownBaseMs :: int where
  [tunables]: "kIdrCooldownBaseMs = 300"

definition kIdrCooldownMaxMs :: int where
  [tunables]: "kIdrCooldownMaxMs = 5000"

definition kFrameNumberRing :: nat where
  [tunables]: "kFrameNumberRing = 512"

definition kGameStreamQueuedDeltas :: nat where
  [tunables]: "kGameStreamQueuedDeltas = 2"

text \<open>A relay for the native engine or another, with the stream's bitrate.\<close>

definition vr_new :: "bool \<Rightarrow> bool \<Rightarrow> int \<Rightarrow> VideoRelay" where
  "vr_new native rideOut bitrateKbps =
     \<lparr>vr_stopping = False, vr_videoDc = NoChannel, vr_rideOutLoss = rideOut, vr_directVideoSend = native,
      vr_awaitingIdr = False, vr_idrCooldownTimer = None, vr_idrCooldownMs = kIdrCooldownBaseMs, vr_idrOutstanding = False,
      vr_idrWaitsForDrain = False, vr_idrWaitSinceMs = 0, vr_bufferedKeyframe = [], vr_bufferedKeyframePresUs = - 1,
      vr_haveBufferedKeyframe = False, vr_newKeyframeArrived = False, vr_hevcPatched = False,
      vr_backlog = sb_setBitrateKbps bitrateKbps sb_new, vr_freezes = lf_new, vr_hostLag = hl_new, vr_frameId = 0,
      vr_frameNumberById = replicate kFrameNumberRing (- 1), vr_frameCount = 0, vr_deltaDroppedCount = 0,
      vr_awaitingIdrDropCount = 0, vr_keyframeBackpressureWarnings = 0, vr_backpressureDropCount = 0,
      vr_sender = fq_new (if native then 1 else kGameStreamQueuedDeltas)\<rparr>"

definition ridingOutLoss :: "Moment \<Rightarrow> VideoRelay \<Rightarrow> bool" where
  "ridingOutLoss mo r \<longleftrightarrow> vr_rideOutLoss r \<and> mo_intraRefresh mo"

section \<open>Asking for a keyframe\<close>

definition sendIdrRequestThrottled :: "Moment \<Rightarrow> VideoRelay \<Rightarrow> acted" where
  "sendIdrRequestThrottled mo r =
     (if vr_stopping r then (r, [])
      else if vr_idrWaitsForDrain r then (r, [])
      else if (case vr_idrCooldownTimer r of None \<Rightarrow> False | Some t \<Rightarrow> mo_steadyMs mo - t < vr_idrCooldownMs r) then (r, [])
      else (r\<lparr>vr_idrCooldownMs := (if vr_idrOutstanding r then min (vr_idrCooldownMs r * 2) kIdrCooldownMaxMs
                                   else vr_idrCooldownMs r),
              vr_idrOutstanding := True, vr_idrCooldownTimer := Some (mo_steadyMs mo)\<rparr>, [AskKeyframe]))"

definition requestIdrOnDrain :: "Moment \<Rightarrow> VideoRelay \<Rightarrow> acted" where
  "requestIdrOnDrain mo r =
     sendIdrRequestThrottled mo (r\<lparr>vr_idrWaitsForDrain := False, vr_idrOutstanding := False,
       vr_idrCooldownMs := kIdrCooldownBaseMs, vr_idrCooldownTimer := None\<rparr>)"

definition await_keyframe :: "Moment \<Rightarrow> VideoRelay \<Rightarrow> acted" where
  "await_keyframe mo r = sendIdrRequestThrottled mo (r\<lparr>vr_awaitingIdr := True\<rparr>)"

definition requestIdrFrame :: "Moment \<Rightarrow> VideoRelay \<Rightarrow> acted" where
  "requestIdrFrame mo r = (if vr_stopping r then (r, []) else await_keyframe mo r)"

definition wait_for_drain :: "Moment \<Rightarrow> VideoRelay \<Rightarrow> VideoRelay" where
  "wait_for_drain mo r =
     (if vr_idrWaitsForDrain r then r else r\<lparr>vr_idrWaitsForDrain := True, vr_idrWaitSinceMs := mo_wallMs mo\<rparr>)"

text \<open>The occupancy of the channel, sampled; a freeze is logged while load must be shed.\<close>

definition note_backlog :: "Moment \<Rightarrow> VideoRelay \<Rightarrow> bool \<times> VideoRelay" where
  "note_backlog mo r =
     (case sb_note (mo_bufferedAmount mo) (mo_wallMs mo) (vr_backlog r) of (shed, b) \<Rightarrow>
        (shed, r\<lparr>vr_backlog := b, vr_freezes := (if shed then lf_note (mo_wallMs mo - sb_ageMs (mo_wallMs mo) b) (mo_wallMs mo) (vr_freezes r)
                                              else vr_freezes r)\<rparr>))"

section \<open>Handing a frame to the sender\<close>

text \<open>What the ring keeps of a frame: both numbers in one \<open>int64_t\<close>.\<close>

definition ring_slot :: "32 word \<Rightarrow> int \<Rightarrow> int" where
  "ring_slot frameId frameNumber =
     (if frameNumber \<ge> 0
      then sint (push_bit 32 (ucast frameId) OR ucast (word_of_int frameNumber :: 32 word) :: 64 word) else - 1)"

definition frame_stamp :: "Moment \<Rightarrow> int \<Rightarrow> VideoRelay \<Rightarrow> 32 word \<times> VideoRelay" where
  "frame_stamp mo presUs r =
     (let pres = (if presUs \<ge> 0 then presUs else mo_presentationTimeUs mo);
          (ts, r) = (if mo_firstArrivalSteadyMs mo > 0 \<and> pres \<ge> 0
                     then let capture = mo_firstArrivalSteadyMs mo + pres div 1000
                          in (word_of_int capture,
                              r\<lparr>vr_hostLag := hl_note (mo_steadyMs mo - capture) (mo_steadyMs mo) (vr_hostLag r)\<rparr>)
                     else (0, r))
      in (if ts = 0 then word_of_int (mo_wallMs mo) else ts, r))"

text \<open>The frame gets its id, its place in the ring and its stamp, and is pushed.\<close>

definition hand_over :: "8 word list \<Rightarrow> bool \<Rightarrow> int \<Rightarrow> int \<Rightarrow> Moment \<Rightarrow> VideoRelay \<Rightarrow> bool \<times> 32 word list \<times> VideoRelay" where
  "hand_over data isKeyframe presUs frameNumber mo r =
     (let frameId = vr_frameId r;
          r = r\<lparr>vr_frameId := frameId + 1,
                vr_frameNumberById := (vr_frameNumberById r)[unat frameId mod kFrameNumberRing := ring_slot frameId frameNumber]\<rparr>;
          (backendTs, r) = frame_stamp mo presUs r;
          sink = (frameNumber \<ge> 0 \<and> mo_sink mo);
          reported = word_of_int (if frameNumber < 0 then 0 else frameNumber);
          (evicted, numbers, sender) =
            (if vr_directVideoSend r
             then enqueueFragments True (buildFragments data isKeyframe frameId backendTs) isKeyframe reported sink (vr_sender r)
             else enqueue True data isKeyframe frameId backendTs reported sink (vr_sender r))
      in (evicted, numbers, r\<lparr>vr_sender := sender\<rparr>))"

text \<open>What an eviction asks for: the engine that can is told which frames are gone; the others start over from a keyframe.\<close>

definition after_eviction :: "bool \<Rightarrow> 32 word list \<Rightarrow> int \<Rightarrow> Moment \<Rightarrow> VideoRelay \<Rightarrow> acted" where
  "after_eviction evicted numbers frameNumber mo r =
     (let nameEvictions = (vr_directVideoSend r \<and> frameNumber \<ge> 0 \<and> mo_referenceInvalidation mo)
      in if evicted \<and> nameEvictions \<and> numbers \<noteq> [] then (r, map InvalidateReference numbers)
         else if evicted \<and> \<not> ridingOutLoss mo r then await_keyframe mo r
         else (r, []))"

definition transmit :: "8 word list \<Rightarrow> bool \<Rightarrow> int \<Rightarrow> int \<Rightarrow> Moment \<Rightarrow> VideoRelay \<Rightarrow> acted" where
  "transmit data isKeyframe presUs frameNumber mo r =
     (case hand_over data isKeyframe presUs frameNumber mo r of (evicted, numbers, r) \<Rightarrow>
      case after_eviction evicted numbers frameNumber mo r of (r, es) \<Rightarrow>
        (r\<lparr>vr_frameCount := vr_frameCount r + 1\<rparr>, es @ (if evicted \<and> vr_directVideoSend r then [NoteEviction] else [])))"

definition keyframe_through :: "VideoRelay \<Rightarrow> VideoRelay" where
  "keyframe_through r = r\<lparr>vr_awaitingIdr := False, vr_idrWaitsForDrain := False, vr_backpressureDropCount := 0,
     vr_idrOutstanding := False, vr_idrCooldownMs := kIdrCooldownBaseMs, vr_backlog := sb_reset (vr_backlog r)\<rparr>"

definition shed_delta :: "Moment \<Rightarrow> VideoRelay \<Rightarrow> VideoRelay" where
  "shed_delta mo r =
     (let r = r\<lparr>vr_deltaDroppedCount := vr_deltaDroppedCount r + 1, vr_backpressureDropCount := vr_backpressureDropCount r + 1\<rparr>
      in if ridingOutLoss mo r then r else wait_for_drain mo (r\<lparr>vr_awaitingIdr := True\<rparr>))"

definition shed_keyframe :: "Moment \<Rightarrow> VideoRelay \<Rightarrow> VideoRelay" where
  "shed_keyframe mo r =
     wait_for_drain mo (r\<lparr>vr_keyframeBackpressureWarnings := vr_keyframeBackpressureWarnings r + 1, vr_awaitingIdr := True,
       vr_idrOutstanding := False\<rparr>)"

definition sendFragmented :: "8 word list \<Rightarrow> bool \<Rightarrow> int \<Rightarrow> int \<Rightarrow> Moment \<Rightarrow> VideoRelay \<Rightarrow> acted" where
  "sendFragmented data isKeyframe presUs frameNumber mo r =
     (if vr_stopping r \<or> vr_videoDc r \<noteq> IsOpen then (r, [])
      else if data = [] then (r, [])
      else case note_backlog mo r of (shed, r) \<Rightarrow>
        if shed then ((if isKeyframe then shed_keyframe mo r else shed_delta mo r), [])
        else transmit data isKeyframe presUs frameNumber mo (if isKeyframe then keyframe_through r else r))"

section \<open>The frames of the engine\<close>

text \<open>A delta while a keyframe is awaited: the channel is watched, and the keyframe asked for when it makes sense.\<close>

definition gated_delta :: "Moment \<Rightarrow> VideoRelay \<Rightarrow> acted" where
  "gated_delta mo r =
     (case note_backlog mo (r\<lparr>vr_awaitingIdrDropCount := vr_awaitingIdrDropCount r + 1\<rparr>) of (shed, r) \<Rightarrow>
        if vr_idrWaitsForDrain r then (if \<not> sb_backedUp (vr_backlog r) then requestIdrOnDrain mo r else (r, []))
        else if shed then (wait_for_drain mo r, [])
        else sendIdrRequestThrottled mo r)"

definition buffer_keyframe :: "8 word list \<Rightarrow> int \<Rightarrow> VideoRelay \<Rightarrow> VideoRelay" where
  "buffer_keyframe data presUs r =
     r\<lparr>vr_bufferedKeyframe := data, vr_bufferedKeyframePresUs := presUs, vr_haveBufferedKeyframe := True,
       vr_newKeyframeArrived := False\<rparr>"

definition route_frame :: "8 word list \<Rightarrow> bool \<Rightarrow> int \<Rightarrow> int \<Rightarrow> Moment \<Rightarrow> VideoRelay \<Rightarrow> acted" where
  "route_frame data isKeyframe frameNumber presUs mo r =
     (let frameData = (if isKeyframe \<and> \<not> vr_hevcPatched r then first_keyframe data else data);
          r = (if isKeyframe then r\<lparr>vr_hevcPatched := True\<rparr> else r)
      in if vr_videoDc r \<noteq> IsOpen
         then (if isKeyframe then (buffer_keyframe frameData presUs r, []) else await_keyframe mo r)
         else if vr_awaitingIdr r \<and> \<not> isKeyframe then gated_delta mo r
         else sendFragmented frameData isKeyframe presUs frameNumber mo
                (if isKeyframe \<and> vr_haveBufferedKeyframe r then r\<lparr>vr_newKeyframeArrived := True\<rparr> else r))"

definition handleVideoFrame :: "8 word list \<Rightarrow> bool \<Rightarrow> int \<Rightarrow> int \<Rightarrow> Moment \<Rightarrow> VideoRelay \<Rightarrow> acted" where
  "handleVideoFrame data isKeyframe frameNumber presUs mo r =
     (if vr_stopping r then (r, [])
      else case (if mo_workerDroppedDelta mo \<and> \<not> ridingOutLoss mo r then await_keyframe mo r else (r, [])) of (r, es) \<Rightarrow>
           case route_frame data isKeyframe frameNumber presUs mo r of (r, es') \<Rightarrow> (r, es @ es'))"

section \<open>The keyframe that waited\<close>

definition forget_keyframe :: "VideoRelay \<Rightarrow> VideoRelay" where
  "forget_keyframe r = r\<lparr>vr_bufferedKeyframe := [], vr_haveBufferedKeyframe := False, vr_newKeyframeArrived := False\<rparr>"

definition sendBufferedKeyframe :: "Moment \<Rightarrow> VideoRelay \<Rightarrow> acted" where
  "sendBufferedKeyframe mo r =
     (if \<not> vr_haveBufferedKeyframe r then (r, [])
      else if vr_stopping r \<or> vr_videoDc r \<noteq> IsOpen then (r, [])
      else if vr_newKeyframeArrived r then (forget_keyframe r, [])
      else let staleReferences = vr_awaitingIdr r
           in case sendFragmented (vr_bufferedKeyframe r) True (vr_bufferedKeyframePresUs r) (- 1) mo r of (r, es) \<Rightarrow>
              case (if staleReferences then await_keyframe mo r else (r, [])) of (r, es') \<Rightarrow>
                (forget_keyframe (r\<lparr>vr_bufferedKeyframePresUs := - 1\<rparr>), es @ es'))"

definition takeBufferedKeyframe :: "VideoRelay \<Rightarrow> 8 word list \<times> VideoRelay" where
  "takeBufferedKeyframe r = (vr_bufferedKeyframe r, forget_keyframe (r\<lparr>vr_bufferedKeyframePresUs := - 1\<rparr>))"

section \<open>What a receiver lost\<close>

text \<open>The engine's number of a frame the receiver names, if the ring still has it.\<close>

definition named_frame :: "int \<Rightarrow> VideoRelay \<Rightarrow> 32 word option" where
  "named_frame i r =
     (let slot = vr_frameNumberById r ! (unat (word_of_int i :: 32 word) mod kFrameNumberRing)
      in if slot < 0 \<or> slot div 2 ^ 32 \<noteq> i then None else Some (word_of_int slot))"

text \<open>The references up to the first that is not known, and whether all were.\<close>

fun name_frames :: "nat \<Rightarrow> int \<Rightarrow> VideoRelay \<Rightarrow> RelayEffect list \<times> bool" where
  "name_frames 0 i r = ([], True)"
| "name_frames (Suc n) i r =
     (case named_frame i r of None \<Rightarrow> ([], False)
      | Some number \<Rightarrow> (case name_frames n (i + 1) r of (es, healed) \<Rightarrow> (InvalidateReference number # es, healed)))"

definition invalidateref :: "int \<Rightarrow> int \<Rightarrow> Moment \<Rightarrow> VideoRelay \<Rightarrow> acted" where
  "invalidateref lostFrom lostTo mo r =
     (case (if vr_directVideoSend r \<and> lostFrom \<ge> 0 \<and> lostTo \<ge> lostFrom \<and> lostTo - lostFrom < 16
            then name_frames (nat (lostTo - lostFrom + 1)) lostFrom r else ([], False)) of
        (es, True) \<Rightarrow> (r, es)
      | (es, False) \<Rightarrow> (case await_keyframe mo r of (r, es') \<Rightarrow> (r, es @ es')))"

section \<open>The end\<close>

definition vr_stop :: "VideoRelay \<Rightarrow> VideoRelay" where
  "vr_stop r =
     (if vr_stopping r then r
      else r\<lparr>vr_stopping := True, vr_deltaDroppedCount := 0, vr_keyframeBackpressureWarnings := 0, vr_backpressureDropCount := 0,
             vr_awaitingIdrDropCount := 0, vr_awaitingIdr := False, vr_idrCooldownTimer := None,
             vr_idrCooldownMs := kIdrCooldownBaseMs, vr_idrOutstanding := False, vr_bufferedKeyframe := [],
             vr_bufferedKeyframePresUs := - 1, vr_haveBufferedKeyframe := False, vr_newKeyframeArrived := False,
             vr_videoDc := NoChannel, vr_sender := fq_stopped (vr_sender r)\<rparr>)"

section \<open>A session\<close>

text \<open>The calls that reach the video path: a frame (bytes, keyframe, the engine's number, its capture time), the channel's state,
  the keyframe that waited, a request of the browser or the program, frames named as lost, a turn of the sending thread, the
  keyframe taken back, the end.\<close>

datatype RelayCall =
    VideoFrame "8 word list" bool int int Moment
  | ChannelIs Channel
  | SendBuffered Moment
  | RequestKeyframe Moment
  | FramesLost int int Moment
  | SenderTurn
  | TakeBuffered
  | Stop

fun relay_call :: "RelayCall \<Rightarrow> VideoRelay \<Rightarrow> acted" where
  "relay_call (VideoFrame data isKeyframe frameNumber presUs mo) r = handleVideoFrame data isKeyframe frameNumber presUs mo r"
| "relay_call (ChannelIs c) r = (if vr_stopping r then r else r\<lparr>vr_videoDc := c\<rparr>, [])"
| "relay_call (SendBuffered mo) r = sendBufferedKeyframe mo r"
| "relay_call (RequestKeyframe mo) r = requestIdrFrame mo r"
| "relay_call (FramesLost lostFrom lostTo mo) r = (if vr_stopping r then (r, []) else invalidateref lostFrom lostTo mo r)"
| "relay_call SenderTurn r = ((case next_job (vr_sender r) of None \<Rightarrow> r | Some (job, s) \<Rightarrow> r\<lparr>vr_sender := s\<rparr>), [])"
| "relay_call TakeBuffered r = (snd (takeBufferedKeyframe r), [])"
| "relay_call Stop r = (vr_stop r, [])"

fun relay_run :: "RelayCall list \<Rightarrow> VideoRelay \<Rightarrow> acted" where
  "relay_run [] r = (r, [])"
| "relay_run (c # cs) r = (case relay_call c r of (r, es) \<Rightarrow> case relay_run cs r of (r, es') \<Rightarrow> (r, es @ es'))"

end
