(* ===== verification/Video_Promises.thy ===== *)
theory Video_Promises
  imports Video_Relay
begin

text \<open>
  What the video path promises over any sequence of calls: a delta that does not go out closes the gate, a keyframe is asked for at a pace
  the link can bear and at once when it drains, and a lost frame is named right.
\<close>

section \<open>What a step leaves alone\<close>

named_theorems untouched \<open>the fields a step of the relay does not write\<close>

lemma throttle_untouched [untouched]:
  "vr_awaitingIdr (fst (sendIdrRequestThrottled mo r)) = vr_awaitingIdr r"
  "vr_frameId (fst (sendIdrRequestThrottled mo r)) = vr_frameId r"
  "vr_videoDc (fst (sendIdrRequestThrottled mo r)) = vr_videoDc r"
  "vr_stopping (fst (sendIdrRequestThrottled mo r)) = vr_stopping r"
  "vr_sender (fst (sendIdrRequestThrottled mo r)) = vr_sender r"
  "vr_frameNumberById (fst (sendIdrRequestThrottled mo r)) = vr_frameNumberById r"
  "vr_backlog (fst (sendIdrRequestThrottled mo r)) = vr_backlog r"
  "vr_rideOutLoss (fst (sendIdrRequestThrottled mo r)) = vr_rideOutLoss r"
  "vr_directVideoSend (fst (sendIdrRequestThrottled mo r)) = vr_directVideoSend r"
  "vr_idrWaitsForDrain (fst (sendIdrRequestThrottled mo r)) = vr_idrWaitsForDrain r"
  "vr_haveBufferedKeyframe (fst (sendIdrRequestThrottled mo r)) = vr_haveBufferedKeyframe r"
  by (simp_all add: sendIdrRequestThrottled_def)

lemma await_untouched [untouched]:
  "vr_awaitingIdr (fst (await_keyframe mo r))"
  "vr_frameId (fst (await_keyframe mo r)) = vr_frameId r"
  "vr_videoDc (fst (await_keyframe mo r)) = vr_videoDc r"
  "vr_stopping (fst (await_keyframe mo r)) = vr_stopping r"
  "vr_sender (fst (await_keyframe mo r)) = vr_sender r"
  "vr_frameNumberById (fst (await_keyframe mo r)) = vr_frameNumberById r"
  "vr_backlog (fst (await_keyframe mo r)) = vr_backlog r"
  "vr_rideOutLoss (fst (await_keyframe mo r)) = vr_rideOutLoss r"
  "vr_directVideoSend (fst (await_keyframe mo r)) = vr_directVideoSend r"
  "vr_idrWaitsForDrain (fst (await_keyframe mo r)) = vr_idrWaitsForDrain r"
  "vr_haveBufferedKeyframe (fst (await_keyframe mo r)) = vr_haveBufferedKeyframe r"
  by (simp_all add: await_keyframe_def untouched)

lemma drain_untouched [untouched]:
  "vr_awaitingIdr (fst (requestIdrOnDrain mo r)) = vr_awaitingIdr r"
  "vr_frameId (fst (requestIdrOnDrain mo r)) = vr_frameId r"
  "vr_videoDc (fst (requestIdrOnDrain mo r)) = vr_videoDc r"
  "vr_stopping (fst (requestIdrOnDrain mo r)) = vr_stopping r"
  "vr_sender (fst (requestIdrOnDrain mo r)) = vr_sender r"
  "vr_frameNumberById (fst (requestIdrOnDrain mo r)) = vr_frameNumberById r"
  "vr_backlog (fst (requestIdrOnDrain mo r)) = vr_backlog r"
  "vr_rideOutLoss (fst (requestIdrOnDrain mo r)) = vr_rideOutLoss r"
  "vr_directVideoSend (fst (requestIdrOnDrain mo r)) = vr_directVideoSend r"
  by (simp_all add: requestIdrOnDrain_def untouched)

lemma wait_untouched [untouched]:
  "vr_awaitingIdr (wait_for_drain mo r) = vr_awaitingIdr r"
  "vr_frameId (wait_for_drain mo r) = vr_frameId r"
  "vr_videoDc (wait_for_drain mo r) = vr_videoDc r"
  "vr_stopping (wait_for_drain mo r) = vr_stopping r"
  "vr_sender (wait_for_drain mo r) = vr_sender r"
  "vr_frameNumberById (wait_for_drain mo r) = vr_frameNumberById r"
  "vr_backlog (wait_for_drain mo r) = vr_backlog r"
  "vr_rideOutLoss (wait_for_drain mo r) = vr_rideOutLoss r"
  "vr_directVideoSend (wait_for_drain mo r) = vr_directVideoSend r"
  "vr_idrWaitsForDrain (wait_for_drain mo r)"
  "vr_idrCooldownTimer (wait_for_drain mo r) = vr_idrCooldownTimer r"
  "vr_idrCooldownMs (wait_for_drain mo r) = vr_idrCooldownMs r"
  by (simp_all add: wait_for_drain_def)

lemma note_untouched [untouched]:
  "vr_awaitingIdr (snd (note_backlog mo r)) = vr_awaitingIdr r"
  "vr_frameId (snd (note_backlog mo r)) = vr_frameId r"
  "vr_videoDc (snd (note_backlog mo r)) = vr_videoDc r"
  "vr_stopping (snd (note_backlog mo r)) = vr_stopping r"
  "vr_sender (snd (note_backlog mo r)) = vr_sender r"
  "vr_frameNumberById (snd (note_backlog mo r)) = vr_frameNumberById r"
  "vr_rideOutLoss (snd (note_backlog mo r)) = vr_rideOutLoss r"
  "vr_directVideoSend (snd (note_backlog mo r)) = vr_directVideoSend r"
  "vr_idrWaitsForDrain (snd (note_backlog mo r)) = vr_idrWaitsForDrain r"
  "vr_idrCooldownTimer (snd (note_backlog mo r)) = vr_idrCooldownTimer r"
  "vr_idrCooldownMs (snd (note_backlog mo r)) = vr_idrCooldownMs r"
  "vr_backlog (snd (note_backlog mo r)) = snd (sb_note (mo_bufferedAmount mo) (mo_wallMs mo) (vr_backlog r))"
  "fst (note_backlog mo r) = fst (sb_note (mo_bufferedAmount mo) (mo_wallMs mo) (vr_backlog r))"
  by (simp_all add: note_backlog_def split: prod.split)

lemma gated_untouched [untouched]:
  "vr_awaitingIdr (fst (gated_delta mo r)) = vr_awaitingIdr r"
  "vr_frameId (fst (gated_delta mo r)) = vr_frameId r"
  "vr_videoDc (fst (gated_delta mo r)) = vr_videoDc r"
  "vr_stopping (fst (gated_delta mo r)) = vr_stopping r"
  "vr_sender (fst (gated_delta mo r)) = vr_sender r"
  "vr_frameNumberById (fst (gated_delta mo r)) = vr_frameNumberById r"
  "vr_rideOutLoss (fst (gated_delta mo r)) = vr_rideOutLoss r"
  "vr_directVideoSend (fst (gated_delta mo r)) = vr_directVideoSend r"
  by (simp_all add: gated_delta_def case_prod_beta untouched)

lemma shed_untouched [untouched]:
  "vr_frameId (shed_delta mo r) = vr_frameId r" "vr_frameId (shed_keyframe mo r) = vr_frameId r"
  "vr_stopping (shed_delta mo r) = vr_stopping r" "vr_stopping (shed_keyframe mo r) = vr_stopping r"
  "vr_sender (shed_delta mo r) = vr_sender r" "vr_sender (shed_keyframe mo r) = vr_sender r"
  "vr_frameNumberById (shed_delta mo r) = vr_frameNumberById r" "vr_frameNumberById (shed_keyframe mo r) = vr_frameNumberById r"
  "vr_directVideoSend (shed_delta mo r) = vr_directVideoSend r" "vr_directVideoSend (shed_keyframe mo r) = vr_directVideoSend r"
  by (simp_all add: shed_delta_def shed_keyframe_def Let_def untouched)

lemma stamp_untouched [untouched]:
  "vr_awaitingIdr (snd (frame_stamp mo p r)) = vr_awaitingIdr r"
  "vr_frameId (snd (frame_stamp mo p r)) = vr_frameId r"
  "vr_stopping (snd (frame_stamp mo p r)) = vr_stopping r"
  "vr_sender (snd (frame_stamp mo p r)) = vr_sender r"
  "vr_frameNumberById (snd (frame_stamp mo p r)) = vr_frameNumberById r"
  "vr_rideOutLoss (snd (frame_stamp mo p r)) = vr_rideOutLoss r"
  "vr_directVideoSend (snd (frame_stamp mo p r)) = vr_directVideoSend r"
  "vr_idrWaitsForDrain (snd (frame_stamp mo p r)) = vr_idrWaitsForDrain r"
  "vr_idrCooldownTimer (snd (frame_stamp mo p r)) = vr_idrCooldownTimer r"
  "vr_idrCooldownMs (snd (frame_stamp mo p r)) = vr_idrCooldownMs r"
  "vr_idrOutstanding (snd (frame_stamp mo p r)) = vr_idrOutstanding r"
  "vr_backlog (snd (frame_stamp mo p r)) = vr_backlog r"
  "vr_videoDc (snd (frame_stamp mo p r)) = vr_videoDc r"
  by (simp_all add: frame_stamp_def Let_def)

lemma hand_over_untouched [untouched]:
  "vr_awaitingIdr (snd (snd (hand_over d k p n mo r))) = vr_awaitingIdr r"
  "vr_frameId (snd (snd (hand_over d k p n mo r))) = vr_frameId r + 1"
  "vr_stopping (snd (snd (hand_over d k p n mo r))) = vr_stopping r"
  "vr_frameNumberById (snd (snd (hand_over d k p n mo r))) =
     (vr_frameNumberById r)[unat (vr_frameId r) mod kFrameNumberRing := ring_slot (vr_frameId r) n]"
  "vr_rideOutLoss (snd (snd (hand_over d k p n mo r))) = vr_rideOutLoss r"
  "vr_directVideoSend (snd (snd (hand_over d k p n mo r))) = vr_directVideoSend r"
  "vr_idrWaitsForDrain (snd (snd (hand_over d k p n mo r))) = vr_idrWaitsForDrain r"
  "vr_idrCooldownTimer (snd (snd (hand_over d k p n mo r))) = vr_idrCooldownTimer r"
  "vr_idrCooldownMs (snd (snd (hand_over d k p n mo r))) = vr_idrCooldownMs r"
  "vr_idrOutstanding (snd (snd (hand_over d k p n mo r))) = vr_idrOutstanding r"
  "vr_backlog (snd (snd (hand_over d k p n mo r))) = vr_backlog r"
  "vr_videoDc (snd (snd (hand_over d k p n mo r))) = vr_videoDc r"
  by (simp_all add: hand_over_def Let_def case_prod_beta untouched)

lemma evicted_untouched [untouched]:
  "vr_frameId (fst (after_eviction e ns n mo r)) = vr_frameId r"
  "vr_stopping (fst (after_eviction e ns n mo r)) = vr_stopping r"
  "vr_sender (fst (after_eviction e ns n mo r)) = vr_sender r"
  "vr_frameNumberById (fst (after_eviction e ns n mo r)) = vr_frameNumberById r"
  "vr_rideOutLoss (fst (after_eviction e ns n mo r)) = vr_rideOutLoss r"
  "vr_directVideoSend (fst (after_eviction e ns n mo r)) = vr_directVideoSend r"
  "vr_backlog (fst (after_eviction e ns n mo r)) = vr_backlog r"
  "vr_videoDc (fst (after_eviction e ns n mo r)) = vr_videoDc r"
  by (simp_all add: after_eviction_def Let_def untouched)

section \<open>No delta over a hole\<close>

text \<open>The calls that bring no keyframe to the wire.\<close>

fun no_keyframe :: "RelayCall \<Rightarrow> bool" where
  "no_keyframe (VideoFrame data isKeyframe frameNumber presUs mo) \<longleftrightarrow> \<not> isKeyframe"
| "no_keyframe (SendBuffered mo) \<longleftrightarrow> False"
| "no_keyframe Stop \<longleftrightarrow> False"
| "no_keyframe c \<longleftrightarrow> True"

text \<open>Nothing was handed to the sender since: the ids stand still, and what waits is a rest of what waited.\<close>

definition idle_since :: "VideoRelay \<Rightarrow> VideoRelay \<Rightarrow> bool" where
  "idle_since r r' \<longleftrightarrow> vr_frameId r' = vr_frameId r \<and>
     (\<exists>n. fq_queue (vr_sender r') = drop n (fq_queue (vr_sender r)))"

lemma idle_same: "vr_frameId r' = vr_frameId r \<Longrightarrow> vr_sender r' = vr_sender r \<Longrightarrow> idle_since r r'"
  by (auto simp: idle_since_def intro: exI[of _ 0])

lemma idle_trans: "idle_since a b \<Longrightarrow> idle_since b c \<Longrightarrow> idle_since a c"
  by (auto simp: idle_since_def)

lemma invalidate_awaits:
  "vr_frameId (fst (invalidateref a b mo r)) = vr_frameId r \<and> vr_sender (fst (invalidateref a b mo r)) = vr_sender r \<and>
   (vr_awaitingIdr r \<longrightarrow> vr_awaitingIdr (fst (invalidateref a b mo r)))"
  unfolding invalidateref_def
  by (simp add: case_prod_beta untouched split: bool.split)

lemma route_delta_awaiting:
  assumes "vr_awaitingIdr r"
  shows "vr_awaitingIdr (fst (route_frame d False n p mo r)) \<and> vr_frameId (fst (route_frame d False n p mo r)) = vr_frameId r \<and>
    vr_sender (fst (route_frame d False n p mo r)) = vr_sender r"
  using assms by (simp add: route_frame_def untouched)

lemma gate_stays_closed:
  assumes "vr_awaitingIdr r" "no_keyframe c"
  shows "vr_awaitingIdr (fst (relay_call c r)) \<and> idle_since r (fst (relay_call c r))"
proof (cases c)
  case (VideoFrame d k n p mo)
  have k: "\<not> k" using assms(2) VideoFrame by simp
  let ?r = "fst (if mo_workerDroppedDelta mo \<and> \<not> ridingOutLoss mo r then await_keyframe mo r else (r, []))"
  have "vr_awaitingIdr ?r" "vr_frameId ?r = vr_frameId r" "vr_sender ?r = vr_sender r"
    using assms(1) by (simp_all add: untouched)
  then show ?thesis using route_delta_awaiting[of ?r d n p mo] assms(1) k
    by (auto simp: VideoFrame handleVideoFrame_def case_prod_beta intro!: idle_same)
next
  case SenderTurn
  show ?thesis
  proof (cases "next_job (vr_sender r)")
    case (Some q)
    then obtain j s where q: "q = (j, s)" and "fq_queue s = drop 1 (fq_queue (vr_sender r))"
      by (auto simp: next_job_def split: if_splits list.splits)
    then show ?thesis using Some assms(1) by (auto simp: SenderTurn idle_since_def)
  qed (use assms(1) in \<open>auto simp: SenderTurn intro: idle_same\<close>)
qed (use assms invalidate_awaits[of _ _ _ r] in \<open>auto simp: requestIdrFrame_def takeBufferedKeyframe_def forget_keyframe_def untouched
      intro!: idle_same\<close>)

lemma gate_run:
  assumes "vr_awaitingIdr r" "list_all no_keyframe cs"
  shows "vr_awaitingIdr (fst (relay_run cs r)) \<and> idle_since r (fst (relay_run cs r))"
  using assms
proof (induction cs arbitrary: r)
  case (Cons c cs)
  note step = gate_stays_closed[of r c]
  have "vr_awaitingIdr (fst (relay_run cs (fst (relay_call c r)))) \<and>
      idle_since (fst (relay_call c r)) (fst (relay_run cs (fst (relay_call c r))))"
    using Cons step by simp
  then show ?case using step Cons.prems by (auto simp: case_prod_beta intro: idle_trans)
qed (auto intro: idle_same)

lemma transmit_id: "vr_frameId (fst (transmit d k p n mo r)) = vr_frameId r + 1"
  by (simp add: transmit_def case_prod_beta untouched)

text \<open>A delta that is not handed on leaves the gate closed, if there are bytes and the picture does not heal by itself.\<close>

lemma lost_delta_closes:
  assumes "\<not> vr_rideOutLoss r" "\<not> vr_stopping r" "d \<noteq> []"
    and "vr_frameId (fst (handleVideoFrame d False n p mo r)) = vr_frameId r"
  shows "vr_awaitingIdr (fst (handleVideoFrame d False n p mo r))"
proof -
  let ?r = "fst (if mo_workerDroppedDelta mo \<and> \<not> ridingOutLoss mo r then await_keyframe mo r else (r, []))"
  have h: "fst (handleVideoFrame d False n p mo r) = fst (route_frame d False n p mo ?r)"
    using assms(2) by (simp add: handleVideoFrame_def case_prod_beta)
  have r: "vr_frameId ?r = vr_frameId r" "\<not> vr_rideOutLoss ?r" "\<not> vr_stopping ?r" using assms(1,2) by (simp_all add: untouched)
  show ?thesis
  proof (cases "vr_videoDc ?r = IsOpen \<and> \<not> vr_awaitingIdr ?r")
    case True
    then have s: "fst (handleVideoFrame d False n p mo r) = fst (sendFragmented d False p n mo ?r)"
      unfolding h by (simp add: route_frame_def)
    show ?thesis
    proof (cases "fst (note_backlog mo ?r)")
      case shed: True
      have "\<not> ridingOutLoss mo (snd (note_backlog mo ?r))" using r by (simp add: ridingOutLoss_def untouched)
      then show ?thesis unfolding s using True shed r assms(3)
        by (simp add: sendFragmented_def case_prod_beta shed_delta_def untouched ridingOutLoss_def Let_def)
    next
      case False
      then have "vr_frameId (fst (handleVideoFrame d False n p mo r)) = vr_frameId r + 1"
        unfolding s using True r assms(3) by (simp add: sendFragmented_def case_prod_beta transmit_id untouched)
      then show ?thesis using assms(4) by simp
    qed
  qed (auto simp: h route_frame_def untouched)
qed

text \<open>C11. A delta that does not go out closes the gate. In a stream that does not ride out losses, when a delta is not handed to the
  sender, because the channel is closed, the link does not drain or a keyframe is already awaited, then nothing more is
  handed to it, whatever deltas, requests, reports and channel changes come, until the engine brings a keyframe, or the keyframe
  kept for the opening of the channel is sent. A stream that rides out losses sends on over such a hole, on purpose; and the gate
  does not hold back a delta that reached the sender before the kept keyframe (\<open>delta_overtakes_keyframe\<close>).\<close>

theorem lost_delta_shuts_the_gate:
  assumes "\<not> vr_rideOutLoss r" "\<not> vr_stopping r" "data \<noteq> []"
    and "vr_frameId (fst (relay_call (VideoFrame data False frameNumber presUs mo) r)) = vr_frameId r"
    and "list_all no_keyframe cs"
  shows "idle_since (fst (relay_call (VideoFrame data False frameNumber presUs mo) r))
    (fst (relay_run (VideoFrame data False frameNumber presUs mo # cs) r))"
  using gate_run[OF lost_delta_closes[OF assms(1-3)], of frameNumber presUs mo cs] assms(4,5)
  by (simp add: case_prod_beta)


definition moment_at :: "int \<Rightarrow> int \<Rightarrow> Moment" where
  "moment_at t buffered = \<lparr>mo_wallMs = 1000000 + t, mo_steadyMs = t, mo_bufferedAmount = buffered, mo_intraRefresh = False,
     mo_referenceInvalidation = False, mo_workerDroppedDelta = False, mo_sink = False, mo_firstArrivalSteadyMs = 0,
     mo_presentationTimeUs = 0\<rparr>"

lemma lost_delta_shuts_the_gate_witness:
  "idle_since (fst (relay_call (VideoFrame [1] False 0 0 (moment_at 5 0)) (vr_new False False 20000)))
    (fst (relay_run [VideoFrame [1] False 0 0 (moment_at 5 0), ChannelIs IsOpen, VideoFrame [2] False 1 16 (moment_at 21 0)]
      (vr_new False False 20000)))"
  by (rule lost_delta_shuts_the_gate) (simp_all add: vr_new_def handleVideoFrame_def moment_at_def route_frame_def untouched)

section \<open>How often a keyframe is asked for\<close>

definition cool :: "VideoRelay \<Rightarrow> bool" where
  "cool r \<longleftrightarrow> 300 \<le> vr_idrCooldownMs r \<and> vr_idrCooldownMs r \<le> 5000"

lemma cool_throttle: "cool r \<Longrightarrow> cool (fst (sendIdrRequestThrottled mo r))"
  by (auto simp: cool_def sendIdrRequestThrottled_def tunables)

lemma cool_await: "cool r \<Longrightarrow> cool (fst (await_keyframe mo r))"
  unfolding await_keyframe_def by (rule cool_throttle) (simp add: cool_def)

lemma cool_drain: "cool (fst (requestIdrOnDrain mo r))"
  unfolding requestIdrOnDrain_def by (rule cool_throttle) (simp add: cool_def tunables)

lemma cool_gated: "cool r \<Longrightarrow> cool (fst (gated_delta mo r))"
  using cool_throttle[of "snd (note_backlog mo (r\<lparr>vr_awaitingIdrDropCount := vr_awaitingIdrDropCount r + 1\<rparr>))" mo]
    cool_drain[of mo "snd (note_backlog mo (r\<lparr>vr_awaitingIdrDropCount := vr_awaitingIdrDropCount r + 1\<rparr>))"]
  by (simp add: gated_delta_def case_prod_beta) (simp add: cool_def untouched)

lemma cool_transmit: "cool r \<Longrightarrow> cool (fst (transmit d k p n mo r))"
  using cool_await[of "snd (snd (hand_over d k p n mo r))" mo]
  by (simp add: transmit_def case_prod_beta after_eviction_def Let_def) (simp add: cool_def untouched)

lemma cool_send: "cool r \<Longrightarrow> cool (fst (sendFragmented d k p n mo r))"
proof -
  assume r: "cool r"
  let ?r = "snd (note_backlog mo r)"
  have "cool ?r" "cool (keyframe_through ?r)" using r by (simp_all add: cool_def untouched keyframe_through_def tunables)
  moreover have "cool (shed_keyframe mo ?r)" "cool (shed_delta mo ?r)"
    using r by (simp_all add: cool_def shed_keyframe_def shed_delta_def untouched Let_def)
  ultimately show ?thesis using r cool_transmit by (simp add: sendFragmented_def case_prod_beta)
qed

lemma cool_route: "cool r \<Longrightarrow> cool (fst (route_frame d k n p mo r))"
proof -
  assume "cool r"
  then have "cool (r\<lparr>vr_hevcPatched := True\<rparr>)" "cool (r\<lparr>vr_newKeyframeArrived := True\<rparr>)"
    "cool (r\<lparr>vr_hevcPatched := True, vr_newKeyframeArrived := True\<rparr>)" by (simp_all add: cool_def)
  then show ?thesis using \<open>cool r\<close> cool_await cool_gated cool_send
    by (simp add: route_frame_def Let_def) (simp add: cool_def buffer_keyframe_def)
qed

lemma cool_call: "cool r \<Longrightarrow> cool (fst (relay_call c r))"
proof (cases c)
  case (VideoFrame d k n p mo)
  assume "cool r"
  then show ?thesis using cool_route cool_await by (simp add: VideoFrame handleVideoFrame_def case_prod_beta)
next
  case (SendBuffered mo)
  assume r: "cool r"
  let ?s = "fst (sendFragmented (vr_bufferedKeyframe r) True (vr_bufferedKeyframePresUs r) (- 1) mo r)"
  have "cool ?s" "cool (fst (await_keyframe mo ?s))" using r cool_send cool_await by simp_all
  then show ?thesis using r
    by (simp add: SendBuffered sendBufferedKeyframe_def Let_def case_prod_beta) (simp add: cool_def forget_keyframe_def)
next
  case (FramesLost a b mo)
  assume "cool r"
  then show ?thesis using cool_await[of r mo]
    by (simp add: FramesLost invalidateref_def case_prod_beta split: bool.split)
next
  case SenderTurn
  assume "cool r"
  then show ?thesis by (simp add: SenderTurn cool_def split: option.split)
qed (use cool_await in \<open>auto simp: requestIdrFrame_def takeBufferedKeyframe_def forget_keyframe_def vr_stop_def cool_def tunables\<close>)

lemma cool_run: "cool r \<Longrightarrow> cool (fst (relay_run cs r))"
  by (induction cs arbitrary: r) (auto simp: case_prod_beta cool_call)

lemma cool_new: "cool (vr_new native rideOut kbps)"
  by (simp add: cool_def vr_new_def tunables)

section \<open>A stalled picture\<close>

lemma throttle_asks:
  assumes "\<not> vr_stopping r" "\<not> vr_idrWaitsForDrain r"
    and "case vr_idrCooldownTimer r of None \<Rightarrow> True | Some t \<Rightarrow> t + vr_idrCooldownMs r \<le> mo_steadyMs mo"
  shows "AskKeyframe \<in> set (snd (sendIdrRequestThrottled mo r))"
  using assms by (auto simp: sendIdrRequestThrottled_def split: option.splits)

lemma drained_note: "mo_bufferedAmount mo \<le> sb_drainedBytes (vr_backlog r) \<Longrightarrow>
    \<not> fst (note_backlog mo r) \<and> \<not> sb_backedUp (vr_backlog (snd (note_backlog mo r)))"
  by (simp add: untouched sb_note_def sb_backedUp_def)

lemma gated_asks:
  assumes "\<not> vr_stopping r" "cool r" "mo_bufferedAmount mo \<le> sb_drainedBytes (vr_backlog r)"
    and "vr_idrWaitsForDrain r \<or> (case vr_idrCooldownTimer r of None \<Rightarrow> True | Some t \<Rightarrow> t + 5000 \<le> mo_steadyMs mo)"
  shows "AskKeyframe \<in> set (snd (gated_delta mo r))"
proof -
  let ?r = "r\<lparr>vr_awaitingIdrDropCount := vr_awaitingIdrDropCount r + 1\<rparr>"
  let ?n = "snd (note_backlog mo ?r)"
  have n: "\<not> fst (note_backlog mo ?r)" "\<not> sb_backedUp (vr_backlog ?n)" using drained_note[of mo ?r] assms(3) by simp_all
  show ?thesis
  proof (cases "vr_idrWaitsForDrain r")
    case True
    have "AskKeyframe \<in> set (snd (requestIdrOnDrain mo ?n))"
      unfolding requestIdrOnDrain_def by (rule throttle_asks) (use assms(1) in \<open>simp_all add: untouched\<close>)
    then show ?thesis using True n by (simp add: gated_delta_def case_prod_beta untouched)
  next
    case False
    have "AskKeyframe \<in> set (snd (sendIdrRequestThrottled mo ?n))"
      by (rule throttle_asks) (use assms False in \<open>auto simp: untouched cool_def split: option.splits\<close>)
    then show ?thesis using False n by (simp add: gated_delta_def case_prod_beta untouched)
  qed
qed

lemma first_keyframe_bytes: "d \<noteq> [] \<Longrightarrow> first_keyframe d \<noteq> []"
proof -
  have add: "addHvcEp bs \<noteq> []" if "bs \<noteq> []" for bs using that by (cases bs) (auto simp: addHvcEp_def)
  have "patch_vps loc x \<noteq> []" "patch_sps loc x \<noteq> []" if "x \<noteq> []" for loc x
    using that add by (auto simp: patch_vps_def patch_sps_def replace_nal_def Let_def)
  then show "first_keyframe d \<noteq> []" if "d \<noteq> []"
    using that by (auto simp: first_keyframe_def patchHevcKeyframe_def Let_def split: option.splits)
qed

lemma no_deltas_none_evicted: "deltas (fq_queue s) = [] \<Longrightarrow> fst (evictions j s) = []"
proof -
  assume q: "deltas (fq_queue s) = []"
  obtain out rest where e: "evictions j s = (out, rest)" by fastforce
  have o: "mset (fq_queue s) = mset out + mset rest" "filter jb_isKeyframe out = []"
    using evictions_out[of s j] by (auto simp: left_out_def e)
  have "set out \<subseteq> set (fq_queue s)" using o(1) by (metis set_mset_mset mset_subset_eq_add_left set_mset_mono)
  then have "\<forall>j \<in> set out. jb_isKeyframe j" using q by (auto simp: filter_empty_conv)
  then show ?thesis using o(2) e by (auto simp: filter_empty_conv)
qed

lemma hand_over_keeps: "deltas (fq_queue (vr_sender r)) = [] \<Longrightarrow> \<not> fst (hand_over d k p n mo r)"
  by (simp add: hand_over_def Let_def case_prod_beta untouched enqueue_def enqueueFragments_def push_def no_deltas_none_evicted)

lemma keyframe_opens:
  assumes "\<not> vr_stopping r" "vr_videoDc r = IsOpen" "d \<noteq> []" "mo_bufferedAmount mo \<le> sb_drainedBytes (vr_backlog r)"
    and "deltas (fq_queue (vr_sender r)) = []"
  shows "vr_frameId (fst (handleVideoFrame d True n p mo r)) = vr_frameId r + 1 \<and>
    \<not> vr_awaitingIdr (fst (handleVideoFrame d True n p mo r))"
proof -
  let ?r = "fst (if mo_workerDroppedDelta mo \<and> \<not> ridingOutLoss mo r then await_keyframe mo r else (r, []))"
  let ?d = "if \<not> vr_hevcPatched ?r then first_keyframe d else d"
  let ?s = "let r = ?r\<lparr>vr_hevcPatched := True\<rparr> in if vr_haveBufferedKeyframe r then r\<lparr>vr_newKeyframeArrived := True\<rparr> else r"
  have s: "vr_stopping ?s = vr_stopping r" "vr_videoDc ?s = vr_videoDc r" "vr_backlog ?s = vr_backlog r"
    "vr_sender ?s = vr_sender r" "vr_frameId ?s = vr_frameId r" by (simp_all add: untouched Let_def)
  have h: "fst (handleVideoFrame d True n p mo r) = fst (sendFragmented ?d True p n mo ?s)"
    using assms(1,2) by (simp add: handleVideoFrame_def case_prod_beta route_frame_def untouched Let_def)
  have "?d \<noteq> []" using assms(3) first_keyframe_bytes by simp
  then have t: "fst (sendFragmented ?d True p n mo ?s) = fst (transmit ?d True p n mo (keyframe_through (snd (note_backlog mo ?s))))"
    using assms(1,2,4) s drained_note[of mo ?s] by (simp add: sendFragmented_def case_prod_beta)
  let ?k = "keyframe_through (snd (note_backlog mo ?s))"
  have "deltas (fq_queue (vr_sender ?k)) = []" using assms(5) s by (simp add: keyframe_through_def untouched)
  then have "\<not> fst (hand_over ?d True p n mo ?k)" by (rule hand_over_keeps)
  then have "\<not> vr_awaitingIdr (fst (transmit ?d True p n mo ?k))"
    by (simp add: transmit_def case_prod_beta after_eviction_def untouched) (simp add: keyframe_through_def)
  moreover have "vr_frameId (fst (transmit ?d True p n mo ?k)) = vr_frameId r + 1"
    using s by (simp add: transmit_id keyframe_through_def untouched)
  ultimately show ?thesis unfolding h t by blast
qed

text \<open>C12. A picture that stalled comes back: after any history, once the link has drained the next delta of the engine makes the relay
  ask for a keyframe, at once if the drain was what it waited for and in any case five seconds after the last request;
  and the keyframe that answers, if no delta is still queued before it, is handed to the sender and opens the gate.\<close>

theorem stalled_picture_recovers:
  fixes history :: "RelayCall list" and native rideOut :: bool and bitrateKbps :: int
  defines "r \<equiv> fst (relay_run history (vr_new native rideOut bitrateKbps))"
  assumes "\<not> vr_stopping r" "vr_videoDc r = IsOpen" "vr_awaitingIdr r"
    and drained: "mo_bufferedAmount mo \<le> sb_drainedBytes (vr_backlog r)" "mo_bufferedAmount mo' \<le> sb_drainedBytes (vr_backlog r)"
    and "vr_idrWaitsForDrain r \<or> (case vr_idrCooldownTimer r of None \<Rightarrow> True | Some t \<Rightarrow> t + 5000 \<le> mo_steadyMs mo)"
    and "\<not> mo_workerDroppedDelta mo" "keyframe \<noteq> []" "deltas (fq_queue (vr_sender r)) = []"
  shows "AskKeyframe \<in> set (snd (relay_call (VideoFrame delta False n p mo) r)) \<and>
    (case fst (relay_call (VideoFrame delta False n p mo) r) of r' \<Rightarrow>
       vr_frameId (fst (relay_call (VideoFrame keyframe True n' p' mo') r')) = vr_frameId r' + 1 \<and>
       \<not> vr_awaitingIdr (fst (relay_call (VideoFrame keyframe True n' p' mo') r')))"
proof -
  have "cool r" unfolding r_def by (rule cool_run[OF cool_new])
  then have ask: "AskKeyframe \<in> set (snd (gated_delta mo r))" by (rule gated_asks[OF assms(2) _ drained(1) assms(7)])
  have d: "relay_call (VideoFrame delta False n p mo) r = gated_delta mo r"
    using assms(2-4,8) by (simp add: handleVideoFrame_def route_frame_def)
  have "sb_drainedBytes (vr_backlog (fst (gated_delta mo r))) = sb_drainedBytes (vr_backlog r)"
    by (simp add: gated_delta_def case_prod_beta untouched sb_note_drained)
  then have "vr_frameId (fst (handleVideoFrame keyframe True n' p' mo' (fst (gated_delta mo r)))) = vr_frameId (fst (gated_delta mo r)) + 1 \<and>
      \<not> vr_awaitingIdr (fst (handleVideoFrame keyframe True n' p' mo' (fst (gated_delta mo r))))"
    by (intro keyframe_opens) (use assms in \<open>simp_all add: untouched\<close>)
  then show ?thesis unfolding d using ask by simp
qed


lemma stalled_picture_recovers_witness:
  "AskKeyframe \<in> set (snd (relay_call (VideoFrame [2] False 1 16 (moment_at 6000 0))
    (fst (relay_run [ChannelIs NotOpen, VideoFrame [1] False 0 0 (moment_at 0 0), ChannelIs IsOpen] (vr_new False False 20000)))))"
proof -
  let ?h = "[ChannelIs NotOpen, VideoFrame [1] False 0 0 (moment_at 0 0), ChannelIs IsOpen]"
  let ?r = "fst (relay_run ?h (vr_new False False 20000))"
  have "\<not> vr_stopping ?r \<and> vr_videoDc ?r = IsOpen \<and> vr_awaitingIdr ?r \<and> 0 \<le> sb_drainedBytes (vr_backlog ?r) \<and>
      vr_idrCooldownTimer ?r = Some 0 \<and> deltas (fq_queue (vr_sender ?r)) = []" by code_simp
  then show ?thesis
    using stalled_picture_recovers[of ?h False False 20000 "moment_at 6000 0" "moment_at 6016 0" "[7]" "[2]" 1 16 2 33]
    by (simp add: moment_at_def)
qed

section \<open>The pace of the requests\<close>

text \<open>One call asks once at most, and no earlier than 300 ms after the last time.\<close>

definition ask_step :: "Moment \<Rightarrow> VideoRelay \<Rightarrow> acted \<Rightarrow> bool" where
  "ask_step mo r p \<longleftrightarrow>
     (AskKeyframe \<notin> set (snd p) \<and> vr_idrCooldownTimer (fst p) = vr_idrCooldownTimer r) \<or>
     (count_list (snd p) AskKeyframe = 1 \<and> vr_idrCooldownTimer (fst p) = Some (mo_steadyMs mo) \<and>
      (case vr_idrCooldownTimer r of None \<Rightarrow> True | Some t \<Rightarrow> t + 300 \<le> mo_steadyMs mo))"

lemma ask_same: "vr_idrCooldownTimer r' = vr_idrCooldownTimer r \<Longrightarrow> AskKeyframe \<notin> set es \<Longrightarrow> ask_step mo r (r', es)"
  by (simp add: ask_step_def)

lemma ask_before: "vr_idrCooldownTimer r1 = vr_idrCooldownTimer r \<Longrightarrow> ask_step mo r1 p \<Longrightarrow> ask_step mo r p"
  by (simp add: ask_step_def)

lemma ask_then: "ask_step mo r (r1, es1) \<Longrightarrow> ask_step mo r1 (r2, es2) \<Longrightarrow> ask_step mo r (r2, es1 @ es2)"
  by (auto simp: ask_step_def count_list_0_iff)

lemma ask_throttle: "cool r \<Longrightarrow> ask_step mo r (sendIdrRequestThrottled mo r)"
  by (auto simp: ask_step_def sendIdrRequestThrottled_def cool_def split: option.splits)

lemma ask_await: "cool r \<Longrightarrow> ask_step mo r (await_keyframe mo r)"
  unfolding await_keyframe_def by (rule ask_before[OF _ ask_throttle]) (simp_all add: cool_def)

text \<open>A channel that holds more than a drained one does.\<close>

definition full_at :: "VideoRelay \<Rightarrow> Moment \<Rightarrow> bool" where
  "full_at r mo \<longleftrightarrow> sb_drainedBytes (vr_backlog r) < mo_bufferedAmount mo \<and> 0 \<le> mo_wallMs mo"

lemma full_backed_up: "full_at r mo \<Longrightarrow> sb_backedUp (vr_backlog (snd (note_backlog mo r)))"
  by (auto simp: untouched full_at_def sb_note_def sb_backedUp_def kDrained_def Let_def)

lemma ask_gated: "cool r \<Longrightarrow> full_at r mo \<Longrightarrow> ask_step mo r (gated_delta mo r)"
proof -
  assume r: "cool r" "full_at r mo"
  let ?n = "snd (note_backlog mo (r\<lparr>vr_awaitingIdrDropCount := vr_awaitingIdrDropCount r + 1\<rparr>))"
  have n: "vr_idrCooldownTimer ?n = vr_idrCooldownTimer r" "cool ?n" using r by (simp_all add: untouched cool_def)
  have "sb_backedUp (vr_backlog ?n)" using r(2) by (intro full_backed_up) (simp add: full_at_def)
  then show ?thesis using ask_before[OF n(1) ask_throttle[OF n(2)]] n(1)
    by (auto simp: gated_delta_def case_prod_beta untouched intro: ask_same)
qed

lemma ask_transmit: "cool r \<Longrightarrow> ask_step mo r (transmit d k p n mo r)"
proof -
  assume r: "cool r"
  obtain e ns x where h: "hand_over d k p n mo r = (e, ns, x)" by (metis prod_cases3)
  have x: "vr_idrCooldownTimer x = vr_idrCooldownTimer r" "cool x"
    using hand_over_untouched(8,9)[of d k p n mo r] r by (simp_all add: h cool_def)
  have "ask_step mo r (after_eviction e ns n mo x)"
    using ask_before[OF x(1) ask_await[OF x(2)]] x(1) by (auto simp: after_eviction_def Let_def intro: ask_same)
  then show ?thesis
    by (cases "after_eviction e ns n mo x") (auto simp: transmit_def h ask_step_def split: option.splits)
qed

lemma ask_send: "cool r \<Longrightarrow> ask_step mo r (sendFragmented d k p n mo r)"
proof -
  assume r: "cool r"
  obtain s x where h: "note_backlog mo r = (s, x)" by fastforce
  have x: "vr_idrCooldownTimer x = vr_idrCooldownTimer r" "cool x"
    using note_untouched(10,11)[of mo r] r by (simp_all add: h cool_def)
  have kf: "vr_idrCooldownTimer (keyframe_through x) = vr_idrCooldownTimer r" "cool (keyframe_through x)"
    using x by (simp_all add: keyframe_through_def cool_def tunables)
  show ?thesis
    using ask_before[OF x(1) ask_transmit[OF x(2)]] ask_before[OF kf(1) ask_transmit[OF kf(2)]] x(1)
    by (auto simp: sendFragmented_def h shed_delta_def shed_keyframe_def untouched Let_def intro!: ask_same)
qed

lemma ask_route: "cool r \<Longrightarrow> full_at r mo \<Longrightarrow> ask_step mo r (route_frame d k n p mo r)"
proof -
  assume r: "cool r" "full_at r mo"
  have kept: "ask_step mo r (f x)" if "vr_idrCooldownTimer x = vr_idrCooldownTimer r" "ask_step mo x (f x)" for f x
    using that by (rule ask_before)
  have "cool (r\<lparr>vr_hevcPatched := True\<rparr>)" "cool (r\<lparr>vr_hevcPatched := True, vr_newKeyframeArrived := True\<rparr>)"
    using r(1) by (simp_all add: cool_def)
  then show ?thesis using ask_await[OF r(1)] ask_gated[OF r] ask_send[OF r(1)]
    by (auto simp: route_frame_def Let_def buffer_keyframe_def intro: ask_same ask_before[OF _ ask_send])
qed


fun moment_of :: "RelayCall \<Rightarrow> Moment option" where
  "moment_of (VideoFrame data isKeyframe frameNumber presUs mo) = Some mo"
| "moment_of (SendBuffered mo) = Some mo"
| "moment_of (RequestKeyframe mo) = Some mo"
| "moment_of (FramesLost lostFrom lostTo mo) = Some mo"
| "moment_of c = None"

lemma full_cong: "vr_backlog r' = vr_backlog r \<Longrightarrow> full_at r' mo = full_at r mo"
  by (simp add: full_at_def)

lemma ask_handle: "cool r \<Longrightarrow> full_at r mo \<Longrightarrow> ask_step mo r (handleVideoFrame d k n p mo r)"
proof -
  assume r: "cool r" "full_at r mo"
  let ?w = "if mo_workerDroppedDelta mo \<and> \<not> ridingOutLoss mo r then await_keyframe mo r else (r, [])"
  obtain x es where w: "?w = (x, es)" by fastforce
  have x: "x = fst ?w" by (simp add: w)
  have "ask_step mo r (x, es)" unfolding w[symmetric] using ask_await[OF r(1)] by (auto intro: ask_same)
  moreover have "cool x" "full_at x mo"
    using r cool_await[OF r(1)] full_cong[of "fst (await_keyframe mo r)" r mo] by (simp_all add: x untouched)
  then have "ask_step mo x (route_frame d k n p mo x)" by (rule ask_route)
  ultimately show ?thesis
    by (cases "route_frame d k n p mo x") (auto simp: handleVideoFrame_def w intro: ask_then ask_same)
qed

lemma ask_buffered: "cool r \<Longrightarrow> ask_step mo r (sendBufferedKeyframe mo r)"
proof -
  assume r: "cool r"
  let ?s = "sendFragmented (vr_bufferedKeyframe r) True (vr_bufferedKeyframePresUs r) (- 1) mo r"
  obtain x es where s: "?s = (x, es)" by fastforce
  have "cool x" using cool_send[OF r] s by (metis fst_conv)
  moreover have "ask_step mo r (x, es)" using ask_send[OF r] s by metis
  ultimately have "ask_step mo r (case (if vr_awaitingIdr r then await_keyframe mo x else (x, [])) of (y, es') \<Rightarrow> (y, es @ es'))"
    using ask_await[of x mo] by (cases "await_keyframe mo x") (auto intro: ask_then)
  then show ?thesis unfolding sendBufferedKeyframe_def
    by (auto simp: s Let_def case_prod_beta forget_keyframe_def ask_step_def split: option.splits)
qed

lemma no_asks_named: "AskKeyframe \<notin> set (fst (name_frames k i r))"
  by (induction k arbitrary: i) (auto simp: case_prod_beta split: option.splits)

lemma ask_invalidate: "cool r \<Longrightarrow> ask_step mo r (invalidateref a b mo r)"
proof -
  assume r: "cool r"
  have "ask_step mo r (case (es, healed) of (es, True) \<Rightarrow> (r, es) | (es, False) \<Rightarrow> (case await_keyframe mo r of (x, es') \<Rightarrow> (x, es @ es')))"
    if "AskKeyframe \<notin> set es" for es healed
  proof (cases healed)
    case False
    obtain x es' where w: "await_keyframe mo r = (x, es')" by fastforce
    show ?thesis using ask_then[OF ask_same[OF refl that]] ask_await[OF r, of mo] False by (simp add: w)
  qed (use that in \<open>simp add: ask_same\<close>)
  moreover obtain es healed where p: "(if vr_directVideoSend r \<and> 0 \<le> a \<and> a \<le> b \<and> b - a < 16
      then name_frames (nat (b - a + 1)) a r else ([], False)) = (es, healed)" by fastforce
  moreover have "AskKeyframe \<notin> set es" using p no_asks_named[of "nat (b - a + 1)" a r] by (auto split: if_splits)
  ultimately show ?thesis unfolding invalidateref_def by (simp only: p)
qed

lemma ask_call:
  assumes "cool r" "moment_of c = Some mo" "full_at r mo"
  shows "ask_step mo r (relay_call c r)"
  using assms ask_handle[OF assms(1,3)] ask_buffered ask_invalidate ask_await
  by (cases c) (auto simp: requestIdrFrame_def intro: ask_same)

lemma silent_call:
  assumes "moment_of c = None"
  shows "snd (relay_call c r) = [] \<and> (vr_idrCooldownTimer (fst (relay_call c r)) = vr_idrCooldownTimer r \<or> vr_stopping (fst (relay_call c r)))"
  using assms by (cases c) (auto simp: takeBufferedKeyframe_def forget_keyframe_def vr_stop_def split: option.splits)

lemma note_drained: "sb_drainedBytes (vr_backlog (snd (note_backlog mo r))) = sb_drainedBytes (vr_backlog r)"
  by (simp add: untouched sb_note_drained)

lemma transmit_backlog: "vr_backlog (fst (transmit d k p n mo r)) = vr_backlog r"
  by (simp add: transmit_def case_prod_beta untouched)

lemma send_drained: "sb_drainedBytes (vr_backlog (fst (sendFragmented d k p n mo r))) = sb_drainedBytes (vr_backlog r)"
  by (simp add: sendFragmented_def case_prod_beta transmit_backlog shed_delta_def shed_keyframe_def keyframe_through_def untouched
      sb_note_drained sb_reset_def Let_def)

lemma gated_drained: "sb_drainedBytes (vr_backlog (fst (gated_delta mo r))) = sb_drainedBytes (vr_backlog r)"
  by (simp add: gated_delta_def case_prod_beta untouched sb_note_drained)

lemma call_drained: "sb_drainedBytes (vr_backlog (fst (relay_call c r))) = sb_drainedBytes (vr_backlog r)"
proof (cases c)
  case (VideoFrame d k n p mo)
  then show ?thesis
    by (simp add: handleVideoFrame_def route_frame_def case_prod_beta Let_def send_drained gated_drained buffer_keyframe_def untouched)
next
  case (SendBuffered mo)
  then show ?thesis by (simp add: sendBufferedKeyframe_def case_prod_beta Let_def send_drained forget_keyframe_def untouched)
next
  case (FramesLost a b mo)
  then show ?thesis by (simp add: invalidateref_def case_prod_beta untouched split: bool.split)
qed (auto simp: requestIdrFrame_def takeBufferedKeyframe_def forget_keyframe_def vr_stop_def untouched split: option.split)

lemma stopped_call: "vr_stopping r \<Longrightarrow> vr_stopping (fst (relay_call c r)) \<and> snd (relay_call c r) = []"
  by (cases c) (auto simp: handleVideoFrame_def sendBufferedKeyframe_def requestIdrFrame_def takeBufferedKeyframe_def
      forget_keyframe_def vr_stop_def split: option.split)

text \<open>The times at which a run of calls asks for a keyframe.\<close>

fun asked_at :: "RelayCall list \<Rightarrow> VideoRelay \<Rightarrow> int list" where
  "asked_at [] r = []"
| "asked_at (c # cs) r =
     (case relay_call c r of (r', es) \<Rightarrow>
        (case moment_of c of None \<Rightarrow> [] | Some mo \<Rightarrow> replicate (count_list es AskKeyframe) (mo_steadyMs mo)) @ asked_at cs r')"

definition full_throughout :: "RelayCall list \<Rightarrow> VideoRelay \<Rightarrow> bool" where
  "full_throughout cs r \<longleftrightarrow> list_all (\<lambda>c. case moment_of c of None \<Rightarrow> True | Some mo \<Rightarrow> full_at r mo) cs"

lemma stopped_asks: "vr_stopping r \<Longrightarrow> asked_at cs r = []"
proof (induction cs arbitrary: r)
  case (Cons c cs)
  then show ?case using stopped_call[of r c] by (simp add: case_prod_beta split: option.split)
qed simp

lemma asked_apart:
  assumes "cool r" "full_throughout cs r"
  shows "sorted_wrt (\<lambda>a b. a + 300 \<le> b) (asked_at cs r) \<and>
    (\<forall>t. vr_idrCooldownTimer r = Some t \<longrightarrow> (\<forall>a \<in> set (asked_at cs r). t + 300 \<le> a))"
  using assms
proof (induction cs arbitrary: r)
  case (Cons c cs)
  let ?r = "fst (relay_call c r)"
  have "full_throughout cs ?r" using Cons.prems(2) call_drained[of c r]
    by (auto simp: full_throughout_def full_at_def list_all_iff split: option.splits)
  then have ih: "sorted_wrt (\<lambda>a b. a + 300 \<le> b) (asked_at cs ?r)"
      "\<And>t a. vr_idrCooldownTimer ?r = Some t \<Longrightarrow> a \<in> set (asked_at cs ?r) \<Longrightarrow> t + 300 \<le> a"
    using Cons.IH[of ?r] cool_call[OF Cons.prems(1)] by auto
  show ?case
  proof (cases "moment_of c")
    case None
    then show ?thesis using ih silent_call[OF None, of r] stopped_asks[of ?r cs]
      by (cases "vr_stopping ?r") (auto simp: case_prod_beta)
  next
    case (Some mo)
    then have full: "full_at r mo" using Cons.prems(2) by (simp add: full_throughout_def)
    show ?thesis using ask_call[OF Cons.prems(1) Some full] ih Some
      by (auto simp: ask_step_def case_prod_beta count_list_0_iff split: option.splits)
         (metis add_increasing2 dual_order.trans zero_le_numeral)+
  qed
qed simp

text \<open>C14. While the link does not drain the engine is not flooded: after any history, over any further calls during which the channel
  never falls to what counts as drained, two keyframe requests are at least 300 ms apart, whoever asks, the browser, a
  dropped frame, an eviction or a report of lost frames.\<close>

theorem requests_are_spaced:
  fixes history :: "RelayCall list" and native rideOut :: bool and bitrateKbps :: int
  defines "r \<equiv> fst (relay_run history (vr_new native rideOut bitrateKbps))"
  assumes "full_throughout cs r"
  shows "sorted_wrt (\<lambda>a b. a + 300 \<le> b) (asked_at cs r)"
  using asked_apart[OF _ assms(2)] cool_run[OF cool_new] unfolding r_def by blast

lemma requests_are_spaced_witness:
  "sorted_wrt (\<lambda>a b. a + 300 \<le> b) (asked_at
     [RequestKeyframe (moment_at 0 900000), RequestKeyframe (moment_at 100 900000), RequestKeyframe (moment_at 700 900000)]
     (fst (relay_run [] (vr_new False False 20000))))"
  by (rule requests_are_spaced) (simp add: full_throughout_def full_at_def moment_at_def vr_new_def sb_new_def sb_setBitrateKbps_def
      drainedBytesFor_def bytesOf_def tunables)


section \<open>The name of a lost frame\<close>

text \<open>The numbers of the frames a call hands to the sender, in a run their wire ids are their places.\<close>

definition handed :: "RelayCall \<Rightarrow> VideoRelay \<Rightarrow> int list" where
  "handed c r =
     (if vr_frameId (fst (relay_call c r)) = vr_frameId r then []
      else [case c of VideoFrame data isKeyframe frameNumber presUs mo \<Rightarrow> frameNumber | _ \<Rightarrow> - 1])"

fun wire :: "RelayCall list \<Rightarrow> VideoRelay \<Rightarrow> int list" where
  "wire [] r = []"
| "wire (c # cs) r = handed c r @ wire cs (fst (relay_call c r))"

definition same_ring :: "VideoRelay \<Rightarrow> VideoRelay \<Rightarrow> bool" where
  "same_ring r r' \<longleftrightarrow> vr_frameId r' = vr_frameId r \<and> vr_frameNumberById r' = vr_frameNumberById r"

definition next_ring :: "int \<Rightarrow> VideoRelay \<Rightarrow> VideoRelay \<Rightarrow> bool" where
  "next_ring n r r' \<longleftrightarrow> vr_frameId r' = vr_frameId r + 1 \<and>
     vr_frameNumberById r' = (vr_frameNumberById r)[unat (vr_frameId r) mod 512 := ring_slot (vr_frameId r) n]"

lemma transmit_ring: "next_ring n r (fst (transmit d k p n mo r))"
  by (simp add: next_ring_def transmit_def case_prod_beta untouched tunables)

lemma send_ring: "same_ring r (fst (sendFragmented d k p n mo r)) \<or> next_ring n r (fst (sendFragmented d k p n mo r))"
proof -
  let ?x = "snd (note_backlog mo r)"
  have "next_ring n r (fst (transmit d k p n mo ?x))" "next_ring n r (fst (transmit d k p n mo (keyframe_through ?x)))"
    using transmit_ring[of n ?x d k p mo] transmit_ring[of n "keyframe_through ?x" d k p mo]
    by (simp_all add: next_ring_def untouched keyframe_through_def)
  then show ?thesis by (auto simp: sendFragmented_def case_prod_beta same_ring_def untouched)
qed

definition ringed :: "int \<Rightarrow> VideoRelay \<Rightarrow> VideoRelay \<Rightarrow> bool" where
  "ringed n r r' \<longleftrightarrow> same_ring r r' \<or> next_ring n r r'"

lemma route_ring: "ringed n r (fst (route_frame d k n p mo r))"
proof -
  have sent: "ringed n r (fst (sendFragmented d' k p n mo x))" if "same_ring r x" for d' x
    using send_ring[of x d' k p n mo] that by (simp add: same_ring_def next_ring_def ringed_def)
  have kept: "ringed n r x" if "same_ring r x" for x using that by (simp add: ringed_def)
  have "same_ring r r" "same_ring r (r\<lparr>vr_hevcPatched := True\<rparr>)" "same_ring r (r\<lparr>vr_newKeyframeArrived := True\<rparr>)"
    "same_ring r (r\<lparr>vr_hevcPatched := True, vr_newKeyframeArrived := True\<rparr>)" "same_ring r (fst (await_keyframe mo r))"
    "same_ring r (fst (gated_delta mo r))" "\<And>d p. same_ring r (buffer_keyframe d p (r\<lparr>vr_hevcPatched := True\<rparr>))"
    by (simp_all add: same_ring_def untouched buffer_keyframe_def)
  then show ?thesis using sent kept by (simp add: route_frame_def Let_def)
qed

lemma call_ring:
  "ringed (case c of VideoFrame data isKeyframe frameNumber presUs mo \<Rightarrow> frameNumber | _ \<Rightarrow> - 1) r (fst (relay_call c r))"
proof (cases c)
  case (VideoFrame d k n p mo)
  let ?x = "fst (if mo_workerDroppedDelta mo \<and> \<not> ridingOutLoss mo r then await_keyframe mo r else (r, []))"
  have "vr_frameId ?x = vr_frameId r" "vr_frameNumberById ?x = vr_frameNumberById r" by (simp_all add: untouched)
  then show ?thesis using route_ring[of n ?x d k p mo]
    by (simp add: VideoFrame handleVideoFrame_def case_prod_beta same_ring_def next_ring_def ringed_def)
next
  case (SendBuffered mo)
  then show ?thesis using send_ring[of r "vr_bufferedKeyframe r" True "vr_bufferedKeyframePresUs r" "- 1" mo]
    by (simp add: sendBufferedKeyframe_def Let_def case_prod_beta forget_keyframe_def same_ring_def next_ring_def ringed_def untouched)
next
  case (FramesLost a b mo)
  then show ?thesis by (simp add: invalidateref_def case_prod_beta same_ring_def ringed_def untouched split: bool.split)
qed (auto simp: same_ring_def ringed_def requestIdrFrame_def takeBufferedKeyframe_def forget_keyframe_def vr_stop_def untouched split: option.split)

text \<open>The ring holds the last 512 frames, and nothing else.\<close>

definition ring_holds :: "int list \<Rightarrow> VideoRelay \<Rightarrow> bool" where
  "ring_holds w r \<longleftrightarrow> vr_frameId r = word_of_nat (length w) \<and> length (vr_frameNumberById r) = 512 \<and>
     (\<forall>k < length w. length w \<le> k + 512 \<longrightarrow> vr_frameNumberById r ! (k mod 512) = ring_slot (word_of_nat k) (w ! k)) \<and>
     (\<forall>j < 512. length w \<le> j \<longrightarrow> vr_frameNumberById r ! j = - 1)"

lemma ring_next:
  assumes "ring_holds w r" "next_ring n r r'" "length w < 2 ^ 31"
  shows "ring_holds (w @ [n]) r'"
proof -
  have u: "unat (vr_frameId r) = length w"
    using assms(1,3) by (simp add: ring_holds_def unsigned_of_nat take_bit_nat_eq_self)
  have ring: "vr_frameNumberById r' = (vr_frameNumberById r)[length w mod 512 := ring_slot (word_of_nat (length w)) n]"
    and l: "length (vr_frameNumberById r) = 512" using assms(1,2) u by (simp_all add: next_ring_def ring_holds_def)
  have "vr_frameNumberById r' ! (k mod 512) = ring_slot (word_of_nat k) ((w @ [n]) ! k)"
    if k: "k < length (w @ [n])" "length (w @ [n]) \<le> k + 512" for k
  proof (cases "k = length w")
    case True
    then show ?thesis using l by (simp add: ring)
  next
    case False
    then have "k < length w" "length w < k + 512" using k by auto
    moreover from this have "k mod 512 \<noteq> length w mod 512" using mod_eq_dvd_iff_nat[of k "length w" 512] 
      by (metis dvd_imp_le less_diff_conv2 less_imp_le linorder_not_le mod_eq_dvd_iff_nat zero_less_diff add.commute)
    ultimately show ?thesis using assms(1) by (simp add: ring ring_holds_def nth_append)
  qed
  moreover have "vr_frameNumberById r' ! j = - 1" if "j < 512" "length (w @ [n]) \<le> j" for j
    using that assms(1) by (simp add: ring ring_holds_def)
  ultimately show ?thesis using assms(1,2) l by (simp add: ring_holds_def ring next_ring_def)
qed

lemma handed_ring:
  assumes "ring_holds w r" "length w < 2 ^ 31"
  shows "ring_holds (w @ handed c r) (fst (relay_call c r))"
proof -
  have ne: "x + 1 \<noteq> (x :: 32 word)" for x by simp
  let ?n = "case c of VideoFrame data isKeyframe frameNumber presUs mo \<Rightarrow> frameNumber | _ \<Rightarrow> - 1"
  from call_ring[of c r] show ?thesis unfolding ringed_def
  proof
    assume "same_ring r (fst (relay_call c r))"
    then show ?thesis using assms by (simp add: handed_def same_ring_def ring_holds_def)
  next
    assume n: "next_ring ?n r (fst (relay_call c r))"
    then have "handed c r = [?n]" using ne by (simp add: handed_def next_ring_def)
    then show ?thesis using ring_next[OF assms(1) n assms(2)] by simp
  qed
qed

lemma wire_ring: "ring_holds w r \<Longrightarrow> length w + length (wire cs r) \<le> 2 ^ 31 \<Longrightarrow> ring_holds (w @ wire cs r) (fst (relay_run cs r))"
proof (induction cs arbitrary: w r)
  case (Cons c cs)
  show ?case
  proof (cases "handed c r")
    case Nil
    have "ring_holds w (fst (relay_call c r))"
    proof -
      have "same_ring r (fst (relay_call c r))" using call_ring[of c r] Nil by (auto simp: ringed_def handed_def next_ring_def split: if_splits)
      then show ?thesis using Cons.prems(1) by (simp add: same_ring_def ring_holds_def)
    qed
    then show ?thesis using Cons.IH[of w "fst (relay_call c r)"] Cons.prems(2) Nil by (simp add: case_prod_beta)
  next
    case (Cons n ns)
    have "length w < 2 ^ 31" using Cons.prems(2) Cons by simp
    then have "ring_holds (w @ handed c r) (fst (relay_call c r))" using handed_ring Cons.prems(1) by blast
    then show ?thesis using Cons.IH[of "w @ handed c r" "fst (relay_call c r)"] Cons.prems(2) by (simp add: case_prod_beta)
  qed
qed simp

lemma ring_new: "ring_holds [] (vr_new native rideOut kbps)"
  by (simp add: ring_holds_def vr_new_def tunables)

lemma ring_slot_value:
  assumes "k < 2 ^ 31" "0 \<le> n"
  shows "ring_slot (word_of_nat k) n = int k * 2 ^ 32 + n mod 2 ^ 32"
proof -
  let ?lo = "ucast (word_of_int n :: 32 word) :: 64 word" and ?hi = "push_bit 32 (ucast (word_of_nat k :: 32 word)) :: 64 word"
  have u: "uint (word_of_nat k :: 32 word) = int k" using assms(1)
    by (simp add: unsigned_of_nat take_bit_int_eq_self take_bit_nat_eq_self)
  have "?hi AND ?lo = 0"
    by (rule bit_word_eqI) (auto simp: bit_simps dest: bit_imp_le_length)
  then have "?hi OR ?lo = ?hi + ?lo" using word_plus_and_or[of ?hi ?lo] by simp
  moreover have "uint ?lo = n mod 2 ^ 32" by (simp add: unsigned_ucast_eq unsigned_of_int take_bit_eq_mod)
  moreover have "uint ?hi = int k * 2 ^ 32"
  proof -
    have "uint (ucast (word_of_nat k :: 32 word) :: 64 word) = int k"
      using assms(1) unfolding unsigned_ucast_eq u by (simp add: take_bit_int_eq_self)
    then have "uint ?hi = take_bit LENGTH(64) (push_bit 32 (int k))" by (simp only: unsigned_push_bit_eq)
    then show ?thesis using assms(1) by (simp add: push_bit_eq_mult take_bit_int_eq_self)
  qed
  ultimately have v: "uint (?hi OR ?lo) = int k * 2 ^ 32 + n mod 2 ^ 32"
    using assms(1) by (simp add: uint_word_ariths)
  have "int k * 2 ^ 32 + n mod 2 ^ 32 < 2 ^ 63" using assms(1) by simp
  then have "sint (?hi OR ?lo) = int k * 2 ^ 32 + n mod 2 ^ 32" using v
    by (simp add: sint_uint signed_take_bit_int_eq_self)
  then show ?thesis using assms(2) by (simp add: ring_slot_def)
qed


lemma slot_read:
  assumes "k < 2 ^ 31" "0 \<le> n"
  shows "\<not> ring_slot (word_of_nat k) n < 0" "ring_slot (word_of_nat k) n div 2 ^ 32 = int k"
    "word_of_int (ring_slot (word_of_nat k) n) = (word_of_int n :: 32 word)"
proof -
  have v: "ring_slot (word_of_nat k) n = int k * 2 ^ 32 + n mod 2 ^ 32" by (rule ring_slot_value[OF assms])
  have m: "0 \<le> n mod 2 ^ 32" "n mod 2 ^ 32 < 2 ^ 32" by simp_all
  show "\<not> ring_slot (word_of_nat k) n < 0" unfolding v using m by simp
  show "ring_slot (word_of_nat k) n div 2 ^ 32 = int k" unfolding v using m by simp
  have "(int k * 2 ^ 32 + n mod 2 ^ 32) mod 2 ^ 32 = n mod 2 ^ 32" by simp
  then show "word_of_int (ring_slot (word_of_nat k) n) = (word_of_int n :: 32 word)"
    unfolding v by (intro word_of_int_eq_iff[THEN iffD2]) (simp add: take_bit_eq_mod)
qed

lemma small_id: "0 \<le> i \<Longrightarrow> nat i < 2 ^ 31 \<Longrightarrow> unat (word_of_int i :: 32 word) = nat i"
proof -
  assume i: "0 \<le> i" "nat i < 2 ^ 31"
  then have "i < 2 ^ 32" by (simp add: nat_less_iff)
  then show ?thesis using i(1) by (simp add: unsigned_of_int take_bit_int_eq_self unat_eq_nat_uint)
qed

lemma last_in_class: "j < m \<Longrightarrow> j < 512 \<Longrightarrow> \<exists>k < m. k mod 512 = j \<and> m \<le> k + (512 :: nat)"
proof -
  assume j: "j < m" "j < 512"
  let ?q = "(m - 1 - j) div 512"
  have "512 * ?q + (m - 1 - j) mod 512 = m - 1 - j" "(m - 1 - j) mod 512 < 512" by simp_all
  then have "j + 512 * ?q < m \<and> m \<le> j + 512 * ?q + 512" using j by linarith
  moreover have "(j + 512 * ?q) mod 512 = j" using j by simp
  ultimately show ?thesis by blast
qed

lemma same_class: "a mod 512 = b mod 512 \<Longrightarrow> a < b + 512 \<Longrightarrow> b < a + (512 :: nat) \<Longrightarrow> a = b"
proof -
  assume m: "a mod 512 = b mod 512" "a < b + 512" "b < a + 512"
  have "a = 512 * (a div 512) + a mod 512" "b = 512 * (b div 512) + b mod 512" by simp_all
  then have "512 * (a div 512) < 512 * (b div 512) + 512" "512 * (b div 512) < 512 * (a div 512) + 512" using m by linarith+
  then have "a div 512 = b div 512" by linarith
  then show ?thesis using m by (metis mult_div_mod_eq)
qed

lemma named_in_ring:
  fixes history :: "RelayCall list" and native rideOut :: bool and bitrateKbps :: int
  defines "sent \<equiv> wire history (vr_new native rideOut bitrateKbps)"
    and "r \<equiv> fst (relay_run history (vr_new native rideOut bitrateKbps))"
  assumes "length sent < 2 ^ 31"
  shows "named_frame i r =
    (if 0 \<le> i \<and> nat i < length sent \<and> length sent \<le> nat i + 512 \<and> 0 \<le> sent ! nat i
     then Some (word_of_int (sent ! nat i)) else None)"
proof -
  have ring: "ring_holds sent r" unfolding sent_def r_def
    using wire_ring[OF ring_new, of history] assms(3) by (simp add: sent_def)
  define j where "j = unat (word_of_int i :: 32 word) mod 512"
  let ?slot = "vr_frameNumberById r ! j"
  have j: "j < 512" by (simp add: j_def)
  have holds: "\<exists>k < length sent. k mod 512 = j \<and> length sent \<le> k + 512 \<and> ?slot = ring_slot (word_of_nat k) (sent ! k)"
    if "j < length sent"
    using last_in_class[OF that j] ring by (auto simp: ring_holds_def)
  have named: "named_frame i r = (if ?slot < 0 \<or> ?slot div 2 ^ 32 \<noteq> i then None else Some (word_of_int ?slot))"
    by (simp add: named_frame_def j_def tunables Let_def)
  show ?thesis
  proof (cases "j < length sent")
    case False
    then have "?slot = - 1" using ring j by (simp add: ring_holds_def)
    moreover have "\<not> (0 \<le> i \<and> nat i < length sent)"
    proof
      assume i: "0 \<le> i \<and> nat i < length sent"
      then have "unat (word_of_int i :: 32 word) = nat i" using assms(3)
        by (intro small_id) simp_all
      then show False using False i by (metis j_def le_less_trans mod_less_eq_dividend not_le_imp_less linorder_not_less)
    qed
    ultimately show ?thesis by (auto simp: named)
  next
    case True
    from holds[OF True] obtain k where k: "k < length sent" "k mod 512 = j" "length sent \<le> k + 512"
      "?slot = ring_slot (word_of_nat k) (sent ! k)" by blast
    have k31: "k < 2 ^ 31" using k(1) assms(3) by simp
    have only: "nat i = k" if "0 \<le> i" "nat i < length sent" "length sent \<le> nat i + 512"
    proof -
      have "unat (word_of_int i :: 32 word) = nat i" using assms(3) that
        by (intro small_id) simp_all
      then have "nat i mod 512 = k mod 512" using k(2) j_def by simp
      moreover have "nat i < k + 512" "k < nat i + 512" using that k by auto
      ultimately show ?thesis by (rule same_class)
    qed
    show ?thesis
    proof (cases "0 \<le> sent ! k")
      case True
      then show ?thesis using slot_read[OF k31 True] k only by (auto simp: named)
    next
      case False
      then show ?thesis using k only by (auto simp: named ring_slot_def)
    qed
  qed
qed


text \<open>A wire id is known while it is one of the last 512 sent and the engine numbered the frame.\<close>

definition known :: "int list \<Rightarrow> int \<Rightarrow> bool" where
  "known sent i \<longleftrightarrow> 0 \<le> i \<and> nat i < length sent \<and> length sent \<le> nat i + 512 \<and> 0 \<le> sent ! nat i"

definition named_as :: "int list \<Rightarrow> int \<Rightarrow> RelayEffect" where
  "named_as sent i = InvalidateReference (word_of_int (sent ! nat i))"

lemma names_known:
  assumes "\<And>i. named_frame i r = (if known sent i then Some (word_of_int (sent ! nat i)) else None)"
  shows "name_frames n i r = (map (named_as sent) (takeWhile (known sent) [i..i + int n - 1]), list_all (known sent) [i..i + int n - 1])"
proof (induction n arbitrary: i)
  case (Suc n)
  have u: "[i..i + int (Suc n) - 1] = i # [i + 1..i + 1 + int n - 1]"
    by (simp add: upto_rec1[of i "i + int n"])
  show ?case unfolding u using Suc.IH[of "i + 1"] by (simp add: assms named_as_def)
qed simp

text \<open>C13. A receiver that names frames it lost, by their wire ids, is answered: with the engine's own numbers of exactly these frames and
  nothing else, when all of them, at most sixteen, are among the last 512 sent and numbered by the native engine; otherwise with those before the
  first that is not known, never with another frame, and the relay awaits a keyframe, which it asks for at once
  unless it waits for the link to drain or asked within the cooldown. For the first 2,147,483,647 frames of a session: the code
  keeps the id in the upper half of a signed word, so that later ids, a year at sixty a second, are no longer known.\<close>

theorem lost_frame_is_named:
  fixes history :: "RelayCall list" and native rideOut :: bool and bitrateKbps lostFrom lostTo :: int
  defines "sent \<equiv> wire history (vr_new native rideOut bitrateKbps)"
    and "r \<equiv> fst (relay_run history (vr_new native rideOut bitrateKbps))"
  assumes "length sent < 2 ^ 31" and "\<not> vr_stopping r"
  shows "case relay_call (FramesLost lostFrom lostTo mo) r of (r', es) \<Rightarrow>
    let named = (if vr_directVideoSend r \<and> 0 \<le> lostFrom \<and> lostFrom \<le> lostTo \<and> lostTo - lostFrom < 16
                 then map (named_as sent) (takeWhile (known sent) [lostFrom..lostTo]) else []);
        asks = (\<not> vr_idrWaitsForDrain r \<and> (case vr_idrCooldownTimer r of None \<Rightarrow> True | Some t \<Rightarrow> vr_idrCooldownMs r \<le> mo_steadyMs mo - t))
    in if vr_directVideoSend r \<and> 0 \<le> lostFrom \<and> lostFrom \<le> lostTo \<and> lostTo - lostFrom < 16 \<and> list_all (known sent) [lostFrom..lostTo]
       then r' = r \<and> es = map (named_as sent) [lostFrom..lostTo]
       else vr_awaitingIdr r' \<and> es = named @ (if asks then [AskKeyframe] else [])"
proof -
  have nf: "named_frame i r = (if known sent i then Some (word_of_int (sent ! nat i)) else None)" for i
    using named_in_ring[of history native rideOut bitrateKbps i] assms(3) unfolding sent_def r_def known_def by simp
  have names: "name_frames (nat (lostTo - lostFrom + 1)) lostFrom r =
      (map (named_as sent) (takeWhile (known sent) [lostFrom..lostTo]), list_all (known sent) [lostFrom..lostTo])"
    if "lostFrom \<le> lostTo"
    using names_known[OF nf, of "nat (lostTo - lostFrom + 1)" lostFrom] that by simp
  have all: "takeWhile (known sent) [lostFrom..lostTo] = [lostFrom..lostTo]" if "list_all (known sent) [lostFrom..lostTo]"
    using that by (simp add: takeWhile_eq_all_conv list_all_iff)
  have ask: "snd (await_keyframe mo r) = (if \<not> vr_idrWaitsForDrain r \<and>
      (case vr_idrCooldownTimer r of None \<Rightarrow> True | Some t \<Rightarrow> vr_idrCooldownMs r \<le> mo_steadyMs mo - t) then [AskKeyframe] else [])"
    using assms(4) by (auto simp: await_keyframe_def sendIdrRequestThrottled_def split: option.split)
  have call: "relay_call (FramesLost lostFrom lostTo mo) r =
      (if vr_directVideoSend r \<and> 0 \<le> lostFrom \<and> lostFrom \<le> lostTo \<and> lostTo - lostFrom < 16 \<and> list_all (known sent) [lostFrom..lostTo]
       then (r, map (named_as sent) [lostFrom..lostTo])
       else (fst (await_keyframe mo r), (if vr_directVideoSend r \<and> 0 \<le> lostFrom \<and> lostFrom \<le> lostTo \<and> lostTo - lostFrom < 16
                 then map (named_as sent) (takeWhile (known sent) [lostFrom..lostTo]) else []) @ snd (await_keyframe mo r)))"
  proof (cases "vr_directVideoSend r \<and> 0 \<le> lostFrom \<and> lostFrom \<le> lostTo \<and> lostTo - lostFrom < 16")
    case True
    then have n: "name_frames (nat (lostTo - lostFrom + 1)) lostFrom r =
        (map (named_as sent) (takeWhile (known sent) [lostFrom..lostTo]), list_all (known sent) [lostFrom..lostTo])" using names by simp
    show ?thesis
    proof (cases "list_all (known sent) [lostFrom..lostTo]")
      case k: True
      then show ?thesis using True assms(4) by (simp only: relay_call.simps invalidateref_def n if_True simp_thms all[OF k] if_False prod.case bool.case)
    next
      case False
      then show ?thesis using True assms(4) by (simp only: relay_call.simps invalidateref_def n if_True simp_thms if_False prod.case bool.case case_prod_beta fst_conv snd_conv)
    qed
  next
    case False
    then show ?thesis using assms(4) by (simp only: relay_call.simps invalidateref_def if_False simp_thms prod.case bool.case case_prod_beta append_Nil) auto
  qed
  show ?thesis unfolding call Let_def ask[symmetric] by (simp add: untouched)
qed

lemma lost_frame_is_named_witness:
  "snd (relay_call (FramesLost 0 0 (moment_at 30 0)) (fst (relay_run [ChannelIs IsOpen, VideoFrame [1] False 43 0 (moment_at 0 0)]
     (vr_new True False 20000)))) = [InvalidateReference 43]"
proof -
  let ?h = "[ChannelIs IsOpen, VideoFrame [1] False 43 0 (moment_at 0 0)]"
  let ?n = "(vr_new True False 20000)\<lparr>vr_videoDc := IsOpen\<rparr>" and ?mo = "moment_at 0 0"
  let ?w = "wire ?h (vr_new True False 20000)" and ?r = "fst (relay_run ?h (vr_new True False 20000))"
  have shed: "\<not> fst (sb_note (mo_bufferedAmount ?mo) (mo_wallMs ?mo) (vr_backlog ?n))" by code_simp
  have n: "\<not> vr_stopping ?n" "vr_videoDc ?n = IsOpen" "\<not> vr_awaitingIdr ?n" "vr_directVideoSend ?n" "vr_frameId ?n = 0"
    by (simp_all add: vr_new_def)
  have call: "fst (relay_call (VideoFrame [1] False 43 0 ?mo) ?n) = fst (transmit [1] False 0 43 ?mo (snd (note_backlog ?mo ?n)))"
    using n(1-3) shed by (simp add: handleVideoFrame_def route_frame_def sendFragmented_def case_prod_beta untouched moment_at_def)
  have r: "?r = fst (transmit [1] False 0 43 ?mo (snd (note_backlog ?mo ?n)))"
    using call by (simp add: case_prod_beta vr_new_def)
  have "vr_frameId (fst (relay_call (VideoFrame [1] False 43 0 ?mo) ?n)) = 1" unfolding call using n(5) by (simp add: transmit_id untouched)
  then have w: "?w = [43]" using n(5) by (simp add: handed_def vr_new_def case_prod_beta del: relay_call.simps(1))
  have s: "\<not> vr_stopping ?r" "vr_directVideoSend ?r"
    unfolding r using n(1,4) by (simp_all add: transmit_def case_prod_beta untouched)
  have l: "length ?w < 2 ^ 31" unfolding w by simp
  define r where "r = ?r"
  have d: "vr_directVideoSend r" using s(2) by (simp only: r_def)
  have k: "known [43] 0" and u: "list_all (known [43]) [0..0]" by code_simp+
  have m: "named_as [43] 0 = InvalidateReference 43" by (simp add: named_as_def)
  show ?thesis using lost_frame_is_named[OF l s(1), of 0 0 "moment_at 30 0"] unfolding w r_def[symmetric]
    by (simp add: case_prod_beta Let_def d u k m del: relay_call.simps upto.simps)
qed

section \<open>Where the gate closes for nothing, and where it stays open\<close>

text \<open>A keyframe that evicts the delta waiting before it is followed by nothing that was made from that delta; the relay closes the
  gate all the same and asks for another.\<close>

definition one_waiting :: "RelayCall list" where
  "one_waiting = [ChannelIs IsOpen, VideoFrame [1] True 0 0 (moment_at 0 0), SenderTurn, VideoFrame [2] False 1 16 (moment_at 16 0)]"

lemma keyframe_closes_the_gate:
  "map jb_body (fq_queue (vr_sender (fst (relay_run (one_waiting @ [VideoFrame [3] True 2 32 (moment_at 32 0)]) (vr_new False False 20000))))) =
     [Whole [3]]"
  "vr_awaitingIdr (fst (relay_run (one_waiting @ [VideoFrame [3] True 2 32 (moment_at 32 0)]) (vr_new False False 20000)))"
  "snd (relay_run (one_waiting @ [VideoFrame [3] True 2 32 (moment_at 32 0)]) (vr_new False False 20000)) = [AskKeyframe]"
  by code_simp+

text \<open>A delta that comes between the opening of the channel and the keyframe kept for it goes out first; the next delta then follows
  the keyframe on the wire though it was made from the one before.\<close>

definition overtaken :: "RelayCall list" where
  "overtaken = [ChannelIs NotOpen, VideoFrame [1] True 0 0 (moment_at 0 0), ChannelIs IsOpen,
     VideoFrame [2] False 1 16 (moment_at 16 0), SenderTurn, SendBuffered (moment_at 17 0), VideoFrame [3] False 2 33 (moment_at 33 0)]"

lemma delta_overtakes_keyframe:
  "map (\<lambda>j. (jb_frameId j, jb_body j)) (fq_queue (vr_sender (fst (relay_run overtaken (vr_new False False 20000))))) =
     [(1, Whole [1]), (2, Whole [3])]"
  "\<not> vr_awaitingIdr (fst (relay_run overtaken (vr_new False False 20000)))"
  "snd (relay_run overtaken (vr_new False False 20000)) = []"
  by code_simp+

end
