(* ===== verification/Spec2Isabelle.thy ===== *)
theory Spec2Isabelle
  imports Rate_Control Rate_Governor Encode_Load_Cap Reference_Slots Parameter_Sets Frame_Cadence Cadence_Align
    Capture_Gates Audio_Path Request_Guard Session_Pool Link_Watch Tunnel_Frame Input_Messages Router_Ports Share_Promises Web_Promises Encoder_Selection Video_Promises
begin

text \<open>
  The parts of MoonlightWeb that decide something, modelled from the code under \<open>src/backend\<close> (paths below
  are relative to it). The program streams a desktop to a browser: a native host captures, encodes and sends, a
  server carries the control and input channels, and a router is asked for a way in. Most of its logic is in small
  classes without I/O that the platform code calls; those are modelled whole, operation by operation, and composed
  as their callers compose them.

  \<^bold>\<open>Conventions.\<close> A class is a record with its data members under their names; a method is a definition that
  returns the record updated, under the method's name or with a short prefix where two classes share it
  (\<open>gov_report\<close> is \<open>RateGovernor::report\<close>). \<open>MW_Prelude\<close> holds what all theories share: C++ division and
  remainder, 32 and 64-bit wrap-around, counting of run lengths, and the collection \<open>tunables\<close> of the code's
  constants. Microsecond and millisecond clocks and kbps are mathematical integers (a product of kbps wraps in the code
  for settings beyond any network); the text of requests is bytes, trimmed and lowered over ASCII where Qt follows Unicode; where the code's width can be
  reached (frame ids, sample indices, bit codes, port numbers, key codes) it is kept, as a word or a bound. A call
  sequence is a datatype of calls and a \<open>fold\<close>, so an invariant is proved call by call and holds of every history.

  \<^bold>\<open>The encoder's rate and pictures.\<close>
  \<open>Rate_Control\<close> (\<open>native-host/src/encode/RateControl.h\<close>): the cadence the budget is dimensioned for, the scaled
  bitrate, link occupancy and the quality bursts of a still picture, with the verdict of every pass.
  \<open>Rate_Governor\<close> (\<open>RateGovernor.h\<close>): target bitrate from receiver reports; bounds, and exactly when it rises.
  \<open>Encode_Load_Cap\<close> (\<open>EncodeLoadCap.h\<close>): the ladder of picture sizes; each window's verdict, no oscillation.
  \<open>Reference_Slots\<close> (\<open>ReferenceSlots.h\<close>): long-term reference slots; a loss is healed from a clean picture.
  \<open>Bit_Stream\<close>, \<open>H264_Vui\<close> (\<open>H264Vui.h\<close>): the bit reader and writer as inverse of each other, emulation
  prevention, the rewrite of a driver's H.264 parameter set so that a decoder does not reorder.
  \<open>Parameter_Sets\<close> (\<open>ParameterSets.h\<close>): H.264 and HEVC parameter sets and slice headers, read back by a decoder
  made of the reader's operations.

  \<^bold>\<open>Choosing.\<close>
  \<open>Display_Kinds\<close>, \<open>Encoder_Selection\<close> (\<open>native-host/src/core/Selector.cpp\<close>, \<open>Capabilities.cpp\<close>): display, GPU, encoder,
  codec and size of a session; what is granted is what both sides have, the picture stays inside the display, a frame
  for a block encoder is whole blocks. \<open>Double_Math\<close> is the arithmetic of \<open>double\<close>: rationals rounded to 53 bits, so
  the bounds hold of the rounded computation; conversions to \<open>int\<close> that would overflow are outside it.

  \<^bold>\<open>Capture and audio.\<close>
  \<open>Frame_Cadence\<close>, \<open>Cadence_Align\<close> (\<open>native-host/src/core\<close>): which presents are encoded, and the rate that
  divides the client's display; the search is a loop with fuel, and it is proved to return.
  \<open>Capture_Gates\<close> (\<open>CursorPositionGate.h\<close>, \<open>RestartBackoff.h\<close>): cursor messages, retry delays.
  \<open>Audio_Path\<close> (\<open>native-host/src/audio/AudioPacer.h\<close>, \<open>AudioInterleave.h\<close>): the queue between capture and
  encoder; nothing lost but what is counted, bounded latency.

  \<^bold>\<open>Server.\<close>
  \<open>Connection_Guard\<close> (\<open>src/server/ConnectionGuard.cpp\<close>): rate limits and bans per address.
  \<open>Request_Guard\<close> (\<open>RequestGuard.cpp\<close>, \<open>NetClassify.h\<close>): the access decision of a request.
  \<open>Share_Manager\<close> (\<open>ShareManager.cpp\<close>): the owner's invitations, their file and restarts; one invitation, one
  device, which no call lengthens and ten wrong PINs end.
  \<open>Auth_Addresses\<close>, \<open>Auth_Manager\<close>, \<open>Auth_Life\<close>, \<open>Auth_Promises\<close> (\<open>AuthManager.cpp\<close>): sign-in, sessions, keys and the
  admin password; the state and its operations, the calls with restarts and the invariant of table, file and keys,
  and what no sequence of calls undoes.
  \<open>Http_Parser\<close> (\<open>HttpParser.cpp\<close>, \<open>HttpServer::onReadyReadSocket\<close> and \<open>sendResponse\<close>): one request out of the bytes
  of a socket, however they are cut, and the bytes of an answer, which no header value can split.
  \<open>Rest_Router\<close> (\<open>RestRouter.cpp\<close>), \<open>Static_Files\<close> (\<open>StaticFileHandler.cpp\<close>): the handler a request reaches, the files.
  \<open>Http_Server\<close> (\<open>HttpServer.cpp\<close>): what stands between them and the outside, for a socket, a tunnel and a WebSocket:
  a handler runs only by right, and a revoked browser is a stranger.
  \<open>Auth_Routes\<close>, \<open>Web_Promises\<close> (\<open>routes/AuthRoutes.cpp\<close>; the host key and the certificate switch of
  \<open>routes/SystemRoutes.cpp\<close>): the handlers as the calls they make on \<open>AuthManager\<close>, the rotation of the local key
  included, and the home-screen files a server answers itself; the whole way from a request to the state, which keeps
  the bargain the promises of \<open>Auth_Promises\<close> rest on, and what a stranger can and cannot do.
  \<open>Share_Routes\<close>, \<open>Share_Promises\<close> (\<open>routes/ShareRoutes.cpp\<close>, the gate of a player's WebSocket in \<open>main.cpp\<close>): the
  routes of an owner and of a guest as calls on \<open>ShareManager\<close>, with the call the two callbacks that start and stop a
  player's stream make on it; a stream starts only with a link and the device of the
  same invitation, and no request of a guest undoes an eviction.
  \<open>Session_Pool\<close> (\<open>SessionPool.cpp\<close>): stream slots and their ports.
  \<open>Tunnel_Frame\<close> (\<open>TunnelFrame.h\<close>, \<open>ControlTunnel::sendResponse\<close>): framing of HTTP over a data channel.
  \<open>Router_Ports\<close> (\<open>src/network/RouterPortCore.cpp\<close>): port claims on a shared router.

  \<^bold>\<open>Streaming.\<close>
  \<open>Link_Watch\<close> (\<open>HostLagTracker.h\<close>, \<open>LinkFreezeLog.h\<close>, \<open>SendBacklog.h\<close>): health of the link.
  \<open>Input_Watchdog\<close> (\<open>InputWatchdog.cpp\<close> and its use in \<open>NativeMediaEngine.cpp\<close>): what is held on the host, beside a
  model of the host itself: keys, character keys, buttons, the full state of every pad, and what was done once.
  \<open>Input_Messages\<close> (\<open>InputMessageCodec.h\<close>, \<open>InputPolicy.h\<close>, \<open>DataChannelRelay::onInputMessage\<close>, the
  input calls of \<open>NativeMediaEngine.cpp\<close>, \<open>MoonlightShim.cpp\<close> and \<open>ClipboardBridge.cpp\<close>): from a JSON message of any
  type to the watchdog and the host, permissions included.
  \<open>Frame_Sender\<close> (\<open>FrameSender.cpp\<close>): the chunks of a frame and the queue of frames that wait; every frame is sent whole,
  waiting, cut short by a closed or failing channel, thrown away at the stop or evicted and named, and the chunks of a frame give it back.
  \<open>Hevc_Patch\<close>, \<open>Video_Relay\<close>, \<open>Video_Promises\<close> (\<open>DataChannelRelay.cpp\<close>): the parameter sets of the first HEVC keyframe
  rewritten, and the video path from the engine to the sender: back pressure, the requests for a keyframe, the keyframe
  that waits for the channel, the names of lost frames. Unless the stream rides out losses, none is sent after a
  lost delta before a keyframe; the picture recovers once the link drains, requests are spaced, a receiver's lost frame is the engine's.

  \<^bold>\<open>Parameters.\<close> Code that is not in the repository is an argument: Qt's address parser (\<open>QtNet\<close>, \<open>QtWeb\<close>), the
  digest and tidying of a share's strings (\<open>QtShare\<close>), the digests and encodings of the sign-in (\<open>QtAuth\<close>), its
  URL and number readers (\<open>QtHttp\<close>), its JSON reader, \<open>qAbs\<close> at the one value where it matters, and the router (the locale \<open>upnp_router\<close>, interpreted by
  the table the repository's own tests use).

  \<^bold>\<open>Not modelled.\<close> Platform capture, conversion, encoders and input sinks (they call the operating system and GPU
  drivers), the sockets and TLS of the HTTP server, the timeout of a handler that does not answer, the contents of the
  application's manifest and what is rewritten for a home-screen shortcut, the routes over hosts and streams (the callbacks
  of \<open>ShareRoutesDeps\<close> are parameters, but for their calls on \<open>ShareManager\<close>), pairing and
  its cryptography, the peer connection, audio track and statistics of the relays, the clipboard's contents, installers, the web frontend, vendored libraries, tools and tests.
\<close>

end
